(* ===== verification/Lodax_Prelude.thy ===== *)
theory Lodax_Prelude
  imports Main "HOL-Library.Word" "HOL-Library.Multiset" "HOL-Library.Monad_Syntax"
begin

text \<open>
  Shared vocabulary of the LodaxOS development: the machine-integer types of the Rust
  sources, their checked and saturating arithmetic, the bit counting operations of
  \<^verbatim>\<open>core\<close>, and the generic facts on words, lists and multisets that the component
  theories rewrite with.

  Conventions. The repository's build scripts produce the \<^verbatim>\<open>dev\<close> profile with
  \<^verbatim>\<open>panic = "abort"\<close>: plain \<open>+\<close>, \<open>-\<close> and \<open>*\<close> on machine integers abort on overflow.
  A function that can abort returns an \<open>option\<close>; \<open>None\<close> is the abort. Atomic
  \<^verbatim>\<open>fetch_add\<close> and \<^verbatim>\<open>fetch_sub\<close> and the \<^verbatim>\<open>wrapping_*\<close> operations wrap, as words do.
\<close>

unbundle bit_operations_syntax

section \<open>Machine integers\<close>

type_synonym u8 = "8 word"
type_synonym u16 = "16 word"
type_synonym u32 = "32 word"
type_synonym u64 = "64 word"

text \<open>Table indices and identifiers (\<^verbatim>\<open>usize\<close>, \<^verbatim>\<open>u32\<close>) that are never computed with
  beyond bounds checks are naturals; \<open>U32_MAX\<close> is the invalid identifier.\<close>

definition U32_MAX :: nat where "U32_MAX = 4294967295"

named_theorems unat_simps \<open>unsigned values of machine-integer operations\<close>
named_theorems phys_mset \<open>multiset equations of the free lists\<close>

definition checked_add :: "'a::len word \<Rightarrow> 'a word \<Rightarrow> 'a word option" where
  "checked_add a b = (if unat a + unat b < 2 ^ LENGTH('a) then Some (a + b) else None)"

definition checked_sub :: "'a::len word \<Rightarrow> 'a word \<Rightarrow> 'a word option" where
  "checked_sub a b = (if b \<le> a then Some (a - b) else None)"

definition checked_mul :: "'a::len word \<Rightarrow> 'a word \<Rightarrow> 'a word option" where
  "checked_mul a b = (if unat a * unat b < 2 ^ LENGTH('a) then Some (a * b) else None)"

definition saturating_add :: "'a::len word \<Rightarrow> 'a word \<Rightarrow> 'a word" where
  "saturating_add a b = (if unat a + unat b < 2 ^ LENGTH('a) then a + b else - 1)"

definition saturating_sub :: "'a::len word \<Rightarrow> 'a word \<Rightarrow> 'a word" where
  "saturating_sub a b = (if b \<le> a then a - b else 0)"

lemma checked_add_Some_iff:
  "checked_add a b = Some c \<longleftrightarrow> unat (a :: 'a::len word) + unat b < 2 ^ LENGTH('a) \<and> c = a + b"
  by (auto simp: checked_add_def)

lemma checked_add_unat [unat_simps]:
  "checked_add a b = Some c \<Longrightarrow> unat c = unat a + unat b"
  by (auto simp: checked_add_def unat_word_ariths split: if_splits)

lemma checked_add_le: "checked_add a b = Some c \<Longrightarrow> a \<le> c \<and> b \<le> c"
  by (simp add: word_le_nat_alt checked_add_unat)

lemma checked_sub_unat [unat_simps]:
  "checked_sub a b = Some c \<Longrightarrow> unat c = unat a - unat b \<and> unat b \<le> unat a"
  by (auto simp: checked_sub_def word_le_nat_alt unat_sub split: if_splits)

lemma checked_mul_unat [unat_simps]:
  "checked_mul a b = Some c \<Longrightarrow> unat c = unat a * unat b"
  by (auto simp: checked_mul_def unat_word_ariths split: if_splits)

lemma saturating_add_unat [unat_simps]:
  "unat (saturating_add a b :: 'a::len word) = min (unat a + unat b) (2 ^ LENGTH('a) - 1)"
proof (cases "unat a + unat b < 2 ^ LENGTH('a)")
  case True
  then show ?thesis by (simp add: saturating_add_def unat_word_ariths)
next
  case False
  then show ?thesis by (simp add: saturating_add_def unsigned_minus_1_eq_mask mask_eq_exp_minus_1)
qed

lemma saturating_sub_unat [unat_simps]:
  "unat (saturating_sub a b :: 'a::len word) = unat a - unat b"
  by (auto simp: saturating_sub_def unat_sub word_le_nat_alt)

lemma unat_add_noof [unat_simps]:
  "unat (a :: 'a::len word) + unat b < 2 ^ LENGTH('a) \<Longrightarrow> unat (a + b) = unat a + unat b"
  by (simp add: unat_word_ariths)

lemma unat_two_power [unat_simps]:
  assumes "n < LENGTH('a)" shows "unat (2 ^ n :: 'a::len word) = 2 ^ n"
proof -
  have "unat (of_nat (2 ^ n) :: 'a word) = 2 ^ n"
    using assms by (simp only: unsigned_of_nat) (simp add: take_bit_nat_eq_self)
  then show ?thesis by simp
qed

lemma push_bit_one [simp]: "push_bit n 1 = (2 ^ n :: 'a::len word)"
  by (simp add: push_bit_eq_mult)

lemma unat64_bound: "unat (b :: u64) < 2 ^ 64"
proof -
  have "unat b < 2 ^ LENGTH(64)" by (rule unsigned_less)
  then show ?thesis by simp
qed

lemma unat64_of_nat: "n < 2 ^ 64 \<Longrightarrow> unat (of_nat n :: u64) = n"
  by (simp add: unsigned_of_nat take_bit_nat_eq_self)

section \<open>Bit counting\<close>

definition trailing_zeros :: "u64 \<Rightarrow> nat" where
  "trailing_zeros w = length (takeWhile (\<lambda>i. \<not> bit w i) [0..<64])"

definition leading_zeros :: "u64 \<Rightarrow> nat" where
  "leading_zeros w = length (takeWhile (\<lambda>i. \<not> bit w (63 - i)) [0..<64])"

lemma takeWhile_upt_below:
  assumes "i < length (takeWhile P [0..<n])"
  shows "P i"
proof -
  have "i < n" using assms length_takeWhile_le [of P "[0..<n]"] by simp
  then have "takeWhile P [0..<n] ! i = i" using assms by (simp add: takeWhile_nth)
  moreover have "P (takeWhile P [0..<n] ! i)"
    using assms nth_mem set_takeWhileD by fastforce
  ultimately show ?thesis by simp
qed

lemma takeWhile_upt_stop:
  assumes "length (takeWhile P [0..<n]) < n"
  shows "\<not> P (length (takeWhile P [0..<n]))"
  using nth_length_takeWhile [of P "[0..<n]"] assms by simp

lemma bit_unat_le:
  assumes "bit (w :: 'a::len word) m" shows "2 ^ m \<le> unat w"
proof -
  have "bit (unat w) m"
    using assms bit_imp_le_length [OF assms] by (simp add: bit_unsigned_iff)
  then have "odd (unat w div 2 ^ m)"
    by (rule bit_iff_odd [THEN iffD1])
  then show ?thesis by (cases "unat w < 2 ^ m") auto
qed

lemma unat_less_bits:
  assumes "\<And>i. m \<le> i \<Longrightarrow> \<not> bit (w :: 'a::len word) i"
  shows "unat w < 2 ^ m"
proof -
  have "take_bit m (unat w) = unat w"
  proof (rule bit_eqI)
    fix i
    show "bit (take_bit m (unat w)) i = bit (unat w) i"
      using assms [of i] by (cases "m \<le> i") (auto simp: bit_take_bit_iff bit_unsigned_iff)
  qed
  then show ?thesis by (metis take_bit_nat_less_exp)
qed

lemma dvd_unat_bits:
  assumes "\<And>i. i < m \<Longrightarrow> \<not> bit (w :: 'a::len word) i"
  shows "2 ^ m dvd unat w"
proof -
  have "take_bit m (unat w) = 0"
    by (rule bit_eqI) (use assms in \<open>auto simp: bit_take_bit_iff bit_unsigned_iff\<close>)
  then show ?thesis by (simp add: take_bit_eq_0_iff)
qed

lemma trailing_zeros_dvd: "m \<le> trailing_zeros w \<Longrightarrow> 2 ^ m dvd unat w"
  unfolding trailing_zeros_def by (rule dvd_unat_bits) (metis order_less_le_trans takeWhile_upt_below)

lemma leading_zeros_le [simp]: "leading_zeros w \<le> 64"
  using length_takeWhile_le [of "\<lambda>i. \<not> bit w (63 - i)" "[0..<64]"] by (simp add: leading_zeros_def)

lemma leading_zeros_upper: "unat w < 2 ^ (64 - leading_zeros w)"
proof (rule unat_less_bits)
  fix i assume i: "64 - leading_zeros w \<le> i"
  show "\<not> bit w i"
  proof (cases "i < 64")
    case True
    then have "63 - i < leading_zeros w" using i by simp
    from takeWhile_upt_below [OF this [unfolded leading_zeros_def]]
    show ?thesis using True by simp
  next
    case False
    then show ?thesis using bit_imp_le_length [of w i] by auto
  qed
qed

lemma leading_zeros_lower:
  assumes "w \<noteq> 0" shows "leading_zeros w < 64" "2 ^ (63 - leading_zeros w) \<le> unat w"
proof -
  show lt: "leading_zeros w < 64"
  proof (rule ccontr)
    assume "\<not> leading_zeros w < 64"
    then have "unat w < 2 ^ 0" using leading_zeros_upper [of w] by simp
    then show False using assms by (simp add: unat_eq_0)
  qed
  then have "bit w (63 - leading_zeros w)"
    using takeWhile_upt_stop [of "\<lambda>i. \<not> bit w (63 - i)" 64] by (simp add: leading_zeros_def)
  then show "2 ^ (63 - leading_zeros w) \<le> unat w" by (rule bit_unat_le)
qed

lemma leading_zeros_one [simp]: "leading_zeros 1 = 63"
proof (rule ccontr)
  assume "leading_zeros 1 \<noteq> 63"
  then have "1 \<le> 63 - leading_zeros 1" using leading_zeros_lower(1) [of 1] by simp
  then have "(2 :: nat) ^ 1 \<le> 2 ^ (63 - leading_zeros 1)" by (rule power_increasing) simp
  then show False using leading_zeros_lower(2) [of 1] by simp
qed

section \<open>Bounded quantifiers on concrete bounds\<close>

lemma all_less_upt: "(\<forall>k<n :: nat. P k) \<longleftrightarrow> list_all P [0..<n]"
  by (auto simp: list_all_iff)

section \<open>Sequencing\<close>

lemma bind_SomeE:
  assumes "Option.bind f g = Some y" obtains x where "f = Some x" "g x = Some y"
  using assms by (cases f) auto

lemma bind_pair_SomeE:
  assumes "Option.bind f (\<lambda>(a, b). g a b) = Some y" obtains a b where "f = Some (a, b)" "g a b = Some y"
  using assms by (cases f) auto

section \<open>Little-endian integers\<close>

fun le_bytes :: "u8 list \<Rightarrow> nat" where
  "le_bytes [] = 0"
| "le_bytes (b # bs) = unat b + 256 * le_bytes bs"

fun to_le :: "nat \<Rightarrow> nat \<Rightarrow> u8 list" where
  "to_le 0 v = []"
| "to_le (Suc n) v = of_nat (v mod 256) # to_le n (v div 256)"

text \<open>The little-endian number in \<open>n\<close> bytes at an offset.\<close>

definition rd :: "u8 list \<Rightarrow> nat \<Rightarrow> nat \<Rightarrow> nat" where
  "rd bin off n = le_bytes (take n (drop off bin))"

lemma length_to_le [simp]: "length (to_le n v) = n"
  by (induction n arbitrary: v) simp_all

lemma le_bytes_to_le: "v < 256 ^ n \<Longrightarrow> le_bytes (to_le n v) = v"
proof (induction n arbitrary: v)
  case (Suc n)
  have u: "unat (of_nat (v mod 256) :: u8) = v mod 256" by (simp add: unat_of_nat take_bit_eq_mod)
  have "v div 256 < 256 ^ n" using Suc.prems by (simp add: less_mult_imp_div_less)
  then show ?case using Suc.IH [of "v div 256"] u by simp
qed simp

section \<open>Invariants of step relations\<close>

text \<open>A predicate that every step keeps holds in every state reached from one where it holds.\<close>

locale step_invariant =
  fixes step :: "'s \<Rightarrow> 's \<Rightarrow> bool" and inv :: "'s \<Rightarrow> bool"
  assumes keep: "step s s' \<Longrightarrow> inv s \<Longrightarrow> inv s'"
begin

lemma reach: "step\<^sup>*\<^sup>* s s' \<Longrightarrow> inv s \<Longrightarrow> inv s'"
  by (induction rule: rtranclp_induct) (auto intro: keep)

lemma reach_consequence: "step\<^sup>*\<^sup>* s s' \<Longrightarrow> inv s \<Longrightarrow> (\<And>t. inv t \<Longrightarrow> P t) \<Longrightarrow> P s'"
  using reach by blast

end

end
