(* ===== verification/Phys.thy ===== *)
theory Phys
  imports Lodax_Prelude
begin

text \<open>
  The physical page allocator, \<^verbatim>\<open>kernel/src/mm/phys.rs\<close>: one zone, eleven free lists of
  power-of-two blocks, per-page reference counts and the reserved page ranges. The
  intrusive singly linked lists of the source are lists of block addresses here, head
  first; \<^verbatim>\<open>Free_List\<close> shows that the pointer code implements them. Each operation is one
  state transformer: its effect when no other CPU enters the allocator meanwhile. The source
  takes one lock per order and releases it between two orders (in \<^verbatim>\<open>alloc_order\<close> and
  \<^verbatim>\<open>coalesce\<close>), so interleavings of two operations in the middle of a search or a merge
  are outside the model.
\<close>

section \<open>State\<close>

definition PAGE_SIZE :: u64 where "PAGE_SIZE = 0x1000"
definition MAX_ORDER :: nat where "MAX_ORDER = 10"
definition BOOTINFO_HANDOFF_PAGE :: u64 where "BOOTINFO_HANDOFF_PAGE = 0x5000"
definition REFCOUNT_MAX_PAGES :: nat where "REFCOUNT_MAX_PAGES = 32768"
definition USIZE_MAX :: u64 where "USIZE_MAX = - 1"

record phys_state =
  zone_base :: u64
  zone_top :: u64
  free_lists :: "u64 list list"
  zone_total_pages :: u64
  zone_free_pages :: u64
  refcounts :: "nat \<Rightarrow> u16"
  bootinfo_reserved_pn :: u64
  bootinfo_reserved_pages :: u64
  kernel_reserved_pn :: u64
  kernel_reserved_pages :: u64
  initialized :: bool

definition phys_boot :: phys_state where
  "phys_boot = \<lparr> zone_base = 0, zone_top = 0, free_lists = replicate (MAX_ORDER + 1) [],
     zone_total_pages = 0, zone_free_pages = 0, refcounts = (\<lambda>_. 1),
     bootinfo_reserved_pn = USIZE_MAX, bootinfo_reserved_pages = 0,
     kernel_reserved_pn = USIZE_MAX, kernel_reserved_pages = 0, initialized = False \<rparr>"

section \<open>Address arithmetic and reserved pages\<close>

definition align_down :: "u64 \<Rightarrow> u64 \<Rightarrow> u64" where
  "align_down x algn = x AND NOT (algn - 1)"

definition align_up :: "u64 \<Rightarrow> u64 \<Rightarrow> u64" where
  "align_up x algn = saturating_add x (algn - 1) AND NOT (algn - 1)"

definition block_size :: "nat \<Rightarrow> u64" where
  "block_size order = push_bit order 1 * PAGE_SIZE"

text \<open>The bound of a reserved range is a \<^verbatim>\<open>usize\<close> sum in the source. The ranges that
  \<^verbatim>\<open>init_from_regions\<close> records never wrap it (\<^verbatim>\<open>Phys_Reserve\<close>, \<open>in_reserved_word\<close>,
  \<open>record_kernel_sum\<close>, \<open>bootinfo_sum\<close>), so it is written over the naturals.\<close>

definition in_reserved :: "u64 \<Rightarrow> u64 \<Rightarrow> u64 \<Rightarrow> bool" where
  "in_reserved base pages pn \<longleftrightarrow>
     base \<noteq> USIZE_MAX \<and> pages \<noteq> 0 \<and> base \<le> pn \<and> unat pn < unat base + unat pages"

definition is_reserved_page :: "phys_state \<Rightarrow> u64 \<Rightarrow> bool" where
  "is_reserved_page z pn \<longleftrightarrow>
     pn = 0 \<or> pn = BOOTINFO_HANDOFF_PAGE div PAGE_SIZE
     \<or> in_reserved (bootinfo_reserved_pn z) (bootinfo_reserved_pages z) pn
     \<or> in_reserved (kernel_reserved_pn z) (kernel_reserved_pages z) pn"

section \<open>Free list operations\<close>

definition add_block :: "phys_state \<Rightarrow> u64 \<Rightarrow> nat \<Rightarrow> phys_state" where
  "add_block z phys order = z\<lparr>
     free_lists := (free_lists z)[order := phys # free_lists z ! order],
     zone_free_pages := zone_free_pages z + push_bit order 1 \<rparr>"

definition pop_block :: "phys_state \<Rightarrow> nat \<Rightarrow> phys_state \<times> u64 option" where
  "pop_block z order = (case free_lists z ! order of
       [] \<Rightarrow> (z, None)
     | head # rest \<Rightarrow>
         (z\<lparr> free_lists := (free_lists z)[order := rest],
             zone_free_pages := zone_free_pages z - push_bit order 1 \<rparr>, Some head))"

definition remove_block :: "phys_state \<Rightarrow> u64 \<Rightarrow> nat \<Rightarrow> phys_state \<times> bool" where
  "remove_block z target order =
     (if target \<in> set (free_lists z ! order) then
        (z\<lparr> free_lists := (free_lists z)[order := remove1 target (free_lists z ! order)],
            zone_free_pages := zone_free_pages z - push_bit order 1 \<rparr>, True)
      else (z, False))"

definition chunk_order :: "u64 \<Rightarrow> u64 \<Rightarrow> nat" where
  "chunk_order addr stop =
     (let remaining = stop - addr;
          align_zeros = trailing_zeros (addr div PAGE_SIZE);
          max_pages = remaining div PAGE_SIZE;
          max_fit = (if max_pages \<le> 1 then 0 else 63 - leading_zeros (max_pages - 1))
      in min MAX_ORDER (min align_zeros max_fit))"

lemma chunk_order_le: "chunk_order addr stop \<le> MAX_ORDER"
  by (simp add: chunk_order_def Let_def)

lemma unat_block_size:
  assumes "order \<le> MAX_ORDER" shows "unat (block_size order) = 4096 * 2 ^ order"
proof -
  have "unat (2 ^ order :: u64) = 2 ^ order"
    using assms by (simp add: unat_two_power MAX_ORDER_def)
  moreover have "(2 :: nat) ^ order \<le> 2 ^ 10"
    using assms by (intro power_increasing) (simp_all add: MAX_ORDER_def)
  ultimately show ?thesis
    by (simp add: block_size_def PAGE_SIZE_def unat_word_ariths)
qed

function carve_range :: "phys_state \<Rightarrow> u64 \<Rightarrow> u64 \<Rightarrow> phys_state option" where
  "carve_range z addr stop =
     (if addr < stop then
        let order = chunk_order addr stop in
        case checked_add addr (block_size order) of
          None \<Rightarrow> None
        | Some addr' \<Rightarrow> carve_range (add_block z addr order) addr' stop
      else Some z)"
  by pat_completeness auto
termination
  by (relation "measure (\<lambda>(z, addr, stop). unat stop - unat addr)")
    (auto simp: checked_add_unat unat_block_size chunk_order_le word_less_nat_alt
      intro!: diff_less_mono2)

declare carve_range.simps [simp del]

function coalesce :: "phys_state \<Rightarrow> u64 \<Rightarrow> nat \<Rightarrow> phys_state" where
  "coalesce z addr order =
     (if MAX_ORDER \<le> order then add_block z addr order
      else
        let buddy = addr XOR block_size order;
            (z', found) = remove_block z buddy order
        in if found then coalesce z' (min addr buddy) (order + 1)
           else add_block z' addr order)"
  by pat_completeness auto
termination
  by (relation "measure (\<lambda>(z, addr, order). MAX_ORDER - order)") auto

declare coalesce.simps [simp del]

section \<open>Removing and reserving ranges\<close>

definition range_overlaps :: "u64 \<Rightarrow> u64 \<Rightarrow> u64 \<Rightarrow> u64 \<Rightarrow> bool" where
  "range_overlaps a_start a_end b_start b_end \<longleftrightarrow> a_start < b_end \<and> b_start < a_end"

definition TO_CARVE_LEN :: nat where "TO_CARVE_LEN = 64"

fun push_carve :: "bool \<Rightarrow> u64 \<times> u64 \<Rightarrow> (u64 \<times> u64) list \<Rightarrow> (u64 \<times> u64) list" where
  "push_carve cond piece to_carve =
     (if cond \<and> length to_carve < TO_CARVE_LEN then to_carve @ [piece] else to_carve)"

fun remove_walk :: "nat \<Rightarrow> u64 \<Rightarrow> u64 \<Rightarrow> u64 list \<Rightarrow> (u64 \<times> u64) list
    \<Rightarrow> (u64 list \<times> nat \<times> (u64 \<times> u64) list) option" where
  "remove_walk order rstart rend [] to_carve = Some ([], 0, to_carve)"
| "remove_walk order rstart rend (cphys # next) to_carve = do {
     cend \<leftarrow> checked_add cphys (block_size order);
     if range_overlaps cphys cend rstart rend then do {
       (kept, removed, to_carve') \<leftarrow> remove_walk order rstart rend next
          (push_carve (rend < cend) (rend, cend)
            (push_carve (cphys < rstart) (cphys, rstart) to_carve));
       Some (kept, removed + 1, to_carve')
     } else do {
       (kept, removed, to_carve') \<leftarrow> remove_walk order rstart rend next to_carve;
       Some (cphys # kept, removed, to_carve')
     }
   }"

fun carve_all :: "phys_state \<Rightarrow> (u64 \<times> u64) list \<Rightarrow> phys_state option" where
  "carve_all z [] = Some z"
| "carve_all z ((cs, ce) # rest) = do { z' \<leftarrow> carve_range z cs ce; carve_all z' rest }"

definition remove_range :: "phys_state \<Rightarrow> u64 \<Rightarrow> u64 \<Rightarrow> nat \<Rightarrow> phys_state option" where
  "remove_range z rstart rend order = do {
     (kept, removed, to_carve) \<leftarrow> remove_walk order rstart rend (free_lists z ! order) [];
     carve_all (z\<lparr> free_lists := (free_lists z)[order := kept],
                   zone_free_pages := zone_free_pages z - of_nat removed * push_bit order 1 \<rparr>)
       to_carve
   }"

fun remove_range_orders :: "phys_state \<Rightarrow> u64 \<Rightarrow> u64 \<Rightarrow> nat list \<Rightarrow> phys_state option" where
  "remove_range_orders z rstart rend [] = Some z"
| "remove_range_orders z rstart rend (order # orders) = do {
     z' \<leftarrow> remove_range z rstart rend order;
     remove_range_orders z' rstart rend orders
   }"

definition reserve_range :: "phys_state \<Rightarrow> u64 \<Rightarrow> u64 \<Rightarrow> phys_state option" where
  "reserve_range z start size_in_pages = do {
     bytes \<leftarrow> checked_mul size_in_pages PAGE_SIZE;
     remove_range_orders z (align_down start PAGE_SIZE)
       (align_up (saturating_add start bytes) PAGE_SIZE) [0..<MAX_ORDER + 1]
   }"

section \<open>Initialisation\<close>

fun is_excluded :: "u64 \<Rightarrow> (u64 \<times> u64) list \<Rightarrow> bool" where
  "is_excluded phys [] \<longleftrightarrow> False"
| "is_excluded phys ((start, sz) # rest) \<longleftrightarrow>
     (phys < saturating_add start sz \<and> start < saturating_add phys PAGE_SIZE)
     \<or> is_excluded phys rest"

definition region_start :: "u64 \<times> u64 \<Rightarrow> u64" where
  "region_start r = align_up (fst r) PAGE_SIZE"

definition region_end :: "u64 \<times> u64 \<Rightarrow> u64" where
  "region_end r = align_down (saturating_add (fst r) (snd r)) PAGE_SIZE"

fun zone_bounds :: "(u64 \<times> u64) list \<Rightarrow> u64 \<times> u64 \<Rightarrow> u64 \<times> u64" where
  "zone_bounds [] (min_addr, max_addr) = (min_addr, max_addr)"
| "zone_bounds (r # rs) (min_addr, max_addr) =
     zone_bounds rs
       (if region_start r < region_end r
        then (min min_addr (region_start r), max max_addr (region_end r))
        else (min_addr, max_addr))"

function scan_region :: "phys_state \<Rightarrow> (u64 \<times> u64) list \<Rightarrow> u64 \<Rightarrow> u64 \<Rightarrow> u64 \<Rightarrow> bool
    \<Rightarrow> phys_state option" where
  "scan_region z exclude_ranges reg_end addr range_start in_range =
     (if addr < reg_end then
        let free = (\<not> is_reserved_page z (addr div PAGE_SIZE) \<and> \<not> is_excluded addr exclude_ranges)
        in case (if \<not> free \<and> in_range then carve_range z range_start addr else Some z) of
             None \<Rightarrow> None
           | Some z' \<Rightarrow>
               (case checked_add addr PAGE_SIZE of
                  None \<Rightarrow> None
                | Some addr' \<Rightarrow>
                    scan_region z' exclude_ranges reg_end addr'
                      (if free \<and> \<not> in_range then addr else range_start)
                      (if free \<and> \<not> in_range then True
                       else if \<not> free \<and> in_range then False else in_range))
      else if in_range then carve_range z range_start reg_end
      else Some z)"
  by pat_completeness auto
termination
  by (relation "measure (\<lambda>(z, ex, reg_end, addr, rs, ir). unat reg_end - unat addr)")
    (auto simp: checked_add_unat word_less_nat_alt PAGE_SIZE_def intro!: diff_less_mono2)

declare scan_region.simps [simp del]

fun carve_regions :: "phys_state \<Rightarrow> (u64 \<times> u64) list \<Rightarrow> (u64 \<times> u64) list
    \<Rightarrow> phys_state option" where
  "carve_regions z exclude_ranges [] = Some z"
| "carve_regions z exclude_ranges (r # rs) =
     (if region_end r \<le> region_start r then carve_regions z exclude_ranges rs
      else do {
        z' \<leftarrow> scan_region z exclude_ranges (region_end r) (region_start r) 0 False;
        carve_regions z' exclude_ranges rs
      })"

definition record_kernel :: "phys_state \<Rightarrow> u64 \<Rightarrow> u64 \<Rightarrow> phys_state option" where
  "record_kernel z kernel_start kernel_size =
     (if 0 < kernel_size then
        let kstart = align_down kernel_start PAGE_SIZE;
            kend = align_up (saturating_add kernel_start kernel_size) PAGE_SIZE
        in do {
          len \<leftarrow> checked_sub kend kstart;
          Some (z\<lparr> kernel_reserved_pn := kstart div PAGE_SIZE,
                   kernel_reserved_pages := len div PAGE_SIZE \<rparr>)
        }
      else Some z)"

text \<open>The size of the \<^verbatim>\<open>BootInfo\<close> structure is fixed by the compiler's layout, so the number
  of its pages, \<open>bi_pages\<close>, is an argument.\<close>

definition init_from_regions :: "phys_state \<Rightarrow> u64 \<Rightarrow> (u64 \<times> u64) list \<Rightarrow> u64 \<Rightarrow> u64 \<Rightarrow> u64
    \<Rightarrow> (u64 \<times> u64) list \<Rightarrow> phys_state option" where
  "init_from_regions z bi_pages regions boot_info_phys kernel_start kernel_size exclude_ranges =
     (if initialized z then Some z
      else do {
        z1 \<leftarrow> record_kernel z kernel_start kernel_size;
        let bootinfo_base = align_down boot_info_phys PAGE_SIZE;
            (min_addr, max_addr) = zone_bounds regions (- 1, 0)
        in do {
          z2 \<leftarrow> carve_regions
            (z1\<lparr> zone_base := (if min_addr = - 1 then 0 else min_addr), zone_top := max_addr,
                 free_lists := replicate (MAX_ORDER + 1) [],
                 zone_total_pages := 0, zone_free_pages := 0,
                 bootinfo_reserved_pn := bootinfo_base div PAGE_SIZE,
                 bootinfo_reserved_pages := bi_pages \<rparr>)
            exclude_ranges regions;
          bytes \<leftarrow> checked_mul bi_pages PAGE_SIZE;
          bootinfo_end \<leftarrow> checked_add bootinfo_base bytes;
          z3 \<leftarrow> remove_range_orders z2 bootinfo_base bootinfo_end [0..<MAX_ORDER + 1];
          Some (z3\<lparr> zone_total_pages := zone_free_pages z3, initialized := True \<rparr>)
        }
      })"

section \<open>Allocation, reference counts and freeing\<close>

definition reset_refcount :: "phys_state \<Rightarrow> u64 \<Rightarrow> nat \<Rightarrow> phys_state" where
  "reset_refcount z phys order =
     (let pn = unat (phys div PAGE_SIZE) in
      if order = 0 \<and> pn < REFCOUNT_MAX_PAGES
      then z\<lparr> refcounts := (refcounts z)(pn := 1) \<rparr> else z)"

fun split_down :: "phys_state \<Rightarrow> u64 \<Rightarrow> nat list \<Rightarrow> (phys_state \<times> u64) option" where
  "split_down z current [] = Some (z, current)"
| "split_down z current (cur_order # rest) = do {
     current' \<leftarrow> checked_add current (block_size cur_order);
     split_down (add_block z current cur_order) current' rest
   }"

fun alloc_search :: "phys_state \<Rightarrow> nat \<Rightarrow> nat list \<Rightarrow> (phys_state \<times> u64 option) option" where
  "alloc_search z order [] = Some (z, None)"
| "alloc_search z order (higher # rest) =
     (case pop_block z higher of
        (z', Some phys) \<Rightarrow> do {
          (z'', current) \<leftarrow> split_down z' phys (rev [order..<higher]);
          Some (reset_refcount z'' current order, Some current)
        }
      | (z', None) \<Rightarrow> alloc_search z' order rest)"

definition alloc_order :: "phys_state \<Rightarrow> nat \<Rightarrow> (phys_state \<times> u64 option) option" where
  "alloc_order z order =
     (if MAX_ORDER < order then Some (z, None)
      else case pop_block z order of
             (z', Some phys) \<Rightarrow> Some (reset_refcount z' phys order, Some phys)
           | (z', None) \<Rightarrow> alloc_search z' order [order + 1..<MAX_ORDER + 1])"

definition ref_page :: "phys_state \<Rightarrow> u64 \<Rightarrow> phys_state" where
  "ref_page z pn =
     (let idx = unat pn in
      if idx < REFCOUNT_MAX_PAGES then
        let old = refcounts z idx;
            z' = z\<lparr> refcounts := (refcounts z)(idx := old + 1) \<rparr>
        in if old = - 1 then z'\<lparr> refcounts := (refcounts z')(idx := - 1) \<rparr> else z'
      else z)"

definition unref_page :: "phys_state \<Rightarrow> u64 \<Rightarrow> phys_state \<times> bool" where
  "unref_page z pn =
     (let idx = unat pn in
      if REFCOUNT_MAX_PAGES \<le> idx then (z, True)
      else let prev = refcounts z idx
           in (z\<lparr> refcounts := (refcounts z)(idx := prev - 1) \<rparr>, prev = 1))"

definition refcount :: "phys_state \<Rightarrow> u64 \<Rightarrow> u16" where
  "refcount z pn =
     (let idx = unat pn in if REFCOUNT_MAX_PAGES \<le> idx then 1 else refcounts z idx)"

definition free_order :: "phys_state \<Rightarrow> u64 \<Rightarrow> nat \<Rightarrow> phys_state option" where
  "free_order z addr order =
     (if MAX_ORDER < order \<or> addr mod PAGE_SIZE \<noteq> 0 then Some z
      else if is_reserved_page z (addr div PAGE_SIZE) then Some z
      else if addr < zone_base z then Some z
      else do {
        stop \<leftarrow> checked_add addr (block_size order);
        if zone_top z < stop then Some z
        else if order = 0 then
          (case unref_page z (addr div PAGE_SIZE) of
             (z', False) \<Rightarrow> Some z'
           | (z', True) \<Rightarrow> Some (coalesce z' addr order))
        else Some (coalesce z addr order)
      })"

definition alloc_page :: "phys_state \<Rightarrow> (phys_state \<times> u64 option) option" where
  "alloc_page z = alloc_order z 0"

definition free_page :: "phys_state \<Rightarrow> u64 \<Rightarrow> phys_state option" where
  "free_page z addr = free_order z addr 0"

function chunk_loop :: "phys_state \<Rightarrow> u64 \<Rightarrow> u64 \<Rightarrow> phys_state option" where
  "chunk_loop z current stop =
     (if current < stop then
        let order = chunk_order current stop in
        case free_order z current order of
          None \<Rightarrow> None
        | Some z' \<Rightarrow>
            (case checked_add current (block_size order) of
               None \<Rightarrow> None
             | Some current' \<Rightarrow> chunk_loop z' current' stop)
      else Some z)"
  by pat_completeness auto
termination
  by (relation "measure (\<lambda>(z, current, stop). unat stop - unat current)")
    (auto simp: checked_add_unat unat_block_size chunk_order_le word_less_nat_alt
      intro!: diff_less_mono2)

declare chunk_loop.simps [simp del]

definition free_pages_chunked :: "phys_state \<Rightarrow> u64 \<Rightarrow> u64 \<Rightarrow> phys_state option" where
  "free_pages_chunked z addr cnt = do {
     bytes \<leftarrow> checked_mul cnt PAGE_SIZE;
     stop \<leftarrow> checked_add addr bytes;
     chunk_loop z addr stop
   }"

definition alloc_pages :: "phys_state \<Rightarrow> u64 \<Rightarrow> (phys_state \<times> u64 option) option" where
  "alloc_pages z cnt =
     (if cnt = 0 then Some (z, None)
      else if cnt = 1 then alloc_page z
      else if push_bit MAX_ORDER 1 < cnt then Some (z, None)
      else
        let order = (if cnt \<le> 1 then 0 else min (64 - leading_zeros (cnt - 1)) MAX_ORDER);
            alloc_count = push_bit order 1
        in do {
          (z', r) \<leftarrow> alloc_order z order;
          (case r of
             None \<Rightarrow> Some (z', None)
           | Some addr \<Rightarrow>
               if cnt < alloc_count then do {
                 bytes \<leftarrow> checked_mul cnt PAGE_SIZE;
                 tail \<leftarrow> checked_add addr bytes;
                 z'' \<leftarrow> free_pages_chunked z' tail (alloc_count - cnt);
                 Some (z'', Some addr)
               } else Some (z', Some addr))
        })"

definition free_pages :: "phys_state \<Rightarrow> u64 \<Rightarrow> u64 \<Rightarrow> phys_state option" where
  "free_pages z addr cnt =
     (if cnt = 0 \<or> is_reserved_page z (addr div PAGE_SIZE) then Some z
      else free_pages_chunked z addr cnt)"

definition free_pages_count :: "phys_state \<Rightarrow> u64" where
  "free_pages_count z = zone_free_pages z"

definition total_pages :: "phys_state \<Rightarrow> u64" where
  "total_pages z = zone_total_pages z"

definition free_counts_per_order :: "phys_state \<Rightarrow> nat list" where
  "free_counts_per_order z = map (\<lambda>order. length (free_lists z ! order)) [0..<MAX_ORDER + 1]"

end
