(* ===== verification/Phys_Correct.thy ===== *)
theory Phys_Correct
  imports Phys
begin

text \<open>
  Correctness of the physical page allocator. The free lists are abstracted to the multiset
  of the page numbers they hold, so that every operation is one multiset equation: what a
  list operation adds or takes is the pages of one block, splitting and merging move pages
  between orders, and the invariant that no page is free twice is that the multiset has no
  repetition.
\<close>

section \<open>Pages of a block, of a list, of the zone\<close>

definition page_of :: "u64 \<Rightarrow> nat" where
  "page_of a = unat a div 4096"

definition block_mset :: "nat \<Rightarrow> u64 \<Rightarrow> nat multiset" where
  "block_mset k a = mset [page_of a ..< page_of a + 2 ^ k]"

definition order_mset :: "nat \<Rightarrow> u64 list \<Rightarrow> nat multiset" where
  "order_mset k xs = (\<Sum>a\<leftarrow>xs. block_mset k a)"

definition lists_mset :: "u64 list list \<Rightarrow> nat multiset" where
  "lists_mset fl = (\<Sum>k<11. order_mset k (fl ! k))"

definition free_mset :: "phys_state \<Rightarrow> nat multiset" where
  "free_mset z = lists_mset (free_lists z)"

definition block_in :: "phys_state \<Rightarrow> nat \<Rightarrow> u64 \<Rightarrow> bool" where
  "block_in z k a \<longleftrightarrow> 4096 * 2 ^ k dvd unat a \<and> unat (zone_base z) \<le> unat a
     \<and> unat a + 4096 * 2 ^ k \<le> unat (zone_top z)"

definition blocks_ok :: "phys_state \<Rightarrow> bool" where
  "blocks_ok z \<longleftrightarrow> length (free_lists z) = 11
     \<and> (\<forall>k<11. \<forall>a\<in>set (free_lists z ! k). block_in z k a)"

definition counted :: "phys_state \<Rightarrow> bool" where
  "counted z \<longleftrightarrow> zone_free_pages z = of_nat (size (free_mset z))"

definition phys_cfg :: "phys_state \<Rightarrow> u64 \<times> u64 \<times> u64 \<times> u64 \<times> u64 \<times> u64" where
  "phys_cfg z = (zone_base z, zone_top z, bootinfo_reserved_pn z, bootinfo_reserved_pages z,
     kernel_reserved_pn z, kernel_reserved_pages z)"

definition phys_inv :: "phys_state \<Rightarrow> bool" where
  "phys_inv z \<longleftrightarrow> blocks_ok z \<and> counted z \<and> (\<forall>p. count (free_mset z) p \<le> 1)
     \<and> (\<forall>p\<in>#free_mset z. \<not> is_reserved_page z (of_nat p))"

text \<open>What every operation keeps of the structure: \<open>phys_step\<close>.\<close>

definition phys_step :: "phys_state \<Rightarrow> phys_state \<Rightarrow> bool" where
  "phys_step z z' \<longleftrightarrow> blocks_ok z' \<and> phys_cfg z' = phys_cfg z \<and> (counted z \<longrightarrow> counted z')"

lemma order_mset_simps [simp]:
  "order_mset k [] = {#}"
  "order_mset k (a # xs) = block_mset k a + order_mset k xs"
  "order_mset k (xs @ ys) = order_mset k xs + order_mset k ys"
  by (simp_all add: order_mset_def)

lemma size_block_mset [simp]: "size (block_mset k a) = 2 ^ k"
  by (simp add: block_mset_def)

lemma count_block_mset: "count (block_mset k a) p = (if page_of a \<le> p \<and> p < page_of a + 2 ^ k then 1 else 0)"
  by (auto simp: block_mset_def distinct_count_atmost_1 count_mset_0_iff)

lemma set_block_mset [simp]: "set_mset (block_mset k a) = {page_of a..<page_of a + 2 ^ k}"
  by (simp add: block_mset_def)

lemma size_order_mset [simp]: "size (order_mset k xs) = length xs * 2 ^ k"
  by (induction xs) auto

lemma set_order_mset: "set_mset (order_mset k xs) = (\<Union>a\<in>set xs. set_mset (block_mset k a))"
  by (induction xs) auto

lemma order_mset_remove1:
  "a \<in> set xs \<Longrightarrow> order_mset k xs = block_mset k a + order_mset k (remove1 a xs)"
  by (induction xs) (auto simp: ac_simps)

lemma lists_mset_update:
  assumes "k < 11" "length fl = 11"
  shows "lists_mset (fl[k := xs]) + order_mset k (fl ! k) = lists_mset fl + order_mset k xs"
proof -
  have split: "(\<Sum>j<11. f j) = f k + (\<Sum>j\<in>{..<11} - {k}. f j)" for f :: "nat \<Rightarrow> nat multiset"
    using assms by (simp add: sum.remove)
  have "(\<Sum>j\<in>{..<11} - {k}. order_mset j (fl[k := xs] ! j)) = (\<Sum>j\<in>{..<11} - {k}. order_mset j (fl ! j))"
    by (rule sum.cong) auto
  then show ?thesis
    unfolding lists_mset_def split using assms by simp
qed

lemma lists_mset_empty [simp]: "lists_mset (replicate 11 []) = {#}"
  by (simp add: lists_mset_def)

lemma order_mset_subset: "k < 11 \<Longrightarrow> order_mset k (fl ! k) \<subseteq># lists_mset fl"
  unfolding lists_mset_def by (subst sum.remove [of _ k]) auto

section \<open>The list operations\<close>

lemma block_in_cfg: "phys_cfg z' = phys_cfg z \<Longrightarrow> block_in z' k a = block_in z k a"
  by (simp add: block_in_def phys_cfg_def)

lemma is_reserved_cfg: "phys_cfg z' = phys_cfg z \<Longrightarrow> is_reserved_page z' p = is_reserved_page z p"
  by (simp add: is_reserved_page_def phys_cfg_def)

lemma phys_step_refl: "blocks_ok z \<Longrightarrow> phys_step z z"
  by (simp add: phys_step_def)

lemma phys_step_trans [trans]: "phys_step z z' \<Longrightarrow> phys_step z' z'' \<Longrightarrow> phys_step z z''"
  by (simp add: phys_step_def)

lemma phys_stepD: "phys_step z z' \<Longrightarrow> blocks_ok z'" "phys_step z z' \<Longrightarrow> phys_cfg z' = phys_cfg z"
  by (simp_all add: phys_step_def)

lemma blocks_ok_update:
  assumes "blocks_ok z" "\<And>a. a \<in> set xs \<Longrightarrow> block_in z k a"
  shows "blocks_ok (z\<lparr> free_lists := (free_lists z)[k := xs], zone_free_pages := n \<rparr>)"
proof -
  have "block_in z j a" if "j < 11" "a \<in> set ((free_lists z)[k := xs] ! j)" for j a
    using assms that by (cases "k = j") (auto simp: blocks_ok_def)
  then show ?thesis using assms(1) by (simp add: blocks_ok_def block_in_def)
qed

lemma phys_cfg_update [simp]:
  "phys_cfg (z\<lparr> free_lists := fl \<rparr>) = phys_cfg z"
  "phys_cfg (z\<lparr> zone_free_pages := n \<rparr>) = phys_cfg z"
  "phys_cfg (z\<lparr> refcounts := r \<rparr>) = phys_cfg z"
  by (simp_all add: phys_cfg_def)

lemma free_mset_update [simp]:
  "free_mset (z\<lparr> free_lists := fl \<rparr>) = lists_mset fl"
  "free_mset (z\<lparr> zone_free_pages := n \<rparr>) = free_mset z"
  "free_mset (z\<lparr> refcounts := r \<rparr>) = free_mset z"
  by (simp_all add: free_mset_def)

lemma add_block_mset [phys_mset]:
  assumes "blocks_ok z" "k \<le> MAX_ORDER"
  shows "free_mset (add_block z a k) = free_mset z + block_mset k a"
  using lists_mset_update [of k "free_lists z" "a # free_lists z ! k"] assms
  by (simp add: add_block_def blocks_ok_def MAX_ORDER_def free_mset_def ac_simps)

lemma add_block_step:
  assumes "blocks_ok z" "k \<le> MAX_ORDER" "block_in z k a"
  shows "phys_step z (add_block z a k)"
proof -
  have "\<And>b. b \<in> set (a # free_lists z ! k) \<Longrightarrow> block_in z k b"
    using assms by (auto simp: blocks_ok_def MAX_ORDER_def)
  then have "blocks_ok (add_block z a k)"
    unfolding add_block_def by (rule blocks_ok_update [OF assms(1)])
  moreover have "counted z \<Longrightarrow> counted (add_block z a k)"
    using add_block_mset [OF assms(1,2), of a]
    by (simp add: counted_def) (simp add: add_block_def)
  ultimately show ?thesis by (simp add: phys_step_def) (simp add: add_block_def)
qed

lemma pop_block_None:
  "pop_block z k = (z', None) \<Longrightarrow> z' = z \<and> free_lists z ! k = []"
  by (auto simp: pop_block_def split: list.splits)

lemma pop_block_Some:
  assumes "blocks_ok z" "k \<le> MAX_ORDER" "pop_block z k = (z', Some a)"
  shows "phys_step z z'" "free_mset z = free_mset z' + block_mset k a" "block_in z k a"
    "refcounts z' = refcounts z"
proof -
  obtain rest where fl: "free_lists z ! k = a # rest"
    and z': "z' = z\<lparr> free_lists := (free_lists z)[k := rest],
             zone_free_pages := zone_free_pages z - push_bit k 1 \<rparr>"
    using assms(3) by (auto simp: pop_block_def split: list.splits)
  have k: "k < 11" "length (free_lists z) = 11"
    using assms by (simp_all add: MAX_ORDER_def blocks_ok_def)
  show "block_in z k a" using assms(1) k fl by (auto simp: blocks_ok_def)
  show eq: "free_mset z = free_mset z' + block_mset k a"
    using lists_mset_update [OF k, of rest] fl by (simp add: z' free_mset_def ac_simps)
  have "blocks_ok z'"
    unfolding z' using assms(1) k fl by (intro blocks_ok_update) (auto simp: blocks_ok_def)
  moreover have "counted z \<Longrightarrow> counted z'"
    unfolding counted_def using eq by (simp add: z')
  ultimately show "phys_step z z'" by (simp add: phys_step_def z')
  show "refcounts z' = refcounts z" by (simp add: z')
qed

lemma remove_block_True:
  assumes "blocks_ok z" "k \<le> MAX_ORDER" "remove_block z a k = (z', True)"
  shows "phys_step z z'" "free_mset z = free_mset z' + block_mset k a" "block_in z k a"
    "refcounts z' = refcounts z"
proof -
  have mem: "a \<in> set (free_lists z ! k)"
    and z': "z' = z\<lparr> free_lists := (free_lists z)[k := remove1 a (free_lists z ! k)],
            zone_free_pages := zone_free_pages z - push_bit k 1 \<rparr>"
    using assms(3) by (auto simp: remove_block_def split: if_splits)
  have k: "k < 11" "length (free_lists z) = 11"
    using assms by (simp_all add: MAX_ORDER_def blocks_ok_def)
  show "block_in z k a" using assms(1) k mem by (auto simp: blocks_ok_def)
  show eq: "free_mset z = free_mset z' + block_mset k a"
    using lists_mset_update [OF k, of "remove1 a (free_lists z ! k)"] order_mset_remove1 [OF mem, of k]
    by (simp add: z' free_mset_def ac_simps)
  have "blocks_ok z'"
    unfolding z' using assms(1) k by (intro blocks_ok_update) (auto simp: blocks_ok_def dest: notin_set_remove1)
  moreover have "counted z \<Longrightarrow> counted z'"
    unfolding counted_def using eq by (simp add: z')
  ultimately show "phys_step z z'" by (simp add: phys_step_def z')
  show "refcounts z' = refcounts z" by (simp add: z')
qed

lemma add_block_refcounts [simp]: "refcounts (add_block z a k) = refcounts z"
  by (simp add: add_block_def)

lemma remove_block_False: "remove_block z a k = (z', False) \<Longrightarrow> z' = z"
  by (auto simp: remove_block_def split: if_splits)

section \<open>Buddies\<close>

lemma page_of_add:
  assumes "unat c = unat a + 4096 * n" shows "page_of c = page_of a + n"
  using assms by (simp add: page_of_def)

lemma block_mset_split [phys_mset]:
  assumes "unat b = unat a + 4096 * 2 ^ k"
  shows "block_mset (Suc k) a = block_mset k a + block_mset k b"
proof -
  have "[page_of a ..< page_of a + 2 ^ Suc k] =
      [page_of a ..< page_of a + 2 ^ k] @ [page_of a + 2 ^ k ..< page_of a + 2 ^ k + 2 ^ k]"
    using upt_add_eq_append [of "page_of a" "page_of a + 2 ^ k" "2 ^ k"] by (simp add: mult_2 add.assoc)
  then show ?thesis
    by (simp add: block_mset_def page_of_add [OF assms])
qed

text \<open>The buddy of an aligned block is the other half of the block one order up.\<close>

lemma xor_pow2:
  fixes m :: nat
  assumes "2 ^ n dvd m"
  shows "m XOR 2 ^ n = (if 2 ^ Suc n dvd m then m + 2 ^ n else m - 2 ^ n)"
proof -
  obtain q where q: "m = 2 ^ n * q" using assms by blast
  have "push_bit n (q XOR 1) = push_bit n q XOR push_bit n 1"
    by (simp only: push_bit_xor)
  then have "m XOR 2 ^ n = push_bit n (q XOR 1)"
    by (simp add: q push_bit_eq_mult mult.commute)
  moreover have "q XOR 1 = (if even q then q + 1 else q - 1)"
    by (auto simp: xor_Suc_0_eq)
  moreover have "2 ^ Suc n dvd m \<longleftrightarrow> even q"
    by (simp add: q mult.commute)
  ultimately show ?thesis
    by (auto simp: q push_bit_eq_mult algebra_simps)
qed

lemma pow12: "4096 * 2 ^ k = (2 :: nat) ^ (12 + k)"
  by (simp add: power_add)

lemma unat_buddy:
  assumes "k \<le> MAX_ORDER" "4096 * 2 ^ k dvd unat a"
  shows "unat (a XOR block_size k) =
    (if 4096 * 2 ^ Suc k dvd unat a then unat a + 4096 * 2 ^ k else unat a - 4096 * 2 ^ k)"
  using xor_pow2 [of "12 + k" "unat a"] assms
  by (simp only: unsigned_xor_eq unat_block_size pow12 add_Suc_right)

lemma buddy_merge:
  assumes k: "k < MAX_ORDER" and b: "b = a XOR block_size k"
    and a_in: "block_in z k a" and b_in: "block_in z k b"
  shows "block_in z (Suc k) (min a b)" "block_mset (Suc k) (min a b) = block_mset k a + block_mset k b"
proof -
  have ub: "unat b = (if 4096 * 2 ^ Suc k dvd unat a then unat a + 4096 * 2 ^ k else unat a - 4096 * 2 ^ k)"
    unfolding b using k a_in by (intro unat_buddy) (auto simp: block_in_def)
  have pos: "0 < (2 :: nat) ^ k" by simp
  have "block_in z (Suc k) (min a b) \<and> block_mset (Suc k) (min a b) = block_mset k a + block_mset k b"
  proof (cases "4096 * 2 ^ Suc k dvd unat a")
    case True
    then have eq: "unat b = unat a + 4096 * 2 ^ k" using ub by simp
    then have "min a b = a" by (simp add: min_def word_le_nat_alt)
    then show ?thesis
      using True eq a_in b_in block_mset_split [OF eq] by (simp add: block_in_def)
  next
    case False
    obtain q where q: "unat a = 4096 * 2 ^ k * q" using a_in by (auto simp: block_in_def)
    have "odd q" using False by (auto simp: q)
    then obtain r where r: "q = 2 * r + 1" by (rule oddE)
    define d :: nat where "d = 4096 * 2 ^ k"
    have d2: "4096 * 2 ^ Suc k = 2 * d" and ua: "unat a = 2 * d * r + d"
      by (simp_all add: d_def q r algebra_simps)
    have "unat b = unat a - d" using ub False by (simp only: if_False d_def)
    then have "unat b = 2 * d * r" using ua by simp
    then have eq: "unat a = unat b + 4096 * 2 ^ k" and "4096 * 2 ^ Suc k dvd unat b"
      using ua unfolding d2 by (simp_all add: d_def)
    moreover have "min a b = b" using eq by (simp add: min_def word_le_nat_alt)
    ultimately show ?thesis
      using a_in b_in block_mset_split [OF eq] by (simp add: block_in_def ac_simps)
  qed
  then show "block_in z (Suc k) (min a b)" "block_mset (Suc k) (min a b) = block_mset k a + block_mset k b"
    by auto
qed

lemma coalesce_correct:
  assumes "blocks_ok z" "k \<le> MAX_ORDER" "block_in z k a"
  shows "phys_step z (coalesce z a k) \<and> free_mset (coalesce z a k) = free_mset z + block_mset k a
    \<and> refcounts (coalesce z a k) = refcounts z"
  using assms
proof (induction z a k rule: coalesce.induct)
  case (1 z a k)
  show ?case
  proof (cases "MAX_ORDER \<le> k")
    case True
    then have "coalesce z a k = add_block z a k"
      by (subst coalesce.simps) simp
    then show ?thesis
      using add_block_step [OF 1(2-4)] add_block_mset [OF 1(2,3)] by simp
  next
    case False
    define b where "b = a XOR block_size k"
    obtain z' found where rb: "remove_block z b k = (z', found)" by fastforce
    show ?thesis
    proof (cases found)
      case True
      have rb': "remove_block z b k = (z', True)" using rb True by simp
      note rm = remove_block_True [OF 1(2,3) rb']
      have "block_in z' k a" "block_in z' k b"
        using 1(4) rm phys_stepD block_in_cfg by blast+
      note mrg = buddy_merge [OF _ b_def this]
      have c: "coalesce z a k = coalesce z' (min a b) (Suc k)"
        using False rb True by (subst coalesce.simps) (simp add: b_def)
      have "phys_step z' (coalesce z' (min a b) (Suc k))
        \<and> free_mset (coalesce z' (min a b) (Suc k)) = free_mset z' + block_mset (Suc k) (min a b)
        \<and> refcounts (coalesce z' (min a b) (Suc k)) = refcounts z'"
        using 1(1) [OF False b_def rb [symmetric] refl True] mrg(1) False phys_stepD(1) [OF rm(1)]
        by simp
      then show ?thesis
        using rm(2,4) mrg(2) False phys_step_trans [OF rm(1)] by (simp add: c ac_simps)
    next
      case False': False
      then have "coalesce z a k = add_block z a k"
        using False rb remove_block_False by (subst coalesce.simps) (fastforce simp: b_def)
      then show ?thesis
        using add_block_step [OF 1(2-4)] add_block_mset [OF 1(2,3)] by simp
    qed
  qed
qed

text \<open>What merging means, in terms of addresses only: \<open>block_of j a\<close> is the block of order \<open>j\<close>
  that holds address \<open>a\<close>, and \<open>buddy_of j a\<close> the other half of the block one order up.
  \<open>merged_at z k a z' j\<close> says that freeing the block of order \<open>k\<close> at \<open>a\<close> took the free buddy
  off the list of every order from \<open>k\<close> below \<open>j\<close>, put one block on the list of order \<open>j\<close>,
  whose buddy is in use or \<open>j\<close> is the highest order, and left the other lists alone.\<close>

definition block_of :: "nat \<Rightarrow> u64 \<Rightarrow> u64" where
  "block_of j a = of_nat (4096 * 2 ^ j * (unat a div (4096 * 2 ^ j)))"

definition buddy_of :: "nat \<Rightarrow> u64 \<Rightarrow> u64" where
  "buddy_of j a = (let i = unat a div (4096 * 2 ^ j)
     in of_nat (4096 * 2 ^ j * (if even i then i + 1 else i - 1)))"

definition merged_at :: "phys_state \<Rightarrow> nat \<Rightarrow> u64 \<Rightarrow> phys_state \<Rightarrow> nat \<Rightarrow> bool" where
  "merged_at z k a z' j \<longleftrightarrow> k \<le> j \<and> j \<le> MAX_ORDER
     \<and> (\<forall>i. k \<le> i \<and> i < j \<longrightarrow> buddy_of i a \<in> set (free_lists z ! i)
          \<and> free_lists z' ! i = remove1 (buddy_of i a) (free_lists z ! i))
     \<and> free_lists z' ! j = block_of j a # free_lists z ! j
     \<and> (j < MAX_ORDER \<longrightarrow> buddy_of j a \<notin> set (free_lists z ! j))
     \<and> (\<forall>i. i < k \<or> j < i \<longrightarrow> free_lists z' ! i = free_lists z ! i)"

lemma block_of_aligned: "4096 * 2 ^ k dvd unat a \<Longrightarrow> block_of k a = a"
  by (simp only: block_of_def dvd_mult_div_cancel) simp

lemma buddy_index:
  assumes "k \<le> MAX_ORDER" "unat a = 4096 * 2 ^ k * q"
  shows "unat (a XOR block_size k) = 4096 * 2 ^ k * (if even q then q + 1 else q - 1)"
proof -
  define d :: nat where "d = 4096 * 2 ^ k"
  have d: "0 < d" "4096 * 2 ^ Suc k = d * 2" by (simp_all add: d_def)
  have "4096 * 2 ^ Suc k dvd unat a \<longleftrightarrow> even q"
    unfolding assms(2) d(2) d_def [symmetric] using d(1) by simp
  then show ?thesis
    using unat_buddy [OF assms(1), of a] unfolding assms(2) d_def [symmetric] by (simp add: right_diff_distrib')
qed

lemma buddy_of_aligned:
  assumes "k \<le> MAX_ORDER" "4096 * 2 ^ k dvd unat a" shows "buddy_of k a = a XOR block_size k"
proof -
  obtain q where q: "unat a = 4096 * 2 ^ k * q" using assms(2) by blast
  then have "unat a div (4096 * 2 ^ k) = q" by simp
  then have "buddy_of k a = of_nat (unat (a XOR block_size k))"
    unfolding buddy_of_def Let_def buddy_index [OF assms(1) q] by simp
  then show ?thesis by simp
qed

lemma merge_index:
  assumes "k \<le> MAX_ORDER" "4096 * 2 ^ k dvd unat a" "k < j"
  shows "unat (min a (a XOR block_size k)) div (4096 * 2 ^ j) = unat a div (4096 * 2 ^ j)"
    and "4096 * 2 ^ Suc k dvd unat (min a (a XOR block_size k))"
proof -
  define d :: nat where "d = 4096 * 2 ^ k"
  have d: "0 < d" "4096 * 2 ^ Suc k = d * 2" by (simp_all add: d_def)
  obtain q where q: "unat a = d * q" using assms(2) by (auto simp: d_def)
  have "unat (a XOR block_size k) = d * (if even q then q + 1 else q - 1)"
    using buddy_index [OF assms(1)] q unfolding d_def by blast
  then have "unat (min a (a XOR block_size k)) = d * (if even q then q else q - 1)"
    using q d(1) by (auto simp: min_def word_le_nat_alt)
  then have m: "unat (min a (a XOR block_size k)) = d * 2 * (q div 2)"
    by (cases "even q") (auto elim!: evenE oddE)
  then show "4096 * 2 ^ Suc k dvd unat (min a (a XOR block_size k))" unfolding d(2) by simp
  obtain n where "j = Suc (k + n)" using assms(3) less_imp_Suc_add by blast
  then have j: "4096 * 2 ^ j = d * (2 * 2 ^ n)" by (simp add: d_def power_add)
  have "2 * (q div 2) div (2 * 2 ^ n) = q div (2 * 2 ^ n)" by (simp add: div_mult2_eq)
  then show "unat (min a (a XOR block_size k)) div (4096 * 2 ^ j) = unat a div (4096 * 2 ^ j)"
    unfolding m q j mult.assoc using d(1) by (simp only: div_mult_mult1 neq0_conv)
qed

lemma merge_same:
  assumes "k \<le> MAX_ORDER" "4096 * 2 ^ k dvd unat a" "k < j"
  shows "block_of j (min a (a XOR block_size k)) = block_of j a"
    and "buddy_of j (min a (a XOR block_size k)) = buddy_of j a"
  unfolding block_of_def buddy_of_def merge_index(1) [OF assms] by simp_all

lemma coalesce_merges:
  assumes "length (free_lists z) = MAX_ORDER + 1" "k \<le> MAX_ORDER" "4096 * 2 ^ k dvd unat a"
  shows "\<exists>j. merged_at z k a (coalesce z a k) j"
  using assms
proof (induction z a k rule: coalesce.induct)
  case (1 z a k)
  note al = block_of_aligned [OF 1(4)] buddy_of_aligned [OF 1(3,4)]
  let ?b = "a XOR block_size k"
  have add: "merged_at z k a (add_block z a k) k" if "k = MAX_ORDER \<or> ?b \<notin> set (free_lists z ! k)"
    using that 1(2,3) al by (auto simp: merged_at_def add_block_def)
  show ?case
  proof (cases "MAX_ORDER \<le> k \<or> ?b \<notin> set (free_lists z ! k)")
    case True
    then have "coalesce z a k = add_block z a k"
      by (subst coalesce.simps) (auto simp: remove_block_def)
    then show ?thesis using add True 1(3) by auto
  next
    case False
    define z' where "z' = fst (remove_block z ?b k)"
    have rb: "remove_block z ?b k = (z', True)" and fl: "free_lists z' = (free_lists z)[k := remove1 ?b (free_lists z ! k)]"
      using False by (simp_all add: z'_def remove_block_def)
    have c: "coalesce z a k = coalesce z' (min a ?b) (Suc k)"
      using False rb by (subst coalesce.simps) simp
    obtain j where j: "merged_at z' (Suc k) (min a ?b) (coalesce z' (min a ?b) (Suc k)) j"
      using 1(1) [OF _ refl rb [symmetric] refl TrueI] 1(2) False fl merge_index(2) [OF 1(3,4), of "Suc k"]
      by auto
    then have "Suc k \<le> j" by (simp add: merged_at_def)
    then have "merged_at z k a (coalesce z a k) j"
      using j 1(2,3) False al(2) merge_same [OF 1(3,4)] unfolding c merged_at_def fl
      by (auto simp: le_Suc_eq nth_list_update le_eq_less_or_eq [of k] Suc_le_eq)
    then show ?thesis by blast
  qed
qed

section \<open>Carving a range\<close>

lemma unat_div_page [simp]: "unat (a div PAGE_SIZE) = page_of a"
  by (simp add: page_of_def PAGE_SIZE_def unat_div)

lemma page_of_mult: "4096 dvd unat a \<Longrightarrow> 4096 * page_of a = unat a"
  by (simp add: page_of_def)

lemma page_of_mono: "unat a \<le> unat b \<Longrightarrow> page_of a \<le> page_of b"
  by (simp add: page_of_def div_le_mono)

lemma chunk_order_fits:
  assumes "4096 dvd unat addr" "4096 dvd unat stop" "addr < stop"
  shows "4096 * 2 ^ chunk_order addr stop dvd unat addr"
    "unat addr + 4096 * 2 ^ chunk_order addr stop \<le> unat stop"
proof -
  let ?k = "chunk_order addr stop" and ?mp = "(stop - addr) div PAGE_SIZE"
  have "2 ^ ?k dvd unat (addr div PAGE_SIZE)"
    by (rule trailing_zeros_dvd) (simp add: chunk_order_def Let_def)
  then have "4096 * 2 ^ ?k dvd 4096 * page_of addr" by (intro mult_dvd_mono) simp_all
  then show "4096 * 2 ^ ?k dvd unat addr" using assms(1) by (simp only: page_of_mult)
  have le: "unat addr \<le> unat stop" using assms(3) by (simp add: word_less_nat_alt)
  then have sub: "unat (stop - addr) = unat stop - unat addr"
    by (simp add: unat_sub word_le_nat_alt)
  then have mp: "4096 * unat ?mp = unat stop - unat addr"
    using assms(1,2) le by (simp add: page_of_mult dvd_diff_nat)
  have "2 ^ ?k \<le> unat ?mp"
  proof (cases "?mp \<le> 1")
    case True
    have "0 < 4096 * unat ?mp" unfolding mp using assms(3) by (simp add: word_less_nat_alt)
    moreover have "?k = 0" using True by (simp add: chunk_order_def Let_def)
    ultimately show ?thesis by simp
  next
    case False
    then have gt: "1 < unat ?mp" by (simp add: word_le_nat_alt del: unat_div_page)
    then have m1: "unat (?mp - 1) = unat ?mp - 1"
      by (simp add: unat_sub word_le_nat_alt del: unat_div_page)
    then have "?mp - 1 \<noteq> 0" using gt by (metis unat_0 zero_less_diff less_numeral_extra(3))
    then have "2 ^ (63 - leading_zeros (?mp - 1)) \<le> unat (?mp - 1)"
      by (rule leading_zeros_lower(2))
    moreover have "?k \<le> 63 - leading_zeros (?mp - 1)"
      using False by (simp add: chunk_order_def Let_def)
    then have "(2 :: nat) ^ ?k \<le> 2 ^ (63 - leading_zeros (?mp - 1))"
      by (rule power_increasing) simp
    ultimately show ?thesis using m1 by linarith
  qed
  then show "unat addr + 4096 * 2 ^ ?k \<le> unat stop" using mp le by linarith
qed

lemma checked_add_block:
  assumes "k \<le> MAX_ORDER" "unat a + 4096 * 2 ^ k \<le> unat (b :: u64)"
  shows "\<exists>c. checked_add a (block_size k) = Some c \<and> unat c = unat a + 4096 * 2 ^ k"
proof -
  have "unat a + unat (block_size k) < 2 ^ LENGTH(64)"
    using assms unat64_bound [of b] by (simp add: unat_block_size)
  then show ?thesis using assms(1)
    by (simp add: checked_add_def unat_add_noof unat_block_size)
qed

lemma dvd_page_add: "4096 dvd unat a \<Longrightarrow> unat c = unat a + 4096 * n \<Longrightarrow> 4096 dvd unat c"
  by simp

lemma block_range_mset:
  assumes "c = page_of a + 2 ^ k" "c \<le> m"
  shows "block_mset k a + mset [c ..< m] = mset [page_of a ..< m]"
proof -
  have "[page_of a ..< m] = [page_of a ..< c] @ [c ..< m]"
    using assms upt_add_eq_append [of "page_of a" c "m - c"] by simp
  then show ?thesis by (simp add: block_mset_def assms(1))
qed

lemma carve_range_correct:
  assumes "blocks_ok z" "4096 dvd unat addr" "4096 dvd unat stop" "addr \<le> stop"
    "zone_base z \<le> addr" "stop \<le> zone_top z"
  shows "\<exists>z'. carve_range z addr stop = Some z' \<and> phys_step z z' \<and> refcounts z' = refcounts z
    \<and> free_mset z' = free_mset z + mset [page_of addr ..< page_of stop]"
  using assms
proof (induction z addr stop rule: carve_range.induct)
  case (1 z addr stop)
  let ?k = "chunk_order addr stop"
  show ?case
  proof (cases "addr < stop")
    case True
    note fits = chunk_order_fits [OF 1(3,4) True]
    obtain c where c: "checked_add addr (block_size ?k) = Some c" "unat c = unat addr + 4096 * 2 ^ ?k"
      using checked_add_block [OF chunk_order_le fits(2)] by blast
    have "block_in z ?k addr"
      using fits 1(6,7) by (simp add: block_in_def word_le_nat_alt)
    note add = add_block_step [OF 1(2) chunk_order_le this] add_block_mset [OF 1(2) chunk_order_le [of addr stop], of addr]
    have "4096 dvd unat c" "c \<le> stop" "zone_base z \<le> c"
      using 1(3,6) c(2) fits(2) by (simp_all add: word_le_nat_alt)
    then obtain z' where z': "carve_range (add_block z addr ?k) c stop = Some z'"
        "phys_step (add_block z addr ?k) z'" "refcounts z' = refcounts z"
        "free_mset z' = free_mset (add_block z addr ?k) + mset [page_of c ..< page_of stop]"
      using 1(1) [OF True refl c(1)] 1(4,7) phys_stepD [OF add(1)] by (auto simp: phys_cfg_def)
    have "page_of c \<le> page_of stop" using fits(2) c(2) by (intro page_of_mono) simp
    from block_range_mset [OF page_of_add [OF c(2)] this] z' add show ?thesis
      using True c(1) phys_step_trans [OF add(1) z'(2)]
      by (subst carve_range.simps) (simp add: ac_simps)
  next
    case False
    then have "addr = stop" using 1(5) by simp
    then show ?thesis using 1(2) by (subst carve_range.simps) (simp add: phys_step_refl)
  qed
qed

section \<open>Allocation\<close>

lemma reset_refcount_simps [simp]:
  "phys_cfg (reset_refcount z a k) = phys_cfg z" "free_mset (reset_refcount z a k) = free_mset z"
  "free_lists (reset_refcount z a k) = free_lists z"
  "zone_free_pages (reset_refcount z a k) = zone_free_pages z"
  "zone_base (reset_refcount z a k) = zone_base z" "zone_top (reset_refcount z a k) = zone_top z"
  by (simp_all add: reset_refcount_def Let_def)

lemma reset_refcount_step: "phys_step z z' \<Longrightarrow> phys_step z (reset_refcount z' a k)"
  by (auto simp: phys_step_def blocks_ok_def counted_def block_in_def)

lemma refcounts_reset: "refcounts z' = refcounts z \<Longrightarrow>
    refcounts (reset_refcount z' a k) = refcounts (reset_refcount z a k)"
  by (simp add: reset_refcount_def Let_def)

lemma block_in_halves:
  assumes "block_in z (Suc k) a" "unat b = unat a + 4096 * 2 ^ k"
  shows "block_in z k a" "block_in z k b"
proof -
  have "4096 * 2 ^ k dvd unat a"
    using assms(1) by (auto simp: block_in_def elim!: dvdE)
  then show "block_in z k a" "block_in z k b"
    using assms by (simp_all add: block_in_def)
qed

lemma split_down_correct:
  assumes "blocks_ok z" "order \<le> higher" "higher \<le> MAX_ORDER" "block_in z higher a"
  shows "\<exists>z' c. split_down z a (rev [order..<higher]) = Some (z', c) \<and> phys_step z z'
    \<and> block_in z order c \<and> refcounts z' = refcounts z
    \<and> free_mset z' + block_mset order c = free_mset z + block_mset higher a"
  using assms(2,1,3,4)
proof (induction higher arbitrary: z a rule: dec_induct)
  case base
  then show ?case by (simp add: phys_step_refl)
next
  case (step h)
  have h: "h \<le> MAX_ORDER" "order \<le> h" using step.prems step.hyps by simp_all
  have "unat a + 4096 * 2 ^ h \<le> unat (zone_top z)"
    using step.prems(3) by (simp add: block_in_def)
  then obtain b where b: "checked_add a (block_size h) = Some b" "unat b = unat a + 4096 * 2 ^ h"
    using checked_add_block [OF h(1)] by blast
  note halves = block_in_halves [OF step.prems(3) b(2)]
  note add = add_block_step [OF step.prems(1) h(1) halves(1)] add_block_mset [OF step.prems(1) h(1), of a]
  have "block_in (add_block z a h) h b" using halves(2) block_in_cfg phys_stepD(2) [OF add(1)] by blast
  from step.IH [OF phys_stepD(1) [OF add(1)] h(1) this] obtain z' c where z':
    "split_down (add_block z a h) b (rev [order..<h]) = Some (z', c)"
    "phys_step (add_block z a h) z'" "block_in (add_block z a h) order c" "refcounts z' = refcounts z"
    "free_mset z' + block_mset order c = free_mset (add_block z a h) + block_mset h b"
    by auto
  then show ?case
    using h b add phys_step_trans [OF add(1) z'(2)] block_in_cfg [OF phys_stepD(2) [OF add(1)]]
      block_mset_split [OF b(2)]
    by (simp add: ac_simps)
qed

definition allocated :: "phys_state \<Rightarrow> nat \<Rightarrow> phys_state \<Rightarrow> u64 \<Rightarrow> bool" where
  "allocated z k z' a \<longleftrightarrow> phys_step z z' \<and> block_in z k a
     \<and> free_mset z = free_mset z' + block_mset k a
     \<and> refcounts z' = refcounts (reset_refcount z a k)"

definition alloc_post :: "phys_state \<Rightarrow> nat \<Rightarrow> nat set \<Rightarrow> phys_state \<Rightarrow> u64 option \<Rightarrow> bool" where
  "alloc_post z k H z' r \<longleftrightarrow> (case r of
       None \<Rightarrow> z' = z \<and> (\<forall>h\<in>H. free_lists z ! h = [])
     | Some a \<Rightarrow> allocated z k z' a)"

lemma alloc_post_None_insert:
  "alloc_post z k H z' r \<Longrightarrow> free_lists z ! h = [] \<Longrightarrow> alloc_post z k (insert h H) z' r"
  by (simp add: alloc_post_def split: option.splits)

lemma alloc_search_correct:
  assumes "blocks_ok z" "\<forall>h\<in>set hs. order \<le> h \<and> h \<le> MAX_ORDER"
  shows "\<exists>z' r. alloc_search z order hs = Some (z', r) \<and> alloc_post z order (set hs) z' r"
  using assms
proof (induction hs)
  case Nil
  then show ?case by (simp add: alloc_post_def)
next
  case (Cons h hs)
  have h: "order \<le> h" "h \<le> MAX_ORDER" using Cons.prems by simp_all
  obtain z1 p where pop0: "pop_block z h = (z1, p)" by fastforce
  show ?case
  proof (cases p)
    case None
    then have "z1 = z" "free_lists z ! h = []" using pop0 pop_block_None by simp_all
    moreover obtain z' r where "alloc_search z order hs = Some (z', r)" "alloc_post z order (set hs) z' r"
      using Cons by auto
    ultimately show ?thesis
      using pop0 None alloc_post_None_insert by fastforce
  next
    case (Some a)
    note pop = pop_block_Some [OF Cons.prems(1) h(2) pop0 [unfolded Some]]
    have "block_in z1 h a" using pop(3) block_in_cfg phys_stepD(2) [OF pop(1)] by blast
    from split_down_correct [OF phys_stepD(1) [OF pop(1)] h this] obtain z' c where z':
      "split_down z1 a (rev [order..<h]) = Some (z', c)" "phys_step z1 z'" "block_in z1 order c"
      "refcounts z' = refcounts z1" "free_mset z' + block_mset order c = free_mset z1 + block_mset h a"
      by blast
    have "allocated z order (reset_refcount z' c order) c"
      unfolding allocated_def
      using z' pop reset_refcount_step [OF phys_step_trans [OF pop(1) z'(2)]]
        block_in_cfg [OF phys_stepD(2) [OF pop(1)]] refcounts_reset [of z' z]
      by simp
    then show ?thesis using z'(1) pop0 Some by (simp add: alloc_post_def)
  qed
qed

lemma alloc_order_correct:
  assumes "blocks_ok z" "k \<le> MAX_ORDER"
  shows "\<exists>z' r. alloc_order z k = Some (z', r) \<and> alloc_post z k {k..MAX_ORDER} z' r"
proof -
  obtain z1 p where pop0: "pop_block z k = (z1, p)" by fastforce
  show ?thesis
  proof (cases p)
    case None
    then have z1: "z1 = z" "free_lists z ! k = []" using pop0 pop_block_None by simp_all
    have "\<forall>h\<in>set [k + 1..<MAX_ORDER + 1]. k \<le> h \<and> h \<le> MAX_ORDER" by auto
    from alloc_search_correct [OF assms(1) this] obtain z' r where s:
      "alloc_search z k [k + 1..<MAX_ORDER + 1] = Some (z', r)"
      "alloc_post z k (set [k + 1..<MAX_ORDER + 1]) z' r" by blast
    have "insert k (set [k + 1..<MAX_ORDER + 1]) = {k..MAX_ORDER}" using assms(2) by auto
    then have "alloc_post z k {k..MAX_ORDER} z' r"
      using alloc_post_None_insert [OF s(2) z1(2)] by simp
    moreover have "alloc_order z k = Some (z', r)"
      using assms(2) pop0 None z1 s(1) by (simp add: alloc_order_def del: upt_Suc)
    ultimately show ?thesis by blast
  next
    case (Some a)
    note pop = pop_block_Some [OF assms pop0 [unfolded Some]]
    then have "allocated z k (reset_refcount z1 a k) a"
      using refcounts_reset [OF pop(4)] by (simp add: allocated_def reset_refcount_step)
    then show ?thesis using pop0 Some assms(2) by (simp add: alloc_order_def alloc_post_def)
  qed
qed

section \<open>Freeing\<close>

definition last_ref :: "phys_state \<Rightarrow> nat \<Rightarrow> bool" where
  "last_ref z p \<longleftrightarrow> REFCOUNT_MAX_PAGES \<le> p \<or> refcounts z p = 1"

definition drop_ref :: "phys_state \<Rightarrow> nat \<Rightarrow> nat \<Rightarrow> u16" where
  "drop_ref z p = (if p < REFCOUNT_MAX_PAGES then (refcounts z)(p := refcounts z p - 1) else refcounts z)"

lemma div_page_of_nat: "a div PAGE_SIZE = of_nat (page_of a)"
proof -
  have "of_nat (unat (a div PAGE_SIZE)) = a div PAGE_SIZE" by (simp del: unat_div_page)
  then show ?thesis by (simp only: unat_div_page)
qed

lemma mod_page_zero: "a mod PAGE_SIZE = 0 \<longleftrightarrow> 4096 dvd unat a"
  by (simp add: PAGE_SIZE_def unat_mod dvd_eq_mod_eq_0 flip: unat_eq_0)

lemma unref_page_eq:
  "unref_page z (a div PAGE_SIZE) = (z\<lparr> refcounts := drop_ref z (page_of a) \<rparr>, last_ref z (page_of a))"
  by (auto simp: unref_page_def drop_ref_def last_ref_def Let_def)

lemma drop_ref_step:
  "blocks_ok z \<Longrightarrow> phys_step z (z\<lparr> refcounts := r \<rparr>)"
  by (auto simp: phys_step_def blocks_ok_def counted_def block_in_def)

lemma block_in_page: "block_in z k a \<Longrightarrow> 4096 dvd unat a"
  by (auto simp: block_in_def elim: dvd_mult_left)

text \<open>The result of freeing one block: its pages are free again, or, when it is a single
  tracked page whose count was not 1, nothing but that count changes.\<close>

lemma free_order_block:
  assumes "k \<le> MAX_ORDER" "block_in z k a" "\<not> is_reserved_page z (of_nat (page_of a))"
  shows "free_order z a k =
      (if k = 0 then (case unref_page z (a div PAGE_SIZE) of
          (z', False) \<Rightarrow> Some z' | (z', True) \<Rightarrow> Some (coalesce z' a k))
       else Some (coalesce z a k))"
proof -
  have "unat a + 4096 * 2 ^ k \<le> unat (zone_top z)" "unat (zone_base z) \<le> unat a"
    using assms(2) by (simp_all add: block_in_def)
  with checked_add_block [OF assms(1), of a "zone_top z"] obtain c where
    "checked_add a (block_size k) = Some c" "\<not> zone_top z < c" "\<not> a < zone_base z"
    by (auto simp: word_less_nat_alt)
  then show ?thesis
    using assms(1,3) block_in_page [OF assms(2)]
    by (simp add: free_order_def mod_page_zero div_page_of_nat)
qed

lemma free_order_correct:
  assumes "blocks_ok z" "k \<le> MAX_ORDER" "block_in z k a" "\<not> is_reserved_page z (of_nat (page_of a))"
  shows "\<exists>z'. free_order z a k = Some z' \<and> phys_step z z'
    \<and> free_mset z' = free_mset z + (if k = 0 \<and> \<not> last_ref z (page_of a) then {#} else block_mset k a)
    \<and> refcounts z' = (if k = 0 then drop_ref z (page_of a) else refcounts z)"
proof (cases "k = 0")
  case True
  let ?z = "z\<lparr> refcounts := drop_ref z (page_of a) \<rparr>"
  have step: "phys_step z ?z" using assms(1) by (rule drop_ref_step)
  have "block_in ?z k a" using assms(3) block_in_cfg [OF phys_stepD(2) [OF step]] by blast
  note co = coalesce_correct [OF phys_stepD(1) [OF step] assms(2) this]
  show ?thesis
    using True free_order_block [OF assms(2-4)] co step phys_step_trans [OF step]
    by (simp add: unref_page_eq split: bool.splits)
next
  case False
  then show ?thesis using coalesce_correct [OF assms(1-3)] free_order_block [OF assms(2-4)] by simp
qed

text \<open>Which lists change: a page that keeps references changes none, any other block is merged
  upwards as far as its buddies are free.\<close>

lemma free_order_lists:
  assumes "blocks_ok z" "k \<le> MAX_ORDER" "block_in z k a" "\<not> is_reserved_page z (of_nat (page_of a))"
    and "free_order z a k = Some z'"
  shows "if k = 0 \<and> \<not> last_ref z (page_of a) then free_lists z' = free_lists z
    else (\<exists>j. merged_at z k a z' j)"
proof -
  have len: "length (free_lists z) = MAX_ORDER + 1" "4096 * 2 ^ k dvd unat a"
    using assms(1,3) by (simp_all add: blocks_ok_def block_in_def MAX_ORDER_def)
  note mrg = coalesce_merges [OF len(1) assms(2) len(2)]
    coalesce_merges [of "z\<lparr> refcounts := drop_ref z (page_of a) \<rparr>", OF _ assms(2) len(2)]
  show ?thesis
    using mrg len(1) assms(5) unfolding free_order_block [OF assms(2-4)]
    by (auto simp: unref_page_eq merged_at_def split: if_splits bool.splits)
qed

lemma drop_ref_other: "q \<noteq> p \<Longrightarrow> drop_ref z p q = refcounts z q"
  by (simp add: drop_ref_def)

text \<open>Freeing a range in chunks. \<open>L\<close> collects the pages that stay out of the free lists
  because their reference count was not 1.\<close>

definition range_freed :: "phys_state \<Rightarrow> phys_state \<Rightarrow> nat \<Rightarrow> nat \<Rightarrow> nat multiset \<Rightarrow> bool" where
  "range_freed z z' p q L \<longleftrightarrow> phys_step z z' \<and> free_mset z' + L = free_mset z + mset [p ..< q]
     \<and> L \<subseteq># mset [p ..< q] \<and> (\<forall>i\<in>#L. \<not> last_ref z i)
     \<and> (\<forall>i. i < p \<or> q \<le> i \<longrightarrow> refcounts z' i = refcounts z i)"

lemma range_freed_block:
  assumes z1: "phys_step z z1"
      "free_mset z1 = free_mset z + (if k = 0 \<and> \<not> last_ref z (page_of a) then {#} else block_mset k a)"
      "refcounts z1 = (if k = 0 then drop_ref z (page_of a) else refcounts z)"
    and rest: "range_freed z1 z' m q L" and m: "m = page_of a + 2 ^ k" "m \<le> q"
  shows "\<exists>L'. range_freed z z' (page_of a) q L'"
proof -
  define L0 where "L0 = (if k = 0 \<and> \<not> last_ref z (page_of a) then {#page_of a#} else {#})"
  have blk: "free_mset z1 + L0 = free_mset z + block_mset k a" "L0 \<subseteq># block_mset k a"
    using z1(2) by (auto simp: L0_def block_mset_def)
  have rc: "refcounts z1 i = refcounts z i" if "i \<noteq> page_of a" for i
    using z1(3) that by (simp add: drop_ref_other)
  have rng: "mset [page_of a ..< q] = block_mset k a + mset [m ..< q]"
    using block_range_mset [OF m] by simp
  have "free_mset z' + (L0 + L) = free_mset z + mset [page_of a ..< q]"
    using rest blk(1) unfolding rng range_freed_def by (metis union_assoc union_commute)
  moreover have "L0 + L \<subseteq># mset [page_of a ..< q]"
    using rest blk(2) unfolding rng range_freed_def by (blast intro: subset_mset.add_mono)
  moreover have "\<not> last_ref z i" if "i \<in># L0 + L" for i
  proof (cases "i \<in># L0")
    case False
    then have "i \<in># L" using that by simp
    then have "\<not> last_ref z1 i" using rest by (simp add: range_freed_def)
    moreover have "i \<in># mset [m ..< q]"
      using rest \<open>i \<in># L\<close> unfolding range_freed_def by (blast intro: mset_subset_eqD)
    then have "m \<le> i" by simp
    moreover have "page_of a < m" by (simp add: m(1))
    ultimately show ?thesis using rc [of i] by (simp add: last_ref_def)
  qed (simp add: L0_def split: if_splits)
  moreover have "refcounts z' i = refcounts z i" if "i < page_of a \<or> q \<le> i" for i
  proof -
    have "page_of a < m" by (simp add: m(1))
    then have "i \<noteq> page_of a" "i < m \<or> q \<le> i" using that m(2) by auto
    then show ?thesis using rest rc [of i] by (auto simp: range_freed_def)
  qed
  ultimately have "range_freed z z' (page_of a) q (L0 + L)"
    using rest phys_step_trans [OF z1(1)] by (simp add: range_freed_def)
  then show ?thesis by blast
qed

lemma chunk_loop_correct:
  assumes "blocks_ok z" "4096 dvd unat addr" "4096 dvd unat stop" "addr \<le> stop"
    "zone_base z \<le> addr" "stop \<le> zone_top z"
    "\<forall>p. page_of addr \<le> p \<and> p < page_of stop \<longrightarrow> \<not> is_reserved_page z (of_nat p)"
  shows "\<exists>z' L. chunk_loop z addr stop = Some z' \<and> range_freed z z' (page_of addr) (page_of stop) L"
  using assms
proof (induction z addr stop rule: chunk_loop.induct)
  case (1 z addr stop)
  let ?k = "chunk_order addr stop"
  show ?case
  proof (cases "addr < stop")
    case True
    note fits = chunk_order_fits [OF 1(3,4) True]
    obtain c where c: "checked_add addr (block_size ?k) = Some c" "unat c = unat addr + 4096 * 2 ^ ?k"
      using checked_add_block [OF chunk_order_le fits(2)] by blast
    have le: "page_of c \<le> page_of stop" using fits(2) c(2) by (intro page_of_mono) simp
    have pc: "page_of c = page_of addr + 2 ^ ?k" using c(2) by (rule page_of_add)
    have "block_in z ?k addr" using fits 1(6,7) by (simp add: block_in_def word_le_nat_alt)
    moreover have "page_of addr < page_of stop" 
      using pc by (intro less_le_trans [OF _ le]) simp
    then have "\<not> is_reserved_page z (of_nat (page_of addr))" using 1(8) by simp
    ultimately obtain z1 where z1: "free_order z addr ?k = Some z1" "phys_step z z1"
        "free_mset z1 = free_mset z + (if ?k = 0 \<and> \<not> last_ref z (page_of addr) then {#} else block_mset ?k addr)"
        "refcounts z1 = (if ?k = 0 then drop_ref z (page_of addr) else refcounts z)"
      using free_order_correct [OF 1(2) chunk_order_le [of addr stop]] by blast
    have "4096 dvd unat c" "c \<le> stop" "zone_base z \<le> c"
      using 1(3,6) c(2) fits(2) by (simp_all add: word_le_nat_alt)
    moreover have "\<forall>p. page_of c \<le> p \<and> p < page_of stop \<longrightarrow> \<not> is_reserved_page z1 (of_nat p)"
      using 1(8) pc is_reserved_cfg [OF phys_stepD(2) [OF z1(2)]] by simp
    ultimately obtain z' L where z': "chunk_loop z1 c stop = Some z'"
        "range_freed z1 z' (page_of c) (page_of stop) L"
      using 1(1) [OF True refl z1(1) c(1)] 1(4,7) phys_stepD [OF z1(2)] by (auto simp: phys_cfg_def)
    then show ?thesis
      using range_freed_block [OF z1(2-4) z'(2) pc le] True z1(1) c(1)
      by (subst chunk_loop.simps) simp
  next
    case False
    then have "addr = stop" using 1(5) by simp
    then show ?thesis using 1(2) by (subst chunk_loop.simps) (simp add: phys_step_refl range_freed_def)
  qed
qed

definition page_range_in :: "phys_state \<Rightarrow> u64 \<Rightarrow> nat \<Rightarrow> bool" where
  "page_range_in z a n \<longleftrightarrow> 4096 dvd unat a \<and> zone_base z \<le> a \<and> unat a + 4096 * n \<le> unat (zone_top z)
     \<and> (\<forall>p. page_of a \<le> p \<and> p < page_of a + n \<longrightarrow> \<not> is_reserved_page z (of_nat p))"

lemma checked_page_range:
  assumes "unat a + 4096 * unat n \<le> unat (t :: u64)"
  shows "\<exists>b c. checked_mul n PAGE_SIZE = Some b \<and> checked_add a b = Some c \<and> unat c = unat a + 4096 * unat n"
proof -
  have "unat n * unat PAGE_SIZE < 2 ^ LENGTH(64)" "unat a + 4096 * unat n < 2 ^ LENGTH(64)"
    using assms unat64_bound [of t] by (simp_all add: PAGE_SIZE_def)
  then show ?thesis
    by (simp add: checked_mul_def checked_add_def unat_word_ariths PAGE_SIZE_def mult.commute)
qed

lemma free_pages_chunked_correct:
  assumes "blocks_ok z" "page_range_in z a (unat n)"
  shows "\<exists>z' L. free_pages_chunked z a n = Some z'
    \<and> range_freed z z' (page_of a) (page_of a + unat n) L"
proof -
  from assms(2) obtain b c where c: "checked_mul n PAGE_SIZE = Some b" "checked_add a b = Some c"
      "unat c = unat a + 4096 * unat n"
    using checked_page_range unfolding page_range_in_def by blast
  have pc: "page_of c = page_of a + unat n" using c(3) by (rule page_of_add)
  have "4096 dvd unat a" "4096 dvd unat c" "a \<le> c" "zone_base z \<le> a" "c \<le> zone_top z"
    using assms(2) c(3) by (simp_all add: page_range_in_def word_le_nat_alt)
  from chunk_loop_correct [OF assms(1) this] show ?thesis
    using assms(2) c pc by (simp add: free_pages_chunked_def page_range_in_def)
qed

lemma free_pages_correct:
  assumes "blocks_ok z" "page_range_in z a (unat n)"
  shows "\<exists>z' L. free_pages z a n = Some z' \<and> range_freed z z' (page_of a) (page_of a + unat n) L"
proof (cases "n = 0")
  case True
  then show ?thesis using assms(1)
    by (auto simp: free_pages_def range_freed_def phys_step_refl)
next
  case False
  then have "0 < unat n" by (simp add: unat_gt_0)
  then have "\<not> is_reserved_page z (of_nat (page_of a))" using assms(2) by (simp add: page_range_in_def)
  then show ?thesis
    using False free_pages_chunked_correct [OF assms] by (simp add: free_pages_def div_page_of_nat)
qed

definition pages_order :: "u64 \<Rightarrow> nat" where
  "pages_order n = (if n \<le> 1 then 0 else min (64 - leading_zeros (n - 1)) MAX_ORDER)"

lemma pages_order_bounds:
  assumes "n \<noteq> 0" "unat n \<le> 1024"
  shows "pages_order n \<le> MAX_ORDER" "unat n \<le> 2 ^ pages_order n"
proof -
  show "pages_order n \<le> MAX_ORDER" by (simp add: pages_order_def)
  show "unat n \<le> 2 ^ pages_order n"
  proof (cases "n \<le> 1")
    case True
    then show ?thesis by (simp add: pages_order_def word_le_nat_alt)
  next
    case False
    have "unat (n - 1) = unat n - 1" using assms(1) by (simp add: unat_minus_one)
    then have "unat n \<le> 2 ^ (64 - leading_zeros (n - 1))"
      using leading_zeros_upper [of "n - 1"] by linarith
    then show ?thesis using False assms(2) by (simp add: pages_order_def MAX_ORDER_def min_def)
  qed
qed

definition pages_allocated :: "phys_state \<Rightarrow> u64 \<Rightarrow> phys_state \<Rightarrow> u64 \<Rightarrow> nat multiset \<Rightarrow> bool" where
  "pages_allocated z n z' a L \<longleftrightarrow> phys_step z z' \<and> block_in z (pages_order n) a
     \<and> free_mset z = free_mset z' + mset [page_of a ..< page_of a + unat n] + L
     \<and> L \<subseteq># mset [page_of a + unat n ..< page_of a + 2 ^ pages_order n]
     \<and> (\<forall>i\<in>#L. \<not> last_ref z i)"

lemma alloc_excess:
  assumes inv: "\<forall>p\<in>#free_mset z. \<not> is_reserved_page z (of_nat p)"
    and al: "allocated z k z1 a" and k: "0 < k" "k \<le> MAX_ORDER" and n: "unat n < 2 ^ k" "k = pages_order n"
    and m: "unat m = 2 ^ k - unat n"
  shows "\<exists>t c z' L. checked_mul n PAGE_SIZE = Some c \<and> checked_add a c = Some t
    \<and> free_pages_chunked z1 t m = Some z' \<and> pages_allocated z n z' a L"
proof -
  have st: "phys_step z z1" and blk: "block_in z k a"
    and fm: "free_mset z = free_mset z1 + block_mset k a"
    and rc: "refcounts z1 = refcounts z"
    using al k(1) by (auto simp: allocated_def reset_refcount_def Let_def)
  have top: "unat a + 4096 * 2 ^ k \<le> unat (zone_top z)" using blk by (simp add: block_in_def)
  then have "unat a + 4096 * unat n \<le> unat (zone_top z)" using n(1) by simp
  then obtain c t where t: "checked_mul n PAGE_SIZE = Some c" "checked_add a c = Some t"
      "unat t = unat a + 4096 * unat n" using checked_page_range by blast
  have pt: "page_of t = page_of a + unat n" using t(3) by (rule page_of_add)
  have sum: "unat n + unat m = 2 ^ k" using m n(1) by simp
  have cfg: "zone_base z1 = zone_base z" "zone_top z1 = zone_top z"
    using phys_stepD(2) [OF st] by (simp_all add: phys_cfg_def)
  have "\<not> is_reserved_page z1 (of_nat p)" if "page_of t \<le> p" "p < page_of t + unat m" for p
  proof -
    have "p \<in># block_mset k a" using that pt sum by simp
    then show ?thesis using inv fm is_reserved_cfg [OF phys_stepD(2) [OF st]] by simp
  qed
  moreover have "unat t + 4096 * unat m \<le> unat (zone_top z)" using top t(3) sum by linarith
  moreover have "4096 dvd unat t" "zone_base z \<le> t"
    using block_in_page [OF blk] blk t(3) by (simp_all add: block_in_def word_le_nat_alt)
  ultimately have "page_range_in z1 t (unat m)" by (simp add: page_range_in_def cfg)
  from free_pages_chunked_correct [OF phys_stepD(1) [OF st] this] obtain z' L where z':
    "free_pages_chunked z1 t m = Some z'" "range_freed z1 z' (page_of t) (page_of t + unat m) L" by blast
  have e: "page_of t + unat m = page_of a + 2 ^ k" using pt sum by simp
  have "block_mset k a = mset [page_of a ..< page_of t] + mset [page_of t ..< page_of t + unat m]"
    unfolding block_mset_def e [symmetric] pt
    by (subst upt_add_eq_append) (simp_all del: mset_upt)
  then have "free_mset z = free_mset z' + mset [page_of a ..< page_of a + unat n] + L"
    using z'(2) fm unfolding range_freed_def by (simp add: pt ac_simps del: mset_upt)
  then have "pages_allocated z n z' a L"
    using z'(2) blk phys_step_trans [OF st] rc
    unfolding pages_allocated_def range_freed_def pt e [unfolded pt] n(2) [symmetric] last_ref_def by simp
  then show ?thesis using t z'(1) by blast
qed

definition pages_post :: "phys_state \<Rightarrow> u64 \<Rightarrow> phys_state \<Rightarrow> u64 option \<Rightarrow> bool" where
  "pages_post z n z' r \<longleftrightarrow> (case r of
       None \<Rightarrow> z' = z \<and> (\<forall>h\<in>{pages_order n..MAX_ORDER}. free_lists z ! h = [])
     | Some a \<Rightarrow> \<exists>L. pages_allocated z n z' a L)"

lemma allocated_exact:
  "allocated z k z' a \<Longrightarrow> k = pages_order n \<Longrightarrow> unat n = 2 ^ k \<Longrightarrow> pages_allocated z n z' a {#}"
  by (simp add: allocated_def pages_allocated_def block_mset_def)

lemma alloc_pages_correct:
  assumes ok: "blocks_ok z" and inv: "\<forall>p\<in>#free_mset z. \<not> is_reserved_page z (of_nat p)"
    and n: "n \<noteq> 0" "unat n \<le> 1024"
  shows "\<exists>z' r. alloc_pages z n = Some (z', r) \<and> pages_post z n z' r"
proof -
  define k where "k = pages_order n"
  have k: "k \<le> MAX_ORDER" "unat n \<le> 2 ^ k" using pages_order_bounds [OF n] by (simp_all add: k_def)
  obtain z1 r where al: "alloc_order z k = Some (z1, r)" "alloc_post z k {k..MAX_ORDER} z1 r"
    using alloc_order_correct [OF ok k(1)] by blast
  have two: "unat (2 ^ k :: u64) = 2 ^ k" using k(1) by (simp add: unat_two_power MAX_ORDER_def)
  have big: "\<not> push_bit MAX_ORDER 1 < n" using n(2) by (simp add: MAX_ORDER_def word_less_nat_alt)
  show ?thesis
  proof (cases "n = 1 \<or> r = None \<or> \<not> n < 2 ^ k")
    case True
    then have "alloc_pages z n = Some (z1, r)"
      using al(1) n big unfolding alloc_pages_def
      by (auto simp: alloc_page_def k_def pages_order_def split: option.splits if_splits)
    moreover have "pages_post z n z1 r"
    proof (cases r)
      case (Some a)
      then have "unat n = 2 ^ k"
        using True k(2) two by (auto simp: k_def pages_order_def word_less_nat_alt)
      then show ?thesis
        using al(2) Some allocated_exact [of z k z1 a n]
        by (auto simp: pages_post_def alloc_post_def k_def)
    qed (use al(2) in \<open>simp add: pages_post_def alloc_post_def k_def\<close>)
    ultimately show ?thesis by blast
  next
    case False
    then obtain a where a: "r = Some a" "n \<noteq> 1" "n < 2 ^ k" by auto
    have kpos: "0 < k" using a(2,3) n(1) two by (cases k) (auto simp: word_less_nat_alt unat_eq_0)
    have lt: "unat n < 2 ^ k" using a(3) two by (simp add: word_less_nat_alt)
    have m: "unat (2 ^ k - n) = 2 ^ k - unat n" using two a(3) by (simp add: unat_sub)
    have "allocated z k z1 a" using al(2) a(1) by (simp add: alloc_post_def)
    from alloc_excess [OF inv this kpos k(1) lt k_def m] obtain t c z' L where
      "checked_mul n PAGE_SIZE = Some c" "checked_add a c = Some t"
      "free_pages_chunked z1 t (2 ^ k - n) = Some z'" "pages_allocated z n z' a L" by blast
    moreover from this have "alloc_pages z n = Some (z', Some a)"
      using al(1) n big a unfolding alloc_pages_def by (simp add: pages_order_def [symmetric] k_def [symmetric])
    ultimately show ?thesis by (auto simp: pages_post_def)
  qed
qed

section \<open>The invariant\<close>

lemma phys_inv_take:
  assumes "phys_inv z" "phys_step z z'" "free_mset z' \<subseteq># free_mset z"
  shows "phys_inv z'"
proof -
  have "count (free_mset z') p \<le> 1" for p
    using assms(1) mset_subset_eq_count [OF assms(3), of p]
    by (auto simp: phys_inv_def intro: le_trans)
  moreover have "\<not> is_reserved_page z' (of_nat p)" if "p \<in># free_mset z'" for p
    using that mset_subset_eqD [OF assms(3)] assms(1) is_reserved_cfg [OF phys_stepD(2) [OF assms(2)]]
    by (auto simp: phys_inv_def)
  ultimately show ?thesis using assms by (simp add: phys_inv_def phys_step_def)
qed

lemma phys_inv_give:
  assumes "phys_inv z" "phys_step z z'" "free_mset z' \<subseteq># free_mset z + M"
    "\<forall>p. count M p \<le> 1" "set_mset M \<inter> set_mset (free_mset z) = {}"
    "\<forall>p\<in>#M. \<not> is_reserved_page z (of_nat p)"
  shows "phys_inv z'"
proof -
  have "count (free_mset z + M) p \<le> 1" for p
  proof (cases "p \<in># M")
    case True
    then have "p \<notin># free_mset z" using assms(5) by blast
    then show ?thesis using assms(4) by (simp add: not_in_iff)
  qed (use assms(1) in \<open>simp add: phys_inv_def not_in_iff\<close>)
  then have "count (free_mset z') p \<le> 1" for p
    using mset_subset_eq_count [OF assms(3), of p] le_trans by blast
  moreover have "\<not> is_reserved_page z' (of_nat p)" if "p \<in># free_mset z'" for p
  proof -
    have "p \<in># free_mset z + M" using mset_subset_eqD [OF assms(3) that] .
    then show ?thesis
      using assms(1,6) is_reserved_cfg [OF phys_stepD(2) [OF assms(2)]] by (auto simp: phys_inv_def)
  qed
  ultimately show ?thesis using assms by (simp add: phys_inv_def phys_step_def)
qed

end
