(* ===== verification/Phys_Reserve.thy ===== *)
theory Phys_Reserve
  imports Phys_Correct
begin

text \<open>
  Reserving a range of physical memory and building the zone at boot: removing a range from
  every free list re-inserts exactly the parts of the affected blocks outside the range, and
  the scan of the memory map adds exactly the pages that are neither reserved nor excluded.
\<close>

section \<open>One free list\<close>

definition in_pages :: "u64 \<Rightarrow> u64 \<Rightarrow> nat \<Rightarrow> bool" where
  "in_pages rs re p \<longleftrightarrow> page_of rs \<le> p \<and> p < page_of re"

fun pieces_mset :: "(u64 \<times> u64) list \<Rightarrow> nat multiset" where
  "pieces_mset [] = {#}"
| "pieces_mset ((a, b) # ps) = mset [page_of a ..< page_of b] + pieces_mset ps"

definition piece_ok :: "phys_state \<Rightarrow> u64 \<Rightarrow> u64 \<Rightarrow> u64 \<times> u64 \<Rightarrow> bool" where
  "piece_ok z rs re ab \<longleftrightarrow> (case ab of (a, b) \<Rightarrow>
     4096 dvd unat a \<and> 4096 dvd unat b \<and> a \<le> b \<and> zone_base z \<le> a \<and> b \<le> zone_top z
     \<and> (b \<le> rs \<or> re \<le> a))"

lemma pieces_mset_append [simp]: "pieces_mset (xs @ ys) = pieces_mset xs + pieces_mset ys"
  by (induction xs rule: pieces_mset.induct) (simp_all add: ac_simps)

lemma less_page_iff:
  "4096 dvd unat a \<Longrightarrow> 4096 dvd unat b \<Longrightarrow> a < b \<longleftrightarrow> page_of a < page_of b"
  by (metis mult_less_cancel1 page_of_mult word_less_nat_alt zero_less_numeral)

lemma le_page_iff:
  "4096 dvd unat a \<Longrightarrow> 4096 dvd unat b \<Longrightarrow> a \<le> b \<longleftrightarrow> page_of a \<le> page_of b"
  by (metis less_page_iff not_less)

lemma upt_mset_split: "i \<le> j \<Longrightarrow> j \<le> k \<Longrightarrow> mset [i ..< k] = mset [i ..< j] + mset [j ..< k]"
  using upt_add_eq_append [of i j "k - j"] by (simp del: mset_upt)

text \<open>The parts of one removed block.\<close>

lemma block_parts:
  assumes "pc \<le> pe" "pc < p_re" "p_rs < pe" "p_rs \<le> p_re"
  shows "mset [pc ..< pe] = (if pc < p_rs then mset [pc ..< p_rs] else {#})
    + (if p_re < pe then mset [p_re ..< pe] else {#}) + mset [max pc p_rs ..< min pe p_re]"
proof -
  have "mset [pc ..< pe] = mset [pc ..< max pc p_rs] + mset [max pc p_rs ..< pe]"
    using assms by (intro upt_mset_split) auto
  also have "mset [max pc p_rs ..< pe] = mset [max pc p_rs ..< min pe p_re] + mset [min pe p_re ..< pe]"
    using assms by (intro upt_mset_split) auto
  finally show ?thesis by (auto simp: max_def min_def ac_simps simp del: mset_upt)
qed

definition walked :: "phys_state \<Rightarrow> nat \<Rightarrow> u64 \<Rightarrow> u64 \<Rightarrow> u64 list \<Rightarrow> u64 list \<Rightarrow> nat
    \<Rightarrow> (u64 \<times> u64) list \<Rightarrow> bool" where
  "walked z k rs re cs kept n ps \<longleftrightarrow> set kept \<subseteq> set cs \<and> n + length kept = length cs
     \<and> (\<forall>c\<in>set kept. \<forall>p\<in>#block_mset k c. \<not> in_pages rs re p)
     \<and> (\<forall>ab\<in>set ps. piece_ok z rs re ab)
     \<and> (\<exists>R. order_mset k cs = order_mset k kept + pieces_mset ps + R \<and> (\<forall>p\<in>#R. in_pages rs re p))"

lemma block_end:
  assumes "k \<le> MAX_ORDER" "block_in z k c"
  shows "\<exists>e. checked_add c (block_size k) = Some e \<and> page_of e = page_of c + 2 ^ k
    \<and> 4096 dvd unat c \<and> 4096 dvd unat e \<and> zone_base z \<le> c \<and> c \<le> e \<and> e \<le> zone_top z"
proof -
  have "unat c + 4096 * 2 ^ k \<le> unat (zone_top z)" using assms(2) by (simp add: block_in_def)
  from checked_add_block [OF assms(1) this] obtain e where
    e: "checked_add c (block_size k) = Some e" "unat e = unat c + 4096 * 2 ^ k" by blast
  then show ?thesis
    using assms(2) block_in_page [OF assms(2)] page_of_add [OF e(2)]
    by (simp add: block_in_def word_le_nat_alt)
qed

lemma walked_keep:
  assumes w: "walked z k rs re cs kept n ps"
    and out: "\<forall>p\<in>#block_mset k c. \<not> in_pages rs re p"
  shows "walked z k rs re (c # cs) (c # kept) n ps"
  using assms unfolding walked_def by (auto simp: ac_simps)

lemma walked_remove:
  assumes w: "walked z k rs re cs kept n ps"
    and parts: "block_mset k c = pieces_mset qs + R" "\<forall>p\<in>#R. in_pages rs re p"
      "\<forall>ab\<in>set qs. piece_ok z rs re ab"
  shows "walked z k rs re (c # cs) kept (n + 1) (qs @ ps)"
proof -
  obtain R' where "order_mset k cs = order_mset k kept + pieces_mset ps + R'" "\<forall>p\<in>#R'. in_pages rs re p"
    using w unfolding walked_def by blast
  then have "order_mset k (c # cs) = order_mset k kept + pieces_mset (qs @ ps) + (R + R')
      \<and> (\<forall>p\<in>#R + R'. in_pages rs re p)"
    using parts by (auto simp: ac_simps)
  then show ?thesis using w parts(3) unfolding walked_def by (fastforce simp del: order_mset_simps)
qed

definition cut_pieces :: "u64 \<Rightarrow> u64 \<Rightarrow> u64 \<Rightarrow> u64 \<Rightarrow> (u64 \<times> u64) list" where
  "cut_pieces rs re c e = (if c < rs then [(c, rs)] else []) @ (if re < e then [(re, e)] else [])"

lemma push_carve_pieces:
  assumes "length tc + length (cut_pieces rs re c e) \<le> TO_CARVE_LEN"
  shows "push_carve (re < e) (re, e) (push_carve (c < rs) (c, rs) tc) = tc @ cut_pieces rs re c e"
  using assms by (auto simp: cut_pieces_def)

lemma cut_pieces_block:
  assumes k: "k \<le> MAX_ORDER" and blk: "block_in z k c" and e: "checked_add c (block_size k) = Some e"
    and al: "4096 dvd unat rs" "4096 dvd unat re" "rs \<le> re" and ov: "range_overlaps c e rs re"
  shows "length (cut_pieces rs re c e) \<le> count (block_mset k c) (page_of rs) + count (block_mset k c) (page_of re)"
    "\<forall>ab\<in>set (cut_pieces rs re c e). piece_ok z rs re ab"
    "\<exists>R. block_mset k c = pieces_mset (cut_pieces rs re c e) + R \<and> (\<forall>p\<in>#R. in_pages rs re p)"
proof -
  from block_end [OF k blk] e have pe: "page_of e = page_of c + 2 ^ k" and ce: "4096 dvd unat c"
    "4096 dvd unat e" "zone_base z \<le> c" "c \<le> e" "e \<le> zone_top z" by auto
  have pg: "c < rs \<longleftrightarrow> page_of c < page_of rs" "re < e \<longleftrightarrow> page_of re < page_of e"
      "page_of c < page_of re" "page_of rs < page_of e" "page_of rs \<le> page_of re"
    using ov al ce(1,2) by (simp_all add: range_overlaps_def less_page_iff le_page_iff)
  show "length (cut_pieces rs re c e) \<le> count (block_mset k c) (page_of rs) + count (block_mset k c) (page_of re)"
    using pg pe by (simp add: cut_pieces_def count_block_mset)
  show "\<forall>ab\<in>set (cut_pieces rs re c e). piece_ok z rs re ab"
    using al ce ov by (auto simp: cut_pieces_def piece_ok_def range_overlaps_def)
  have "page_of c \<le> page_of e" by (simp add: pe)
  from block_parts [OF this pg(3,4,5)]
  have "block_mset k c = pieces_mset (cut_pieces rs re c e)
      + mset [max (page_of c) (page_of rs) ..< min (page_of e) (page_of re)]"
    by (simp add: block_mset_def pe [symmetric] cut_pieces_def pg(1,2))
  then show "\<exists>R. block_mset k c = pieces_mset (cut_pieces rs re c e) + R \<and> (\<forall>p\<in>#R. in_pages rs re p)"
    by (intro exI [of _ "mset [max (page_of c) (page_of rs) ..< min (page_of e) (page_of re)]"])
      (simp add: in_pages_def)
qed

lemma no_overlap_out:
  assumes k: "k \<le> MAX_ORDER" and blk: "block_in z k c" and e: "checked_add c (block_size k) = Some e"
    and al: "4096 dvd unat rs" "4096 dvd unat re" and ov: "\<not> range_overlaps c e rs re"
  shows "\<forall>p\<in>#block_mset k c. \<not> in_pages rs re p"
proof -
  from block_end [OF k blk] e have pe: "page_of e = page_of c + 2 ^ k" "4096 dvd unat c" "4096 dvd unat e"
    by auto
  then show ?thesis
    using ov al by (auto simp: range_overlaps_def less_page_iff in_pages_def)
qed

lemma remove_walk_correct:
  assumes "k \<le> MAX_ORDER" "\<forall>c\<in>set cs. block_in z k c"
    and al: "4096 dvd unat rs" "4096 dvd unat re" "rs \<le> re"
    and "length tc + count (order_mset k cs) (page_of rs) + count (order_mset k cs) (page_of re) \<le> TO_CARVE_LEN"
  shows "\<exists>kept n ps. remove_walk k rs re cs tc = Some (kept, n, tc @ ps) \<and> walked z k rs re cs kept n ps"
  using assms(2,6)
proof (induction cs arbitrary: tc)
  case Nil
  then show ?case by (auto simp: walked_def)
next
  case (Cons c cs)
  have blk: "block_in z k c" using Cons.prems(1) by simp
  obtain e where e: "checked_add c (block_size k) = Some e" using block_end [OF assms(1) blk] by blast
  show ?case
  proof (cases "range_overlaps c e rs re")
    case True
    let ?qs = "cut_pieces rs re c e"
    note cut = cut_pieces_block [OF assms(1) blk e al True]
    have len: "length tc + length ?qs \<le> TO_CARVE_LEN" "length (tc @ ?qs) + count (order_mset k cs) (page_of rs)
        + count (order_mset k cs) (page_of re) \<le> TO_CARVE_LEN"
      using Cons.prems(2) cut(1) by simp_all
    obtain kept n ps where "remove_walk k rs re cs (tc @ ?qs) = Some (kept, n, (tc @ ?qs) @ ps)"
        "walked z k rs re cs kept n ps"
      using Cons.IH [OF _ len(2)] Cons.prems(1) by auto
    moreover obtain R where "block_mset k c = pieces_mset ?qs + R" "\<forall>p\<in>#R. in_pages rs re p"
      using cut(3) by blast
    ultimately show ?thesis
      using e True push_carve_pieces [OF len(1)] walked_remove [OF _ _ _ cut(2)] by fastforce
  next
    case False
    obtain kept n ps where "remove_walk k rs re cs tc = Some (kept, n, tc @ ps)"
        "walked z k rs re cs kept n ps"
      using Cons.IH [of tc] Cons.prems by auto
    then show ?thesis
      using e False walked_keep [OF _ no_overlap_out [OF assms(1) blk e al(1,2) False]] by fastforce
  qed
qed

section \<open>All free lists\<close>

definition order_part :: "(nat \<Rightarrow> bool) \<Rightarrow> phys_state \<Rightarrow> nat \<Rightarrow> nat multiset" where
  "order_part P z j = filter_mset P (order_mset j (free_lists z ! j))"

lemma order_part_empty_iff:
  "order_part P z j = {#} \<longleftrightarrow> (\<forall>p\<in>#order_mset j (free_lists z ! j). \<not> P p)"
  by (auto simp: order_part_def)

lemma free_mset_mem: "p \<in># free_mset z \<longleftrightarrow> (\<exists>j<11. p \<in># order_mset j (free_lists z ! j))"
  by (auto simp: free_mset_def lists_mset_def set_mset_sum)

lemma add_block_part:
  assumes "blocks_ok z" "k \<le> MAX_ORDER" "\<forall>p\<in>#block_mset k a. \<not> P p"
  shows "order_part P (add_block z a k) j = order_part P z j"
proof -
  have "filter_mset P (block_mset k a) = {#}" using assms(3) by simp
  then show ?thesis
    using assms by (cases "j = k") (auto simp: order_part_def add_block_def blocks_ok_def MAX_ORDER_def)
qed

lemma carve_range_part:
  assumes "blocks_ok z" "4096 dvd unat addr" "4096 dvd unat stop" "addr \<le> stop"
    "zone_base z \<le> addr" "stop \<le> zone_top z" "carve_range z addr stop = Some z'"
    "\<forall>p. page_of addr \<le> p \<and> p < page_of stop \<longrightarrow> \<not> P p"
  shows "order_part P z' j = order_part P z j"
  using assms
proof (induction z addr stop rule: carve_range.induct)
  case (1 z addr stop)
  let ?k = "chunk_order addr stop"
  show ?case
  proof (cases "addr < stop")
    case True
    note fits = chunk_order_fits [OF 1(3,4) True]
    obtain c where c: "checked_add addr (block_size ?k) = Some c" "unat c = unat addr + 4096 * 2 ^ ?k"
      using checked_add_block [OF chunk_order_le fits(2)] by blast
    have "block_in z ?k addr" using fits 1(6,7) by (simp add: block_in_def word_le_nat_alt)
    note add = add_block_step [OF 1(2) chunk_order_le this]
    have pc: "page_of c = page_of addr + 2 ^ ?k" using c(2) by (rule page_of_add)
    have le: "page_of c \<le> page_of stop" using fits(2) c(2) by (intro page_of_mono) simp
    have "4096 dvd unat c" "c \<le> stop" "zone_base z \<le> c"
      using 1(3,6) c(2) fits(2) by (simp_all add: word_le_nat_alt)
    moreover have "carve_range (add_block z addr ?k) c stop = Some z'"
      using 1(8) True c(1) by (subst (asm) carve_range.simps) simp
    moreover have "\<forall>p. page_of c \<le> p \<and> p < page_of stop \<longrightarrow> \<not> P p"
      using 1(9) pc by simp
    ultimately have "order_part P z' j = order_part P (add_block z addr ?k) j"
      using 1(1) [OF True refl c(1)] 1(4,7) phys_stepD [OF add] by (auto simp: phys_cfg_def)
    moreover have "\<forall>p\<in>#block_mset ?k addr. \<not> P p"
      using 1(9) pc le by simp
    ultimately show ?thesis using add_block_part [OF 1(2) chunk_order_le] by simp
  next
    case False
    then show ?thesis using 1(8) by (subst (asm) carve_range.simps) simp
  qed
qed

lemma piece_ok_cfg: "phys_cfg z' = phys_cfg z \<Longrightarrow> piece_ok z' rs re ab = piece_ok z rs re ab"
  by (simp add: piece_ok_def phys_cfg_def)

lemma piece_out: "piece_ok z rs re (a, b) \<Longrightarrow> page_of a \<le> p \<and> p < page_of b \<longrightarrow> \<not> in_pages rs re p"
  using page_of_mono [of b rs] page_of_mono [of re a]
  by (auto simp: piece_ok_def in_pages_def word_le_nat_alt)

lemma carve_all_correct:
  assumes "blocks_ok z" "\<forall>ab\<in>set ps. piece_ok z rs re ab"
  shows "\<exists>z'. carve_all z ps = Some z' \<and> phys_step z z' \<and> refcounts z' = refcounts z
    \<and> free_mset z' = free_mset z + pieces_mset ps
    \<and> (\<forall>j. order_part (in_pages rs re) z' j = order_part (in_pages rs re) z j)"
  using assms
proof (induction ps arbitrary: z)
  case Nil
  then show ?case by (simp add: phys_step_refl)
next
  case (Cons ab ps)
  obtain a b where ab: "ab = (a, b)" by fastforce
  have ok: "piece_ok z rs re (a, b)" using Cons.prems(2) ab by simp
  then have pre: "4096 dvd unat a" "4096 dvd unat b" "a \<le> b" "zone_base z \<le> a" "b \<le> zone_top z"
    by (simp_all add: piece_ok_def)
  obtain z1 where z1: "carve_range z a b = Some z1" "phys_step z z1" "refcounts z1 = refcounts z"
      "free_mset z1 = free_mset z + mset [page_of a ..< page_of b]"
    using carve_range_correct [OF Cons.prems(1) pre] by blast
  have "\<forall>ab\<in>set ps. piece_ok z1 rs re ab"
    using Cons.prems(2) piece_ok_cfg [OF phys_stepD(2) [OF z1(2)]] by simp
  with Cons.IH [OF phys_stepD(1) [OF z1(2)]] obtain z' where
    "carve_all z1 ps = Some z'" "phys_step z1 z'" "refcounts z' = refcounts z1"
    "free_mset z' = free_mset z1 + pieces_mset ps"
    "\<forall>j. order_part (in_pages rs re) z' j = order_part (in_pages rs re) z1 j" by blast
  moreover have "order_part (in_pages rs re) z1 j = order_part (in_pages rs re) z j" for j
    using carve_range_part [OF Cons.prems(1) pre z1(1)] piece_out [OF ok] by simp
  ultimately show ?case
    using z1 ab phys_step_trans [OF z1(2)] by (simp add: ac_simps del: mset_upt)
qed

definition range_removed :: "phys_state \<Rightarrow> phys_state \<Rightarrow> u64 \<Rightarrow> u64 \<Rightarrow> nat set \<Rightarrow> bool" where
  "range_removed z z' rs re H \<longleftrightarrow> phys_step z z' \<and> refcounts z' = refcounts z
     \<and> (\<exists>R. free_mset z = free_mset z' + R \<and> (\<forall>p\<in>#R. in_pages rs re p))
     \<and> (\<forall>j\<in>H. order_part (in_pages rs re) z' j = {#})
     \<and> (\<forall>j. j \<notin> H \<longrightarrow> order_part (in_pages rs re) z' j = order_part (in_pages rs re) z j)"

lemma range_removed_trans:
  assumes "range_removed z z1 rs re A" "range_removed z1 z' rs re B"
  shows "range_removed z z' rs re (A \<union> B)"
proof -
  obtain R R' where "free_mset z = free_mset z1 + R" "\<forall>p\<in>#R. in_pages rs re p"
    "free_mset z1 = free_mset z' + R'" "\<forall>p\<in>#R'. in_pages rs re p"
    using assms unfolding range_removed_def by blast
  then have "free_mset z = free_mset z' + (R' + R) \<and> (\<forall>p\<in>#R' + R. in_pages rs re p)" by auto
  moreover have "phys_step z z'"
    using assms phys_step_trans unfolding range_removed_def by blast
  moreover have "order_part (in_pages rs re) z' j = {#}" if "j \<in> A \<union> B" for j
    using assms that unfolding range_removed_def by (cases "j \<in> B") simp_all
  moreover have "order_part (in_pages rs re) z' j = order_part (in_pages rs re) z j" if "j \<notin> A \<union> B" for j
    using assms that unfolding range_removed_def by simp
  moreover have "refcounts z' = refcounts z" using assms unfolding range_removed_def by simp
  ultimately show ?thesis unfolding range_removed_def by blast
qed

lemma drop_blocks:
  fixes z k kept n
  defines "z1 \<equiv> z\<lparr> free_lists := (free_lists z)[k := kept],
      zone_free_pages := zone_free_pages z - of_nat n * push_bit k 1 \<rparr>"
  assumes ok: "blocks_ok z" and k: "k \<le> MAX_ORDER"
    and kept: "set kept \<subseteq> set (free_lists z ! k)" "n + length kept = length (free_lists z ! k)"
  shows "phys_step z z1"
    "free_mset z1 + order_mset k (free_lists z ! k) = free_mset z + order_mset k kept"
proof -
  have k11: "k < 11" "length (free_lists z) = 11" using k ok by (simp_all add: MAX_ORDER_def blocks_ok_def)
  show fm: "free_mset z1 + order_mset k (free_lists z ! k) = free_mset z + order_mset k kept"
    using lists_mset_update [OF k11, of kept] by (simp add: z1_def free_mset_def)
  have "blocks_ok z1"
    unfolding z1_def using ok k11 kept(1) by (intro blocks_ok_update) (auto simp: blocks_ok_def)
  moreover have "counted z1" if "counted z"
  proof -
    from fm have "size (free_mset z1 + order_mset k (free_lists z ! k)) = size (free_mset z + order_mset k kept)"
      by simp
    then have "size (free_mset z) = size (free_mset z1) + n * 2 ^ k"
      by (simp add: kept(2) [symmetric] algebra_simps)
    moreover have "zone_free_pages z1 = zone_free_pages z - of_nat n * 2 ^ k" by (simp add: z1_def)
    ultimately show ?thesis using that by (simp add: counted_def)
  qed
  ultimately show "phys_step z z1" by (simp add: phys_step_def z1_def)
qed

lemma remove_range_correct:
  assumes ok: "blocks_ok z" "\<forall>p. count (free_mset z) p \<le> 1" and k: "k \<le> MAX_ORDER"
    and al: "4096 dvd unat rs" "4096 dvd unat re" "rs \<le> re"
  shows "\<exists>z'. remove_range z rs re k = Some z' \<and> range_removed z z' rs re {k}"
proof -
  let ?cs = "free_lists z ! k" and ?P = "in_pages rs re"
  have k11: "k < 11" "length (free_lists z) = 11" using k ok(1) by (simp_all add: MAX_ORDER_def blocks_ok_def)
  have blk: "\<forall>c\<in>set ?cs. block_in z k c" using ok(1) k11 by (simp add: blocks_ok_def)
  have "count (order_mset k ?cs) p \<le> 1" for p
    using mset_subset_eq_count [OF order_mset_subset [OF k11(1)], of "free_lists z" p] ok(2)
    unfolding free_mset_def by (meson le_trans)
  from this [of "page_of rs"] this [of "page_of re"]
  have "length [] + count (order_mset k ?cs) (page_of rs) + count (order_mset k ?cs) (page_of re) \<le> TO_CARVE_LEN"
    by (simp add: TO_CARVE_LEN_def)
  from remove_walk_correct [OF k blk al this] obtain kept n ps where
    walk: "remove_walk k rs re ?cs [] = Some (kept, n, ps)" and w: "walked z k rs re ?cs kept n ps"
    by auto
  from w obtain R where R: "order_mset k ?cs = order_mset k kept + pieces_mset ps + R"
    "\<forall>p\<in>#R. ?P p" unfolding walked_def by blast
  define z1 where "z1 = z\<lparr> free_lists := (free_lists z)[k := kept],
      zone_free_pages := zone_free_pages z - of_nat n * push_bit k 1 \<rparr>"
  have "set kept \<subseteq> set ?cs" "n + length kept = length ?cs" using w by (simp_all add: walked_def)
  note drop = drop_blocks [OF ok(1) k this, folded z1_def]
  have "\<forall>ab\<in>set ps. piece_ok z1 rs re ab"
    using w piece_ok_cfg [OF phys_stepD(2) [OF drop(1)]] by (simp add: walked_def)
  from carve_all_correct [OF phys_stepD(1) [OF drop(1)] this] obtain z' where
    z': "carve_all z1 ps = Some z'" "phys_step z1 z'" "refcounts z' = refcounts z1"
      "free_mset z' = free_mset z1 + pieces_mset ps" "\<forall>j. order_part ?P z' j = order_part ?P z1 j" by blast
  have "free_mset z = free_mset z' + R"
    using drop(2) z'(4) R(1) by (simp add: ac_simps)
  moreover have "order_part ?P z1 k = {#}"
    using w k11 by (auto simp: z1_def order_part_def walked_def set_order_mset)
  moreover have "order_part ?P z1 j = order_part ?P z j" if "j \<noteq> k" for j
    using that by (simp add: z1_def order_part_def)
  moreover have "refcounts z1 = refcounts z" by (simp add: z1_def)
  ultimately have "range_removed z z' rs re {k}"
    using z' phys_step_trans [OF drop(1) z'(2)] R(2) by (auto simp: range_removed_def)
  moreover have "remove_range z rs re k = Some z'"
    using walk z'(1) by (simp add: remove_range_def z1_def)
  ultimately show ?thesis by blast
qed

lemma remove_range_orders_correct:
  assumes "blocks_ok z" "\<forall>p. count (free_mset z) p \<le> 1" "\<forall>k\<in>set ks. k \<le> MAX_ORDER"
    and al: "4096 dvd unat rs" "4096 dvd unat re" "rs \<le> re"
  shows "\<exists>z'. remove_range_orders z rs re ks = Some z' \<and> range_removed z z' rs re (set ks)"
  using assms(1-3)
proof (induction ks arbitrary: z)
  case Nil
  then show ?case by (simp add: range_removed_def phys_step_refl)
next
  case (Cons k ks)
  obtain z1 where z1: "remove_range z rs re k = Some z1" "range_removed z z1 rs re {k}"
    using remove_range_correct [OF Cons.prems(1,2) _ al] Cons.prems(3) by auto
  have "free_mset z1 \<subseteq># free_mset z" using z1(2) by (auto simp: range_removed_def)
  then have "\<forall>p. count (free_mset z1) p \<le> 1"
    using Cons.prems(2) mset_subset_eq_count le_trans by metis
  moreover have "blocks_ok z1" using z1(2) by (simp add: range_removed_def phys_step_def)
  ultimately obtain z' where "remove_range_orders z1 rs re ks = Some z'" "range_removed z1 z' rs re (set ks)"
    using Cons.IH [of z1] Cons.prems(3) by auto
  then show ?case using z1 range_removed_trans [OF z1(2)] by simp
qed

text \<open>All orders together: exactly the pages of the range are gone.\<close>

lemma remove_all_orders:
  assumes "blocks_ok z" "\<forall>p. count (free_mset z) p \<le> 1"
    and al: "4096 dvd unat rs" "4096 dvd unat re" "rs \<le> re"
  shows "\<exists>z'. remove_range_orders z rs re [0..<MAX_ORDER + 1] = Some z' \<and> phys_step z z'
    \<and> refcounts z' = refcounts z \<and> free_mset z' = filter_mset (\<lambda>p. \<not> in_pages rs re p) (free_mset z)"
proof -
  have "\<forall>k\<in>set [0..<MAX_ORDER + 1]. k \<le> MAX_ORDER" by auto
  from remove_range_orders_correct [OF assms(1,2) this al] obtain z' where
    z': "remove_range_orders z rs re [0..<MAX_ORDER + 1] = Some z'"
      "range_removed z z' rs re (set [0..<MAX_ORDER + 1])" by blast
  then obtain R where R: "free_mset z = free_mset z' + R" "\<forall>p\<in>#R. in_pages rs re p"
    by (auto simp: range_removed_def)
  have "\<not> in_pages rs re p" if "p \<in># free_mset z'" for p
    using that z'(2) by (auto simp: free_mset_mem range_removed_def order_part_empty_iff MAX_ORDER_def)
  then have "filter_mset (\<lambda>p. \<not> in_pages rs re p) (free_mset z') = free_mset z'"
    "filter_mset (\<lambda>p. \<not> in_pages rs re p) R = {#}"
    using R(2) by (simp_all add: filter_mset_eq_conv)
  then show ?thesis using z' R(1) by (auto simp: range_removed_def)
qed

section \<open>Page alignment\<close>

lemma and_not_page_mask: "unat (x AND NOT (0xFFF :: u64)) = 4096 * (unat x div 4096)"
proof -
  have "x AND NOT (mask 12) = push_bit 12 (drop_bit 12 x)"
    by (rule bit_eqI) (auto simp: bit_simps)
  moreover have "unat (push_bit 12 (drop_bit 12 x)) = take_bit 64 (push_bit 12 (unat x div 4096))"
    by (simp add: unsigned_push_bit_eq unsigned_drop_bit_eq drop_bit_eq_div take_bit_push_bit unat_div)
  moreover have "push_bit 12 (unat x div 4096) < 2 ^ 64"
    using le_less_trans [OF div_times_less_eq_dividend unat64_bound [of x], of 4096]
    by (simp add: push_bit_eq_mult)
  ultimately show ?thesis
    by (simp add: mask_eq_exp_minus_1 take_bit_nat_eq_self push_bit_eq_mult mult.commute)
qed

lemma unat_align_down: "unat (align_down x PAGE_SIZE) = 4096 * page_of x"
  using and_not_page_mask [of x] by (simp add: align_down_def PAGE_SIZE_def page_of_def)

lemma unat_align_up:
  "unat (align_up x PAGE_SIZE) = 4096 * (min (unat x + 4095) (2 ^ 64 - 1) div 4096)"
  using and_not_page_mask [of "saturating_add x 0xFFF"]
  by (simp add: align_up_def PAGE_SIZE_def saturating_add_unat)

lemma page_of_aligned: "unat a = 4096 * n \<Longrightarrow> page_of a = n"
  by (simp add: page_of_def)

lemma align_le: "align_down x PAGE_SIZE \<le> align_up (saturating_add x n) PAGE_SIZE"
proof -
  have "unat x \<le> min (unat (saturating_add x n) + 4095) (2 ^ 64 - 1)"
    using unat64_bound [of x] by (simp add: saturating_add_unat)
  then show ?thesis
    by (simp add: word_le_nat_alt unat_align_down unat_align_up page_of_def div_le_mono)
qed

lemma free_page_bound:
  assumes "blocks_ok z" "p \<in># free_mset z" shows "4096 * p + 4096 \<le> unat (zone_top z)"
proof -
  obtain k a where "k < 11" "a \<in> set (free_lists z ! k)" "p \<in># block_mset k a"
    using assms(2) by (auto simp: free_mset_mem set_order_mset)
  then have "block_in z k a" "page_of a \<le> p" "p < page_of a + 2 ^ k"
    using assms(1) by (auto simp: blocks_ok_def)
  moreover from this(1) have "4096 dvd unat a" by (rule block_in_page)
  then have "4096 * page_of a = unat a" by (rule page_of_mult)
  ultimately show ?thesis by (simp add: block_in_def)
qed

lemma reserve_range_correct:
  assumes "blocks_ok z" "\<forall>p. count (free_mset z) p \<le> 1" and no: "unat n < 2 ^ 52"
  shows "\<exists>z'. reserve_range z start n = Some z' \<and> phys_step z z' \<and> refcounts z' = refcounts z
    \<and> free_mset z' = filter_mset (\<lambda>p. \<not> (4096 * p < unat start + 4096 * unat n \<and> unat start < 4096 * p + 4096))
        (free_mset z)"
proof -
  obtain b where b: "checked_mul n PAGE_SIZE = Some b" "unat b = 4096 * unat n"
    using no by (simp add: checked_mul_def PAGE_SIZE_def unat_word_ariths mult.commute)
  let ?rs = "align_down start PAGE_SIZE" and ?re = "align_up (saturating_add start b) PAGE_SIZE"
  define e where "e = min (unat start + 4096 * unat n) (2 ^ 64 - 4096)"
  have re: "unat ?re = 4096 * ((e + 4095) div 4096)"
    using b(2) by (simp add: unat_align_up saturating_add_unat e_def min_def)
  have al: "4096 dvd unat ?rs" "4096 dvd unat ?re" "?rs \<le> ?re"
    by (simp_all add: unat_align_down unat_align_up align_le)
  have "in_pages ?rs ?re p \<longleftrightarrow> 4096 * p < e \<and> unat start < 4096 * p + 4096" for p
  proof -
    have "page_of ?rs = unat start div 4096"
      by (rule page_of_aligned) (simp add: unat_align_down page_of_def)
    then have "page_of ?rs \<le> p \<longleftrightarrow> unat start < 4096 * p + 4096" by (intro iffI) linarith+
    moreover have "p < page_of ?re \<longleftrightarrow> 4096 * p < e"
      unfolding page_of_aligned [OF re] by (rule iffI) linarith+
    ultimately show ?thesis by (auto simp: in_pages_def)
  qed
  moreover have "4096 * p < e \<longleftrightarrow> 4096 * p < unat start + 4096 * unat n" if "p \<in># free_mset z" for p
    using free_page_bound [OF assms(1) that] unat64_bound [of "zone_top z"] by (auto simp: e_def)
  ultimately have "filter_mset (\<lambda>p. \<not> in_pages ?rs ?re p) (free_mset z) = filter_mset
      (\<lambda>p. \<not> (4096 * p < unat start + 4096 * unat n \<and> unat start < 4096 * p + 4096)) (free_mset z)"
    by (intro filter_mset_cong) simp_all
  with remove_all_orders [OF assms(1,2) al] b(1) show ?thesis
    by (simp add: reserve_range_def del: upt_Suc)
qed

lemma reserve_range_abort: "2 ^ 52 \<le> unat n \<Longrightarrow> reserve_range z start n = None"
  by (simp add: reserve_range_def checked_mul_def PAGE_SIZE_def)

section \<open>Building the zone\<close>

definition usable :: "phys_state \<Rightarrow> (u64 \<times> u64) list \<Rightarrow> nat \<Rightarrow> bool" where
  "usable z ex p \<longleftrightarrow> \<not> is_reserved_page z (of_nat p) \<and> \<not> is_excluded (of_nat (4096 * p)) ex"

lemma usable_cfg: "phys_cfg z' = phys_cfg z \<Longrightarrow> usable z' ex = usable z ex"
  by (rule ext) (simp add: usable_def is_reserved_cfg [of z' z])

lemma usable_addr:
  assumes "4096 dvd unat addr"
  shows "(\<not> is_reserved_page z (addr div PAGE_SIZE) \<and> \<not> is_excluded addr ex) \<longleftrightarrow> usable z ex (page_of addr)"
proof -
  have "of_nat (4096 * page_of addr) = addr" using page_of_mult [OF assms] by simp
  then show ?thesis by (simp add: usable_def div_page_of_nat)
qed

lemma scan_extend:
  assumes "unat rs \<le> unat addr"
  shows "mset [page_of rs ..< Suc (page_of addr)] = add_mset (page_of addr) (mset [page_of rs ..< page_of addr])"
  using page_of_mono [OF assms] by (simp del: mset_upt)

lemma scan_region_correct:
  assumes "blocks_ok z" "4096 dvd unat reg_end" "4096 dvd unat addr" "addr \<le> reg_end"
    "zone_base z \<le> addr" "reg_end \<le> zone_top z"
    "in_range \<longrightarrow> 4096 dvd unat range_start \<and> range_start \<le> addr \<and> zone_base z \<le> range_start"
  shows "\<exists>z'. scan_region z ex reg_end addr range_start in_range = Some z' \<and> phys_step z z'
    \<and> refcounts z' = refcounts z
    \<and> free_mset z' = free_mset z + (if in_range then mset [page_of range_start ..< page_of addr] else {#})
        + mset (filter (usable z ex) [page_of addr ..< page_of reg_end])"
  using assms
proof (induction z ex reg_end addr range_start in_range rule: scan_region.induct)
  case (1 z ex reg_end addr range_start in_range)
  show ?case
  proof (cases "addr < reg_end")
    case False
    then have "addr = reg_end" using 1(5) by simp
    then show ?thesis
      using 1(2-8) carve_range_correct [of z range_start reg_end]
      by (subst scan_region.simps) (auto simp: phys_step_refl)
  next
    case True
    let ?free = "usable z ex (page_of addr)"
    have "unat addr + 4096 \<le> unat reg_end"
      using True 1(3,4) by (auto simp: word_less_nat_alt elim!: dvdE)
    then obtain a' where a': "checked_add addr PAGE_SIZE = Some a'" "unat a' = unat addr + 4096 * 1"
      using unat64_bound [of reg_end] by (auto simp: checked_add_def PAGE_SIZE_def unat_word_ariths)
    have pa: "page_of a' = Suc (page_of addr)" using page_of_add [OF a'(2)] by simp
    have a'_ok: "4096 dvd unat a'" "a' \<le> reg_end" "zone_base z \<le> a'" "addr \<le> a'"
      using 1(4,6) a'(2) \<open>unat addr + 4096 \<le> unat reg_end\<close> by (simp_all add: word_le_nat_alt)
    have "addr \<le> zone_top z" using True 1(7) by simp
    then obtain z1 where z1: "(if \<not> ?free \<and> in_range then carve_range z range_start addr else Some z) = Some z1"
        "phys_step z z1" "refcounts z1 = refcounts z"
        "free_mset z1 = free_mset z + (if \<not> ?free \<and> in_range then mset [page_of range_start ..< page_of addr] else {#})"
      using 1(2,4,8) carve_range_correct [of z range_start addr]
      by (cases "\<not> ?free \<and> in_range") (auto simp: phys_step_refl)
    have cfg: "zone_base z1 = zone_base z" "zone_top z1 = zone_top z"
      using phys_stepD(2) [OF z1(2)] by (simp_all add: phys_cfg_def)
    let ?rs = "if ?free \<and> \<not> in_range then addr else range_start"
    have "\<exists>z'. scan_region z1 ex reg_end a' ?rs ?free = Some z' \<and> phys_step z1 z'
        \<and> refcounts z' = refcounts z1
        \<and> free_mset z' = free_mset z1 + (if ?free then mset [page_of ?rs ..< page_of a'] else {#})
          + mset (filter (usable z1 ex) [page_of a' ..< page_of reg_end])"
      using 1(1) [OF True usable_addr [OF 1(4), symmetric] z1(1) a'(1)] 1(2-8) a'_ok cfg phys_stepD(1) [OF z1(2)]
      by (cases in_range; cases ?free) auto
    then obtain z' where z': "scan_region z1 ex reg_end a' ?rs ?free = Some z'" "phys_step z1 z'"
        "refcounts z' = refcounts z1"
        "free_mset z' = free_mset z1 + (if ?free then mset [page_of ?rs ..< page_of a'] else {#})
          + mset (filter (usable z ex) [page_of a' ..< page_of reg_end])"
      unfolding usable_cfg [OF phys_stepD(2) [OF z1(2)]] by blast
    have ir: "(if ?free \<and> \<not> in_range then True else if \<not> ?free \<and> in_range then False else in_range) = ?free"
      by auto
    have "scan_region z ex reg_end addr range_start in_range = Some z'"
      by (subst scan_region.simps) (simp only: True usable_addr [OF 1(4)] Let_def z1(1) a'(1) z'(1) ir if_True option.case)
    moreover have "page_of addr < page_of reg_end"
      using True 1(3,4) by (simp add: less_page_iff)
    then have "[page_of addr ..< page_of reg_end] = page_of addr # [page_of a' ..< page_of reg_end]"
      by (simp add: pa upt_conv_Cons)
    then have "free_mset z' = free_mset z + (if in_range then mset [page_of range_start ..< page_of addr] else {#})
        + mset (filter (usable z ex) [page_of addr ..< page_of reg_end])"
      using z'(4) z1(4) scan_extend [of range_start addr] 1(8) pa by (simp add: word_le_nat_alt del: mset_upt)
    ultimately show ?thesis
      using z'(3) z1(3) phys_step_trans [OF z1(2) z'(2)] by simp
  qed
qed

definition region_pages :: "u64 \<times> u64 \<Rightarrow> nat list" where
  "region_pages r = [page_of (region_start r) ..< page_of (region_end r)]"

lemma region_aligned: "4096 dvd unat (region_start r)" "4096 dvd unat (region_end r)"
  by (simp_all add: region_start_def region_end_def unat_align_up unat_align_down)

lemma region_pages_empty: "region_end r \<le> region_start r \<Longrightarrow> region_pages r = []"
  by (simp add: region_pages_def page_of_mono word_le_nat_alt)

lemma zone_bounds_cover:
  assumes "zone_bounds rs (lo, hi) = (lo', hi')"
  shows "lo' \<le> lo \<and> hi \<le> hi' \<and> (\<forall>r\<in>set rs. region_start r < region_end r \<longrightarrow>
    lo' \<le> region_start r \<and> region_end r \<le> hi')"
  using assms
proof (induction rs arbitrary: lo hi)
  case (Cons r rs)
  show ?case
  proof (cases "region_start r < region_end r")
    case True
    with Cons.prems have "zone_bounds rs (min lo (region_start r), max hi (region_end r)) = (lo', hi')" by simp
    from Cons.IH [OF this] show ?thesis by auto
  next
    case False
    with Cons.prems have "zone_bounds rs (lo, hi) = (lo', hi')" by simp
    from Cons.IH [OF this] False show ?thesis by auto
  qed
qed simp

lemma carve_regions_correct:
  assumes "blocks_ok z" "\<forall>r\<in>set rs. region_start r < region_end r \<longrightarrow>
    zone_base z \<le> region_start r \<and> region_end r \<le> zone_top z"
  shows "\<exists>z'. carve_regions z ex rs = Some z' \<and> phys_step z z' \<and> refcounts z' = refcounts z
    \<and> free_mset z' = free_mset z + mset (filter (usable z ex) (concat (map region_pages rs)))"
  using assms
proof (induction rs arbitrary: z)
  case Nil
  then show ?case by (simp add: phys_step_refl)
next
  case (Cons r rs)
  show ?case
  proof (cases "region_end r \<le> region_start r")
    case True
    then show ?thesis using Cons by (simp add: region_pages_empty)
  next
    case False
    then have bnd: "zone_base z \<le> region_start r" "region_end r \<le> zone_top z" "region_start r \<le> region_end r"
      using Cons.prems(2) by auto
    obtain z1 where z1: "scan_region z ex (region_end r) (region_start r) 0 False = Some z1" "phys_step z z1"
        "refcounts z1 = refcounts z" "free_mset z1 = free_mset z + mset (filter (usable z ex) (region_pages r))"
      using scan_region_correct [OF Cons.prems(1) region_aligned(2,1) bnd(3,1,2), of False] 
      unfolding region_pages_def by auto
    have cfg: "zone_base z1 = zone_base z" "zone_top z1 = zone_top z"
      using phys_stepD(2) [OF z1(2)] by (simp_all add: phys_cfg_def)
    have "\<forall>r\<in>set rs. region_start r < region_end r \<longrightarrow>
        zone_base z1 \<le> region_start r \<and> region_end r \<le> zone_top z1"
      using Cons.prems(2) cfg by simp
    from Cons.IH [OF phys_stepD(1) [OF z1(2)] this] obtain z' where
      "carve_regions z1 ex rs = Some z'" "phys_step z1 z'" "refcounts z' = refcounts z1"
      "free_mset z' = free_mset z1 + mset (filter (usable z ex) (concat (map region_pages rs)))"
      unfolding usable_cfg [OF phys_stepD(2) [OF z1(2)]] by blast
    then show ?thesis using False z1 phys_step_trans [OF z1(2)] by simp
  qed
qed

lemma record_kernel_total: "\<exists>z'. record_kernel z ks n = Some z' \<and> refcounts z' = refcounts z \<and> initialized z' = initialized z"
  using align_le [of ks n] by (simp add: record_kernel_def checked_sub_def Let_def)

lemma bootinfo_reserved:
  assumes "bootinfo_reserved_pn z = base div PAGE_SIZE" "bootinfo_reserved_pages z = n"
    "page_of base \<le> p" "p < page_of base + unat n" "page_of base + unat n < 2 ^ 64"
  shows "is_reserved_page z (of_nat p)"
proof -
  have p: "unat (of_nat p :: u64) = p" using assms(4,5) by (simp add: unat64_of_nat)
  have "page_of base < 2 ^ 52" using unat64_bound [of base] by (simp add: page_of_def)
  then have "unat (base div PAGE_SIZE) \<noteq> unat USIZE_MAX"
    by (simp add: USIZE_MAX_def unsigned_minus_1_eq_mask mask_eq_exp_minus_1)
  then have "base div PAGE_SIZE \<noteq> USIZE_MAX" by (auto simp del: unat_div_page)
  moreover have "n \<noteq> 0" using assms(3,4) by auto
  ultimately show ?thesis
    using assms p by (simp add: is_reserved_page_def in_reserved_def word_le_nat_alt)
qed

lemma distinct_count_le: "distinct xs \<Longrightarrow> \<forall>p. count (mset xs) p \<le> 1"
  unfolding distinct_count_atmost_1 by simp

lemma phys_inv_booted:
  assumes "blocks_ok z" "counted z" "free_mset z = mset (filter (usable z ex) ps)" "distinct ps"
  shows "phys_inv (z\<lparr> zone_total_pages := n, initialized := b \<rparr>)"
proof -
  have "\<forall>p. count (free_mset z) p \<le> 1"
    unfolding assms(3) by (rule distinct_count_le) (simp add: assms(4))
  moreover have "\<forall>p\<in>#free_mset z. \<not> is_reserved_page z (of_nat p)"
    unfolding assms(3) by (simp add: usable_def)
  ultimately show ?thesis
    using assms(1,2) by (simp add: phys_inv_def blocks_ok_def counted_def free_mset_def block_in_def is_reserved_page_def)
qed

lemma init_from_regions_correct:
  assumes "\<not> initialized z"
    and bi: "unat boot_info_phys + 4096 * unat bi_pages < 2 ^ 64"
    and dist: "distinct (concat (map region_pages regions))"
  shows "\<exists>z'. init_from_regions z bi_pages regions boot_info_phys kernel_start kernel_size ex = Some z'
    \<and> phys_inv z' \<and> initialized z' \<and> zone_total_pages z' = zone_free_pages z' \<and> refcounts z' = refcounts z
    \<and> free_mset z' = mset (filter (usable z' ex) (concat (map region_pages regions)))"
proof -
  obtain zk where zk: "record_kernel z kernel_start kernel_size = Some zk" "refcounts zk = refcounts z"
    using record_kernel_total by blast
  obtain lo hi where zb: "zone_bounds regions (- 1, 0) = (lo, hi)" by fastforce
  let ?bb = "align_down boot_info_phys PAGE_SIZE"
  define z1 where "z1 = zk\<lparr> zone_base := (if lo = - 1 then 0 else lo), zone_top := hi,
                 free_lists := replicate (MAX_ORDER + 1) [],
                 zone_total_pages := 0, zone_free_pages := 0,
                 bootinfo_reserved_pn := ?bb div PAGE_SIZE,
                 bootinfo_reserved_pages := bi_pages \<rparr>"
  have z1: "blocks_ok z1" "free_mset z1 = {#}" "counted z1" "refcounts z1 = refcounts z"
    by (simp_all add: z1_def blocks_ok_def free_mset_def lists_mset_def counted_def MAX_ORDER_def zk)
  have "\<forall>r\<in>set regions. region_start r < region_end r \<longrightarrow>
      zone_base z1 \<le> region_start r \<and> region_end r \<le> zone_top z1"
    using zone_bounds_cover [OF zb] by (simp add: z1_def)
  from carve_regions_correct [OF z1(1) this, of ex] z1(2) obtain z2 where
    z2: "carve_regions z1 ex regions = Some z2" "phys_step z1 z2" "refcounts z2 = refcounts z1"
      "free_mset z2 = mset (filter (usable z1 ex) (concat (map region_pages regions)))" by auto
  have pbb: "page_of ?bb = page_of boot_info_phys"
    by (rule page_of_aligned) (rule unat_align_down)
  have "unat ?bb + 4096 * unat bi_pages \<le> unat (- 1 :: u64)"
    using bi by (simp add: unat_align_down unsigned_minus_1_eq_mask mask_eq_exp_minus_1 page_of_def)
  then obtain b be where be: "checked_mul bi_pages PAGE_SIZE = Some b" "checked_add ?bb b = Some be"
      "unat be = unat ?bb + 4096 * unat bi_pages" using checked_page_range by blast
  have pbe: "page_of be = page_of ?bb + unat bi_pages" using be(3) by (rule page_of_add)
  have dist2: "\<forall>p. count (free_mset z2) p \<le> 1"
    unfolding z2(4) by (rule distinct_count_le) (simp add: dist)
  have al: "4096 dvd unat ?bb" "4096 dvd unat be" "?bb \<le> be"
    using be(3) by (simp_all add: unat_align_down word_le_nat_alt)
  from remove_all_orders [OF phys_stepD(1) [OF z2(2)] dist2 al] obtain z3 where
    z3: "remove_range_orders z2 ?bb be [0..<MAX_ORDER + 1] = Some z3" "phys_step z2 z3"
      "refcounts z3 = refcounts z2" "free_mset z3 = filter_mset (\<lambda>p. \<not> in_pages ?bb be p) (free_mset z2)" by blast
  have "page_of ?bb + unat bi_pages < 2 ^ 64"
    using unat64_bound [of be] be(3) by (simp add: page_of_def)
  then have "\<not> in_pages ?bb be p" if "usable z1 ex p" for p
    using that bootinfo_reserved [of z1 ?bb bi_pages p] pbe
    by (auto simp: usable_def in_pages_def) (simp add: z1_def)
  then have fm: "free_mset z3 = mset (filter (usable z3 ex) (concat (map region_pages regions)))"
    unfolding z3(4) z2(4) usable_cfg [OF phys_stepD(2) [OF phys_step_trans [OF z2(2) z3(2)]]]
    by (auto simp: filter_mset_eq_conv)
  define z' where "z' = z3\<lparr> zone_total_pages := zone_free_pages z3, initialized := True \<rparr>"
  have "init_from_regions z bi_pages regions boot_info_phys kernel_start kernel_size ex = Some z'"
    by (simp only: init_from_regions_def assms(1) if_False zk(1) zb Let_def prod.case
        z1_def [symmetric] z2(1) be(1,2) z3(1) z'_def Option.bind.simps)
  moreover have "blocks_ok z3" "counted z3"
    using phys_step_trans [OF z2(2) z3(2)] z1(3) by (simp_all add: phys_step_def)
  then have "phys_inv z'" unfolding z'_def using fm dist by (rule phys_inv_booted)
  moreover have "free_mset z' = free_mset z3" "usable z' ex = usable z3 ex"
    by (simp_all add: z'_def free_mset_def usable_def is_reserved_page_def fun_eq_iff)
  ultimately show ?thesis using fm z1(4) z2(3) z3(3) by (simp add: z'_def)
qed

section \<open>The reserved ranges never wrap\<close>

text \<open>\<^verbatim>\<open>is_reserved_page\<close> adds the first page number and the page count in a \<^verbatim>\<open>usize\<close>. On the
  ranges that initialisation records the sum fits, so the sum of naturals in
  \<^const>\<open>in_reserved\<close> is the machine's.\<close>

lemma in_reserved_word:
  assumes "unat base + unat pages < 2 ^ 64"
  shows "in_reserved base pages pn \<longleftrightarrow> base \<noteq> USIZE_MAX \<and> pages \<noteq> 0 \<and> base \<le> pn \<and> pn < base + pages"
proof -
  have "unat (base + pages) = unat base + unat pages"
    using assms by (simp add: unat_word_ariths)
  then show ?thesis by (simp add: in_reserved_def word_less_nat_alt)
qed

lemma record_kernel_sum:
  assumes "record_kernel z ks sz = Some z'" "0 < sz"
  shows "unat (kernel_reserved_pn z') + unat (kernel_reserved_pages z') < 2 ^ 64"
proof -
  let ?s = "align_down ks PAGE_SIZE" and ?e = "align_up (saturating_add ks sz) PAGE_SIZE"
  obtain len where len: "checked_sub ?e ?s = Some len"
      "z' = z\<lparr> kernel_reserved_pn := ?s div PAGE_SIZE, kernel_reserved_pages := len div PAGE_SIZE \<rparr>"
    using assms by (auto simp: record_kernel_def Let_def bind_eq_Some_conv)
  have "page_of ?s \<le> unat ?s" "page_of len \<le> unat len" by (simp_all add: page_of_def)
  moreover have "unat ?s + unat len < 2 ^ 64"
    using len(1) unat64_bound [of ?e]
    by (auto simp: checked_sub_def unat_sub word_le_nat_alt split: if_splits)
  ultimately show ?thesis by (simp add: len(2))
qed

lemma bootinfo_sum:
  assumes "unat boot_info_phys + 4096 * unat bi_pages < 2 ^ 64"
  shows "unat (align_down boot_info_phys PAGE_SIZE div PAGE_SIZE) + unat bi_pages < 2 ^ 64"
proof -
  have "page_of (align_down boot_info_phys PAGE_SIZE) = page_of boot_info_phys"
    by (rule page_of_aligned) (rule unat_align_down)
  moreover have "page_of boot_info_phys \<le> unat boot_info_phys" by (simp add: page_of_def)
  ultimately show ?thesis using assms by simp
qed

end
