(* ===== verification/Phys_Theorems.thy ===== *)
theory Phys_Theorems
  imports Phys_Reserve "HOL-Library.Code_Target_Nat"
begin

text \<open>
  The properties of the physical page allocator: what each entry point of
  \<^verbatim>\<open>kernel/src/mm/phys.rs\<close> does to the set of free pages, that it never aborts on a state
  that satisfies the invariant, and that it keeps the invariant.
\<close>

section \<open>Concrete states used by the witnesses\<close>

text \<open>A booted zone of eight pages at 1 MB, as one region of the memory map.\<close>

definition demo_regions :: "(u64 \<times> u64) list" where
  "demo_regions = [(0x100000, 0x8000)]"

definition demo_zone :: phys_state where
  "demo_zone = \<lparr> zone_base = 0x100000, zone_top = 0x108000,
     free_lists = [[0x107000, 0x106000], [0x104000], [0x100000]] @ replicate 8 [],
     zone_total_pages = 8, zone_free_pages = 8, refcounts = (\<lambda>_. 1),
     bootinfo_reserved_pn = 6, bootinfo_reserved_pages = 1,
     kernel_reserved_pn = USIZE_MAX, kernel_reserved_pages = 0, initialized = True \<rparr>"

lemma demo_free: "free_mset demo_zone = mset [256..<264]"
  by (simp add: free_mset_def lists_mset_def lessThan_nat_numeral lessThan_Suc demo_zone_def
      block_mset_def page_of_def upt_rec del: mset_upt)

lemma demo_inv: "phys_inv demo_zone"
proof -
  have "blocks_ok demo_zone"
    by (simp add: blocks_ok_def all_less_upt upt_rec block_in_def demo_zone_def)
  moreover have "counted demo_zone"
    unfolding counted_def demo_free by (simp add: demo_zone_def)
  moreover have "\<forall>p. count (free_mset demo_zone) p \<le> 1"
    unfolding demo_free by (rule distinct_count_le) (simp only: distinct_upt)
  moreover have "list_all (\<lambda>p. \<not> is_reserved_page demo_zone (of_nat p)) [256..<264]"
    by (simp add: upt_rec is_reserved_page_def in_reserved_def demo_zone_def USIZE_MAX_def
        BOOTINFO_HANDOFF_PAGE_def PAGE_SIZE_def)
  ultimately show ?thesis by (simp add: phys_inv_def demo_free list_all_iff)
qed

section \<open>Allocation\<close>

text \<open>C2. \<^verbatim>\<open>alloc_order\<close> on a well-formed zone never aborts and keeps the zone well formed. If it
  returns a block, the block is aligned to its size, lies in the zone, was free, and its
  pages are exactly what the free lists lose; a single page comes with reference count 1. If
  it returns nothing, nothing changed and no list of a sufficient order has a block.\<close>

theorem alloc_order_spec:
  assumes "phys_inv z" "k \<le> MAX_ORDER"
  shows "\<exists>z' r. alloc_order z k = Some (z', r) \<and> phys_inv z' \<and>
    (case r of
       None \<Rightarrow> z' = z \<and> (\<forall>h. k \<le> h \<and> h \<le> MAX_ORDER \<longrightarrow> free_lists z ! h = [])
     | Some a \<Rightarrow> block_in z k a \<and> free_mset z = free_mset z' + block_mset k a
         \<and> (k = 0 \<and> page_of a < REFCOUNT_MAX_PAGES \<longrightarrow> refcounts z' (page_of a) = 1))"
proof -
  have ok: "blocks_ok z" using assms(1) by (simp add: phys_inv_def)
  obtain z' r where a: "alloc_order z k = Some (z', r)" "alloc_post z k {k..MAX_ORDER} z' r"
    using alloc_order_correct [OF ok assms(2)] by blast
  have "phys_inv z'"
  proof (cases r)
    case (Some b)
    then have "phys_step z z'" "free_mset z' \<subseteq># free_mset z"
      using a(2) by (simp_all add: alloc_post_def allocated_def)
    with assms(1) show ?thesis by (rule phys_inv_take)
  qed (use a(2) assms(1) in \<open>simp add: alloc_post_def\<close>)
  then show ?thesis
    using a by (auto simp: alloc_post_def allocated_def reset_refcount_def split: option.splits)
qed

theorem alloc_order_spec_witness:
  "phys_inv demo_zone \<and> 1 \<le> MAX_ORDER \<and> (\<exists>z' r. alloc_order demo_zone 1 = Some (z', r) \<and> phys_inv z' \<and>
    (case r of
       None \<Rightarrow> z' = demo_zone \<and> (\<forall>h. 1 \<le> h \<and> h \<le> MAX_ORDER \<longrightarrow> free_lists demo_zone ! h = [])
     | Some a \<Rightarrow> block_in demo_zone 1 a \<and> free_mset demo_zone = free_mset z' + block_mset 1 a
         \<and> ((1 :: nat) = 0 \<and> page_of a < REFCOUNT_MAX_PAGES \<longrightarrow> refcounts z' (page_of a) = 1)))"
  using alloc_order_spec [OF demo_inv, of 1] demo_inv by (simp add: MAX_ORDER_def)

text \<open>C7. \<^verbatim>\<open>alloc_pages\<close> of 1 to 1024 pages on a well-formed zone never aborts and keeps the zone
  well formed. The pages it returns were free and are free no longer; what else leaves the
  free lists, \<open>L\<close>, are only pages of the rounded-up block behind the request whose
  reference count was not 1 when the excess was given back. It fails only when no list of a
  sufficient order has a block.\<close>

theorem alloc_pages_spec:
  assumes "phys_inv z" "n \<noteq> 0" "unat n \<le> 1024"
  shows "\<exists>z' r. alloc_pages z n = Some (z', r) \<and> phys_inv z' \<and>
    (case r of
       None \<Rightarrow> z' = z \<and> (\<forall>h. pages_order n \<le> h \<and> h \<le> MAX_ORDER \<longrightarrow> free_lists z ! h = [])
     | Some a \<Rightarrow> block_in z (pages_order n) a \<and> unat n \<le> 2 ^ pages_order n
         \<and> (\<exists>L. free_mset z = free_mset z' + mset [page_of a ..< page_of a + unat n] + L
              \<and> L \<subseteq># mset [page_of a + unat n ..< page_of a + 2 ^ pages_order n]
              \<and> (\<forall>i\<in>#L. i < REFCOUNT_MAX_PAGES \<and> refcounts z i \<noteq> 1)))"
proof -
  have ok: "blocks_ok z" "\<forall>p\<in>#free_mset z. \<not> is_reserved_page z (of_nat p)"
    using assms(1) by (simp_all add: phys_inv_def)
  obtain z' r where a: "alloc_pages z n = Some (z', r)" "pages_post z n z' r"
    using alloc_pages_correct [OF ok assms(2,3)] by blast
  have "phys_inv z'"
  proof (cases r)
    case (Some b)
    then obtain L where "pages_allocated z n z' b L" using a(2) by (auto simp: pages_post_def)
    then have "phys_step z z'" "free_mset z' \<subseteq># free_mset z"
      by (simp_all add: pages_allocated_def)
    with assms(1) show ?thesis by (rule phys_inv_take)
  qed (use a(2) assms(1) in \<open>simp add: pages_post_def\<close>)
  then show ?thesis
    using a pages_order_bounds(2) [OF assms(2,3)]
    by (auto simp: pages_post_def pages_allocated_def last_ref_def not_le simp del: mset_upt split: option.splits)
qed

theorem alloc_pages_spec_witness:
  "phys_inv demo_zone \<and> (3 :: u64) \<noteq> 0 \<and> unat (3 :: u64) \<le> 1024 \<and>
   (\<exists>z' r. alloc_pages demo_zone 3 = Some (z', r) \<and> phys_inv z' \<and>
    (case r of
       None \<Rightarrow> z' = demo_zone \<and> (\<forall>h. pages_order 3 \<le> h \<and> h \<le> MAX_ORDER \<longrightarrow> free_lists demo_zone ! h = [])
     | Some a \<Rightarrow> block_in demo_zone (pages_order 3) a \<and> unat (3 :: u64) \<le> 2 ^ pages_order 3
         \<and> (\<exists>L. free_mset demo_zone = free_mset z' + mset [page_of a ..< page_of a + unat (3 :: u64)] + L
              \<and> L \<subseteq># mset [page_of a + unat (3 :: u64) ..< page_of a + 2 ^ pages_order 3]
              \<and> (\<forall>i\<in>#L. i < REFCOUNT_MAX_PAGES \<and> refcounts demo_zone i \<noteq> 1))))"
  using alloc_pages_spec [OF demo_inv, of 3] demo_inv by simp

section \<open>Freeing\<close>

text \<open>C3. \<^verbatim>\<open>free_order\<close> of a block of the zone whose pages are neither free nor reserved never
  aborts, keeps the zone well formed and makes exactly the block's pages free; a single page
  whose reference count is not 1 stays in use and no list changes. A freed block is merged
  as far as possible: there is an order \<open>j\<close> such that from the order of the block up to \<open>j\<close>
  each buddy was free and leaves its list, one block of order \<open>j\<close> holding the freed pages is
  put at the head of its list, the buddy of that block is not free unless \<open>j\<close> is
  \<^verbatim>\<open>MAX_ORDER\<close>, and all other lists are unchanged.\<close>

theorem free_order_spec:
  assumes "phys_inv z" "k \<le> MAX_ORDER" "block_in z k a"
    and "\<forall>p\<in>#block_mset k a. p \<notin># free_mset z \<and> \<not> is_reserved_page z (of_nat p)"
  shows "\<exists>z'. free_order z a k = Some z' \<and> phys_inv z' \<and>
    free_mset z' = free_mset z + (if k = 0 \<and> \<not> last_ref z (page_of a) then {#} else block_mset k a) \<and>
    (if k = 0 \<and> \<not> last_ref z (page_of a) then free_lists z' = free_lists z else (\<exists>j. merged_at z k a z' j))"
proof -
  have ok: "blocks_ok z" using assms(1) by (simp add: phys_inv_def)
  have "page_of a \<in># block_mset k a" by simp
  then have res: "\<not> is_reserved_page z (of_nat (page_of a))" using assms(4) by blast
  from free_order_correct [OF ok assms(2,3) res] obtain z' where
    z': "free_order z a k = Some z'" "phys_step z z'"
      "free_mset z' = free_mset z + (if k = 0 \<and> \<not> last_ref z (page_of a) then {#} else block_mset k a)" by blast
  then have "free_mset z' \<subseteq># free_mset z + block_mset k a" by simp
  then have "phys_inv z'"
    using assms(1,4) z'(2) by (intro phys_inv_give [of z z' "block_mset k a"]) (auto simp: count_block_mset)
  then show ?thesis using z' free_order_lists [OF ok assms(2,3) res z'(1)] by blast
qed

text \<open>Two buddy pages, the lower one free and the upper one in use.\<close>

definition demo_half :: phys_state where
  "demo_half = \<lparr> zone_base = 0x100000, zone_top = 0x102000,
     free_lists = [[0x100000], [], [], [], [], [], [], [], [], [], []],
     zone_total_pages = 2, zone_free_pages = 1, refcounts = (\<lambda>_. 1),
     bootinfo_reserved_pn = 6, bootinfo_reserved_pages = 1,
     kernel_reserved_pn = USIZE_MAX, kernel_reserved_pages = 0, initialized = True \<rparr>"

lemma demo_half_facts: "phys_inv demo_half" "free_mset demo_half = {#256#}"
    "block_in demo_half 0 0x101000" "\<not> is_reserved_page demo_half 257"
    "last_ref demo_half (page_of 0x101000)" "buddy_of 0 0x101000 \<in> set (free_lists demo_half ! 0)"
proof -
  have fm: "free_mset demo_half = mset [256]"
    by (simp add: free_mset_def lists_mset_def lessThan_nat_numeral lessThan_Suc demo_half_def
        block_mset_def page_of_def upt_rec del: mset_upt)
  have "blocks_ok demo_half"
    by (simp add: blocks_ok_def all_less_upt upt_rec block_in_def demo_half_def)
  moreover have "counted demo_half"
    unfolding counted_def fm by (simp add: demo_half_def)
  moreover have res: "\<not> is_reserved_page demo_half 256" "\<not> is_reserved_page demo_half 257"
    by (simp_all add: is_reserved_page_def in_reserved_def demo_half_def USIZE_MAX_def
        BOOTINFO_HANDOFF_PAGE_def PAGE_SIZE_def)
  ultimately show "phys_inv demo_half" by (simp add: phys_inv_def fm)
  show "free_mset demo_half = {#256#}" "\<not> is_reserved_page demo_half 257" using fm res by simp_all
  show "block_in demo_half 0 0x101000" "last_ref demo_half (page_of 0x101000)"
      "buddy_of 0 0x101000 \<in> set (free_lists demo_half ! 0)"
    by (simp_all add: block_in_def last_ref_def buddy_of_def demo_half_def)
qed

theorem free_order_spec_witness:
  "phys_inv demo_half \<and> block_in demo_half 0 0x101000 \<and> buddy_of 0 0x101000 \<in> set (free_lists demo_half ! 0) \<and>
   (\<exists>z'. free_order demo_half 0x101000 0 = Some z' \<and> phys_inv z' \<and>
    free_mset z' = free_mset demo_half + block_mset 0 0x101000 \<and> (\<exists>j. merged_at demo_half 0 0x101000 z' j))"
proof -
  have "\<forall>p\<in>#block_mset 0 0x101000. p \<notin># free_mset demo_half \<and> \<not> is_reserved_page demo_half (of_nat p)"
    unfolding demo_half_facts(2) using demo_half_facts(4) by (simp add: block_mset_def page_of_def upt_rec del: mset_upt)
  from free_order_spec [OF demo_half_facts(1) _ demo_half_facts(3) this]
  show ?thesis using demo_half_facts by simp
qed

text \<open>The demonstration zone after the block of four pages at 1 MB was allocated.\<close>

definition demo_used :: phys_state where
  "demo_used = demo_zone\<lparr> free_lists := [[0x107000, 0x106000], [0x104000], []] @ replicate 8 [],
     zone_free_pages := 4 \<rparr>"

lemma demo_used_alloc: "alloc_order demo_zone 2 = Some (demo_used, Some 0x100000)"
  by (simp add: alloc_order_def MAX_ORDER_def pop_block_def reset_refcount_def demo_used_def demo_zone_def Let_def)

lemma demo_used_facts: "phys_inv demo_used" "block_in demo_used 2 0x100000"
    "free_mset demo_used = mset [260..<264]" "p \<in> {256..<264} \<Longrightarrow> \<not> is_reserved_page demo_used (of_nat p)"
proof -
  have st: "allocated demo_zone 2 demo_used 0x100000"
    using alloc_order_correct [of demo_zone 2] demo_inv demo_used_alloc
    by (auto simp: phys_inv_def alloc_post_def MAX_ORDER_def)
  then have step: "phys_step demo_zone demo_used" "free_mset demo_used \<subseteq># free_mset demo_zone"
    by (simp_all add: allocated_def)
  show "phys_inv demo_used" using demo_inv step by (rule phys_inv_take)
  show "block_in demo_used 2 0x100000"
    using st block_in_cfg [OF phys_stepD(2) [OF step(1)]] by (simp add: allocated_def)
  have "mset [256..<264] = free_mset demo_used + mset [256..<260]"
    using st unfolding allocated_def demo_free by (simp add: block_mset_def page_of_def del: mset_upt)
  then show "free_mset demo_used = mset [260..<264]"
    using upt_mset_split [of 256 260 264] by (simp del: mset_upt)
  show "\<not> is_reserved_page demo_used (of_nat p)" if "p \<in> {256..<264}"
    using that demo_inv unfolding is_reserved_cfg [OF phys_stepD(2) [OF step(1)]] phys_inv_def demo_free
      set_mset_mset set_upt by blast
qed

text \<open>C36. \<^verbatim>\<open>free_order\<close> rejects what is not a block of the zone: an order above the maximum, an
  address that is not page aligned, a reserved page, or an address below or beyond the zone
  leaves the whole allocator state unchanged. The one exception is exact: an aligned address
  at or above the zone's base that is not reserved, with a valid order, whose block would
  end at or above 2^64, makes the bound test itself overflow and abort.\<close>

theorem free_order_rejects:
  assumes "MAX_ORDER < k \<or> \<not> 4096 dvd unat a \<or> is_reserved_page z (of_nat (page_of a))
      \<or> a < zone_base z \<or> unat (zone_top z) < unat a + 4096 * 2 ^ k"
  shows "free_order z a k =
    (if k \<le> MAX_ORDER \<and> 4096 dvd unat a \<and> \<not> is_reserved_page z (of_nat (page_of a))
        \<and> zone_base z \<le> a \<and> 2 ^ 64 \<le> unat a + 4096 * 2 ^ k
     then None else Some z)"
proof (cases "MAX_ORDER < k")
  case False
  then have bs: "unat (block_size k) = 4096 * 2 ^ k" by (simp add: unat_block_size)
  then have add: "checked_add a (block_size k) = (if unat a + 4096 * 2 ^ k < 2 ^ 64 then Some (a + block_size k) else None)"
    by (simp add: checked_add_def)
  have "unat (a + block_size k) = unat a + 4096 * 2 ^ k" if "unat a + 4096 * 2 ^ k < 2 ^ 64"
    using that bs by (simp add: unat_add_noof)
  then show ?thesis
    using assms False add by (auto simp: free_order_def mod_page_zero div_page_of_nat word_less_nat_alt word_le_nat_alt not_le)
qed (simp add: free_order_def)

theorem free_order_rejects_witness:
  "is_reserved_page demo_zone (of_nat (page_of 0x5000)) \<and> free_order demo_zone 0x5000 0 = Some demo_zone
   \<and> unat (zone_top demo_zone) < unat (0x200000 :: u64) + 4096 * 2 ^ 1
   \<and> free_order demo_zone 0x200000 1 = Some demo_zone"
proof -
  have "is_reserved_page demo_zone (of_nat (page_of 0x5000))"
    by (simp add: is_reserved_page_def page_of_def BOOTINFO_HANDOFF_PAGE_def PAGE_SIZE_def)
  then show ?thesis
    using free_order_rejects [of 0 "0x5000" demo_zone] free_order_rejects [of 1 "0x200000" demo_zone]
    by (simp add: demo_zone_def)
qed

text \<open>C8. \<^verbatim>\<open>free_pages\<close> of a page range of the zone whose pages are neither free nor reserved
  never aborts and keeps the zone well formed; every page of the range becomes free except
  those, \<open>L\<close>, whose reference count was not 1.\<close>

theorem free_pages_spec:
  assumes "phys_inv z" "page_range_in z a (unat n)"
    and "\<forall>p. page_of a \<le> p \<and> p < page_of a + unat n \<longrightarrow> p \<notin># free_mset z"
  shows "\<exists>z' L. free_pages z a n = Some z' \<and> phys_inv z'
    \<and> free_mset z' + L = free_mset z + mset [page_of a ..< page_of a + unat n]
    \<and> (\<forall>i\<in>#L. i < REFCOUNT_MAX_PAGES \<and> refcounts z i \<noteq> 1)"
proof -
  have ok: "blocks_ok z" using assms(1) by (simp add: phys_inv_def)
  let ?M = "mset [page_of a ..< page_of a + unat n]"
  obtain z' L where z': "free_pages z a n = Some z'"
      "range_freed z z' (page_of a) (page_of a + unat n) L"
    using free_pages_correct [OF ok assms(2)] by blast
  then have eq: "free_mset z' + L = free_mset z + ?M" and step: "phys_step z z'"
      and L: "\<forall>i\<in>#L. \<not> last_ref z i"
    by (simp_all add: range_freed_def)
  have "free_mset z' \<subseteq># free_mset z + ?M" by (metis eq mset_subset_eq_add_left)
  moreover have "\<forall>p. count ?M p \<le> 1" by (rule distinct_count_le) simp
  moreover have "set_mset ?M \<inter> set_mset (free_mset z) = {}" using assms(3) by auto
  moreover have "\<forall>p\<in>#?M. \<not> is_reserved_page z (of_nat p)" using assms(2) by (simp add: page_range_in_def)
  ultimately have "phys_inv z'" by (rule phys_inv_give [OF assms(1) step])
  then show ?thesis using z'(1) eq L by (auto simp: last_ref_def not_le)
qed

theorem free_pages_spec_witness:
  "phys_inv demo_used \<and> page_range_in demo_used 0x100000 (unat (3 :: u64)) \<and>
   (\<exists>z' L. free_pages demo_used 0x100000 3 = Some z' \<and> phys_inv z'
    \<and> free_mset z' + L = free_mset demo_used + mset [page_of 0x100000 ..< page_of 0x100000 + unat (3 :: u64)]
    \<and> (\<forall>i\<in>#L. i < REFCOUNT_MAX_PAGES \<and> refcounts demo_used i \<noteq> 1))"
proof -
  have range: "page_range_in demo_used 0x100000 (unat (3 :: u64))"
    using demo_used_facts(2,4) by (simp add: page_range_in_def block_in_def word_le_nat_alt page_of_def)
  moreover have "\<forall>p. page_of 0x100000 \<le> p \<and> p < page_of 0x100000 + unat (3 :: u64) \<longrightarrow> p \<notin># free_mset demo_used"
    unfolding demo_used_facts(3) by (auto simp: page_of_def)
  ultimately show ?thesis using free_pages_spec [OF demo_used_facts(1) range] demo_used_facts(1) by blast
qed

text \<open>C34. A page just allocated can be given back: \<^verbatim>\<open>free_page\<close> after a successful
  \<^verbatim>\<open>alloc_page\<close> never aborts and restores the set of free pages and the free-page counter,
  whatever the page's reference count was before the allocation.\<close>

theorem alloc_free_page_roundtrip:
  assumes "phys_inv z" "alloc_page z = Some (z1, Some a)"
  shows "\<exists>z2. free_page z1 a = Some z2 \<and> phys_inv z2 \<and> free_mset z2 = free_mset z
    \<and> free_pages_count z2 = free_pages_count z"
proof -
  have ok: "blocks_ok z" using assms(1) by (simp add: phys_inv_def)
  have al: "allocated z 0 z1 a"
    using alloc_order_correct [OF ok, of 0] assms(2) by (auto simp: alloc_page_def alloc_post_def)
  then have step: "phys_step z z1" and fm: "free_mset z = free_mset z1 + block_mset 0 a"
    and blk: "block_in z1 0 a" and last: "last_ref z1 (page_of a)"
    using block_in_cfg [OF phys_stepD(2)]
    by (auto simp: allocated_def last_ref_def reset_refcount_def Let_def)
  have "page_of a \<in># free_mset z" by (simp add: fm)
  then have res: "\<not> is_reserved_page z1 (of_nat (page_of a))"
    using assms(1) is_reserved_cfg [OF phys_stepD(2) [OF step]] by (simp add: phys_inv_def)
  from free_order_correct [OF phys_stepD(1) [OF step] _ blk this] last obtain z2 where
    z2: "free_order z1 a 0 = Some z2" "phys_step z1 z2" "free_mset z2 = free_mset z1 + block_mset 0 a" by auto
  have "phys_step z z2" using step z2(2) by (rule phys_step_trans)
  then have "phys_inv z2" by (rule phys_inv_take [OF assms(1)]) (simp add: z2(3) fm)
  moreover have "free_mset z2 = free_mset z" using z2(3) fm by simp
  ultimately show ?thesis
    using z2(1) assms(1) by (auto simp: free_page_def free_pages_count_def phys_inv_def counted_def)
qed

lemma demo_alloc_page: "\<exists>z1. alloc_page demo_zone = Some (z1, Some 0x107000)"
  by (simp add: alloc_page_def alloc_order_def pop_block_def demo_zone_def MAX_ORDER_def)

theorem alloc_free_page_roundtrip_witness:
  "phys_inv demo_zone \<and> (\<exists>z1 z2. alloc_page demo_zone = Some (z1, Some 0x107000)
    \<and> free_page z1 0x107000 = Some z2 \<and> phys_inv z2 \<and> free_mset z2 = free_mset demo_zone
    \<and> free_pages_count z2 = free_pages_count demo_zone)"
  using alloc_free_page_roundtrip [OF demo_inv] demo_alloc_page demo_inv by blast

section \<open>Reserving and booting\<close>

text \<open>C15. \<^verbatim>\<open>reserve_range\<close> on a well-formed zone aborts exactly when the page count is 2^52 or
  more, so that the byte length overflows. Otherwise it keeps the zone well formed and takes
  exactly the pages that overlap the byte range from the free lists, also when the end of
  the range saturates: every other free page stays free, although the blocks that straddle
  the range are taken apart.\<close>

theorem reserve_range_spec:
  assumes "phys_inv z"
  shows "if 2 ^ 52 \<le> unat n then reserve_range z start n = None
    else (\<exists>z'. reserve_range z start n = Some z' \<and> phys_inv z'
      \<and> free_mset z' = filter_mset
        (\<lambda>p. \<not> (4096 * p < unat start + 4096 * unat n \<and> unat start < 4096 * p + 4096)) (free_mset z))"
proof (cases "2 ^ 52 \<le> unat n")
  case False
  then have n: "unat n < 2 ^ 52" by simp
  from assms have "blocks_ok z" "\<forall>p. count (free_mset z) p \<le> 1" by (simp_all add: phys_inv_def)
  from reserve_range_correct [OF this n] obtain z' where
    z': "reserve_range z start n = Some z'" "phys_step z z'" "free_mset z' = filter_mset
        (\<lambda>p. \<not> (4096 * p < unat start + 4096 * unat n \<and> unat start < 4096 * p + 4096)) (free_mset z)" by blast
  have "phys_inv z'" by (rule phys_inv_take [OF assms z'(2)]) (simp add: z'(3))
  then show ?thesis using z' n by auto
qed (simp add: reserve_range_abort)

theorem reserve_range_spec_witness:
  "phys_inv demo_zone \<and> (\<exists>z'. reserve_range demo_zone 0x101000 2 = Some z' \<and> phys_inv z'
    \<and> free_mset z' = filter_mset (\<lambda>p. \<not> (4096 * p < unat (0x101000 :: u64) + 4096 * unat (2 :: u64)
          \<and> unat (0x101000 :: u64) < 4096 * p + 4096)) (free_mset demo_zone))"
  using reserve_range_spec [OF demo_inv, of 2 "0x101000"] demo_inv by simp

text \<open>C14. \<^verbatim>\<open>init_from_regions\<close> on a memory map whose regions share no page never aborts and
  builds a well-formed zone: the free pages are exactly the whole pages of the regions that
  are neither reserved (page 0, the handoff page, the BootInfo pages, the kernel image) nor
  in an excluded range, and \<^verbatim>\<open>total_pages\<close> is their number.\<close>

theorem init_from_regions_spec:
  assumes "\<not> initialized z"
    and "unat boot_info_phys + 4096 * unat bi_pages < 2 ^ 64"
    and "distinct (concat (map region_pages regions))"
  shows "\<exists>z'. init_from_regions z bi_pages regions boot_info_phys kernel_start kernel_size ex = Some z'
    \<and> phys_inv z' \<and> initialized z' \<and> total_pages z' = of_nat (size (free_mset z'))
    \<and> free_mset z' = mset (filter (usable z' ex) (concat (map region_pages regions)))"
  using init_from_regions_correct [OF assms, of kernel_start kernel_size ex]
  by (auto simp: phys_inv_def counted_def total_pages_def)

theorem init_from_regions_spec_witness:
  "\<not> initialized phys_boot \<and> distinct (concat (map region_pages demo_regions)) \<and>
   (\<exists>z'. init_from_regions phys_boot 1 demo_regions 0x6000 0x103000 0x1800 [] = Some z'
    \<and> phys_inv z' \<and> initialized z' \<and> total_pages z' = of_nat (size (free_mset z'))
    \<and> free_mset z' = mset (filter (usable z' []) (concat (map region_pages demo_regions))))"
proof -
  have "\<not> initialized phys_boot" by (simp add: phys_boot_def)
  moreover have "distinct (concat (map region_pages demo_regions))"
    by (simp add: demo_regions_def region_pages_def)
  ultimately show ?thesis
    using init_from_regions_spec [of phys_boot "0x6000" 1 demo_regions "0x103000" "0x1800" "[]"] by simp
qed

section \<open>Stale reference counts\<close>

lemma chunk_order_two:
  assumes "unat e = unat a + 4096 * n" "n \<le> 2" "unat a + 4096 * n < 2 ^ 64"
  shows "chunk_order a e = 0"
proof -
  have "unat (e - a) = 4096 * n" using assms(1) by (simp add: unat_sub word_le_nat_alt)
  then have "unat ((e - a) div PAGE_SIZE) = unat (of_nat n :: u64)"
    using assms(2) by (simp add: page_of_def unat64_of_nat)
  then have "(e - a) div PAGE_SIZE = of_nat n" by (rule unsigned_word_eqI)
  moreover have "n = 0 \<or> n = 1 \<or> n = 2" using assms(2) by auto
  ultimately show ?thesis by (auto simp: chunk_order_def Let_def)
qed

lemma chunk_loop_shared:
  assumes "page_range_in z a n" "0 < n" "n \<le> 2" "unat e = unat a + 4096 * n" "\<not> last_ref z (page_of a)"
  shows "\<exists>b. unat b = unat a + 4096 \<and> page_of b = page_of a + 1
    \<and> page_range_in (z\<lparr> refcounts := drop_ref z (page_of a) \<rparr>) b (n - 1)
    \<and> chunk_loop z a e = chunk_loop (z\<lparr> refcounts := drop_ref z (page_of a) \<rparr>) b e"
proof -
  let ?z = "z\<lparr> refcounts := drop_ref z (page_of a) \<rparr>"
  have rng: "4096 dvd unat a" "zone_base z \<le> a" "unat a + 4096 * n \<le> unat (zone_top z)"
      "\<not> is_reserved_page z (of_nat (page_of a))"
    using assms(1,2) by (simp_all add: page_range_in_def)
  have k: "chunk_order a e = 0"
    using assms(3,4) rng(3) unat64_bound [of "zone_top z"] by (intro chunk_order_two) auto
  have "unat a + 4096 * 2 ^ 0 \<le> unat (zone_top z)" using rng(3) assms(2) by simp
  with checked_add_block [of 0 a "zone_top z"] obtain b where
    b: "checked_add a (block_size 0) = Some b" "unat b = unat a + 4096 * 1" by (auto simp: MAX_ORDER_def)
  have "free_order z a 0 = Some ?z"
    using rng b assms(2,5)
    by (auto simp: free_order_def mod_page_zero div_page_of_nat unref_page_eq [unfolded div_page_of_nat] word_less_nat_alt
        word_le_nat_alt)
  moreover have "a < e" using assms(2,4) by (simp add: word_less_nat_alt)
  ultimately have "chunk_loop z a e = chunk_loop ?z b e"
    using k b(1) by (subst chunk_loop.simps) simp
  moreover have "page_range_in ?z b (n - 1)"
    using assms(1,2) b(2) page_of_add [OF b(2)]
    by (auto simp: page_range_in_def word_le_nat_alt is_reserved_page_def algebra_simps)
  ultimately show ?thesis using b(2) page_of_add [OF b(2)] by auto
qed

text \<open>Freed pages keep reference count 0, and allocations of more than one page do not
  reset it. Two pages that \<^verbatim>\<open>alloc_pages\<close> hands out with such stale counts are lost:
  \<^verbatim>\<open>free_pages\<close> gives none of them back to the free lists, and their counts wrap to the
  maximum.\<close>

theorem free_pages_stale_leak:
  assumes "phys_inv z" "alloc_pages z 2 = Some (z1, Some a)" "page_of a + 1 < REFCOUNT_MAX_PAGES"
    and "refcounts z (page_of a) = 0" "refcounts z (page_of a + 1) = 0"
  shows "\<exists>z2. free_pages z1 a 2 = Some z2 \<and> free_lists z2 = free_lists z1
    \<and> free_pages_count z2 = free_pages_count z1
    \<and> refcounts z2 (page_of a) = - 1 \<and> refcounts z2 (page_of a + 1) = - 1"
proof -
  have inv: "blocks_ok z" "\<forall>p\<in>#free_mset z. \<not> is_reserved_page z (of_nat p)"
    using assms(1) by (simp_all add: phys_inv_def)
  have o1: "pages_order 2 = 1"
    by (simp add: pages_order_def MAX_ORDER_def word_le_nat_alt)
  have al: "allocated z 1 z1 a"
  proof -
    obtain z' r where "alloc_order z 1 = Some (z', r)" "alloc_post z 1 {1..MAX_ORDER} z' r"
      using alloc_order_correct [OF inv(1), of 1] by (auto simp: MAX_ORDER_def)
    then show ?thesis
      using o1 assms(2) by (cases r) (auto simp: alloc_pages_def alloc_post_def MAX_ORDER_def pages_order_def)
  qed
  have step: "phys_step z z1" and fm: "free_mset z = free_mset z1 + block_mset 1 a"
    and blk: "block_in z 1 a" and rc: "refcounts z1 = refcounts z"
    using al by (auto simp: allocated_def reset_refcount_def Let_def)
  have rng: "page_range_in z1 a 2"
    using inv(2) fm blk block_in_page [OF blk] is_reserved_cfg [OF phys_stepD(2) [OF step]] phys_stepD(2) [OF step]
    by (auto simp: page_range_in_def block_in_def word_le_nat_alt phys_cfg_def)
  obtain m e where e: "checked_mul 2 PAGE_SIZE = Some m" "checked_add a m = Some e" "unat e = unat a + 4096 * 2"
    using checked_page_range [of a 2 "zone_top z1"] rng by (auto simp: page_range_in_def)
  have nl: "\<not> last_ref z1 (page_of a)" using assms(3,4) rc by (simp add: last_ref_def)
  let ?z = "z1\<lparr> refcounts := drop_ref z1 (page_of a) \<rparr>"
  obtain b where b: "unat b = unat a + 4096" "page_of b = page_of a + 1" "page_range_in ?z b 1"
      "chunk_loop z1 a e = chunk_loop ?z b e"
    using chunk_loop_shared [OF rng _ _ e(3) nl] by auto
  have "\<not> last_ref ?z (page_of b)"
    using assms(3,5) rc b(2) by (simp add: last_ref_def drop_ref_other)
  then obtain c where c: "unat c = unat b + 4096"
      "chunk_loop ?z b e = chunk_loop (?z\<lparr> refcounts := drop_ref ?z (page_of b) \<rparr>) c e"
    using chunk_loop_shared [OF b(3), of e] b(1) e(3) by auto
  have "\<not> c < e" using c(1) b(1) e(3) by (simp add: word_less_nat_alt)
  then have "chunk_loop z1 a e = Some (?z\<lparr> refcounts := drop_ref ?z (page_of b) \<rparr>)"
    using b(4) c(2) by (subst (asm) (3) chunk_loop.simps) simp
  then have "free_pages z1 a 2 = Some (?z\<lparr> refcounts := drop_ref ?z (page_of b) \<rparr>)"
    using rng e by (simp add: free_pages_def free_pages_chunked_def page_range_in_def div_page_of_nat)
  then show ?thesis
    using assms(3-5) rc b(2) by (simp add: free_pages_count_def drop_ref_def)
qed

text \<open>Two buddy pages in use, given back one by one: they merge into one block of two pages,
  both with count 0.\<close>

definition demo_pair :: phys_state where
  "demo_pair = \<lparr> zone_base = 0x100000, zone_top = 0x102000,
     free_lists = [[], [], [], [], [], [], [], [], [], [], []],
     zone_total_pages = 2, zone_free_pages = 0, refcounts = (\<lambda>_. 1),
     bootinfo_reserved_pn = 6, bootinfo_reserved_pages = 1,
     kernel_reserved_pn = USIZE_MAX, kernel_reserved_pages = 0, initialized = True \<rparr>"

definition demo_merged :: phys_state where
  "demo_merged = demo_pair\<lparr> free_lists := [[], [0x100000], [], [], [], [], [], [], [], [], []], zone_free_pages := 2,
     refcounts := ((\<lambda>_. 1)(256 := 0))(257 := 0) \<rparr>"

lemma demo_merged_reached:
  "do { z \<leftarrow> free_page demo_pair 0x100000; free_page z 0x101000 } = Some demo_merged"
  by (simp add: free_page_def free_order_def demo_pair_def demo_merged_def PAGE_SIZE_def MAX_ORDER_def
      is_reserved_page_def in_reserved_def USIZE_MAX_def BOOTINFO_HANDOFF_PAGE_def checked_add_def
      block_size_def unref_page_def Let_def REFCOUNT_MAX_PAGES_def coalesce.simps remove_block_def add_block_def)

lemma demo_merged_inv: "phys_inv demo_merged"
proof -
  have fm: "free_mset demo_merged = mset [256, 257]"
    by (simp add: free_mset_def lists_mset_def lessThan_nat_numeral lessThan_Suc demo_merged_def
        block_mset_def page_of_def upt_rec del: mset_upt)
  have "blocks_ok demo_merged"
    by (simp add: blocks_ok_def all_less_upt upt_rec block_in_def demo_merged_def demo_pair_def)
  moreover have "counted demo_merged"
    unfolding counted_def fm by (simp add: demo_merged_def)
  moreover have "\<forall>p. count (free_mset demo_merged) p \<le> 1"
    unfolding fm by (rule distinct_count_le) simp
  moreover have "\<not> is_reserved_page demo_merged 256" "\<not> is_reserved_page demo_merged 257"
    by (simp_all add: is_reserved_page_def in_reserved_def demo_merged_def demo_pair_def USIZE_MAX_def
        BOOTINFO_HANDOFF_PAGE_def PAGE_SIZE_def)
  ultimately show ?thesis by (simp add: phys_inv_def fm)
qed

lemma demo_merged_alloc: "\<exists>z1. alloc_pages demo_merged 2 = Some (z1, Some 0x100000)"
  by (simp add: alloc_pages_def alloc_order_def pop_block_def demo_merged_def MAX_ORDER_def
      word_le_nat_alt word_less_nat_alt)

theorem free_pages_stale_leak_witness:
  "do { z \<leftarrow> free_page demo_pair 0x100000; free_page z 0x101000 } = Some demo_merged
   \<and> (\<exists>z1 z2. alloc_pages demo_merged 2 = Some (z1, Some 0x100000)
    \<and> free_pages z1 0x100000 2 = Some z2 \<and> free_lists z2 = free_lists z1
    \<and> free_pages_count z2 = free_pages_count z1
    \<and> refcounts z2 (page_of 0x100000) = - 1 \<and> refcounts z2 (page_of 0x100000 + 1) = - 1)"
proof -
  obtain z1 where z1: "alloc_pages demo_merged 2 = Some (z1, Some 0x100000)"
    using demo_merged_alloc by blast
  have "page_of 0x100000 + 1 < REFCOUNT_MAX_PAGES" "refcounts demo_merged (page_of 0x100000) = 0"
    "refcounts demo_merged (page_of 0x100000 + 1) = 0"
    by (simp_all add: page_of_def REFCOUNT_MAX_PAGES_def demo_merged_def)
  from free_pages_stale_leak [OF demo_merged_inv z1 this] show ?thesis
    using z1 demo_merged_reached by blast
qed

end
