(* ===== verification/Free_List.thy ===== *)
theory Free_List
  imports Phys
begin

text \<open>
  The intrusive free lists of \<^verbatim>\<open>kernel/src/mm/phys.rs\<close> at pointer level. A free block stores
  the address of the next block and its order in its own first words; the zone keeps eleven
  list heads, 0 being the null pointer. The list walks follow pointers and would not return
  on a cyclic chain, so they are partial functions; on well-formed chains they return, and
  the pointer operations implement the list operations of \<^verbatim>\<open>Phys\<close>.
\<close>

section \<open>Pointer operations\<close>

record free_block =
  fb_next :: u64
  fb_order :: nat

record ptr_zone =
  heads :: "u64 list"
  fl_heap :: "u64 \<Rightarrow> free_block"
  ptr_free_pages :: u64

definition set_next :: "ptr_zone \<Rightarrow> u64 \<Rightarrow> u64 \<Rightarrow> ptr_zone" where
  "set_next pz p q = pz\<lparr> fl_heap := (fl_heap pz)(p := (fl_heap pz p)\<lparr> fb_next := q \<rparr>) \<rparr>"

definition set_head :: "ptr_zone \<Rightarrow> nat \<Rightarrow> u64 \<Rightarrow> ptr_zone" where
  "set_head pz order p = pz\<lparr> heads := (heads pz)[order := p] \<rparr>"

definition ptr_add_block :: "ptr_zone \<Rightarrow> u64 \<Rightarrow> nat \<Rightarrow> ptr_zone" where
  "ptr_add_block pz phys order =
     (let pz = pz\<lparr> fl_heap := (fl_heap pz)(phys := \<lparr> fb_next = heads pz ! order, fb_order = order \<rparr>) \<rparr>;
          pz = set_head pz order phys
      in pz\<lparr> ptr_free_pages := ptr_free_pages pz + push_bit order 1 \<rparr>)"

definition ptr_pop_block :: "ptr_zone \<Rightarrow> nat \<Rightarrow> ptr_zone \<times> u64 option" where
  "ptr_pop_block pz order =
     (let head = heads pz ! order in
      if head = 0 then (pz, None)
      else
        let pz = set_head pz order (fb_next (fl_heap pz head));
            pz = set_next pz head 0
        in (pz\<lparr> ptr_free_pages := ptr_free_pages pz - push_bit order 1 \<rparr>, Some head))"

partial_function (option) remove_loop ::
    "ptr_zone \<Rightarrow> u64 \<Rightarrow> nat \<Rightarrow> u64 \<Rightarrow> u64 \<Rightarrow> (ptr_zone \<times> bool) option" where
  "remove_loop pz target order prev cur =
     (if cur = 0 then Some (pz, False)
      else if cur = target then
        (let nxt = fb_next (fl_heap pz cur);
             pz = (if prev = 0 then set_head pz order nxt else set_next pz prev nxt);
             pz = set_next pz cur 0
         in Some (pz\<lparr> ptr_free_pages := ptr_free_pages pz - push_bit order 1 \<rparr>, True))
      else remove_loop pz target order cur (fb_next (fl_heap pz cur)))"

definition ptr_remove_block :: "ptr_zone \<Rightarrow> u64 \<Rightarrow> nat \<Rightarrow> (ptr_zone \<times> bool) option" where
  "ptr_remove_block pz target order = remove_loop pz target order 0 (heads pz ! order)"

partial_function (option) count_loop :: "ptr_zone \<Rightarrow> u64 \<Rightarrow> nat \<Rightarrow> nat option" where
  "count_loop pz cur n =
     (if cur = 0 then Some n else count_loop pz (fb_next (fl_heap pz cur)) (n + 1))"

definition ptr_free_count :: "ptr_zone \<Rightarrow> nat \<Rightarrow> nat option" where
  "ptr_free_count pz order = count_loop pz (heads pz ! order) 0"

section \<open>Chains of blocks\<close>

fun chain :: "(u64 \<Rightarrow> free_block) \<Rightarrow> u64 \<Rightarrow> u64 list \<Rightarrow> u64 \<Rightarrow> bool" where
  "chain h p [] q \<longleftrightarrow> p = q"
| "chain h p (x # xs) q \<longleftrightarrow> p = x \<and> x \<noteq> 0 \<and> chain h (fb_next (h x)) xs q"

definition separate :: "u64 list list \<Rightarrow> bool" where
  "separate ls \<longleftrightarrow> (\<forall>k<11. distinct (ls ! k))
     \<and> (\<forall>j<11. \<forall>k<11. j \<noteq> k \<longrightarrow> set (ls ! j) \<inter> set (ls ! k) = {})"

definition ptr_lists :: "ptr_zone \<Rightarrow> u64 list list \<Rightarrow> bool" where
  "ptr_lists pz ls \<longleftrightarrow> length (heads pz) = 11 \<and> length ls = 11 \<and> separate ls
     \<and> (\<forall>k<11. chain (fl_heap pz) (heads pz ! k) (ls ! k) 0)"

definition unlisted :: "u64 list list \<Rightarrow> u64 \<Rightarrow> bool" where
  "unlisted ls a \<longleftrightarrow> (\<forall>k<11. a \<notin> set (ls ! k))"

lemma chain_append: "chain h p (xs @ ys) q \<longleftrightarrow> (\<exists>m. chain h p xs m \<and> chain h m ys q)"
  by (induction xs arbitrary: p) auto

lemma chain_nonzero: "chain h p xs q \<Longrightarrow> 0 \<notin> set xs"
  by (induction xs arbitrary: p) auto

lemma chain_null: "chain h 0 xs 0 \<longleftrightarrow> xs = []"
  by (cases xs) auto

lemma chain_start: "chain h p xs 0 \<Longrightarrow> p \<noteq> 0 \<Longrightarrow> \<exists>ys. xs = p # ys \<and> chain h (fb_next (h p)) ys 0"
  by (cases xs) auto

lemma chain_upd [simp]: "a \<notin> set xs \<Longrightarrow> chain (h(a := b)) p xs q = chain h p xs q"
  by (induction xs arbitrary: p) auto

lemma separate_update:
  assumes "separate ls" "length ls = 11" "k < 11" "distinct xs" "\<And>x. x \<in> set xs \<Longrightarrow> x \<in> set (ls ! k) \<or> unlisted ls x"
  shows "separate (ls[k := xs])"
proof -
  have apart: "x \<notin> set (ls ! j)" if "x \<in> set xs" "j < 11" "j \<noteq> k" for x j
    using assms(5) [OF that(1)] assms(1,3) that(2,3) unfolding separate_def unlisted_def
    by (metis disjoint_iff)
  then have "set (ls[k := xs] ! i) \<inter> set (ls[k := xs] ! j) = {}" if "i < 11" "j < 11" "i \<noteq> j" for i j
    using assms(1-3) that by (cases "i = k"; cases "j = k") (auto simp: separate_def)
  moreover have "distinct (ls[k := xs] ! j)" if "j < 11" for j
    using assms that by (cases "j = k") (auto simp: separate_def)
  ultimately show ?thesis by (simp add: separate_def)
qed

text \<open>A step that touches one list, its head and nodes outside every other list.\<close>

lemma ptr_lists_update:
  assumes pl: "ptr_lists pz ls" and k: "k < 11"
    and sep: "separate (ls[k := xs])"
    and hd: "heads pz' = (heads pz)[k := p]" and ch: "chain (fl_heap pz') p xs 0"
    and frame: "\<And>x. x \<notin> set (ls ! k) \<Longrightarrow> \<not> unlisted ls x \<Longrightarrow> fl_heap pz' x = fl_heap pz x"
  shows "ptr_lists pz' (ls[k := xs])"
proof -
  have "chain (fl_heap pz') (heads pz ! j) (ls ! j) 0" if j: "j < 11" "j \<noteq> k" for j
  proof -
    have same: "\<forall>x\<in>set (ls ! j). fl_heap pz' x = fl_heap pz x"
      using frame j k pl by (fastforce simp: ptr_lists_def separate_def unlisted_def)
    have "chain h p ys q \<Longrightarrow> \<forall>x\<in>set ys. h' x = h x \<Longrightarrow> chain h' p ys q" for h h' p ys q
      by (induction ys arbitrary: p) auto
    then show ?thesis using pl j same by (auto simp: ptr_lists_def)
  qed
  then show ?thesis using pl k sep hd ch by (auto simp: ptr_lists_def nth_list_update)
qed

section \<open>The operations on chains\<close>

lemma ptr_add_block_lists:
  assumes "ptr_lists pz ls" "k < 11" "a \<noteq> 0" "unlisted ls a"
  shows "ptr_lists (ptr_add_block pz a k) (ls[k := a # ls ! k])"
proof (rule ptr_lists_update [OF assms(1,2)])
  show "separate (ls[k := a # ls ! k])"
    using assms by (intro separate_update) (auto simp: ptr_lists_def separate_def unlisted_def)
  show "heads (ptr_add_block pz a k) = (heads pz)[k := a]"
    by (simp add: ptr_add_block_def set_head_def Let_def)
  show "chain (fl_heap (ptr_add_block pz a k)) a (a # ls ! k) 0"
    using assms by (simp add: ptr_add_block_def set_head_def Let_def ptr_lists_def unlisted_def)
  show "fl_heap (ptr_add_block pz a k) x = fl_heap pz x" if "\<not> unlisted ls x" for x
    using that assms(4) by (auto simp: ptr_add_block_def set_head_def Let_def)
qed

lemma ptr_pop_block_lists:
  assumes "ptr_lists pz ls" "k < 11"
  shows "ls ! k = [] \<Longrightarrow> ptr_pop_block pz k = (pz, None)"
    and "ls ! k = a # rest \<Longrightarrow> \<exists>pz'. ptr_pop_block pz k = (pz', Some a) \<and> ptr_lists pz' (ls[k := rest])
      \<and> ptr_free_pages pz' = ptr_free_pages pz - push_bit k 1"
proof -
  have ch: "chain (fl_heap pz) (heads pz ! k) (ls ! k) 0" using assms by (simp add: ptr_lists_def)
  then show "ls ! k = [] \<Longrightarrow> ptr_pop_block pz k = (pz, None)" by (simp add: ptr_pop_block_def)
  assume ls: "ls ! k = a # rest"
  have a: "heads pz ! k = a" "a \<noteq> 0" "chain (fl_heap pz) (fb_next (fl_heap pz a)) rest 0" using ch ls by auto
  have "distinct (ls ! k)" using assms by (simp add: ptr_lists_def separate_def)
  then have d: "a \<notin> set rest" "distinct rest" using ls by simp_all
  define pz' where "pz' = fst (ptr_pop_block pz k)"
  have pz': "ptr_pop_block pz k = (pz', Some a)" "heads pz' = (heads pz)[k := fb_next (fl_heap pz a)]"
    "fl_heap pz' = (fl_heap pz)(a := (fl_heap pz a)\<lparr> fb_next := 0 \<rparr>)"
    "ptr_free_pages pz' = ptr_free_pages pz - push_bit k 1"
    using a(1,2) by (simp_all add: pz'_def ptr_pop_block_def set_head_def set_next_def Let_def)
  have "ptr_lists pz' (ls[k := rest])"
  proof (rule ptr_lists_update [OF assms _ pz'(2)])
    show "separate (ls[k := rest])"
      using assms d(2) ls by (intro separate_update) (auto simp: ptr_lists_def)
    show "chain (fl_heap pz') (fb_next (fl_heap pz a)) rest 0" using a(3) d(1) by (simp add: pz'(3))
    show "fl_heap pz' x = fl_heap pz x" if "x \<notin> set (ls ! k)" for x
      using that ls by (simp add: pz'(3))
  qed
  then show "\<exists>pz'. ptr_pop_block pz k = (pz', Some a) \<and> ptr_lists pz' (ls[k := rest])
      \<and> ptr_free_pages pz' = ptr_free_pages pz - push_bit k 1" using pz' by blast
qed

definition unlink :: "ptr_zone \<Rightarrow> nat \<Rightarrow> u64 \<Rightarrow> u64 \<Rightarrow> ptr_zone" where
  "unlink pz k prev t =
     (let nxt = fb_next (fl_heap pz t);
          pz = (if prev = 0 then set_head pz k nxt else set_next pz prev nxt);
          pz = set_next pz t 0
      in pz\<lparr> ptr_free_pages := ptr_free_pages pz - push_bit k 1 \<rparr>)"

lemma remove_loop_absent:
  "chain (fl_heap pz) cur zs 0 \<Longrightarrow> t \<notin> set zs \<Longrightarrow> remove_loop pz t k prev cur = Some (pz, False)"
  by (induction zs arbitrary: cur prev) (subst remove_loop.simps; auto)+

lemma remove_loop_found:
  "chain (fl_heap pz) cur (mid @ t # post) 0 \<Longrightarrow> t \<notin> set mid \<Longrightarrow>
     remove_loop pz t k prev cur = Some (unlink pz k (if mid = [] then prev else last mid) t, True)"
  by (induction mid arbitrary: cur prev) (subst remove_loop.simps; auto simp: unlink_def Let_def)+

lemma chain_unlink:
  assumes "chain h p (mid @ q # t # post) 0" "distinct (mid @ q # t # post)"
  shows "chain (h(q := (h q)\<lparr> fb_next := fb_next (h t) \<rparr>)) p (mid @ q # post) 0"
  using assms by (auto simp: chain_append)

lemma ptr_remove_block_lists:
  assumes "ptr_lists pz ls" "k < 11"
  shows "t \<notin> set (ls ! k) \<Longrightarrow> ptr_remove_block pz t k = Some (pz, False)"
    and "t \<in> set (ls ! k) \<Longrightarrow> \<exists>pz'. ptr_remove_block pz t k = Some (pz', True)
      \<and> ptr_lists pz' (ls[k := remove1 t (ls ! k)])
      \<and> ptr_free_pages pz' = ptr_free_pages pz - push_bit k 1"
proof -
  have ch: "chain (fl_heap pz) (heads pz ! k) (ls ! k) 0" using assms by (simp add: ptr_lists_def)
  show "t \<notin> set (ls ! k) \<Longrightarrow> ptr_remove_block pz t k = Some (pz, False)"
    unfolding ptr_remove_block_def by (rule remove_loop_absent [OF ch])
  assume "t \<in> set (ls ! k)"
  then obtain mid post where ls: "ls ! k = mid @ t # post" "t \<notin> set mid" by (metis split_list_first)
  have d: "distinct (mid @ t # post)" using assms ls(1) by (simp add: ptr_lists_def separate_def flip: ls(1))
  let ?prev = "if mid = [] then 0 else last mid"
  define pz' where "pz' = unlink pz k ?prev t"
  have rm: "ptr_remove_block pz t k = Some (pz', True)"
    unfolding ptr_remove_block_def pz'_def using remove_loop_found [OF ch [unfolded ls(1)] ls(2)] .
  have rest: "remove1 t (ls ! k) = mid @ post" using ls by (simp add: remove1_append)
  have sep: "separate (ls[k := mid @ post])"
    using assms d ls(1) by (intro separate_update) (auto simp: ptr_lists_def)
  have "ptr_lists pz' (ls[k := mid @ post])"
  proof (cases mid rule: rev_cases)
    case Nil
    show ?thesis
    proof (rule ptr_lists_update [OF assms sep])
      show "heads pz' = (heads pz)[k := fb_next (fl_heap pz t)]"
        by (simp add: pz'_def unlink_def set_head_def set_next_def Let_def Nil)
      show "chain (fl_heap pz') (fb_next (fl_heap pz t)) (mid @ post) 0"
        using ch d ls(1) Nil by (simp add: pz'_def unlink_def set_head_def set_next_def Let_def)
      show "fl_heap pz' x = fl_heap pz x" if "x \<notin> set (ls ! k)" for x
        using that ls(1) Nil by (simp add: pz'_def unlink_def set_head_def set_next_def Let_def)
    qed
  next
    case (snoc mid' q)
    have q: "q \<noteq> 0" using chain_nonzero [OF ch] ls(1) snoc by auto
    have heap: "fl_heap pz' = ((fl_heap pz)(q := (fl_heap pz q)\<lparr> fb_next := fb_next (fl_heap pz t) \<rparr>))
        (t := (fl_heap pz t)\<lparr> fb_next := 0 \<rparr>)"
      using q d snoc by (auto simp: pz'_def unlink_def set_next_def Let_def fun_eq_iff)
    show ?thesis
    proof (rule ptr_lists_update [OF assms sep])
      show "heads pz' = (heads pz)[k := heads pz ! k]"
        using q snoc by (simp add: pz'_def unlink_def set_next_def Let_def)
      show "chain (fl_heap pz') (heads pz ! k) (mid @ post) 0"
        unfolding heap using chain_unlink [of "fl_heap pz" "heads pz ! k" mid' q t post] ch d ls(1) snoc
        by (subst chain_upd) auto
      show "fl_heap pz' x = fl_heap pz x" if "x \<notin> set (ls ! k)" for x
        using that ls(1) snoc by (auto simp: heap)
    qed
  qed
  moreover have "ptr_free_pages pz' = ptr_free_pages pz - push_bit k 1"
    by (simp add: pz'_def unlink_def set_head_def set_next_def Let_def)
  ultimately show "\<exists>pz'. ptr_remove_block pz t k = Some (pz', True)
      \<and> ptr_lists pz' (ls[k := remove1 t (ls ! k)])
      \<and> ptr_free_pages pz' = ptr_free_pages pz - push_bit k 1"
    using rm rest by auto
qed

lemma count_loop_length:
  "chain (fl_heap pz) cur zs 0 \<Longrightarrow> count_loop pz cur n = Some (n + length zs)"
  by (induction zs arbitrary: cur n) (subst count_loop.simps; simp)+

section \<open>The interface of a set of free lists\<close>

text \<open>What the buddy algorithm relies on: eleven stacks of block addresses with removal.
  The relation \<open>repr\<close> says that a state holds given lists.\<close>

locale free_list_ops =
  fixes repr :: "'z \<Rightarrow> u64 list list \<Rightarrow> bool"
    and add :: "'z \<Rightarrow> u64 \<Rightarrow> nat \<Rightarrow> 'z"
    and pop :: "'z \<Rightarrow> nat \<Rightarrow> 'z \<times> u64 option"
    and rem :: "'z \<Rightarrow> u64 \<Rightarrow> nat \<Rightarrow> ('z \<times> bool) option"
  assumes repr_length: "repr s ls \<Longrightarrow> length ls = 11"
    and add_repr: "repr s ls \<Longrightarrow> k < 11 \<Longrightarrow> a \<noteq> 0 \<Longrightarrow> unlisted ls a \<Longrightarrow> repr (add s a k) (ls[k := a # ls ! k])"
    and pop_empty: "repr s ls \<Longrightarrow> k < 11 \<Longrightarrow> ls ! k = [] \<Longrightarrow> pop s k = (s, None)"
    and pop_repr: "repr s ls \<Longrightarrow> k < 11 \<Longrightarrow> ls ! k = a # rest \<Longrightarrow>
      \<exists>s'. pop s k = (s', Some a) \<and> repr s' (ls[k := rest])"
    and rem_absent: "repr s ls \<Longrightarrow> k < 11 \<Longrightarrow> a \<notin> set (ls ! k) \<Longrightarrow> rem s a k = Some (s, False)"
    and rem_repr: "repr s ls \<Longrightarrow> k < 11 \<Longrightarrow> a \<in> set (ls ! k) \<Longrightarrow>
      \<exists>s'. rem s a k = Some (s', True) \<and> repr s' (ls[k := remove1 a (ls ! k)])"
begin

lemma add_pop:
  assumes "repr s ls" "k < 11" "a \<noteq> 0" "unlisted ls a"
  shows "\<exists>s'. pop (add s a k) k = (s', Some a) \<and> repr s' ls"
  using pop_repr [OF add_repr [OF assms] assms(2), of a "ls ! k"] repr_length [OF assms(1)] assms(2) by simp

lemma add_rem:
  assumes "repr s ls" "k < 11" "a \<noteq> 0" "unlisted ls a"
  shows "\<exists>s'. rem (add s a k) a k = Some (s', True) \<and> repr s' ls"
  using rem_repr [OF add_repr [OF assms] assms(2), of a] repr_length [OF assms(1)] assms(2) by simp

lemma rem_total:
  assumes "repr s ls" "k < 11"
  shows "\<exists>s' b. rem s a k = Some (s', b)"
  using rem_absent [OF assms] rem_repr [OF assms] by blast

end

definition list_repr :: "phys_state \<Rightarrow> u64 list list \<Rightarrow> bool" where
  "list_repr z ls \<longleftrightarrow> free_lists z = ls \<and> length ls = 11"

interpretation list_fl: free_list_ops list_repr add_block pop_block "\<lambda>z a k. Some (remove_block z a k)"
  by unfold_locales (auto simp: list_repr_def add_block_def pop_block_def remove_block_def)

lemma ptr_lists_length: "ptr_lists pz ls \<Longrightarrow> length ls = 11"
  by (simp add: ptr_lists_def)

interpretation ptr_fl: free_list_ops ptr_lists ptr_add_block ptr_pop_block ptr_remove_block
proof unfold_locales
  fix s :: ptr_zone and ls :: "u64 list list" and k :: nat and a :: u64 and rest :: "u64 list"
  assume r: "ptr_lists s ls"
  then show "length ls = 11" by (rule ptr_lists_length)
  assume k: "k < 11"
  show "a \<noteq> 0 \<Longrightarrow> unlisted ls a \<Longrightarrow> ptr_lists (ptr_add_block s a k) (ls[k := a # ls ! k])"
    by (rule ptr_add_block_lists [OF r k])
  show "ls ! k = [] \<Longrightarrow> ptr_pop_block s k = (s, None)" by (rule ptr_pop_block_lists(1) [OF r k])
  show "ls ! k = a # rest \<Longrightarrow> \<exists>s'. ptr_pop_block s k = (s', Some a) \<and> ptr_lists s' (ls[k := rest])"
    using ptr_pop_block_lists(2) [OF r k] by blast
  show "a \<notin> set (ls ! k) \<Longrightarrow> ptr_remove_block s a k = Some (s, False)"
    by (rule ptr_remove_block_lists(1) [OF r k])
  show "a \<in> set (ls ! k) \<Longrightarrow> \<exists>s'. ptr_remove_block s a k = Some (s', True)
      \<and> ptr_lists s' (ls[k := remove1 a (ls ! k)])"
    using ptr_remove_block_lists(2) [OF r k] by blast
qed

section \<open>Refinement\<close>

definition fl_refines :: "ptr_zone \<Rightarrow> phys_state \<Rightarrow> bool" where
  "fl_refines pz z \<longleftrightarrow> ptr_lists pz (free_lists z) \<and> ptr_free_pages pz = zone_free_pages z"

text \<open>C16. The pointer code implements the free lists: whenever the chains of the zone spell the
  lists of the model, \<^verbatim>\<open>add_block\<close> of an unlisted block, \<^verbatim>\<open>pop_block\<close> and \<^verbatim>\<open>remove_block\<close>
  return what the list operations return, the list walks of \<^verbatim>\<open>remove_block\<close> and
  \<^verbatim>\<open>free_counts_per_order\<close> end, and the chains and the free-page counter spell the result.\<close>

theorem free_list_refinement:
  assumes "fl_refines pz z" "k < 11"
  shows "(a \<noteq> 0 \<and> unlisted (free_lists z) a \<longrightarrow> fl_refines (ptr_add_block pz a k) (add_block z a k))
    \<and> (\<exists>pz'. ptr_pop_block pz k = (pz', snd (pop_block z k)) \<and> fl_refines pz' (fst (pop_block z k)))
    \<and> (\<exists>pz'. ptr_remove_block pz t k = Some (pz', snd (remove_block z t k))
         \<and> fl_refines pz' (fst (remove_block z t k)))
    \<and> ptr_free_count pz k = Some (free_counts_per_order z ! k)"
proof (intro conjI)
  have r: "ptr_lists pz (free_lists z)" and c: "ptr_free_pages pz = zone_free_pages z"
    using assms(1) by (simp_all add: fl_refines_def)
  show "a \<noteq> 0 \<and> unlisted (free_lists z) a \<longrightarrow> fl_refines (ptr_add_block pz a k) (add_block z a k)"
    using ptr_add_block_lists [OF r assms(2)] c
    by (auto simp: fl_refines_def add_block_def ptr_add_block_def set_head_def Let_def)
  show "\<exists>pz'. ptr_pop_block pz k = (pz', snd (pop_block z k)) \<and> fl_refines pz' (fst (pop_block z k))"
    using ptr_pop_block_lists [OF r assms(2)] c r
    by (cases "free_lists z ! k") (fastforce simp: fl_refines_def pop_block_def)+
  show "\<exists>pz'. ptr_remove_block pz t k = Some (pz', snd (remove_block z t k))
      \<and> fl_refines pz' (fst (remove_block z t k))"
    using ptr_remove_block_lists [OF r assms(2)] c r
    by (cases "t \<in> set (free_lists z ! k)") (fastforce simp: fl_refines_def remove_block_def)+
  have "chain (fl_heap pz) (heads pz ! k) (free_lists z ! k) 0" using r assms(2) by (simp add: ptr_lists_def)
  from count_loop_length [OF this, of 0] assms(2)
  show "ptr_free_count pz k = Some (free_counts_per_order z ! k)"
    by (simp add: ptr_free_count_def free_counts_per_order_def MAX_ORDER_def nth_append del: upt_Suc)
qed

text \<open>Two free pages, the second on top of the first.\<close>

definition demo_ptr :: ptr_zone where
  "demo_ptr = \<lparr> heads = [0x2000, 0, 0, 0, 0, 0, 0, 0, 0, 0, 0],
     fl_heap = (\<lambda>_. \<lparr> fb_next = 0, fb_order = 0 \<rparr>)(0x2000 := \<lparr> fb_next = 0x1000, fb_order = 0 \<rparr>),
     ptr_free_pages = 2 \<rparr>"

definition demo_lists :: phys_state where
  "demo_lists = phys_boot\<lparr> free_lists := [[0x2000, 0x1000], [], [], [], [], [], [], [], [], [], []],
     zone_free_pages := 2 \<rparr>"

lemma demo_ptr_refines: "fl_refines demo_ptr demo_lists"
  by (simp add: fl_refines_def ptr_lists_def separate_def all_less_upt upt_rec demo_ptr_def demo_lists_def)

theorem free_list_refinement_witness:
  "fl_refines demo_ptr demo_lists
   \<and> unlisted (free_lists demo_lists) 0x4000
   \<and> fl_refines (ptr_add_block demo_ptr 0x4000 0) (add_block demo_lists 0x4000 0)
   \<and> (\<exists>pz'. ptr_pop_block demo_ptr 0 = (pz', snd (pop_block demo_lists 0))
        \<and> fl_refines pz' (fst (pop_block demo_lists 0)))
   \<and> (\<exists>pz'. ptr_remove_block demo_ptr 0x1000 0 = Some (pz', snd (remove_block demo_lists 0x1000 0))
        \<and> fl_refines pz' (fst (remove_block demo_lists 0x1000 0)))
   \<and> ptr_free_count demo_ptr 0 = Some (free_counts_per_order demo_lists ! 0)"
proof -
  have "unlisted (free_lists demo_lists) 0x4000"
    by (simp add: unlisted_def all_less_upt upt_rec demo_lists_def)
  then show ?thesis
    using free_list_refinement [OF demo_ptr_refines, of 0 "0x4000" "0x1000"] demo_ptr_refines by simp
qed

end
