(* ===== verification/Percpu.thy ===== *)
theory Percpu
  imports Lodax_Prelude
begin

text \<open>
  Per-CPU state, \<^verbatim>\<open>kernel/src/percpu.rs\<close>: the ready queue of each CPU (a circular buffer
  with free-running 64-bit indices), the slots that map LAPIC ids to CPUs, and the
  scheduler's per-CPU counters. The ready queue is shown to be a bounded first-in
  first-out queue; the slot table to give every LAPIC id its own slot.
\<close>

section \<open>The ready queue\<close>

definition QUEUE_CAPACITY :: nat where "QUEUE_CAPACITY = 256"

record ready_queue =
  rq_buf :: "nat list"
  rq_head :: u64
  rq_tail :: u64
  rq_dropped :: u64

definition rq_empty :: ready_queue where
  "rq_empty = \<lparr> rq_buf = replicate QUEUE_CAPACITY 0, rq_head = 0, rq_tail = 0, rq_dropped = 0 \<rparr>"

definition rq_push :: "ready_queue \<Rightarrow> nat \<Rightarrow> (ready_queue \<times> bool) option" where
  "rq_push q v =
     (let next = rq_tail q - rq_head q in
      if QUEUE_CAPACITY \<le> unat next then do {
        d \<leftarrow> checked_add (rq_dropped q) 1;
        Some (q\<lparr> rq_dropped := d \<rparr>, False)
      } else
        let idx = unat (rq_tail q) mod QUEUE_CAPACITY
        in Some (q\<lparr> rq_buf := (rq_buf q)[idx := v], rq_tail := rq_tail q + 1 \<rparr>, True))"

definition rq_pop :: "ready_queue \<Rightarrow> ready_queue \<times> nat option" where
  "rq_pop q =
     (if rq_head q = rq_tail q then (q, None)
      else
        let idx = unat (rq_head q) mod QUEUE_CAPACITY;
            v = rq_buf q ! idx
        in (q\<lparr> rq_head := rq_head q + 1 \<rparr>, Some v))"

definition rq_peek :: "ready_queue \<Rightarrow> nat option" where
  "rq_peek q =
     (if rq_head q = rq_tail q then None
      else Some (rq_buf q ! (unat (rq_head q) mod QUEUE_CAPACITY)))"

definition rq_dropped_count :: "ready_queue \<Rightarrow> u64" where
  "rq_dropped_count q = rq_dropped q"

text \<open>The queue's contents, oldest first.\<close>

definition rq_len :: "ready_queue \<Rightarrow> nat" where
  "rq_len q = unat (rq_tail q - rq_head q)"

definition rq_list :: "ready_queue \<Rightarrow> nat list" where
  "rq_list q = map (\<lambda>i. rq_buf q ! ((unat (rq_head q) + i) mod QUEUE_CAPACITY)) [0..<rq_len q]"

definition rq_inv :: "ready_queue \<Rightarrow> bool" where
  "rq_inv q \<longleftrightarrow> length (rq_buf q) = QUEUE_CAPACITY \<and> rq_len q \<le> QUEUE_CAPACITY"

lemma rq_empty_inv: "rq_inv rq_empty" "rq_list rq_empty = []"
  by (simp_all add: rq_inv_def rq_list_def rq_len_def rq_empty_def)

lemma unat_wrap_mod: "(unat (a + b) mod 256 :: nat) = (unat (a :: u64) + unat b) mod 256"
proof -
  have "(256 :: nat) dvd 2 ^ 64" by simp
  then show ?thesis by (simp add: unat_word_ariths mod_mod_cancel)
qed

lemma rq_tail_index: "unat (rq_tail q) mod 256 = (unat (rq_head q) + rq_len q) mod 256"
  using unat_wrap_mod [of "rq_head q" "rq_tail q - rq_head q"] by (simp add: rq_len_def)

lemma rq_len_zero: "rq_len q = 0 \<longleftrightarrow> rq_head q = rq_tail q"
  by (auto simp: rq_len_def unat_eq_0)

lemma rq_index_neq:
  assumes "i < rq_len q" "rq_len q < QUEUE_CAPACITY"
  shows "(h + i) mod QUEUE_CAPACITY \<noteq> (h + rq_len q) mod QUEUE_CAPACITY"
proof
  assume "(h + i) mod QUEUE_CAPACITY = (h + rq_len q) mod QUEUE_CAPACITY"
  then have "QUEUE_CAPACITY dvd (h + rq_len q) - (h + i)"
    using assms(1) by (metis mod_eq_dvd_iff_nat add_le_cancel_left less_imp_le)
  then show False using assms by (auto dest!: dvd_imp_le)
qed

lemma rq_push_room:
  assumes "rq_inv q" "rq_len q < QUEUE_CAPACITY"
  shows "\<exists>q'. rq_push q x = Some (q', True) \<and> rq_inv q' \<and> rq_list q' = rq_list q @ [x]
    \<and> rq_dropped q' = rq_dropped q"
proof -
  let ?idx = "unat (rq_tail q) mod QUEUE_CAPACITY"
  define q' where "q' = q\<lparr> rq_buf := (rq_buf q)[?idx := x], rq_tail := rq_tail q + 1 \<rparr>"
  have len: "rq_len q' = rq_len q + 1"
  proof -
    have "unat ((rq_tail q - rq_head q) + 1) = rq_len q + 1"
      using assms(2) by (simp add: rq_len_def unat_word_ariths QUEUE_CAPACITY_def)
    then show ?thesis by (simp add: rq_len_def q'_def algebra_simps)
  qed
  have idx: "?idx = (unat (rq_head q) + rq_len q) mod QUEUE_CAPACITY"
    using rq_tail_index by (simp add: QUEUE_CAPACITY_def)
  have "?idx < length (rq_buf q)" using assms(1) by (simp add: rq_inv_def QUEUE_CAPACITY_def)
  then have "rq_list q' = rq_list q @ [x]"
    unfolding rq_list_def len using rq_index_neq [OF _ assms(2), of _ "unat (rq_head q)", symmetric]
    by (auto simp: q'_def idx)
  moreover have "rq_inv q'" using assms len by (simp add: rq_inv_def q'_def)
  moreover have "rq_push q x = Some (q', True)"
    using assms(2) by (simp add: rq_push_def Let_def q'_def rq_len_def)
  ultimately show ?thesis by (auto simp: q'_def)
qed

lemma rq_pop_nonempty:
  assumes "rq_inv q" "rq_list q = x # xs"
  shows "\<exists>q'. rq_pop q = (q', Some x) \<and> rq_inv q' \<and> rq_list q' = xs \<and> rq_dropped q' = rq_dropped q"
proof -
  have pos: "0 < rq_len q" using assms(2) by (cases "rq_len q") (auto simp: rq_list_def)
  define q' where "q' = q\<lparr> rq_head := rq_head q + 1 \<rparr>"
  have len: "rq_len q = Suc (rq_len q')"
  proof -
    have "unat ((rq_tail q - rq_head q) - 1) = rq_len q - 1"
      using pos by (simp add: rq_len_def unat_sub word_le_nat_alt)
    then show ?thesis using pos by (simp add: rq_len_def q'_def algebra_simps)
  qed
  have hd: "(unat (rq_head q') + i) mod QUEUE_CAPACITY = (unat (rq_head q) + Suc i) mod QUEUE_CAPACITY" for i
    using unat_wrap_mod [of "rq_head q" 1] by (simp add: q'_def QUEUE_CAPACITY_def) (metis mod_add_left_eq add_Suc)
  have "rq_list q = rq_buf q ! (unat (rq_head q) mod QUEUE_CAPACITY) # rq_list q'"
    unfolding rq_list_def len hd by (simp add: upt_rec [of 0] map_Suc_upt [symmetric] q'_def del: upt_Suc)
  then have "rq_buf q ! (unat (rq_head q) mod QUEUE_CAPACITY) = x" "rq_list q' = xs" using assms(2) by auto
  moreover have "rq_pop q = (q', Some (rq_buf q ! (unat (rq_head q) mod QUEUE_CAPACITY)))"
    using pos rq_len_zero [of q] by (auto simp: rq_pop_def q'_def Let_def)
  moreover have "rq_inv q'" using assms(1) len by (simp add: rq_inv_def q'_def)
  ultimately show ?thesis by (auto simp: q'_def)
qed

text \<open>What the scheduler relies on: a bounded queue of ids that keeps their order.\<close>

locale bounded_queue =
  fixes ok :: "'q \<Rightarrow> bool" and content :: "'q \<Rightarrow> 'a list" and cap :: nat
    and push :: "'q \<Rightarrow> 'a \<Rightarrow> ('q \<times> bool) option" and pop :: "'q \<Rightarrow> 'q \<times> 'a option"
  assumes content_le: "ok q \<Longrightarrow> length (content q) \<le> cap"
    and push_room: "ok q \<Longrightarrow> length (content q) < cap \<Longrightarrow>
      \<exists>q'. push q x = Some (q', True) \<and> ok q' \<and> content q' = content q @ [x]"
    and pop_empty: "ok q \<Longrightarrow> content q = [] \<Longrightarrow> pop q = (q, None)"
    and pop_cons: "ok q \<Longrightarrow> content q = x # xs \<Longrightarrow> \<exists>q'. pop q = (q', Some x) \<and> ok q' \<and> content q' = xs"
begin

lemma pop_push_single:
  assumes "ok q" "content q = []" "0 < cap"
  shows "\<exists>q' q''. push q x = Some (q', True) \<and> pop q' = (q'', Some x) \<and> content q'' = []"
proof -
  obtain q' where q': "push q x = Some (q', True)" "ok q'" "content q' = [x]"
    using push_room [OF assms(1)] assms(2,3) by fastforce
  from pop_cons [OF q'(2,3)] q'(1) show ?thesis by blast
qed

lemma pop_push_commute:
  assumes "ok q" "content q = y # ys" "length (content q) < cap"
  shows "\<exists>q' q''. push q x = Some (q', True) \<and> pop q' = (q'', Some y) \<and> content q'' = ys @ [x]"
proof -
  obtain q' where q': "push q x = Some (q', True)" "ok q'" "content q' = y # (ys @ [x])"
    using push_room [OF assms(1,3)] assms(2) by fastforce
  from pop_cons [OF q'(2,3)] q'(1) show ?thesis by blast
qed

end

lemma length_rq_list [simp]: "length (rq_list q) = rq_len q"
  by (simp add: rq_list_def)

interpretation rqi: bounded_queue rq_inv rq_list QUEUE_CAPACITY rq_push rq_pop
proof unfold_locales
  fix q :: ready_queue and x :: nat and xs
  assume inv: "rq_inv q"
  then show "length (rq_list q) \<le> QUEUE_CAPACITY" by (simp add: rq_inv_def)
  show "\<exists>q'. rq_push q x = Some (q', True) \<and> rq_inv q' \<and> rq_list q' = rq_list q @ [x]"
    if "length (rq_list q) < QUEUE_CAPACITY"
    using rq_push_room [OF inv, of x] that by auto
  show "rq_pop q = (q, None)" if "rq_list q = []"
    using that rq_len_zero [of q] length_rq_list [of q] by (simp add: rq_pop_def)
  show "\<exists>q'. rq_pop q = (q', Some x) \<and> rq_inv q' \<and> rq_list q' = xs" if "rq_list q = x # xs"
    using rq_pop_nonempty [OF inv that] by blast
qed

text \<open>C17. The circular buffer with free-running 64-bit indices implements a bounded
  first-in first-out queue, across the wrap-around of its indices: a push appends its id
  unless 256 ids are queued, in which case the contents stay and the drop counter grows by
  one; a pop removes and returns the oldest id, and a peek shows it.\<close>

theorem ready_queue_refines:
  assumes "rq_inv q" "rq_dropped q \<noteq> - 1"
  shows "(\<exists>q'. rq_push q v = Some (q', length (rq_list q) < QUEUE_CAPACITY) \<and> rq_inv q'
      \<and> rq_list q' = (if length (rq_list q) < QUEUE_CAPACITY then rq_list q @ [v] else rq_list q)
      \<and> rq_dropped_count q' = rq_dropped q + (if length (rq_list q) < QUEUE_CAPACITY then 0 else 1))
    \<and> (\<exists>q'. rq_pop q = (q', rq_peek q) \<and> rq_inv q' \<and> rq_list q' = tl (rq_list q))
    \<and> rq_peek q = (case rq_list q of [] \<Rightarrow> None | v # _ \<Rightarrow> Some v)"
proof (intro conjI)
  show "\<exists>q'. rq_push q v = Some (q', length (rq_list q) < QUEUE_CAPACITY) \<and> rq_inv q'
      \<and> rq_list q' = (if length (rq_list q) < QUEUE_CAPACITY then rq_list q @ [v] else rq_list q)
      \<and> rq_dropped_count q' = rq_dropped q + (if length (rq_list q) < QUEUE_CAPACITY then 0 else 1)"
  proof (cases "rq_len q < QUEUE_CAPACITY")
    case True
    then show ?thesis using rq_push_room [OF assms(1), of v] by (simp add: rq_dropped_count_def)
  next
    case False
    have "unat (rq_dropped q) \<noteq> unat (- 1 :: u64)" using assms(2) unsigned_word_eqI by blast
    then have "checked_add (rq_dropped q) 1 = Some (rq_dropped q + 1)"
      using unat64_bound [of "rq_dropped q"]
      by (simp add: checked_add_def unsigned_minus_1_eq_mask mask_eq_exp_minus_1)
    then show ?thesis
      using False assms(1)
      by (simp add: rq_push_def Let_def rq_inv_def rq_list_def rq_dropped_count_def) (simp add: rq_len_def)
  qed
  have peek: "rq_peek q = (case rq_list q of [] \<Rightarrow> None | v # _ \<Rightarrow> Some v)"
  proof (cases "rq_list q")
    case Nil
    then have "rq_pop q = (q, None)" by (rule rqi.pop_empty [OF assms(1)])
    then show ?thesis using Nil by (auto simp: rq_pop_def rq_peek_def Let_def split: if_splits)
  next
    case (Cons x xs)
    then obtain q' where "rq_pop q = (q', Some x)" using rqi.pop_cons [OF assms(1)] by blast
    then show ?thesis using Cons by (auto simp: rq_pop_def rq_peek_def Let_def split: if_splits)
  qed
  then show "rq_peek q = (case rq_list q of [] \<Rightarrow> None | v # _ \<Rightarrow> Some v)" .
  show "\<exists>q'. rq_pop q = (q', rq_peek q) \<and> rq_inv q' \<and> rq_list q' = tl (rq_list q)"
    using assms(1) rqi.pop_empty [OF assms(1)] rqi.pop_cons [OF assms(1)] unfolding peek
    by (cases "rq_list q") auto
qed

text \<open>Indices about to wrap: the queue holds one id in its last cell.\<close>

definition rq_wrap :: ready_queue where
  "rq_wrap = rq_empty\<lparr> rq_buf := (replicate QUEUE_CAPACITY 0)[255 := 7], rq_head := - 1, rq_tail := 0 \<rparr>"

lemma rq_wrap_inv: "rq_inv rq_wrap" "rq_list rq_wrap = [7]"
  by (simp_all add: rq_inv_def rq_list_def rq_len_def rq_wrap_def rq_empty_def QUEUE_CAPACITY_def
      unsigned_minus_1_eq_mask mask_eq_exp_minus_1)

theorem ready_queue_refines_witness:
  "rq_inv rq_wrap \<and> (\<exists>q'. rq_push rq_wrap 9 = Some (q', True) \<and> rq_inv q' \<and> rq_list q' = [7, 9])
   \<and> rq_peek rq_wrap = Some 7"
proof -
  have "rq_dropped rq_wrap \<noteq> - 1" by (simp add: rq_wrap_def rq_empty_def)
  from ready_queue_refines [OF rq_wrap_inv(1) this, of 9] show ?thesis
    using rq_wrap_inv by (auto simp: QUEUE_CAPACITY_def)
qed

section \<open>CPU slots\<close>

definition MAX_CPUS :: nat where "MAX_CPUS = 4"
definition NO_APIC :: u32 where "NO_APIC = - 1"

record per_cpu =
  apic_id :: u32
  online :: bool
  kernel_ready :: bool
  kernel_stack_top :: u64
  ticks :: u64
  cur_task :: nat
  cur_vcpu :: nat
  idle_vcpu_id :: nat
  n_tasks :: u64
  run_queue :: ready_queue
  self_ptr :: u64
  need_resched :: bool
  timer_fires :: u64
  pending_tlb_flush :: u64
  saved_cr3 :: u64

definition per_cpu_new :: per_cpu where
  "per_cpu_new = \<lparr> apic_id = NO_APIC, online = False, kernel_ready = False, kernel_stack_top = 0,
     ticks = 0, cur_task = 0, cur_vcpu = 0, idle_vcpu_id = U32_MAX, n_tasks = 0,
     run_queue = rq_empty, self_ptr = 0, need_resched = False, timer_fires = 0,
     pending_tlb_flush = 0, saved_cr3 = 0 \<rparr>"

record cpu_table =
  percpu :: "per_cpu list"
  apic_to_slot :: "nat \<Rightarrow> u8"

definition cpu_boot :: cpu_table where
  "cpu_boot = \<lparr> percpu = replicate MAX_CPUS per_cpu_new, apic_to_slot = (\<lambda>_. 0xFF) \<rparr>"

definition set_cpu :: "cpu_table \<Rightarrow> nat \<Rightarrow> (per_cpu \<Rightarrow> per_cpu) \<Rightarrow> cpu_table" where
  "set_cpu c s f = c\<lparr> percpu := (percpu c)[s := f (percpu c ! s)] \<rparr>"

definition find_slot :: "cpu_table \<Rightarrow> u32 \<Rightarrow> cpu_table \<times> nat option" where
  "find_slot c a =
     (case find (\<lambda>s. apic_id (percpu c ! s) = a) [0..<MAX_CPUS] of
        Some s \<Rightarrow> (c, Some s)
      | None \<Rightarrow>
          (case find (\<lambda>s. \<not> online (percpu c ! s)) [0..<MAX_CPUS] of
             Some s \<Rightarrow> (set_cpu c s (online_update (\<lambda>_. True)), Some s)
           | None \<Rightarrow> (c, None)))"

definition slot_for :: "cpu_table \<Rightarrow> u32 \<Rightarrow> (cpu_table \<times> nat) option" where
  "slot_for c a = (case find_slot c a of (c', Some s) \<Rightarrow> Some (c', s) | (c', None) \<Rightarrow> None)"

definition apic_id_to_slot :: "cpu_table \<Rightarrow> u32 \<Rightarrow> (cpu_table \<times> nat) option" where
  "apic_id_to_slot c a =
     (if a < 256 \<and> apic_to_slot c (unat a) \<noteq> 0xFF
      then Some (c, unat (apic_to_slot c (unat a)))
      else slot_for c a)"

definition mark_online_for_slot :: "cpu_table \<Rightarrow> u32 \<Rightarrow> nat \<Rightarrow> cpu_table option" where
  "mark_online_for_slot c a slot =
     (if slot < MAX_CPUS then
        let c = (if a < 256 then c\<lparr> apic_to_slot := (apic_to_slot c)(unat a := of_nat slot) \<rparr> else c)
        in Some (set_cpu c slot (\<lambda>p. p\<lparr> apic_id := a, online := True \<rparr>))
      else None)"

definition mark_online :: "cpu_table \<Rightarrow> u32 \<Rightarrow> cpu_table option" where
  "mark_online c a = do { (c', slot) \<leftarrow> slot_for c a; mark_online_for_slot c' a slot }"

definition is_online :: "cpu_table \<Rightarrow> nat \<Rightarrow> bool" where
  "is_online c cpu = online (percpu c ! (cpu mod MAX_CPUS))"

definition rq :: "cpu_table \<Rightarrow> nat \<Rightarrow> ready_queue" where
  "rq c cpu = run_queue (percpu c ! (cpu mod MAX_CPUS))"

text \<open>The flag is set by another CPU, so the values the loop reads are a sequence.\<close>

fun ready_wait :: "nat \<Rightarrow> (nat \<Rightarrow> bool) \<Rightarrow> bool" where
  "ready_wait 0 seen = False"
| "ready_wait (Suc n) seen = (if seen 0 then True else ready_wait n (\<lambda>i. seen (Suc i)))"

definition wait_for_kernel_ready :: "cpu_table \<Rightarrow> u32 \<Rightarrow> (nat \<Rightarrow> nat \<Rightarrow> bool) \<Rightarrow> (cpu_table \<times> bool) option" where
  "wait_for_kernel_ready c a seen = do {
     (c', slot) \<leftarrow> apic_id_to_slot c a;
     Some (c', ready_wait 10000000 (seen slot))
   }"

definition release_all_aps :: "cpu_table \<Rightarrow> cpu_table" where
  "release_all_aps c = fold (\<lambda>s c. set_cpu c s (kernel_ready_update (\<lambda>_. True))) [0..<MAX_CPUS] c"

definition is_bsp :: "u32 \<Rightarrow> u32 \<Rightarrow> bool" where
  "is_bsp bsp current_apic_id = (if bsp = - 1 then True else current_apic_id = bsp)"

definition current_task :: "cpu_table \<Rightarrow> nat \<Rightarrow> nat" where
  "current_task c cpu = cur_task (percpu c ! (cpu mod MAX_CPUS))"

definition set_current :: "cpu_table \<Rightarrow> nat \<Rightarrow> nat \<Rightarrow> cpu_table" where
  "set_current c cpu v = set_cpu c (cpu mod MAX_CPUS) (cur_task_update (\<lambda>_. v))"

definition current_vcpu :: "cpu_table \<Rightarrow> nat \<Rightarrow> nat" where
  "current_vcpu c cpu = cur_vcpu (percpu c ! (cpu mod MAX_CPUS))"

definition set_current_vcpu :: "cpu_table \<Rightarrow> nat \<Rightarrow> nat \<Rightarrow> cpu_table" where
  "set_current_vcpu c cpu v = set_cpu c (cpu mod MAX_CPUS) (cur_vcpu_update (\<lambda>_. v))"

definition task_count :: "cpu_table \<Rightarrow> nat \<Rightarrow> u64" where
  "task_count c cpu = n_tasks (percpu c ! (cpu mod MAX_CPUS))"

definition set_task_count :: "cpu_table \<Rightarrow> nat \<Rightarrow> u64 \<Rightarrow> cpu_table" where
  "set_task_count c cpu v = set_cpu c (cpu mod MAX_CPUS) (n_tasks_update (\<lambda>_. v))"

definition add_task_count :: "cpu_table \<Rightarrow> nat \<Rightarrow> int \<Rightarrow> cpu_table" where
  "add_task_count c cpu delta =
     set_cpu c (cpu mod MAX_CPUS)
       (n_tasks_update (\<lambda>n. if 0 \<le> delta then n + of_int delta else n - of_int (- delta)))"

definition set_idle_vcpu :: "cpu_table \<Rightarrow> nat \<Rightarrow> nat \<Rightarrow> cpu_table" where
  "set_idle_vcpu c cpu v = set_cpu c (cpu mod MAX_CPUS) (idle_vcpu_id_update (\<lambda>_. v))"

definition idle_vcpu :: "cpu_table \<Rightarrow> nat \<Rightarrow> nat" where
  "idle_vcpu c cpu = idle_vcpu_id (percpu c ! (cpu mod MAX_CPUS))"

fun least_loaded_from :: "cpu_table \<Rightarrow> nat list \<Rightarrow> nat \<times> u64 \<times> bool \<Rightarrow> nat \<times> u64 \<times> bool" where
  "least_loaded_from c [] (best, best_count, found) = (best, best_count, found)"
| "least_loaded_from c (cpu # rest) (best, best_count, found) =
     (if \<not> online (percpu c ! cpu) then least_loaded_from c rest (best, best_count, found)
      else
        let cnt = n_tasks (percpu c ! cpu)
        in least_loaded_from c rest
             (if cnt < best_count then (cpu, cnt, True) else (best, best_count, True)))"

definition find_least_loaded :: "cpu_table \<Rightarrow> nat" where
  "find_least_loaded c =
     (case least_loaded_from c [0..<MAX_CPUS] (0, - 1, False) of
        (best, best_count, found) \<Rightarrow> if \<not> found then 0 else best)"

section \<open>Slots are assigned once\<close>

definition cpus_inv :: "cpu_table \<Rightarrow> bool" where
  "cpus_inv c \<longleftrightarrow> length (percpu c) = MAX_CPUS
     \<and> (\<forall>i<MAX_CPUS. online (percpu c ! i) \<longleftrightarrow> apic_id (percpu c ! i) \<noteq> NO_APIC)
     \<and> (\<forall>i<MAX_CPUS. \<forall>j<MAX_CPUS. i \<noteq> j \<longrightarrow> online (percpu c ! i) \<longrightarrow>
          apic_id (percpu c ! i) \<noteq> apic_id (percpu c ! j))
     \<and> (\<forall>a<256. apic_to_slot c a \<noteq> 0xFF \<longrightarrow> unat (apic_to_slot c a) < MAX_CPUS
          \<and> apic_id (percpu c ! unat (apic_to_slot c a)) = of_nat a)
     \<and> (\<forall>i<MAX_CPUS. online (percpu c ! i) \<and> apic_id (percpu c ! i) < 256 \<longrightarrow>
          apic_to_slot c (unat (apic_id (percpu c ! i))) = of_nat i)"

lemma cpu_boot_inv: "cpus_inv cpu_boot"
  by (simp add: cpus_inv_def cpu_boot_def per_cpu_new_def)

lemma find_upt_Some:
  "find P [0..<n] = Some s \<Longrightarrow> s < n \<and> P s \<and> (\<forall>j < s. \<not> P j)"
  by (auto simp: find_Some_iff)

lemma find_upt_None: "find P [0..<n] = None \<longleftrightarrow> (\<forall>j<n. \<not> P j)"
  by (auto simp: find_None_iff)

lemma slot_word: "s < MAX_CPUS \<Longrightarrow> unat (of_nat s :: u8) = s \<and> (of_nat s :: u8) \<noteq> 0xFF"
proof -
  assume "s < MAX_CPUS"
  then have "s \<in> {0, 1, 2, 3}" by (auto simp: MAX_CPUS_def)
  then show ?thesis by auto
qed

lemma mark_slot_inv:
  assumes inv: "cpus_inv c" and s: "s < MAX_CPUS" and a: "a \<noteq> NO_APIC"
    and free: "apic_id (percpu c ! s) = a \<or> apic_id (percpu c ! s) = NO_APIC"
    and only: "\<forall>j<MAX_CPUS. j \<noteq> s \<longrightarrow> apic_id (percpu c ! j) \<noteq> a"
    and c': "percpu c' = (percpu c)[s := (percpu c ! s)\<lparr> apic_id := a, online := True \<rparr>]"
    and tbl: "apic_to_slot c' = (if a < 256 then (apic_to_slot c)(unat a := of_nat s) else apic_to_slot c)"
  shows "cpus_inv c'"
proof -
  have len: "length (percpu c) = MAX_CPUS" using inv by (simp add: cpus_inv_def)
  have at: "percpu c' ! j = (if j = s then (percpu c ! s)\<lparr> apic_id := a, online := True \<rparr> else percpu c ! j)"
    if "j < MAX_CPUS" for j using that len by (simp add: c' nth_list_update)
  have T: "unat (apic_to_slot c' x) < MAX_CPUS \<and> apic_id (percpu c' ! unat (apic_to_slot c' x)) = of_nat x"
    if "x < 256" "apic_to_slot c' x \<noteq> 0xFF" for x
  proof (cases "a < 256 \<and> x = unat a")
    case True
    then show ?thesis using s slot_word [OF s] at [OF s] tbl by simp
  next
    case False
    then have old: "apic_to_slot c' x = apic_to_slot c x" using tbl by auto
    then have lt: "unat (apic_to_slot c x) < MAX_CPUS" and ap: "apic_id (percpu c ! unat (apic_to_slot c x)) = of_nat x"
      using inv that unfolding cpus_inv_def by auto
    have "unat (of_nat x :: u32) = x" using that(1) by (simp add: unsigned_of_nat take_bit_nat_eq_self)
    then have "unat (apic_to_slot c x) \<noteq> s \<or> of_nat x = a \<or> of_nat x = NO_APIC" using free ap by auto
    moreover have "of_nat x \<noteq> NO_APIC"
    proof
      assume "of_nat x = NO_APIC"
      then have "x = unat NO_APIC" using \<open>unat (of_nat x :: u32) = x\<close> by simp
      then show False using that(1) by (simp add: NO_APIC_def unsigned_minus_1_eq_mask mask_eq_exp_minus_1)
    qed
    moreover have "of_nat x \<noteq> a"
    proof
      assume "of_nat x = a"
      then have "x = unat a" using \<open>unat (of_nat x :: u32) = x\<close> by simp
      then show False using False that(1) by (simp add: word_less_nat_alt)
    qed
    ultimately show ?thesis using old lt ap at [OF lt] by simp
  qed
  have U: "apic_to_slot c' (unat (apic_id (percpu c' ! i))) = of_nat i"
    if "i < MAX_CPUS" "online (percpu c' ! i)" "apic_id (percpu c' ! i) < 256" for i
  proof (cases "i = s")
    case True
    then show ?thesis using that at [OF s] tbl by simp
  next
    case False
    then have "apic_id (percpu c ! i) \<noteq> a" using only that(1) by simp
    then have "unat (apic_id (percpu c ! i)) \<noteq> unat a" using unsigned_word_eqI by blast
    then show ?thesis using False that at [OF that(1)] inv tbl by (simp add: cpus_inv_def)
  qed
  have A: "online (percpu c' ! i) \<longleftrightarrow> apic_id (percpu c' ! i) \<noteq> NO_APIC" if "i < MAX_CPUS" for i
    using that inv a at [OF that] by (simp add: cpus_inv_def)
  have B: "apic_id (percpu c' ! i) \<noteq> apic_id (percpu c' ! j)"
    if "i < MAX_CPUS" "j < MAX_CPUS" "i \<noteq> j" "online (percpu c' ! i)" for i j
    using that inv only at [OF that(1)] at [OF that(2)] by (auto simp: cpus_inv_def)
  have L: "length (percpu c') = MAX_CPUS" by (simp add: c' len)
  show ?thesis unfolding cpus_inv_def using L A B T U by blast
qed

lemma apic_lookup:
  assumes "cpus_inv c" "s < MAX_CPUS" "online (percpu c ! s)"
  shows "apic_id_to_slot c (apic_id (percpu c ! s)) = Some (c, s)"
proof (cases "apic_id (percpu c ! s) < 256")
  case True
  then have "apic_to_slot c (unat (apic_id (percpu c ! s))) = of_nat s"
    using assms by (simp add: cpus_inv_def)
  then show ?thesis using True slot_word [OF assms(2)] by (simp add: apic_id_to_slot_def)
next
  case False
  have "find (\<lambda>t. apic_id (percpu c ! t) = apic_id (percpu c ! s)) [0..<MAX_CPUS] = Some s"
  proof (cases "find (\<lambda>t. apic_id (percpu c ! t) = apic_id (percpu c ! s)) [0..<MAX_CPUS]")
    case None
    then show ?thesis using assms(2) by (auto simp: find_upt_None)
  next
    case (Some t)
    then have "t < MAX_CPUS" "apic_id (percpu c ! t) = apic_id (percpu c ! s)" by (auto dest: find_upt_Some)
    then have "t = s" using assms unfolding cpus_inv_def by metis
    then show ?thesis using Some by simp
  qed
  then show ?thesis using False by (simp add: apic_id_to_slot_def slot_for_def find_slot_def)
qed

text \<open>C18. Registering a CPU gives its LAPIC id a slot of its own: \<^verbatim>\<open>mark_online\<close> aborts only when
  every slot is online under another id; otherwise exactly one slot changes, it is online
  under the id, the slot table stays consistent (online ids are pairwise different), and the
  table lookup of the id finds that slot.\<close>

theorem mark_online_spec:
  assumes "cpus_inv c" "a \<noteq> NO_APIC"
  shows "case mark_online c a of
      None \<Rightarrow> \<forall>i<MAX_CPUS. online (percpu c ! i) \<and> apic_id (percpu c ! i) \<noteq> a
    | Some c' \<Rightarrow> cpus_inv c' \<and> (\<exists>s<MAX_CPUS. online (percpu c' ! s) \<and> apic_id (percpu c' ! s) = a
        \<and> (\<forall>j<MAX_CPUS. j \<noteq> s \<longrightarrow> percpu c' ! j = percpu c ! j)
        \<and> apic_id_to_slot c' a = Some (c', s))"
proof -
  have len: "length (percpu c) = MAX_CPUS" using assms(1) by (simp add: cpus_inv_def)
  have mark: "\<exists>c'. mark_online c a = Some c' \<and> cpus_inv c' \<and> (\<exists>s<MAX_CPUS. online (percpu c' ! s)
      \<and> apic_id (percpu c' ! s) = a \<and> (\<forall>j<MAX_CPUS. j \<noteq> s \<longrightarrow> percpu c' ! j = percpu c ! j)
      \<and> apic_id_to_slot c' a = Some (c', s))"
    if s: "s < MAX_CPUS" and slot: "slot_for c a = Some (c1, s)"
      and c1: "apic_to_slot c1 = apic_to_slot c" "percpu c1 = (percpu c)[s := (percpu c ! s)\<lparr> online := True \<rparr>]"
      and free: "apic_id (percpu c ! s) = a \<or> apic_id (percpu c ! s) = NO_APIC"
      and only: "\<forall>j<MAX_CPUS. j \<noteq> s \<longrightarrow> apic_id (percpu c ! j) \<noteq> a" for s c1
  proof -
    define c' where "c' = the (mark_online c a)"
    have c': "mark_online c a = Some c'"
      "percpu c' = (percpu c)[s := (percpu c ! s)\<lparr> apic_id := a, online := True \<rparr>]"
      "apic_to_slot c' = (if a < 256 then (apic_to_slot c)(unat a := of_nat s) else apic_to_slot c)"
      unfolding c'_def
      using s slot c1 len by (simp_all add: mark_online_def mark_online_for_slot_def set_cpu_def Let_def)
    have inv: "cpus_inv c'" using mark_slot_inv [OF assms(1) s assms(2) free only c'(2,3)] .
    have "percpu c' ! s = (percpu c ! s)\<lparr> apic_id := a, online := True \<rparr>" using c'(2) s len by simp
    then have "apic_id_to_slot c' a = Some (c', s)" using apic_lookup [OF inv s] by simp
    then show ?thesis using c' inv s len by (intro exI [of _ c']) auto
  qed
  show ?thesis
  proof (cases "find (\<lambda>s. apic_id (percpu c ! s) = a) [0..<MAX_CPUS]")
    case (Some s)
    then have s: "s < MAX_CPUS" "apic_id (percpu c ! s) = a" by (auto dest: find_upt_Some)
    then have on: "online (percpu c ! s)" using assms by (simp add: cpus_inv_def)
    have "slot_for c a = Some (c, s)" using Some by (simp add: slot_for_def find_slot_def)
    moreover have "(percpu c ! s)\<lparr> online := True \<rparr> = percpu c ! s"
      using on by (cases "percpu c ! s") simp
    then have "percpu c = (percpu c)[s := (percpu c ! s)\<lparr> online := True \<rparr>]" by simp
    moreover have "\<forall>j<MAX_CPUS. j \<noteq> s \<longrightarrow> apic_id (percpu c ! j) \<noteq> a"
      using assms(1) s on by (auto simp: cpus_inv_def)
    ultimately show ?thesis using mark [OF s(1)] s(2) by fastforce
  next
    case None
    note none = None
    show ?thesis
    proof (cases "find (\<lambda>s. \<not> online (percpu c ! s)) [0..<MAX_CPUS]")
      case None
      then have "mark_online c a = None"
        using none by (simp add: mark_online_def slot_for_def find_slot_def)
      then show ?thesis using none None by (simp add: find_upt_None)
    next
      case (Some s)
      then have s: "s < MAX_CPUS" "\<not> online (percpu c ! s)" by (auto dest: find_upt_Some)
      then have "apic_id (percpu c ! s) = NO_APIC" using assms(1) by (simp add: cpus_inv_def)
      moreover have "slot_for c a = Some (set_cpu c s (online_update (\<lambda>_. True)), s)"
        using none Some by (simp add: slot_for_def find_slot_def)
      ultimately show ?thesis using mark [OF s(1)] none by (fastforce simp: set_cpu_def find_upt_None)
    qed
  qed
qed

theorem mark_online_spec_witness:
  "cpus_inv cpu_boot \<and> (3 :: u32) \<noteq> NO_APIC \<and> (case mark_online cpu_boot 3 of
      None \<Rightarrow> \<forall>i<MAX_CPUS. online (percpu cpu_boot ! i) \<and> apic_id (percpu cpu_boot ! i) \<noteq> 3
    | Some c' \<Rightarrow> cpus_inv c' \<and> (\<exists>s<MAX_CPUS. online (percpu c' ! s) \<and> apic_id (percpu c' ! s) = 3
        \<and> (\<forall>j<MAX_CPUS. j \<noteq> s \<longrightarrow> percpu c' ! j = percpu cpu_boot ! j)
        \<and> apic_id_to_slot c' 3 = Some (c', s)))"
  using mark_online_spec [OF cpu_boot_inv, of 3] cpu_boot_inv by (simp add: NO_APIC_def)

section \<open>Load balancing\<close>

lemma least_loaded_from_min:
  assumes "least_loaded_from c cpus (b, n, f) = (b', n', f')"
  shows "n' \<le> n \<and> (\<forall>cpu\<in>set cpus. online (percpu c ! cpu) \<longrightarrow> n' \<le> n_tasks (percpu c ! cpu))
    \<and> (f' \<longleftrightarrow> f \<or> (\<exists>cpu\<in>set cpus. online (percpu c ! cpu)))
    \<and> (b' = b \<and> n' = n \<or> b' \<in> set cpus \<and> online (percpu c ! b') \<and> n_tasks (percpu c ! b') = n')"
  using assms
proof (induction cpus arbitrary: b n f)
  case (Cons cpu cpus)
  show ?case
  proof (cases "online (percpu c ! cpu)")
    case True
    then show ?thesis
      using Cons.prems Cons.IH [of cpu "n_tasks (percpu c ! cpu)" True] Cons.IH [of b n True]
      by (cases "n_tasks (percpu c ! cpu) < n") (auto simp: Let_def)
  next
    case False
    then show ?thesis using Cons.prems Cons.IH [of b n f] by auto
  qed
qed auto

lemma find_least_loaded_min:
  assumes "cpu < MAX_CPUS" "online (percpu c ! cpu)" "n_tasks (percpu c ! cpu) \<noteq> - 1"
  shows "find_least_loaded c < MAX_CPUS \<and> online (percpu c ! find_least_loaded c)
    \<and> (\<forall>j<MAX_CPUS. online (percpu c ! j) \<longrightarrow>
        n_tasks (percpu c ! find_least_loaded c) \<le> n_tasks (percpu c ! j))"
proof -
  obtain b n f where l: "least_loaded_from c [0..<MAX_CPUS] (0, - 1, False) = (b, n, f)"
    by (metis prod_cases3)
  note min = least_loaded_from_min [OF l]
  have "n \<le> n_tasks (percpu c ! cpu)" using min assms(1,2) by auto
  moreover have "n_tasks (percpu c ! cpu) < - 1"
    using assms(3) by (metis order.not_eq_order_implies_strict word_n1_ge)
  ultimately have "n \<noteq> - 1" by auto
  moreover have f using min assms(1,2) by auto
  ultimately show ?thesis using min l by (auto simp: find_least_loaded_def)
qed

end
