(* ===== verification/Sync.thy ===== *)
theory Sync
  imports Lodax_Prelude
begin

text \<open>
  The interrupt-saving spinlock, \<^verbatim>\<open>kernel/src/sync.rs\<close>, as a step relation over any number
  of CPUs. Each atomic access of the source is one step: reading the flags and disabling
  interrupts, one compare-exchange attempt, the releasing store, and restoring the interrupt
  flag. Reachable states have at most one holder, and a CPU's interrupt flag is off from
  the moment it asks for the lock until it has given it back.
\<close>

section \<open>States and steps\<close>

datatype lock_phase =
    Outside
  | Spinning bool
  | Holding bool
  | Releasing bool

record lock_sys =
  lk_locked :: bool
  lk_phase :: "nat \<Rightarrow> lock_phase"
  lk_intr :: "nat \<Rightarrow> bool"

definition lock_new :: "(nat \<Rightarrow> bool) \<Rightarrow> lock_sys" where
  "lock_new intr = \<lparr> lk_locked = False, lk_phase = (\<lambda>_. Outside), lk_intr = intr \<rparr>"

definition save_and_disable_interrupts :: "lock_sys \<Rightarrow> nat \<Rightarrow> lock_sys \<times> bool" where
  "save_and_disable_interrupts s c = (s\<lparr> lk_intr := (lk_intr s)(c := False) \<rparr>, lk_intr s c)"

definition restore_interrupts :: "lock_sys \<Rightarrow> nat \<Rightarrow> bool \<Rightarrow> lock_sys" where
  "restore_interrupts s c rflags = s\<lparr> lk_intr := (lk_intr s)(c := rflags) \<rparr>"

definition set_phase :: "lock_sys \<Rightarrow> nat \<Rightarrow> lock_phase \<Rightarrow> lock_sys" where
  "set_phase s c p = s\<lparr> lk_phase := (lk_phase s)(c := p) \<rparr>"

definition lock_begin :: "lock_sys \<Rightarrow> nat \<Rightarrow> lock_sys" where
  "lock_begin s c = (case save_and_disable_interrupts s c of (s', rflags) \<Rightarrow> set_phase s' c (Spinning rflags))"

text \<open>The weak compare-exchange may fail although the lock is free; \<open>spurious\<close> is that failure.\<close>

definition lock_spin :: "lock_sys \<Rightarrow> nat \<Rightarrow> bool \<Rightarrow> lock_sys" where
  "lock_spin s c spurious = (case lk_phase s c of
       Spinning rflags \<Rightarrow>
         if lk_locked s \<or> spurious then s
         else set_phase (s\<lparr> lk_locked := True \<rparr>) c (Holding rflags)
     | _ \<Rightarrow> s)"

definition try_lock :: "lock_sys \<Rightarrow> nat \<Rightarrow> lock_sys" where
  "try_lock s c = (case save_and_disable_interrupts s c of (s', rflags) \<Rightarrow>
     if \<not> lk_locked s' then set_phase (s'\<lparr> lk_locked := True \<rparr>) c (Holding rflags)
     else restore_interrupts s' c rflags)"

definition guard_release :: "lock_sys \<Rightarrow> nat \<Rightarrow> lock_sys" where
  "guard_release s c = (case lk_phase s c of
       Holding rflags \<Rightarrow> set_phase (s\<lparr> lk_locked := False \<rparr>) c (Releasing rflags)
     | _ \<Rightarrow> s)"

definition guard_restore :: "lock_sys \<Rightarrow> nat \<Rightarrow> lock_sys" where
  "guard_restore s c = (case lk_phase s c of
       Releasing rflags \<Rightarrow> set_phase (restore_interrupts s c rflags) c Outside
     | _ \<Rightarrow> s)"

inductive lock_step :: "lock_sys \<Rightarrow> lock_sys \<Rightarrow> bool" where
  begin_lock: "lk_phase s c = Outside \<Longrightarrow> lock_step s (lock_begin s c)"
| spin: "lk_phase s c = Spinning r \<Longrightarrow> lock_step s (lock_spin s c spurious)"
| attempt: "lk_phase s c = Outside \<Longrightarrow> lock_step s (try_lock s c)"
| release: "lk_phase s c = Holding r \<Longrightarrow> lock_step s (guard_release s c)"
| restore: "lk_phase s c = Releasing r \<Longrightarrow> lock_step s (guard_restore s c)"

inductive lock_reach :: "(nat \<Rightarrow> bool) \<Rightarrow> lock_sys \<Rightarrow> bool" for intr where
  start: "lock_reach intr (lock_new intr)"
| step: "lock_reach intr s \<Longrightarrow> lock_step s s' \<Longrightarrow> lock_reach intr s'"

section \<open>Mutual exclusion\<close>

definition holds :: "lock_sys \<Rightarrow> nat \<Rightarrow> bool" where
  "holds s c \<longleftrightarrow> (\<exists>r. lk_phase s c = Holding r)"

definition saved_flag :: "lock_phase \<Rightarrow> bool option" where
  "saved_flag p = (case p of Outside \<Rightarrow> None | Spinning r \<Rightarrow> Some r | Holding r \<Rightarrow> Some r | Releasing r \<Rightarrow> Some r)"

definition lock_inv :: "(nat \<Rightarrow> bool) \<Rightarrow> lock_sys \<Rightarrow> bool" where
  "lock_inv intr s \<longleftrightarrow> (\<forall>c d. holds s c \<longrightarrow> holds s d \<longrightarrow> c = d) \<and> (lk_locked s \<longleftrightarrow> (\<exists>c. holds s c))
     \<and> (\<forall>c. case saved_flag (lk_phase s c) of
          None \<Rightarrow> lk_intr s c = intr c | Some r \<Rightarrow> r = intr c \<and> \<not> lk_intr s c)"

lemmas lock_op_defs = lock_begin_def lock_spin_def try_lock_def guard_release_def guard_restore_def
  save_and_disable_interrupts_def restore_interrupts_def set_phase_def

lemma other_holder:
  "lk_phase s a = Holding r \<Longrightarrow> (\<And>q. lk_phase s c \<noteq> Holding q)
    \<Longrightarrow> \<exists>b. b \<noteq> c \<and> (b \<noteq> c \<longrightarrow> (\<exists>r. lk_phase s b = Holding r))"
  by (rule exI [of _ a]) auto

lemma lock_step_inv:
  assumes "lock_inv intr s" "lock_step s s'"
  shows "lock_inv intr s'"
  using assms(2,1)
  by (cases rule: lock_step.cases)
    (auto simp: lock_inv_def lock_op_defs holds_def saved_flag_def split: if_splits lock_phase.splits;
      (rule other_holder, assumption, simp))+

lemma lock_reach_inv: "lock_reach intr s \<Longrightarrow> lock_inv intr s"
proof (induction rule: lock_reach.induct)
  case start
  then show ?case by (simp add: lock_inv_def lock_new_def holds_def saved_flag_def)
qed (rule lock_step_inv)

text \<open>C5. In every interleaving of any number of CPUs that use the spinlock, at most one CPU
  holds it, the lock word says exactly whether somebody does, a CPU that waits for, holds or
  is giving back the lock has interrupts disabled, and a CPU outside the lock has its
  interrupt flag as it was before.\<close>

theorem spinlock_mutual_exclusion:
  assumes "lock_reach intr s"
  shows "(holds s c \<and> holds s d \<longrightarrow> c = d) \<and> (lk_locked s \<longleftrightarrow> (\<exists>c. holds s c))
    \<and> (lk_phase s c \<noteq> Outside \<longrightarrow> \<not> lk_intr s c) \<and> (lk_phase s c = Outside \<longrightarrow> lk_intr s c = intr c)"
proof -
  have inv: "lock_inv intr s" using lock_reach_inv [OF assms] .
  then have "case saved_flag (lk_phase s c) of
      None \<Rightarrow> lk_intr s c = intr c | Some r \<Rightarrow> r = intr c \<and> \<not> lk_intr s c"
    by (simp add: lock_inv_def)
  then show ?thesis
    using inv by (cases "lk_phase s c") (auto simp: lock_inv_def saved_flag_def)
qed

text \<open>CPU 0 holds the lock while CPU 1 waits for it.\<close>

definition lock_demo :: lock_sys where
  "lock_demo = lock_begin (lock_spin (lock_begin (lock_new (\<lambda>_. True)) 0) 0 False) 1"

lemma lock_demo_reach: "lock_reach (\<lambda>_. True) lock_demo"
proof -
  let ?s0 = "lock_new (\<lambda>_. True)"
  let ?s1 = "lock_begin ?s0 0"
  let ?s2 = "lock_spin ?s1 0 False"
  have "lock_step ?s0 ?s1" by (rule lock_step.begin_lock) (simp add: lock_new_def)
  moreover have "lock_step ?s1 ?s2"
    by (rule lock_step.spin [of _ _ True]) (simp add: lock_op_defs lock_new_def)
  moreover have "lock_step ?s2 (lock_begin ?s2 1)"
    by (rule lock_step.begin_lock) (simp add: lock_op_defs lock_new_def)
  ultimately show ?thesis
    unfolding lock_demo_def by (blast intro: lock_reach.intros)
qed

theorem spinlock_mutual_exclusion_witness:
  "lock_reach (\<lambda>_. True) lock_demo \<and> holds lock_demo 0 \<and> lk_phase lock_demo 1 \<noteq> Outside
   \<and> lk_locked lock_demo \<and> \<not> lk_intr lock_demo 1 \<and> \<not> holds lock_demo 1"
proof -
  have h: "holds lock_demo 0" "lk_phase lock_demo 1 \<noteq> Outside"
    by (auto simp: lock_demo_def lock_op_defs lock_new_def holds_def)
  then show ?thesis
    using spinlock_mutual_exclusion [OF lock_demo_reach, of 1 0] lock_demo_reach by auto
qed

end
