(* ===== verification/Slot_Table.thy ===== *)
theory Slot_Table
  imports Lodax_Prelude
begin

text \<open>
  The contract of the kernel's fixed-size object tables (the vCPU slab, the service table):
  an array of optional entries with a count of the occupied ones, first-fit allocation and
  release by index. Each table interprets the locale on its own operations.
\<close>

section \<open>First free slot and occupancy\<close>

definition first_none :: "'a option list \<Rightarrow> nat option" where
  "first_none xs = find (\<lambda>i. xs ! i = None) [0..<length xs]"

definition live :: "'a option list \<Rightarrow> nat" where
  "live xs = length (filter (\<lambda>x. x \<noteq> None) xs)"

lemma first_none_Some:
  "first_none xs = Some i \<Longrightarrow> i < length xs \<and> xs ! i = None \<and> (\<forall>j<i. xs ! j \<noteq> None)"
  by (auto simp: first_none_def find_Some_iff)

lemma first_none_None: "first_none xs = None \<longleftrightarrow> (\<forall>i<length xs. xs ! i \<noteq> None)"
  by (auto simp: first_none_def find_None_iff)

lemma live_le: "live xs \<le> length xs"
  by (simp add: live_def)

lemma live_replicate [simp]: "live (replicate n None) = 0"
  by (simp add: live_def)

lemma live_update:
  assumes "i < length xs"
  shows "live (xs[i := y]) + (if xs ! i = None then 0 else 1) = live xs + (if y = None then 0 else 1)"
proof -
  have split: "xs = take i xs @ xs ! i # drop (Suc i) xs" using assms by (rule id_take_nth_drop)
  have app: "live (ys @ z # zs) = live ys + (if z = None then 0 else 1) + live zs" for ys zs and z :: "'a option"
    by (simp add: live_def)
  have "live xs = live (take i xs) + (if xs ! i = None then 0 else 1) + live (drop (Suc i) xs)"
    by (subst split) (rule app)
  moreover have "live (xs[i := y]) = live (take i xs) + (if y = None then 0 else 1) + live (drop (Suc i) xs)"
    unfolding upd_conv_take_nth_drop [OF assms] by (rule app)
  ultimately show ?thesis by simp
qed

lemma live_full: "live xs = length xs \<longleftrightarrow> first_none xs = None"
proof -
  have "live xs = length xs \<longleftrightarrow> (\<forall>x\<in>set xs. x \<noteq> None)"
    unfolding live_def by (metis (mono_tags, lifting) filter_True length_filter_less less_irrefl)
  then show ?thesis by (auto simp: first_none_None in_set_conv_nth)
qed

section \<open>The contract\<close>

locale slot_table =
  fixes slots :: "'t \<Rightarrow> 'a option list" and count_of :: "'t \<Rightarrow> nat" and cap :: nat
    and alloc :: "'v \<Rightarrow> 't \<Rightarrow> 't \<times> nat option" and entry :: "'v \<Rightarrow> nat \<Rightarrow> 'a"
    and release :: "nat \<Rightarrow> 't \<Rightarrow> 't"
  assumes alloc_full: "cap \<le> count_of t \<Longrightarrow> alloc v t = (t, None)"
    and alloc_room: "length (slots t) = cap \<Longrightarrow> count_of t < cap \<Longrightarrow> first_none (slots t) = Some i \<Longrightarrow>
      \<exists>t'. alloc v t = (t', Some i) \<and> slots t' = (slots t)[i := Some (entry v i)]
        \<and> count_of t' = count_of t + 1"
    and release_live: "length (slots t) = cap \<Longrightarrow> i < cap \<Longrightarrow> slots t ! i \<noteq> None \<Longrightarrow>
      slots (release i t) = (slots t)[i := None] \<and> count_of (release i t) = count_of t - 1"
    and release_other: "cap \<le> i \<or> slots t ! i = None \<Longrightarrow> release i t = t"
begin

definition ok :: "'t \<Rightarrow> bool" where
  "ok t \<longleftrightarrow> length (slots t) = cap \<and> count_of t = live (slots t)"

lemma alloc_cases:
  assumes "ok t"
  shows "(first_none (slots t) = None \<and> alloc v t = (t, None))
    \<or> (\<exists>i t'. first_none (slots t) = Some i \<and> alloc v t = (t', Some i) \<and> ok t'
        \<and> slots t' = (slots t)[i := Some (entry v i)])"
proof (cases "first_none (slots t)")
  case None
  then have "live (slots t) = length (slots t)" by (simp add: live_full)
  then show ?thesis using assms alloc_full [of t v] None by (simp add: ok_def)
next
  case (Some i)
  have "live (slots t) \<noteq> length (slots t)" using Some live_full [of "slots t"] by simp
  then have "count_of t < cap" using assms live_le [of "slots t"] by (simp add: ok_def)
  then obtain t' where t': "alloc v t = (t', Some i)" "slots t' = (slots t)[i := Some (entry v i)]"
      "count_of t' = count_of t + 1"
    using alloc_room [OF _ _ Some] assms by (auto simp: ok_def)
  then have "ok t'"
    using assms live_update [of i "slots t" "Some (entry v i)"] first_none_Some [OF Some] by (simp add: ok_def)
  then show ?thesis using Some t' by blast
qed

lemma release_ok:
  assumes "ok t"
  shows "ok (release i t) \<and> slots (release i t) = (slots t)[i := None]"
proof (cases "i < cap \<and> slots t ! i \<noteq> None")
  case True
  then show ?thesis
    using assms release_live [of t i] live_update [of i "slots t" None] by (auto simp: ok_def)
next
  case False
  then have "cap \<le> i \<or> slots t ! i = None" by auto
  then show ?thesis
    using assms release_other [of i t] by (metis list_update_beyond list_update_id ok_def)
qed

lemma alloc_fresh:
  assumes "ok t" "alloc v t = (t', Some i)"
  shows "slots t ! i = None \<and> i < cap \<and> slots t' ! i = Some (entry v i)
    \<and> (\<forall>j. j \<noteq> i \<longrightarrow> slots t' ! j = slots t ! j)"
  using alloc_cases [OF assms(1), of v] assms first_none_Some [of "slots t"] by (auto simp: ok_def)

lemma alloc_first:
  assumes "ok t" "alloc v t = (t', Some i)" "j < i" shows "slots t ! j \<noteq> None"
  using alloc_cases [OF assms(1), of v] assms(2,3) first_none_Some [of "slots t" i] by auto

lemma alloc_fails_iff_full:
  assumes "ok t"
  shows "snd (alloc v t) = None \<longleftrightarrow> count_of t = cap"
  using alloc_cases [OF assms, of v] assms live_full [of "slots t"] by (auto simp: ok_def)

lemma alloc_release:
  assumes "ok t" "alloc v t = (t', Some i)"
  shows "slots (release i t') = slots t \<and> count_of (release i t') = count_of t"
  using alloc_cases [OF assms(1), of v] assms release_ok [of t' i] first_none_Some [of "slots t" i]
  by (auto simp: ok_def) (metis list_update_id list_update_overwrite)+

end

end
