(* ===== verification/Service.thy ===== *)
theory Service
  imports Slot_Table
begin

text \<open>
  The service table, \<^verbatim>\<open>kernel/src/service.rs\<close>: 32 optional services, each with the bounded
  lists of MMIO mappings, IRQ vectors and DMA buffers it holds. The table interprets the
  slot-table contract; the resource lists are shown to hold exactly what was tracked.
\<close>

section \<open>State\<close>

definition MAX_SERVICES :: nat where "MAX_SERVICES = 32"
definition MAX_MMIO :: nat where "MAX_MMIO = 16"
definition MAX_IRQ :: nat where "MAX_IRQ = 8"
definition MAX_DMA :: nat where "MAX_DMA = 8"

datatype service_state = Loaded | SvcRunning | Crashed | Restarting | Stopped

datatype restart_policy = Always | OnFailure u32 | Never

record service_resources =
  mmio :: "(u64 \<times> u64 \<times> u64) list"
  mmio_count :: nat
  irq :: "u8 list"
  irq_count :: nat
  dma :: "(u64 \<times> u64) list"
  dma_count :: nat

definition resources_empty :: service_resources where
  "resources_empty = \<lparr> mmio = replicate MAX_MMIO (0, 0, 0), mmio_count = 0,
     irq = replicate MAX_IRQ 0, irq_count = 0, dma = replicate MAX_DMA (0, 0), dma_count = 0 \<rparr>"

record service =
  svc_id :: nat
  svc_name :: "u8 list"
  svc_state :: service_state
  svc_vcpu_id :: nat
  svc_pml4 :: u64
  svc_resources :: service_resources
  svc_restart_policy :: restart_policy
  svc_restart_count :: u32

section \<open>Resources of a service\<close>

definition track_mmio :: "service \<Rightarrow> u64 \<Rightarrow> u64 \<Rightarrow> u64 \<Rightarrow> service \<times> bool" where
  "track_mmio s phys virt pages =
     (let r = svc_resources s; idx = mmio_count r in
      if MAX_MMIO \<le> idx then (s, False)
      else (s\<lparr> svc_resources := r\<lparr> mmio := (mmio r)[idx := (phys, virt, pages)], mmio_count := idx + 1 \<rparr> \<rparr>, True))"

definition track_irq :: "service \<Rightarrow> u8 \<Rightarrow> service \<times> bool" where
  "track_irq s vector =
     (let r = svc_resources s; idx = irq_count r in
      if MAX_IRQ \<le> idx then (s, False)
      else (s\<lparr> svc_resources := r\<lparr> irq := (irq r)[idx := vector], irq_count := idx + 1 \<rparr> \<rparr>, True))"

definition track_dma :: "service \<Rightarrow> u64 \<Rightarrow> u64 \<Rightarrow> service \<times> bool" where
  "track_dma s phys pages =
     (let r = svc_resources s; idx = dma_count r in
      if MAX_DMA \<le> idx then (s, False)
      else (s\<lparr> svc_resources := r\<lparr> dma := (dma r)[idx := (phys, pages)], dma_count := idx + 1 \<rparr> \<rparr>, True))"

definition untrack_dma :: "service \<Rightarrow> u64 \<Rightarrow> service \<times> bool" where
  "untrack_dma s phys =
     (let r = svc_resources s in
      case find (\<lambda>i. fst (dma r ! i) = phys) [0..<dma_count r] of
        None \<Rightarrow> (s, False)
      | Some i \<Rightarrow>
          let last = dma_count r - 1;
              d = ((dma r)[i := dma r ! last])[last := (0, 0)]
          in (s\<lparr> svc_resources := r\<lparr> dma := d, dma_count := last \<rparr> \<rparr>, True))"

definition clear_resources :: "service \<Rightarrow> service" where
  "clear_resources s = s\<lparr> svc_resources := resources_empty \<rparr>"

section \<open>The table\<close>

record service_table =
  svc_entries :: "service option list"
  svc_count :: nat

definition service_boot :: service_table where
  "service_boot = \<lparr> svc_entries = replicate MAX_SERVICES None, svc_count = 0 \<rparr>"

definition service_init :: "service_table \<Rightarrow> service_table" where
  "service_init t = t\<lparr> svc_count := 0 \<rparr>"

definition entry_name :: "u8 list \<Rightarrow> u8 list" where
  "entry_name name = (let len = min (length name) 31 in take len name @ replicate (32 - len) 0)"

definition new_service :: "u8 list \<Rightarrow> u64 \<Rightarrow> nat \<Rightarrow> service" where
  "new_service name pml4 i = \<lparr> svc_id = i, svc_name = entry_name name, svc_state = Loaded,
     svc_vcpu_id = 0, svc_pml4 = pml4, svc_resources = resources_empty,
     svc_restart_policy = OnFailure 3, svc_restart_count = 0 \<rparr>"

definition service_alloc :: "service_table \<Rightarrow> u8 list \<Rightarrow> u64 \<Rightarrow> service_table \<times> nat option" where
  "service_alloc t name pml4 =
     (if MAX_SERVICES \<le> svc_count t then (t, None)
      else case find (\<lambda>i. svc_entries t ! i = None) [0..<MAX_SERVICES] of
             None \<Rightarrow> (t, None)
           | Some i \<Rightarrow>
               (t\<lparr> svc_entries := (svc_entries t)[i := Some (new_service name pml4 i)],
                   svc_count := svc_count t + 1 \<rparr>, Some i))"

definition service_free :: "service_table \<Rightarrow> nat \<Rightarrow> service_table" where
  "service_free t i =
     (if i < MAX_SERVICES \<and> svc_entries t ! i \<noteq> None
      then t\<lparr> svc_entries := (svc_entries t)[i := None], svc_count := svc_count t - 1 \<rparr>
      else t)"

definition service_get :: "service_table \<Rightarrow> nat \<Rightarrow> service option" where
  "service_get t i = (if i < MAX_SERVICES then svc_entries t ! i else None)"

definition service_with_mut :: "service_table \<Rightarrow> nat \<Rightarrow> (service option \<Rightarrow> service option \<times> 'r)
    \<Rightarrow> service_table \<times> 'r" where
  "service_with_mut t i f =
     (if i < MAX_SERVICES then
        case f (svc_entries t ! i) of (e, r) \<Rightarrow> (t\<lparr> svc_entries := (svc_entries t)[i := e] \<rparr>, r)
      else (t, snd (f None)))"

definition service_find_by_vcpu :: "service_table \<Rightarrow> nat \<Rightarrow> nat option" where
  "service_find_by_vcpu t v =
     find (\<lambda>i. case svc_entries t ! i of None \<Rightarrow> False | Some s \<Rightarrow> svc_vcpu_id s = v)
       [0..<length (svc_entries t)]"

definition name_matches :: "service \<Rightarrow> u8 list \<Rightarrow> bool" where
  "name_matches s name =
     (let len = min (length name) 31 in
      take len (svc_name s) = take len name \<and> (len = 31 \<or> svc_name s ! len = 0))"

definition service_find_by_name :: "service_table \<Rightarrow> u8 list \<Rightarrow> nat option" where
  "service_find_by_name t name =
     find (\<lambda>i. case svc_entries t ! i of None \<Rightarrow> False | Some s \<Rightarrow> name_matches s name)
       [0..<length (svc_entries t)]"

definition service_count :: "service_table \<Rightarrow> nat" where
  "service_count t = svc_count t"

interpretation svc: slot_table svc_entries svc_count MAX_SERVICES
  "\<lambda>(name, pml4) t. service_alloc t name pml4" "\<lambda>(name, pml4). new_service name pml4"
  "\<lambda>i t. service_free t i"
  by unfold_locales (auto simp: service_alloc_def service_free_def first_none_def)

lemma service_boot_ok: "svc.ok service_boot"
  by (simp add: svc.ok_def service_boot_def)

lemma new_service_matches: "name_matches (new_service name pml4 i) name"
  by (auto simp: name_matches_def new_service_def entry_name_def Let_def nth_append)

definition service_ok :: "service_table \<Rightarrow> bool" where
  "service_ok t \<longleftrightarrow> length (svc_entries t) = MAX_SERVICES \<and> svc_count t = live (svc_entries t)"

lemma service_ok_iff: "svc.ok t = service_ok t"
  by (simp add: svc.ok_def service_ok_def)

text \<open>C19. Life of a service: \<^verbatim>\<open>alloc\<close> takes the first free slot of a well-formed table (every slot
  below it is occupied), the other slots stay, the count is one more, and the table stays
  well formed; if no service already in the table matches the name, \<^verbatim>\<open>find_by_name\<close> then
  finds the new service, also for a name longer than the 31 stored bytes; \<^verbatim>\<open>free\<close> gives back the table as it was. \<^verbatim>\<open>alloc\<close> fails only on a full
  table.\<close>

theorem service_lifecycle:
  assumes "service_ok t"
  shows "case service_alloc t name pml4 of
      (t', None) \<Rightarrow> t' = t \<and> service_count t = MAX_SERVICES
    | (t', Some i) \<Rightarrow> service_ok t' \<and> i < MAX_SERVICES \<and> service_get t i = None
        \<and> (\<forall>j<i. service_get t j \<noteq> None)
        \<and> service_get t' i = Some (new_service name pml4 i)
        \<and> (\<forall>j. j \<noteq> i \<longrightarrow> service_get t' j = service_get t j)
        \<and> service_count t' = service_count t + 1 \<and> service_free t' i = t
        \<and> ((\<forall>j s. service_get t j = Some s \<longrightarrow> \<not> name_matches s name) \<longrightarrow>
             service_find_by_name t' name = Some i)"
proof -
  have ok: "svc.ok t" using assms by (simp add: service_ok_iff)
  obtain t' r where al: "service_alloc t name pml4 = (t', r)" by fastforce
  show ?thesis
  proof (cases r)
    case None
    then show ?thesis
      using svc.alloc_cases [OF ok, of "(name, pml4)"] svc.alloc_fails_iff_full [OF ok, of "(name, pml4)"] al
      by (auto simp: service_count_def)
  next
    case (Some i)
    let ?n = "new_service name pml4 i"
    have al': "(case (name, pml4) of (name, pml4) \<Rightarrow> \<lambda>t. service_alloc t name pml4) t = (t', Some i)"
      using al Some by simp
    note fresh = svc.alloc_fresh [OF ok al'] and rel = svc.alloc_release [OF ok al']
      and first = svc.alloc_first [OF ok al']
    have ok': "service_ok t'"
      using svc.alloc_cases [OF ok, of "(name, pml4)"] al' by (auto simp: service_ok_iff)
    have cnt: "svc_count t' = svc_count t + 1"
      using al Some by (auto simp: service_alloc_def split: if_splits option.splits)
    have "service_find_by_name t' name = Some i" if none: "\<forall>j s. service_get t j = Some s \<longrightarrow> \<not> name_matches s name"
    proof -
      have "i < length (svc_entries t')" using fresh ok' by (simp add: service_ok_def)
      moreover have "\<not> (case svc_entries t' ! j of None \<Rightarrow> False | Some s \<Rightarrow> name_matches s name)"
        if "j < length (svc_entries t')" "j \<noteq> i" for j
        using that none [rule_format, of j] fresh ok'
        by (auto simp: service_ok_def service_get_def split: option.splits)
      ultimately show ?thesis
        using fresh new_service_matches [of name pml4 i] unfolding service_find_by_name_def find_Some_iff
        by (intro exI [of _ i]) auto
    qed
    moreover have "service_free t' i = t"
      using rel by (cases t; cases "service_free t' i") simp
    ultimately show ?thesis
      using al Some fresh first ok' cnt by (auto simp: service_get_def service_count_def)
  qed
qed

theorem service_lifecycle_witness:
  "service_ok service_boot \<and> (case service_alloc service_boot [97, 104, 99, 105] 0x1000 of
      (t', None) \<Rightarrow> t' = service_boot \<and> service_count service_boot = MAX_SERVICES
    | (t', Some i) \<Rightarrow> service_ok t' \<and> i < MAX_SERVICES \<and> service_get service_boot i = None
        \<and> (\<forall>j<i. service_get service_boot j \<noteq> None)
        \<and> service_get t' i = Some (new_service [97, 104, 99, 105] 0x1000 i)
        \<and> (\<forall>j. j \<noteq> i \<longrightarrow> service_get t' j = service_get service_boot j)
        \<and> service_count t' = service_count service_boot + 1 \<and> service_free t' i = service_boot
        \<and> ((\<forall>j s. service_get service_boot j = Some s \<longrightarrow> \<not> name_matches s [97, 104, 99, 105]) \<longrightarrow>
             service_find_by_name t' [97, 104, 99, 105] = Some i))"
proof (rule conjI)
  show ok: "service_ok service_boot" using service_boot_ok by (simp add: service_ok_iff)
qed (rule service_lifecycle [OF service_boot_ok [unfolded service_ok_iff]])

section \<open>Tracked DMA buffers\<close>

definition dma_list :: "service \<Rightarrow> (u64 \<times> u64) list" where
  "dma_list s = take (dma_count (svc_resources s)) (dma (svc_resources s))"

definition dma_ok :: "service \<Rightarrow> bool" where
  "dma_ok s \<longleftrightarrow> length (dma (svc_resources s)) = MAX_DMA \<and> dma_count (svc_resources s) \<le> MAX_DMA"

lemma track_dma_list:
  assumes "dma_ok s"
  shows "case track_dma s phys pages of
      (s', True) \<Rightarrow> dma_ok s' \<and> dma_list s' = dma_list s @ [(phys, pages)]
    | (s', False) \<Rightarrow> s' = s \<and> length (dma_list s) = MAX_DMA"
  using assms by (auto simp: track_dma_def dma_ok_def dma_list_def Let_def take_Suc_conv_app_nth)

lemma swap_remove_mset:
  assumes "i < n" "n \<le> length xs"
  shows "mset (take n xs) = add_mset (xs ! i) (mset (take (n - 1) ((xs[i := xs ! (n - 1)])[n - 1 := z])))"
proof -
  have n: "n - 1 < length xs" "0 < n" using assms by auto
  have "take n xs = take (n - 1) xs @ [xs ! (n - 1)]"
    using take_Suc_conv_app_nth [OF n(1)] n(2) by simp
  moreover have "take (n - 1) ((xs[i := xs ! (n - 1)])[n - 1 := z]) = (take (n - 1) xs)[i := xs ! (n - 1)]"
    by (simp add: take_update_swap list_update_beyond)
  moreover have "mset ((take (n - 1) xs)[i := xs ! (n - 1)])
      = add_mset (xs ! (n - 1)) (mset (take (n - 1) xs) - {# xs ! i #})" if "i < n - 1"
    using that n by (subst mset_update) auto
  moreover have "xs ! i \<in># mset (take (n - 1) xs)" if "i < n - 1"
    using that n by (auto simp: in_set_conv_nth intro: exI [of _ i])
  moreover have "i = n - 1" if "\<not> i < n - 1" using assms(1) that by linarith
  ultimately show ?thesis by (cases "i < n - 1") auto
qed

lemma untrack_dma_list:
  assumes "dma_ok s"
  shows "case untrack_dma s phys of
      (s', True) \<Rightarrow> dma_ok s' \<and> (\<exists>pages. mset (dma_list s) = add_mset (phys, pages) (mset (dma_list s')))
    | (s', False) \<Rightarrow> s' = s \<and> phys \<notin> fst ` set (dma_list s)"
proof -
  let ?r = "svc_resources s"
  show ?thesis
  proof (cases "find (\<lambda>i. fst (dma ?r ! i) = phys) [0..<dma_count ?r]")
    case None
    then have "\<forall>i<dma_count ?r. fst (dma ?r ! i) \<noteq> phys" by (auto simp: find_None_iff)
    then have "phys \<notin> fst ` set (dma_list s)"
      using assms by (fastforce simp: dma_list_def dma_ok_def in_set_conv_nth)
    then show ?thesis using None by (simp add: untrack_dma_def Let_def)
  next
    case (Some i)
    then have i: "i < dma_count ?r" "fst (dma ?r ! i) = phys" by (auto simp: find_Some_iff)
    have "dma_count ?r \<le> length (dma ?r)" using assms by (simp add: dma_ok_def)
    note swap = swap_remove_mset [OF i(1) this, of "(0, 0)"]
    define s' where "s' = fst (untrack_dma s phys)"
    have s': "untrack_dma s phys = (s', True)" "dma_ok s'"
      using Some assms by (auto simp: s'_def untrack_dma_def Let_def dma_ok_def)
    have "dma_list s' = take (dma_count ?r - 1) (((dma ?r)[i := dma ?r ! (dma_count ?r - 1)])[dma_count ?r - 1 := (0, 0)])"
      using Some by (simp add: s'_def untrack_dma_def Let_def dma_list_def)
    moreover have "dma ?r ! i = (phys, snd (dma ?r ! i))" using i(2) by (cases "dma ?r ! i") simp
    ultimately have "mset (dma_list s) = add_mset (phys, snd (dma ?r ! i)) (mset (dma_list s'))"
      using swap by (simp add: dma_list_def)
    then show ?thesis using s' by auto
  qed
qed

end
