(* ===== verification/Virt.thy ===== *)
theory Virt
  imports Phys Percpu
begin

text \<open>
  Page tables, \<^verbatim>\<open>kernel/src/mm/virt.rs\<close>. Physical memory is a function from the byte address
  of an 8-byte word to its value; entry \<open>i\<close> of the table at \<open>t\<close> is the word at \<open>t + 8 i\<close>.
  The kernel reaches tables through the higher-half direct map, so an access to a table is
  an access to its physical words. Table pages come from the physical allocator. Each
  operation is one sequential transformer: the compare-exchange loops of \<^verbatim>\<open>ensure_table\<close> run
  without interference from other CPUs. TLB flushes and inter-processor interrupts are
  recorded in a log. \<open>va_valid\<close> stands for the addresses \<^verbatim>\<open>VirtAddr::new\<close> of the
  \<^verbatim>\<open>x86_64\<close> crate accepts; it aborts on the others.
\<close>

section \<open>Constants and state\<close>

definition PHYS_ADDR_MASK :: u64 where "PHYS_ADDR_MASK = 0x000FFFFFFFFFF000"
definition PRESENT :: u64 where "PRESENT = 1"
definition WRITABLE :: u64 where "WRITABLE = 2"
definition USER :: u64 where "USER = 4"
definition CACHE_DISABLE :: u64 where "CACHE_DISABLE = 0x10"
definition HUGE :: u64 where "HUGE = 0x80"
definition COW :: u64 where "COW = 0x800"
definition NO_EXECUTE :: u64 where "NO_EXECUTE = 0x8000000000000000"
definition DATA :: u64 where "DATA = PRESENT OR WRITABLE OR NO_EXECUTE"
definition CODE :: u64 where "CODE = PRESENT OR WRITABLE"
definition ENTRY_FLAG_MASK :: u64 where "ENTRY_FLAG_MASK = NO_EXECUTE OR 0xFFF"
definition DIRECT_MAP_SIZE :: u64 where "DIRECT_MAP_SIZE = 0x0000800000000000"
definition USER_IMAGE_BASE :: u64 where "USER_IMAGE_BASE = 0x20000000"
definition HIGHER_HALF :: u64 where "HIGHER_HALF = 0xFFFF800000000000"
definition KATERM_STACK_VIRT :: u64 where "KATERM_STACK_VIRT = 0xFFFFF00000000000"

datatype tlb_event = FlushLocal u64 | SendIpi | ReloadCr3

record vm =
  vphys :: phys_state
  mem :: "u64 \<Rightarrow> u64"
  kernel_pml4 :: u64
  pt_initialized :: bool
  cr3 :: u64
  katerm_stack_top :: u64
  cpus :: cpu_table
  this_apic :: u32
  tlb_log :: "tlb_event list"
  va_valid :: "u64 \<Rightarrow> bool"

definition read_word :: "vm \<Rightarrow> u64 \<Rightarrow> u64" where
  "read_word s a = mem s a"

definition write_word :: "vm \<Rightarrow> u64 \<Rightarrow> u64 \<Rightarrow> vm" where
  "write_word s a v = s\<lparr> mem := (mem s)(a := v) \<rparr>"

definition entry_addr :: "u64 \<Rightarrow> nat \<Rightarrow> u64" where
  "entry_addr t i = t + 8 * of_nat i"

text \<open>The effect of a loop that writes \<open>f i\<close> to every entry of the table at \<open>t\<close>.\<close>

definition fill_table :: "(u64 \<Rightarrow> u64) \<Rightarrow> u64 \<Rightarrow> (nat \<Rightarrow> u64) \<Rightarrow> u64 \<Rightarrow> u64" where
  "fill_table m t f = (\<lambda>a. let d = a - t in
     if d < 0x1000 \<and> d mod 8 = 0 then f (unat (d div 8)) else m a)"

definition new_zeroed :: "vm \<Rightarrow> u64 \<Rightarrow> vm" where
  "new_zeroed s t = s\<lparr> mem := fill_table (mem s) t (\<lambda>_. 0) \<rparr>"

section \<open>TLB maintenance\<close>

definition tlb_flush :: "vm \<Rightarrow> u64 \<Rightarrow> vm option" where
  "tlb_flush s a = (if va_valid s a then Some (s\<lparr> tlb_log := tlb_log s @ [FlushLocal a] \<rparr>) else None)"

definition send_ipi_others :: "vm \<Rightarrow> vm" where
  "send_ipi_others s = s\<lparr> tlb_log := tlb_log s @ [SendIpi] \<rparr>"

definition set_pending_flush :: "cpu_table \<Rightarrow> nat \<Rightarrow> u64 \<Rightarrow> cpu_table" where
  "set_pending_flush c cpu addr =
     (let prev = pending_tlb_flush (percpu c ! cpu);
          c' = set_cpu c cpu (pending_tlb_flush_update (\<lambda>_. addr))
      in if prev \<noteq> 0 \<and> prev \<noteq> addr \<and> prev \<noteq> - 1
         then set_cpu c' cpu (pending_tlb_flush_update (\<lambda>_. - 1)) else c')"

fun flush_others :: "cpu_table \<Rightarrow> nat \<Rightarrow> u64 \<Rightarrow> nat list \<Rightarrow> cpu_table" where
  "flush_others c cpu addr [] = c"
| "flush_others c cpu addr (i # rest) =
     flush_others (if i \<noteq> cpu \<and> is_online c i then set_pending_flush c i addr else c) cpu addr rest"

definition tlb_shootdown :: "vm \<Rightarrow> u64 \<Rightarrow> vm option" where
  "tlb_shootdown s flush_addr = do {
     (c, cpu) \<leftarrow> apic_id_to_slot (cpus s) (this_apic s);
     s' \<leftarrow> tlb_flush (s\<lparr> cpus := flush_others c cpu flush_addr [0..<MAX_CPUS] \<rparr>) flush_addr;
     Some (send_ipi_others s')
   }"

definition flush_page_all :: "vm \<Rightarrow> u64 \<Rightarrow> vm option" where
  "flush_page_all s virt = tlb_shootdown s virt"

function flush_range :: "vm \<Rightarrow> u64 \<Rightarrow> u64 \<Rightarrow> vm option" where
  "flush_range s addr page_end =
     (if addr < page_end then
        (case tlb_flush s addr of
           None \<Rightarrow> None
         | Some s' \<Rightarrow> flush_range s' (saturating_add addr PAGE_SIZE) page_end)
      else Some s)"
  by pat_completeness auto
termination
proof (relation "measure (\<lambda>(s, addr, page_end). unat page_end - unat addr)", goal_cases)
  case (2 s addr page_end s')
  then have "unat addr < unat page_end" by (simp add: word_less_nat_alt)
  moreover have "unat page_end \<le> 2 ^ 64 - 1" using unat64_bound [of page_end] by simp
  ultimately have "unat addr < unat (saturating_add addr PAGE_SIZE)"
    by (simp add: saturating_add_unat PAGE_SIZE_def)
  with \<open>unat addr < unat page_end\<close> show ?case by simp
qed simp

declare flush_range.simps [simp del]

definition tlb_shootdown_range :: "vm \<Rightarrow> u64 \<Rightarrow> u64 \<Rightarrow> vm option" where
  "tlb_shootdown_range s start stop = do {
     e1 \<leftarrow> checked_add stop PAGE_SIZE;
     let page_start = align_down start PAGE_SIZE;
         page_end = align_down (e1 - 1) PAGE_SIZE;
         last_page = (if page_start < page_end then page_end - PAGE_SIZE else page_start)
     in do {
       (c, cpu) \<leftarrow> apic_id_to_slot (cpus s) (this_apic s);
       s' \<leftarrow> flush_range (s\<lparr> cpus := flush_others c cpu last_page [0..<MAX_CPUS] \<rparr>) page_start page_end;
       Some (send_ipi_others s')
     }
   }"

section \<open>Walking and extending a table\<close>

definition phys_to_virtual :: "u64 \<Rightarrow> u64 option" where
  "phys_to_virtual addr =
     (if HIGHER_HALF \<le> addr then Some (addr - HIGHER_HALF)
      else let phys = addr AND PHYS_ADDR_MASK
           in if DIRECT_MAP_SIZE \<le> phys then None else Some phys)"

definition is_table_empty :: "vm \<Rightarrow> u64 \<Rightarrow> bool" where
  "is_table_empty s t = list_all (\<lambda>i. mem s (entry_addr t i) = 0) [0..<512]"

definition index_for_addr :: "u64 \<Rightarrow> nat \<Rightarrow> nat" where
  "index_for_addr virt level = unat (drop_bit (12 + level * 9) virt AND 0x1FF)"

definition vm_alloc_page :: "vm \<Rightarrow> (vm \<times> u64 option) option" where
  "vm_alloc_page s = do { (p, r) \<leftarrow> alloc_page (vphys s); Some (s\<lparr> vphys := p \<rparr>, r) }"

definition vm_free_page :: "vm \<Rightarrow> u64 \<Rightarrow> vm option" where
  "vm_free_page s a = do { p \<leftarrow> free_page (vphys s) a; Some (s\<lparr> vphys := p \<rparr>) }"

definition split_entry :: "u64 \<Rightarrow> u64 \<Rightarrow> nat \<Rightarrow> (nat \<Rightarrow> u64) option" where
  "split_entry entry flags level =
     (let orig_flags = (entry AND NO_EXECUTE) OR ((entry AND 0xFFF) AND NOT (1 OR HUGE));
          child_flags = (if entry AND USER \<noteq> 0 then flags AND USER else 0)
      in if level = 2 then
           let base = entry AND 0x000FFFC000000000
           in Some (\<lambda>i. (base + of_nat i * 0x200000) OR orig_flags OR child_flags OR HUGE)
         else if level = 1 \<or> level = 0 then
           let base = entry AND 0x000FFFFFFE000000
           in Some (\<lambda>i. (base + of_nat i * 0x1000) OR orig_flags OR child_flags)
         else None)"

definition ensure_present :: "vm \<Rightarrow> u64 \<Rightarrow> u64 \<Rightarrow> vm option" where
  "ensure_present s ea flags =
     (if mem s ea AND PRESENT = 0 then do {
        (s1, r) \<leftarrow> vm_alloc_page s;
        page \<leftarrow> r;
        pt \<leftarrow> phys_to_virtual page;
        Some (write_word (new_zeroed s1 pt) ea (page OR flags OR PRESENT))
      } else Some s)"

definition ensure_split :: "vm \<Rightarrow> u64 \<Rightarrow> u64 \<Rightarrow> nat \<Rightarrow> u64 \<Rightarrow> vm option" where
  "ensure_split s ea flags level addr =
     (if mem s ea AND HUGE \<noteq> 0 then do {
        (s1, r) \<leftarrow> vm_alloc_page s;
        new_page \<leftarrow> r;
        new_table \<leftarrow> phys_to_virtual new_page;
        f \<leftarrow> split_entry (mem s ea) flags level;
        let s2 = (new_zeroed s1 new_table);
            s3 = s2\<lparr> mem := fill_table (mem s2) new_table f \<rparr>;
            s4 = write_word s3 ea (new_page OR flags OR PRESENT)
        in tlb_flush s4 (addr AND NOT (push_bit (12 + level * 9) 1 - 1))
      } else Some s)"

definition ensure_table :: "vm \<Rightarrow> u64 \<Rightarrow> u64 \<Rightarrow> nat \<Rightarrow> u64 \<Rightarrow> (vm \<times> u64) option" where
  "ensure_table s ea flags level addr = do {
     s1 \<leftarrow> ensure_present s ea flags;
     s2 \<leftarrow> ensure_split s1 ea flags level addr;
     Some (s2, mem s2 ea AND PHYS_ADDR_MASK)
   }"

definition or_entry :: "vm \<Rightarrow> u64 \<Rightarrow> u64 \<Rightarrow> vm" where
  "or_entry s ea bits = write_word s ea (mem s ea OR bits)"

definition map_page :: "vm \<Rightarrow> u64 \<Rightarrow> u64 \<Rightarrow> u64 \<Rightarrow> u64 \<Rightarrow> vm option" where
  "map_page s pml4 virt phys flags =
     (let table_flags = WRITABLE OR (flags AND USER);
          e4 = entry_addr pml4 (index_for_addr virt 3)
      in do {
        (s, pdp_phys) \<leftarrow> ensure_table s e4 table_flags 2 virt;
        let s = or_entry s e4 (flags AND USER) in do {
        pdp \<leftarrow> phys_to_virtual pdp_phys;
        let e3 = entry_addr pdp (index_for_addr virt 2) in do {
        (s, pd_phys) \<leftarrow> ensure_table s e3 table_flags 1 virt;
        let s = or_entry s e3 (flags AND USER) in do {
        pd \<leftarrow> phys_to_virtual pd_phys;
        let e2 = entry_addr pd (index_for_addr virt 1) in do {
        (s, pt_phys) \<leftarrow> ensure_table s e2 table_flags 0 virt;
        let s = or_entry s e2 (flags AND USER) in do {
        pt \<leftarrow> phys_to_virtual pt_phys;
        Some (write_word s (entry_addr pt (index_for_addr virt 0)) (phys OR flags))
      }}}}}})"

section \<open>Reading and changing mappings\<close>

definition has :: "u64 \<Rightarrow> u64 \<Rightarrow> bool" where
  "has entry flag \<longleftrightarrow> entry AND flag \<noteq> 0"

definition is_nx :: "vm \<Rightarrow> u64 \<Rightarrow> u64 \<Rightarrow> bool option" where
  "is_nx s pml4 virt = do {
     t4 \<leftarrow> phys_to_virtual (pml4 AND PHYS_ADDR_MASK);
     let e4 = mem s (entry_addr t4 (index_for_addr virt 3)) in
     if \<not> has e4 PRESENT then Some True
     else if has e4 HUGE then Some (has e4 NO_EXECUTE)
     else do {
       t3 \<leftarrow> phys_to_virtual (e4 AND PHYS_ADDR_MASK);
       let e3 = mem s (entry_addr t3 (index_for_addr virt 2)) in
       if \<not> has e3 PRESENT then Some True
       else if has e3 HUGE then Some (has e3 NO_EXECUTE)
       else do {
         t2 \<leftarrow> phys_to_virtual (e3 AND PHYS_ADDR_MASK);
         let e2 = mem s (entry_addr t2 (index_for_addr virt 1)) in
         if \<not> has e2 PRESENT then Some True
         else if has e2 HUGE then Some (has e2 NO_EXECUTE)
         else do {
           t1 \<leftarrow> phys_to_virtual (e2 AND PHYS_ADDR_MASK);
           let e1 = mem s (entry_addr t1 (index_for_addr virt 0)) in
           if \<not> has e1 PRESENT then Some True else Some (has e1 NO_EXECUTE)
         }
       }
     }
   }"

definition translate :: "vm \<Rightarrow> u64 \<Rightarrow> u64 option option" where
  "translate s virt =
     (if \<not> pt_initialized s then Some None
      else do {
        pml4 \<leftarrow> phys_to_virtual (cr3 s AND PHYS_ADDR_MASK);
        let pdp_entry = mem s (entry_addr pml4 (index_for_addr virt 3)) in
        if \<not> has pdp_entry PRESENT then Some None
        else if has pdp_entry HUGE
        then Some (Some ((pdp_entry AND 0x000FFFC000000000) OR (virt AND 0x3FFFFFFF)))
        else do {
          pdp \<leftarrow> phys_to_virtual (pdp_entry AND PHYS_ADDR_MASK);
          let pd_entry = mem s (entry_addr pdp (index_for_addr virt 2)) in
          if \<not> has pd_entry PRESENT then Some None
          else if has pd_entry HUGE
          then Some (Some ((pd_entry AND 0x000FFFFFFE000000) OR (virt AND 0x1FFFFF)))
          else do {
            pd \<leftarrow> phys_to_virtual (pd_entry AND PHYS_ADDR_MASK);
            let pt_phys = mem s (entry_addr pd (index_for_addr virt 1)) in
            if \<not> has pt_phys PRESENT then Some None
            else do {
              pt \<leftarrow> phys_to_virtual (pt_phys AND PHYS_ADDR_MASK);
              let page_entry = mem s (entry_addr pt (index_for_addr virt 0)) in
              if \<not> has page_entry PRESENT then Some None
              else Some (Some ((page_entry AND PHYS_ADDR_MASK) OR (virt AND 0xFFF)))
            }
          }
        }
      })"

text \<open>The walk that \<^verbatim>\<open>read_pte\<close>, \<^verbatim>\<open>write_pte\<close>, \<^verbatim>\<open>unmap\<close> and \<^verbatim>\<open>unmap_from_huge_page\<close> share: the
  address of the leaf entry, or \<open>None\<close> inside when the walk meets an absent entry or a huge
  page in the first two levels.\<close>

definition pte_walk :: "vm \<Rightarrow> u64 \<Rightarrow> u64 \<Rightarrow> u64 option option" where
  "pte_walk s pml4_phys virt = do {
     pml4 \<leftarrow> phys_to_virtual (pml4_phys AND PHYS_ADDR_MASK);
     let pdp_entry = mem s (entry_addr pml4 (index_for_addr virt 3)) in
     if \<not> has pdp_entry PRESENT \<or> has pdp_entry HUGE then Some None
     else do {
       pdp \<leftarrow> phys_to_virtual (pdp_entry AND PHYS_ADDR_MASK);
       let pd_entry = mem s (entry_addr pdp (index_for_addr virt 2)) in
       if \<not> has pd_entry PRESENT \<or> has pd_entry HUGE then Some None
       else do {
         pd \<leftarrow> phys_to_virtual (pd_entry AND PHYS_ADDR_MASK);
         let pt_phys = mem s (entry_addr pd (index_for_addr virt 1)) in
         if \<not> has pt_phys PRESENT then Some None
         else do {
           pt \<leftarrow> phys_to_virtual (pt_phys AND PHYS_ADDR_MASK);
           Some (Some (entry_addr pt (index_for_addr virt 0)))
         }
       }
     }
   }"

definition read_pte :: "vm \<Rightarrow> u64 \<Rightarrow> u64 \<Rightarrow> u64 option option" where
  "read_pte s pml4_phys virt = map_option (map_option (mem s)) (pte_walk s pml4_phys virt)"

definition write_pte :: "vm \<Rightarrow> u64 \<Rightarrow> u64 \<Rightarrow> u64 \<Rightarrow> (vm \<times> bool) option" where
  "write_pte s pml4_phys virt new_pte = do {
     r \<leftarrow> pte_walk s pml4_phys virt;
     (case r of
        None \<Rightarrow> Some (s, False)
      | Some ea \<Rightarrow> do { s' \<leftarrow> tlb_flush (write_word s ea new_pte) virt; Some (s', True) })
   }"

definition tlb_flush_and_shootdown :: "vm \<Rightarrow> u64 \<Rightarrow> vm option" where
  "tlb_flush_and_shootdown s a = do { s' \<leftarrow> tlb_flush s a; tlb_shootdown s' a }"

fun free_list_pages :: "vm \<Rightarrow> u64 list \<Rightarrow> vm option" where
  "free_list_pages s [] = Some s"
| "free_list_pages s (a # rest) =
     (if a \<noteq> 0 then do { s' \<leftarrow> vm_free_page s a; free_list_pages s' rest }
      else free_list_pages s rest)"

definition unmap :: "vm \<Rightarrow> u64 \<Rightarrow> vm option" where
  "unmap s virt =
     (if \<not> pt_initialized s then Some s
      else do {
        pml4 \<leftarrow> phys_to_virtual (cr3 s AND PHYS_ADDR_MASK);
        let e4 = entry_addr pml4 (index_for_addr virt 3); pdp_entry = mem s e4 in
        if \<not> has pdp_entry PRESENT then Some s
        else if has pdp_entry HUGE then tlb_flush_and_shootdown (write_word s e4 0) virt
        else do {
          pdp \<leftarrow> phys_to_virtual (pdp_entry AND PHYS_ADDR_MASK);
          let e3 = entry_addr pdp (index_for_addr virt 2); pd_entry = mem s e3 in
          if \<not> has pd_entry PRESENT then Some s
          else if has pd_entry HUGE then tlb_flush_and_shootdown (write_word s e3 0) virt
          else do {
            pd \<leftarrow> phys_to_virtual (pd_entry AND PHYS_ADDR_MASK);
            let e2 = entry_addr pd (index_for_addr virt 1); pt_entry = mem s e2 in
            if \<not> has pt_entry PRESENT then Some s
            else do {
              pt \<leftarrow> phys_to_virtual (pt_entry AND PHYS_ADDR_MASK);
              let s1 = write_word s (entry_addr pt (index_for_addr virt 0)) 0;
                  empty0 = is_table_empty s1 pt;
                  s2 = (if empty0 then write_word s1 e2 0 else s1);
                  empty1 = (empty0 \<and> is_table_empty s2 pd);
                  s3 = (if empty1 then write_word s2 e3 0 else s2);
                  empty2 = (empty1 \<and> is_table_empty s3 pdp);
                  s4 = (if empty2 then write_word s3 e4 0 else s3)
              in do {
                s5 \<leftarrow> tlb_flush_and_shootdown s4 virt;
                free_list_pages s5
                  ((if empty0 then [pt_entry AND PHYS_ADDR_MASK] else [])
                   @ (if empty1 then [pd_entry AND PHYS_ADDR_MASK] else [])
                   @ (if empty2 then [pdp_entry AND PHYS_ADDR_MASK] else []))
              }
            }
          }
        }
      })"

definition unmap_from_huge_page :: "vm \<Rightarrow> u64 \<Rightarrow> vm option" where
  "unmap_from_huge_page s virt =
     (if \<not> pt_initialized s then Some s
      else do {
        pml4 \<leftarrow> phys_to_virtual (cr3 s AND PHYS_ADDR_MASK);
        let e4 = entry_addr pml4 (index_for_addr virt 3); pdp_entry = mem s e4 in
        if \<not> has pdp_entry PRESENT then Some s
        else if has pdp_entry HUGE then tlb_flush_and_shootdown (write_word s e4 0) virt
        else do {
          pdp \<leftarrow> phys_to_virtual (pdp_entry AND PHYS_ADDR_MASK);
          let e3 = entry_addr pdp (index_for_addr virt 2); pd_entry = mem s e3 in
          if \<not> has pd_entry PRESENT then Some s
          else if has pd_entry HUGE then
            let huge_phys_base = pd_entry AND PHYS_ADDR_MASK;
                huge_flags = (pd_entry AND ENTRY_FLAG_MASK) AND NOT HUGE
            in do {
              (s1, r) \<leftarrow> vm_alloc_page s;
              (case r of
                 None \<Rightarrow> Some s1
               | Some pt_page \<Rightarrow>
                   let s2 = new_zeroed s1 pt_page;
                       s3 = s2\<lparr> mem := fill_table (mem s2) pt_page
                                (\<lambda>i. (huge_phys_base + of_nat i * PAGE_SIZE) OR huge_flags) \<rparr>;
                       s4 = write_word s3 e3 (pt_page OR ((pd_entry AND ENTRY_FLAG_MASK) AND NOT HUGE))
                   in do {
                     pt \<leftarrow> phys_to_virtual pt_page;
                     tlb_flush_and_shootdown (write_word s4 (entry_addr pt (index_for_addr virt 0)) 0) virt
                   })
            }
          else do {
            pd \<leftarrow> phys_to_virtual (pd_entry AND PHYS_ADDR_MASK);
            let pt_entry = mem s (entry_addr pd (index_for_addr virt 1)) in
            if \<not> has pt_entry PRESENT then Some s
            else do {
              pt \<leftarrow> phys_to_virtual (pt_entry AND PHYS_ADDR_MASK);
              tlb_flush_and_shootdown (write_word s (entry_addr pt (index_for_addr virt 0)) 0) virt
            }
          }
        }
      })"

definition current_pml4 :: "vm \<Rightarrow> u64" where
  "current_pml4 s = cr3 s"

definition switch_pml4 :: "vm \<Rightarrow> u64 \<Rightarrow> vm" where
  "switch_pml4 s pml4_phys = s\<lparr> cr3 := align_down pml4_phys PAGE_SIZE, tlb_log := tlb_log s @ [ReloadCr3] \<rparr>"

definition map_page_explicit :: "vm \<Rightarrow> u64 \<Rightarrow> u64 \<Rightarrow> u64 \<Rightarrow> u64 \<Rightarrow> vm option" where
  "map_page_explicit s pml4_phys virt phys flags = do {
     old_pte \<leftarrow> read_pte s pml4_phys virt;
     let was_present = (case old_pte of None \<Rightarrow> False | Some p \<Rightarrow> has p PRESENT) in do {
       pml4 \<leftarrow> phys_to_virtual pml4_phys;
       s' \<leftarrow> map_page s pml4 virt phys flags;
       if was_present then tlb_shootdown s' virt else Some s'
     }
   }"

section \<open>Mapping ranges\<close>

fun map_pages_loop :: "vm \<Rightarrow> u64 \<Rightarrow> u64 \<Rightarrow> nat \<Rightarrow> u64 list \<Rightarrow> u64 \<Rightarrow> vm option" where
  "map_pages_loop s pml4 virt_start i [] flags = Some s"
| "map_pages_loop s pml4 virt_start i (phys_page # rest) flags = do {
     off \<leftarrow> checked_mul (of_nat i) PAGE_SIZE;
     virt \<leftarrow> checked_add virt_start off;
     s' \<leftarrow> map_page s pml4 virt phys_page flags;
     map_pages_loop s' pml4 virt_start (i + 1) rest flags
   }"

definition map_pages_from_phys :: "vm \<Rightarrow> u64 \<Rightarrow> u64 \<Rightarrow> u64 list \<Rightarrow> u64 \<Rightarrow> vm option" where
  "map_pages_from_phys s pml4_phys virt_start phys_pages flags = do {
     pml4 \<leftarrow> phys_to_virtual pml4_phys;
     map_pages_loop s pml4 virt_start 0 phys_pages flags
   }"

fun write_batch :: "vm \<Rightarrow> u64 \<Rightarrow> nat \<Rightarrow> u64 \<Rightarrow> u64 \<Rightarrow> nat list \<Rightarrow> vm option" where
  "write_batch s pt pt_idx phys flags [] = Some s"
| "write_batch s pt pt_idx phys flags (i # rest) = do {
     pa \<leftarrow> checked_add phys (of_nat i * PAGE_SIZE);
     write_batch (write_word s (entry_addr pt (pt_idx + i)) (pa OR flags)) pt pt_idx phys flags rest
   }"

definition map_batch :: "vm \<Rightarrow> u64 \<Rightarrow> u64 \<Rightarrow> u64 \<Rightarrow> nat \<Rightarrow> u64 \<Rightarrow> vm option" where
  "map_batch s pml4 virt phys batch flags =
     (let table_flags = WRITABLE OR (flags AND USER);
          e4 = entry_addr pml4 (index_for_addr virt 3)
      in do {
        (s, pdp_phys) \<leftarrow> ensure_table s e4 table_flags 2 virt;
        let s = or_entry s e4 (flags AND USER) in do {
        pdp \<leftarrow> phys_to_virtual pdp_phys;
        let e3 = entry_addr pdp (index_for_addr virt 2) in do {
        (s, pd_phys) \<leftarrow> ensure_table s e3 table_flags 1 virt;
        let s = or_entry s e3 (flags AND USER) in do {
        pd \<leftarrow> phys_to_virtual pd_phys;
        let e2 = entry_addr pd (index_for_addr virt 1) in do {
        (s, pt_phys) \<leftarrow> ensure_table s e2 table_flags 0 virt;
        let s = or_entry s e2 (flags AND USER) in do {
        pt \<leftarrow> phys_to_virtual pt_phys;
        write_batch s pt (index_for_addr virt 0) phys flags [0..<batch]
      }}}}}})"

lemma index_for_addr_less: "index_for_addr v l < 512"
proof -
  have "drop_bit (12 + l * 9) v AND 0x1FF \<le> 0x1FF" by (simp add: word_and_le1)
  then show ?thesis by (simp add: index_for_addr_def word_le_nat_alt)
qed

function map_contiguous_loop :: "vm \<Rightarrow> u64 \<Rightarrow> u64 \<Rightarrow> u64 \<Rightarrow> nat \<Rightarrow> u64 \<Rightarrow> vm option" where
  "map_contiguous_loop s pml4 virt phys remaining flags =
     (if 0 < remaining then
        let batch = min (512 - index_for_addr virt 0) remaining
        in case map_batch s pml4 virt phys batch flags of
             None \<Rightarrow> None
           | Some s' \<Rightarrow>
               (case (checked_add virt (of_nat batch * PAGE_SIZE), checked_add phys (of_nat batch * PAGE_SIZE)) of
                  (Some virt', Some phys') \<Rightarrow>
                    map_contiguous_loop s' pml4 virt' phys' (remaining - batch) flags
                | _ \<Rightarrow> None)
      else Some s)"
  by pat_completeness auto
termination
  by (relation "measure (\<lambda>(s, pml4, virt, phys, remaining, flags). remaining)")
    (auto simp: index_for_addr_less)

declare map_contiguous_loop.simps [simp del]

definition map_contiguous :: "vm \<Rightarrow> u64 \<Rightarrow> u64 \<Rightarrow> u64 \<Rightarrow> u64 \<Rightarrow> u64 \<Rightarrow> vm option" where
  "map_contiguous s pml4_phys virt_start phys_start num_pages flags =
     (if num_pages = 0 then Some s
      else do {
        map_len \<leftarrow> checked_mul num_pages PAGE_SIZE;
        _ \<leftarrow> checked_add virt_start (map_len - PAGE_SIZE);
        _ \<leftarrow> checked_add phys_start (map_len - PAGE_SIZE);
        pml4 \<leftarrow> phys_to_virtual pml4_phys;
        map_contiguous_loop s pml4 virt_start phys_start (unat num_pages) flags
      })"

fun map_region_loop :: "bool \<Rightarrow> vm \<Rightarrow> u64 \<Rightarrow> u64 \<Rightarrow> u64 \<Rightarrow> nat list \<Rightarrow> vm option" where
  "map_region_loop identity s pml4 phys_start flags [] = Some s"
| "map_region_loop identity s pml4 phys_start flags (p # rest) = do {
     off \<leftarrow> checked_mul (of_nat p) PAGE_SIZE;
     pa \<leftarrow> checked_add phys_start off;
     s1 \<leftarrow> (if identity then map_page s pml4 pa pa flags else Some s);
     hv \<leftarrow> checked_add HIGHER_HALF pa;
     s2 \<leftarrow> map_page s1 pml4 hv pa flags;
     map_region_loop identity s2 pml4 phys_start flags rest
   }"

definition map_region :: "vm \<Rightarrow> u64 \<Rightarrow> u64 \<Rightarrow> u64 \<Rightarrow> u64 \<Rightarrow> vm option" where
  "map_region s pml4_phys phys_start sz flags = do {
     pml4 \<leftarrow> phys_to_virtual pml4_phys;
     up \<leftarrow> checked_add sz PAGE_SIZE;
     map_region_loop True s pml4 phys_start flags [0..<unat ((up - 1) div PAGE_SIZE)]
   }"

definition map_region_higher_half :: "vm \<Rightarrow> u64 \<Rightarrow> u64 \<Rightarrow> u64 \<Rightarrow> u64 \<Rightarrow> vm option" where
  "map_region_higher_half s pml4_phys phys_start sz flags = do {
     pml4 \<leftarrow> phys_to_virtual pml4_phys;
     up \<leftarrow> checked_add sz PAGE_SIZE;
     map_region_loop False s pml4 phys_start flags [0..<unat ((up - 1) div PAGE_SIZE)]
   }"

section \<open>Copying and freeing address spaces\<close>

text \<open>Results: the outer \<open>None\<close> is an abort, the inner one \<^verbatim>\<open>None\<close> (out of memory). A loop body
  returns \<open>False\<close> when it leaves the function early.\<close>

fun copy_loop :: "(vm \<Rightarrow> nat \<Rightarrow> (vm \<times> bool) option) \<Rightarrow> vm \<Rightarrow> nat list \<Rightarrow> (vm \<times> bool) option" where
  "copy_loop body s [] = Some (s, True)"
| "copy_loop body s (i # rest) = do {
     (s', ok) \<leftarrow> body s i;
     if ok then copy_loop body s' rest else Some (s', False)
   }"

definition cow_entry :: "vm \<Rightarrow> bool \<Rightarrow> u64 \<Rightarrow> vm \<times> u64" where
  "cow_entry s cow entry =
     (if cow \<and> has entry WRITABLE \<and> has entry USER
      then (s\<lparr> vphys := ref_page (vphys s) ((entry AND PHYS_ADDR_MASK) div PAGE_SIZE) \<rparr>,
            (entry AND NOT WRITABLE) OR COW)
      else (s, entry))"

definition copy_leaf :: "bool \<Rightarrow> u64 \<Rightarrow> u64 \<Rightarrow> vm \<Rightarrow> nat \<Rightarrow> (vm \<times> bool) option" where
  "copy_leaf cow src new s i =
     (let entry = mem s (entry_addr src i) in
      if \<not> has entry PRESENT then Some (s, True)
      else case cow_entry s cow entry of
             (s', new_entry) \<Rightarrow> Some (write_word s' (entry_addr new i) new_entry, True))"

definition copy_node :: "(vm \<Rightarrow> u64 \<Rightarrow> (vm \<times> u64 option) option) \<Rightarrow> bool \<Rightarrow> u64 \<Rightarrow> u64
    \<Rightarrow> vm \<Rightarrow> nat \<Rightarrow> (vm \<times> bool) option" where
  "copy_node copy_child cow src new s i =
     (let entry = mem s (entry_addr src i) in
      if \<not> has entry PRESENT then Some (s, True)
      else if has entry HUGE then
        (case cow_entry s cow entry of
           (s', new_entry) \<Rightarrow> Some (write_word s' (entry_addr new i) new_entry, True))
      else do {
        (s', r) \<leftarrow> copy_child s (entry AND PHYS_ADDR_MASK);
        (case r of
           None \<Rightarrow> Some (s', False)
         | Some child_dst \<Rightarrow>
             Some (write_word s' (entry_addr new i) (child_dst OR (entry AND ENTRY_FLAG_MASK)), True))
      })"

definition copy_with :: "(u64 \<Rightarrow> u64 \<Rightarrow> vm \<Rightarrow> nat \<Rightarrow> (vm \<times> bool) option) \<Rightarrow> vm \<Rightarrow> u64
    \<Rightarrow> (vm \<times> u64 option) option" where
  "copy_with body s src_phys = do {
     src \<leftarrow> phys_to_virtual src_phys;
     (s1, r) \<leftarrow> vm_alloc_page s;
     (case r of
        None \<Rightarrow> Some (s1, None)
      | Some new_phys \<Rightarrow> do {
          new \<leftarrow> phys_to_virtual new_phys;
          (s2, ok) \<leftarrow> copy_loop (body src new) (new_zeroed s1 new) [0..<512];
          Some (s2, if ok then Some new_phys else None)
        })
   }"

primrec copy_table_recursive :: "nat \<Rightarrow> bool \<Rightarrow> vm \<Rightarrow> u64 \<Rightarrow> (vm \<times> u64 option) option" where
  "copy_table_recursive 0 cow = copy_with (copy_leaf cow)"
| "copy_table_recursive (Suc level) cow = copy_with (copy_node (copy_table_recursive level cow) cow)"

definition copy_low_entry :: "u64 \<Rightarrow> u64 \<Rightarrow> vm \<Rightarrow> nat \<Rightarrow> (vm \<times> bool) option" where
  "copy_low_entry src_pd new_pd s i =
     (let entry = mem s (entry_addr src_pd i) in
      if has entry PRESENT \<and> \<not> has entry HUGE then do {
        (s', r) \<leftarrow> copy_table_recursive 0 False s (entry AND PHYS_ADDR_MASK);
        (case r of
           None \<Rightarrow> Some (s', False)
         | Some child_dst \<Rightarrow>
             Some (write_word s' (entry_addr new_pd i) (child_dst OR (entry AND ENTRY_FLAG_MASK)), True))
      } else Some (write_word s (entry_addr new_pd i) entry, True))"

definition copy_kernel_low_identity :: "vm \<Rightarrow> u64 \<Rightarrow> u64 \<Rightarrow> (vm \<times> bool) option" where
  "copy_kernel_low_identity s src dst =
     (let pml4_entry = mem s (entry_addr src 0) in
      if \<not> has pml4_entry PRESENT \<or> has pml4_entry HUGE then Some (s, True)
      else do {
        src_pdp \<leftarrow> phys_to_virtual (pml4_entry AND PHYS_ADDR_MASK);
        let pdp_entry = mem s (entry_addr src_pdp 0) in
        if \<not> has pdp_entry PRESENT \<or> has pdp_entry HUGE then Some (s, True)
        else do {
          (s1, r1) \<leftarrow> vm_alloc_page s;
          (case r1 of
             None \<Rightarrow> Some (s1, False)
           | Some new_pdp_phys \<Rightarrow> do {
               (s2, r2) \<leftarrow> vm_alloc_page s1;
               (case r2 of
                  None \<Rightarrow> do { s3 \<leftarrow> vm_free_page s2 new_pdp_phys; Some (s3, False) }
                | Some new_pd_phys \<Rightarrow> do {
                    new_pdp \<leftarrow> phys_to_virtual new_pdp_phys;
                    new_pd \<leftarrow> phys_to_virtual new_pd_phys;
                    src_pd \<leftarrow> phys_to_virtual (pdp_entry AND PHYS_ADDR_MASK);
                    (s3, ok) \<leftarrow> copy_loop (copy_low_entry src_pd new_pd)
                       (new_zeroed (new_zeroed s2 new_pdp) new_pd) [0..<unat (drop_bit 21 USER_IMAGE_BASE)];
                    if ok then
                      Some (write_word
                        (write_word s3 (entry_addr new_pdp 0) (new_pd_phys OR (pdp_entry AND ENTRY_FLAG_MASK)))
                        (entry_addr dst 0) (new_pdp_phys OR (pml4_entry AND ENTRY_FLAG_MASK)), True)
                    else Some (s3, False)
                  })
             })
        }
      })"

definition fork_entry :: "bool \<Rightarrow> u64 \<Rightarrow> u64 \<Rightarrow> vm \<Rightarrow> nat \<Rightarrow> (vm \<times> bool) option" where
  "fork_entry fork_from_kernel src new s i =
     (if fork_from_kernel \<and> i < 256 then Some (s, True)
      else
        let entry = mem s (entry_addr src i) in
        if \<not> has entry PRESENT then Some (s, True)
        else if 256 \<le> i then Some (write_word s (entry_addr new i) entry, True)
        else if has entry HUGE then Some (write_word s (entry_addr new i) entry, True)
        else do {
          (s', r) \<leftarrow> copy_table_recursive 2 True s (entry AND PHYS_ADDR_MASK);
          (case r of
             None \<Rightarrow> Some (s', False)
           | Some child_dst \<Rightarrow>
               Some (write_word s' (entry_addr new i) (child_dst OR (entry AND ENTRY_FLAG_MASK)), True))
        })"

definition fork_pml4 :: "vm \<Rightarrow> u64 \<Rightarrow> (vm \<times> u64 option) option" where
  "fork_pml4 s src_phys = do {
     src \<leftarrow> phys_to_virtual src_phys;
     (s1, r) \<leftarrow> vm_alloc_page s;
     (case r of
        None \<Rightarrow> Some (s1, None)
      | Some new_phys \<Rightarrow> do {
          new \<leftarrow> phys_to_virtual new_phys;
          let s2 = new_zeroed s1 new;
              fork_from_kernel = (src_phys = kernel_pml4 s)
          in do {
            (s3, ok) \<leftarrow> (if fork_from_kernel then copy_kernel_low_identity s2 src new else Some (s2, True));
            if \<not> ok then Some (s3, None)
            else do {
              (s4, ok) \<leftarrow> copy_loop (fork_entry fork_from_kernel src new) s3 [0..<512];
              Some (s4, if ok then Some new_phys else None)
            }
          }
        })
   }"

fun free_loop :: "(vm \<Rightarrow> nat \<Rightarrow> vm option) \<Rightarrow> vm \<Rightarrow> nat list \<Rightarrow> vm option" where
  "free_loop body s [] = Some s"
| "free_loop body s (i # rest) = do { s' \<leftarrow> body s i; free_loop body s' rest }"

primrec free_table_recursive :: "nat \<Rightarrow> vm \<Rightarrow> u64 \<Rightarrow> vm option" where
  "free_table_recursive 0 s table_phys = do {
     table \<leftarrow> phys_to_virtual table_phys;
     vm_free_page s table_phys
   }"
| "free_table_recursive (Suc level) s table_phys = do {
     table \<leftarrow> phys_to_virtual table_phys;
     s' \<leftarrow> free_loop (\<lambda>s i. let entry = mem s (entry_addr table i) in
        if has entry PRESENT \<and> \<not> has entry HUGE
        then free_table_recursive level s (entry AND PHYS_ADDR_MASK) else Some s) s [0..<512];
     vm_free_page s' table_phys
   }"

definition free_pml4 :: "vm \<Rightarrow> u64 \<Rightarrow> vm option" where
  "free_pml4 s pml4_phys = do {
     table \<leftarrow> phys_to_virtual pml4_phys;
     s1 \<leftarrow> free_loop (\<lambda>s i. let entry = mem s (entry_addr table i) in
        if has entry PRESENT \<and> \<not> has entry HUGE
        then free_table_recursive 2 s (entry AND PHYS_ADDR_MASK) else Some s) s [0..<256];
     s2 \<leftarrow> vm_free_page s1 pml4_phys;
     if pml4_phys = current_pml4 s2 then Some (s2\<lparr> tlb_log := tlb_log s2 @ [ReloadCr3] \<rparr>) else Some s2
   }"

section \<open>Building the kernel's tables\<close>

definition id_split_entry :: "u64 \<Rightarrow> nat \<Rightarrow> (nat \<Rightarrow> u64) option" where
  "id_split_entry entry level =
     (let orig_flags = (entry AND NO_EXECUTE) OR ((entry AND 0xFFF) AND NOT (1 OR HUGE))
      in if level = 2 then
           let base = entry AND 0x000FFFC000000000
           in Some (\<lambda>i. (base + of_nat i * 0x200000) OR orig_flags OR PRESENT OR HUGE)
         else if level = 1 \<or> level = 0 then
           let base = entry AND 0x000FFFFFFE000000
           in Some (\<lambda>i. (base + of_nat i * 0x1000) OR orig_flags OR PRESENT)
         else None)"

definition id_ensure_table :: "vm \<Rightarrow> u64 \<Rightarrow> u64 \<Rightarrow> nat \<Rightarrow> (vm \<times> u64) option" where
  "id_ensure_table s ea flags level = do {
     s1 \<leftarrow> (if mem s ea AND PRESENT = 0 then do {
              (s', r) \<leftarrow> vm_alloc_page s;
              page \<leftarrow> r;
              Some (write_word (new_zeroed s' page) ea (page OR flags OR PRESENT))
            } else Some s);
     s2 \<leftarrow> (if mem s1 ea AND HUGE \<noteq> 0 then do {
              (s', r) \<leftarrow> vm_alloc_page s1;
              new_page \<leftarrow> r;
              f \<leftarrow> id_split_entry (mem s1 ea) level;
              let z = new_zeroed s' new_page in
              Some (write_word (z\<lparr> mem := fill_table (mem z) new_page f \<rparr>) ea (new_page OR flags OR PRESENT))
            } else Some s1);
     Some (s2, mem s2 ea AND PHYS_ADDR_MASK)
   }"

definition id_map_page :: "vm \<Rightarrow> u64 \<Rightarrow> u64 \<Rightarrow> u64 \<Rightarrow> u64 \<Rightarrow> vm option" where
  "id_map_page s pml4 virt phys flags = do {
     (s, pdp) \<leftarrow> id_ensure_table s (entry_addr pml4 (index_for_addr virt 3)) WRITABLE 2;
     (s, pd) \<leftarrow> id_ensure_table s (entry_addr pdp (index_for_addr virt 2)) WRITABLE 1;
     (s, pt) \<leftarrow> id_ensure_table s (entry_addr pd (index_for_addr virt 1)) WRITABLE 0;
     Some (write_word s (entry_addr pt (index_for_addr virt 0)) (phys OR flags))
   }"

definition id_map_huge_2mb :: "vm \<Rightarrow> u64 \<Rightarrow> u64 \<Rightarrow> u64 \<Rightarrow> u64 \<Rightarrow> vm option" where
  "id_map_huge_2mb s pml4 virt phys flags = do {
     (s, pdp) \<leftarrow> id_ensure_table s (entry_addr pml4 (index_for_addr virt 3)) WRITABLE 2;
     (s, pd) \<leftarrow> id_ensure_table s (entry_addr pdp (index_for_addr virt 2)) WRITABLE 1;
     Some (write_word s (entry_addr pd (index_for_addr virt 1)) (phys OR flags OR HUGE))
   }"

function init_4k :: "vm \<Rightarrow> u64 \<Rightarrow> u64 \<Rightarrow> u64 \<Rightarrow> u64 \<Rightarrow> (vm \<times> u64) option" where
  "init_4k s pml4 addr stop flags =
     (if addr < stop then
        case checked_add HIGHER_HALF addr of
          None \<Rightarrow> None
        | Some hv \<Rightarrow>
            (case id_map_page s pml4 hv addr flags of
               None \<Rightarrow> None
             | Some s' \<Rightarrow>
                 (case checked_add addr PAGE_SIZE of
                    None \<Rightarrow> None
                  | Some addr' \<Rightarrow> init_4k s' pml4 addr' stop flags))
      else Some (s, addr))"
  by pat_completeness auto
termination
  by (relation "measure (\<lambda>(s, pml4, addr, stop, flags). unat stop - unat addr)")
    (auto simp: checked_add_unat word_less_nat_alt PAGE_SIZE_def intro!: diff_less_mono2)

function init_2m :: "vm \<Rightarrow> u64 \<Rightarrow> u64 \<Rightarrow> u64 \<Rightarrow> u64 \<Rightarrow> (vm \<times> u64) option" where
  "init_2m s pml4 addr r_end flags =
     (case checked_add addr 0x200000 of
        None \<Rightarrow> None
      | Some addr' \<Rightarrow>
          if addr' \<le> r_end then
            (case checked_add HIGHER_HALF addr of
               None \<Rightarrow> None
             | Some hv \<Rightarrow>
                 (case id_map_huge_2mb s pml4 hv addr flags of
                    None \<Rightarrow> None
                  | Some s' \<Rightarrow> init_2m s' pml4 addr' r_end flags))
          else Some (s, addr))"
  by pat_completeness auto
termination
  by (relation "measure (\<lambda>(s, pml4, addr, stop, flags). unat stop - unat addr)")
    (auto simp: checked_add_unat word_le_nat_alt intro!: diff_less_mono2)

declare init_4k.simps [simp del] init_2m.simps [simp del]

definition init_region :: "vm \<Rightarrow> u64 \<Rightarrow> u64 \<Rightarrow> u64 \<Rightarrow> u64 \<Rightarrow> vm option" where
  "init_region s pml4 start sz flags = do {
     r_end \<leftarrow> checked_add start sz;
     up \<leftarrow> checked_add start 0x1FFFFF;
     (s1, a1) \<leftarrow> init_4k s pml4 start (min (up AND NOT 0x1FFFFF) r_end) flags;
     (s2, a2) \<leftarrow> init_2m s1 pml4 a1 r_end flags;
     (s3, a3) \<leftarrow> init_4k s2 pml4 a2 r_end flags;
     Some s3
   }"

fun init_regions :: "vm \<Rightarrow> u64 \<Rightarrow> (u64 \<times> u64) list \<Rightarrow> u64 \<Rightarrow> vm option" where
  "init_regions s pml4 [] flags = Some s"
| "init_regions s pml4 ((start, sz) # rest) flags = do {
     s' \<leftarrow> init_region s pml4 start sz flags;
     init_regions s' pml4 rest flags
   }"

definition identity_pd_entry :: "nat \<Rightarrow> nat \<Rightarrow> u64" where
  "identity_pd_entry pdp_idx entry =
     (let phys = of_nat pdp_idx * 0x40000000 + of_nat entry * 0x200000;
          flags = (if phys \<le> 0xFEE00000 \<and> 0xFEE00000 < phys + 0x200000
                   then WRITABLE OR PRESENT OR HUGE OR CACHE_DISABLE
                   else WRITABLE OR PRESENT OR HUGE)
      in phys OR flags)"

fun init_identity :: "vm \<Rightarrow> u64 \<Rightarrow> nat list \<Rightarrow> vm option" where
  "init_identity s pdp_page [] = Some s"
| "init_identity s pdp_page (pdp_idx # rest) = do {
     (s1, r) \<leftarrow> vm_alloc_page s;
     pd_page \<leftarrow> r;
     let z = new_zeroed s1 pd_page;
         s2 = z\<lparr> mem := fill_table (mem z) pd_page (identity_pd_entry pdp_idx) \<rparr>
     in init_identity (write_word s2 (entry_addr pdp_page pdp_idx) (pd_page OR WRITABLE OR PRESENT)) pdp_page rest
   }"

fun init_fb :: "vm \<Rightarrow> u64 \<Rightarrow> u64 \<Rightarrow> nat list \<Rightarrow> vm option" where
  "init_fb s pml4 fb_base [] = Some s"
| "init_fb s pml4 fb_base (p # rest) = do {
     off \<leftarrow> checked_mul (of_nat p) PAGE_SIZE;
     pa \<leftarrow> checked_add fb_base off;
     hv \<leftarrow> checked_add HIGHER_HALF pa;
     s' \<leftarrow> id_map_page s pml4 hv pa DATA;
     init_fb s' pml4 fb_base rest
   }"

definition virt_init :: "vm \<Rightarrow> (u64 \<times> u64) list \<Rightarrow> (u64 \<times> u64) option \<Rightarrow> (u64 \<times> u64) option
    \<Rightarrow> vm option" where
  "virt_init s regions fb_phys kernel_phys =
     (if pt_initialized s then Some s
      else do {
        (s1, r) \<leftarrow> vm_alloc_page s;
        pml4_page \<leftarrow> r;
        s2 \<leftarrow> init_regions (new_zeroed s1 pml4_page) pml4_page regions DATA;
        s3 \<leftarrow> (case kernel_phys of
                 None \<Rightarrow> Some s2
               | Some (kstart, ksize) \<Rightarrow> init_region s2 pml4_page kstart ksize CODE);
        (s4, r) \<leftarrow> vm_alloc_page s3;
        pdp_page \<leftarrow> r;
        s5 \<leftarrow> init_identity (new_zeroed s4 pdp_page) pdp_page [0..<4];
        let s6 = write_word s5 (entry_addr pml4_page 0) (pdp_page OR WRITABLE OR PRESENT) in do {
        s7 \<leftarrow> (case fb_phys of
                 None \<Rightarrow> Some s6
               | Some (fb_base, fb_size) \<Rightarrow> do {
                   up \<leftarrow> checked_add fb_size PAGE_SIZE;
                   init_fb s6 pml4_page fb_base [0..<unat ((up - 1) div PAGE_SIZE)]
                 });
        Some ((switch_pml4 s7 pml4_page)\<lparr> kernel_pml4 := pml4_page, pt_initialized := True \<rparr>)
      }})"

section \<open>The rescue address space\<close>

definition katerm_alloc :: "vm \<Rightarrow> (vm \<times> u64 \<times> u64) option" where
  "katerm_alloc s = do {
     (s1, r) \<leftarrow> vm_alloc_page s;
     page \<leftarrow> r;
     t \<leftarrow> phys_to_virtual page;
     Some (new_zeroed s1 t, page, t)
   }"

definition katerm_copy_pt :: "u64 \<Rightarrow> u64 \<Rightarrow> vm \<Rightarrow> nat \<Rightarrow> vm option" where
  "katerm_copy_pt src_pd new_pd s k =
     (let pd_entry = mem s (entry_addr src_pd k) in
      if \<not> has pd_entry PRESENT then Some s
      else if has pd_entry HUGE then Some (write_word s (entry_addr new_pd k) pd_entry)
      else do {
        src_pt \<leftarrow> phys_to_virtual (pd_entry AND PHYS_ADDR_MASK);
        (s1, new_pt_page, new_pt) \<leftarrow> katerm_alloc s;
        let s2 = s1\<lparr> mem := fill_table (mem s1) new_pt (\<lambda>l. mem s1 (entry_addr src_pt l)) \<rparr> in
        Some (write_word s2 (entry_addr new_pd k) (new_pt_page OR (pd_entry AND ENTRY_FLAG_MASK)))
      })"

definition katerm_copy_pd :: "u64 \<Rightarrow> u64 \<Rightarrow> vm \<Rightarrow> nat \<Rightarrow> vm option" where
  "katerm_copy_pd src_pdp new_pdp s j =
     (let pdp_entry = mem s (entry_addr src_pdp j) in
      if \<not> has pdp_entry PRESENT then Some s
      else if has pdp_entry HUGE then Some (write_word s (entry_addr new_pdp j) pdp_entry)
      else do {
        src_pd \<leftarrow> phys_to_virtual (pdp_entry AND PHYS_ADDR_MASK);
        (s1, new_pd_page, new_pd) \<leftarrow> katerm_alloc s;
        s2 \<leftarrow> free_loop (katerm_copy_pt src_pd new_pd) s1 [0..<512];
        Some (write_word s2 (entry_addr new_pdp j) (new_pd_page OR (pdp_entry AND ENTRY_FLAG_MASK)))
      })"

definition katerm_copy_pdp :: "u64 \<Rightarrow> u64 \<Rightarrow> vm \<Rightarrow> nat \<Rightarrow> vm option" where
  "katerm_copy_pdp src new_pml4 s i =
     (let entry = mem s (entry_addr src i) in
      if \<not> has entry PRESENT then Some s
      else do {
        src_pdp \<leftarrow> phys_to_virtual (entry AND PHYS_ADDR_MASK);
        (s1, new_pdp_page, new_pdp) \<leftarrow> katerm_alloc s;
        s2 \<leftarrow> free_loop (katerm_copy_pd src_pdp new_pdp) s1 [0..<512];
        Some (write_word s2 (entry_addr new_pml4 i) (new_pdp_page OR (entry AND ENTRY_FLAG_MASK)))
      })"

definition katerm_copy_id :: "u64 \<Rightarrow> u64 \<Rightarrow> vm \<Rightarrow> nat \<Rightarrow> vm option" where
  "katerm_copy_id src_pdp new_id_pdp s pdp_idx =
     (let pdp_entry = mem s (entry_addr src_pdp pdp_idx) in
      if \<not> has pdp_entry PRESENT \<or> has pdp_entry HUGE then Some s
      else do {
        src_pd \<leftarrow> phys_to_virtual (pdp_entry AND PHYS_ADDR_MASK);
        (s1, new_pd_page, new_pd) \<leftarrow> katerm_alloc s;
        let s2 = s1\<lparr> mem := fill_table (mem s1) new_pd (\<lambda>k. mem s1 (entry_addr src_pd k)) \<rparr> in
        Some (write_word s2 (entry_addr new_id_pdp pdp_idx) (new_pd_page OR (pdp_entry AND ENTRY_FLAG_MASK)))
      })"

definition katerm_pml4_init :: "vm \<Rightarrow> u64 \<Rightarrow> (vm \<times> u64) option" where
  "katerm_pml4_init s kernel_pml4_phys = do {
     src \<leftarrow> phys_to_virtual kernel_pml4_phys;
     (s1, new_pml4_page, new_pml4) \<leftarrow> katerm_alloc s;
     s2 \<leftarrow> free_loop (katerm_copy_pdp src new_pml4) s1 [256..<512];
     let e = mem s2 (entry_addr src 0) in do {
     s3 \<leftarrow> (if has e PRESENT \<and> \<not> has e HUGE then do {
              src_pdp \<leftarrow> phys_to_virtual (e AND PHYS_ADDR_MASK);
              (s', new_id_pdp_page, new_id_pdp) \<leftarrow> katerm_alloc s2;
              s'' \<leftarrow> free_loop (katerm_copy_id src_pdp new_id_pdp) s' [0..<4];
              Some (write_word s'' (entry_addr new_pml4 0) (new_id_pdp_page OR (e AND ENTRY_FLAG_MASK)))
            } else Some s2);
     (s4, r) \<leftarrow> vm_alloc_page s3;
     stack_page \<leftarrow> r;
     s5 \<leftarrow> map_page s4 new_pml4 KATERM_STACK_VIRT stack_page (PRESENT OR WRITABLE);
     Some (s5\<lparr> katerm_stack_top := KATERM_STACK_VIRT + PAGE_SIZE \<rparr>, new_pml4_page)
   }}"

end
