(* ===== verification/Vma.thy ===== *)
theory Vma
  imports Virt
begin

text \<open>
  Virtual memory areas and page faults, \<^verbatim>\<open>kernel/src/mm/vma.rs\<close>. The nodes of the radix tree and
  the boxed areas are two typed stores indexed by their addresses; an access through a pointer
  that is not an object of the store it is used as has no defined result and is an abort. Nodes
  are blocks of the physical allocator; the address of a new box is what the global allocator
  returned and is an argument. Page tables are those of \<^verbatim>\<open>virt.rs\<close>.
\<close>

section \<open>Data\<close>

definition PAGE_SHIFT :: nat where "PAGE_SHIFT = 12"
definition RADIX_BITS :: nat where "RADIX_BITS = 10"
definition RADIX_SIZE :: nat where "RADIX_SIZE = 1024"
definition RADIX_MASK :: u64 where "RADIX_MASK = 0x3FF"
definition RADIX_LEVELS :: nat where "RADIX_LEVELS = 4"

datatype vma_perm = PermNone | PermRead | PermWrite | PermReadWrite | PermExecute
  | PermReadExecute | PermWriteExecute | PermReadWriteExecute

fun perm_bits :: "vma_perm \<Rightarrow> u64" where
  "perm_bits PermNone = 0"
| "perm_bits PermRead = 1"
| "perm_bits PermWrite = 2"
| "perm_bits PermReadWrite = 3"
| "perm_bits PermExecute = 4"
| "perm_bits PermReadExecute = 5"
| "perm_bits PermWriteExecute = 6"
| "perm_bits PermReadWriteExecute = 7"

record vma =
  vma_start :: u64
  vma_end :: u64
  vma_perm :: vma_perm
  vma_flags :: u64

record vma_sys =
  svm :: vm
  rnode :: "u64 \<Rightarrow> (nat \<Rightarrow> u64) option"
  boxes :: "u64 \<Rightarrow> vma option"
  kernel_root :: u64
  kernel_vma_initialized :: bool

definition set_phys :: "vma_sys \<Rightarrow> phys_state \<Rightarrow> vma_sys" where
  "set_phys s z = s\<lparr> svm := (svm s)\<lparr> vphys := z \<rparr> \<rparr>"

definition radix_new_zeroed :: "vma_sys \<Rightarrow> (vma_sys \<times> u64) option" where
  "radix_new_zeroed s = do {
     (z, r) \<leftarrow> alloc_order (vphys (svm s)) 1;
     page \<leftarrow> r;
     Some ((set_phys s z)\<lparr> rnode := (rnode s)(page := Some (\<lambda>_. 0)) \<rparr>, page)
   }"

definition radix_free_node :: "vma_sys \<Rightarrow> u64 \<Rightarrow> vma_sys option" where
  "radix_free_node s node = do {
     z \<leftarrow> free_order (vphys (svm s)) node 1;
     Some ((set_phys s z)\<lparr> rnode := (rnode s)(node := None) \<rparr>)
   }"

definition drop_box :: "vma_sys \<Rightarrow> u64 \<Rightarrow> vma_sys" where
  "drop_box s p = s\<lparr> boxes := (boxes s)(p := None) \<rparr>"

definition set_entry :: "vma_sys \<Rightarrow> u64 \<Rightarrow> nat \<Rightarrow> u64 \<Rightarrow> vma_sys option" where
  "set_entry s node i v = do {
     f \<leftarrow> rnode s node;
     Some (s\<lparr> rnode := (rnode s)(node := Some (f(i := v))) \<rparr>)
   }"

definition radix_shift :: "nat \<Rightarrow> nat" where
  "radix_shift level = PAGE_SHIFT + level * RADIX_BITS"

definition radix_index :: "u64 \<Rightarrow> nat \<Rightarrow> nat" where
  "radix_index addr level = unat (drop_bit (radix_shift level) addr AND RADIX_MASK)"

section \<open>The radix tree\<close>

text \<open>A tree is its root pointer, 0 for the empty tree. \<open>levels\<close> are the levels still to go down.\<close>

fun insert_walk :: "vma_sys \<Rightarrow> u64 \<Rightarrow> u64 \<Rightarrow> nat list \<Rightarrow> (vma_sys \<times> u64) option" where
  "insert_walk s addr node [] = Some (s, node)"
| "insert_walk s addr node (level # rest) = do {
     f \<leftarrow> rnode s node;
     let idx = radix_index addr level in
     if f idx = 0 then do {
       (s1, c) \<leftarrow> radix_new_zeroed s;
       s2 \<leftarrow> set_entry s1 node idx c;
       insert_walk s2 addr c rest
     } else insert_walk s addr (f idx) rest
   }"

definition vma_insert :: "vma_sys \<Rightarrow> u64 \<Rightarrow> u64 \<Rightarrow> (vma_sys \<times> u64) option" where
  "vma_insert s root p = do {
     v \<leftarrow> boxes s p;
     (s1, root1) \<leftarrow> (if root = 0 then radix_new_zeroed s else Some (s, root));
     (s2, node) \<leftarrow> insert_walk s1 (vma_start v) root1 (rev [1..<RADIX_LEVELS]);
     s3 \<leftarrow> set_entry s2 node (radix_index (vma_start v) 0) p;
     Some (s3, root1)
   }"

fun lookup_walk :: "vma_sys \<Rightarrow> u64 \<Rightarrow> u64 \<Rightarrow> nat list \<Rightarrow> u64 option option" where
  "lookup_walk s addr node [] = Some (Some node)"
| "lookup_walk s addr node (level # rest) = do {
     f \<leftarrow> rnode s node;
     let c = f (radix_index addr level) in
     if c = 0 then Some None else lookup_walk s addr c rest
   }"

definition vma_lookup :: "vma_sys \<Rightarrow> u64 \<Rightarrow> u64 \<Rightarrow> u64 option option" where
  "vma_lookup s root addr =
     (if root = 0 then Some None
      else do {
        r \<leftarrow> lookup_walk s addr root (rev [1..<RADIX_LEVELS]);
        (case r of
           None \<Rightarrow> Some None
         | Some node \<Rightarrow> do {
             f \<leftarrow> rnode s node;
             let p = f (radix_index addr 0) in Some (if p = 0 then None else Some p)
           })
      })"

text \<open>The path of \<^verbatim>\<open>remove\<close>: the nodes above the current one with the slots taken, nearest first.\<close>

fun remove_walk_path :: "vma_sys \<Rightarrow> u64 \<Rightarrow> u64 \<Rightarrow> (u64 \<times> nat) list \<Rightarrow> nat list
    \<Rightarrow> (u64 \<times> (u64 \<times> nat) list) option option" where
  "remove_walk_path s addr node path [] = Some (Some (node, path))"
| "remove_walk_path s addr node path (level # rest) = do {
     f \<leftarrow> rnode s node;
     let idx = radix_index addr level in
     if f idx = 0 then Some None else remove_walk_path s addr (f idx) ((node, idx) # path) rest
   }"

definition node_empty :: "(nat \<Rightarrow> u64) \<Rightarrow> bool" where
  "node_empty f = list_all (\<lambda>i. f i = 0) [0..<RADIX_SIZE]"

fun remove_cleanup :: "vma_sys \<Rightarrow> u64 \<Rightarrow> u64 \<Rightarrow> (u64 \<times> nat) list \<Rightarrow> (vma_sys \<times> u64) option" where
  "remove_cleanup s root node [] = do {
     f \<leftarrow> rnode s node;
     if node_empty f then do { s1 \<leftarrow> radix_free_node s node; Some (s1, 0) } else Some (s, root)
   }"
| "remove_cleanup s root node ((parent, pidx) # path) = do {
     f \<leftarrow> rnode s node;
     if node_empty f then do {
       s1 \<leftarrow> radix_free_node s node;
       s2 \<leftarrow> set_entry s1 parent pidx 0;
       remove_cleanup s2 root parent path
     } else Some (s, root)
   }"

definition vma_remove :: "vma_sys \<Rightarrow> u64 \<Rightarrow> u64 \<Rightarrow> (vma_sys \<times> u64 \<times> bool) option" where
  "vma_remove s root start =
     (if root = 0 then Some (s, root, False)
      else do {
        r \<leftarrow> remove_walk_path s start root [] (rev [1..<RADIX_LEVELS]);
        (case r of
           None \<Rightarrow> Some (s, root, False)
         | Some (node, path) \<Rightarrow> do {
             f \<leftarrow> rnode s node;
             let p = f (radix_index start 0) in do {
             s1 \<leftarrow> set_entry s node (radix_index start 0) 0;
             if p = 0 then Some (s1, root, False)
             else do {
               (s2, root2) \<leftarrow> remove_cleanup (drop_box s1 p) root node path;
               Some (s2, root2, True)
             }
           }})
      })"

section \<open>Visiting\<close>

fun first_result :: "(nat \<Rightarrow> 'r option option) \<Rightarrow> nat list \<Rightarrow> 'r option option" where
  "first_result g [] = Some None"
| "first_result g (i # rest) = do {
     r \<leftarrow> g i;
     (case r of Some x \<Rightarrow> Some (Some x) | None \<Rightarrow> first_result g rest)
   }"

primrec visit_node :: "nat \<Rightarrow> vma_sys \<Rightarrow> u64 \<Rightarrow> (u64 \<Rightarrow> vma \<Rightarrow> 'r option) \<Rightarrow> 'r option option" where
  "visit_node 0 s node f = do {
     e \<leftarrow> rnode s node;
     first_result (\<lambda>i. if e i = 0 then Some None else do { v \<leftarrow> boxes s (e i); Some (f (e i) v) }) [0..<RADIX_SIZE]
   }"
| "visit_node (Suc level) s node f = do {
     e \<leftarrow> rnode s node;
     first_result (\<lambda>i. if e i = 0 then Some None else visit_node level s (e i) f) [0..<RADIX_SIZE]
   }"

definition visit_all :: "vma_sys \<Rightarrow> u64 \<Rightarrow> (u64 \<Rightarrow> vma \<Rightarrow> 'r option) \<Rightarrow> 'r option option" where
  "visit_all s root f = (if root = 0 then Some None else visit_node 4 s root f)"

definition find_covering :: "vma_sys \<Rightarrow> u64 \<Rightarrow> u64 \<Rightarrow> u64 option option" where
  "find_covering s root addr =
     (if root = 0 then Some None
      else visit_all s root (\<lambda>p v. if vma_start v \<le> addr \<and> addr < vma_end v then Some p else None))"

definition has_overlap :: "vma_sys \<Rightarrow> u64 \<Rightarrow> u64 \<Rightarrow> u64 \<Rightarrow> bool option" where
  "has_overlap s root start stop = do {
     r \<leftarrow> visit_all s root (\<lambda>p v. if vma_start v < stop \<and> start < vma_end v then Some () else None);
     Some (r \<noteq> None)
   }"

fun free_slots :: "(vma_sys \<Rightarrow> u64 \<Rightarrow> vma_sys option) \<Rightarrow> vma_sys \<Rightarrow> (nat \<Rightarrow> u64) \<Rightarrow> nat list \<Rightarrow> vma_sys option" where
  "free_slots g s e [] = Some s"
| "free_slots g s e (i # rest) =
     (if e i = 0 then free_slots g s e rest else do { s1 \<leftarrow> g s (e i); free_slots g s1 e rest })"

definition free_box :: "vma_sys \<Rightarrow> u64 \<Rightarrow> vma_sys option" where
  "free_box s p = do { _ \<leftarrow> boxes s p; Some (drop_box s p) }"

primrec free_tree :: "nat \<Rightarrow> vma_sys \<Rightarrow> u64 \<Rightarrow> vma_sys option" where
  "free_tree 0 s node = do {
     e \<leftarrow> rnode s node;
     s1 \<leftarrow> free_slots free_box s e [0..<RADIX_SIZE];
     radix_free_node s1 node
   }"
| "free_tree (Suc level) s node = do {
     e \<leftarrow> rnode s node;
     s1 \<leftarrow> free_slots (free_tree level) s e [0..<RADIX_SIZE];
     radix_free_node s1 node
   }"

definition vma_tree_drop :: "vma_sys \<Rightarrow> u64 \<Rightarrow> vma_sys option" where
  "vma_tree_drop s root = (if root = 0 then Some s else free_tree RADIX_LEVELS s root)"

section \<open>Process memory\<close>

record process_memory =
  vma_tree :: u64
  pml4_phys :: u64
  next_free_vaddr :: u64

definition process_memory_new :: "u64 \<Rightarrow> process_memory" where
  "process_memory_new pml4 = \<lparr> vma_tree = 0, pml4_phys = pml4, next_free_vaddr = 0x400000 \<rparr>"

fun vaddr_scan :: "vma_sys \<Rightarrow> process_memory \<Rightarrow> u64 \<Rightarrow> nat list \<Rightarrow> (process_memory \<times> u64 option) option" where
  "vaddr_scan s pm alloc_size [] = Some (pm, None)"
| "vaddr_scan s pm alloc_size (_ # rest) = do {
     a1 \<leftarrow> checked_add (next_free_vaddr pm) 0xFFF;
     let addr = a1 AND NOT 0xFFF in
     (case checked_add addr alloc_size of
        None \<Rightarrow> Some (pm, None)
      | Some stop \<Rightarrow>
          if HIGHER_HALF \<le> stop then Some (pm, None)
          else do {
            let pm1 = pm\<lparr> next_free_vaddr := stop \<rparr> in do {
            ov \<leftarrow> has_overlap s (vma_tree pm1) addr stop;
            if \<not> ov then Some (pm1, Some addr) else vaddr_scan s pm1 alloc_size rest
          }})
   }"

definition alloc_user_vaddr :: "vma_sys \<Rightarrow> process_memory \<Rightarrow> u64 \<Rightarrow> (process_memory \<times> u64 option) option" where
  "alloc_user_vaddr s pm sz = do {
     up \<leftarrow> checked_add sz 0xFFF;
     alloc_size \<leftarrow> checked_mul (up div 0x1000) 0x1000;
     vaddr_scan s pm alloc_size [0..<1024]
   }"

definition add_vma :: "vma_sys \<Rightarrow> process_memory \<Rightarrow> u64 \<Rightarrow> u64 \<Rightarrow> u64 \<Rightarrow> vma_perm
    \<Rightarrow> (vma_sys \<times> process_memory) option" where
  "add_vma s pm boxed start stop perm = do {
     let v = \<lparr> vma_start = start, vma_end = stop, vma_perm = perm, vma_flags = 0 \<rparr> in do {
     (s1, root) \<leftarrow> vma_insert (s\<lparr> boxes := (boxes s)(boxed := Some v) \<rparr>) (vma_tree pm) boxed;
     Some (s1, pm\<lparr> vma_tree := root \<rparr>)
   }}"

section \<open>Page faults\<close>

definition copy_page :: "vm \<Rightarrow> u64 \<Rightarrow> u64 \<Rightarrow> vm" where
  "copy_page s old new = s\<lparr> mem := fill_table (mem s) new (\<lambda>i. mem s (entry_addr old i)) \<rparr>"

definition resolve_cow :: "vm \<Rightarrow> u64 \<Rightarrow> u64 \<Rightarrow> u64 \<Rightarrow> (vm \<times> bool) option" where
  "resolve_cow s pml4 page_addr old_pte =
     (let old_phys = old_pte AND 0x000FFFFFFFFFF000 in do {
        (s1, r) \<leftarrow> vm_alloc_page s;
        (case r of
           None \<Rightarrow> Some (s1, False)
         | Some new_phys \<Rightarrow>
             let s2 = copy_page s1 old_phys new_phys;
                 new_pte = new_phys OR ((old_pte AND 0xFFF) AND NOT COW) OR WRITABLE
             in do {
               (s3, _) \<leftarrow> write_pte s2 pml4 page_addr new_pte;
               s4 \<leftarrow> flush_page_all s3 page_addr;
               (case unref_page (vphys s4) (old_phys div PAGE_SIZE) of
                  (z, was_last) \<Rightarrow>
                    if was_last then do { s5 \<leftarrow> vm_free_page (s4\<lparr> vphys := z \<rparr>) old_phys; Some (s5, True) }
                    else Some (s4\<lparr> vphys := z \<rparr>, True))
             })
      })"

definition handle_cow_fault :: "vm \<Rightarrow> process_memory \<Rightarrow> u64 \<Rightarrow> (vm \<times> bool) option" where
  "handle_cow_fault s pm fault_addr =
     (let page_addr = fault_addr AND NOT 0xFFF in do {
        r \<leftarrow> read_pte s (pml4_phys pm) page_addr;
        (case r of
           None \<Rightarrow> Some (s, False)
         | Some old_pte \<Rightarrow> resolve_cow s (pml4_phys pm) page_addr old_pte)
      })"

definition zero_page :: "vm \<Rightarrow> u64 \<Rightarrow> vm option" where
  "zero_page s page = do { _ \<leftarrow> checked_add HIGHER_HALF page; Some (new_zeroed s page) }"

definition perm_flags :: "vma_perm \<Rightarrow> u64" where
  "perm_flags perm =
     (if perm_bits perm AND perm_bits PermExecute = 0 then PRESENT OR WRITABLE OR NO_EXECUTE
      else PRESENT OR WRITABLE)"

definition pm_handle_page_fault :: "vma_sys \<Rightarrow> process_memory \<Rightarrow> u64 \<Rightarrow> bool \<Rightarrow> (vma_sys \<times> bool) option" where
  "pm_handle_page_fault s pm fault_addr is_write = do {
     cow \<leftarrow> (if is_write then do {
               r \<leftarrow> read_pte (svm s) (pml4_phys pm) fault_addr;
               Some (case r of None \<Rightarrow> False | Some pte \<Rightarrow> pte AND COW \<noteq> 0)
             } else Some False);
     if cow then do {
       (m, ok) \<leftarrow> handle_cow_fault (svm s) pm fault_addr;
       Some (s\<lparr> svm := m \<rparr>, ok)
     } else do {
       r \<leftarrow> find_covering s (vma_tree pm) fault_addr;
       (case r of
          None \<Rightarrow> Some (s, False)
        | Some p \<Rightarrow> do {
            v \<leftarrow> boxes s p;
            if is_write \<and> perm_bits (vma_perm v) AND perm_bits PermWrite = 0 then Some (s, False)
            else let page_addr = fault_addr AND NOT 0xFFF in do {
              (m1, a) \<leftarrow> vm_alloc_page (svm s);
              (case a of
                 None \<Rightarrow> Some (s\<lparr> svm := m1 \<rparr>, False)
               | Some phys_page \<Rightarrow> do {
                   m2 \<leftarrow> zero_page m1 phys_page;
                   m3 \<leftarrow> map_page_explicit m2 (pml4_phys pm) page_addr phys_page (perm_flags (vma_perm v));
                   m4 \<leftarrow> tlb_flush m3 page_addr;
                   Some (s\<lparr> svm := m4 \<rparr>, True)
                 })
            }
          })
     }
   }"

definition init_kernel_vmas :: "vma_sys \<Rightarrow> u64 \<Rightarrow> vma_sys option" where
  "init_kernel_vmas s boxed =
     (if kernel_vma_initialized s then Some s
      else let v = \<lparr> vma_start = 0xFFFF808000000000, vma_end = 0xFFFF808004000000,
                     vma_perm = PermReadWrite, vma_flags = 0 \<rparr> in do {
        (s1, root) \<leftarrow> vma_insert (s\<lparr> boxes := (boxes s)(boxed := Some v) \<rparr>) (kernel_root s) boxed;
        Some (s1\<lparr> kernel_root := root, kernel_vma_initialized := True \<rparr>)
      })"

text \<open>\<open>cur\<close> is the process memory of the current vCPU, if it has one.\<close>

definition handle_page_fault :: "vma_sys \<Rightarrow> process_memory option \<Rightarrow> u64 \<Rightarrow> u64 \<Rightarrow> (vma_sys \<times> bool) option" where
  "handle_page_fault s cur fault_addr error_code =
     (let is_write = (error_code AND 2 \<noteq> 0); is_user = (error_code AND 4 \<noteq> 0);
          is_present = (error_code AND 1 \<noteq> 0); root = cr3 (svm s) AND NOT 0xFFF
      in if is_present \<and> is_write then do {
           r \<leftarrow> read_pte (svm s) root fault_addr;
           (case r of
              None \<Rightarrow> Some (s, False)
            | Some pte \<Rightarrow>
                if pte AND COW \<noteq> 0 then do {
                  (m, ok) \<leftarrow> resolve_cow (svm s) root (fault_addr AND NOT 0xFFF) pte;
                  Some (s\<lparr> svm := m \<rparr>, ok)
                } else Some (s, False))
         }
         else if is_present then Some (s, False)
         else if is_user then
           (case cur of None \<Rightarrow> Some (s, False) | Some pm \<Rightarrow> pm_handle_page_fault s pm fault_addr is_write)
         else do {
           r \<leftarrow> find_covering s (kernel_root s) fault_addr;
           (case r of
              None \<Rightarrow> Some (s, False)
            | Some p \<Rightarrow> do {
                v \<leftarrow> boxes s p;
                (m1, a) \<leftarrow> vm_alloc_page (svm s);
                (case a of
                   None \<Rightarrow> Some (s\<lparr> svm := m1 \<rparr>, False)
                 | Some phys_page \<Rightarrow> do {
                     m2 \<leftarrow> zero_page m1 phys_page;
                     m3 \<leftarrow> map_page_explicit m2 root (fault_addr AND NOT 0xFFF) phys_page (perm_flags (vma_perm v));
                     Some (s\<lparr> svm := m3 \<rparr>, True)
                   })
              })
         })"

end
