(* ===== verification/Table_Tree.thy ===== *)
theory Table_Tree
  imports Lodax_Prelude
begin

text \<open>
  Trees of tables in memory, the shape that page tables and the radix tree of memory areas
  share: a table has \<open>fan\<close> entries, some of which point to tables one level down. The locale
  \<open>table_tree\<close> is the interface: how an entry is read, which entries have a child and where it
  is, and how a key selects an entry at each level. The lemmas give the tables of a tree, what
  a change of memory outside a tree leaves of it, and what the change of one subtree does.
\<close>

definition kid_nodes :: "('m \<Rightarrow> u64 \<Rightarrow> nat \<Rightarrow> 'e) \<Rightarrow> ('e \<Rightarrow> bool) \<Rightarrow> ('e \<Rightarrow> u64)
    \<Rightarrow> ('m \<Rightarrow> u64 \<Rightarrow> u64 list) \<Rightarrow> 'm \<Rightarrow> u64 \<Rightarrow> nat \<Rightarrow> u64 list" where
  "kid_nodes get kid nxt sub m t i = (if kid (get m t i) then sub m (nxt (get m t i)) else [])"

primrec tree_nodes :: "('m \<Rightarrow> u64 \<Rightarrow> nat \<Rightarrow> 'e) \<Rightarrow> nat \<Rightarrow> ('e \<Rightarrow> bool) \<Rightarrow> ('e \<Rightarrow> u64)
    \<Rightarrow> nat \<Rightarrow> 'm \<Rightarrow> u64 \<Rightarrow> u64 list" where
  "tree_nodes get fan kid nxt 0 m t = [t]"
| "tree_nodes get fan kid nxt (Suc n) m t =
     t # concat (map (kid_nodes get kid nxt (tree_nodes get fan kid nxt n) m t) [0..<fan])"

primrec tree_look :: "('m \<Rightarrow> u64 \<Rightarrow> nat \<Rightarrow> 'e) \<Rightarrow> ('e \<Rightarrow> bool) \<Rightarrow> ('e \<Rightarrow> u64) \<Rightarrow> ('k \<Rightarrow> nat \<Rightarrow> nat)
    \<Rightarrow> ('e \<Rightarrow> 'r) \<Rightarrow> (nat \<Rightarrow> 'e \<Rightarrow> 'r) \<Rightarrow> nat \<Rightarrow> 'm \<Rightarrow> u64 \<Rightarrow> 'k \<Rightarrow> 'r" where
  "tree_look get kid nxt idx leafv stop 0 m t v = leafv (get m t (idx v 0))"
| "tree_look get kid nxt idx leafv stop (Suc n) m t v =
     (let e = get m t (idx v (Suc n)) in
      if kid e then tree_look get kid nxt idx leafv stop n m (nxt e) v else stop (Suc n) e)"

primrec tree_leaf :: "('m \<Rightarrow> u64 \<Rightarrow> nat \<Rightarrow> 'e) \<Rightarrow> ('e \<Rightarrow> bool) \<Rightarrow> ('e \<Rightarrow> u64) \<Rightarrow> ('k \<Rightarrow> nat \<Rightarrow> nat)
    \<Rightarrow> nat \<Rightarrow> 'm \<Rightarrow> u64 \<Rightarrow> 'k \<Rightarrow> u64 option" where
  "tree_leaf get kid nxt idx 0 m t v = Some t"
| "tree_leaf get kid nxt idx (Suc n) m t v =
     (let e = get m t (idx v (Suc n)) in if kid e then tree_leaf get kid nxt idx n m (nxt e) v else None)"

definition tree_same :: "('m \<Rightarrow> u64 \<Rightarrow> nat \<Rightarrow> 'e) \<Rightarrow> nat \<Rightarrow> 'm \<Rightarrow> 'm \<Rightarrow> u64 set \<Rightarrow> bool" where
  "tree_same get fan m m' P \<longleftrightarrow> (\<forall>p\<in>P. \<forall>i<fan. get m' p i = get m p i)"

definition same_path :: "('k \<Rightarrow> nat \<Rightarrow> nat) \<Rightarrow> nat \<Rightarrow> 'k \<Rightarrow> 'k \<Rightarrow> bool" where
  "same_path idx n v w \<longleftrightarrow> (\<forall>l\<le>n. idx v l = idx w l)"

lemma same_path_Suc: "same_path idx (Suc n) v w \<longleftrightarrow> idx v (Suc n) = idx w (Suc n) \<and> same_path idx n v w"
  by (auto simp: same_path_def le_Suc_eq)

lemma distinct_concat_upt:
  "distinct (concat (map f [0..<k])) \<longleftrightarrow>
     (\<forall>i<k. distinct (f i)) \<and> (\<forall>i<k. \<forall>j<k. i \<noteq> j \<longrightarrow> set (f i) \<inter> set (f j) = {})"
proof (induction k)
  case (Suc k)
  have "distinct (concat (map f [0..<Suc k])) \<longleftrightarrow> distinct (concat (map f [0..<k])) \<and> distinct (f k)
      \<and> (\<forall>i<k. set (f i) \<inter> set (f k) = {})" by (fastforce simp: disjoint_iff)
  also have "\<dots> \<longleftrightarrow> (\<forall>i<Suc k. distinct (f i))
      \<and> (\<forall>i<Suc k. \<forall>j<Suc k. i \<noteq> j \<longrightarrow> set (f i) \<inter> set (f j) = {})"
    unfolding Suc.IH All_less_Suc by (simp add: Int_commute) blast
  finally show ?case .
qed simp

declare tree_nodes.simps(2) [simp del]

locale table_tree =
  fixes get :: "'m \<Rightarrow> u64 \<Rightarrow> nat \<Rightarrow> 'e"
    and fan :: nat
    and kid :: "'e \<Rightarrow> bool"
    and nxt :: "'e \<Rightarrow> u64"
    and idx :: "'k \<Rightarrow> nat \<Rightarrow> nat"
    and leafv :: "'e \<Rightarrow> 'r"
    and stop :: "nat \<Rightarrow> 'e \<Rightarrow> 'r"
  assumes idx_less: "idx v l < fan"
begin

abbreviation nodes :: "nat \<Rightarrow> 'm \<Rightarrow> u64 \<Rightarrow> u64 list" where
  "nodes \<equiv> tree_nodes get fan kid nxt"

abbreviation kids :: "nat \<Rightarrow> 'm \<Rightarrow> u64 \<Rightarrow> nat \<Rightarrow> u64 list" where
  "kids n \<equiv> kid_nodes get kid nxt (nodes n)"

abbreviation look :: "nat \<Rightarrow> 'm \<Rightarrow> u64 \<Rightarrow> 'k \<Rightarrow> 'r" where
  "look \<equiv> tree_look get kid nxt idx leafv stop"

abbreviation leaf :: "nat \<Rightarrow> 'm \<Rightarrow> u64 \<Rightarrow> 'k \<Rightarrow> u64 option" where
  "leaf \<equiv> tree_leaf get kid nxt idx"

abbreviation same :: "'m \<Rightarrow> 'm \<Rightarrow> u64 set \<Rightarrow> bool" where
  "same \<equiv> tree_same get fan"

lemma kids_child:
  "kid (get m t i) \<Longrightarrow> kids n m t i = nodes n m (nxt (get m t i))"
  "\<not> kid (get m t i) \<Longrightarrow> kids n m t i = []"
  by (simp_all add: kid_nodes_def)

lemma same_mono: "same m m' P \<Longrightarrow> Q \<subseteq> P \<Longrightarrow> same m m' Q"
  by (auto simp: tree_same_def)

lemma same_trans: "same m m' P \<Longrightarrow> same m' m'' P \<Longrightarrow> same m m'' P"
  by (simp add: tree_same_def)

lemma nodes_root: "t \<in> set (nodes n m t)"
  by (cases n) (simp_all add: tree_nodes.simps(2))

lemma same_root: "same m m' (set (nodes n m t)) \<Longrightarrow> i < fan \<Longrightarrow> get m' t i = get m t i"
  using nodes_root [of t n m] by (auto simp: tree_same_def)

lemma kids_subset: "i < fan \<Longrightarrow> set (kids n m t i) \<subseteq> set (nodes (Suc n) m t)"
  by (auto simp: tree_nodes.simps(2))

lemma same_kids: "same m m' (set (nodes (Suc n) m t)) \<Longrightarrow> i < fan \<Longrightarrow> same m m' (set (kids n m t i))"
  using kids_subset by (blast intro: same_mono)

lemma nodes_frame: "same m m' (set (nodes n m t)) \<Longrightarrow> nodes n m' t = nodes n m t"
proof (induction n arbitrary: t)
  case (Suc n)
  have "kids n m' t i = kids n m t i" if i: "i < fan" for i
    using same_root [OF Suc.prems i] same_kids [OF Suc.prems i] Suc.IH
    by (cases "kid (get m t i)") (simp_all add: kids_child)
  then show ?case by (auto simp: tree_nodes.simps(2) intro!: arg_cong [where f = concat] map_cong)
qed simp

lemma look_frame: "same m m' (set (nodes n m t)) \<Longrightarrow> look n m' t v = look n m t v"
proof (induction n arbitrary: t)
  case 0
  then show ?case by (simp add: tree_same_def idx_less)
next
  case (Suc n)
  then show ?case
    using same_root [OF Suc.prems idx_less] same_kids [OF Suc.prems idx_less, of v "Suc n"]
    by (cases "kid (get m t (idx v (Suc n)))") (simp_all add: kids_child)
qed

lemma leaf_frame: "same m m' (set (nodes n m t)) \<Longrightarrow> leaf n m' t v = leaf n m t v"
proof (induction n arbitrary: t)
  case (Suc n)
  then show ?case
    using same_root [OF Suc.prems idx_less] same_kids [OF Suc.prems idx_less, of v "Suc n"]
    by (cases "kid (get m t (idx v (Suc n)))") (simp_all add: kids_child)
qed simp

lemma distinct_nodes:
  "distinct (nodes (Suc n) m t) \<longleftrightarrow>
     (\<forall>i<fan. distinct (kids n m t i) \<and> t \<notin> set (kids n m t i))
     \<and> (\<forall>i<fan. \<forall>j<fan. i \<noteq> j \<longrightarrow> set (kids n m t i) \<inter> set (kids n m t j) = {})"
proof -
  have "distinct (t # concat (map f [0..<fan])) \<longleftrightarrow>
     (\<forall>i<fan. distinct (f i) \<and> t \<notin> set (f i))
     \<and> (\<forall>i<fan. \<forall>j<fan. i \<noteq> j \<longrightarrow> set (f i) \<inter> set (f j) = {})" for f
    unfolding distinct.simps distinct_concat_upt by auto
  then show ?thesis by (simp add: tree_nodes.simps(2))
qed

lemma child_nodes:
  assumes "kid (get m t i)" "i < fan"
  shows "set (nodes n m (nxt (get m t i))) \<subseteq> set (nodes (Suc n) m t)"
    and "distinct (nodes (Suc n) m t) \<Longrightarrow> distinct (nodes n m (nxt (get m t i)))"
    and "distinct (nodes (Suc n) m t) \<Longrightarrow> t \<notin> set (nodes n m (nxt (get m t i)))"
proof -
  note k = kids_child(1) [of m t i n, OF assms(1)]
  show "set (nodes n m (nxt (get m t i))) \<subseteq> set (nodes (Suc n) m t)"
    using kids_subset [OF assms(2), of n m t] k by (simp only:)
  show "distinct (nodes n m (nxt (get m t i)))"
    and "t \<notin> set (nodes n m (nxt (get m t i)))" if "distinct (nodes (Suc n) m t)"
    using that assms(2) k unfolding distinct_nodes by metis+
qed

text \<open>Changing one subtree: the memory agrees outside slot \<open>j\<close> of the root and what hangs below.\<close>

lemma subtree_update:
  assumes "distinct (nodes (Suc n) m t)" "j < fan"
    and other: "\<forall>i<fan. i \<noteq> j \<longrightarrow> get m' t i = get m t i \<and> same m m' (set (kids n m t i))"
    and new: "set (kids n m' t j) = set (kids n m t j) \<union> N" "distinct (kids n m' t j)"
    and fresh: "N \<inter> set (nodes (Suc n) m t) = {}"
  shows "distinct (nodes (Suc n) m' t)"
    and "set (nodes (Suc n) m' t) = set (nodes (Suc n) m t) \<union> N"
proof -
  have kids: "kids n m' t i = kids n m t i" if "i < fan" "i \<noteq> j" for i
  proof (cases "kid (get m t i)")
    case True
    have "same m m' (set (kids n m t i))" "get m' t i = get m t i" using other that by blast+
    then show ?thesis using nodes_frame True by (simp add: kids_child)
  qed (use other that in \<open>simp add: kids_child\<close>)
  have sets: "set (kids n m' t i) = set (kids n m t i) \<union> (if i = j then N else {})" if "i < fan" for i
    using kids [OF that] new(1) by (cases "i = j") simp_all
  show "set (nodes (Suc n) m' t) = set (nodes (Suc n) m t) \<union> N"
    using sets assms(2) by (auto simp: tree_nodes.simps(2) split: if_splits)
  have "distinct (kids n m' t i)" if "i < fan" for i
    using kids [OF that] new(2) that assms(1) unfolding distinct_nodes by (cases "i = j") simp_all
  moreover have "t \<notin> set (kids n m' t i)" if "i < fan" for i
    using sets [OF that] fresh that assms(1) nodes_root [of t "Suc n" m] unfolding distinct_nodes
    by (auto split: if_splits)
  moreover have "set (kids n m' t i) \<inter> set (kids n m' t k) = {}" if "i < fan" "k < fan" "i \<noteq> k" for i k
  proof -
    have "set (kids n m t i) \<inter> set (kids n m t k) = {}"
      using assms(1) that unfolding distinct_nodes by blast
    moreover have "N \<inter> set (kids n m t l) = {}" if "l < fan" for l
      using fresh kids_subset [OF that] by blast
    ultimately show ?thesis using sets that by auto
  qed
  ultimately show "distinct (nodes (Suc n) m' t)" unfolding distinct_nodes by blast
qed

lemma look_other_slot:
  assumes "get m' t (idx w (Suc n)) = get m t (idx w (Suc n))" "same m m' (set (kids n m t (idx w (Suc n))))"
  shows "look (Suc n) m' t w = look (Suc n) m t w"
  using assms look_frame by (cases "kid (get m t (idx w (Suc n)))") (simp_all add: kids_child)

text \<open>The leaf table of a key.\<close>

lemma leaf_page: "leaf n m t v = Some p \<Longrightarrow> p \<in> set (nodes n m t)"
proof (induction n arbitrary: t)
  case (Suc n)
  let ?e = "get m t (idx v (Suc n))"
  have "kid ?e" "leaf n m (nxt ?e) v = Some p" using Suc.prems by (auto simp: Let_def split: if_splits)
  then show ?case using Suc.IH child_nodes(1) [of m t "idx v (Suc n)" n, OF _ idx_less] by blast
qed simp

lemma look_leaf: "leaf n m t v = Some p \<Longrightarrow> look n m t v = leafv (get m p (idx v 0))"
  by (induction n arbitrary: t) (auto simp: Let_def split: if_splits)

lemma leaf_same_slots:
  assumes "distinct (nodes n m t)" "leaf n m t v = Some p" "leaf n m t w = Some p" "0 < n"
  shows "\<forall>l. 0 < l \<and> l \<le> n \<longrightarrow> idx v l = idx w l"
  using assms
proof (induction n arbitrary: t)
  case (Suc n)
  let ?i = "idx v (Suc n)" and ?j = "idx w (Suc n)"
  have v: "kid (get m t ?i)" "leaf n m (nxt (get m t ?i)) v = Some p"
    and w: "kid (get m t ?j)" "leaf n m (nxt (get m t ?j)) w = Some p"
    using Suc.prems(2,3) by (auto simp: Let_def split: if_splits)
  have "p \<in> set (kids n m t ?i)" "p \<in> set (kids n m t ?j)"
    using leaf_page [OF v(2)] leaf_page [OF w(2)] v(1) w(1) by (simp_all add: kids_child)
  then have ij: "?i = ?j" using Suc.prems(1) idx_less unfolding distinct_nodes by blast
  have "distinct (nodes n m (nxt (get m t ?i)))"
    using child_nodes(2) [of m t ?i n, OF v(1) idx_less Suc.prems(1)] .
  then have "\<forall>l. 0 < l \<and> l \<le> n \<longrightarrow> idx v l = idx w l"
    using Suc.IH v(2) w(2) ij by (cases "n = 0") auto
  then show ?case using ij by (auto simp: le_Suc_eq)
qed simp

text \<open>One step of an update on the way down: slot \<open>j\<close> of \<open>t\<close> ends up pointing to the table \<open>c\<close>, which
  answers every key of the slot as before; \<open>N\<close> are the tables added. \<open>updated\<close> is the effect of
  the whole update: the key \<open>v\<close> gets the answer \<open>r\<close>, all others keep theirs, and of the tables
  in use, \<open>P\<close>, only those of this tree change.\<close>

definition slot_step :: "nat \<Rightarrow> 'm \<Rightarrow> u64 set \<Rightarrow> u64 \<Rightarrow> nat \<Rightarrow> 'm \<Rightarrow> u64 \<Rightarrow> u64 set \<Rightarrow> bool" where
  "slot_step n m P t j m2 c N \<longleftrightarrow> same m m2 (P - {t})
     \<and> (\<forall>i<fan. i \<noteq> j \<longrightarrow> get m2 t i = get m t i)
     \<and> kid (get m2 t j) \<and> nxt (get m2 t j) = c
     \<and> set (nodes n m2 c) = set (kids n m t j) \<union> N \<and> distinct (nodes n m2 c)
     \<and> (\<forall>w. idx w (Suc n) = j \<longrightarrow> look n m2 c w = look (Suc n) m t w)"

definition updated :: "nat \<Rightarrow> 'm \<Rightarrow> u64 set \<Rightarrow> u64 \<Rightarrow> 'k \<Rightarrow> 'r \<Rightarrow> 'm \<Rightarrow> u64 set \<Rightarrow> bool" where
  "updated n m P t v r m' N \<longleftrightarrow> distinct (nodes n m' t) \<and> set (nodes n m' t) = set (nodes n m t) \<union> N
     \<and> same m m' (P - set (nodes n m t))
     \<and> (\<forall>w. look n m' t w = (if same_path idx n v w then r else look n m t w))"

lemma updated_leaf:
  assumes "same m m' (P - {t})" "\<forall>i<fan. get m' t i = (if i = idx v 0 then e else get m t i)"
  shows "updated 0 m P t v (leafv e) m' {}"
  using assms idx_less by (auto simp: updated_def same_path_def)

lemma updated_Suc:
  assumes tree: "set (nodes (Suc n) m t) \<subseteq> P" "distinct (nodes (Suc n) m t)" "(N \<union> M) \<inter> P = {}"
    and step: "slot_step n m P t (idx v (Suc n)) m2 c N"
    and rec: "updated n m2 (P \<union> N) c v r m' M"
  shows "updated (Suc n) m P t v r m' (N \<union> M)"
proof -
  let ?j = "idx v (Suc n)"
  let ?K = "\<lambda>i. set (kids n m t i)"
  have kidsP: "?K i \<subseteq> P - {t}" if "i < fan" for i
    using tree(1,2) kids_subset [OF that, of n m t] that unfolding distinct_nodes by blast
  have disj: "?K i \<inter> ?K ?j = {}" if "i < fan" "i \<noteq> ?j" for i
    using tree(2) that idx_less unfolding distinct_nodes by blast
  have sub: "set (nodes n m2 c) = ?K ?j \<union> N" using step by (simp add: slot_step_def)
  have keep2: "same m2 m' (P - ?K ?j)"
    using rec sub tree(3) by (auto simp: updated_def intro: same_mono)
  have "t \<in> P - ?K ?j" using tree(1) kidsP [OF idx_less] nodes_root by blast
  then have root: "get m' t i = get m2 t i" if "i < fan" for i
    using keep2 that by (simp add: tree_same_def)
  have keep: "same m m' (P - {t} - ?K ?j)"
  proof (rule same_trans)
    show "same m m2 (P - {t} - ?K ?j)" using step by (auto simp: slot_step_def intro: same_mono)
    show "same m2 m' (P - {t} - ?K ?j)" using keep2 by (rule same_mono) blast
  qed
  have other: "get m' t i = get m t i" "same m m' (?K i)" if "i < fan" "i \<noteq> ?j" for i
    using root that step same_mono [OF keep] kidsP [OF that(1)] disj [OF that] by (auto simp: slot_step_def)
  have ej: "kid (get m' t ?j)" "nxt (get m' t ?j) = c"
    using step root [OF idx_less] by (simp_all add: slot_step_def)
  have new: "set (kids n m' t ?j) = ?K ?j \<union> (N \<union> M)" "distinct (kids n m' t ?j)"
    using ej rec sub by (auto simp: updated_def kids_child)
  have "(N \<union> M) \<inter> set (nodes (Suc n) m t) = {}" using tree(1,3) by blast
  note nds = subtree_update [OF tree(2) idx_less _ new this]
  have look: "look (Suc n) m' t w = (if same_path idx (Suc n) v w then r else look (Suc n) m t w)" for w
  proof (cases "idx w (Suc n) = ?j")
    case True
    then have "look (Suc n) m' t w = look n m' c w" using ej by simp
    also have "\<dots> = (if same_path idx n v w then r else look (Suc n) m t w)"
      using rec step True by (simp add: updated_def slot_step_def)
    finally show ?thesis using True by (simp add: same_path_Suc)
  next
    case False
    then have "look (Suc n) m' t w = look (Suc n) m t w"
      using other [OF idx_less] by (intro look_other_slot) simp_all
    then show ?thesis using False by (simp add: same_path_Suc)
  qed
  have "same m m' (P - set (nodes (Suc n) m t))"
    by (rule same_mono [OF keep]) (use kids_subset [OF idx_less, of n m t] nodes_root [of t "Suc n" m] in blast)
  then show ?thesis using nds other look unfolding updated_def by blast
qed

text \<open>The two ways a step is made: the entry had a child and keeps it, or it gets a new table
  without children, in which every key is answered as by the old entry.\<close>

lemma slot_step_keep:
  assumes "set (nodes (Suc n) m t) \<subseteq> P" "distinct (nodes (Suc n) m t)" "j < fan"
    and "kid (get m t j)" "same m m2 (P - {t})" "\<forall>i<fan. i \<noteq> j \<longrightarrow> get m2 t i = get m t i"
    and "kid (get m2 t j)" "nxt (get m2 t j) = nxt (get m t j)"
  shows "slot_step n m P t j m2 (nxt (get m t j)) {}"
proof -
  have "set (nodes n m (nxt (get m t j))) \<subseteq> P - {t}"
    using child_nodes [of m t j n, OF assms(4,3)] assms(1,2) by blast
  from same_mono [OF assms(5) this] have sub: "same m m2 (set (nodes n m (nxt (get m t j))))" .
  show ?thesis
    using assms child_nodes(2) [of m t j n, OF assms(4,3,2)] nodes_frame [OF sub] look_frame [OF sub]
    by (simp add: slot_step_def kids_child)
qed

lemma slot_step_new:
  assumes "\<not> kid (get m t j)" "same m m2 (P - {t})" "\<forall>i<fan. i \<noteq> j \<longrightarrow> get m2 t i = get m t i"
    and "kid (get m2 t j)" "nxt (get m2 t j) = c" "nodes n m2 c = [c]"
    and "\<forall>w. look n m2 c w = stop (Suc n) (get m t j)"
  shows "slot_step n m P t j m2 c {c}"
  using assms by (auto simp: slot_step_def kids_child)

end

end
