(* ===== verification/Page_Alloc.thy ===== *)
theory Page_Alloc
  imports Phys_Correct
begin

text \<open>
  What the rest of the kernel relies on when it takes single pages from the physical allocator
  (\<^verbatim>\<open>phys::alloc_page\<close>, \<^verbatim>\<open>phys::free_page\<close>): the contract \<open>page_source\<close>. \<open>pages\<close> is the multiset
  of free page numbers, \<open>owned\<close> the condition under which a page may be given back. The
  contract is discharged for the buddy allocator; the page tables add a second instance.
\<close>

locale page_source =
  fixes alloc :: "'s \<Rightarrow> ('s \<times> u64 option) option"
    and free :: "'s \<Rightarrow> u64 \<Rightarrow> 's option"
    and ok :: "'s \<Rightarrow> bool"
    and pages :: "'s \<Rightarrow> nat multiset"
    and owned :: "'s \<Rightarrow> u64 \<Rightarrow> bool"
    and limit :: "'s \<Rightarrow> nat"
  assumes alloc_law: "ok s \<Longrightarrow> \<exists>s' r. alloc s = Some (s', r) \<and> ok s' \<and> limit s' = limit s
      \<and> (case r of
           None \<Rightarrow> s' = s \<and> pages s = {#}
         | Some a \<Rightarrow> 4096 dvd unat a \<and> unat a + 4096 \<le> limit s
             \<and> pages s = add_mset (page_of a) (pages s') \<and> owned s' a)"
    and free_law: "ok s \<Longrightarrow> owned s a \<Longrightarrow> \<exists>s'. free s a = Some s' \<and> ok s' \<and> limit s' = limit s
      \<and> pages s' = add_mset (page_of a) (pages s)"
    and pages_once: "ok s \<Longrightarrow> count (pages s) p \<le> 1"
begin

lemma alloc_some:
  assumes "ok s" "pages s \<noteq> {#}"
  obtains s' a where "alloc s = Some (s', Some a)" "ok s'" "limit s' = limit s" "4096 dvd unat a"
    "unat a + 4096 \<le> limit s" "pages s = add_mset (page_of a) (pages s')" "owned s' a"
    "page_of a \<notin># pages s'"
proof -
  from alloc_law [OF assms(1)] obtain s' r where r: "alloc s = Some (s', r)" "ok s'" "limit s' = limit s"
    "case r of None \<Rightarrow> s' = s \<and> pages s = {#}
     | Some a \<Rightarrow> 4096 dvd unat a \<and> unat a + 4096 \<le> limit s
         \<and> pages s = add_mset (page_of a) (pages s') \<and> owned s' a" by blast
  with assms(2) obtain a where a: "r = Some a" by (cases r) auto
  then have "count (pages s) (page_of a) \<le> 1" "pages s = add_mset (page_of a) (pages s')"
    using pages_once [OF assms(1), of "page_of a"] r(4) by simp_all
  then have "page_of a \<notin># pages s'" by (simp add: not_in_iff)
  with r a that show ?thesis by simp
qed

lemma alloc_returns:
  assumes "ok s" "alloc s = Some (s', Some a)"
  shows "ok s' \<and> limit s' = limit s \<and> 4096 dvd unat a \<and> unat a + 4096 \<le> limit s
    \<and> pages s = add_mset (page_of a) (pages s') \<and> owned s' a \<and> page_of a \<notin># pages s'"
proof -
  have "pages s \<noteq> {#}" using alloc_law [OF assms(1)] assms(2) by auto
  from alloc_some [OF assms(1) this] show ?thesis using assms(2) by force
qed

lemma alloc_none_iff:
  assumes "ok s"
  shows "(\<exists>s'. alloc s = Some (s', None)) \<longleftrightarrow> pages s = {#}"
  using alloc_law [OF assms] by (auto split: option.splits)

lemma alloc_free_restores:
  assumes "ok s" "alloc s = Some (s', Some a)"
  shows "\<exists>s''. free s' a = Some s'' \<and> ok s'' \<and> pages s'' = pages s"
  using free_law [of s' a] alloc_returns [OF assms] by auto

end

definition page_owned :: "phys_state \<Rightarrow> u64 \<Rightarrow> bool" where
  "page_owned z a \<longleftrightarrow> block_in z 0 a \<and> \<not> is_reserved_page z (of_nat (page_of a))
     \<and> page_of a \<notin># free_mset z \<and> last_ref z (page_of a)"

lemma block_mset_0 [simp]: "block_mset 0 a = {#page_of a#}"
  by (simp add: block_mset_def)

lemma no_free_lists:
  assumes "\<forall>h\<in>{0..MAX_ORDER}. free_lists z ! h = []"
  shows "free_mset z = {#}"
  using assms by (auto simp: free_mset_def lists_mset_def MAX_ORDER_def intro!: sum.neutral)

lemma allocated_page_owned:
  assumes "phys_inv z" "allocated z 0 z' a"
  shows "phys_inv z'" "page_owned z' a" "zone_top z' = zone_top z"
proof -
  from assms(2) have step: "phys_step z z'" and fm: "free_mset z = add_mset (page_of a) (free_mset z')"
    and blk: "block_in z' 0 a" and last: "last_ref z' (page_of a)"
    using block_in_cfg [OF phys_stepD(2)]
    by (auto simp: allocated_def last_ref_def reset_refcount_def Let_def)
  show "phys_inv z'" by (rule phys_inv_take [OF assms(1) step]) (simp add: fm)
  have "page_of a \<in># free_mset z" by (simp add: fm)
  then have res: "\<not> is_reserved_page z' (of_nat (page_of a))"
    using assms(1) is_reserved_cfg [OF phys_stepD(2) [OF step]] by (simp add: phys_inv_def)
  have "count (free_mset z) (page_of a) \<le> 1" using assms(1) by (simp add: phys_inv_def)
  then have "page_of a \<notin># free_mset z'" by (simp add: fm not_in_iff)
  with blk res last show "page_owned z' a" by (simp add: page_owned_def)
  show "zone_top z' = zone_top z" using phys_stepD(2) [OF step] by (simp add: phys_cfg_def)
qed

lemma alloc_page_law:
  assumes "phys_inv z"
  shows "\<exists>z' r. alloc_page z = Some (z', r) \<and> phys_inv z' \<and> unat (zone_top z') = unat (zone_top z)
      \<and> (case r of
           None \<Rightarrow> z' = z \<and> free_mset z = {#}
         | Some a \<Rightarrow> 4096 dvd unat a \<and> unat a + 4096 \<le> unat (zone_top z)
             \<and> free_mset z = add_mset (page_of a) (free_mset z') \<and> page_owned z' a)"
proof -
  have ok: "blocks_ok z" using assms by (simp add: phys_inv_def)
  obtain z' r where a: "alloc_order z 0 = Some (z', r)" "alloc_post z 0 {0..MAX_ORDER} z' r"
    using alloc_order_correct [OF ok] by blast
  show ?thesis
  proof (cases r)
    case None
    then show ?thesis using a assms no_free_lists by (simp add: alloc_page_def alloc_post_def)
  next
    case (Some b)
    then have al: "allocated z 0 z' b" using a(2) by (simp add: alloc_post_def)
    then have "4096 dvd unat b" "unat b + 4096 \<le> unat (zone_top z)"
      "free_mset z = add_mset (page_of b) (free_mset z')"
      by (auto simp: allocated_def block_in_def)
    then show ?thesis using a(1) Some allocated_page_owned [OF assms al] by (simp add: alloc_page_def)
  qed
qed

lemma free_page_law:
  assumes "phys_inv z" "page_owned z a"
  shows "\<exists>z'. free_page z a = Some z' \<and> phys_inv z' \<and> unat (zone_top z') = unat (zone_top z)
    \<and> free_mset z' = add_mset (page_of a) (free_mset z)"
proof -
  have ok: "blocks_ok z" using assms by (simp add: phys_inv_def)
  from free_order_correct [OF ok, of 0 a] assms(2) obtain z' where
    z': "free_order z a 0 = Some z'" "phys_step z z'" "free_mset z' = free_mset z + {#page_of a#}"
    by (auto simp: page_owned_def)
  have "phys_inv z'"
    by (rule phys_inv_give [OF assms(1) z'(2), of "{#page_of a#}"])
      (use assms(2) z'(3) in \<open>auto simp: page_owned_def\<close>)
  moreover have "zone_top z' = zone_top z" using phys_stepD(2) [OF z'(2)] by (simp add: phys_cfg_def)
  ultimately show ?thesis using z' by (simp add: free_page_def)
qed

interpretation buddy: page_source alloc_page free_page phys_inv free_mset page_owned "\<lambda>z. unat (zone_top z)"
proof
  show "count (free_mset z) p \<le> 1" if "phys_inv z" for z p using that by (simp add: phys_inv_def)
qed (auto intro: alloc_page_law free_page_law)

end
