(* ===== verification/Vma_Correct.thy ===== *)
theory Vma_Correct
  imports Vma Table_Tree Page_Alloc
begin

text \<open>
  Correctness of the radix tree of memory areas. The tree is a table tree in the sense of
  \<open>Table_Tree\<close>: insertion and lookup implement a finite map from page numbers to areas. The
  visitors of the tree, which start one level too high, are shown to have no defined result on
  any tree that holds an area.
\<close>

declare upt_rec_numeral [simp del]

section \<open>The tree as a table tree\<close>

definition rx_get :: "(u64 \<Rightarrow> (nat \<Rightarrow> u64) option) \<Rightarrow> u64 \<Rightarrow> nat \<Rightarrow> u64" where
  "rx_get h p i = (case h p of None \<Rightarrow> 0 | Some f \<Rightarrow> f i)"

definition rx_leaf :: "u64 \<Rightarrow> u64 option" where
  "rx_leaf e = (if e = 0 then None else Some e)"

lemma radix_index_less: "radix_index a l < 1024"
proof -
  have "drop_bit (radix_shift l) a AND RADIX_MASK \<le> RADIX_MASK" by (simp add: word_and_le1)
  then show ?thesis by (simp add: radix_index_def RADIX_MASK_def word_le_nat_alt)
qed

interpretation rx: table_tree rx_get 1024 "\<lambda>e. e \<noteq> 0" "\<lambda>e. e" radix_index rx_leaf "\<lambda>_ _. None"
  by unfold_locales (rule radix_index_less)

abbreviation rx_nodes :: "nat \<Rightarrow> (u64 \<Rightarrow> (nat \<Rightarrow> u64) option) \<Rightarrow> u64 \<Rightarrow> u64 list" where
  "rx_nodes \<equiv> tree_nodes rx_get 1024 (\<lambda>e. e \<noteq> 0) (\<lambda>e. e)"

text \<open>The area registered for the page of an address, below node \<open>t\<close> at level \<open>n\<close>.\<close>

abbreviation rx_look :: "nat \<Rightarrow> (u64 \<Rightarrow> (nat \<Rightarrow> u64) option) \<Rightarrow> u64 \<Rightarrow> u64 \<Rightarrow> u64 option" where
  "rx_look \<equiv> tree_look rx_get (\<lambda>e. e \<noteq> 0) (\<lambda>e. e) radix_index rx_leaf (\<lambda>_ _. None)"

abbreviation rx_leaf_node :: "nat \<Rightarrow> (u64 \<Rightarrow> (nat \<Rightarrow> u64) option) \<Rightarrow> u64 \<Rightarrow> u64 \<Rightarrow> u64 option" where
  "rx_leaf_node \<equiv> tree_leaf rx_get (\<lambda>e. e \<noteq> 0) (\<lambda>e. e) radix_index"

text \<open>A node is a block of two pages that belongs to the tree.\<close>

definition node_owned :: "phys_state \<Rightarrow> u64 \<Rightarrow> bool" where
  "node_owned z p \<longleftrightarrow> p \<noteq> 0 \<and> block_in z 1 p
     \<and> (\<forall>q\<in>#block_mset 1 p. q \<notin># free_mset z \<and> \<not> is_reserved_page z (of_nat q))"

definition radix_ok :: "vma_sys \<Rightarrow> u64 set \<Rightarrow> bool" where
  "radix_ok s P \<longleftrightarrow> phys_inv (vphys (svm s)) \<and> 0 \<notin># free_mset (vphys (svm s))
     \<and> (\<forall>p\<in>P. rnode s p \<noteq> None \<and> node_owned (vphys (svm s)) p)"

definition tree_ok :: "vma_sys \<Rightarrow> u64 set \<Rightarrow> u64 \<Rightarrow> bool" where
  "tree_ok s P root \<longleftrightarrow> radix_ok s P
     \<and> (root \<noteq> 0 \<longrightarrow> set (rx_nodes 3 (rnode s) root) \<subseteq> P \<and> distinct (rx_nodes 3 (rnode s) root))"

definition area_at :: "vma_sys \<Rightarrow> u64 \<Rightarrow> u64 \<Rightarrow> u64 option" where
  "area_at s root a = (if root = 0 then None else rx_look 3 (rnode s) root a)"

lemma rx_get_upd [simp]: "rx_get (h(p := Some f)) q i = (if q = p then f i else rx_get h q i)"
  by (simp add: rx_get_def)

lemma rx_get_Some: "h p = Some f \<Longrightarrow> rx_get h p = f"
  by (rule ext) (simp add: rx_get_def)

lemma set_entry_eq:
  "rnode s p \<noteq> None \<Longrightarrow> set_entry s p i v = Some (s\<lparr> rnode := (rnode s)(p := Some ((rx_get (rnode s) p)(i := v))) \<rparr>)"
  by (auto simp: set_entry_def rx_get_Some)

lemma upt_levels: "rev [Suc 0..<Suc (Suc n)] = Suc n # rev [Suc 0..<Suc n]"
  by simp

section \<open>Lookup\<close>

lemma lookup_walk_leaf:
  assumes "\<forall>p\<in>set (rx_nodes n (rnode s) t). rnode s p \<noteq> None"
  shows "lookup_walk s a t (rev [1..<Suc n]) = Some (rx_leaf_node n (rnode s) t a)"
  using assms
proof (induction n arbitrary: t)
  case (Suc n)
  let ?i = "radix_index a (Suc n)"
  obtain f where f: "rnode s t = Some f" using Suc.prems rx.nodes_root [of t "Suc n" "rnode s"] by auto
  then have fi: "f ?i = rx_get (rnode s) t ?i" by (simp add: rx_get_def)
  show ?case
  proof (cases "rx_get (rnode s) t ?i = 0")
    case False
    then have "set (rx_nodes n (rnode s) (rx_get (rnode s) t ?i)) \<subseteq> set (rx_nodes (Suc n) (rnode s) t)"
      by (intro rx.child_nodes(1)) (simp_all add: radix_index_less)
    then have "lookup_walk s a (rx_get (rnode s) t ?i) (rev [1..<Suc n])
        = Some (rx_leaf_node n (rnode s) (rx_get (rnode s) t ?i) a)" using Suc by blast
    then show ?thesis using f fi False by (simp add: upt_levels del: upt_Suc)
  qed (use f fi in \<open>simp add: upt_levels del: upt_Suc\<close>)
qed simp

lemma rx_look_no_leaf: "rx_leaf_node n h t a = None \<Longrightarrow> rx_look n h t a = None"
  by (induction n arbitrary: t) (auto simp: Let_def split: if_splits)

lemma vma_lookup_area:
  assumes "tree_ok s P root"
  shows "vma_lookup s root a = Some (area_at s root a)"
proof (cases "root = 0")
  case False
  have live: "\<forall>p\<in>set (rx_nodes 3 (rnode s) root). rnode s p \<noteq> None"
    using assms False by (auto simp: tree_ok_def radix_ok_def)
  have walk: "lookup_walk s a root (rev [1..<RADIX_LEVELS]) = Some (rx_leaf_node 3 (rnode s) root a)"
    using lookup_walk_leaf [of 3 s root a] live by (simp add: RADIX_LEVELS_def)
  show ?thesis
  proof (cases "rx_leaf_node 3 (rnode s) root a")
    case None
    then show ?thesis using walk False rx_look_no_leaf by (simp add: vma_lookup_def area_at_def)
  next
    case (Some p)
    then obtain f where "rnode s p = Some f" using rx.leaf_page [OF Some] live by auto
    then show ?thesis
      using walk False Some rx.look_leaf [OF Some]
      by (simp add: vma_lookup_def area_at_def rx_leaf_def rx_get_def Let_def)
  qed
qed (simp add: vma_lookup_def area_at_def)

section \<open>Insertion\<close>

text \<open>What the tree takes from the allocator: \<open>N\<close> are the new nodes.\<close>

definition rgrown :: "vma_sys \<Rightarrow> vma_sys \<Rightarrow> u64 list \<Rightarrow> bool" where
  "rgrown s s' N \<longleftrightarrow> phys_inv (vphys (svm s')) \<and> phys_step (vphys (svm s)) (vphys (svm s'))
     \<and> free_mset (vphys (svm s)) = free_mset (vphys (svm s')) + (\<Sum>p\<leftarrow>N. block_mset 1 p)
     \<and> (\<forall>p\<in>set N. node_owned (vphys (svm s')) p \<and> rnode s' p \<noteq> None)
     \<and> (\<forall>p. rnode s p \<noteq> None \<longrightarrow> rnode s' p \<noteq> None)
     \<and> svm s' = (svm s)\<lparr> vphys := vphys (svm s') \<rparr> \<and> boxes s' = boxes s
     \<and> kernel_root s' = kernel_root s \<and> kernel_vma_initialized s' = kernel_vma_initialized s"

lemma node_owned_step:
  assumes "node_owned z p" "phys_step z z'" "free_mset z' \<subseteq># free_mset z"
  shows "node_owned z' p"
  using assms(1) block_in_cfg [OF phys_stepD(2) [OF assms(2)]] is_reserved_cfg [OF phys_stepD(2) [OF assms(2)]]
    mset_subset_eqD [OF assms(3)]
  by (auto simp: node_owned_def)

lemma page_in_sum: "p \<in> set N \<Longrightarrow> page_of p \<in># (\<Sum>p\<leftarrow>N. block_mset 1 p)"
  by (induction N) auto

lemma rgrown_ok:
  assumes "radix_ok s P" "rgrown s s' N"
  shows "radix_ok s' (P \<union> set N)" "set N \<inter> P = {}"
proof -
  have sub: "free_mset (vphys (svm s')) \<subseteq># free_mset (vphys (svm s))" using assms(2) by (simp add: rgrown_def)
  then show "radix_ok s' (P \<union> set N)"
    using assms node_owned_step [of "vphys (svm s)" _ "vphys (svm s')"] mset_subset_eqD [OF sub]
    by (auto simp: radix_ok_def rgrown_def)
  have "page_of p \<in># free_mset (vphys (svm s))" if "p \<in> set N" for p
    using page_in_sum [OF that] assms(2) by (simp add: rgrown_def)
  moreover have "page_of p \<notin># free_mset (vphys (svm s))" if "p \<in> P" for p
    using assms(1) that by (auto simp: radix_ok_def node_owned_def)
  ultimately show "set N \<inter> P = {}" by blast
qed

lemma rgrown_trans:
  assumes "rgrown s s' N" "rgrown s' s'' M"
  shows "rgrown s s'' (N @ M)"
proof -
  have "free_mset (vphys (svm s'')) \<subseteq># free_mset (vphys (svm s'))" using assms(2) by (simp add: rgrown_def)
  then have "node_owned (vphys (svm s'')) p" if "p \<in> set N" for p
    using assms that node_owned_step [of "vphys (svm s')" p] by (auto simp: rgrown_def)
  moreover have "phys_step (vphys (svm s)) (vphys (svm s''))"
    using assms phys_step_trans by (auto simp: rgrown_def)
  moreover have "svm s'' = (svm s)\<lparr> vphys := vphys (svm s'') \<rparr>"
  proof -
    have 1: "svm s' = (svm s)\<lparr> vphys := vphys (svm s') \<rparr>" and 2: "svm s'' = (svm s')\<lparr> vphys := vphys (svm s'') \<rparr>"
      using assms by (simp_all add: rgrown_def)
    have "(svm s')\<lparr> vphys := x \<rparr> = (svm s)\<lparr> vphys := x \<rparr>" for x by (subst 1) simp
    with 2 show ?thesis by simp
  qed
  moreover have "boxes s'' = boxes s \<and> kernel_root s'' = kernel_root s
      \<and> kernel_vma_initialized s'' = kernel_vma_initialized s"
    using assms by (simp add: rgrown_def)
  moreover have "free_mset (vphys (svm s)) = free_mset (vphys (svm s'')) + (\<Sum>p\<leftarrow>N @ M. block_mset 1 p)"
    using assms by (simp add: rgrown_def)
  ultimately show ?thesis using assms unfolding rgrown_def by auto
qed

lemma rgrown_write:
  assumes "radix_ok s P" "p \<in> P"
  shows "rgrown s (s\<lparr> rnode := (rnode s)(p := Some f) \<rparr>) []"
  using assms phys_step_refl [of "vphys (svm s)"] by (simp add: rgrown_def radix_ok_def phys_inv_def)

text \<open>A node can be had as long as the list of two-page blocks is not empty.\<close>

abbreviation pairs :: "vma_sys \<Rightarrow> nat" where
  "pairs s \<equiv> length (free_lists (vphys (svm s)) ! 1)"

lemma alloc_order_1_pop:
  assumes "alloc_order z 1 = Some (z', r)" "length (free_lists z) = 11"
  shows "length (free_lists z ! 1) \<le> length (free_lists z' ! 1) + 1"
proof (cases "free_lists z ! 1")
  case (Cons a rest)
  then have "free_lists z' = (free_lists z)[1 := rest]"
    using assms by (auto simp: alloc_order_def pop_block_def MAX_ORDER_def reset_refcount_def Let_def)
  then show ?thesis using Cons assms(2) by simp
qed simp

lemma radix_new_zeroed_ok:
  assumes "radix_ok s P"
  shows "case radix_new_zeroed s of
      None \<Rightarrow> pairs s = 0
    | Some (s', a) \<Rightarrow> rgrown s s' [a] \<and> rnode s' = (rnode s)(a := Some (\<lambda>_. 0)) \<and> a \<noteq> 0
        \<and> pairs s \<le> pairs s' + 1"
proof -
  let ?z = "vphys (svm s)"
  have inv: "phys_inv ?z" and ok: "blocks_ok ?z" using assms by (simp_all add: radix_ok_def phys_inv_def)
  obtain z' r where al: "alloc_order ?z 1 = Some (z', r)" "alloc_post ?z 1 {1..MAX_ORDER} z' r"
    using alloc_order_correct [OF ok, of 1] by (auto simp: MAX_ORDER_def)
  show ?thesis
  proof (cases r)
    case None
    then show ?thesis using al by (simp add: radix_new_zeroed_def alloc_post_def MAX_ORDER_def)
  next
    case (Some a)
    then have alloc: "allocated ?z 1 z' a" using al(2) by (simp add: alloc_post_def)
    then have st: "phys_step ?z z'" and fm: "free_mset ?z = free_mset z' + block_mset 1 a" and blk: "block_in ?z 1 a"
      by (simp_all add: allocated_def)
    have inv': "phys_inv z'" by (rule phys_inv_take [OF inv st]) (simp add: fm)
    have own: "node_owned z' a"
      unfolding node_owned_def
    proof (intro conjI ballI)
      have "page_of a \<in># free_mset ?z" by (simp add: fm)
      then show "a \<noteq> 0" using assms by (auto simp: radix_ok_def page_of_def)
      show "block_in z' 1 a" using blk block_in_cfg [OF phys_stepD(2) [OF st]] by blast
      fix q assume q: "q \<in># block_mset 1 a"
      then have c: "count (free_mset z') q + count (block_mset 1 a) q \<le> 1" and "q \<in># free_mset ?z"
        using inv by (simp_all add: phys_inv_def fm)
      then show "\<not> is_reserved_page z' (of_nat q)"
        using inv is_reserved_cfg [OF phys_stepD(2) [OF st]] by (simp add: phys_inv_def)
      have "0 < count (block_mset 1 a) q" using q by (simp only: count_greater_zero_iff)
      then have "count (free_mset z') q = 0" using c by arith
      then show "q \<notin># free_mset z'" by (simp add: not_in_iff)
    qed
    have pr: "length (free_lists ?z ! 1) \<le> length (free_lists z' ! 1) + 1"
      using alloc_order_1_pop [OF al(1)] ok by (simp add: blocks_ok_def)
    show ?thesis
      using al(1) Some st fm inv' own pr by (simp add: radix_new_zeroed_def rgrown_def set_phys_def node_owned_def)
  qed
qed

definition insert_at :: "nat \<Rightarrow> vma_sys \<Rightarrow> u64 \<Rightarrow> u64 \<Rightarrow> u64 \<Rightarrow> vma_sys option" where
  "insert_at n s t a p = do {
     (s', node) \<leftarrow> insert_walk s a t (rev [Suc 0..<Suc n]);
     set_entry s' node (radix_index a 0) p
   }"

lemma rx_nodes_zeroed: "\<forall>i<1024. rx_get h t i = 0 \<Longrightarrow> rx_nodes n h t = [t] \<and> rx_look n h t w = None"
  by (cases n) (auto simp: tree_nodes.simps(2) kid_nodes_def radix_index_less rx_leaf_def)

lemma write_node_same:
  "tree_same rx_get 1024 h (h(p := Some f)) (P - {p})"
  by (auto simp: tree_same_def)

text \<open>The outcome of inserting below \<open>t\<close>: out of blocks, or a tree that has grown by \<open>N\<close>.\<close>

definition inserted :: "nat \<Rightarrow> vma_sys \<Rightarrow> u64 set \<Rightarrow> u64 \<Rightarrow> u64 \<Rightarrow> u64 \<Rightarrow> vma_sys option \<Rightarrow> bool" where
  "inserted n s P t a p r \<longleftrightarrow> (case r of
      None \<Rightarrow> pairs s < n
    | Some s' \<Rightarrow> \<exists>N. rgrown s s' N \<and> rx.updated n (rnode s) P t a (rx_leaf p) (rnode s') (set N))"

lemma inserted_step:
  assumes ok: "radix_ok s P" "set (rx_nodes (Suc n) (rnode s) t) \<subseteq> P" "distinct (rx_nodes (Suc n) (rnode s) t)"
    and step: "rx.slot_step n (rnode s) P t (radix_index a (Suc n)) (rnode s2) c (set N)" "rgrown s s2 N"
      "pairs s \<le> pairs s2 + 1"
    and rec: "inserted n s2 (P \<union> set N) c a p r"
  shows "inserted (Suc n) s P t a p r"
proof (cases r)
  case None
  then show ?thesis using rec step(3) by (simp add: inserted_def)
next
  case (Some s')
  with rec obtain M where m: "rgrown s2 s' M"
    "rx.updated n (rnode s2) (P \<union> set N) c a (rx_leaf p) (rnode s') (set M)" by (auto simp: inserted_def)
  have g: "rgrown s s' (N @ M)" using step(2) m(1) by (rule rgrown_trans)
  have "(set N \<union> set M) \<inter> P = {}" using rgrown_ok(2) [OF ok(1) g] by simp
  from rx.updated_Suc [OF ok(2,3) this step(1) m(2)]
  have "rx.updated (Suc n) (rnode s) P t a (rx_leaf p) (rnode s') (set (N @ M))" by simp
  with g Some show ?thesis unfolding inserted_def by auto
qed

lemma rgrown_refl: "radix_ok s P \<Longrightarrow> rgrown s s []"
  using phys_step_refl [of "vphys (svm s)"] by (simp add: rgrown_def radix_ok_def phys_inv_def)

lemma new_child_step:
  assumes "radix_ok s P" "t \<in> P" "rnode s t = Some f" "f j = 0" "radix_new_zeroed s = Some (s1, c)"
  obtains s2 where "set_entry s1 t j c = Some s2" "rgrown s s2 [c]" "pairs s \<le> pairs s2 + 1" "c \<notin> P"
    "rx.slot_step n (rnode s) P t j (rnode s2) c {c}" "rx_nodes n (rnode s2) c = [c]"
proof -
  note nz = radix_new_zeroed_ok [OF assms(1), unfolded assms(5), simplified]
  have fe: "rx_get (rnode s) t = f" using assms(3) by (rule rx_get_Some)
  have c: "c \<notin> P" using rgrown_ok(2) [OF assms(1), of s1 "[c]"] nz by simp
  then have ct: "c \<noteq> t" using assms(2) by blast
  let ?s2 = "s1\<lparr> rnode := (rnode s1)(t := Some (f(j := c))) \<rparr>"
  have ok1: "radix_ok s1 (P \<union> {c})" using rgrown_ok(1) [OF assms(1), of s1 "[c]"] nz by simp
  have t1: "rnode s1 t = Some f" using nz assms(3) ct by simp
  have gr2: "rgrown s ?s2 [c]"
    using rgrown_trans [of s s1 "[c]" ?s2 "[]"] rgrown_write [OF ok1, of t] assms(2) nz by simp
  have "\<forall>i<1024. rx_get (rnode ?s2) c i = 0" using nz ct by simp
  then have zero: "rx_nodes n (rnode ?s2) c = [c]" "\<And>w. rx_look n (rnode ?s2) c w = None"
    using rx_nodes_zeroed by blast+
  have "rx.slot_step n (rnode s) P t j (rnode ?s2) c {c}"
  proof (rule rx.slot_step_new)
    show "tree_same rx_get 1024 (rnode s) (rnode ?s2) (P - {t})" using nz c by (auto simp: tree_same_def)
  qed (use assms(4) fe nz zero in auto)
  moreover have "set_entry s1 t j c = Some ?s2" using t1 by (simp add: set_entry_def)
  ultimately show ?thesis using that gr2 nz c zero(1) by simp
qed

lemma insert_at_correct:
  assumes "radix_ok s P" "set (rx_nodes n (rnode s) t) \<subseteq> P" "distinct (rx_nodes n (rnode s) t)"
  shows "inserted n s P t a p (insert_at n s t a p)"
  using assms
proof (induction n arbitrary: s P t)
  case 0
  then have t: "t \<in> P" "rnode s t \<noteq> None" by (auto simp: radix_ok_def)
  let ?s' = "s\<lparr> rnode := (rnode s)(t := Some ((rx_get (rnode s) t)(radix_index a 0 := p))) \<rparr>"
  have "rx.updated 0 (rnode s) P t a (rx_leaf p) (rnode ?s') (set [])"
    using rx.updated_leaf [of "rnode s" "rnode ?s'" P t a p] by (simp add: write_node_same)
  moreover have "insert_at 0 s t a p = Some ?s'" using set_entry_eq [OF t(2)] by (simp add: insert_at_def)
  ultimately show ?case
    using rgrown_write [OF 0(1) t(1)] unfolding inserted_def by (auto intro!: exI [of _ "[]"])
next
  case (Suc n)
  let ?j = "radix_index a (Suc n)"
  have t: "t \<in> P" using Suc.prems(2) rx.nodes_root by blast
  then obtain f where f: "rnode s t = Some f" using Suc.prems(1) by (auto simp: radix_ok_def)
  then have fe: "rx_get (rnode s) t = f" by (rule rx_get_Some)
  show ?case
  proof (cases "f ?j = 0")
    case False
    have cn: "set (rx_nodes n (rnode s) (f ?j)) \<subseteq> P" "distinct (rx_nodes n (rnode s) (f ?j))"
      using rx.child_nodes(1,2) [of "rnode s" t ?j n] False fe radix_index_less Suc.prems(2,3) by auto
    have "rx.slot_step n (rnode s) P t ?j (rnode s) (f ?j) (set [])"
      using rx.slot_step_keep [OF Suc.prems(2,3) radix_index_less, of a "Suc n" "rnode s"] False fe
      by (simp add: tree_same_def)
    moreover have "insert_at (Suc n) s t a p = insert_at n s (f ?j) a p"
      using f False by (simp add: insert_at_def upt_levels del: upt_Suc)
    moreover have "inserted n s (P \<union> set []) (f ?j) a p (insert_at n s (f ?j) a p)"
      using Suc.IH [OF Suc.prems(1) cn] by simp
    ultimately show ?thesis
      using inserted_step [OF Suc.prems _ rgrown_refl [OF Suc.prems(1)]] by simp
  next
    case True
    show ?thesis
    proof (cases "radix_new_zeroed s")
      case None
      then show ?thesis using radix_new_zeroed_ok [OF Suc.prems(1)] f True
        by (simp add: inserted_def insert_at_def upt_levels del: upt_Suc)
    next
      case (Some r)
      then obtain s1 c where "radix_new_zeroed s = Some (s1, c)" by fastforce
      note nz = this
      obtain s2 where s2: "set_entry s1 t ?j c = Some s2" "rgrown s s2 [c]" "pairs s \<le> pairs s2 + 1" "c \<notin> P"
        "rx.slot_step n (rnode s) P t ?j (rnode s2) c {c}" "rx_nodes n (rnode s2) c = [c]"
        using new_child_step [OF Suc.prems(1) t f True nz] by blast
      have "insert_at (Suc n) s t a p = insert_at n s2 c a p"
        using f True nz s2(1) by (simp add: insert_at_def upt_levels del: upt_Suc)
      moreover have "radix_ok s2 (P \<union> {c})" using rgrown_ok(1) [OF Suc.prems(1) s2(2)] by simp
      ultimately show ?thesis
        using inserted_step [OF Suc.prems _ s2(2,3), of a c p] s2(5,6) Suc.IH [of s2 "P \<union> {c}" c] by simp
    qed
  qed
qed

lemma vma_insert_at:
  assumes "boxes s p = Some v" "root \<noteq> 0"
  shows "vma_insert s root p = map_option (\<lambda>s'. (s', root)) (insert_at 3 s root (vma_start v) p)"
  using assms by (cases "insert_walk s (vma_start v) root (rev [Suc 0..<Suc 3])")
    (auto simp: vma_insert_def insert_at_def RADIX_LEVELS_def numeral_eq_Suc split: prod.splits option.splits bind_splits)

lemma insert_nonempty:
  assumes "tree_ok s P root" "root \<noteq> 0" "boxes s p = Some v" "p \<noteq> 0"
  shows "case vma_insert s root p of
      None \<Rightarrow> pairs s < 3
    | Some (s', root') \<Rightarrow> root' = root \<and> (\<exists>N. rgrown s s' N \<and> tree_ok s' (P \<union> set N) root
        \<and> tree_same rx_get 1024 (rnode s) (rnode s') (P - set (rx_nodes 3 (rnode s) root))
        \<and> (\<forall>a. area_at s' root a =
             (if same_path radix_index 3 (vma_start v) a then Some p else area_at s root a)))"
proof (cases "insert_at 3 s root (vma_start v) p")
  case None
  have "radix_ok s P" "set (rx_nodes 3 (rnode s) root) \<subseteq> P" "distinct (rx_nodes 3 (rnode s) root)"
    using assms(1,2) by (simp_all add: tree_ok_def)
  from insert_at_correct [OF this, of "vma_start v" p] show ?thesis
    using None vma_insert_at [OF assms(3,2)] by (simp add: inserted_def)
next
  case (Some s')
  have ok: "radix_ok s P" "set (rx_nodes 3 (rnode s) root) \<subseteq> P" "distinct (rx_nodes 3 (rnode s) root)"
    using assms(1,2) by (simp_all add: tree_ok_def)
  from insert_at_correct [OF this, of "vma_start v" p] Some obtain N where n: "rgrown s s' N"
    "rx.updated 3 (rnode s) P root (vma_start v) (rx_leaf p) (rnode s') (set N)" by (auto simp: inserted_def)
  have "tree_ok s' (P \<union> set N) root"
    using rgrown_ok(1) [OF ok(1) n(1)] n(2) ok(2) by (auto simp: tree_ok_def rx.updated_def)
  then show ?thesis
    using Some vma_insert_at [OF assms(3,2)] n assms(2,4) by (auto simp: rx.updated_def area_at_def rx_leaf_def)
qed

lemma vma_insert_empty:
  assumes "boxes s p = Some v" "radix_new_zeroed s = Some (s1, c)" "c \<noteq> 0" "boxes s1 = boxes s"
  shows "vma_insert s 0 p = vma_insert s1 c p"
  using assms by (simp add: vma_insert_def)

lemma new_root_ok:
  assumes "tree_ok s P 0" "radix_new_zeroed s = Some (s1, c)"
  shows "rgrown s s1 [c]" "c \<noteq> 0" "c \<notin> P" "pairs s \<le> pairs s1 + 1" "tree_ok s1 (P \<union> {c}) c"
    "area_at s1 c a = None" "rx_nodes 3 (rnode s1) c = [c]" "tree_same rx_get 1024 (rnode s) (rnode s1) P"
proof -
  have ok: "radix_ok s P" using assms(1) by (simp add: tree_ok_def)
  note nz = radix_new_zeroed_ok [OF ok, unfolded assms(2), simplified]
  have zero: "rx_nodes 3 (rnode s1) c = [c] \<and> rx_look 3 (rnode s1) c w = None" for w
    by (rule rx_nodes_zeroed) (simp add: nz)
  show "rgrown s s1 [c]" "c \<noteq> 0" "pairs s \<le> pairs s1 + 1" using nz by simp_all
  show c: "c \<notin> P" using rgrown_ok(2) [OF ok, of s1 "[c]"] nz by simp
  show "tree_ok s1 (P \<union> {c}) c" using rgrown_ok(1) [OF ok, of s1 "[c]"] nz zero by (simp add: tree_ok_def)
  show "area_at s1 c a = None" "rx_nodes 3 (rnode s1) c = [c]" using zero nz by (simp_all add: area_at_def)
  show "tree_same rx_get 1024 (rnode s) (rnode s1) P" using nz c by (auto simp: tree_same_def)
qed

definition root_nodes :: "vma_sys \<Rightarrow> u64 \<Rightarrow> u64 set" where
  "root_nodes s root = (if root = 0 then {} else set (rx_nodes 3 (rnode s) root))"

lemma insert_any:
  assumes "tree_ok s P root" "boxes s p = Some v" "p \<noteq> 0"
  shows "case vma_insert s root p of
      None \<Rightarrow> pairs s < 4
    | Some (s', root') \<Rightarrow> root' \<noteq> 0 \<and> (root \<noteq> 0 \<longrightarrow> root' = root)
        \<and> (\<exists>N. rgrown s s' N \<and> tree_ok s' (P \<union> set N) root'
          \<and> tree_same rx_get 1024 (rnode s) (rnode s') (P - root_nodes s root)
          \<and> (\<forall>a. area_at s' root' a =
               (if same_path radix_index 3 (vma_start v) a then Some p else area_at s root a)))"
proof (cases "root = 0")
  case False
  then show ?thesis
    using insert_nonempty [OF assms(1) False assms(2,3)] by (auto simp: root_nodes_def split: option.splits)
next
  case True
  show ?thesis
  proof (cases "radix_new_zeroed s")
    case None
    then show ?thesis
      using radix_new_zeroed_ok [of s P] assms(1,2) True by (simp add: vma_insert_def tree_ok_def)
  next
    case (Some r)
    then obtain s1 c where nz: "radix_new_zeroed s = Some (s1, c)" by fastforce
    note new = new_root_ok [OF assms(1) [unfolded True] nz]
    have bx: "boxes s1 = boxes s" using new(1) by (simp add: rgrown_def)
    have eq: "vma_insert s root p = vma_insert s1 c p" using vma_insert_empty [OF assms(2) nz new(2) bx] True by simp
    note ins = insert_nonempty [OF new(5,2) _ assms(3), of v]
    show ?thesis
    proof (cases "vma_insert s1 c p")
      case None
      then show ?thesis using ins bx assms(2) eq new(4) by simp
    next
      case (Some r)
      then obtain s' root' where r: "vma_insert s1 c p = Some (s', root')" by fastforce
      with ins bx assms(2) obtain N where n: "root' = c" "rgrown s1 s' N" "tree_ok s' (P \<union> {c} \<union> set N) c"
        "tree_same rx_get 1024 (rnode s1) (rnode s') (P \<union> {c} - {c})"
        "\<forall>a. area_at s' c a = (if same_path radix_index 3 (vma_start v) a then Some p else area_at s1 c a)"
        by (auto simp: new(7))
      have g: "rgrown s s' (c # N)" using rgrown_trans [OF new(1) n(2)] by simp
      have "tree_same rx_get 1024 (rnode s) (rnode s') P"
        using new(3,8) n(4) by (auto intro: rx.same_trans)
      moreover have "tree_ok s' (P \<union> set (c # N)) c" using n(3) by (simp add: Un_assoc)
      ultimately show ?thesis
        using eq r n(1,5) g new(2,6) True
        by (auto simp: root_nodes_def area_at_def intro!: exI [of _ "c # N"])
    qed
  qed
qed

section \<open>The visitors\<close>

lemma first_result_all:
  "\<forall>i\<in>set is. g i = (if Q i then Some None else None) \<Longrightarrow>
   first_result g is = (if \<forall>i\<in>set is. Q i then Some None else None)"
  by (induction "is") auto

text \<open>The areas below a node. Visited one level too high, they are taken for nodes.\<close>

primrec rx_areas :: "nat \<Rightarrow> (u64 \<Rightarrow> (nat \<Rightarrow> u64) option) \<Rightarrow> u64 \<Rightarrow> u64 set" where
  "rx_areas 0 h t = rx_get h t ` {..<1024} - {0}"
| "rx_areas (Suc n) h t = (\<Union>i\<in>{i. i < 1024 \<and> rx_get h t i \<noteq> 0}. rx_areas n h (rx_get h t i))"

lemma rx_look_area: "rx_look n h t a = Some p \<Longrightarrow> p \<in> rx_areas n h t"
proof (induction n arbitrary: t)
  case 0
  then show ?case using radix_index_less by (auto simp: rx_leaf_def split: if_splits)
next
  case (Suc n)
  then show ?case using radix_index_less [of a "Suc n"] by (auto simp: Let_def split: if_splits)
qed

lemma visit_too_high:
  assumes "\<forall>p\<in>set (rx_nodes n (rnode s) t). rnode s p \<noteq> None" "\<forall>p\<in>rx_areas n (rnode s) t. rnode s p = None"
  shows "visit_node (Suc n) s t f = (if rx_areas n (rnode s) t = {} then Some None else None)"
  using assms
proof (induction n arbitrary: t)
  case 0
  then obtain e where e1: "rnode s t = Some e" by auto
  have e2: "rx_get (rnode s) t = e" using e1 by (rule rx_get_Some)
  let ?g = "\<lambda>i. if e i = 0 then Some None else visit_node 0 s (e i) f"
  have "rnode s (e i) = None" if "i < 1024" "e i \<noteq> 0" for i
    using 0(2) that unfolding rx_areas.simps e2 by simp
  then have "first_result ?g [0..<1024] = (if \<forall>i\<in>set [0..<1024]. e i = 0 then Some None else None)"
    by (intro first_result_all) auto
  moreover have "rx_areas 0 (rnode s) t = {} \<longleftrightarrow> (\<forall>i\<in>set [0..<1024]. e i = 0)"
    unfolding rx_areas.simps e2 by (auto simp: image_subset_iff)
  ultimately show ?case using e1 by (simp add: RADIX_SIZE_def)
next
  case (Suc n)
  obtain e where e1: "rnode s t = Some e"
    using Suc.prems(1) rx.nodes_root [of t "Suc n" "rnode s"] by blast
  have e2: "rx_get (rnode s) t = e" using e1 by (rule rx_get_Some)
  let ?Q = "\<lambda>i. e i = 0 \<or> rx_areas n (rnode s) (e i) = {}"
  have g: "(if e i = 0 then Some None else visit_node (Suc n) s (e i) f) = (if ?Q i then Some None else None)"
    if i: "i < 1024" for i
  proof (cases "e i = 0")
    case False
    have "set (rx_nodes n (rnode s) (e i)) \<subseteq> set (rx_nodes (Suc n) (rnode s) t)"
      using rx.child_nodes(1) [of "rnode s" t i n] False e2 i by simp
    moreover have "rx_areas n (rnode s) (e i) \<subseteq> rx_areas (Suc n) (rnode s) t"
      using False i unfolding rx_areas.simps e2 by blast
    ultimately have "visit_node (Suc n) s (e i) f = (if rx_areas n (rnode s) (e i) = {} then Some None else None)"
      using Suc.prems by (intro Suc.IH) blast+
    then show ?thesis using False by simp
  qed simp
  have "first_result (\<lambda>i. if e i = 0 then Some None else visit_node (Suc n) s (e i) f) [0..<1024]
      = (if \<forall>i\<in>set [0..<1024]. ?Q i then Some None else None)"
    using g by (intro first_result_all) (simp del: visit_node.simps)
  moreover have "rx_areas (Suc n) (rnode s) t = {} \<longleftrightarrow> (\<forall>i\<in>set [0..<1024]. ?Q i)"
    unfolding rx_areas.simps e2 by auto
  ultimately show ?case using e1 by (simp add: RADIX_SIZE_def del: visit_node.simps(1))
qed

end
