(* ===== verification/Virt_Correct.thy ===== *)
theory Virt_Correct
  imports Virt Page_Alloc Table_Tree
begin

text \<open>
  Correctness of the page-table code. A table is well formed when the tables it reaches are
  distinct pages of the direct map; \<open>lookup\<close> is the translation the processor performs. The
  central result is that \<^verbatim>\<open>map_page\<close> installs exactly one translation.
\<close>

declare upt_rec_numeral [simp del]

section \<open>Table pages and their words\<close>

definition table_page :: "u64 \<Rightarrow> bool" where
  "table_page t \<longleftrightarrow> 4096 dvd unat t \<and> unat t + 4096 \<le> 2 ^ 47"

lemma unat_entry_addr:
  assumes "4096 dvd unat t" "i < 512"
  shows "unat (entry_addr t i) = unat t + 8 * i"
proof -
  from assms(1) obtain k where k: "unat t = 4096 * k" by (auto simp: dvd_def)
  have "unat t < 2 ^ 64" by (rule unat64_bound)
  with k assms(2) have lt: "unat t + 8 * i < 2 ^ 64" by simp
  have "of_nat (unat t + 8 * i) = entry_addr t i" by (simp add: entry_addr_def)
  then show ?thesis using lt unat64_of_nat by metis
qed

lemma entry_addr_inject:
  assumes "4096 dvd unat t" "4096 dvd unat u" "i < 512" "j < 512"
  shows "entry_addr t i = entry_addr u j \<longleftrightarrow> t = u \<and> i = j"
proof
  assume "entry_addr t i = entry_addr u j"
  then have eq: "unat t + 8 * i = unat u + 8 * j"
    using unat_entry_addr [OF assms(1,3)] unat_entry_addr [OF assms(2,4)] by simp
  from assms(1,2) obtain k l where kl: "unat t = 4096 * k" "unat u = 4096 * l" by (auto simp: dvd_def)
  with eq assms(3,4) have "k = l" by arith
  with eq kl have "unat t = unat u" "i = j" by simp_all
  then show "t = u \<and> i = j" by (simp add: unsigned_word_eqI)
qed simp

lemma fill_table_entry:
  assumes "4096 dvd unat t" "i < 512"
  shows "fill_table m t f (entry_addr t i) = f i"
proof -
  have d: "entry_addr t i - t = of_nat (8 * i)" by (simp add: entry_addr_def)
  have u: "unat (of_nat (8 * i) :: u64) = 8 * i" using assms(2) by (intro unat64_of_nat) simp
  have "of_nat (8 * i) < (0x1000 :: u64)" using u assms(2) by (simp add: word_less_nat_alt)
  moreover have "of_nat (8 * i) mod (8 :: u64) = 0"
    using u by (simp add: unat_mod flip: unat_eq_0)
  moreover have "unat (of_nat (8 * i) div (8 :: u64)) = i" using u by (simp add: unat_div)
  ultimately show ?thesis unfolding fill_table_def Let_def d by simp
qed

lemma page_offset:
  assumes "a - t < (0x1000 :: u64)" "(a - t) mod 8 = 0"
  obtains j where "j < 512" "a = entry_addr t j"
proof -
  have d: "unat (a - t) < 4096" "unat (a - t) mod 8 = 0"
    using assms by (simp_all add: word_less_nat_alt unat_mod flip: unat_eq_0)
  then obtain j where j: "unat (a - t) = 8 * j" "j < 512" by (auto simp: dvd_def mod_eq_0_iff_dvd)
  have "a - t = of_nat (unat (a - t))" by simp
  then have "a - t = 8 * of_nat j" unfolding j(1) by simp
  then have "a = entry_addr t j" by (simp add: entry_addr_def algebra_simps)
  with j(2) that show ?thesis by blast
qed

lemma fill_table_outside:
  "\<forall>i<512. a \<noteq> entry_addr t i \<Longrightarrow> fill_table m t f a = m a"
  unfolding fill_table_def Let_def by (metis page_offset)

lemma fill_table_other:
  assumes "4096 dvd unat t" "4096 dvd unat u" "t \<noteq> u" "i < 512"
  shows "fill_table m t f (entry_addr u i) = m (entry_addr u i)"
  by (rule fill_table_outside) (use entry_addr_inject [OF assms(2,1,4)] assms(3) in auto)

text \<open>\<open>fill_table\<close> is the loop it abbreviates.\<close>

lemma fold_writes:
  assumes "4096 dvd unat t" "k \<le> 512"
  shows "i < k \<Longrightarrow> fold (\<lambda>i m. m(entry_addr t i := f i)) [0..<k] m (entry_addr t i) = f i"
    and "\<forall>i<k. a \<noteq> entry_addr t i \<Longrightarrow> fold (\<lambda>i m. m(entry_addr t i := f i)) [0..<k] m a = m a"
  using assms(2)
proof (induction k)
  case (Suc k)
  { case 1
    then show ?case
      using Suc.IH(1) entry_addr_inject [OF assms(1) assms(1), of i k] by (auto simp: less_Suc_eq)
  next
    case 2
    then show ?case using Suc.IH(2) by simp
  }
qed simp_all

lemma fill_table_loop:
  assumes "4096 dvd unat t"
  shows "fold (\<lambda>i m. m(entry_addr t i := f i)) [0..<512] m = fill_table m t f"
proof
  fix a
  show "fold (\<lambda>i m. m(entry_addr t i := f i)) [0..<512] m a = fill_table m t f a"
  proof (cases "\<exists>i<512. a = entry_addr t i")
    case True
    then show ?thesis using fold_writes(1) [OF assms, of 512] fill_table_entry [OF assms] by auto
  next
    case False
    then show ?thesis using fold_writes(2) [OF assms, of 512 a f m] fill_table_outside [of a t] by simp
  qed
qed

section \<open>Flag bits\<close>

definition next_table :: "u64 \<Rightarrow> u64" where
  "next_table e = e AND PHYS_ADDR_MASK"

definition child :: "u64 \<Rightarrow> bool" where
  "child e \<longleftrightarrow> has e PRESENT \<and> \<not> has e HUGE"

lemma child_iff:
  "has e PRESENT \<Longrightarrow> child e \<longleftrightarrow> \<not> has e HUGE"
  "\<not> has e PRESENT \<Longrightarrow> \<not> child e"
  by (simp_all add: child_def)

lemmas flag_defs = PHYS_ADDR_MASK_def PRESENT_def WRITABLE_def USER_def HUGE_def

lemma frame_bits:
  assumes "4096 dvd unat (t :: u64)" "unat t < 2 ^ 52"
  shows "t AND PHYS_ADDR_MASK = t" "t AND 0xFFF = 0" "t AND 1 = 0"
proof -
  have "take_bit 12 t = 0"
    using assms(1) by (simp add: take_bit_eq_mod unat_mod dvd_eq_mod_eq_0 flip: unat_eq_0)
  then show low: "t AND 0xFFF = 0" by (simp add: take_bit_eq_mask mask_eq_exp_minus_1)
  have "t AND 1 = (t AND 0xFFF) AND 1" by (simp add: and.assoc)
  then show "t AND 1 = 0" using low by simp
  have "unat (take_bit 52 t) = unat t" using assms(2) by (simp add: take_bit_eq_mod unat_mod)
  then have "take_bit 52 t = t" by (rule unsigned_word_eqI)
  then have hi: "t AND 0x000FFFFFFFFFFFFF = t" by (simp add: take_bit_eq_mask mask_eq_exp_minus_1)
  have "(0x000FFFFFFFFFFFFF :: u64) = PHYS_ADDR_MASK OR 0xFFF" by (simp add: PHYS_ADDR_MASK_def)
  then have "t AND 0x000FFFFFFFFFFFFF = (t AND PHYS_ADDR_MASK) OR (t AND 0xFFF)"
    by (simp only: bit.conj_disj_distrib)
  then show "t AND PHYS_ADDR_MASK = t" using hi low by simp
qed

lemma table_page_bits:
  assumes "table_page t"
  shows "t AND PHYS_ADDR_MASK = t" "t AND 0xFFF = 0"
  using assms frame_bits [of t] by (simp_all add: table_page_def)

lemma low_flag:
  assumes "table_page t" "0xFFF AND f = f"
  shows "t AND f = 0"
proof -
  have "t AND f = (t AND 0xFFF) AND f" using assms(2) by (simp add: and.assoc)
  then show ?thesis using table_page_bits(2) [OF assms(1)] by simp
qed

lemma phys_to_virtual_table:
  assumes "table_page t"
  shows "phys_to_virtual t = Some t"
proof -
  have "unat t < 2 ^ 47" using assms by (simp add: table_page_def)
  then have "\<not> HIGHER_HALF \<le> t" "\<not> DIRECT_MAP_SIZE \<le> t"
    by (simp_all add: HIGHER_HALF_def DIRECT_MAP_SIZE_def word_le_nat_alt)
  then show ?thesis using table_page_bits(1) [OF assms] by (simp add: phys_to_virtual_def Let_def)
qed

lemma and_and_zero: "f AND g = 0 \<Longrightarrow> (x AND f) AND g = (0 :: u64)"
  by (simp add: and.assoc)

text \<open>The entry that \<^verbatim>\<open>ensure_table\<close> writes for a new table, and what \<^verbatim>\<open>map_page\<close> makes of a
  present one.\<close>

lemma new_entry_child:
  assumes "table_page t"
  shows "child (t OR (WRITABLE OR (flags AND USER)) OR PRESENT OR (flags AND USER))"
    and "next_table (t OR (WRITABLE OR (flags AND USER)) OR PRESENT OR (flags AND USER)) = t"
    and "next_table (t OR (WRITABLE OR (flags AND USER)) OR PRESENT) = t"
    and "\<not> has (t OR (WRITABLE OR (flags AND USER)) OR PRESENT) HUGE"
  using table_page_bits(1) [OF assms] low_flag [OF assms, of PRESENT] low_flag [OF assms, of HUGE]
  by (simp_all add: child_def next_table_def has_def bit.conj_disj_distrib2 flag_defs and_and_zero)

lemma or_user_entry:
  "has (e OR (flags AND USER)) PRESENT = has e PRESENT"
  "has (e OR (flags AND USER)) HUGE = has e HUGE"
  "next_table (e OR (flags AND USER)) = next_table e"
  by (simp_all add: has_def next_table_def bit.conj_disj_distrib2 flag_defs and_and_zero)

section \<open>Trees of tables\<close>

abbreviation pt_get :: "(u64 \<Rightarrow> u64) \<Rightarrow> u64 \<Rightarrow> nat \<Rightarrow> u64" where
  "pt_get \<equiv> \<lambda>m t i. m (entry_addr t i)"

definition pt_leaf :: "u64 \<Rightarrow> (u64 \<times> nat) option" where
  "pt_leaf e = (if has e PRESENT then Some (e, 0) else None)"

definition pt_stop :: "nat \<Rightarrow> u64 \<Rightarrow> (u64 \<times> nat) option" where
  "pt_stop l e = (if has e PRESENT then Some (e, l) else None)"

interpretation pt: table_tree pt_get 512 child next_table index_for_addr pt_leaf pt_stop
  by unfold_locales (rule index_for_addr_less)

text \<open>The tables below \<open>t\<close> at level \<open>n\<close>; the entry that translates \<open>v\<close> and its level (0 for a 4 KB
  page, 1 for 2 MB, 2 for 1 GB); the addresses that the walk does not tell apart.\<close>

abbreviation pt_pages :: "nat \<Rightarrow> (u64 \<Rightarrow> u64) \<Rightarrow> u64 \<Rightarrow> u64 list" where
  "pt_pages \<equiv> tree_nodes pt_get 512 child next_table"

abbreviation lookup :: "nat \<Rightarrow> (u64 \<Rightarrow> u64) \<Rightarrow> u64 \<Rightarrow> u64 \<Rightarrow> (u64 \<times> nat) option" where
  "lookup \<equiv> tree_look pt_get child next_table index_for_addr pt_leaf pt_stop"

abbreviation same_on :: "(u64 \<Rightarrow> u64) \<Rightarrow> (u64 \<Rightarrow> u64) \<Rightarrow> u64 set \<Rightarrow> bool" where
  "same_on \<equiv> tree_same pt_get 512"

abbreviation same_page :: "nat \<Rightarrow> u64 \<Rightarrow> u64 \<Rightarrow> bool" where
  "same_page \<equiv> same_path index_for_addr"

primrec no_huge :: "nat \<Rightarrow> (u64 \<Rightarrow> u64) \<Rightarrow> u64 \<Rightarrow> u64 \<Rightarrow> bool" where
  "no_huge 0 m t v = True"
| "no_huge (Suc n) m t v =
     (let e = m (entry_addr t (index_for_addr v (Suc n))) in
      has e PRESENT \<longrightarrow> \<not> has e HUGE \<and> no_huge n m (next_table e) v)"

lemma lookup_zeroed:
  "\<forall>i<512. m (entry_addr t i) = 0 \<Longrightarrow> lookup n m t v = None"
  by (cases n) (auto simp: index_for_addr_less has_def child_def pt_leaf_def pt_stop_def)

lemma pt_pages_zeroed:
  "\<forall>i<512. m (entry_addr t i) = 0 \<Longrightarrow> pt_pages n m t = [t]"
  by (cases n) (auto simp: tree_nodes.simps(2) kid_nodes_def child_def has_def)

lemma no_huge_zeroed:
  "\<forall>i<512. m (entry_addr t i) = 0 \<Longrightarrow> no_huge n m t v"
  by (cases n) (auto simp: index_for_addr_less has_def)

lemma no_huge_frame:
  "same_on m m' (set (pt_pages n m t)) \<Longrightarrow> no_huge n m t v \<Longrightarrow> no_huge n m' t v"
proof (induction n arbitrary: t)
  case (Suc n)
  let ?i = "index_for_addr v (Suc n)"
  have "m' (entry_addr t ?i) = m (entry_addr t ?i)"
    using pt.same_root [OF Suc.prems(1) index_for_addr_less] by simp
  moreover have "same_on m m' (set (pt_pages n m (next_table (m (entry_addr t ?i)))))" if "child (m (entry_addr t ?i))"
    using pt.same_kids [OF Suc.prems(1) index_for_addr_less, of v "Suc n"] that by (simp add: pt.kids_child)
  ultimately show ?case
    using Suc.IH Suc.prems(2) by (cases "has (m (entry_addr t ?i)) PRESENT") (auto simp: child_iff Let_def)
qed simp

section \<open>The allocator seen from the page tables\<close>

lemma vm_alloc_page_frame:
  "vm_alloc_page s = Some (s', r) \<Longrightarrow> \<exists>p. s' = s\<lparr> vphys := p \<rparr>"
  by (auto simp: vm_alloc_page_def bind_eq_Some_conv)

interpretation vm_pages: page_source vm_alloc_page vm_free_page "\<lambda>s. phys_inv (vphys s)"
  "\<lambda>s. free_mset (vphys s)" "\<lambda>s. page_owned (vphys s)" "\<lambda>s. unat (zone_top (vphys s))"
proof
  fix s :: vm
  assume "phys_inv (vphys s)"
  from buddy.alloc_law [OF this] obtain z r where "alloc_page (vphys s) = Some (z, r)" "phys_inv z"
    "unat (zone_top z) = unat (zone_top (vphys s))" "case r of
           None \<Rightarrow> z = vphys s \<and> free_mset (vphys s) = {#}
         | Some a \<Rightarrow> 4096 dvd unat a \<and> unat a + 4096 \<le> unat (zone_top (vphys s))
             \<and> free_mset (vphys s) = add_mset (page_of a) (free_mset z) \<and> page_owned z a" by blast
  then show "\<exists>s' r. vm_alloc_page s = Some (s', r) \<and> phys_inv (vphys s')
      \<and> unat (zone_top (vphys s')) = unat (zone_top (vphys s))
      \<and> (case r of None \<Rightarrow> s' = s \<and> free_mset (vphys s) = {#}
         | Some a \<Rightarrow> 4096 dvd unat a \<and> unat a + 4096 \<le> unat (zone_top (vphys s))
             \<and> free_mset (vphys s) = add_mset (page_of a) (free_mset (vphys s')) \<and> page_owned (vphys s') a)"
    by (cases r) (auto simp: vm_alloc_page_def)
next
  fix s :: vm and a
  assume "phys_inv (vphys s)" "page_owned (vphys s) a"
  from buddy.free_law [OF this] show "\<exists>s'. vm_free_page s a = Some s' \<and> phys_inv (vphys s')
      \<and> unat (zone_top (vphys s')) = unat (zone_top (vphys s))
      \<and> free_mset (vphys s') = add_mset (page_of a) (free_mset (vphys s))"
    by (auto simp: vm_free_page_def)
qed (rule buddy.pages_once)

text \<open>\<open>P\<close> is the set of pages in use as tables; \<open>N\<close> the tables an operation adds.\<close>

definition vm_ok :: "vm \<Rightarrow> u64 set \<Rightarrow> bool" where
  "vm_ok s P \<longleftrightarrow> phys_inv (vphys s) \<and> unat (zone_top (vphys s)) \<le> 2 ^ 47
     \<and> (\<forall>p\<in>P. table_page p \<and> page_of p \<notin># free_mset (vphys s))"

definition grown :: "vm \<Rightarrow> vm \<Rightarrow> u64 list \<Rightarrow> bool" where
  "grown s s' N \<longleftrightarrow> phys_inv (vphys s') \<and> unat (zone_top (vphys s')) = unat (zone_top (vphys s))
     \<and> free_mset (vphys s) = free_mset (vphys s') + mset (map page_of N) \<and> (\<forall>p\<in>set N. table_page p)"

lemma grown_fresh: "vm_ok s P \<Longrightarrow> grown s s' N \<Longrightarrow> set N \<inter> P = {}"
  by (auto simp: vm_ok_def grown_def)

lemma vm_ok_grown:
  assumes "vm_ok s P" "grown s s' N"
  shows "vm_ok s' (P \<union> set N)"
proof -
  have "page_of p \<notin># free_mset (vphys s')" if "p \<in> set N" for p
  proof -
    have "count (free_mset (vphys s')) (page_of p) + count (mset (map page_of N)) (page_of p) \<le> 1"
      using assms vm_pages.pages_once [of s "page_of p"] by (simp add: vm_ok_def grown_def)
    moreover have "count (mset (map page_of N)) (page_of p) \<noteq> 0"
      using that by (simp add: count_eq_zero_iff del: mset_map)
    ultimately have "count (free_mset (vphys s')) (page_of p) = 0" by arith
    then show ?thesis by (simp add: not_in_iff)
  qed
  moreover have "page_of p \<notin># free_mset (vphys s')" if "p \<in> P" for p
    using assms that by (auto simp: vm_ok_def grown_def)
  ultimately show ?thesis using assms by (auto simp: vm_ok_def grown_def)
qed

lemma grown_trans: "grown s s' N \<Longrightarrow> grown s' s'' M \<Longrightarrow> grown s s'' (N @ M)"
  by (auto simp: grown_def)

lemma grown_refl: "vm_ok s P \<Longrightarrow> vphys s' = vphys s \<Longrightarrow> grown s s' []"
  by (simp add: grown_def vm_ok_def)

section \<open>Mapping one page\<close>

primrec map_at :: "nat \<Rightarrow> vm \<Rightarrow> u64 \<Rightarrow> u64 \<Rightarrow> u64 \<Rightarrow> u64 \<Rightarrow> vm option" where
  "map_at 0 s t v phys flags = Some (write_word s (entry_addr t (index_for_addr v 0)) (phys OR flags))"
| "map_at (Suc n) s t v phys flags =
     (let ea = entry_addr t (index_for_addr v (Suc n)) in do {
        (s1, c) \<leftarrow> ensure_table s ea (WRITABLE OR (flags AND USER)) n v;
        u \<leftarrow> phys_to_virtual c;
        map_at n (or_entry s1 ea (flags AND USER)) u v phys flags
      })"

lemma map_page_map_at: "map_page s pml4 v phys flags = map_at 3 s pml4 v phys flags"
  by (simp add: map_page_def numeral_3_eq_3 numeral_2_eq_2 Let_def)

lemma ensure_table_present:
  "has (mem s ea) PRESENT \<Longrightarrow> \<not> has (mem s ea) HUGE \<Longrightarrow>
   ensure_table s ea f l v = Some (s, next_table (mem s ea))"
  by (simp add: ensure_table_def ensure_present_def ensure_split_def has_def next_table_def)

lemma ensure_table_absent:
  assumes "vm_ok s P" "\<not> has (mem s ea) PRESENT" "free_mset (vphys s) \<noteq> {#}"
  obtains s1 c where "ensure_table s ea (WRITABLE OR (flags AND USER)) l v = Some (s1, c)"
    "grown s s1 [c]" "table_page c"
    "mem s1 = (fill_table (mem s) c (\<lambda>_. 0))(ea := c OR (WRITABLE OR (flags AND USER)) OR PRESENT)"
proof -
  from assms(1) have inv: "phys_inv (vphys s)" and top: "unat (zone_top (vphys s)) \<le> 2 ^ 47"
    by (simp_all add: vm_ok_def)
  obtain s0 c where al: "vm_alloc_page s = Some (s0, Some c)" "phys_inv (vphys s0)"
    "unat (zone_top (vphys s0)) = unat (zone_top (vphys s))" "4096 dvd unat c"
    "unat c + 4096 \<le> unat (zone_top (vphys s))"
    "free_mset (vphys s) = add_mset (page_of c) (free_mset (vphys s0))"
    using vm_pages.alloc_some [OF inv assms(3)] by blast
  then have c: "table_page c" using top by (simp add: table_page_def)
  have m0: "mem s0 = mem s" using vm_alloc_page_frame [OF al(1)] by auto
  let ?e = "c OR (WRITABLE OR (flags AND USER)) OR PRESENT"
  let ?s1 = "write_word (new_zeroed s0 c) ea ?e"
  have "ensure_table s ea (WRITABLE OR (flags AND USER)) l v = Some (?s1, c)"
    using assms(2) al(1) phys_to_virtual_table [OF c] new_entry_child(3,4) [OF c, of flags]
    by (simp add: ensure_table_def ensure_present_def ensure_split_def has_def next_table_def write_word_def)
  moreover have "grown s ?s1 [c]"
    using al c by (simp add: grown_def write_word_def new_zeroed_def)
  ultimately show ?thesis using that c m0 by (simp add: write_word_def new_zeroed_def)
qed

lemma entry_addr_other:
  assumes "vm_ok s P" "t \<in> P" "p \<in> P" "p \<noteq> t" "i < 512" "j < 512"
  shows "entry_addr p i \<noteq> entry_addr t j"
  using assms entry_addr_inject [of p t i j] by (auto simp: vm_ok_def table_page_def)

lemma write_entry_same:
  assumes "vm_ok s P" "t \<in> P" "j < 512"
  shows "same_on (mem s) ((mem s)(entry_addr t j := e)) (P - {t})"
    and "\<forall>i<512. ((mem s)(entry_addr t j := e)) (entry_addr t i) = (if i = j then e else mem s (entry_addr t i))"
  using entry_addr_other [OF assms(1,2)] assms entry_addr_inject [of t t _ j]
  by (auto simp: tree_same_def vm_ok_def table_page_def)

text \<open>One step of the walk: the slot ends up pointing to the table \<open>c\<close>, which is the old child or a
  new, empty table.\<close>

lemma slot_present:
  assumes "vm_ok s P" "j < 512" "set (pt_pages (Suc n) (mem s) t) \<subseteq> P"
    "distinct (pt_pages (Suc n) (mem s) t)" "child (mem s (entry_addr t j))"
  shows "pt.slot_step n (mem s) P t j (mem (or_entry s (entry_addr t j) (flags AND USER)))
    (next_table (mem s (entry_addr t j))) {}"
proof -
  let ?e = "mem s (entry_addr t j)"
  have t: "t \<in> P" using assms(3) pt.nodes_root by blast
  have m2: "mem (or_entry s (entry_addr t j) (flags AND USER)) = (mem s)(entry_addr t j := ?e OR (flags AND USER))"
    by (simp add: or_entry_def write_word_def)
  note w = write_entry_same [OF assms(1) t assms(2), of "?e OR (flags AND USER)"]
  show ?thesis
    unfolding m2 using pt.slot_step_keep [OF assms(3,4,2) _ w(1)] w(2) assms(5,2) or_user_entry [of ?e flags]
    by (simp add: child_def)
qed

lemma slot_absent:
  assumes "vm_ok s P" "t \<in> P" "j < 512" "\<not> has (mem s (entry_addr t j)) PRESENT" "grown s s1 [c]" "table_page c"
    "mem s1 = (fill_table (mem s) c (\<lambda>_. 0))(entry_addr t j := c OR (WRITABLE OR (flags AND USER)) OR PRESENT)"
  shows "pt.slot_step n (mem s) P t j (mem (or_entry s1 (entry_addr t j) (flags AND USER))) c {c}"
    and "\<forall>i<512. mem (or_entry s1 (entry_addr t j) (flags AND USER)) (entry_addr c i) = 0"
proof -
  let ?s2 = "or_entry s1 (entry_addr t j) (flags AND USER)"
  let ?e = "c OR (WRITABLE OR (flags AND USER)) OR PRESENT OR (flags AND USER)"
  have m2: "mem ?s2 = (fill_table (mem s) c (\<lambda>_. 0))(entry_addr t j := ?e)"
    using assms(7) by (simp add: or_entry_def write_word_def or.assoc)
  have "c \<notin> P" using grown_fresh [OF assms(1,5)] by simp
  have al: "4096 dvd unat p" "p \<noteq> c" if "p \<in> P" for p
    using that assms(1) \<open>c \<notin> P\<close> by (auto simp: vm_ok_def table_page_def)
  have c: "4096 dvd unat c" using assms(6) by (simp add: table_page_def)
  have keep: "fill_table (mem s) c (\<lambda>_. 0) (entry_addr p i) = mem s (entry_addr p i)" if "p \<in> P" "i < 512" for p i
    using fill_table_other [OF c al(1) _ that(2)] al(2) that(1) by metis
  have same: "same_on (mem s) (mem ?s2) (P - {t})"
    using entry_addr_other [OF assms(1,2)] assms(3) keep by (auto simp: tree_same_def m2)
  show zero: "\<forall>i<512. mem ?s2 (entry_addr c i) = 0"
    using fill_table_entry [OF c] entry_addr_inject [OF c al(1) [OF assms(2)] _ assms(3)] al(2) [OF assms(2)]
    by (auto simp: m2)
  have other: "mem ?s2 (entry_addr t i) = mem s (entry_addr t i)" if "i < 512" "i \<noteq> j" for i
    using that keep [OF assms(2)] entry_addr_inject [OF al(1) al(1) that(1) assms(3), OF assms(2) assms(2)]
    by (auto simp: m2)
  have "mem ?s2 (entry_addr t j) = ?e" by (simp add: m2)
  then show "pt.slot_step n (mem s) P t j (mem ?s2) c {c}"
    using same other assms(4) new_entry_child(1,2) [OF assms(6), of flags] pt_pages_zeroed [OF zero] lookup_zeroed [OF zero]
    by (intro pt.slot_step_new) (simp_all add: child_def pt_stop_def)
qed

lemma slot_ready:
  assumes "vm_ok s P" "set (pt_pages (Suc n) (mem s) t) \<subseteq> P" "distinct (pt_pages (Suc n) (mem s) t)"
    "no_huge (Suc n) (mem s) t v" "Suc n \<le> size (free_mset (vphys s))" "j = index_for_addr v (Suc n)"
  obtains s1 c N where "ensure_table s (entry_addr t j) (WRITABLE OR (flags AND USER)) n v = Some (s1, c)"
    "pt.slot_step n (mem s) P t j (mem (or_entry s1 (entry_addr t j) (flags AND USER))) c (set N)"
    "grown s (or_entry s1 (entry_addr t j) (flags AND USER)) N" "length N \<le> 1" "table_page c"
    "no_huge n (mem (or_entry s1 (entry_addr t j) (flags AND USER))) c v"
proof -
  have t: "t \<in> P" using assms(2) pt.nodes_root by blast
  have j: "j < 512" by (simp add: assms(6) index_for_addr_less)
  let ?e = "mem s (entry_addr t j)"
  show ?thesis
  proof (cases "has ?e PRESENT")
    case True
    let ?s2 = "or_entry s (entry_addr t j) (flags AND USER)"
    have nh: "\<not> has ?e HUGE" "no_huge n (mem s) (next_table ?e) v"
      using assms(4,6) True by (simp_all add: Let_def)
    with True have ch: "child ?e" by (simp add: child_def)
    note st = slot_present [OF assms(1) j assms(2,3) ch, of flags]
    have sub: "set (pt_pages n (mem s) (next_table ?e)) \<subseteq> P - {t}"
      using pt.child_nodes [of "mem s" t j n] ch j assms(2,3) by auto
    then have "same_on (mem s) (mem ?s2) (set (pt_pages n (mem s) (next_table ?e)))"
      using st by (auto simp: pt.slot_step_def intro: pt.same_mono)
    from no_huge_frame [OF this nh(2)] have "no_huge n (mem ?s2) (next_table ?e) v" .
    moreover have "table_page (next_table ?e)"
      using sub pt.nodes_root [of "next_table ?e" n "mem s"] assms(1) by (auto simp: vm_ok_def)
    moreover have "grown s ?s2 []" using assms(1) by (rule grown_refl) (simp add: or_entry_def write_word_def)
    ultimately show ?thesis using that [of s _ "[]"] ensure_table_present [OF True nh(1)] st by simp
  next
    case False
    have ne: "free_mset (vphys s) \<noteq> {#}" using assms(5) by auto
    obtain s1 c where e: "ensure_table s (entry_addr t j) (WRITABLE OR (flags AND USER)) n v = Some (s1, c)"
      "grown s s1 [c]" "table_page c" "mem s1 = (fill_table (mem s) c (\<lambda>_. 0))
        (entry_addr t j := c OR (WRITABLE OR (flags AND USER)) OR PRESENT)"
      by (rule ensure_table_absent [OF assms(1) False ne])
    have "grown s (or_entry s1 (entry_addr t j) (flags AND USER)) [c]"
      using e(2) by (simp add: grown_def or_entry_def write_word_def)
    then show ?thesis
      using that [of s1 c "[c]"] e(1,3) slot_absent [OF assms(1) t j False e(2-4)] no_huge_zeroed by simp
  qed
qed

text \<open>What mapping below \<open>t\<close> does: the tables grow by the pages \<open>N\<close>, no other table is written, the
  address \<open>v\<close> translates to the new entry and every other one as before.\<close>

lemma write_leaf_updated:
  assumes "vm_ok s P" "t \<in> P"
  shows "pt.updated 0 (mem s) P t v (pt_leaf e) (mem (write_word s (entry_addr t (index_for_addr v 0)) e)) {}"
  using write_entry_same [OF assms index_for_addr_less, of v 0 e]
  by (intro pt.updated_leaf) (simp_all add: write_word_def del: fun_upd_apply)

lemma map_at_correct:
  assumes "vm_ok s P" "set (pt_pages n (mem s) t) \<subseteq> P" "distinct (pt_pages n (mem s) t)"
    "no_huge n (mem s) t v" "n \<le> size (free_mset (vphys s))"
  shows "\<exists>s' N. map_at n s t v phys flags = Some s' \<and> grown s s' N \<and> length N \<le> n
    \<and> pt.updated n (mem s) P t v (pt_leaf (phys OR flags)) (mem s') (set N)"
  using assms
proof (induction n arbitrary: s P t)
  case 0
  then have "t \<in> P" by simp
  from write_leaf_updated [OF 0(1) this] have "pt.updated 0 (mem s) P t v (pt_leaf (phys OR flags))
      (mem (write_word s (entry_addr t (index_for_addr v 0)) (phys OR flags))) (set [])" by simp
  moreover have "grown s (write_word s a e) []" for a e
    using 0(1) by (rule grown_refl) (simp add: write_word_def)
  ultimately show ?case by (fastforce simp del: set_empty)
next
  case (Suc n)
  let ?j = "index_for_addr v (Suc n)" and ?f = "WRITABLE OR (flags AND USER)"
  obtain s1 c N where st: "ensure_table s (entry_addr t ?j) ?f n v = Some (s1, c)"
    "pt.slot_step n (mem s) P t ?j (mem (or_entry s1 (entry_addr t ?j) (flags AND USER))) c (set N)"
    "grown s (or_entry s1 (entry_addr t ?j) (flags AND USER)) N" "length N \<le> 1" "table_page c"
    "no_huge n (mem (or_entry s1 (entry_addr t ?j) (flags AND USER))) c v"
    by (rule slot_ready [OF Suc.prems refl])
  let ?s2 = "or_entry s1 (entry_addr t ?j) (flags AND USER)"
  have "set (pt_pages n (mem ?s2) c) \<subseteq> P \<union> set N" "distinct (pt_pages n (mem ?s2) c)"
    using st(2) Suc.prems(2) pt.kids_subset [of ?j n "mem s" t] index_for_addr_less
    by (auto simp: pt.slot_step_def)
  moreover have "size (free_mset (vphys s)) = size (free_mset (vphys ?s2)) + length N"
    using st(3) by (simp add: grown_def)
  with st(4) Suc.prems(5) have "n \<le> size (free_mset (vphys ?s2))" by arith
  ultimately obtain s' M where m: "map_at n ?s2 c v phys flags = Some s'" "grown ?s2 s' M" "length M \<le> n"
    "pt.updated n (mem ?s2) (P \<union> set N) c v (pt_leaf (phys OR flags)) (mem s') (set M)"
    using Suc.IH [OF vm_ok_grown [OF Suc.prems(1) st(3)] _ _ st(6)] by meson
  have gr: "grown s s' (N @ M)" using st(3) m(2) by (rule grown_trans)
  have "(set N \<union> set M) \<inter> P = {}" using grown_fresh [OF Suc.prems(1) gr] by simp
  from pt.updated_Suc [OF Suc.prems(2,3) this st(2) m(4)]
  have "pt.updated (Suc n) (mem s) P t v (pt_leaf (phys OR flags)) (mem s') (set (N @ M))" by simp
  moreover have "map_at (Suc n) s t v phys flags = Some s'"
    using st(1) m(1) phys_to_virtual_table [OF st(5)] by (simp add: Let_def)
  ultimately show ?case using gr st(4) m(3) by (intro exI [of _ s'] exI [of _ "N @ M"]) simp
qed

section \<open>Writing an existing leaf entry\<close>

abbreviation leaf_table :: "nat \<Rightarrow> (u64 \<Rightarrow> u64) \<Rightarrow> u64 \<Rightarrow> u64 \<Rightarrow> u64 option" where
  "leaf_table \<equiv> tree_leaf pt_get child next_table index_for_addr"

lemma write_leaf_correct:
  assumes "vm_ok s P" "set (pt_pages n (mem s) t) \<subseteq> P" "distinct (pt_pages n (mem s) t)"
    "leaf_table n (mem s) t v = Some p"
  shows "pt.updated n (mem s) P t v (pt_leaf e) (mem (write_word s (entry_addr p (index_for_addr v 0)) e)) {}"
  using assms
proof (induction n arbitrary: t)
  case 0
  then show ?case using write_leaf_updated [of s P t v e] by simp
next
  case (Suc n)
  let ?j = "index_for_addr v (Suc n)"
  let ?e = "mem s (entry_addr t ?j)"
  have c: "child ?e" and leaf: "leaf_table n (mem s) (next_table ?e) v = Some p"
    using Suc.prems(4) by (auto simp: Let_def split: if_splits)
  have t: "t \<in> P" using Suc.prems(2) pt.nodes_root by blast
  have step: "pt.slot_step n (mem s) P t ?j (mem s) (next_table ?e) {}"
    using pt.slot_step_keep [OF Suc.prems(2,3) index_for_addr_less, of v "Suc n" "mem s"] c
    by (simp add: tree_same_def)
  have "set (pt_pages n (mem s) (next_table ?e)) \<subseteq> P" "distinct (pt_pages n (mem s) (next_table ?e))"
    using pt.child_nodes(1,2) [of "mem s" t ?j n] c index_for_addr_less Suc.prems(2,3) by auto
  with Suc.IH Suc.prems(1) leaf
  have "pt.updated n (mem s) P (next_table ?e) v (pt_leaf e) (mem (write_word s (entry_addr p (index_for_addr v 0)) e)) {}"
    by blast
  then show ?case using pt.updated_Suc [OF Suc.prems(2,3) _ step] by simp
qed

lemma leaf_table_write:
  assumes "vm_ok s P" "set (pt_pages n (mem s) t) \<subseteq> P" "distinct (pt_pages n (mem s) t)"
    "leaf_table n (mem s) t v = Some p" "i < 512"
  shows "leaf_table n ((mem s)(entry_addr p i := e)) t w = leaf_table n (mem s) t w
    \<and> (no_huge n (mem s) t w \<longrightarrow> no_huge n ((mem s)(entry_addr p i := e)) t w)"
  using assms(2-4)
proof (induction n arbitrary: t)
  case (Suc n)
  let ?m = "mem s" and ?m' = "(mem s)(entry_addr p i := e)"
  let ?j = "index_for_addr v (Suc n)" and ?k = "index_for_addr w (Suc n)"
  have c: "child (?m (entry_addr t ?j))" and leaf: "leaf_table n ?m (next_table (?m (entry_addr t ?j))) v = Some p"
    using Suc.prems(3) by (auto simp: Let_def split: if_splits)
  note cn = pt.child_nodes [of ?m t _ n]
  have p: "p \<in> set (pt_pages n ?m (next_table (?m (entry_addr t ?j))))" using pt.leaf_page [OF leaf] .
  then have P: "p \<in> P" "p \<noteq> t" using cn(1,3) [OF c index_for_addr_less] Suc.prems(1,2) by blast+
  have same: "same_on ?m ?m' (P - {p})" by (rule write_entry_same(1) [OF assms(1) P(1) assms(5)])
  have t: "t \<in> P - {p}" using Suc.prems(1) P(2) pt.nodes_root by blast
  with same have root: "?m' (entry_addr t ?k) = ?m (entry_addr t ?k)"
    using index_for_addr_less by (simp add: tree_same_def del: fun_upd_apply)
  show ?case
  proof (cases "?k = ?j")
    case True
    have "set (pt_pages n ?m (next_table (?m (entry_addr t ?j)))) \<subseteq> P"
      "distinct (pt_pages n ?m (next_table (?m (entry_addr t ?j))))"
      using cn(1,2) [OF c index_for_addr_less] Suc.prems(1,2) by blast+
    from Suc.IH [OF this leaf] show ?thesis using root True by (simp add: Let_def del: fun_upd_apply)
  next
    case False
    have "set (pt_pages n ?m (next_table (?m (entry_addr t ?k)))) \<subseteq> P - {p}" if "child (?m (entry_addr t ?k))"
    proof -
      have "p \<in> set (pt.kids n ?m t ?j)" "set (pt_pages n ?m (next_table (?m (entry_addr t ?k)))) = set (pt.kids n ?m t ?k)"
        using p c that by (simp_all add: pt.kids_child)
      then show ?thesis
        using Suc.prems(1,2) False index_for_addr_less pt.kids_subset [of ?k n ?m t]
        unfolding pt.distinct_nodes by blast
    qed
    then have "same_on ?m ?m' (set (pt_pages n ?m (next_table (?m (entry_addr t ?k)))))" if "child (?m (entry_addr t ?k))"
      using that by (intro pt.same_mono [OF same])
    from pt.leaf_frame [OF this] no_huge_frame [OF this] show ?thesis
      using root by (cases "has (?m (entry_addr t ?k)) PRESENT") (simp_all add: Let_def child_iff del: fun_upd_apply)
  qed
qed simp

text \<open>Two addresses with the same leaf entry are in the same page.\<close>

lemma leaf_entry_inject:
  assumes "vm_ok s P" "set (pt_pages 3 (mem s) t) \<subseteq> P" "distinct (pt_pages 3 (mem s) t)"
    "leaf_table 3 (mem s) t v = Some p" "leaf_table 3 (mem s) t w = Some q"
    "entry_addr p (index_for_addr v 0) = entry_addr q (index_for_addr w 0)"
  shows "same_page 3 v w"
proof -
  have "p \<in> P" "q \<in> P" using pt.leaf_page assms(2,4,5) by blast+
  then have "4096 dvd unat p" "4096 dvd unat q" using assms(1) by (simp_all add: vm_ok_def table_page_def)
  then have pq: "p = q" "index_for_addr v 0 = index_for_addr w 0"
    using assms(6) entry_addr_inject index_for_addr_less by blast+
  have "\<forall>l. 0 < l \<and> l \<le> 3 \<longrightarrow> index_for_addr v l = index_for_addr w l"
    using pt.leaf_same_slots [OF assms(3,4)] assms(5) pq(1) by simp
  then have "index_for_addr v l = index_for_addr w l" if "l \<le> 3" for l
    using pq(2) that by (cases "l = 0") auto
  then show ?thesis by (simp add: same_path_def)
qed

text \<open>On tables without a huge page on the path, the walk of \<^verbatim>\<open>read_pte\<close> and \<^verbatim>\<open>write_pte\<close> ends at
  the leaf entry.\<close>

lemma child_table:
  assumes "vm_ok s P" "set (pt_pages (Suc n) (mem s) t) \<subseteq> P" "child (mem s (entry_addr t i))" "i < 512"
  shows "table_page (next_table (mem s (entry_addr t i)))"
    "set (pt_pages n (mem s) (next_table (mem s (entry_addr t i)))) \<subseteq> P"
proof -
  show sub: "set (pt_pages n (mem s) (next_table (mem s (entry_addr t i)))) \<subseteq> P"
    using assms(2) pt.child_nodes(1) [of "mem s" t i n] assms(3,4) by auto
  then show "table_page (next_table (mem s (entry_addr t i)))"
    using assms(1) pt.nodes_root [of _ n "mem s"] by (auto simp: vm_ok_def)
qed

abbreviation leaf_ea :: "nat \<Rightarrow> (u64 \<Rightarrow> u64) \<Rightarrow> u64 \<Rightarrow> u64 \<Rightarrow> u64 option" where
  "leaf_ea n m t v \<equiv> map_option (\<lambda>p. entry_addr p (index_for_addr v 0)) (leaf_table n m t v)"

lemma pte_walk_leaf:
  assumes "vm_ok s P" "set (pt_pages 3 (mem s) t) \<subseteq> P" "no_huge 3 (mem s) t v"
  shows "pte_walk s t v = Some (leaf_ea 3 (mem s) t v)"
proof -
  let ?e3 = "mem s (entry_addr t (index_for_addr v 3))"
  let ?e2 = "mem s (entry_addr (next_table ?e3) (index_for_addr v 2))"
  let ?e1 = "mem s (entry_addr (next_table ?e2) (index_for_addr v 1))"
  have s3: "set (pt_pages (Suc 2) (mem s) t) \<subseteq> P" using assms(2) by (simp add: numeral_3_eq_3 numeral_2_eq_2)
  have t: "table_page t" using assms(1,2) pt.nodes_root [of t 3 "mem s"] by (auto simp: vm_ok_def)
  have nh: "has ?e3 PRESENT \<Longrightarrow> \<not> has ?e3 HUGE"
    "has ?e3 PRESENT \<Longrightarrow> has ?e2 PRESENT \<Longrightarrow> \<not> has ?e2 HUGE"
    "has ?e3 PRESENT \<Longrightarrow> has ?e2 PRESENT \<Longrightarrow> has ?e1 PRESENT \<Longrightarrow> \<not> has ?e1 HUGE"
    using assms(3) by (simp_all add: numeral_3_eq_3 numeral_2_eq_2 Let_def)
  note c3 = child_table [OF assms(1) s3 _ index_for_addr_less]
  have c2: "table_page (next_table ?e2)" "set (pt_pages (Suc 0) (mem s) (next_table ?e2)) \<subseteq> P"
    if "child ?e3" "child ?e2"
    using child_table [OF assms(1), of 1 "next_table ?e3" "index_for_addr v 2"] that index_for_addr_less c3
    by (simp_all add: numeral_2_eq_2 numeral_3_eq_3)
  have c1: "table_page (next_table ?e1)" if "child ?e3" "child ?e2" "child ?e1"
    using child_table(1) [OF assms(1) c2(2) _ index_for_addr_less] that by simp
  show ?thesis
    using nh c3 c2(1) c1 phys_to_virtual_table table_page_bits(1) [OF t] phys_to_virtual_table [OF t]
    by (auto simp: pte_walk_def Let_def child_def next_table_def numeral_3_eq_3 numeral_2_eq_2)
qed

end
