(* ===== verification/Virt_Theorems.thy ===== *)
theory Virt_Theorems
  imports Virt_Correct Phys_Theorems
begin

text \<open>
  The properties of the page-table code, with the address space \<open>demo_vm\<close> (an empty top-level
  table over the zone \<open>demo_zone\<close>) on which they are applied.
\<close>

declare upt_rec_numeral [simp del]

definition demo_vm :: vm where
  "demo_vm = \<lparr> vphys = demo_zone, mem = (\<lambda>_. 0), kernel_pml4 = 0x200000, pt_initialized = True,
     cr3 = 0x200000, katerm_stack_top = 0, cpus = cpu_boot, this_apic = 0, tlb_log = [],
     va_valid = (\<lambda>_. True) \<rparr>"

lemma demo_vm_tables: "pt_pages n (mem demo_vm) t = [t]" "no_huge n (mem demo_vm) t v"
  by (auto intro!: pt_pages_zeroed no_huge_zeroed simp: demo_vm_def)

lemma demo_vm_ok: "vm_ok demo_vm {0x200000}"
  using demo_inv by (simp add: vm_ok_def demo_vm_def demo_free table_page_def page_of_def)
    (simp add: demo_zone_def)

text \<open>C4. \<^verbatim>\<open>map_page\<close> on well-formed tables, with no huge page on the path and three free pages,
  never aborts. It takes at most three pages from the allocator, all of which become tables of
  this address space, writes no other page in use, and changes one translation: afterwards
  the page of \<open>virt\<close> translates to \<open>phys OR flags\<close> and every other address as before.\<close>

theorem map_page_spec:
  assumes "vm_ok s P" "set (pt_pages 3 (mem s) pml4) \<subseteq> P" "distinct (pt_pages 3 (mem s) pml4)"
    "no_huge 3 (mem s) pml4 virt" "3 \<le> size (free_mset (vphys s))"
  shows "\<exists>s' N. map_page s pml4 virt phys flags = Some s' \<and> length N \<le> 3
    \<and> free_mset (vphys s) = free_mset (vphys s') + mset (map page_of N)
    \<and> vm_ok s' (P \<union> set N) \<and> distinct (pt_pages 3 (mem s') pml4)
    \<and> set (pt_pages 3 (mem s') pml4) = set (pt_pages 3 (mem s) pml4) \<union> set N
    \<and> same_on (mem s) (mem s') (P - set (pt_pages 3 (mem s) pml4))
    \<and> (\<forall>w. lookup 3 (mem s') pml4 w =
         (if same_page 3 virt w then (if has (phys OR flags) PRESENT then Some (phys OR flags, 0) else None)
          else lookup 3 (mem s) pml4 w))"
proof -
  from map_at_correct [OF assms] obtain s' N where m: "map_at 3 s pml4 virt phys flags = Some s'"
    "grown s s' N" "length N \<le> 3" "pt.updated 3 (mem s) P pml4 virt (pt_leaf (phys OR flags)) (mem s') (set N)" by blast
  moreover have "vm_ok s' (P \<union> set N)" using vm_ok_grown [OF assms(1) m(2)] .
  ultimately show ?thesis
    unfolding map_page_map_at pt.updated_def grown_def pt_leaf_def by blast
qed

theorem map_page_spec_witness:
  "\<exists>s' N. map_page demo_vm 0x200000 0x400000 0x5000 7 = Some s' \<and> length N \<le> 3
    \<and> free_mset demo_zone = free_mset (vphys s') + mset (map page_of N)
    \<and> vm_ok s' ({0x200000} \<union> set N) \<and> distinct (pt_pages 3 (mem s') 0x200000)
    \<and> (\<forall>w. lookup 3 (mem s') 0x200000 w = (if same_page 3 0x400000 w then Some (0x5007, 0) else None))"
proof -
  have f: "free_mset (vphys demo_vm) = mset [256..<264]" by (simp add: demo_vm_def demo_free)
  have "3 \<le> size (free_mset (vphys demo_vm))" unfolding f by simp
  note spec = map_page_spec [OF demo_vm_ok _ _ _ this, of "0x200000" "0x400000" "0x5000" 7]
  have "lookup 3 (mem demo_vm) 0x200000 w = None" for w
    by (rule lookup_zeroed) (simp add: demo_vm_def)
  moreover have "has (0x5000 OR 7) PRESENT" "0x5000 OR 7 = (0x5007 :: u64)" by (simp_all add: has_def PRESENT_def)
  moreover have "vphys demo_vm = demo_zone" by (simp add: demo_vm_def)
  ultimately show ?thesis
    using spec by (simp add: demo_vm_tables del: mset_map split del: if_split cong: if_cong) blast
qed

text \<open>C33. On well-formed tables, for an address with no huge page on its path, \<^verbatim>\<open>read_pte\<close> does not
  abort. If it finds no leaf entry, \<^verbatim>\<open>write_pte\<close> reports failure and changes nothing. If it finds
  one, \<^verbatim>\<open>write_pte\<close> succeeds, \<^verbatim>\<open>read_pte\<close> then returns the written value, the entry of every other
  page that is not behind a huge page is unchanged, so is every other translation, and the page
  is flushed from the local TLB.\<close>

theorem pte_write_read:
  assumes "vm_ok s P" "set (pt_pages 3 (mem s) pml4) \<subseteq> P" "distinct (pt_pages 3 (mem s) pml4)"
    "no_huge 3 (mem s) pml4 virt" "va_valid s virt"
  shows "case read_pte s pml4 virt of
      None \<Rightarrow> False
    | Some None \<Rightarrow> write_pte s pml4 virt new = Some (s, False)
    | Some (Some old) \<Rightarrow> \<exists>s'. write_pte s pml4 virt new = Some (s', True) \<and> read_pte s' pml4 virt = Some (Some new)
        \<and> (\<forall>w. \<not> same_page 3 virt w \<and> no_huge 3 (mem s) pml4 w \<longrightarrow> read_pte s' pml4 w = read_pte s pml4 w)
        \<and> (\<forall>w. \<not> same_page 3 virt w \<longrightarrow> lookup 3 (mem s') pml4 w = lookup 3 (mem s) pml4 w)
        \<and> tlb_log s' = tlb_log s @ [FlushLocal virt] \<and> vphys s' = vphys s"
proof (cases "leaf_table 3 (mem s) pml4 virt")
  case None
  then show ?thesis using pte_walk_leaf [OF assms(1,2,4)] by (simp add: read_pte_def write_pte_def)
next
  case p: (Some p)
  let ?ea = "entry_addr p (index_for_addr virt 0)"
  define s' where "s' = (write_word s ?ea new)\<lparr> tlb_log := tlb_log s @ [FlushLocal virt] \<rparr>"
  have w: "write_pte s pml4 virt new = Some (s', True)"
    using pte_walk_leaf [OF assms(1,2,4)] p assms(5)
    by (simp add: write_pte_def tlb_flush_def s'_def write_word_def)
  have m: "pt.updated 3 (mem s) P pml4 virt (pt_leaf new) (mem (write_word s ?ea new)) {}"
    by (rule write_leaf_correct [OF assms(1-3) p])
  have mem': "mem s' = (mem s)(?ea := new)" by (simp add: s'_def write_word_def)
  have ok': "vm_ok s' P" using assms(1) by (simp add: vm_ok_def s'_def write_word_def)
  have tabs: "set (pt_pages 3 (mem s') pml4) \<subseteq> P"
    using m assms(2) by (simp add: pt.updated_def s'_def)
  have read': "read_pte s' pml4 w = Some (map_option (mem s') (leaf_ea 3 (mem s) pml4 w))"
    if "no_huge 3 (mem s) pml4 w" for w
    using pte_walk_leaf [OF ok' tabs, of w] leaf_table_write [OF assms(1-3) p index_for_addr_less, of virt 0 new w] that
    by (simp add: read_pte_def mem' del: fun_upd_apply)
  have "read_pte s' pml4 w = read_pte s pml4 w" if "\<not> same_page 3 virt w" "no_huge 3 (mem s) pml4 w" for w
  proof -
    have "read_pte s pml4 w = Some (map_option (mem s) (leaf_ea 3 (mem s) pml4 w))"
      using pte_walk_leaf [OF assms(1,2) that(2)] by (simp add: read_pte_def)
    then show ?thesis
      using read' [OF that(2)] leaf_entry_inject [OF assms(1-3) p, of w] that(1)
      by (cases "leaf_table 3 (mem s) pml4 w") (auto simp: mem')
  qed
  moreover have "read_pte s' pml4 virt = Some (Some new)" using read' [OF assms(4)] p by (auto simp: mem')
  moreover have "read_pte s pml4 virt = Some (Some (mem s ?ea))"
    using pte_walk_leaf [OF assms(1,2,4)] p by (simp add: read_pte_def)
  ultimately show ?thesis using w m by (auto simp: pt.updated_def s'_def write_word_def)
qed

definition demo_mapped :: vm where
  "demo_mapped = demo_vm\<lparr> mem := (\<lambda>_. 0)
     (entry_addr 0x200000 0 := 0x201003, entry_addr 0x201000 0 := 0x202003,
      entry_addr 0x202000 0 := 0x203003, entry_addr 0x203000 0 := 0x5003) \<rparr>"

lemma demo_mapped_zero:
  assumes "t \<in> {0x200000, 0x201000, 0x202000, 0x203000}" "0 < i" "i < 512"
  shows "mem demo_mapped (entry_addr t i) = 0"
proof -
  have "entry_addr t i \<noteq> entry_addr u 0" if "u \<in> {0x200000, 0x201000, 0x202000, 0x203000}" for u
    using entry_addr_inject [of t u i 0] assms that by auto
  then show ?thesis by (simp add: demo_mapped_def)
qed

lemma demo_mapped_entry:
  "mem demo_mapped (entry_addr 0x200000 0) = 0x201003" "mem demo_mapped (entry_addr 0x201000 0) = 0x202003"
  "mem demo_mapped (entry_addr 0x202000 0) = 0x203003" "mem demo_mapped (entry_addr 0x203000 0) = 0x5003"
  by (simp_all add: demo_mapped_def entry_addr_def)

lemma pt_pages_single:
  assumes "\<forall>i. 0 < i \<and> i < 512 \<longrightarrow> m (entry_addr t i) = 0" "child (m (entry_addr t 0))"
  shows "pt_pages (Suc n) m t = t # pt_pages n m (next_table (m (entry_addr t 0)))"
proof -
  have "concat (map (pt.kids n m t) [Suc 0..<512]) = []"
    using assms(1) by (auto simp: kid_nodes_def child_def has_def)
  moreover have "[0..<512] = 0 # [Suc 0..<512]" by (rule upt_conv_Cons) simp
  ultimately show ?thesis using assms(2) by (simp add: tree_nodes.simps(2) kid_nodes_def)
qed

lemma demo_mapped_tables: "pt_pages 3 (mem demo_mapped) 0x200000 = [0x200000, 0x201000, 0x202000, 0x203000]"
proof -
  have "pt_pages (Suc (Suc (Suc 0))) (mem demo_mapped) 0x200000 = [0x200000, 0x201000, 0x202000, 0x203000]"
    using pt_pages_single demo_mapped_zero
    by (simp add: pt_pages_single demo_mapped_zero demo_mapped_entry child_def has_def next_table_def flag_defs)
  then show ?thesis by (simp add: numeral_3_eq_3)
qed

lemma demo_mapped_ok: "vm_ok demo_mapped {0x200000, 0x201000, 0x202000, 0x203000}"
  using demo_inv by (simp add: vm_ok_def demo_mapped_def demo_vm_def demo_free table_page_def page_of_def)
    (simp add: demo_zone_def)

lemma index_zero [simp]: "index_for_addr 0 l = 0"
  by (simp add: index_for_addr_def)

lemma demo_mapped_path: "no_huge 3 (mem demo_mapped) 0x200000 0"
  by (simp add: numeral_3_eq_3 demo_mapped_entry has_def next_table_def flag_defs Let_def)

theorem pte_write_read_witness:
  "read_pte demo_mapped 0x200000 0 = Some (Some 0x5003) \<and>
   (\<exists>s'. write_pte demo_mapped 0x200000 0 0x7003 = Some (s', True) \<and> read_pte s' 0x200000 0 = Some (Some 0x7003))"
proof -
  have r: "read_pte demo_mapped 0x200000 0 = Some (Some 0x5003)"
    by (simp add: read_pte_def pte_walk_def phys_to_virtual_def demo_mapped_entry has_def flag_defs
        HIGHER_HALF_def DIRECT_MAP_SIZE_def Let_def)
  have "va_valid demo_mapped 0" by (simp add: demo_mapped_def demo_vm_def)
  from pte_write_read [OF demo_mapped_ok _ _ demo_mapped_path this, of "0x7003"] r
  show ?thesis by (auto simp: demo_mapped_tables)
qed

section \<open>Where the code departs from its intent\<close>

text \<open>\<^verbatim>\<open>translate\<close> does not recognise a 2 MB page: when the page-directory entry of \<open>virt\<close> is a
  present huge page, the processor translates through it (\<open>lookup\<close> at level 1), but \<^verbatim>\<open>translate\<close>
  reads a word of the mapped data as if it were a page-table entry, and reports the address
  unmapped when bit 0 of that word is clear.\<close>

theorem translate_misreads_2mb:
  assumes "pt_initialized s" "table_page pml4" "cr3 s = pml4"
    and "e3 = mem s (entry_addr pml4 (index_for_addr virt 3))" "child e3" "table_page (next_table e3)"
    and "e2 = mem s (entry_addr (next_table e3) (index_for_addr virt 2))" "child e2" "table_page (next_table e2)"
    and "e1 = mem s (entry_addr (next_table e2) (index_for_addr virt 1))" "has e1 PRESENT" "has e1 HUGE"
      "table_page (next_table e1)"
    and "\<not> has (mem s (entry_addr (next_table e1) (index_for_addr virt 0))) PRESENT"
  shows "lookup 3 (mem s) pml4 virt = Some (e1, 1) \<and> translate s virt = Some None"
proof
  show "lookup 3 (mem s) pml4 virt = Some (e1, 1)"
    using assms by (simp add: numeral_3_eq_3 numeral_2_eq_2 child_iff pt_stop_def)
  show "translate s virt = Some None"
    using assms phys_to_virtual_table table_page_bits(1) [of pml4]
    by (simp add: translate_def child_def next_table_def Let_def)
qed

definition demo_huge :: vm where
  "demo_huge = demo_vm\<lparr> mem := (\<lambda>_. 0)
     (entry_addr 0x200000 0 := 0x201003, entry_addr 0x201000 0 := 0x202003,
      entry_addr 0x202000 0 := 0x400083) \<rparr>"

theorem translate_misreads_2mb_witness:
  "lookup 3 (mem demo_huge) 0x200000 0 = Some (0x400083, 1) \<and> translate demo_huge 0 = Some None"
proof -
  have m: "mem demo_huge (entry_addr 0x200000 0) = 0x201003" "mem demo_huge (entry_addr 0x201000 0) = 0x202003"
    "mem demo_huge (entry_addr 0x202000 0) = 0x400083" "mem demo_huge (entry_addr 0x400000 0) = 0"
    by (simp_all add: demo_huge_def entry_addr_def)
  have "pt_initialized demo_huge" "cr3 demo_huge = 0x200000" by (simp_all add: demo_huge_def demo_vm_def)
  with m show ?thesis
    using translate_misreads_2mb [of demo_huge "0x200000" "0x201003" 0 "0x202003" "0x400083"]
    by (simp add: child_def has_def next_table_def flag_defs table_page_def)
qed

lemma base_32mb:
  assumes "b = (e :: u64) AND 0x000FFFFFFE000000" "i < 512"
  shows "4096 dvd unat (b + of_nat i * PAGE_SIZE)" "unat (b + of_nat i * PAGE_SIZE) < 2 ^ 52"
proof -
  have "b AND 0xFFF = 0" using assms(1) by (simp add: and.assoc)
  then have "take_bit 12 b = 0" by (simp add: take_bit_eq_mask mask_eq_exp_minus_1)
  then have dvd: "4096 dvd unat b" by (simp add: take_bit_eq_mod unat_mod dvd_eq_mod_eq_0 flip: unat_eq_0)
  have "b \<le> 0x000FFFFFFE000000" using assms(1) by (simp add: word_and_le1)
  then have le: "unat b \<le> 0x000FFFFFFE000000" by (simp add: word_le_nat_alt)
  then have "unat b + i * 4096 < 2 ^ 52" using assms(2) by simp
  moreover from this have "unat (of_nat (unat b + i * 4096) :: u64) = unat b + i * 4096"
    by (intro unat64_of_nat) simp
  ultimately have "unat (b + of_nat i * PAGE_SIZE) = unat b + i * 4096"
    "unat b + i * 4096 < 2 ^ 52" by (simp_all add: PAGE_SIZE_def)
  then show "4096 dvd unat (b + of_nat i * PAGE_SIZE)" "unat (b + of_nat i * PAGE_SIZE) < 2 ^ 52"
    using dvd by simp_all
qed

lemma split_entry_value:
  assumes "split_entry e flags 0 = Some f" "i < 512"
  shows "next_table (f i) = (e AND 0x000FFFFFFE000000) + of_nat i * PAGE_SIZE" "\<not> has (f i) PRESENT"
  using assms(1) frame_bits(1,3) [OF base_32mb [OF refl assms(2), of e]]
  by (auto simp: split_entry_def next_table_def has_def PRESENT_def PHYS_ADDR_MASK_def NO_EXECUTE_def HUGE_def
      USER_def PAGE_SIZE_def bit.conj_disj_distrib2 and.assoc Let_def split: if_splits)

text \<open>Splitting a 2 MB page rounds its base down to 32 MB instead of 2 MB: entry \<open>i\<close> of the new
  table points \<open>i\<close> pages above the 32 MB boundary below the page, which is the right frame only
  when the page happens to be 32 MB aligned. None of the new entries is present.\<close>

theorem split_2mb_wrong_base:
  assumes "split_entry e flags 0 = Some f" "i < 512" "base = e AND 0x000FFFFFFFE00000"
  shows "\<not> has (f i) PRESENT \<and> next_table (f i) = (base AND 0x000FFFFFFE000000) + of_nat i * PAGE_SIZE
    \<and> (next_table (f i) = base + of_nat i * PAGE_SIZE \<longleftrightarrow> base AND 0x1E00000 = 0)"
proof -
  let ?b = "e AND 0x000FFFFFFE000000"
  have sub: "base AND 0x000FFFFFFE000000 = ?b" "?b AND 0x1E00000 = 0" using assms(3) by (simp_all add: and.assoc)
  have "(0x000FFFFFFFE00000 :: u64) = 0x000FFFFFFE000000 OR 0x1E00000" by simp
  then have "base = ?b OR (e AND 0x1E00000)" unfolding assms(3) by (simp only: bit.conj_disj_distrib)
  moreover have "base AND 0x1E00000 = e AND 0x1E00000" using assms(3) by (simp add: and.assoc)
  ultimately have "?b = base \<longleftrightarrow> base AND 0x1E00000 = 0" using sub(2) by auto
  then show ?thesis using split_entry_value [OF assms(1,2)] sub(1) by auto
qed

theorem split_2mb_wrong_base_witness:
  "\<exists>f. split_entry 0x200087 4 0 = Some f \<and> next_table (f 3) = 0x3000 \<and> next_table (f 3) \<noteq> 0x203000"
proof -
  obtain f where f: "split_entry 0x200087 4 0 = Some f" by (simp add: split_entry_def Let_def)
  from split_2mb_wrong_base [OF f, of 3 "0x200000"] f show ?thesis by (simp add: PAGE_SIZE_def)
qed

text \<open>A pending full flush is lost: \<^verbatim>\<open>set_pending_flush\<close> merges two different pending pages into
  the request to flush everything (all ones), but when that request is already pending, the
  next page replaces it and the CPU is asked to flush that page only.\<close>

theorem pending_flush_lost:
  assumes "i < length (percpu c)" "pending_tlb_flush (percpu c ! i) = p" "p \<noteq> 0" "a \<noteq> b" "a \<noteq> p" "p \<noteq> - 1"
    "b \<noteq> - 1"
  shows "pending_tlb_flush (percpu (set_pending_flush c i a) ! i) = - 1
    \<and> pending_tlb_flush (percpu (set_pending_flush (set_pending_flush c i a) i b) ! i) = b"
  using assms by (simp add: set_pending_flush_def set_cpu_def Let_def)

theorem pending_flush_lost_witness:
  "let c = set_pending_flush cpu_boot 1 0x1000
   in pending_tlb_flush (percpu c ! 1) = 0x1000
    \<and> pending_tlb_flush (percpu (set_pending_flush c 1 0x2000) ! 1) = - 1
    \<and> pending_tlb_flush (percpu (set_pending_flush (set_pending_flush c 1 0x2000) 1 0x3000) ! 1) = 0x3000"
proof -
  let ?c = "set_pending_flush cpu_boot 1 0x1000"
  have "1 < length (percpu ?c)" "pending_tlb_flush (percpu ?c ! 1) = 0x1000"
    by (simp_all add: set_pending_flush_def set_cpu_def cpu_boot_def MAX_CPUS_def per_cpu_new_def Let_def)
  with pending_flush_lost [of 1 ?c "0x1000" "0x2000" "0x3000"] show ?thesis by (simp add: Let_def)
qed

end
