(* ===== verification/Vma_Theorems.thy ===== *)
theory Vma_Theorems
  imports Vma_Correct Virt_Theorems
begin

text \<open>
  The properties of the memory areas and the page-fault handler, applied to a small system over
  the zone \<open>demo_zone\<close>.
\<close>

declare upt_rec_numeral [simp del]

definition demo_pairs :: phys_state where
  "demo_pairs = demo_zone\<lparr> free_lists := [[], [0x100000, 0x102000, 0x104000, 0x106000], []] @ replicate 8 [] \<rparr>"

lemma demo_pairs_free: "free_mset demo_pairs = mset [256..<264]"
  by (simp add: free_mset_def lists_mset_def lessThan_nat_numeral lessThan_Suc demo_pairs_def
      block_mset_def page_of_def upt_rec del: mset_upt)

lemma demo_pairs_inv: "phys_inv demo_pairs"
proof -
  have "blocks_ok demo_pairs"
    by (simp add: blocks_ok_def all_less_upt upt_rec block_in_def demo_pairs_def demo_zone_def)
  moreover have "counted demo_pairs"
    unfolding counted_def demo_pairs_free by (simp add: demo_pairs_def demo_zone_def)
  moreover have "is_reserved_page demo_pairs p = is_reserved_page demo_zone p" for p
    by (rule is_reserved_cfg) (simp add: phys_cfg_def demo_pairs_def)
  ultimately show ?thesis using demo_inv by (simp add: phys_inv_def demo_pairs_free demo_free)
qed

definition demo_sys :: vma_sys where
  "demo_sys = \<lparr> svm = demo_vm\<lparr> vphys := demo_pairs \<rparr>, rnode = (\<lambda>_. None),
     boxes = (\<lambda>_. None)(0xFFFF808000000040 := Some \<lparr> vma_start = 0x400000, vma_end = 0x500000,
       vma_perm = PermReadWrite, vma_flags = 0 \<rparr>),
     kernel_root = 0, kernel_vma_initialized = False \<rparr>"

lemma demo_sys_ok: "tree_ok demo_sys {} 0"
  using demo_pairs_inv by (simp add: tree_ok_def radix_ok_def demo_sys_def demo_pairs_free)

text \<open>C13. The radix tree is a finite map on page numbers: inserting an area into a well-formed tree
  aborts only when the allocator lists fewer than four two-page blocks; otherwise the tree
  stays well formed, \<^verbatim>\<open>lookup\<close> finds the area at every address whose bits 12 to 51 are those of
  its start, and every other address finds what it found before. The new nodes are what the
  allocator loses, and no other tree changes.\<close>

theorem vma_insert_lookup:
  assumes "tree_ok s P root" "boxes s p = Some v" "p \<noteq> 0"
  shows "case vma_insert s root p of
      None \<Rightarrow> length (free_lists (vphys (svm s)) ! 1) < 4
    | Some (s', root') \<Rightarrow> \<exists>N. tree_ok s' (P \<union> set N) root' \<and> root' \<noteq> 0 \<and> (root \<noteq> 0 \<longrightarrow> root' = root)
        \<and> (\<forall>a. vma_lookup s' root' a =
             (if same_path radix_index 3 (vma_start v) a then Some (Some p) else vma_lookup s root a))
        \<and> free_mset (vphys (svm s)) = free_mset (vphys (svm s')) + (\<Sum>p\<leftarrow>N. block_mset 1 p)
        \<and> boxes s' = boxes s \<and> (\<forall>q\<in>P - root_nodes s root. \<forall>i<1024. rx_get (rnode s') q i = rx_get (rnode s) q i)"
proof (cases "vma_insert s root p")
  case None
  then show ?thesis using insert_any [OF assms] by simp
next
  case (Some r)
  obtain s' root' where r: "r = (s', root')" by fastforce
  from insert_any [OF assms] Some r obtain N where n: "root' \<noteq> 0" "root \<noteq> 0 \<longrightarrow> root' = root" "rgrown s s' N"
    "tree_ok s' (P \<union> set N) root'" "tree_same rx_get 1024 (rnode s) (rnode s') (P - root_nodes s root)"
    "\<forall>a. area_at s' root' a = (if same_path radix_index 3 (vma_start v) a then Some p else area_at s root a)"
    by auto
  have "\<forall>a. vma_lookup s' root' a =
      (if same_path radix_index 3 (vma_start v) a then Some (Some p) else vma_lookup s root a)"
    unfolding vma_lookup_area [OF n(4)] vma_lookup_area [OF assms(1)] using n(6) by simp
  then show ?thesis using Some r n(1-5) by (auto simp: rgrown_def tree_same_def)
qed

theorem vma_insert_lookup_witness:
  "\<exists>s' root' N. vma_insert demo_sys 0 0xFFFF808000000040 = Some (s', root') \<and> tree_ok s' (set N) root'
    \<and> (\<forall>a. vma_lookup s' root' a = Some (if same_path radix_index 3 0x400000 a then Some 0xFFFF808000000040 else None))"
proof -
  have "boxes demo_sys 0xFFFF808000000040 = Some \<lparr> vma_start = 0x400000, vma_end = 0x500000,
       vma_perm = PermReadWrite, vma_flags = 0 \<rparr>" by (simp add: demo_sys_def)
  note th = vma_insert_lookup [OF demo_sys_ok this]
  have full: "length (free_lists (vphys (svm demo_sys)) ! 1) = 4" by (simp add: demo_sys_def demo_pairs_def)
  have empty: "vma_lookup demo_sys 0 a = Some None" for a by (simp add: vma_lookup_def)
  obtain s' root' where r: "vma_insert demo_sys 0 0xFFFF808000000040 = Some (s', root')"
    using th full by (cases "vma_insert demo_sys 0 0xFFFF808000000040") auto
  from th [unfolded r] empty show ?thesis unfolding r by (auto split: if_splits)
qed

lemma visit_all_undefined:
  assumes "tree_ok s P root" "root \<noteq> 0" "vma_lookup s root a = Some (Some p)"
    "\<forall>q\<in>rx_areas 3 (rnode s) root. rnode s q = None"
  shows "visit_all s root f = None"
proof -
  have "area_at s root a = Some p" using assms(3) vma_lookup_area [OF assms(1)] by simp
  then have "p \<in> rx_areas 3 (rnode s) root" using assms(2) by (intro rx_look_area) (simp add: area_at_def)
  then have "rx_areas 3 (rnode s) root \<noteq> {}" by blast
  moreover have "\<forall>p\<in>set (rx_nodes 3 (rnode s) root). rnode s p \<noteq> None"
    using assms(1,2) by (auto simp: tree_ok_def radix_ok_def)
  moreover have "visit_node 4 s root f = visit_node (Suc 3) s root f" by (simp add: numeral_eq_Suc)
  ultimately show ?thesis
    using visit_too_high [of 3 s root f] assms(2,4) by (simp add: visit_all_def del: visit_node.simps)
qed

lemma vaddr_scan_step: "vaddr_scan s pm n [0..<1024] = vaddr_scan s pm n (0 # [Suc 0..<1024])"
  by (subst upt_conv_Cons) simp_all

lemma checked_add_small:
  assumes "unat (a :: u64) < n" "unat b < k" "n + k \<le> 2 ^ 64"
  shows "checked_add a b = Some (a + b)" "unat (a + b) < n + k"
proof -
  have "unat a + unat b < 2 ^ LENGTH(64)" using assms by simp
  then show "checked_add a b = Some (a + b)" "unat (a + b) < n + k"
    using assms(1,2) by (simp_all add: checked_add_def unat_word_ariths(1))
qed

lemma round_down_le:
  "checked_mul (n div 0x1000) (0x1000 :: u64) = Some (n div 0x1000 * 0x1000)" "unat (n div 0x1000 * 0x1000) \<le> unat n"
proof -
  have q: "unat (n div 0x1000) * unat (0x1000 :: u64) \<le> unat n" by (simp add: unat_div)
  then have "unat (n div 0x1000) * unat (0x1000 :: u64) < 2 ^ LENGTH(64)" using unsigned_less [of n] by (rule order_le_less_trans)
  then show "checked_mul (n div 0x1000) (0x1000 :: u64) = Some (n div 0x1000 * 0x1000)"
    "unat (n div 0x1000 * 0x1000) \<le> unat n"
    using q by (simp_all only: checked_mul_def unat_word_ariths(2) mod_less if_True)
qed

lemma alloc_user_vaddr_overlaps:
  assumes "unat (next_free_vaddr pm) < 2 ^ 40" "unat sz < 2 ^ 40" "\<And>lo hi. has_overlap s (vma_tree pm) lo hi = None"
  shows "alloc_user_vaddr s pm sz = None"
proof -
  define up a where "up = sz + 0xFFF" and "a = next_free_vaddr pm + 0xFFF"
  define n where "n = up div 0x1000 * 0x1000"
  have up: "checked_add sz 0xFFF = Some up" "unat up < 2 ^ 40 + 0x1000"
    unfolding up_def by (rule checked_add_small [OF assms(2), where k = "0x1000"]; simp)+
  have a: "checked_add (next_free_vaddr pm) 0xFFF = Some a" "unat a < 2 ^ 40 + 0x1000"
    unfolding a_def by (rule checked_add_small [OF assms(1), where k = "0x1000"]; simp)+
  have n: "checked_mul (up div 0x1000) 0x1000 = Some n" "unat n < 2 ^ 40 + 0x1000"
    using up(2) round_down_le [of up] unfolding n_def by simp_all
  have "a AND NOT 0xFFF \<le> a" by (simp add: word_and_le2)
  then have m: "unat (a AND NOT 0xFFF) < 2 ^ 40 + 0x1000" using a(2) unfolding word_le_nat_alt by (rule order_le_less_trans)
  have stop: "checked_add (a AND NOT 0xFFF) n = Some ((a AND NOT 0xFFF) + n)"
    "unat ((a AND NOT 0xFFF) + n) < (2 ^ 40 + 0x1000) + (2 ^ 40 + 0x1000)"
    by (rule checked_add_small [OF m n(2)]; simp)+
  then have "\<not> HIGHER_HALF \<le> (a AND NOT 0xFFF) + n" by (simp add: HIGHER_HALF_def word_le_nat_alt)
  then show ?thesis
    using up(1) n(1) a(1) stop(1) assms(3) by (simp add: alloc_user_vaddr_def vaddr_scan_step Let_def)
qed

text \<open>\<^verbatim>\<open>visit_all\<close> starts one level above the root, so it takes the areas for nodes: on a
  well-formed tree that holds an area, and in which no area sits at the address of a node,
  \<^verbatim>\<open>find_covering\<close> and \<^verbatim>\<open>has_overlap\<close> have no defined result for any argument. As a consequence
  demand paging of the kernel and \<^verbatim>\<open>alloc_user_vaddr\<close> have none either.\<close>

theorem visitors_undefined:
  assumes "tree_ok s P root" "root \<noteq> 0" "vma_lookup s root a = Some (Some p)"
    "\<forall>q\<in>rx_areas 3 (rnode s) root. rnode s q = None"
    "vma_tree pm = root" "unat (next_free_vaddr pm) < 2 ^ 40" "unat sz < 2 ^ 40" "kernel_root s = root"
  shows "find_covering s root x = None \<and> has_overlap s root lo hi = None
    \<and> alloc_user_vaddr s pm sz = None \<and> handle_page_fault s cur x 0 = None"
proof -
  note vis = visit_all_undefined [OF assms(1-4)]
  have fc: "find_covering s root x = None" using assms(2) by (simp add: find_covering_def vis)
  have ov: "has_overlap s root b e = None" for b e by (simp add: has_overlap_def vis)
  have hp: "handle_page_fault s cur x 0 = None" using fc assms(8) by (simp add: handle_page_fault_def Let_def)
  have "alloc_user_vaddr s pm sz = None"
    by (rule alloc_user_vaddr_overlaps) (use assms(5-7) ov in simp_all)
  then show ?thesis using fc ov hp by blast
qed

definition slot0 :: "u64 \<Rightarrow> nat \<Rightarrow> u64" where
  "slot0 p = (\<lambda>_. 0)(0 := p)"

definition demo_tree :: vma_sys where
  "demo_tree = demo_sys\<lparr> svm := demo_vm\<lparr> vphys := demo_pairs\<lparr> free_lists := replicate 11 [], zone_free_pages := 0 \<rparr> \<rparr>,
     rnode := (\<lambda>_. None)(0x100000 := Some (slot0 0x102000), 0x102000 := Some (slot0 0x104000),
       0x104000 := Some (slot0 0x106000), 0x106000 := Some (slot0 0xFFFF808000000040)),
     kernel_root := 0x100000 \<rparr>"

lemma demo_tree_get: "rx_get (rnode demo_tree) 0x100000 = slot0 0x102000"
  "rx_get (rnode demo_tree) 0x102000 = slot0 0x104000" "rx_get (rnode demo_tree) 0x104000 = slot0 0x106000"
  "rx_get (rnode demo_tree) 0x106000 = slot0 0xFFFF808000000040"
  by (simp_all add: demo_tree_def rx_get_def fun_eq_iff)

lemma rx_single:
  assumes "rx_get h t = slot0 c" "c \<noteq> 0"
  shows "rx_nodes (Suc n) h t = t # rx_nodes n h c" "rx_areas (Suc n) h t = rx_areas n h c" "rx_areas 0 h t = {c}"
proof -
  have "concat (map (rx.kids n h t) [Suc 0..<1024]) = []" using assms by (auto simp: kid_nodes_def slot0_def)
  moreover have "[0..<1024] = 0 # [Suc 0..<1024]" by (rule upt_conv_Cons) simp
  ultimately show "rx_nodes (Suc n) h t = t # rx_nodes n h c"
    using assms by (simp add: tree_nodes.simps(2) kid_nodes_def slot0_def)
  have "{i. i < 1024 \<and> rx_get h t i \<noteq> 0} = {0}" using assms by (auto simp: slot0_def)
  then show "rx_areas (Suc n) h t = rx_areas n h c" using assms by (simp add: slot0_def)
  have "slot0 c ` {..<1024} = {0, c}" unfolding slot0_def by (force simp: image_def)
  then show "rx_areas 0 h t = {c}" using assms by auto
qed

lemma demo_tree_nodes: "rx_nodes 3 (rnode demo_tree) 0x100000 = [0x100000, 0x102000, 0x104000, 0x106000]"
  "rx_areas 3 (rnode demo_tree) 0x100000 = {0xFFFF808000000040}"
proof -
  have "rx_nodes (Suc (Suc (Suc 0))) (rnode demo_tree) 0x100000 = [0x100000, 0x102000, 0x104000, 0x106000]"
    "rx_areas (Suc (Suc (Suc 0))) (rnode demo_tree) 0x100000 = {0xFFFF808000000040}"
    by (simp_all add: rx_single demo_tree_get del: rx_areas.simps)
  then show "rx_nodes 3 (rnode demo_tree) 0x100000 = [0x100000, 0x102000, 0x104000, 0x106000]"
    "rx_areas 3 (rnode demo_tree) 0x100000 = {0xFFFF808000000040}"
    by (simp_all only: numeral_3_eq_3)
qed

lemma demo_tree_phys: "phys_inv (vphys (svm demo_tree))" "free_mset (vphys (svm demo_tree)) = {#}"
proof -
  have free: "free_mset (vphys (svm demo_tree)) = {#}"
    by (simp add: demo_tree_def free_mset_def lists_mset_def)
  moreover have "phys_step demo_pairs (vphys (svm demo_tree))"
    unfolding phys_step_def blocks_ok_def counted_def free by (auto simp: phys_cfg_def demo_tree_def)
  ultimately show "phys_inv (vphys (svm demo_tree))" "free_mset (vphys (svm demo_tree)) = {#}"
    using phys_inv_take [OF demo_pairs_inv] by simp_all
qed

lemma demo_tree_ok: "tree_ok demo_tree {0x100000, 0x102000, 0x104000, 0x106000} 0x100000"
proof -
  have z: "zone_base (vphys (svm demo_tree)) = 0x100000" "zone_top (vphys (svm demo_tree)) = 0x108000"
    by (simp_all add: demo_tree_def demo_pairs_def demo_zone_def)
  have "phys_cfg (vphys (svm demo_tree)) = phys_cfg demo_zone"
    by (simp add: phys_cfg_def demo_tree_def demo_pairs_def)
  then have res: "is_reserved_page (vphys (svm demo_tree)) p = is_reserved_page demo_zone p" for p
    by (rule is_reserved_cfg)
  have "\<forall>q\<in>{256..<264}. \<not> is_reserved_page demo_zone (of_nat q)"
    using demo_inv by (simp add: phys_inv_def demo_free)
  then have "\<not> is_reserved_page demo_zone (of_nat 256)" "\<not> is_reserved_page demo_zone (of_nat 257)"
    "\<not> is_reserved_page demo_zone (of_nat 258)" "\<not> is_reserved_page demo_zone (of_nat 259)"
    "\<not> is_reserved_page demo_zone (of_nat 260)" "\<not> is_reserved_page demo_zone (of_nat 261)"
    "\<not> is_reserved_page demo_zone (of_nat 262)" "\<not> is_reserved_page demo_zone (of_nat 263)"
    by (simp_all del: of_nat_numeral)
  then have "node_owned (vphys (svm demo_tree)) p" if "p \<in> {0x100000, 0x102000, 0x104000, 0x106000}" for p
    using that by (auto simp: node_owned_def block_in_def z res demo_tree_phys block_mset_def page_of_def)
  moreover have "rnode demo_tree p \<noteq> None" if "p \<in> {0x100000, 0x102000, 0x104000, 0x106000}" for p
    using that by (auto simp: demo_tree_def)
  ultimately show ?thesis by (simp add: tree_ok_def radix_ok_def demo_tree_nodes demo_tree_phys)
qed

theorem visitors_undefined_witness:
  "find_covering demo_tree 0x100000 0x123 = None \<and> has_overlap demo_tree 0x100000 0 0x1000 = None
    \<and> alloc_user_vaddr demo_tree \<lparr> vma_tree = 0x100000, pml4_phys = 0, next_free_vaddr = 0x400000 \<rparr> 0x2000 = None
    \<and> handle_page_fault demo_tree None 0x123 0 = None"
proof (rule visitors_undefined [OF demo_tree_ok])
  have "rx_look (Suc (Suc (Suc 0))) (rnode demo_tree) 0x100000 0 = Some 0xFFFF808000000040"
    by (simp add: demo_tree_get slot0_def radix_index_def radix_shift_def rx_leaf_def)
  then have "area_at demo_tree 0x100000 0 = Some 0xFFFF808000000040"
    by (simp add: area_at_def numeral_3_eq_3)
  then show "vma_lookup demo_tree 0x100000 0 = Some (Some 0xFFFF808000000040)"
    by (simp add: vma_lookup_area [OF demo_tree_ok])
  show "\<forall>q\<in>rx_areas 3 (rnode demo_tree) 0x100000. rnode demo_tree q = None"
    by (simp add: demo_tree_nodes) (simp add: demo_tree_def)
qed (simp_all add: demo_tree_def)

section \<open>Copy on write\<close>

lemma tlb_flush_phys: "tlb_flush s a = Some s' \<Longrightarrow> vphys s' = vphys s"
  by (auto simp: tlb_flush_def split: if_splits)

lemma write_pte_phys: "write_pte s t v e = Some (s', b) \<Longrightarrow> vphys s' = vphys s"
  by (auto simp: write_pte_def bind_eq_Some_conv write_word_def dest!: tlb_flush_phys split: option.splits)

lemma flush_page_all_phys: "flush_page_all s a = Some s' \<Longrightarrow> vphys s' = vphys s"
  by (auto simp: flush_page_all_def tlb_shootdown_def bind_eq_Some_conv send_ipi_others_def dest: tlb_flush_phys)

text \<open>Resolving a copy-on-write fault never gives the old page back: when the fault is resolved
  and the faulting mapping held the last reference, \<^verbatim>\<open>unref_page\<close> lowers the count to 0 and
  \<^verbatim>\<open>free_page\<close> lowers it once more, to 65535, and leaves the page out of the free lists.\<close>

theorem resolve_cow_leaks:
  assumes "phys_inv (vphys s)" "resolve_cow s pml4 va pte = Some (s', True)"
    "block_in (vphys s) 0 (pte AND 0x000FFFFFFFFFF000)"
    "\<not> is_reserved_page (vphys s) (of_nat (page_of (pte AND 0x000FFFFFFFFFF000)))"
    "page_of (pte AND 0x000FFFFFFFFFF000) \<notin># free_mset (vphys s)"
    "page_of (pte AND 0x000FFFFFFFFFF000) < REFCOUNT_MAX_PAGES"
    "refcounts (vphys s) (page_of (pte AND 0x000FFFFFFFFFF000)) = 1"
  shows "page_of (pte AND 0x000FFFFFFFFFF000) \<notin># free_mset (vphys s')
    \<and> refcounts (vphys s') (page_of (pte AND 0x000FFFFFFFFFF000)) = 65535"
proof -
  let ?old = "pte AND 0x000FFFFFFFFFF000" and ?z = "vphys s"
  obtain z1 a s4 where al: "alloc_page ?z = Some (z1, Some a)" and s4: "vphys s4 = z1"
    and un: "(case unref_page z1 (?old div PAGE_SIZE) of (z, was_last) \<Rightarrow>
      if was_last then do { s5 \<leftarrow> vm_free_page (s4\<lparr> vphys := z \<rparr>) ?old; Some (s5, True) }
      else Some (s4\<lparr> vphys := z \<rparr>, True)) = Some (s', True)"
    using assms(2) unfolding resolve_cow_def
    by (auto simp: Let_def bind_eq_Some_conv vm_alloc_page_def copy_page_def split: option.splits
        dest!: write_pte_phys flush_page_all_phys)
  from assms(1) al alloc_order_correct [of ?z 0] have "allocated ?z 0 z1 a"
    by (auto simp: alloc_page_def alloc_post_def phys_inv_def)
  then have st: "phys_step ?z z1" and fr: "free_mset ?z = free_mset z1 + block_mset 0 a"
    and rc: "refcounts z1 = refcounts (reset_refcount ?z a 0)" by (simp_all add: allocated_def)
  have "page_of ?old \<noteq> page_of a" using fr assms(5) by auto
  then have one: "refcounts z1 (page_of ?old) = 1" using rc assms(7)
    by (auto simp: reset_refcount_def Let_def page_of_def)
  define z2 where "z2 = z1\<lparr> refcounts := drop_ref z1 (page_of ?old) \<rparr>"
  have "unref_page z1 (?old div PAGE_SIZE) = (z2, True)"
    using one by (simp add: unref_page_eq z2_def last_ref_def)
  then have free: "free_order z2 ?old 0 = Some (vphys s')"
    using un by (auto simp: vm_free_page_def free_page_def bind_eq_Some_conv)
  have st2: "phys_step ?z z2"
    using phys_step_trans [OF st] drop_ref_step [of z1] st by (simp add: z2_def phys_step_def)
  have zero: "refcounts z2 (page_of ?old) = 0" using one assms(6) by (simp add: z2_def drop_ref_def)
  have fz: "free_mset z2 = free_mset z1" by (simp add: z2_def free_mset_def)
  have "blocks_ok z2" "block_in z2 0 ?old" "\<not> is_reserved_page z2 (of_nat (page_of ?old))"
    using st2 assms(3,4) block_in_cfg [of z2 ?z] is_reserved_cfg [of z2 ?z] by (auto simp: phys_step_def)
  from free_order_correct [OF this(1) _ this(2,3)] free zero assms(5,6) fr fz
  show ?thesis by (auto simp: last_ref_def drop_ref_def)
qed

definition demo_cow :: vm where
  "demo_cow = demo_mapped\<lparr> mem := (mem demo_mapped)(entry_addr 0x203000 0 := 0x100801), vphys := demo_used,
     cpus := cpu_boot\<lparr> apic_to_slot := (\<lambda>_. 0xFF)(0 := 0) \<rparr> \<rparr>"

lemma flush_page_all_some: "va_valid s a \<Longrightarrow> apic_to_slot (cpus s) (unat (this_apic s)) \<noteq> 0xFF \<Longrightarrow> this_apic s < 256
    \<Longrightarrow> \<exists>s'. flush_page_all s a = Some s'"
  by (simp add: flush_page_all_def tlb_shootdown_def apic_id_to_slot_def tlb_flush_def)

lemma demo_cow_alloc: "alloc_page (vphys demo_cow) = Some (demo_used\<lparr> free_lists := [[0x106000], [0x104000], []] @ replicate 8 [],
     zone_free_pages := 3, refcounts := (\<lambda>_. 1)(263 := 1) \<rparr>, Some 0x107000)"
  by (simp add: demo_cow_def alloc_page_def alloc_order_def MAX_ORDER_def pop_block_def reset_refcount_def
      demo_used_def demo_zone_def REFCOUNT_MAX_PAGES_def PAGE_SIZE_def Let_def)

lemma demo_cow_write:
  "\<exists>s'. write_pte (copy_page (demo_cow\<lparr> vphys := z \<rparr>) 0x100000 0x107000) 0x200000 0 e = Some (s', True)
     \<and> vphys s' = z \<and> va_valid s' = va_valid demo_cow \<and> cpus s' = cpus demo_cow \<and> this_apic s' = this_apic demo_cow"
  by (simp add: write_pte_def pte_walk_def phys_to_virtual_def copy_page_def fill_table_def demo_cow_def
      demo_mapped_def demo_vm_def entry_addr_def has_def flag_defs HIGHER_HALF_def DIRECT_MAP_SIZE_def Let_def
      tlb_flush_def write_word_def)

theorem resolve_cow_leaks_witness:
  "\<exists>s'. resolve_cow demo_cow 0x200000 0 0x100801 = Some (s', True)
    \<and> page_of 0x100000 \<notin># free_mset (vphys s') \<and> refcounts (vphys s') (page_of 0x100000) = 65535"
proof -
  let ?z = "demo_used\<lparr> free_lists := [[0x106000], [0x104000], []] @ replicate 8 [],
     zone_free_pages := 3, refcounts := (\<lambda>_. 1)(263 := 1) \<rparr>"
  let ?e = "0x107000 OR ((0x100801 AND 0xFFF) AND NOT COW) OR WRITABLE"
  obtain s3 where s3: "write_pte (copy_page (demo_cow\<lparr> vphys := ?z \<rparr>) 0x100000 0x107000) 0x200000 0 ?e = Some (s3, True)"
    "vphys s3 = ?z" "va_valid s3 = va_valid demo_cow" "cpus s3 = cpus demo_cow" "this_apic s3 = this_apic demo_cow"
    using demo_cow_write by blast
  obtain s4 where s4: "flush_page_all s3 0 = Some s4" "vphys s4 = ?z"
    using flush_page_all_some [of s3 0] flush_page_all_phys [of s3 0] s3
    by (auto simp: demo_cow_def demo_mapped_def demo_vm_def cpu_boot_def)
  have un: "unref_page ?z 0x100 = (?z\<lparr> refcounts := drop_ref ?z 256 \<rparr>, True)"
    using unref_page_eq [of ?z "0x100000"] by (simp add: PAGE_SIZE_def page_of_def last_ref_def)
  have "\<exists>z'. free_page (?z\<lparr> refcounts := drop_ref ?z 256 \<rparr>) 0x100000 = Some z'"
    by (simp add: free_page_def free_order_def checked_add_def block_size_def PAGE_SIZE_def split: prod.split bool.split)
  then obtain s' where res: "resolve_cow demo_cow 0x200000 0 0x100801 = Some (s', True)"
    using demo_cow_alloc s3(1) s4 un
    by (auto simp: resolve_cow_def vm_alloc_page_def vm_free_page_def PAGE_SIZE_def Let_def)
  have z: "vphys demo_cow = demo_used" by (simp add: demo_cow_def)
  have "block_in demo_used 0 0x100000" using demo_used_facts(2) by (simp add: block_in_def demo_used_def demo_zone_def)
  moreover have "\<not> is_reserved_page demo_used 256" using demo_used_facts(4) [of 256] by simp
  moreover have "refcounts demo_used 256 = 1" by (simp add: demo_used_def demo_zone_def)
  ultimately show ?thesis using resolve_cow_leaks [OF _ res, unfolded z] res demo_used_facts(1,3)
    by (simp add: page_of_def REFCOUNT_MAX_PAGES_def)
qed

end
