(* ===== verification/Heap.thy ===== *)
theory Heap
  imports Virt
begin

text \<open>
  The slab allocator of \<^verbatim>\<open>kernel/src/mm/heap.rs\<close>. Slab headers are typed objects at their virtual
  address (\<open>slabs\<close>); the first word of every object, in which a free object keeps the address of
  the next one, is a word of \<open>words\<close>. A header is \<open>SLAB_HEADER\<close> = 40 bytes: four pointers, a byte,
  two 16-bit counters, padded to 8. Using a pointer that is not a slab as one is an abort
  (\<open>None\<close>). \<^verbatim>\<open>usize\<close> sizes are naturals with their overflow checks written out. Pages and mappings
  come from the page-table state \<open>hvm\<close>, which holds the physical allocator.
\<close>

section \<open>Slabs\<close>

definition SLAB_HEADER :: nat where "SLAB_HEADER = 40"

record slab =
  free_head :: u64
  slab_base :: u64
  slab_next :: u64
  slab_prev :: u64
  slab_ord :: nat
  total_objs :: u16
  free_objs :: u16

record kmem_cache =
  obj_size :: nat
  slab_order :: nat
  objs_per_slab :: u16
  partial_slabs :: u64
  free_slabs :: u64
  full_slabs :: u64

record heap =
  hvm :: vm
  slabs :: "u64 \<Rightarrow> slab option"
  words :: "u64 \<Rightarrow> u64"
  caches :: "kmem_cache list"
  heap_initialized :: bool

fun link_objs :: "(u64 \<Rightarrow> u64) \<Rightarrow> u64 \<Rightarrow> nat \<Rightarrow> nat \<Rightarrow> (u64 \<Rightarrow> u64)" where
  "link_objs w cur sz 0 = w"
| "link_objs w cur sz (Suc n) =
     (let next_obj = (if n \<noteq> 0 then cur + of_nat sz else 0)
      in link_objs (w(cur := next_obj)) next_obj sz n)"

definition slab_init :: "heap \<Rightarrow> u64 \<Rightarrow> nat \<Rightarrow> nat \<Rightarrow> heap \<times> u64" where
  "slab_init h base order size_of_obj =
     (let objects_start = base + of_nat SLAB_HEADER;
          slab_bytes = 2 ^ order * unat PAGE_SIZE
      in if slab_bytes \<le> SLAB_HEADER \<or> size_of_obj < 8 then (h, 0)
         else
           let total = of_nat ((slab_bytes - SLAB_HEADER) div size_of_obj) :: u16
           in (h\<lparr> words := link_objs (words h) objects_start size_of_obj (unat total),
                  slabs := (slabs h)(base \<mapsto> \<lparr> free_head = objects_start, slab_base = base, slab_next = 0,
                     slab_prev = 0, slab_ord = order, total_objs = total, free_objs = total \<rparr>) \<rparr>, base))"

definition upd_slab :: "heap \<Rightarrow> u64 \<Rightarrow> (slab \<Rightarrow> slab) \<Rightarrow> heap option" where
  "upd_slab h p f = (case slabs h p of None \<Rightarrow> None | Some s \<Rightarrow> Some (h\<lparr> slabs := (slabs h)(p \<mapsto> f s) \<rparr>))"

definition alloc_obj :: "heap \<Rightarrow> u64 \<Rightarrow> (heap \<times> u64) option" where
  "alloc_obj h p = do {
     s \<leftarrow> slabs h p;
     if free_objs s = 0 then Some (h, 0)
     else do {
       h' \<leftarrow> upd_slab h p (\<lambda>s. s\<lparr> free_head := words h (free_head s), free_objs := free_objs s - 1 \<rparr>);
       Some (h', free_head s)
     }
   }"

definition free_obj :: "heap \<Rightarrow> u64 \<Rightarrow> u64 \<Rightarrow> heap option" where
  "free_obj h p obj = do {
     s \<leftarrow> slabs h p;
     n \<leftarrow> checked_add (free_objs s) 1;
     upd_slab (h\<lparr> words := (words h)(obj := free_head s) \<rparr>) p (\<lambda>s. s\<lparr> free_head := obj, free_objs := n \<rparr>)
   }"

definition slab_is_full :: "slab \<Rightarrow> bool" where
  "slab_is_full s \<longleftrightarrow> free_objs s = 0"

definition slab_is_empty :: "slab \<Rightarrow> bool" where
  "slab_is_empty s \<longleftrightarrow> free_objs s = total_objs s"

definition slab_contains :: "slab \<Rightarrow> u64 \<Rightarrow> bool option" where
  "slab_contains s obj =
     (let stop = unat (slab_base s) + 2 ^ slab_ord s * unat PAGE_SIZE
      in if stop < 2 ^ 64 then Some (slab_base s \<le> obj \<and> unat obj < stop) else None)"

section \<open>The slab lists of a cache\<close>

definition new_const :: "nat \<Rightarrow> nat \<Rightarrow> u16 \<Rightarrow> kmem_cache" where
  "new_const sz order objs = \<lparr> obj_size = sz, slab_order = order, objs_per_slab = objs,
     partial_slabs = 0, free_slabs = 0, full_slabs = 0 \<rparr>"

definition set_cache :: "heap \<Rightarrow> nat \<Rightarrow> (kmem_cache \<Rightarrow> kmem_cache) \<Rightarrow> heap" where
  "set_cache h i f = h\<lparr> caches := (caches h)[i := f (caches h ! i)] \<rparr>"

text \<open>The body shared by the two \<^verbatim>\<open>remove\<close> functions and the match of \<^verbatim>\<open>remove_from_any_list\<close>;
  \<open>set_hd\<close> stores the list head.\<close>

definition unlink_slab :: "((u64 \<Rightarrow> u64) \<Rightarrow> kmem_cache \<Rightarrow> kmem_cache) \<Rightarrow> heap \<Rightarrow> nat \<Rightarrow> u64 \<Rightarrow> heap option" where
  "unlink_slab set_hd h i p = do {
     s \<leftarrow> slabs h p;
     let prev = slab_prev s; nxt = slab_next s in do {
     h1 \<leftarrow> (if prev \<noteq> 0 then upd_slab h prev (slab_next_update (\<lambda>_. nxt))
           else Some (set_cache h i (set_hd (\<lambda>_. nxt))));
     h2 \<leftarrow> (if nxt \<noteq> 0 then upd_slab h1 nxt (slab_prev_update (\<lambda>_. prev)) else Some h1);
     upd_slab h2 p (\<lambda>s. s\<lparr> slab_next := 0, slab_prev := 0 \<rparr>)
   }}"

definition remove_partial_ptr :: "heap \<Rightarrow> nat \<Rightarrow> u64 \<Rightarrow> heap option" where
  "remove_partial_ptr = unlink_slab partial_slabs_update"

definition remove_full_ptr :: "heap \<Rightarrow> nat \<Rightarrow> u64 \<Rightarrow> heap option" where
  "remove_full_ptr = unlink_slab full_slabs_update"

definition push_slab :: "((u64 \<Rightarrow> u64) \<Rightarrow> kmem_cache \<Rightarrow> kmem_cache) \<Rightarrow> (kmem_cache \<Rightarrow> u64)
    \<Rightarrow> heap \<Rightarrow> nat \<Rightarrow> u64 \<Rightarrow> heap option" where
  "push_slab set_hd get_hd h i p =
     (let hd = get_hd (caches h ! i) in do {
        h1 \<leftarrow> upd_slab h p (\<lambda>s. s\<lparr> slab_next := hd, slab_prev := 0 \<rparr>);
        h2 \<leftarrow> (if hd \<noteq> 0 then upd_slab h1 hd (slab_prev_update (\<lambda>_. p)) else Some h1);
        Some (set_cache h2 i (set_hd (\<lambda>_. p)))
      })"

definition push_full_ptr :: "heap \<Rightarrow> nat \<Rightarrow> u64 \<Rightarrow> heap option" where
  "push_full_ptr = push_slab full_slabs_update full_slabs"

definition push_partial_ptr :: "heap \<Rightarrow> nat \<Rightarrow> u64 \<Rightarrow> heap option" where
  "push_partial_ptr = push_slab partial_slabs_update partial_slabs"

definition push_free_ptr :: "heap \<Rightarrow> nat \<Rightarrow> u64 \<Rightarrow> heap option" where
  "push_free_ptr = push_slab free_slabs_update free_slabs"

text \<open>The list walks do not return on a cyclic list; \<open>find_slab_in\<close> yields 0 at the end of the list.\<close>

partial_function (option) find_slab_in :: "heap \<Rightarrow> u64 \<Rightarrow> u64 \<Rightarrow> u64 option" where
  "find_slab_in h obj cur =
     (if cur = 0 then Some 0
      else do {
        s \<leftarrow> slabs h cur;
        c \<leftarrow> slab_contains s obj;
        if c then Some cur else find_slab_in h obj (slab_next s)
      })"

definition find_slab_ptr :: "heap \<Rightarrow> nat \<Rightarrow> u64 \<Rightarrow> u64 option" where
  "find_slab_ptr h i obj = do {
     r \<leftarrow> find_slab_in h obj (partial_slabs (caches h ! i));
     if r \<noteq> 0 then Some r else find_slab_in h obj (full_slabs (caches h ! i))
   }"

partial_function (option) slab_listed :: "heap \<Rightarrow> u64 \<Rightarrow> u64 \<Rightarrow> bool option" where
  "slab_listed h p cur =
     (if cur = 0 then Some False
      else if cur = p then Some True
      else do { s \<leftarrow> slabs h cur; slab_listed h p (slab_next s) })"

definition remove_from_any_list :: "heap \<Rightarrow> nat \<Rightarrow> u64 \<Rightarrow> heap option" where
  "remove_from_any_list h i p = do {
     in_partial \<leftarrow> slab_listed h p (partial_slabs (caches h ! i));
     if in_partial then unlink_slab partial_slabs_update h i p
     else do {
       in_full \<leftarrow> slab_listed h p (full_slabs (caches h ! i));
       if in_full then unlink_slab full_slabs_update h i p else Some h
     }
   }"

section \<open>Allocation from a cache\<close>

definition alloc_partial :: "heap \<Rightarrow> nat \<Rightarrow> (heap \<times> u64) option" where
  "alloc_partial h i =
     (let p = partial_slabs (caches h ! i) in do {
        (h1, obj) \<leftarrow> alloc_obj h p;
        s \<leftarrow> slabs h1 p;
        h2 \<leftarrow> (if slab_is_full s then do { g \<leftarrow> remove_partial_ptr h1 i p; push_full_ptr g i p } else Some h1);
        Some (h2, obj)
      })"

definition install_slab :: "heap \<Rightarrow> nat \<Rightarrow> u64 \<Rightarrow> bool \<Rightarrow> heap option" where
  "install_slab h i p is_full = (if is_full then push_full_ptr h i p else push_partial_ptr h i p)"

definition alloc_from_free :: "heap \<Rightarrow> nat \<Rightarrow> (heap \<times> u64) option" where
  "alloc_from_free h i =
     (let p = free_slabs (caches h ! i) in do {
        s \<leftarrow> slabs h p;
        let nxt = slab_next s; h1 = set_cache h i (free_slabs_update (\<lambda>_. nxt)) in do {
        h2 \<leftarrow> (if nxt \<noteq> 0 then upd_slab h1 nxt (slab_prev_update (\<lambda>_. 0)) else Some h1);
        h3 \<leftarrow> upd_slab h2 p (\<lambda>s. s\<lparr> slab_next := 0, slab_prev := 0 \<rparr>);
        (h4, obj) \<leftarrow> alloc_obj h3 p;
        s' \<leftarrow> slabs h4 p;
        h5 \<leftarrow> install_slab h4 i p (slab_is_full s');
        Some (h5, obj)
      }})"

text \<open>The slow path runs without the cache lock up to \<open>new_slab\<close>; \<open>adopt_slab\<close> is the part after
  the lock is taken again, when another CPU may have given the cache a slab in between.\<close>

definition new_slab :: "heap \<Rightarrow> nat \<Rightarrow> (heap \<times> (u64 \<times> u64 \<times> u64) option) option" where
  "new_slab h i =
     (let c = caches h ! i in do {
        (z, r) \<leftarrow> alloc_order (vphys (hvm h)) (slab_order c);
        (case r of
           None \<Rightarrow> Some (h\<lparr> hvm := (hvm h)\<lparr> vphys := z \<rparr> \<rparr>, None)
         | Some phys_addr \<Rightarrow> do {
             virt_base \<leftarrow> checked_add HIGHER_HALF phys_addr;
             m \<leftarrow> map_contiguous ((hvm h)\<lparr> vphys := z \<rparr>) (kernel_pml4 (hvm h)) virt_base phys_addr
                    (of_nat (2 ^ slab_order c)) DATA;
             let (h1, p) = slab_init (h\<lparr> hvm := m \<rparr>) virt_base (slab_order c) (obj_size c) in do {
             (h2, obj) \<leftarrow> alloc_obj h1 p;
             Some (h2, Some (phys_addr, p, obj))
           }})
      })"

fun unmap_pages :: "vm \<Rightarrow> u64 \<Rightarrow> nat list \<Rightarrow> vm option" where
  "unmap_pages s base [] = Some s"
| "unmap_pages s base (p # rest) = do {
     off \<leftarrow> checked_mul (of_nat p) PAGE_SIZE;
     a \<leftarrow> checked_add base off;
     s' \<leftarrow> unmap s a;
     unmap_pages s' base rest
   }"

definition release_pages :: "heap \<Rightarrow> u64 \<Rightarrow> u64 \<Rightarrow> nat \<Rightarrow> heap option" where
  "release_pages h virt_base phys_addr num_pages = do {
     m \<leftarrow> unmap_pages (hvm h) virt_base [0..<num_pages];
     z \<leftarrow> free_pages (vphys m) phys_addr (of_nat num_pages);
     Some (h\<lparr> hvm := m\<lparr> vphys := z \<rparr>, slabs := (slabs h)(virt_base := None) \<rparr>)
   }"

definition adopt_slab :: "heap \<Rightarrow> nat \<Rightarrow> u64 \<Rightarrow> u64 \<Rightarrow> u64 \<Rightarrow> (heap \<times> u64) option" where
  "adopt_slab h i phys_addr p obj =
     (let num_pages = 2 ^ slab_order (caches h ! i) in do {
        s \<leftarrow> slabs h p;
        if partial_slabs (caches h ! i) \<noteq> 0 then do {
          (h1, real_obj) \<leftarrow> alloc_partial h i;
          h2 \<leftarrow> release_pages h1 p phys_addr num_pages;
          Some (h2, real_obj)
        }
        else if free_slabs (caches h ! i) \<noteq> 0 then do {
          (h1, real_obj) \<leftarrow> alloc_from_free h i;
          h2 \<leftarrow> release_pages h1 p phys_addr num_pages;
          Some (h2, real_obj)
        }
        else do { h1 \<leftarrow> install_slab h i p (slab_is_full s); Some (h1, obj) }
      })"

definition kmem_alloc :: "heap \<Rightarrow> nat \<Rightarrow> (heap \<times> u64) option" where
  "kmem_alloc h i =
     (if partial_slabs (caches h ! i) \<noteq> 0 then alloc_partial h i
      else if free_slabs (caches h ! i) \<noteq> 0 then alloc_from_free h i
      else do {
        (h1, r) \<leftarrow> new_slab h i;
        (case r of
           None \<Rightarrow> Some (h1, 0)
         | Some (phys_addr, p, obj) \<Rightarrow> adopt_slab h1 i phys_addr p obj)
      })"

definition kmem_free :: "heap \<Rightarrow> nat \<Rightarrow> u64 \<Rightarrow> heap option" where
  "kmem_free h i obj = do {
     p \<leftarrow> find_slab_ptr h i obj;
     if p = 0 then Some h
     else do {
       s \<leftarrow> slabs h p;
       h1 \<leftarrow> free_obj h p obj;
       s1 \<leftarrow> slabs h1 p;
       h2 \<leftarrow> (if slab_is_full s \<and> \<not> slab_is_empty s1
             then do { g \<leftarrow> remove_full_ptr h1 i p; push_partial_ptr g i p } else Some h1);
       if slab_is_empty s1 then do {
         h3 \<leftarrow> remove_from_any_list h2 i p;
         phys_addr \<leftarrow> checked_sub (slab_base s1) HIGHER_HALF;
         m \<leftarrow> unmap_pages (hvm h3) (slab_base s1) [0..<2 ^ slab_ord s1];
         z \<leftarrow> free_pages (vphys m) phys_addr (of_nat (2 ^ slab_ord s1));
         Some (h3\<lparr> hvm := m\<lparr> vphys := z \<rparr>, slabs := (slabs h3)(p := None) \<rparr>)
       } else Some h2
     }
   }"

section \<open>The allocator\<close>

fun params_from :: "nat \<Rightarrow> nat list \<Rightarrow> nat \<times> u16" where
  "params_from sz [] = (4, 1)"
| "params_from sz (order # rest) =
     (let avail = 2 ^ order * unat PAGE_SIZE - SLAB_HEADER;
          objs = of_nat (avail div sz) :: u16
      in if sz \<le> avail \<and> 1 \<le> objs then (order, objs) else params_from sz rest)"

definition cache_params :: "nat \<Rightarrow> nat \<times> u16" where
  "cache_params sz = params_from sz [0..<5]"

definition CACHE_SIZES :: "nat list" where
  "CACHE_SIZES = [32, 64, 128, 256, 512, 1024, 2048, 4096, 8192]"

definition heap_boot :: "vm \<Rightarrow> heap" where
  "heap_boot m = \<lparr> hvm = m, slabs = (\<lambda>_. None), words = (\<lambda>_. 0),
     caches = [new_const 32 0 127, new_const 64 0 63, new_const 128 0 31, new_const 256 0 15, new_const 512 0 7,
       new_const 1024 0 3, new_const 2048 0 1, new_const 4096 1 1, new_const 8192 2 1],
     heap_initialized = False \<rparr>"

definition heap_init :: "heap \<Rightarrow> heap" where
  "heap_init h =
     (if heap_initialized h then h
      else h\<lparr> caches := map (\<lambda>sz. case cache_params sz of (order, objs) \<Rightarrow> new_const sz order objs) CACHE_SIZES,
              heap_initialized := True \<rparr>)"

definition cache_index :: "nat \<Rightarrow> nat option" where
  "cache_index n =
     (if n \<le> 32 then Some 0 else if n \<le> 64 then Some 1 else if n \<le> 128 then Some 2
      else if n \<le> 256 then Some 3 else if n \<le> 512 then Some 4 else if n \<le> 1024 then Some 5
      else if n \<le> 2048 then Some 6 else if n \<le> 4096 then Some 7 else if n \<le> 8192 then Some 8 else None)"

function order_for :: "nat \<Rightarrow> nat \<Rightarrow> nat" where
  "order_for pages o' = (if 2 ^ o' < pages then order_for pages (Suc o') else o')"
  by pat_completeness auto
termination
proof (relation "measure (\<lambda>(pages, o'). pages - o')", goal_cases)
  case (2 pages o')
  then have "o' < pages" using less_exp [of o'] by linarith
  then show ?case by simp
qed simp

declare order_for.simps [simp del]

definition pages_of :: "nat \<Rightarrow> nat option" where
  "pages_of n = (if n + 4095 < 2 ^ 64 then Some ((n + 4095) div 4096) else None)"

definition alloc_direct :: "heap \<Rightarrow> nat \<Rightarrow> (heap \<times> u64) option" where
  "alloc_direct h n = do {
     pages \<leftarrow> pages_of n;
     let order = order_for pages 0 in
     if 10 < order then Some (h, 0)
     else do {
       (z, r) \<leftarrow> alloc_order (vphys (hvm h)) order;
       (case r of
          None \<Rightarrow> Some (h\<lparr> hvm := (hvm h)\<lparr> vphys := z \<rparr> \<rparr>, 0)
        | Some phys_addr \<Rightarrow> do {
            virt_base \<leftarrow> checked_add HIGHER_HALF phys_addr;
            m \<leftarrow> map_contiguous ((hvm h)\<lparr> vphys := z \<rparr>) (kernel_pml4 (hvm h)) virt_base phys_addr
                   (of_nat pages) DATA;
            Some (h\<lparr> hvm := m \<rparr>, virt_base)
          })
     }
   }"

definition kmalloc_aligned :: "heap \<Rightarrow> nat \<Rightarrow> nat \<Rightarrow> (heap \<times> u64) option" where
  "kmalloc_aligned h n align =
     (if 16 < align then alloc_direct h n
      else (case cache_index n of Some i \<Rightarrow> kmem_alloc h i | None \<Rightarrow> alloc_direct h n))"

definition kmalloc :: "heap \<Rightarrow> nat \<Rightarrow> (heap \<times> u64) option" where
  "kmalloc h n = kmalloc_aligned h n 1"

definition kfree :: "heap \<Rightarrow> u64 \<Rightarrow> nat \<Rightarrow> heap option" where
  "kfree h ptr n =
     (case cache_index n of
        Some i \<Rightarrow> kmem_free h i ptr
      | None \<Rightarrow> do {
          pages \<leftarrow> pages_of n;
          let order = order_for pages 0 in
          if 10 < order then Some h
          else do {
            m \<leftarrow> unmap_pages (hvm h) ptr [0..<pages];
            phys_addr \<leftarrow> checked_sub ptr HIGHER_HALF;
            z \<leftarrow> free_pages (vphys m) phys_addr (of_nat (2 ^ order));
            Some (h\<lparr> hvm := m\<lparr> vphys := z \<rparr> \<rparr>)
          }
        })"

definition global_alloc :: "heap \<Rightarrow> nat \<Rightarrow> nat \<Rightarrow> (heap \<times> u64) option" where
  "global_alloc h n align = (if \<not> heap_initialized h then Some (h, 0) else kmalloc_aligned h n align)"

definition global_dealloc :: "heap \<Rightarrow> u64 \<Rightarrow> nat \<Rightarrow> heap option" where
  "global_dealloc h ptr n = (if ptr = 0 \<or> \<not> heap_initialized h then Some h else kfree h ptr n)"

section \<open>Statistics\<close>

record slab_cache_stat =
  stat_obj_size :: nat
  stat_slab_count :: "nat \<times> nat \<times> nat"
  stat_total_objs :: nat
  stat_free_objs :: nat

text \<open>The walk of one list returns the number of slabs, of objects and of free objects.\<close>

partial_function (option) list_stats :: "heap \<Rightarrow> u64 \<Rightarrow> nat \<times> nat \<times> nat \<Rightarrow> (nat \<times> nat \<times> nat) option" where
  "list_stats h cur acc =
     (if cur = 0 then Some acc
      else do {
        s \<leftarrow> slabs h cur;
        list_stats h (slab_next s)
          (fst acc + 1, fst (snd acc) + unat (total_objs s), snd (snd acc) + unat (free_objs s))
      })"

definition cache_stat :: "heap \<Rightarrow> nat \<Rightarrow> slab_cache_stat option" where
  "cache_stat h i = do {
     (np, tp, fp) \<leftarrow> list_stats h (partial_slabs (caches h ! i)) (0, 0, 0);
     (nu, tu, fu) \<leftarrow> list_stats h (full_slabs (caches h ! i)) (0, tp, fp);
     (nf, tf, ff) \<leftarrow> list_stats h (free_slabs (caches h ! i)) (0, tu, fu);
     Some \<lparr> stat_obj_size = CACHE_SIZES ! i, stat_slab_count = (np, nu, nf), stat_total_objs = tf, stat_free_objs = ff \<rparr>
   }"

fun stats_from :: "heap \<Rightarrow> nat list \<Rightarrow> slab_cache_stat list option" where
  "stats_from h [] = Some []"
| "stats_from h (i # rest) = do { a \<leftarrow> cache_stat h i; b \<leftarrow> stats_from h rest; Some (a # b) }"

definition slab_stats :: "heap \<Rightarrow> slab_cache_stat list option" where
  "slab_stats h =
     (if \<not> heap_initialized h
      then Some (replicate 9 \<lparr> stat_obj_size = 0, stat_slab_count = (0, 0, 0), stat_total_objs = 0, stat_free_objs = 0 \<rparr>)
      else stats_from h [0..<length (caches h)])"

end
