(* ===== verification/Heap_Lists.thy ===== *)
theory Heap_Lists
  imports Heap
begin

text \<open>
  The doubly linked slab lists of a cache: what \<^verbatim>\<open>remove_partial_ptr\<close>, \<^verbatim>\<open>push_full_ptr\<close> and their
  siblings do to a well-formed list, and that the list walks return on one. The operations are
  proved once for both list heads, under the contract \<open>slab_list\<close> of a head field.
\<close>

section \<open>List segments\<close>

text \<open>\<open>dseg S a p xs l n\<close>: from the pointer \<open>p\<close>, whose predecessor is \<open>a\<close>, the list visits \<open>xs\<close>
  and leaves with predecessor \<open>l\<close> at the pointer \<open>n\<close>.\<close>

fun dseg :: "(u64 \<Rightarrow> slab option) \<Rightarrow> u64 \<Rightarrow> u64 \<Rightarrow> u64 list \<Rightarrow> u64 \<Rightarrow> u64 \<Rightarrow> bool" where
  "dseg S a p [] l n \<longleftrightarrow> p = n \<and> a = l"
| "dseg S a p (x # xs) l n \<longleftrightarrow> p = x \<and> x \<noteq> 0
     \<and> (case S x of None \<Rightarrow> False | Some s \<Rightarrow> slab_prev s = a \<and> dseg S x (slab_next s) xs l n)"

definition dll :: "(u64 \<Rightarrow> slab option) \<Rightarrow> u64 \<Rightarrow> u64 list \<Rightarrow> bool" where
  "dll S p xs \<longleftrightarrow> distinct xs \<and> (\<exists>l. dseg S 0 p xs l 0)"

lemma dseg_append: "dseg S a p (xs @ ys) l n \<longleftrightarrow> (\<exists>m q. dseg S a p xs m q \<and> dseg S m q ys l n)"
  by (induction xs arbitrary: a p) (auto split: option.splits)

lemma dseg_upd [simp]: "x \<notin> set xs \<Longrightarrow> dseg (S(x := v)) a p xs l n = dseg S a p xs l n"
  by (induction xs arbitrary: a p) (auto split: option.splits)

lemma dseg_cong:
  "(\<And>x. x \<in> set xs \<Longrightarrow> map_option slab_next (S' x) = map_option slab_next (S x)
      \<and> map_option slab_prev (S' x) = map_option slab_prev (S x))
    \<Longrightarrow> dseg S' a p xs l n = dseg S a p xs l n"
proof (induction xs arbitrary: a p)
  case (Cons x xs)
  have "map_option slab_next (S' x) = map_option slab_next (S x)"
    "map_option slab_prev (S' x) = map_option slab_prev (S x)" using Cons.prems [of x] by simp_all
  with Cons.IH Cons.prems show ?case by (cases "S x"; cases "S' x") auto
qed simp

lemma dseg_nonzero: "dseg S a p xs l n \<Longrightarrow> 0 \<notin> set xs"
  by (induction xs arbitrary: a p) (auto split: option.splits)

lemma dseg_slab: "dseg S a p xs l n \<Longrightarrow> x \<in> set xs \<Longrightarrow> \<exists>s. S x = Some s"
  by (induction xs arbitrary: a p) (auto split: option.splits)

lemma dseg_start: "dseg S a p xs l 0 \<Longrightarrow> p = (case xs of [] \<Rightarrow> 0 | x # _ \<Rightarrow> x)"
  by (cases xs) auto

lemma dseg_end: "dseg S a p xs l n \<Longrightarrow> l = (if xs = [] then a else last xs)"
  by (induction xs arbitrary: a p) (auto split: option.splits)

lemma dll_null: "dll S 0 xs \<longleftrightarrow> xs = []"
  by (cases xs) (auto simp: dll_def)

lemma dll_head: "dll S p xs \<Longrightarrow> p \<noteq> 0 \<Longrightarrow> \<exists>ys. xs = p # ys"
  by (cases xs) (auto simp: dll_def)

lemma dll_slab: "dll S p xs \<Longrightarrow> x \<in> set xs \<Longrightarrow> x \<noteq> 0 \<and> (\<exists>s. S x = Some s)"
  by (auto simp: dll_def dest: dseg_nonzero dseg_slab)

lemma dll_upd [simp]: "x \<notin> set xs \<Longrightarrow> dll (S(x := v)) p xs = dll S p xs"
  by (simp add: dll_def)

lemma dll_cong:
  assumes "\<And>x. x \<in> set xs \<Longrightarrow> map_option slab_next (S' x) = map_option slab_next (S x)
      \<and> map_option slab_prev (S' x) = map_option slab_prev (S x)"
  shows "dll S' p xs = dll S p xs"
proof -
  have "dseg S' 0 p xs l 0 = dseg S 0 p xs l 0" for l using assms by (rule dseg_cong)
  then show ?thesis by (simp add: dll_def)
qed

section \<open>Linking and unlinking\<close>

text \<open>The links of a slab are all that list operations change.\<close>

definition relinked :: "(u64 \<Rightarrow> slab option) \<Rightarrow> (u64 \<Rightarrow> slab option) \<Rightarrow> u64 set \<Rightarrow> bool" where
  "relinked S S' X \<longleftrightarrow> (\<forall>x. x \<notin> X \<longrightarrow> S' x = S x)
     \<and> (\<forall>x. map_option (\<lambda>s. s\<lparr> slab_next := 0, slab_prev := 0 \<rparr>) (S' x)
          = map_option (\<lambda>s. s\<lparr> slab_next := 0, slab_prev := 0 \<rparr>) (S x))"

lemma relinked_refl: "relinked S S X"
  by (simp add: relinked_def)

lemma relinked_upd:
  assumes "relinked S S' X" "S' p = Some s" "p \<in> X"
    "s'\<lparr> slab_next := 0, slab_prev := 0 \<rparr> = s\<lparr> slab_next := 0, slab_prev := 0 \<rparr>"
  shows "relinked S (S'(p \<mapsto> s')) X"
proof -
  have "map_option (\<lambda>s. s\<lparr> slab_next := 0, slab_prev := 0 \<rparr>) (S p) = Some (s\<lparr> slab_next := 0, slab_prev := 0 \<rparr>)"
    using assms(1,2) unfolding relinked_def by (metis option.simps(9))
  with assms show ?thesis by (auto simp: relinked_def)
qed

lemmas relinked_one = relinked_upd [OF relinked_refl]

lemma relinked_trans: "relinked S S' X \<Longrightarrow> relinked S' S'' Y \<Longrightarrow> relinked S S'' (X \<union> Y)"
  by (auto simp: relinked_def)

lemma relinked_dll: "relinked S S' X \<Longrightarrow> X \<inter> set xs = {} \<Longrightarrow> dll S' p xs = dll S p xs"
  by (rule dll_cong) (auto simp: relinked_def)

lemma relinked_data:
  assumes "relinked S S' X" "S x = Some s"
  shows "\<exists>s'. S' x = Some s' \<and> slab_base s' = slab_base s \<and> slab_ord s' = slab_ord s
    \<and> total_objs s' = total_objs s \<and> free_objs s' = free_objs s \<and> free_head s' = free_head s"
proof -
  have "map_option (\<lambda>s. s\<lparr> slab_next := 0, slab_prev := 0 \<rparr>) (S' x) = Some (s\<lparr> slab_next := 0, slab_prev := 0 \<rparr>)"
    using assms by (simp add: relinked_def)
  then obtain s' where s': "S' x = Some s'" and eq: "s'\<lparr> slab_next := 0, slab_prev := 0 \<rparr> = s\<lparr> slab_next := 0, slab_prev := 0 \<rparr>"
    by auto
  have "slab_base (s'\<lparr> slab_next := 0, slab_prev := 0 \<rparr>) = slab_base (s\<lparr> slab_next := 0, slab_prev := 0 \<rparr>)"
    "slab_ord (s'\<lparr> slab_next := 0, slab_prev := 0 \<rparr>) = slab_ord (s\<lparr> slab_next := 0, slab_prev := 0 \<rparr>)"
    "total_objs (s'\<lparr> slab_next := 0, slab_prev := 0 \<rparr>) = total_objs (s\<lparr> slab_next := 0, slab_prev := 0 \<rparr>)"
    "free_objs (s'\<lparr> slab_next := 0, slab_prev := 0 \<rparr>) = free_objs (s\<lparr> slab_next := 0, slab_prev := 0 \<rparr>)"
    "free_head (s'\<lparr> slab_next := 0, slab_prev := 0 \<rparr>) = free_head (s\<lparr> slab_next := 0, slab_prev := 0 \<rparr>)"
    by (simp_all only: eq)
  with s' show ?thesis by simp
qed

lemma dseg_set_next:
  assumes "dseg S a p (xs @ [x]) l n" "distinct (xs @ [x])" "S x = Some s"
  shows "dseg (S(x \<mapsto> s\<lparr> slab_next := n' \<rparr>)) a p (xs @ [x]) l n'"
  using assms by (auto simp: dseg_append)

lemma dseg_set_prev:
  assumes "dseg S a p (x # xs) l n" "distinct (x # xs)" "S x = Some s"
  shows "dseg (S(x \<mapsto> s\<lparr> slab_prev := b \<rparr>)) b p (x # xs) l n"
  using assms by auto

lemma set_first_prev:
  assumes "dseg S a n bs l 0" "distinct bs"
  shows "\<exists>S'. (\<forall>g. slabs g = S \<longrightarrow> (if n \<noteq> 0 then upd_slab g n (slab_prev_update (\<lambda>_. m)) else Some g)
        = Some (g\<lparr> slabs := S' \<rparr>))
    \<and> (\<exists>l'. dseg S' m n bs l' 0) \<and> relinked S S' (set bs)"
proof (cases bs)
  case Nil
  then show ?thesis using assms relinked_refl by (intro exI [of _ S]) auto
next
  case (Cons x ys)
  then obtain t where t: "S n = Some t" "n = x" "n \<noteq> 0" using assms(1) by (auto split: option.splits)
  have "dseg (S(n \<mapsto> t\<lparr> slab_prev := m \<rparr>)) m n bs l 0"
    using dseg_set_prev assms t unfolding Cons by blast
  moreover have "relinked S (S(n \<mapsto> t\<lparr> slab_prev := m \<rparr>)) (set bs)"
    using t(1) by (rule relinked_one) (simp_all add: Cons t)
  ultimately show ?thesis using t by (intro exI [of _ "S(n \<mapsto> t\<lparr> slab_prev := m \<rparr>)"]) (auto simp: upd_slab_def)
qed

text \<open>A head field of the cache record: reading it after an update, and writing back what it holds.\<close>

locale slab_list =
  fixes head :: "kmem_cache \<Rightarrow> u64"
    and set_head :: "(u64 \<Rightarrow> u64) \<Rightarrow> kmem_cache \<Rightarrow> kmem_cache"
  assumes head_set: "head (set_head f c) = f (head c)"
    and set_same: "set_head (\<lambda>_. head c) c = c"
begin

lemma push_dll:
  assumes "i < length (caches h)" "dll (slabs h) (head (caches h ! i)) xs" "slabs h p = Some s" "p \<noteq> 0" "p \<notin> set xs"
  shows "\<exists>S. push_slab set_head head h i p
      = Some (h\<lparr> slabs := S, caches := (caches h)[i := set_head (\<lambda>_. p) (caches h ! i)] \<rparr>)
    \<and> dll S p (p # xs) \<and> relinked (slabs h) S (set (p # xs))"
proof (cases xs)
  case Nil
  then have hd: "head (caches h ! i) = 0" using assms(2) by (simp add: dll_def)
  have "relinked (slabs h) ((slabs h)(p \<mapsto> s\<lparr> slab_next := 0, slab_prev := 0 \<rparr>)) (set (p # xs))"
    by (rule relinked_one) (simp_all add: assms(3))
  then show ?thesis using Nil hd assms
    by (intro exI [of _ "(slabs h)(p \<mapsto> s\<lparr> slab_next := 0, slab_prev := 0 \<rparr>)"])
      (simp add: push_slab_def upd_slab_def set_cache_def dll_def)
next
  case (Cons x ys)
  then have hd: "head (caches h ! i) = x" and x: "x \<noteq> 0" "x \<noteq> p" using assms(2,5) by (auto simp: dll_def)
  obtain l where seg: "dseg (slabs h) 0 x (x # ys) l 0" and dis: "distinct (x # ys)"
    using assms(2) hd Cons by (auto simp: dll_def)
  then obtain t where t: "slabs h x = Some t" by (auto split: option.splits)
  define S1 where "S1 = (slabs h)(p \<mapsto> s\<lparr> slab_next := x, slab_prev := 0 \<rparr>)"
  define S where "S = S1(x \<mapsto> t\<lparr> slab_prev := p \<rparr>)"
  have t1: "S1 x = Some t" using t x by (simp add: S1_def)
  have r1: "relinked (slabs h) S1 (set (p # xs))"
    unfolding S1_def by (rule relinked_one) (simp_all add: assms(3))
  have "relinked (slabs h) S (set (p # xs))"
    unfolding S_def using r1 t1 by (rule relinked_upd) (simp_all add: Cons)
  moreover have "dseg S1 0 x (x # ys) l 0" using seg assms(5) Cons unfolding S1_def by (subst dseg_upd) simp_all
  from dseg_set_prev [OF this dis t1] have "dseg S p x (x # ys) l 0" unfolding S_def .
  then have "dll S p (p # xs)"
    using dis assms(4,5) Cons x by (auto simp: dll_def S_def S1_def simp del: dseg.simps(2) intro!: exI [of _ l])
      (simp add: S_def S1_def)
  ultimately show ?thesis
    using hd x t assms(3,4) by (intro exI [of _ S]) (simp add: push_slab_def upd_slab_def set_cache_def S_def S1_def Let_def)
qed

lemma unlink_prev:
  assumes "i < length (caches h)" "dseg (slabs h) 0 (head (caches h ! i)) as m p" "distinct as"
  shows "\<exists>S q. (if m \<noteq> 0 then upd_slab h m (slab_next_update (\<lambda>_. n))
        else Some (set_cache h i (set_head (\<lambda>_. n))))
      = Some (h\<lparr> slabs := S, caches := (caches h)[i := set_head (\<lambda>_. q) (caches h ! i)] \<rparr>)
    \<and> dseg S 0 q as m n \<and> relinked (slabs h) S (set as)"
proof (cases as rule: rev_cases)
  case Nil
  then show ?thesis using assms relinked_refl by (intro exI [of _ "slabs h"] exI [of _ n]) (simp add: set_cache_def)
next
  case (snoc ys x)
  have m: "m = x" "m \<noteq> 0" using dseg_end [OF assms(2)] dseg_nonzero [OF assms(2)] snoc by auto
  obtain s where s: "slabs h m = Some s" using dseg_slab [OF assms(2)] snoc m by auto
  have "dseg ((slabs h)(m \<mapsto> s\<lparr> slab_next := n \<rparr>)) 0 (head (caches h ! i)) as m n"
    using dseg_set_next assms(2,3) s unfolding snoc m(1) by blast
  moreover have "relinked (slabs h) ((slabs h)(m \<mapsto> s\<lparr> slab_next := n \<rparr>)) (set as)"
    using s m(1) by (intro relinked_one) (simp_all add: snoc)
  ultimately show ?thesis using m s assms(1)
    by (intro exI [of _ "(slabs h)(m \<mapsto> s\<lparr> slab_next := n \<rparr>)"] exI [of _ "head (caches h ! i)"])
      (simp add: upd_slab_def set_same)
qed

lemma unlink_dll:
  assumes "i < length (caches h)" "dll (slabs h) (head (caches h ! i)) (as @ p # bs)"
  shows "\<exists>S q. unlink_slab set_head h i p
      = Some (h\<lparr> slabs := S, caches := (caches h)[i := set_head (\<lambda>_. q) (caches h ! i)] \<rparr>)
    \<and> dll S q (as @ bs) \<and> relinked (slabs h) S (set (as @ p # bs))"
proof -
  let ?X = "set (as @ p # bs)" and ?c = "caches h ! i"
  from assms(2) obtain l m where dis: "distinct (as @ p # bs)"
    and sa: "dseg (slabs h) 0 (head ?c) as m p" and sb: "dseg (slabs h) m p (p # bs) l 0"
    unfolding dll_def dseg_append by (metis dseg.simps(2))
  then obtain s where s: "slabs h p = Some s" "slab_prev s = m" "p \<noteq> 0" and sn: "dseg (slabs h) p (slab_next s) bs l 0"
    by (auto split: option.splits)
  let ?n = "slab_next s"
  obtain S1 q where h1: "(if m \<noteq> 0 then upd_slab h m (slab_next_update (\<lambda>_. ?n))
        else Some (set_cache h i (set_head (\<lambda>_. ?n))))
      = Some (h\<lparr> slabs := S1, caches := (caches h)[i := set_head (\<lambda>_. q) ?c] \<rparr>)"
    and s1: "dseg S1 0 q as m ?n" "relinked (slabs h) S1 (set as)"
    using unlink_prev [OF assms(1) sa, of ?n] dis by auto
  have sb1: "dseg S1 p ?n bs l 0" using sn
    by (subst dseg_cong) (use s1(2) dis in \<open>auto simp: relinked_def\<close>)
  obtain S2 where h2: "\<forall>g. slabs g = S1 \<longrightarrow> (if ?n \<noteq> 0 then upd_slab g ?n (slab_prev_update (\<lambda>_. m)) else Some g)
        = Some (g\<lparr> slabs := S2 \<rparr>)"
    and s2: "\<exists>l'. dseg S2 m ?n bs l' 0" "relinked S1 S2 (set bs)"
    using set_first_prev [OF sb1, of m] dis by auto
  have sa2: "dseg S2 0 q as m ?n" using s1(1)
    by (subst dseg_cong) (use s2(2) dis in \<open>auto simp: relinked_def\<close>)
  have r2: "relinked (slabs h) S2 ?X"
    using relinked_trans [OF s1(2) s2(2)] by (auto simp: relinked_def)
  obtain s' where s': "S2 p = Some s'" using relinked_data [OF r2 s(1)] by blast
  let ?S = "S2(p \<mapsto> s'\<lparr> slab_next := 0, slab_prev := 0 \<rparr>)"
  have "relinked (slabs h) ?S ?X" using r2 s' by (rule relinked_upd) simp_all
  moreover have "dll ?S q (as @ bs)" using sa2 s2(1) dis by (auto simp: dll_def dseg_append)
  moreover have "unlink_slab set_head h i p
      = Some (h\<lparr> slabs := ?S, caches := (caches h)[i := set_head (\<lambda>_. q) ?c] \<rparr>)"
    using h1 h2 s s' by (simp add: unlink_slab_def upd_slab_def)
  ultimately show ?thesis by blast
qed

end

interpretation partial_list: slab_list partial_slabs partial_slabs_update
  by unfold_locales simp_all

interpretation full_list: slab_list full_slabs full_slabs_update
  by unfold_locales simp_all

interpretation free_list: slab_list free_slabs free_slabs_update
  by unfold_locales simp_all

section \<open>The list walks return\<close>

lemma find_slab_in_dll:
  "dseg (slabs h) a p xs l 0 \<Longrightarrow> (\<forall>x\<in>set xs. slab_contains (the (slabs h x)) obj = Some (C x))
    \<Longrightarrow> find_slab_in h obj p = Some (case List.find C xs of None \<Rightarrow> 0 | Some x \<Rightarrow> x)"
proof (induction xs arbitrary: a p)
  case Nil
  then show ?case by (simp add: find_slab_in.simps)
next
  case (Cons x xs)
  then show ?case by (subst find_slab_in.simps) (auto split: option.splits)
qed

lemma slab_listed_dll: "dseg (slabs h) a p xs l 0 \<Longrightarrow> slab_listed h q p = Some (q \<in> set xs)"
proof (induction xs arbitrary: a p)
  case Nil
  then show ?case by (simp add: slab_listed.simps)
next
  case (Cons x xs)
  then show ?case by (subst slab_listed.simps) (auto split: option.splits)
qed

lemma list_stats_dll:
  "dseg (slabs h) a p xs l 0 \<Longrightarrow> list_stats h p (n, t, f)
     = Some (n + length xs, t + (\<Sum>x\<leftarrow>xs. unat (total_objs (the (slabs h x)))),
         f + (\<Sum>x\<leftarrow>xs. unat (free_objs (the (slabs h x)))))"
proof (induction xs arbitrary: a p n t f)
  case Nil
  then show ?case by (simp add: list_stats.simps)
next
  case (Cons x xs)
  then show ?case by (subst list_stats.simps) (auto split: option.splits)
qed

end
