(* ===== verification/Heap_Correct.thy ===== *)
theory Heap_Correct
  imports Heap_Lists
begin

text \<open>
  The invariant of a slab cache and what allocation and release do to it. The free objects of a
  slab are the first \<open>free_objs\<close> of the chain from \<open>free_head\<close>; the cache's promise is that they
  are distinct slots of the slab, that a partial slab has a free object and a full one has none,
  and that an allocation takes one of them and nothing else.
\<close>

section \<open>The invariant\<close>

fun chain_objs :: "(u64 \<Rightarrow> u64) \<Rightarrow> u64 \<Rightarrow> nat \<Rightarrow> u64 list" where
  "chain_objs w p 0 = []"
| "chain_objs w p (Suc n) = p # chain_objs w (w p) n"

definition slab_bytes :: "kmem_cache \<Rightarrow> nat" where
  "slab_bytes c = 4096 * 2 ^ slab_order c"

definition slots :: "kmem_cache \<Rightarrow> nat" where
  "slots c = (slab_bytes c - SLAB_HEADER) div obj_size c"

definition slot_addr :: "kmem_cache \<Rightarrow> u64 \<Rightarrow> nat \<Rightarrow> u64" where
  "slot_addr c p k = p + of_nat (SLAB_HEADER + k * obj_size c)"

definition slab_slots :: "kmem_cache \<Rightarrow> u64 \<Rightarrow> u64 set" where
  "slab_slots c p = slot_addr c p ` {..<slots c}"

definition slab_free :: "heap \<Rightarrow> u64 \<Rightarrow> u64 list" where
  "slab_free h p = (case slabs h p of None \<Rightarrow> []
     | Some s \<Rightarrow> chain_objs (words h) (free_head s) (unat (free_objs s)))"

definition cache_fit :: "kmem_cache \<Rightarrow> bool" where
  "cache_fit c \<longleftrightarrow> 8 \<le> obj_size c \<and> 0 < slots c \<and> slots c < 2 ^ 16"

definition slab_ok :: "heap \<Rightarrow> kmem_cache \<Rightarrow> u64 \<Rightarrow> bool" where
  "slab_ok h c p \<longleftrightarrow> (case slabs h p of None \<Rightarrow> False | Some s \<Rightarrow>
     slab_base s = p \<and> slab_ord s = slab_order c \<and> unat (total_objs s) = slots c \<and> unat p + slab_bytes c < 2 ^ 64)
     \<and> distinct (slab_free h p) \<and> set (slab_free h p) \<subseteq> slab_slots c p"

definition apart :: "kmem_cache \<Rightarrow> u64 set \<Rightarrow> bool" where
  "apart c P \<longleftrightarrow> (\<forall>p\<in>P. \<forall>q\<in>P. p \<noteq> q \<longrightarrow> unat p + slab_bytes c \<le> unat q \<or> unat q + slab_bytes c \<le> unat p)"

definition cache_inv :: "heap \<Rightarrow> nat \<Rightarrow> u64 list \<Rightarrow> u64 list \<Rightarrow> bool" where
  "cache_inv h i ps fs \<longleftrightarrow> i < length (caches h) \<and> cache_fit (caches h ! i)
     \<and> dll (slabs h) (partial_slabs (caches h ! i)) ps \<and> dll (slabs h) (full_slabs (caches h ! i)) fs
     \<and> free_slabs (caches h ! i) = 0 \<and> set ps \<inter> set fs = {} \<and> apart (caches h ! i) (set ps \<union> set fs)
     \<and> (\<forall>p\<in>set ps. slab_ok h (caches h ! i) p \<and> 0 < length (slab_free h p) \<and> length (slab_free h p) < slots (caches h ! i))
     \<and> (\<forall>p\<in>set fs. slab_ok h (caches h ! i) p \<and> slab_free h p = [])"

definition free_in :: "heap \<Rightarrow> u64 set \<Rightarrow> u64 set" where
  "free_in h P = (\<Union>p\<in>P. set (slab_free h p))"

section \<open>Objects of a slab\<close>

lemma chain_objs_length [simp]: "length (chain_objs w p n) = n"
  by (induction n arbitrary: p) simp_all

lemma chain_objs_upd: "x \<notin> set (chain_objs w p n) \<Longrightarrow> chain_objs (w(x := v)) p n = chain_objs w p n"
  by (induction n arbitrary: p) auto

lemma slot_bound:
  assumes "k < slots c"
  shows "SLAB_HEADER + (k + 1) * obj_size c \<le> slab_bytes c"
proof -
  have "(k + 1) * obj_size c \<le> slots c * obj_size c" using assms by (intro mult_right_mono) auto
  also have "\<dots> \<le> slab_bytes c - SLAB_HEADER" by (simp add: slots_def)
  finally show ?thesis using assms by (cases "SLAB_HEADER \<le> slab_bytes c") (auto simp: slots_def)
qed

lemma slot_addr_unat:
  assumes "unat p + slab_bytes c < 2 ^ 64" "k < slots c"
  shows "unat (slot_addr c p k) = unat p + SLAB_HEADER + k * obj_size c"
proof -
  have lt: "unat p + (SLAB_HEADER + k * obj_size c) < 2 ^ 64"
    using slot_bound [OF assms(2)] assms(1) by simp
  then have "unat (of_nat (SLAB_HEADER + k * obj_size c) :: u64) = SLAB_HEADER + k * obj_size c"
    by (simp add: unat_of_nat del: of_nat_add of_nat_mult)
  with lt show ?thesis unfolding slot_addr_def unat_word_ariths(1) by (simp del: of_nat_add of_nat_mult)
qed

lemma slab_slots_range:
  assumes "o' \<in> slab_slots c p" "unat p + slab_bytes c < 2 ^ 64" "8 \<le> obj_size c"
  shows "unat p < unat o' \<and> unat o' + obj_size c \<le> unat p + slab_bytes c"
proof -
  obtain k where "k < slots c" "o' = slot_addr c p k" using assms(1) by (auto simp: slab_slots_def)
  then show ?thesis using slot_addr_unat [OF assms(2)] slot_bound [of k c] by (auto simp: SLAB_HEADER_def)
qed

lemma alloc_obj_spec:
  assumes "slabs h p = Some s" "slab_free h p = o' # os"
  defines "h' \<equiv> h\<lparr> slabs := (slabs h)(p \<mapsto> s\<lparr> free_head := words h o', free_objs := free_objs s - 1 \<rparr>) \<rparr>"
  shows "alloc_obj h p = Some (h', o')" "slab_free h' p = os" "q \<noteq> p \<Longrightarrow> slab_free h' q = slab_free h q"
proof -
  obtain n where n: "unat (free_objs s) = Suc n" and o': "o' = free_head s" "os = chain_objs (words h) (words h o') n"
    using assms(1,2) by (cases "unat (free_objs s)") (auto simp: slab_free_def)
  then have "free_objs s \<noteq> 0" by auto
  moreover from this have "unat (free_objs s - 1) = n" using n by (simp add: unat_minus_one)
  ultimately show "alloc_obj h p = Some (h', o')" "slab_free h' p = os" "q \<noteq> p \<Longrightarrow> slab_free h' q = slab_free h q"
    using assms(1) o' by (simp_all add: alloc_obj_def upd_slab_def h'_def slab_free_def split: option.split)
qed

lemma free_obj_spec:
  assumes "slabs h p = Some s" "o' \<notin> set (slab_free h p)" "length (slab_free h p) < 65535"
  defines "h' \<equiv> h\<lparr> words := (words h)(o' := free_head s),
    slabs := (slabs h)(p \<mapsto> s\<lparr> free_head := o', free_objs := free_objs s + 1 \<rparr>) \<rparr>"
  shows "free_obj h p o' = Some h'" "slab_free h' p = o' # slab_free h p"
    "q \<noteq> p \<Longrightarrow> o' \<notin> set (slab_free h q) \<Longrightarrow> slab_free h' q = slab_free h q"
proof -
  have n: "unat (free_objs s) < 65535" using assms(1,3) by (simp add: slab_free_def)
  then have "checked_add (free_objs s) 1 = Some (free_objs s + 1)" "unat (free_objs s + 1) = Suc (unat (free_objs s))"
    by (simp_all add: checked_add_def unat_word_ariths(1))
  then show "free_obj h p o' = Some h'" "slab_free h' p = o' # slab_free h p"
    "q \<noteq> p \<Longrightarrow> o' \<notin> set (slab_free h q) \<Longrightarrow> slab_free h' q = slab_free h q"
    using assms(1,2) by (auto simp: free_obj_def upd_slab_def h'_def slab_free_def chain_objs_upd split: option.splits)
qed

lemma relinked_free:
  assumes "relinked (slabs h) (slabs h') X" "words h' = words h"
  shows "slab_free h' p = slab_free h p"
proof (cases "slabs h p")
  case None
  then have "slabs h' p = None" using assms(1) by (simp add: relinked_def) (metis option.map_disc_iff)
  with None show ?thesis by (simp add: slab_free_def)
next
  case (Some s)
  then show ?thesis using relinked_data [OF assms(1) Some] assms(2) by (auto simp: slab_free_def)
qed

lemma relinked_ok:
  assumes "relinked (slabs h) (slabs h') X" "words h' = words h" "slab_ok h c p"
  shows "slab_ok h' c p"
proof -
  obtain s where s: "slabs h p = Some s" using assms(3) by (auto simp: slab_ok_def split: option.splits)
  show ?thesis using assms(3) s relinked_data [OF assms(1) s] relinked_free [OF assms(1,2)]
    by (auto simp: slab_ok_def)
qed

lemma slab_okE:
  assumes "slab_ok h c p"
  obtains s where "slabs h p = Some s" "slab_base s = p" "slab_ord s = slab_order c" "unat (total_objs s) = slots c"
    "unat p + slab_bytes c < 2 ^ 64"
  using assms by (auto simp: slab_ok_def split: option.splits)

lemma slots_apart:
  assumes "apart c P" "p \<in> P" "q \<in> P" "p \<noteq> q" "slab_ok h c p" "slab_ok h c q" "8 \<le> obj_size c"
  shows "slab_slots c p \<inter> slab_slots c q = {}"
proof -
  have fit: "unat p + slab_bytes c < 2 ^ 64" "unat q + slab_bytes c < 2 ^ 64"
    using assms(5,6) by (auto simp: slab_ok_def split: option.splits)
  have "unat p + slab_bytes c \<le> unat q \<or> unat q + slab_bytes c \<le> unat p" using assms(1-4) by (simp add: apart_def)
  then have False if "o' \<in> slab_slots c p" "o' \<in> slab_slots c q" for o'
    using slab_slots_range [OF that(1) fit(1) assms(7)] slab_slots_range [OF that(2) fit(2) assms(7)] assms(7) by linarith
  then show ?thesis by blast
qed

section \<open>Allocation\<close>

text \<open>What an operation on cache \<open>i\<close> may change: the slabs of \<open>P\<close> and the list heads of the cache.\<close>

definition heap_frame :: "heap \<Rightarrow> nat \<Rightarrow> u64 set \<Rightarrow> heap \<Rightarrow> bool" where
  "heap_frame h i P h' \<longleftrightarrow> (\<forall>q. q \<notin> P \<longrightarrow> slabs h' q = slabs h q) \<and> length (caches h') = length (caches h)
     \<and> (\<forall>j. j \<noteq> i \<longrightarrow> caches h' ! j = caches h ! j) \<and> heap_initialized h' = heap_initialized h
     \<and> obj_size (caches h' ! i) = obj_size (caches h ! i) \<and> slab_order (caches h' ! i) = slab_order (caches h ! i)"

lemma geometry:
  assumes "obj_size c' = obj_size c" "slab_order c' = slab_order c"
  shows "slab_bytes c' = slab_bytes c" "slots c' = slots c" "cache_fit c' = cache_fit c" "slab_slots c' p = slab_slots c p"
    "apart c' P = apart c P" "slab_ok h c' p = slab_ok h c p"
  using assms by (simp_all add: slab_bytes_def slots_def cache_fit_def slab_slots_def slot_addr_def apart_def slab_ok_def
      cong: option.case_cong)

text \<open>A slab leaves one list of the cache for another: from the partial to the full list when its
  last object is taken, and back when the first one is returned.\<close>

locale slab_move = src: slab_list from_head from_set + dst: slab_list to_head to_set
  for from_head from_set to_head to_set +
  assumes other_head: "to_head (from_set f c) = to_head c" "from_head (to_set f c) = from_head c"
    and keeps: "obj_size (from_set f c) = obj_size c" "slab_order (from_set f c) = slab_order c"
      "free_slabs (from_set f c) = free_slabs c" "obj_size (to_set f c) = obj_size c"
      "slab_order (to_set f c) = slab_order c" "free_slabs (to_set f c) = free_slabs c"
begin

lemma move_slab:
  assumes "i < length (caches h)" "dll (slabs h) (from_head (caches h ! i)) (as @ p # bs)"
    "dll (slabs h) (to_head (caches h ! i)) fs" "set (as @ p # bs) \<inter> set fs = {}"
  shows "\<exists>h'. do { g \<leftarrow> unlink_slab from_set h i p; push_slab to_set to_head g i p } = Some h'
    \<and> dll (slabs h') (from_head (caches h' ! i)) (as @ bs) \<and> dll (slabs h') (to_head (caches h' ! i)) (p # fs)
    \<and> relinked (slabs h) (slabs h') (set (as @ p # bs) \<union> set fs) \<and> heap_frame h i (set (as @ p # bs) \<union> set fs) h'
    \<and> words h' = words h \<and> hvm h' = hvm h \<and> free_slabs (caches h' ! i) = free_slabs (caches h ! i)"
proof -
  have p: "p \<noteq> 0" "\<exists>s. slabs h p = Some s" "p \<notin> set fs" and dis: "distinct (as @ p # bs)"
    using dll_slab [OF assms(2), of p] assms(2,4) by (auto simp: dll_def)
  obtain S q where g: "unlink_slab from_set h i p
      = Some (h\<lparr> slabs := S, caches := (caches h)[i := from_set (\<lambda>_. q) (caches h ! i)] \<rparr>)"
    "dll S q (as @ bs)" "relinked (slabs h) S (set (as @ p # bs))"
    using src.unlink_dll [OF assms(1,2)] by blast
  let ?g = "h\<lparr> slabs := S, caches := (caches h)[i := from_set (\<lambda>_. q) (caches h ! i)] \<rparr>"
  obtain s where s: "slabs ?g p = Some s" using p(2) relinked_data [OF g(3)] by fastforce
  have "dll (slabs ?g) (to_head (caches ?g ! i)) fs"
    using relinked_dll [OF g(3) assms(4)] assms(1,3) by (simp add: other_head)
  from dst.push_dll [OF _ this s p(1,3)] assms(1) obtain T where t: "push_slab to_set to_head ?g i p
      = Some (?g\<lparr> slabs := T, caches := (caches ?g)[i := to_set (\<lambda>_. p) (caches ?g ! i)] \<rparr>)"
    "dll T p (p # fs)" "relinked S T (set (p # fs))" by auto
  have "dll T q (as @ bs)" using relinked_dll [OF t(3), of "as @ bs"] g(2) dis assms(4) by auto
  moreover have r: "relinked (slabs h) T (set (as @ p # bs) \<union> set fs)"
    using relinked_trans [OF g(3) t(3)] by (auto simp: relinked_def)
  ultimately show ?thesis using g(1) t(1,2) assms(1)
    by (auto simp: heap_frame_def relinked_def other_head keeps src.head_set dst.head_set)
qed

end

interpretation to_full: slab_move partial_slabs partial_slabs_update full_slabs full_slabs_update
  by unfold_locales simp_all

interpretation to_partial: slab_move full_slabs full_slabs_update partial_slabs partial_slabs_update
  by unfold_locales simp_all

text \<open>Data of one slab changes, links do not.\<close>

lemma dll_data:
  assumes "slabs h p = Some s" "slab_next t = slab_next s" "slab_prev t = slab_prev s"
  shows "dll ((slabs h)(p \<mapsto> t)) q xs = dll (slabs h) q xs"
  using assms by (intro dll_cong) auto

text \<open>The part of the invariant that the list operations do not touch, and its transfer along
  \<open>relinked\<close>.\<close>

definition slabs_ok :: "heap \<Rightarrow> kmem_cache \<Rightarrow> u64 set \<Rightarrow> bool" where
  "slabs_ok h c P \<longleftrightarrow> cache_fit c \<and> apart c P \<and> (\<forall>p\<in>P. slab_ok h c p)"

lemma cache_invI:
  assumes "slabs_ok h c P" "relinked (slabs h) (slabs h') X" "words h' = words h"
    "obj_size (caches h' ! i) = obj_size c" "slab_order (caches h' ! i) = slab_order c" "i < length (caches h')"
    "dll (slabs h') (partial_slabs (caches h' ! i)) ps" "dll (slabs h') (full_slabs (caches h' ! i)) fs"
    "free_slabs (caches h' ! i) = 0" "set ps \<inter> set fs = {}" "set ps \<union> set fs = P"
    "\<forall>p\<in>set ps. 0 < length (slab_free h p) \<and> length (slab_free h p) < slots c" "\<forall>p\<in>set fs. slab_free h p = []"
  shows "cache_inv h' i ps fs" "free_in h' P = free_in h P"
proof -
  note geo = geometry [OF assms(4,5)]
  have "slab_ok h' c p" if "p \<in> P" for p
    using relinked_ok [OF assms(2,3)] assms(1) that by (simp add: slabs_ok_def)
  then show "cache_inv h' i ps fs" "free_in h' P = free_in h P"
    using assms(1,6-13) geo relinked_free [OF assms(2,3)]
    by (auto simp: cache_inv_def slabs_ok_def free_in_def)
qed

lemma cache_inv_slabs: "cache_inv h i ps fs \<Longrightarrow> slabs_ok h (caches h ! i) (set ps \<union> set fs)"
  by (auto simp: cache_inv_def slabs_ok_def)

lemma free_in_other:
  assumes "slabs_ok h c P" "p \<in> P" "o' \<in> slab_slots c p" "q \<in> P" "q \<noteq> p"
  shows "o' \<notin> set (slab_free h q)"
proof -
  have "slab_slots c p \<inter> slab_slots c q = {}"
    using assms by (intro slots_apart [of c P]) (auto simp: slabs_ok_def cache_fit_def)
  moreover have "set (slab_free h q) \<subseteq> slab_slots c q" using assms(1,4) by (auto simp: slabs_ok_def slab_ok_def)
  ultimately show ?thesis using assms(3) by blast
qed

lemma free_in_split: "p \<in> P \<Longrightarrow> free_in h P = set (slab_free h p) \<union> free_in h (P - {p})"
  by (auto simp: free_in_def)

lemma free_in_same: "(\<And>q. q \<in> P \<Longrightarrow> slab_free h' q = slab_free h q) \<Longrightarrow> free_in h' P = free_in h P"
  by (simp add: free_in_def)

lemma free_in_take:
  assumes "p \<in> P" "slab_free h p = o' # os" "slab_free h' p = os" "o' \<notin> set os"
    "\<And>q. q \<in> P \<Longrightarrow> q \<noteq> p \<Longrightarrow> slab_free h' q = slab_free h q"
    "\<And>q. q \<in> P \<Longrightarrow> q \<noteq> p \<Longrightarrow> o' \<notin> set (slab_free h q)"
  shows "free_in h' P = free_in h P - {o'}"
proof -
  have "free_in h' (P - {p}) = free_in h (P - {p})" by (rule free_in_same) (use assms(5) in auto)
  moreover have "o' \<notin> free_in h (P - {p})" using assms(6) by (auto simp: free_in_def)
  ultimately show ?thesis unfolding free_in_split [OF assms(1)] using assms(2-4) by auto
qed

lemma alloc_partial_spec:
  assumes "cache_inv h i ps fs" "ps \<noteq> []"
  shows "\<exists>h' o' ps' fs'. alloc_partial h i = Some (h', o') \<and> cache_inv h' i ps' fs'
    \<and> set ps' \<union> set fs' = set ps \<union> set fs \<and> o' \<in> free_in h (set ps \<union> set fs)
    \<and> free_in h' (set ps \<union> set fs) = free_in h (set ps \<union> set fs) - {o'}
    \<and> heap_frame h i (set ps \<union> set fs) h' \<and> words h' = words h \<and> hvm h' = hvm h"
proof -
  let ?c = "caches h ! i" and ?P = "set ps \<union> set fs"
  note ok = cache_inv_slabs [OF assms(1)]
  obtain p ys where ps: "ps = p # ys" using assms(2) by (cases ps) auto
  have i: "i < length (caches h)" and pl: "dll (slabs h) (partial_slabs ?c) (p # ys)" and fl: "dll (slabs h) (full_slabs ?c) fs"
    and nf: "free_slabs ?c = 0" and dj: "set ps \<inter> set fs = {}" and len: "0 < length (slab_free h p)" "length (slab_free h p) < slots ?c"
    and lens: "\<forall>q\<in>set ys. 0 < length (slab_free h q) \<and> length (slab_free h q) < slots ?c" "\<forall>q\<in>set fs. slab_free h q = []"
    using assms(1) ps by (auto simp: cache_inv_def)
  have hd: "partial_slabs ?c = p" "p \<notin> set ys" using pl by (auto simp: dll_def)
  obtain o' os where os: "slab_free h p = o' # os" using len by (cases "slab_free h p") auto
  obtain s where s: "slabs h p = Some s" using dll_slab [OF pl] by auto
  let ?t = "s\<lparr> free_head := words h o', free_objs := free_objs s - 1 \<rparr>"
  define h1 where "h1 = h\<lparr> slabs := (slabs h)(p \<mapsto> ?t) \<rparr>"
  note al = alloc_obj_spec [OF s os, folded h1_def]
  have ok1: "slabs_ok h1 ?c ?P"
    using ok al(2,3) s os ps by (auto simp: slabs_ok_def slab_ok_def h1_def)
  have o_in: "o' \<in> free_in h ?P" using os ps by (auto simp: free_in_def)
  have "o' \<in> slab_slots ?c p" using ok os ps by (auto simp: slabs_ok_def slab_ok_def)
  then have "o' \<notin> set (slab_free h q)" if "q \<in> ?P" "q \<noteq> p" for q
    using ps that by (intro free_in_other [OF ok, of p]) auto
  moreover have "o' \<notin> set os" using ok os ps by (auto simp: slabs_ok_def slab_ok_def)
  ultimately have free1: "free_in h1 ?P = free_in h ?P - {o'}"
    using al(2,3) os ps by (intro free_in_take [of p]) auto
  have dll1: "dll (slabs h1) q xs = dll (slabs h) q xs" for q xs
    unfolding h1_def by (simp add: dll_data [OF s])
  have full: "slab_is_full ?t \<longleftrightarrow> os = []"
  proof -
    have "unat (free_objs s - 1) = length os" using al(2) by (auto simp: slab_free_def h1_def)
    then show ?thesis unfolding slab_is_full_def by (simp add: unat_eq_0 [symmetric] del: unat_eq_0 diff_eq_eq)
  qed
  have frame1: "heap_frame h i ?P h1" using ps by (simp add: heap_frame_def h1_def)
  have lens1: "\<forall>q\<in>set ys. 0 < length (slab_free h1 q) \<and> length (slab_free h1 q) < slots ?c" "\<forall>q\<in>set fs. slab_free h1 q = []"
    "slab_free h1 p = os" "length os < slots ?c"
    using lens al(2,3) hd(2) dj ps len(2) os by (metis, metis IntI empty_iff list.set_intros(1), simp_all)
  have c1: "caches h1 = caches h" "words h1 = words h" "hvm h1 = hvm h" by (simp_all add: h1_def)
  have p1: "slabs h1 p = Some ?t" by (simp add: h1_def)
  show ?thesis
  proof (cases "os = []")
    case False
    have "cache_inv h1 i ps fs"
      by (rule cache_invI [OF ok1 relinked_refl])
        (use i pl fl nf dj lens1 False ps in \<open>auto simp: dll1 c1\<close>)
    moreover have "alloc_partial h i = Some (h1, o')"
      using al(1) full False p1 hd by (simp add: alloc_partial_def)
    ultimately show ?thesis using o_in free1 frame1 c1 by blast
  next
    case True
    obtain h' where h': "do { g \<leftarrow> remove_partial_ptr h1 i p; push_full_ptr g i p } = Some h'"
      "dll (slabs h') (partial_slabs (caches h' ! i)) ys" "dll (slabs h') (full_slabs (caches h' ! i)) (p # fs)"
      "relinked (slabs h1) (slabs h') ?P" "heap_frame h1 i ?P h'" "words h' = words h1" "hvm h' = hvm h1"
      "free_slabs (caches h' ! i) = free_slabs (caches h1 ! i)"
      using to_full.move_slab [of i h1 "[]" p ys fs] i pl fl dj ps
      by (auto simp: dll1 c1 remove_partial_ptr_def push_full_ptr_def)
    have "cache_inv h' i ys (p # fs)" "free_in h' ?P = free_in h1 ?P"
      by (rule cache_invI [where ps = ys and fs = "p # fs", OF ok1 h'(4,6)];
        use i h'(2,3,5,8) nf dj lens1 True hd(2) ps in \<open>auto simp: c1 heap_frame_def\<close>)+
    moreover have "alloc_partial h i = Some (h', o')"
      using al(1) full True p1 hd h'(1) by (simp add: alloc_partial_def)
    moreover have "heap_frame h i ?P h'" using frame1 h'(5) by (simp add: heap_frame_def)
    moreover have "set ys \<union> set (p # fs) = ?P" using ps by auto
    ultimately show ?thesis using o_in free1 h'(6,7) c1 by metis
  qed
qed

section \<open>Release\<close>

definition object_of :: "heap \<Rightarrow> nat \<Rightarrow> u64 list \<Rightarrow> u64 list \<Rightarrow> u64 \<Rightarrow> u64 \<Rightarrow> bool" where
  "object_of h i ps fs p o' \<longleftrightarrow> cache_inv h i ps fs \<and> p \<in> set ps \<union> set fs \<and> o' \<in> slab_slots (caches h ! i) p
     \<and> o' \<notin> set (slab_free h p)"

lemma find_eq: "distinct xs \<Longrightarrow> List.find (\<lambda>x. x = p) xs = (if p \<in> set xs then Some p else None)"
  by (induction xs) auto

lemma slab_contains_iff:
  assumes "slabs_ok h c P" "p \<in> P" "q \<in> P" "o' \<in> slab_slots c p"
  shows "slab_contains (the (slabs h q)) o' = Some (q = p)"
proof -
  obtain s where s: "slabs h q = Some s" "slab_base s = q" "slab_ord s = slab_order c" "unat q + slab_bytes c < 2 ^ 64"
    using assms(1,3) by (auto simp: slabs_ok_def elim!: slab_okE)
  have "unat p + slab_bytes c < 2 ^ 64" "8 \<le> obj_size c"
    using assms(1,2) by (auto simp: slabs_ok_def slab_ok_def cache_fit_def split: option.splits)
  then have r: "unat p < unat o'" "unat o' < unat p + slab_bytes c" using slab_slots_range [OF assms(4)] by auto
  have "p \<noteq> q \<Longrightarrow> unat p + slab_bytes c \<le> unat q \<or> unat q + slab_bytes c \<le> unat p"
    using assms(1-3) by (auto simp: slabs_ok_def apart_def)
  then have "(unat q \<le> unat o' \<and> unat o' < unat q + slab_bytes c) = (q = p)" using r by (cases "q = p") auto
  moreover have "2 ^ slab_order c * unat PAGE_SIZE = slab_bytes c" by (simp add: slab_bytes_def PAGE_SIZE_def)
  ultimately show ?thesis using s by (simp add: slab_contains_def word_le_nat_alt)
qed

lemma find_slab_ptr_object:
  assumes "object_of h i ps fs p o'"
  shows "find_slab_ptr h i o' = Some p"
proof -
  let ?c = "caches h ! i"
  have inv: "cache_inv h i ps fs" and p: "p \<in> set ps \<union> set fs" and o': "o' \<in> slab_slots ?c p"
    using assms by (simp_all add: object_of_def)
  obtain l m where seg: "dseg (slabs h) 0 (partial_slabs ?c) ps l 0" "dseg (slabs h) 0 (full_slabs ?c) fs m 0"
    and dis: "distinct ps" "distinct fs" using inv by (auto simp: cache_inv_def dll_def)
  note cont = slab_contains_iff [OF cache_inv_slabs [OF inv] p _ o']
  have "find_slab_in h o' (partial_slabs ?c) = Some (if p \<in> set ps then p else 0)"
    by (subst find_slab_in_dll [OF seg(1), where C = "\<lambda>x. x = p"]) (use cont find_eq [OF dis(1)] in auto)
  moreover have "find_slab_in h o' (full_slabs ?c) = Some (if p \<in> set fs then p else 0)"
    by (subst find_slab_in_dll [OF seg(2), where C = "\<lambda>x. x = p"]) (use cont find_eq [OF dis(2)] in auto)
  moreover have "p \<noteq> 0" using p dseg_nonzero [OF seg(1)] dseg_nonzero [OF seg(2)] by auto
  ultimately show ?thesis using p by (auto simp: find_slab_ptr_def)
qed

text \<open>The state right after \<^verbatim>\<open>free_obj\<close>, before the slab changes lists.\<close>

lemma free_obj_step:
  assumes "object_of h i ps fs p o'"
  shows "\<exists>s t h1. slabs h p = Some s \<and> free_obj h p o' = Some h1 \<and> slabs h1 p = Some t
    \<and> (slab_is_full s \<longleftrightarrow> p \<in> set fs) \<and> (slab_is_empty t \<longleftrightarrow> Suc (length (slab_free h p)) = slots (caches h ! i))
    \<and> slab_base t = p \<and> slab_ord t = slab_order (caches h ! i)
    \<and> slabs_ok h1 (caches h ! i) (set ps \<union> set fs) \<and> slab_free h1 p = o' # slab_free h p
    \<and> (\<forall>q\<in>set ps \<union> set fs. q \<noteq> p \<longrightarrow> slab_free h1 q = slab_free h q)
    \<and> (\<forall>q xs. dll (slabs h1) q xs = dll (slabs h) q xs) \<and> heap_frame h i (set ps \<union> set fs) h1
    \<and> caches h1 = caches h \<and> hvm h1 = hvm h \<and> (\<forall>x. x \<noteq> o' \<longrightarrow> words h1 x = words h x)"
proof -
  let ?c = "caches h ! i" and ?P = "set ps \<union> set fs"
  have inv: "cache_inv h i ps fs" and p: "p \<in> ?P" and o': "o' \<in> slab_slots ?c p" "o' \<notin> set (slab_free h p)"
    using assms by (simp_all add: object_of_def)
  note ok = cache_inv_slabs [OF inv]
  obtain s where s: "slabs h p = Some s" "slab_base s = p" "slab_ord s = slab_order ?c" "unat (total_objs s) = slots ?c"
    using ok p by (auto simp: slabs_ok_def elim!: slab_okE)
  have len: "length (slab_free h p) = unat (free_objs s)" using s by (simp add: slab_free_def)
  have "length (slab_free h p) < slots ?c" "slots ?c < 65536" "slab_free h p = [] \<longleftrightarrow> p \<in> set fs"
    using inv p by (auto simp: cache_inv_def cache_fit_def)
  then have n: "length (slab_free h p) < 65535" "slab_is_full s \<longleftrightarrow> p \<in> set fs"
    using len by (auto simp: slab_is_full_def unat_eq_0 [symmetric] simp del: unat_eq_0)
  let ?t = "s\<lparr> free_head := o', free_objs := free_objs s + 1 \<rparr>"
  define h1 where "h1 = h\<lparr> words := (words h)(o' := free_head s), slabs := (slabs h)(p \<mapsto> ?t) \<rparr>"
  note fr = free_obj_spec [OF s(1) o'(2) n(1), folded h1_def]
  have other: "slab_free h1 q = slab_free h q" if "q \<in> ?P" "q \<noteq> p" for q
    using fr(3) that free_in_other [OF ok p o'(1)] by simp
  have pok: "slab_ok h ?c p" using ok p by (simp add: slabs_ok_def)
  have "slab_ok h1 ?c p" using pok fr(2) s o' by (auto simp: slab_ok_def) (simp_all add: h1_def)
  moreover have "slab_ok h1 ?c q" if "q \<in> ?P" "q \<noteq> p" for q
    using ok that(1) other [OF that] that(2) by (simp add: slabs_ok_def slab_ok_def h1_def)
  ultimately have "slabs_ok h1 ?c ?P" using ok by (simp add: slabs_ok_def) blast
  moreover have "unat (free_objs s + 1) = Suc (unat (free_objs s))"
    using n(1) len by (simp add: unat_word_ariths(1))
  then have "slab_is_empty ?t \<longleftrightarrow> Suc (length (slab_free h p)) = slots ?c"
    using s(4) len by (auto simp: slab_is_empty_def word_unat_eq_iff)
  moreover have "heap_frame h i ?P h1" using p by (auto simp: heap_frame_def h1_def)
  moreover have "dll (slabs h1) q xs = dll (slabs h) q xs" for q xs
    unfolding h1_def using dll_data [OF s(1), of ?t] by simp
  ultimately show ?thesis using s fr(1,2) n(2) other by (auto simp: h1_def)
qed

lemma free_in_give:
  assumes "p \<in> P" "slab_free h' p = o' # slab_free h p" "\<forall>q\<in>P. q \<noteq> p \<longrightarrow> slab_free h' q = slab_free h q"
  shows "free_in h' P = insert o' (free_in h P)"
proof -
  have "free_in h' (P - {p}) = free_in h (P - {p})" by (rule free_in_same) (use assms(3) in auto)
  then show ?thesis unfolding free_in_split [OF assms(1)] using assms(2) by auto
qed

lemma kmem_free_keep:
  assumes "object_of h i ps fs p o'" "Suc (length (slab_free h p)) < slots (caches h ! i)"
  shows "\<exists>h' ps' fs'. kmem_free h i o' = Some h' \<and> cache_inv h' i ps' fs'
    \<and> set ps' \<union> set fs' = set ps \<union> set fs
    \<and> free_in h' (set ps \<union> set fs) = insert o' (free_in h (set ps \<union> set fs))
    \<and> heap_frame h i (set ps \<union> set fs) h' \<and> (\<forall>x. x \<noteq> o' \<longrightarrow> words h' x = words h x) \<and> hvm h' = hvm h"
proof -
  let ?c = "caches h ! i" and ?P = "set ps \<union> set fs"
  have inv: "cache_inv h i ps fs" and p: "p \<in> ?P" using assms by (simp_all add: object_of_def)
  obtain s t h1 where st: "slabs h p = Some s" "free_obj h p o' = Some h1" "slabs h1 p = Some t"
    "slab_is_full s \<longleftrightarrow> p \<in> set fs" "\<not> slab_is_empty t" "slabs_ok h1 ?c ?P" "slab_free h1 p = o' # slab_free h p"
    "\<forall>q\<in>?P. q \<noteq> p \<longrightarrow> slab_free h1 q = slab_free h q" "\<forall>q xs. dll (slabs h1) q xs = dll (slabs h) q xs"
    "heap_frame h i ?P h1" "caches h1 = caches h" "hvm h1 = hvm h" "\<forall>x. x \<noteq> o' \<longrightarrow> words h1 x = words h x"
    using free_obj_step [OF assms(1)] assms(2) by auto
  have fin: "free_in h1 ?P = insert o' (free_in h ?P)" by (rule free_in_give [OF p st(7,8)])
  have p0: "p \<noteq> 0" using inv p dll_slab by (auto simp: cache_inv_def)
  have lists: "i < length (caches h)" "dll (slabs h1) (partial_slabs ?c) ps" "dll (slabs h1) (full_slabs ?c) fs"
    "free_slabs ?c = 0" "set ps \<inter> set fs = {}" using inv st(9) by (auto simp: cache_inv_def)
  have "0 < length (slab_free h1 q) \<and> length (slab_free h1 q) < slots ?c" if "q \<in> set ps" for q
    using inv st(7,8) assms(2) that by (cases "q = p") (simp_all add: cache_inv_def)
  moreover have "slab_free h1 q = []" if "q \<in> set fs" "q \<noteq> p" for q
    using inv st(8) that by (simp add: cache_inv_def)
  ultimately have lens: "\<forall>q\<in>set ps. 0 < length (slab_free h1 q) \<and> length (slab_free h1 q) < slots ?c"
    "\<forall>q\<in>set fs - {p}. slab_free h1 q = []" by blast+
  show ?thesis
  proof (cases "p \<in> set fs")
    case False
    have "cache_inv h1 i ps fs"
      by (rule cache_invI [OF st(6) relinked_refl]) (use lists lens False st(11) in auto)
    moreover have "kmem_free h i o' = Some h1"
      using find_slab_ptr_object [OF assms(1)] p0 st(1-5) False by (simp add: kmem_free_def)
    ultimately show ?thesis using fin st(10,12,13) by blast
  next
    case True
    then obtain as bs where fs: "fs = as @ p # bs" by (meson split_list)
    have dis: "distinct fs" using lists(3) by (simp add: dll_def)
    obtain h' where h': "do { g \<leftarrow> remove_full_ptr h1 i p; push_partial_ptr g i p } = Some h'"
      "dll (slabs h') (full_slabs (caches h' ! i)) (as @ bs)" "dll (slabs h') (partial_slabs (caches h' ! i)) (p # ps)"
      "relinked (slabs h1) (slabs h') ?P" "heap_frame h1 i ?P h'" "words h' = words h1" "hvm h' = hvm h1"
      "free_slabs (caches h' ! i) = free_slabs (caches h1 ! i)"
      using to_partial.move_slab [of i h1 as p bs ps] lists fs st(11)
      by (auto simp: remove_full_ptr_def push_partial_ptr_def Un_commute Int_commute)
    have eqP: "set (p # ps) \<union> set (as @ bs) = ?P" using fs by auto
    have "cache_inv h' i (p # ps) (as @ bs)" "free_in h' ?P = free_in h1 ?P"
      by (rule cache_invI [where ps = "p # ps" and fs = "as @ bs", OF st(6) h'(4,6)];
        use lists h'(2,3,5,8) lens assms(2) st(7,11) dis fs eqP in \<open>auto simp: heap_frame_def\<close>)+
    moreover have "kmem_free h i o' = Some h'"
      using find_slab_ptr_object [OF assms(1)] p0 st(1-5) True h'(1) by (simp add: kmem_free_def)
    moreover have "heap_frame h i ?P h'" using st(10) h'(5) by (simp add: heap_frame_def)
    ultimately show ?thesis using fin eqP st(12,13) h'(6,7) by metis
  qed
qed

lemma heap_hvm [simp]: "slab_free (h\<lparr> hvm := x \<rparr>) p = slab_free h p" "slab_ok (h\<lparr> hvm := x \<rparr>) c p = slab_ok h c p"
  "cache_inv (h\<lparr> hvm := x \<rparr>) i ps fs = cache_inv h i ps fs" "free_in (h\<lparr> hvm := x \<rparr>) P = free_in h P"
  "heap_frame h' i P (h\<lparr> hvm := x \<rparr>) = heap_frame h' i P h"
proof -
  show free: "slab_free (h\<lparr> hvm := x \<rparr>) p = slab_free h p" for p by (simp add: slab_free_def cong: option.case_cong)
  show ok: "slab_ok (h\<lparr> hvm := x \<rparr>) c p = slab_ok h c p" for c p by (simp add: slab_ok_def free)
  show "cache_inv (h\<lparr> hvm := x \<rparr>) i ps fs = cache_inv h i ps fs" by (simp add: cache_inv_def free ok)
  show "free_in (h\<lparr> hvm := x \<rparr>) P = free_in h P" by (simp add: free_in_def free)
  show "heap_frame h' i P (h\<lparr> hvm := x \<rparr>) = heap_frame h' i P h" by (simp add: heap_frame_def)
qed

text \<open>A slab dropped from the store, and one unlinked from the list it is on.\<close>

lemma relinked_drop: "relinked S S' X \<Longrightarrow> relinked (S(p := None)) (S'(p := None)) X"
  by (auto simp: relinked_def)

lemma slabs_ok_drop:
  assumes "slabs_ok h c P"
  shows "slabs_ok (h\<lparr> slabs := (slabs h)(p := None) \<rparr>) c (P - {p})"
    "q \<noteq> p \<Longrightarrow> slab_free (h\<lparr> slabs := (slabs h)(p := None) \<rparr>) q = slab_free h q"
proof -
  show free: "slab_free (h\<lparr> slabs := (slabs h)(p := None) \<rparr>) q = slab_free h q" if "q \<noteq> p" for q
    using that by (simp add: slab_free_def cong: option.case_cong)
  then have "slab_ok (h\<lparr> slabs := (slabs h)(p := None) \<rparr>) c q" if "q \<in> P - {p}" for q
    using assms that by (simp add: slabs_ok_def slab_ok_def)
  then show "slabs_ok (h\<lparr> slabs := (slabs h)(p := None) \<rparr>) c (P - {p})" using assms
    by (auto simp: slabs_ok_def apart_def)
qed

lemma remove_any:
  assumes "i < length (caches h)" "dll (slabs h) (partial_slabs (caches h ! i)) ps"
    "dll (slabs h) (full_slabs (caches h ! i)) fs" "set ps \<inter> set fs = {}" "p \<in> set ps \<union> set fs"
  shows "\<exists>h'. remove_from_any_list h i p = Some h'
    \<and> dll (slabs h') (partial_slabs (caches h' ! i)) (remove1 p ps) \<and> dll (slabs h') (full_slabs (caches h' ! i)) (remove1 p fs)
    \<and> relinked (slabs h) (slabs h') (set ps \<union> set fs) \<and> heap_frame h i (set ps \<union> set fs) h'
    \<and> words h' = words h \<and> hvm h' = hvm h \<and> free_slabs (caches h' ! i) = free_slabs (caches h ! i)"
proof -
  let ?c = "caches h ! i"
  have walk: "slab_listed h p (partial_slabs ?c) = Some (p \<in> set ps)" "slab_listed h p (full_slabs ?c) = Some (p \<in> set fs)"
    using assms(2,3) slab_listed_dll by (auto simp: dll_def)
  show ?thesis
  proof (cases "p \<in> set ps")
    case True
    then obtain as bs where ps: "ps = as @ p # bs" by (meson split_list)
    then have dis: "distinct (as @ p # bs)" using assms(2) by (simp add: dll_def)
    from partial_list.unlink_dll [OF assms(1)] assms(2) ps obtain S q where
      u: "unlink_slab partial_slabs_update h i p
          = Some (h\<lparr> slabs := S, caches := (caches h)[i := partial_slabs_update (\<lambda>_. q) ?c] \<rparr>)"
        "dll S q (as @ bs)" "relinked (slabs h) S (set (as @ p # bs))" by blast
    have "dll S (full_slabs ?c) fs" using relinked_dll [OF u(3)] assms(3,4) ps by simp
    moreover have "remove1 p ps = as @ bs" "remove1 p fs = fs"
      using dis ps assms(4) by (auto simp: remove1_append remove1_idem)
    moreover have "relinked (slabs h) S (set ps \<union> set fs)" using u(3) ps by (auto simp: relinked_def)
    ultimately show ?thesis using walk True u(1,2) assms(1)
      by (auto simp: remove_from_any_list_def heap_frame_def relinked_def)
  next
    case False
    then obtain as bs where fs: "fs = as @ p # bs" using assms(5) by (meson UnE split_list)
    then have dis: "distinct (as @ p # bs)" using assms(3) by (simp add: dll_def)
    from full_list.unlink_dll [OF assms(1)] assms(3) fs obtain S q where
      u: "unlink_slab full_slabs_update h i p
          = Some (h\<lparr> slabs := S, caches := (caches h)[i := full_slabs_update (\<lambda>_. q) ?c] \<rparr>)"
        "dll S q (as @ bs)" "relinked (slabs h) S (set (as @ p # bs))" by blast
    have "dll S (partial_slabs ?c) ps" using relinked_dll [OF u(3), of ps] assms(2,4) fs by auto
    moreover have "remove1 p fs = as @ bs" "remove1 p ps = ps"
      using dis fs False by (auto simp: remove1_append remove1_idem)
    moreover have "relinked (slabs h) S (set ps \<union> set fs)" using u(3) fs by (auto simp: relinked_def)
    ultimately show ?thesis using walk False assms(5) u(1,2) assms(1)
      by (auto simp: remove_from_any_list_def heap_frame_def relinked_def)
  qed
qed

lemma kmem_free_last:
  assumes "object_of h i ps fs p o'" "Suc (length (slab_free h p)) = slots (caches h ! i)"
  shows "\<exists>g. kmem_free h i o' = do {
        phys_addr \<leftarrow> checked_sub p HIGHER_HALF;
        m \<leftarrow> unmap_pages (hvm h) p [0..<2 ^ slab_order (caches h ! i)];
        z \<leftarrow> free_pages (vphys m) phys_addr (of_nat (2 ^ slab_order (caches h ! i)));
        Some (g\<lparr> hvm := m\<lparr> vphys := z \<rparr> \<rparr>) }
    \<and> cache_inv g i (remove1 p ps) (remove1 p fs) \<and> slabs g p = None
    \<and> free_in g (set ps \<union> set fs - {p}) = free_in h (set ps \<union> set fs - {p}) \<and> heap_frame h i (set ps \<union> set fs) g"
proof -
  let ?c = "caches h ! i" and ?P = "set ps \<union> set fs"
  have inv: "cache_inv h i ps fs" and p: "p \<in> ?P" using assms by (simp_all add: object_of_def)
  obtain s t h1 where st: "slabs h p = Some s" "free_obj h p o' = Some h1" "slabs h1 p = Some t"
    "slab_is_empty t" "slab_base t = p" "slab_ord t = slab_order ?c" "slabs_ok h1 ?c ?P"
    "\<forall>q\<in>?P. q \<noteq> p \<longrightarrow> slab_free h1 q = slab_free h q" "\<forall>q xs. dll (slabs h1) q xs = dll (slabs h) q xs"
    "heap_frame h i ?P h1" "caches h1 = caches h" "hvm h1 = hvm h"
    using free_obj_step [OF assms(1)] assms(2) by auto
  have p0: "p \<noteq> 0" using inv p dll_slab by (auto simp: cache_inv_def)
  have lists: "i < length (caches h1)" "dll (slabs h1) (partial_slabs (caches h1 ! i)) ps"
    "dll (slabs h1) (full_slabs (caches h1 ! i)) fs" "free_slabs ?c = 0" "set ps \<inter> set fs = {}"
    "distinct ps" "distinct fs" using inv st(9,11) by (auto simp: cache_inv_def dll_def)
  obtain h' where h': "remove_from_any_list h1 i p = Some h'"
    "dll (slabs h') (partial_slabs (caches h' ! i)) (remove1 p ps)" "dll (slabs h') (full_slabs (caches h' ! i)) (remove1 p fs)"
    "relinked (slabs h1) (slabs h') ?P" "heap_frame h1 i ?P h'" "words h' = words h1" "hvm h' = hvm h1"
    "free_slabs (caches h' ! i) = free_slabs (caches h1 ! i)"
    using remove_any [OF lists(1-3,5) p] by blast
  define k where "k = h1\<lparr> slabs := (slabs h1)(p := None) \<rparr>"
  define g where "g = h'\<lparr> slabs := (slabs h')(p := None) \<rparr>"
  have ok: "slabs_ok k ?c (?P - {p})" and free: "\<forall>q\<in>?P - {p}. slab_free k q = slab_free h q"
    using slabs_ok_drop [OF st(7)] st(8) by (auto simp: k_def)
  have rel: "relinked (slabs k) (slabs g) ?P" using relinked_drop [OF h'(4)] by (simp add: k_def g_def)
  have gk: "words g = words k" "caches g = caches h'" using h'(6) by (simp_all add: g_def k_def)
  have sets: "set (remove1 p ps) = set ps - {p}" "set (remove1 p fs) = set fs - {p}" using lists(6,7) by simp_all
  then have dll': "dll (slabs g) (partial_slabs (caches h' ! i)) (remove1 p ps)"
    "dll (slabs g) (full_slabs (caches h' ! i)) (remove1 p fs)" using h'(2,3) by (simp_all add: g_def)
  have fr: "heap_frame h i ?P h'" using st(10) h'(5) by (simp add: heap_frame_def)
  have "cache_inv g i (remove1 p ps) (remove1 p fs)" "free_in g (?P - {p}) = free_in k (?P - {p})"
    by (rule cache_invI [where ps = "remove1 p ps" and fs = "remove1 p fs", OF ok rel gk(1)];
      use lists(1,4,5) h'(8) st(11) fr dll' free inv in
        \<open>auto simp: gk sets heap_frame_def cache_inv_def\<close>)+
  moreover have "free_in k (?P - {p}) = free_in h (?P - {p})" by (rule free_in_same) (use free in auto)
  moreover have "heap_frame h i ?P g" "slabs g p = None" using fr p by (auto simp: heap_frame_def g_def)
  moreover have swap: "h'\<lparr> hvm := x, slabs := (slabs h')(p := None) \<rparr> = g\<lparr> hvm := x \<rparr>" for x
    by (cases h') (simp add: g_def)
  have "kmem_free h i o' = do {
        phys_addr \<leftarrow> checked_sub p HIGHER_HALF;
        m \<leftarrow> unmap_pages (hvm h) p [0..<2 ^ slab_order ?c];
        z \<leftarrow> free_pages (vphys m) phys_addr (of_nat (2 ^ slab_order ?c));
        Some (g\<lparr> hvm := m\<lparr> vphys := z \<rparr> \<rparr>) }"
    using find_slab_ptr_object [OF assms(1)] p0 st(1-6,12) h'(1,7) by (simp add: kmem_free_def swap)
  ultimately show ?thesis by auto
qed

end
