(* ===== verification/Heap_Grow.thy ===== *)
theory Heap_Grow
  imports Heap_Correct Virt_Correct
begin

text \<open>
  The slow path of a slab cache: a new slab comes from the physical allocator and is mapped
  through the page tables, which may take pages of their own. Mapping never gives pages back,
  so the block of the new slab stays allocated and apart from the slabs the cache has.
\<close>

declare upt_rec_numeral [simp del]

section \<open>Mapping takes pages only\<close>

definition shrinks :: "vm \<Rightarrow> vm \<Rightarrow> bool" where
  "shrinks s s' \<longleftrightarrow> phys_inv (vphys s) \<longrightarrow> (phys_inv (vphys s') \<and> phys_cfg (vphys s') = phys_cfg (vphys s)
     \<and> free_mset (vphys s') \<subseteq># free_mset (vphys s))"

lemma shrinks_refl: "vphys s' = vphys s \<Longrightarrow> shrinks s s'"
  by (simp add: shrinks_def)

lemma shrinks_trans: "shrinks s s' \<Longrightarrow> shrinks s' s'' \<Longrightarrow> shrinks s s''"
  by (auto simp: shrinks_def intro: subset_mset.trans)

lemma shrinks_cong: "shrinks s s' \<Longrightarrow> vphys s'' = vphys s' \<Longrightarrow> shrinks s s''"
  by (simp add: shrinks_def)

lemma shrinks_alloc:
  assumes "vm_alloc_page s = Some (s', r)"
  shows "shrinks s s'"
proof -
  obtain z where z: "alloc_order (vphys s) 0 = Some (z, r)" "vphys s' = z"
    using assms by (auto simp: vm_alloc_page_def alloc_page_def bind_eq_Some_conv)
  show ?thesis
  proof (cases "phys_inv (vphys s)")
    case True
    then have "alloc_post (vphys s) 0 {0..MAX_ORDER} z r"
      using alloc_order_correct [of "vphys s" 0] z by (auto simp: phys_inv_def)
    then have "z = vphys s \<or> phys_step (vphys s) z \<and> free_mset z \<subseteq># free_mset (vphys s)"
      by (cases r) (auto simp: alloc_post_def allocated_def)
    then show ?thesis using phys_inv_take [OF True] z(2) by (auto simp: shrinks_def phys_step_def)
  qed (simp add: shrinks_def)
qed

lemma shrinks_ensure_table:
  assumes "ensure_table s ea flags level addr = Some (s', t)"
  shows "shrinks s s'"
proof -
  obtain s1 where s1: "ensure_present s ea flags = Some s1" "ensure_split s1 ea flags level addr = Some s'"
    using assms by (auto simp: ensure_table_def bind_eq_Some_conv)
  have "shrinks s s1"
    using s1(1) by (auto simp: ensure_present_def bind_eq_Some_conv new_zeroed_def write_word_def
        intro: shrinks_refl dest!: shrinks_alloc elim!: shrinks_cong split: if_splits)
  moreover have "shrinks s1 s'"
    using s1(2) by (auto simp: ensure_split_def bind_eq_Some_conv new_zeroed_def write_word_def tlb_flush_def Let_def
        intro: shrinks_refl dest!: shrinks_alloc elim!: shrinks_cong split: if_splits)
  ultimately show ?thesis by (rule shrinks_trans)
qed

lemma write_batch_phys: "write_batch s pt k phys flags is = Some s' \<Longrightarrow> vphys s' = vphys s"
  by (induction "is" arbitrary: s) (auto simp: bind_eq_Some_conv write_word_def)

lemma shrinks_or_entry: "shrinks (or_entry s ea b) s' = shrinks s s'"
  by (simp add: shrinks_def or_entry_def write_word_def)

lemma shrinks_map_batch:
  assumes "map_batch s pml4 virt phys n flags = Some s'"
  shows "shrinks s s'"
proof -
  obtain s1 s2 s3 e1 e2 e3 f1 f2 f3 t1 t2 t3 pt where
    e: "ensure_table s e1 f1 2 virt = Some (s1, t1)" "ensure_table (or_entry s1 e1 (flags AND USER)) e2 f2 1 virt = Some (s2, t2)"
    "ensure_table (or_entry s2 e2 (flags AND USER)) e3 f3 0 virt = Some (s3, t3)"
    and w: "write_batch (or_entry s3 e3 (flags AND USER)) pt (index_for_addr virt 0) phys flags [0..<n] = Some s'"
    using assms by (auto simp: map_batch_def Let_def bind_eq_Some_conv)
  have "shrinks s s1" "shrinks s1 s2" "shrinks s2 s3" using e [THEN shrinks_ensure_table] by (simp_all add: shrinks_or_entry)
  moreover have "vphys s' = vphys s3" using write_batch_phys [OF w] by (simp add: or_entry_def write_word_def)
  ultimately show ?thesis by (blast intro: shrinks_trans shrinks_cong)
qed

lemma shrinks_map_contiguous_loop: "map_contiguous_loop s pml4 virt phys n flags = Some s' \<Longrightarrow> shrinks s s'"
proof (induction s pml4 virt phys n flags rule: map_contiguous_loop.induct)
  case (1 s pml4 virt phys n flags)
  show ?case
  proof (cases "0 < n")
    case False
    then show ?thesis using "1.prems" by (subst (asm) map_contiguous_loop.simps) (simp add: shrinks_refl)
  next
    case True
    define b where "b = min (512 - index_for_addr virt 0) n"
    from True "1.prems" obtain s1 v p where r: "map_batch s pml4 virt phys b flags = Some s1"
      "checked_add virt (of_nat b * PAGE_SIZE) = Some v" "checked_add phys (of_nat b * PAGE_SIZE) = Some p"
      "map_contiguous_loop s1 pml4 v p (n - b) flags = Some s'"
      by (subst (asm) (2) map_contiguous_loop.simps) (auto simp: b_def Let_def split: option.splits)
    from "1.IH" [OF True b_def r(1) refl r(2,3)] r(4) have "shrinks s1 s'" by simp
    then show ?thesis using shrinks_map_batch [OF r(1)] shrinks_trans by blast
  qed
qed

lemma shrinks_map_contiguous: "map_contiguous s root virt phys n flags = Some s' \<Longrightarrow> shrinks s s'"
  by (auto simp: map_contiguous_def bind_eq_Some_conv shrinks_refl dest: shrinks_map_contiguous_loop split: if_splits)

section \<open>A fresh slab\<close>

lemma link_objs_other: "(\<And>k. k < n \<Longrightarrow> a \<noteq> cur + of_nat (k * sz)) \<Longrightarrow> link_objs w cur sz n a = w a"
proof (induction n arbitrary: w cur)
  case (Suc n)
  have "a \<noteq> (cur + of_nat sz) + of_nat (k * sz)" if "k < n" for k
    using Suc.prems [of "Suc k"] that by (simp add: add.assoc)
  moreover have "a \<noteq> cur" using Suc.prems [of 0] by simp
  ultimately show ?case using Suc.IH by (cases "n = 0") (simp_all add: Let_def)
qed simp

lemma link_objs_chain:
  assumes "\<And>k. k < n \<Longrightarrow> 0 < k \<Longrightarrow> of_nat (k * sz) \<noteq> (0 :: u64)"
  shows "chain_objs (link_objs w cur sz n) cur n = map (\<lambda>k. cur + of_nat (k * sz)) [0..<n]"
  using assms
proof (induction n arbitrary: w cur)
  case (Suc n)
  show ?case
  proof (cases "n = 0")
    case False
    let ?W = "link_objs (w(cur := cur + of_nat sz)) (cur + of_nat sz) sz n"
    have "cur \<noteq> (cur + of_nat sz) + of_nat (k * sz)" if "k < n" for k
      using Suc.prems [of "Suc k"] that by (simp add: add.assoc)
    then have "?W cur = cur + of_nat sz" by (subst link_objs_other) simp_all
    moreover have "chain_objs ?W (cur + of_nat sz) n = map (\<lambda>k. (cur + of_nat sz) + of_nat (k * sz)) [0..<n]"
      using Suc.IH Suc.prems by simp
    moreover have "[0..<Suc n] = 0 # map Suc [0..<n]" by (simp add: map_Suc_upt upt_conv_Cons)
    ultimately show ?thesis using False by (simp add: Let_def add.assoc distrib_right del: upt_Suc)
  qed simp
qed simp

definition slab_of :: "kmem_cache \<Rightarrow> u64 \<Rightarrow> slab" where
  "slab_of c p = \<lparr> free_head = p + of_nat SLAB_HEADER, slab_base = p, slab_next = 0, slab_prev = 0,
     slab_ord = slab_order c, total_objs = of_nat (slots c), free_objs = of_nat (slots c) \<rparr>"

lemma slab_init_spec:
  assumes "cache_fit c" "unat p + slab_bytes c < 2 ^ 64"
  shows "\<exists>w. slab_init h p (slab_order c) (obj_size c) = (h\<lparr> words := w, slabs := (slabs h)(p \<mapsto> slab_of c p) \<rparr>, p)
    \<and> chain_objs w (p + of_nat SLAB_HEADER) (slots c) = map (slot_addr c p) [0..<slots c]
    \<and> (\<forall>a. a \<notin> slab_slots c p \<longrightarrow> w a = words h a)"
proof -
  have bytes: "2 ^ slab_order c * unat PAGE_SIZE = slab_bytes c" by (simp add: slab_bytes_def PAGE_SIZE_def)
  have fit: "8 \<le> obj_size c" "0 < slots c" "slots c < 65536" using assms(1) by (simp_all add: cache_fit_def)
  then have hdr: "\<not> slab_bytes c \<le> SLAB_HEADER" by (auto simp: slots_def)
  have n: "unat (of_nat ((slab_bytes c - SLAB_HEADER) div obj_size c) :: u16) = slots c"
    using fit(3) by (simp add: unat_of_nat flip: slots_def)
  let ?w = "link_objs (words h) (p + of_nat SLAB_HEADER) (obj_size c) (slots c)"
  have slot: "p + of_nat SLAB_HEADER + of_nat (k * obj_size c) = slot_addr c p k" for k
    by (simp add: slot_addr_def add.assoc)
  have "of_nat (k * obj_size c) \<noteq> (0 :: u64)" if "k < slots c" "0 < k" for k
  proof -
    have "k * obj_size c < 2 ^ 64" "0 < k * obj_size c" using slot_bound [OF that(1)] assms(2) fit(1) that(2) by simp_all
    then have "unat (of_nat (k * obj_size c) :: u64) \<noteq> 0" by (simp add: unat_of_nat del: of_nat_mult)
    then show ?thesis by (metis unat_0)
  qed
  then have "chain_objs ?w (p + of_nat SLAB_HEADER) (slots c) = map (slot_addr c p) [0..<slots c]"
    by (subst link_objs_chain) (simp_all add: slot del: of_nat_mult)
  moreover have "?w a = words h a" if "a \<notin> slab_slots c p" for a
    by (rule link_objs_other) (use that in \<open>auto simp: slab_slots_def slot simp del: of_nat_mult\<close>)
  ultimately show ?thesis using fit(1) hdr n
    by (intro exI [of _ ?w]) (simp add: slab_init_def bytes Let_def slab_of_def flip: slots_def)
qed

lemma slot_addr_inj:
  assumes "cache_fit c" "unat p + slab_bytes c < 2 ^ 64"
  shows "distinct (map (slot_addr c p) [0..<slots c])"
proof -
  have "j = k" if "j < slots c" "k < slots c" "slot_addr c p j = slot_addr c p k" for j k
  proof -
    have "unat p + SLAB_HEADER + j * obj_size c = unat p + SLAB_HEADER + k * obj_size c"
      using that(3) unfolding slot_addr_unat [OF assms(2) that(1), symmetric] slot_addr_unat [OF assms(2) that(2), symmetric] by (rule arg_cong)
    then show ?thesis using assms(1) by (simp add: cache_fit_def)
  qed
  then show ?thesis by (auto simp: distinct_map inj_on_def)
qed

lemma fresh_slab_ok:
  assumes "cache_inv h i [] fs" "p \<notin> set fs" "apart (caches h ! i) (insert p (set fs))"
    "unat p + slab_bytes (caches h ! i) < 2 ^ 64"
  shows "\<exists>h1. slab_init h p (slab_order (caches h ! i)) (obj_size (caches h ! i)) = (h1, p)
    \<and> slabs_ok h1 (caches h ! i) (insert p (set fs)) \<and> slabs h1 p = Some (slab_of (caches h ! i) p)
    \<and> slab_free h1 p = map (slot_addr (caches h ! i) p) [0..<slots (caches h ! i)]
    \<and> (\<forall>q\<in>set fs. slab_free h1 q = []) \<and> (\<forall>q. q \<noteq> p \<longrightarrow> slabs h1 q = slabs h q)
    \<and> caches h1 = caches h \<and> hvm h1 = hvm h \<and> heap_initialized h1 = heap_initialized h
    \<and> (\<forall>a. a \<notin> slab_slots (caches h ! i) p \<longrightarrow> words h1 a = words h a)"
proof -
  let ?c = "caches h ! i"
  have fit: "cache_fit ?c" and full: "\<forall>q\<in>set fs. slab_ok h ?c q \<and> slab_free h q = []"
    using assms(1) by (simp_all add: cache_inv_def)
  obtain w where w: "slab_init h p (slab_order ?c) (obj_size ?c) = (h\<lparr> words := w, slabs := (slabs h)(p \<mapsto> slab_of ?c p) \<rparr>, p)"
    "chain_objs w (p + of_nat SLAB_HEADER) (slots ?c) = map (slot_addr ?c p) [0..<slots ?c]"
    "\<forall>a. a \<notin> slab_slots ?c p \<longrightarrow> w a = words h a"
    using slab_init_spec [OF fit assms(4)] by blast
  define h1 where "h1 = h\<lparr> words := w, slabs := (slabs h)(p \<mapsto> slab_of ?c p) \<rparr>"
  have n: "unat (of_nat (slots ?c) :: u16) = slots ?c" using fit by (simp add: cache_fit_def unat_of_nat)
  have free: "slab_free h1 p = map (slot_addr ?c p) [0..<slots ?c]"
    using w(2) n by (simp add: h1_def slab_free_def slab_of_def)
  have none: "slab_free h1 q = []" "slab_ok h1 ?c q" if "q \<in> set fs" for q
  proof -
    have q: "slab_ok h ?c q" "slab_free h q = []" "q \<noteq> p" using full that assms(2) by auto
    obtain s where s: "slabs h q = Some s" using q(1) by (rule slab_okE)
    then have "length (slab_free h q) = unat (free_objs s)" by (simp add: slab_free_def)
    then have "free_objs s = 0" using q(2) by (simp add: unat_eq_0)
    then show none: "slab_free h1 q = []" using s q(3) by (simp add: slab_free_def h1_def)
    show "slab_ok h1 ?c q" using q none by (simp add: slab_ok_def) (simp add: h1_def)
  qed
  have "slab_ok h1 ?c p"
    unfolding slab_ok_def free using slot_addr_inj [OF fit assms(4)] assms(4) n
    by (simp add: h1_def slab_of_def slab_slots_def atLeast0LessThan)
  then have "slabs_ok h1 ?c (insert p (set fs))" using fit assms(3) none(2) by (simp add: slabs_ok_def)
  then show ?thesis using w(1,3) free none(1) by (auto simp: h1_def)
qed

text \<open>A slab outside the lists joins the one it fits.\<close>

lemma install_spec:
  assumes "slabs_ok h (caches h ! i) (insert p (set fs))" "i < length (caches h)" "slabs h p = Some t" "p \<noteq> 0" "p \<notin> set fs"
    "dll (slabs h) (full_slabs (caches h ! i)) fs" "partial_slabs (caches h ! i) = 0" "free_slabs (caches h ! i) = 0"
    "slab_is_full t \<longleftrightarrow> slab_free h p = []" "length (slab_free h p) < slots (caches h ! i)" "\<forall>q\<in>set fs. slab_free h q = []"
  shows "\<exists>h' ps' fs'. install_slab h i p (slab_is_full t) = Some h' \<and> cache_inv h' i ps' fs'
    \<and> set ps' \<union> set fs' = insert p (set fs) \<and> free_in h' (insert p (set fs)) = free_in h (insert p (set fs))
    \<and> heap_frame h i (insert p (set fs)) h' \<and> hvm h' = hvm h \<and> words h' = words h"
proof (cases "slab_free h p = []")
  case True
  obtain S where S: "push_full_ptr h i p = Some (h\<lparr> slabs := S, caches := (caches h)[i := full_slabs_update (\<lambda>_. p) (caches h ! i)] \<rparr>)"
    "dll S p (p # fs)" "relinked (slabs h) S (set (p # fs))"
    using full_list.push_dll [OF assms(2,6,3,4,5)] by (auto simp: push_full_ptr_def)
  let ?h = "h\<lparr> slabs := S, caches := (caches h)[i := full_slabs_update (\<lambda>_. p) (caches h ! i)] \<rparr>"
  have "relinked (slabs h) (slabs ?h) (set (p # fs))" "words ?h = words h" using S(3) by simp_all
  note I = cache_invI [where ps = "[]" and fs = "p # fs" and i = i, OF assms(1) this]
  have "cache_inv ?h i [] (p # fs)" "free_in ?h (insert p (set fs)) = free_in h (insert p (set fs))"
    by (rule I; use True S(2) assms in \<open>auto simp: dll_null\<close>)+
  moreover have "heap_frame h i (insert p (set fs)) ?h" using S(3) assms(2) by (auto simp: heap_frame_def relinked_def)
  ultimately show ?thesis using True S(1) assms(9)
    by (intro exI [of _ ?h] exI [of _ "[]"] exI [of _ "p # fs"]) (simp add: install_slab_def)
next
  case False
  have pl: "dll (slabs h) (partial_slabs (caches h ! i)) []" using assms(7) by (simp add: dll_null)
  obtain S where S: "push_partial_ptr h i p = Some (h\<lparr> slabs := S, caches := (caches h)[i := partial_slabs_update (\<lambda>_. p) (caches h ! i)] \<rparr>)"
    "dll S p [p]" "relinked (slabs h) S {p}"
    using partial_list.push_dll [OF assms(2) pl assms(3,4)] by (auto simp: push_partial_ptr_def)
  let ?h = "h\<lparr> slabs := S, caches := (caches h)[i := partial_slabs_update (\<lambda>_. p) (caches h ! i)] \<rparr>"
  have fl: "dll S (full_slabs (caches h ! i)) fs" using relinked_dll [OF S(3)] assms(5,6) by simp
  have "relinked (slabs h) (slabs ?h) {p}" "words ?h = words h" using S(3) by simp_all
  note I = cache_invI [where ps = "[p]" and fs = fs and i = i, OF assms(1) this]
  have "cache_inv ?h i [p] fs" "free_in ?h (insert p (set fs)) = free_in h (insert p (set fs))"
    by (rule I; use False S(2) fl assms in auto)+
  moreover have "heap_frame h i (insert p (set fs)) ?h" using S(3) assms(2) by (auto simp: heap_frame_def relinked_def)
  ultimately show ?thesis using False S(1) assms(9)
    by (intro exI [of _ ?h] exI [of _ "[p]"] exI [of _ fs]) (simp add: install_slab_def)
qed

text \<open>From the fresh slab one object is taken and the slab goes to the list it fits.\<close>

lemma adopt_fresh:
  assumes "cache_inv h i [] fs" "p \<notin> set fs" "p \<noteq> 0" "apart (caches h ! i) (insert p (set fs))"
    "unat p + slab_bytes (caches h ! i) < 2 ^ 64"
  shows "\<exists>h1 h2 o' h' ps' fs'. slab_init h p (slab_order (caches h ! i)) (obj_size (caches h ! i)) = (h1, p)
    \<and> alloc_obj h1 p = Some (h2, o') \<and> adopt_slab h2 i pa p o' = Some (h', o') \<and> cache_inv h' i ps' fs'
    \<and> set ps' \<union> set fs' = insert p (set fs) \<and> o' \<in> slab_slots (caches h ! i) p
    \<and> free_in h' (insert p (set fs)) = slab_slots (caches h ! i) p - {o'}
    \<and> heap_frame h i (insert p (set fs)) h' \<and> hvm h' = hvm h
    \<and> (\<forall>a. a \<notin> slab_slots (caches h ! i) p \<longrightarrow> words h' a = words h a)"
proof -
  let ?c = "caches h ! i" and ?P = "insert p (set fs)"
  obtain h1 where h1: "slab_init h p (slab_order ?c) (obj_size ?c) = (h1, p)"
    "slabs_ok h1 ?c ?P" "slabs h1 p = Some (slab_of ?c p)" "slab_free h1 p = map (slot_addr ?c p) [0..<slots ?c]"
    "\<forall>q\<in>set fs. slab_free h1 q = []" "\<forall>q. q \<noteq> p \<longrightarrow> slabs h1 q = slabs h q" "caches h1 = caches h" "hvm h1 = hvm h"
    "heap_initialized h1 = heap_initialized h" "\<forall>a. a \<notin> slab_slots ?c p \<longrightarrow> words h1 a = words h a"
    using fresh_slab_ok [OF assms(1,2,4,5)] by blast
  have fit: "cache_fit ?c" "0 < slots ?c" and i: "i < length (caches h)" and nopart: "partial_slabs ?c = 0" "free_slabs ?c = 0"
    and fl: "dll (slabs h) (full_slabs ?c) fs"
    using assms(1) by (auto simp: cache_inv_def cache_fit_def dll_def)
  let ?o = "slot_addr ?c p 0" and ?os = "map (slot_addr ?c p) [Suc 0..<slots ?c]"
  have fr1: "slab_free h1 p = ?o # ?os" using h1(4) fit(2) by (simp add: upt_conv_Cons)
  note al = alloc_obj_spec [OF h1(3) fr1]
  let ?t = "(slab_of ?c p)\<lparr> free_head := words h1 ?o, free_objs := free_objs (slab_of ?c p) - 1 \<rparr>"
  define h2 where "h2 = h1\<lparr> slabs := (slabs h1)(p \<mapsto> ?t) \<rparr>"
  note al = al [folded h2_def]
  have "distinct (?o # ?os)" using h1(2) fr1 by (simp add: slabs_ok_def slab_ok_def)
  then have o_os: "?o \<notin> set ?os" by simp
  have free1: "free_in h1 ?P = slab_slots ?c p"
    unfolding free_in_def using h1(4,5) by (auto simp: slab_slots_def)
  have o_in: "?o \<in> slab_slots ?c p" using fit(2) by (auto simp: slab_slots_def)
  have none2: "\<forall>q\<in>set fs. slab_free h2 q = []" using al(3) h1(5) assms(2) by metis
  have free2: "free_in h2 ?P = slab_slots ?c p - {?o}"
    unfolding free1 [symmetric] by (rule free_in_take [OF _ fr1 al(2) o_os]) (use al(3) h1(5) in auto)
  have "slab_ok h2 ?c q" if "q \<in> ?P" for q
    using h1(2,3) fr1 al(2,3) that by (cases "q = p") (auto simp: slabs_ok_def slab_ok_def h2_def)
  then have ok2: "slabs_ok h2 ?c ?P" using h1(2) by (simp add: slabs_ok_def)
  have c2: "caches h2 = caches h" "hvm h2 = hvm h" "words h2 = words h1" "heap_initialized h2 = heap_initialized h"
    "slabs h2 p = Some ?t" using h1(7-9) by (simp_all add: h2_def)
  have other2: "slabs h2 q = slabs h q" if "q \<noteq> p" for q using h1(6) that by (simp add: h2_def)
  then have "dll (slabs h2) q fs = dll (slabs h) q fs" for q using assms(2) by (intro dll_cong) metis
  then have fl2: "dll (slabs h2) (full_slabs (caches h2 ! i)) fs" using fl c2 by simp
  have "unat (free_objs ?t) = length ?os" using al(2) c2(5) by (metis (no_types, lifting) chain_objs_length option.case(2) slab_free_def)
  then have full: "slab_is_full ?t \<longleftrightarrow> ?os = []" by (auto simp: slab_is_full_def unat_eq_0 simp del: diff_eq_eq)
  have "length ?os < slots ?c" using fit(2) by simp
  with install_spec [of h2 i p fs ?t] obtain h' ps' fs' where h': "install_slab h2 i p (slab_is_full ?t) = Some h'"
    "cache_inv h' i ps' fs'" "set ps' \<union> set fs' = ?P" "free_in h' ?P = free_in h2 ?P" "heap_frame h2 i ?P h'"
    "hvm h' = hvm h2" "words h' = words h2"
    using ok2 i c2 assms(2,3) fl2 nopart full al(2) none2 by auto
  have "adopt_slab h2 i pa p ?o = Some (h', ?o)" using h'(1) c2 nopart by (simp add: adopt_slab_def)
  moreover have "heap_frame h i ?P h'" using other2 c2 h'(5) by (simp add: heap_frame_def)
  ultimately show ?thesis using h1(1,10) al(1) h'(2-4,6,7) c2(2,3) free2 o_in by metis
qed

section \<open>The cache and the physical allocator\<close>

text \<open>A slab is a block of the zone, seen through the higher-half mapping, that is not free.\<close>

definition slab_owned :: "phys_state \<Rightarrow> nat \<Rightarrow> u64 \<Rightarrow> bool" where
  "slab_owned z k p \<longleftrightarrow> HIGHER_HALF \<le> p \<and> block_in z k (p - HIGHER_HALF)
     \<and> set_mset (block_mset k (p - HIGHER_HALF)) \<inter> set_mset (free_mset z) = {}"

definition heap_ok :: "heap \<Rightarrow> nat \<Rightarrow> u64 list \<Rightarrow> u64 list \<Rightarrow> bool" where
  "heap_ok h i ps fs \<longleftrightarrow> cache_inv h i ps fs \<and> phys_inv (vphys (hvm h)) \<and> slab_order (caches h ! i) \<le> MAX_ORDER
     \<and> unat (zone_top (vphys (hvm h))) < 2 ^ 47
     \<and> (\<forall>p\<in>set ps \<union> set fs. slab_owned (vphys (hvm h)) (slab_order (caches h ! i)) p)"

definition live :: "heap \<Rightarrow> nat \<Rightarrow> u64 set \<Rightarrow> u64 set" where
  "live h i P = (\<Union>p\<in>P. slab_slots (caches h ! i) p) - free_in h P"

lemma aligned_apart:
  assumes "4096 * 2 ^ k dvd a" "4096 * 2 ^ k dvd b" "a \<noteq> (b :: nat)"
  shows "a + 4096 * 2 ^ k \<le> b \<or> b + 4096 * 2 ^ k \<le> a"
proof -
  obtain x y where xy: "a = 4096 * 2 ^ k * x" "b = 4096 * 2 ^ k * y" using assms(1,2) by (auto elim!: dvdE)
  have "4096 * 2 ^ k * (x + 1) \<le> 4096 * 2 ^ k * y" if "x < y" using that by (intro mult_left_mono) auto
  moreover have "4096 * 2 ^ k * (y + 1) \<le> 4096 * 2 ^ k * x" if "y < x" using that by (intro mult_left_mono) auto
  ultimately show ?thesis using assms(3) xy by (cases x y rule: linorder_cases) (auto simp: algebra_simps)
qed

lemma higher_half_unat:
  assumes "unat a < 2 ^ 47"
  shows "checked_add HIGHER_HALF a = Some (HIGHER_HALF + a)" "unat (HIGHER_HALF + a) = unat HIGHER_HALF + unat a"
    "HIGHER_HALF + a - HIGHER_HALF = a" "HIGHER_HALF \<le> HIGHER_HALF + a" "HIGHER_HALF + a \<noteq> 0"
proof -
  have lt: "unat HIGHER_HALF + unat a < 2 ^ LENGTH(64)" using assms by (simp add: HIGHER_HALF_def)
  then show eq: "unat (HIGHER_HALF + a) = unat HIGHER_HALF + unat a" by (simp add: unat_word_ariths(1))
  show "checked_add HIGHER_HALF a = Some (HIGHER_HALF + a)" using lt by (simp add: checked_add_def)
  show "HIGHER_HALF \<le> HIGHER_HALF + a" using eq by (simp add: word_le_nat_alt)
  show "HIGHER_HALF + a \<noteq> 0" using eq by (auto simp: HIGHER_HALF_def dest!: arg_cong [of _ _ unat])
qed simp

lemma owned_apart:
  assumes "slab_owned z k p" "slab_owned z k q" "p \<noteq> q" "unat (zone_top z) < 2 ^ 47"
  shows "unat p + 4096 * 2 ^ k \<le> unat q \<or> unat q + 4096 * 2 ^ k \<le> unat p"
proof -
  let ?a = "p - HIGHER_HALF" and ?b = "q - HIGHER_HALF"
  have ab: "4096 * 2 ^ k dvd unat ?a" "4096 * 2 ^ k dvd unat ?b" "unat ?a + 4096 * 2 ^ k \<le> unat (zone_top z)"
    "unat ?b + 4096 * 2 ^ k \<le> unat (zone_top z)" using assms(1,2) by (auto simp: slab_owned_def block_in_def)
  then have lt: "unat ?a < 2 ^ 47" "unat ?b < 2 ^ 47" using assms(4) by auto
  have "unat ?a \<noteq> unat ?b" using assms(3) by (metis diff_add_cancel word_unat_eq_iff)
  from aligned_apart [OF ab(1,2) this] higher_half_unat(2) [OF lt(1)] higher_half_unat(2) [OF lt(2)]
  show ?thesis by auto
qed

text \<open>What the slow path has when it returns to the cache: a block of the zone that no slab of the
  cache uses, mapped, with the page tables' own pages taken as well.\<close>

lemma new_block:
  assumes "heap_ok h i [] fs" "alloc_order (vphys (hvm h)) (slab_order (caches h ! i)) = Some (z, Some a)"
    "map_contiguous ((hvm h)\<lparr> vphys := z \<rparr>) root virt a n DATA = Some m"
  shows "unat a < 2 ^ 47" "phys_inv (vphys m)" "phys_cfg (vphys m) = phys_cfg (vphys (hvm h))"
    "\<forall>q\<in>insert (HIGHER_HALF + a) (set fs). slab_owned (vphys m) (slab_order (caches h ! i)) q"
    "HIGHER_HALF + a \<notin> set fs"
proof -
  let ?k = "slab_order (caches h ! i)" and ?z = "vphys (hvm h)" and ?p = "HIGHER_HALF + a"
  have inv: "phys_inv ?z" "?k \<le> MAX_ORDER" and top: "unat (zone_top ?z) < 2 ^ 47"
    and own: "\<forall>p\<in>set fs. slab_owned ?z ?k p" using assms(1) by (auto simp: heap_ok_def)
  then have al: "allocated ?z ?k z a"
    using alloc_order_correct [of ?z ?k] assms(2) by (auto simp: phys_inv_def alloc_post_def)
  then have st: "phys_step ?z z" "block_in ?z ?k a" and fm: "free_mset ?z = free_mset z + block_mset ?k a"
    by (simp_all add: allocated_def)
  have zinv: "phys_inv z" by (rule phys_inv_take [OF inv(1) st(1)]) (simp add: fm)
  have sh: "shrinks ((hvm h)\<lparr> vphys := z \<rparr>) m" using assms(3) by (rule shrinks_map_contiguous)
  then show mi: "phys_inv (vphys m)" using zinv by (simp add: shrinks_def)
  from sh zinv st(1) show cfg: "phys_cfg (vphys m) = phys_cfg ?z" by (simp add: shrinks_def phys_step_def)
  have sub: "free_mset (vphys m) \<subseteq># free_mset z" using sh zinv by (simp add: shrinks_def)
  show a: "unat a < 2 ^ 47" using st(2) top by (simp add: block_in_def)
  have page: "page_of a \<in># block_mset ?k a" by (simp add: block_mset_def)
  have "page_of a \<in># free_mset ?z" using page fm by simp
  then have "\<not> slab_owned ?z ?k ?p" using page unfolding slab_owned_def higher_half_unat(3) [OF a] by blast
  then show "?p \<notin> set fs" using own by blast
  have "count (free_mset ?z) q \<le> 1" for q using inv(1) by (simp add: phys_inv_def)
  then have "count (free_mset z) q + count (block_mset ?k a) q \<le> 1" for q using fm by (metis count_union)
  then have "q \<notin># free_mset z" if "q \<in># block_mset ?k a" for q
    using that by (metis add_leD2 add_le_same_cancel2 count_greater_eq_one_iff le_antisym not_in_iff le_zero_eq)
  then have "slab_owned (vphys m) ?k ?p"
    using sub st(2) cfg block_in_cfg [OF cfg] higher_half_unat(3,4) [OF a]
    by (auto simp: slab_owned_def dest: mset_subset_eqD)
  moreover have "set_mset (free_mset (vphys m)) \<subseteq> set_mset (free_mset ?z)" using set_mset_mono [OF sub] fm by auto
  then have "slab_owned (vphys m) ?k q" if "q \<in> set fs" for q
    using own that unfolding slab_owned_def block_in_cfg [OF cfg] by blast
  ultimately show "\<forall>q\<in>insert ?p (set fs). slab_owned (vphys m) ?k q" by blast
qed

lemma heap_ok_slots:
  assumes "heap_ok h i ps fs" "p \<in> set ps \<union> set fs"
  shows "set (slab_free h p) \<subseteq> slab_slots (caches h ! i) p" "slab_ok h (caches h ! i) p"
proof -
  show "slab_ok h (caches h ! i) p" using assms by (auto simp: heap_ok_def cache_inv_def)
  then show "set (slab_free h p) \<subseteq> slab_slots (caches h ! i) p" by (simp add: slab_ok_def)
qed

lemma heap_ok_keep:
  assumes "heap_ok h i ps fs" "cache_inv h' i ps' fs'" "set ps' \<union> set fs' = set ps \<union> set fs"
    "hvm h' = hvm h" "slab_order (caches h' ! i) = slab_order (caches h ! i)"
  shows "heap_ok h' i ps' fs'"
  using assms by (simp add: heap_ok_def)

lemma live_fresh:
  assumes "cache_inv h i [] fs" "heap_ok h' i ps' fs'" "set ps' \<union> set fs' = insert v (set fs)" "v \<notin> set fs"
    "obj_size (caches h' ! i) = obj_size (caches h ! i)" "slab_order (caches h' ! i) = slab_order (caches h ! i)"
    "o' \<in> slab_slots (caches h ! i) v" "free_in h' (insert v (set fs)) = slab_slots (caches h ! i) v - {o'}"
  shows "o' \<notin> live h i (set fs)" "live h' i (set ps' \<union> set fs') = insert o' (live h i (set fs))"
proof -
  let ?c = "caches h ! i"
  note geo = geometry [OF assms(5,6)]
  have dj: "slab_slots ?c v \<inter> slab_slots ?c q = {}" if "q \<in> set fs" for q
  proof -
    have q: "q \<in> set ps' \<union> set fs'" "v \<in> set ps' \<union> set fs'" "v \<noteq> q" using assms(3,4) that by auto
    have "apart ?c (set ps' \<union> set fs')" "8 \<le> obj_size ?c"
      using assms(2,5) geo by (simp_all add: heap_ok_def cache_inv_def cache_fit_def)
    moreover have "slab_ok h' ?c v" "slab_ok h' ?c q"
      using heap_ok_slots(2) [OF assms(2) q(2)] heap_ok_slots(2) [OF assms(2) q(1)] geo by simp_all
    ultimately show ?thesis using slots_apart q by blast
  qed
  have "free_in h (set fs) = {}" using assms(1) by (auto simp: free_in_def cache_inv_def)
  then have l: "live h i (set fs) = (\<Union>q\<in>set fs. slab_slots ?c q)" by (simp add: live_def)
  then show "o' \<notin> live h i (set fs)" using assms(7) dj by auto
  show "live h' i (set ps' \<union> set fs') = insert o' (live h i (set fs))"
    unfolding assms(3) l using assms(7,8) dj geo by (auto simp: live_def)
qed

lemma new_slab_adopt:
  assumes "heap_ok h i [] fs" "new_slab h i = Some (h2, Some (pa, p, ob))"
  shows "\<exists>h' ps' fs'. adopt_slab h2 i pa p ob = Some (h', ob) \<and> ob \<noteq> 0 \<and> heap_ok h' i ps' fs'
    \<and> set fs \<subseteq> set ps' \<union> set fs' \<and> ob \<notin> live h i (set fs)
    \<and> live h' i (set ps' \<union> set fs') = insert ob (live h i (set fs))
    \<and> obj_size (caches h' ! i) = obj_size (caches h ! i)"
proof -
  let ?c = "caches h ! i"
  have inv: "cache_inv h i [] fs" and top: "unat (zone_top (vphys (hvm h))) < 2 ^ 47" "slab_order ?c \<le> MAX_ORDER"
    using assms(1) by (simp_all add: heap_ok_def)
  from assms(2) obtain z m h1 vb where al: "alloc_order (vphys (hvm h)) (slab_order ?c) = Some (z, Some pa)"
    and vb: "checked_add HIGHER_HALF pa = Some vb" and mc: "map_contiguous ((hvm h)\<lparr> vphys := z \<rparr>) (kernel_pml4 (hvm h)) vb pa
        (of_nat (2 ^ slab_order ?c)) DATA = Some m"
    and si: "slab_init (h\<lparr> hvm := m \<rparr>) vb (slab_order ?c) (obj_size ?c) = (h1, p)" "alloc_obj h1 p = Some (h2, ob)"
    by (auto simp: new_slab_def bind_eq_Some_conv Let_def split: option.splits prod.splits) (metis surj_pair)
  note nb = new_block [OF assms(1) al mc]
  have vbe: "vb = HIGHER_HALF + pa" using vb higher_half_unat(1) [OF nb(1)] by simp
  let ?v = "HIGHER_HALF + pa" and ?P = "insert (HIGHER_HALF + pa) (set fs)"
  have tm: "unat (zone_top (vphys m)) < 2 ^ 47" using top nb(3) by (simp add: phys_cfg_def)
  have bytes: "4096 * 2 ^ slab_order ?c = slab_bytes ?c" by (simp add: slab_bytes_def)
  have "apart ?c ?P" unfolding apart_def bytes [symmetric] using owned_apart [OF _ _ _ tm] nb(4) by blast
  moreover have room: "unat ?v + slab_bytes ?c < 2 ^ 64"
    using nb(4) tm higher_half_unat(2,3) [OF nb(1)] by (simp add: slab_owned_def block_in_def bytes HIGHER_HALF_def)
  ultimately obtain h1' h2' ob' g ps' fs' where ad: "slab_init (h\<lparr> hvm := m \<rparr>) ?v (slab_order ?c) (obj_size ?c) = (h1', ?v)"
    "alloc_obj h1' ?v = Some (h2', ob')" "adopt_slab h2' i pa ?v ob' = Some (g, ob')" "cache_inv g i ps' fs'"
    "set ps' \<union> set fs' = ?P" "ob' \<in> slab_slots ?c ?v" "free_in g ?P = slab_slots ?c ?v - {ob'}"
    "heap_frame (h\<lparr> hvm := m \<rparr>) i ?P g" "hvm g = m"
    using adopt_fresh [of "h\<lparr> hvm := m \<rparr>" i fs ?v pa] inv nb(5) higher_half_unat(5) [OF nb(1)] by auto
  have eq: "h2' = h2" "ob' = ob" "p = ?v" using ad(1,2) si vbe by auto
  have geo: "slab_order (caches g ! i) = slab_order ?c" "obj_size (caches g ! i) = obj_size ?c"
    using ad(8) by (simp_all add: heap_frame_def)
  have ok': "heap_ok g i ps' fs'" using ad(4,5,9) nb(2,4) tm top(2) geo by (simp add: heap_ok_def)
  have "unat ?v < unat ob'" using slab_slots_range [OF ad(6) room] inv by (simp add: cache_inv_def cache_fit_def)
  then have "ob' \<noteq> 0" by auto
  with live_fresh [OF inv ok' ad(5) nb(5) geo(2,1) ad(6,7)] show ?thesis
    using ok' ad(3,5) eq geo by (intro exI [of _ g] exI [of _ ps'] exI [of _ fs']) auto
qed

end
