(* ===== verification/Heap_Theorems.thy ===== *)
theory Heap_Theorems
  imports Heap_Grow Virt_Theorems
begin

text \<open>
  The properties of the slab allocator, applied to a heap with one partial slab of the 1 KB
  cache.
\<close>

declare upt_rec_numeral [simp del]

section \<open>Allocation and release\<close>

lemma alloc_partial_live:
  assumes "heap_ok h i ps fs" "ps \<noteq> []"
  shows "\<exists>h' o' ps' fs'. kmem_alloc h i = Some (h', o') \<and> o' \<noteq> 0 \<and> heap_ok h' i ps' fs'
    \<and> set ps' \<union> set fs' = set ps \<union> set fs \<and> o' \<notin> live h i (set ps \<union> set fs)
    \<and> live h' i (set ps \<union> set fs) = insert o' (live h i (set ps \<union> set fs)) \<and> hvm h' = hvm h
    \<and> obj_size (caches h' ! i) = obj_size (caches h ! i)"
proof -
  let ?c = "caches h ! i" and ?P = "set ps \<union> set fs"
  have inv: "cache_inv h i ps fs" using assms(1) by (simp add: heap_ok_def)
  obtain p ys where ps: "ps = p # ys" using assms(2) by (cases ps) auto
  then have hd: "partial_slabs ?c = p" "p \<noteq> 0" using inv dll_slab by (auto simp: cache_inv_def dll_def)
  obtain h' o' ps' fs' where r: "alloc_partial h i = Some (h', o')" "cache_inv h' i ps' fs'" "set ps' \<union> set fs' = ?P"
    "o' \<in> free_in h ?P" "free_in h' ?P = free_in h ?P - {o'}" "heap_frame h i ?P h'" "hvm h' = hvm h"
    using alloc_partial_spec [OF inv assms(2)] by blast
  have geo: "slab_order (caches h' ! i) = slab_order ?c" "obj_size (caches h' ! i) = obj_size ?c"
    using r(6) by (simp_all add: heap_frame_def)
  obtain q where q: "q \<in> ?P" "o' \<in> slab_slots ?c q"
    using r(4) heap_ok_slots(1) [OF assms(1)] by (auto simp: free_in_def)
  have "live h' i ?P = insert o' (live h i ?P)" "o' \<notin> live h i ?P"
    using r(4,5) q geometry [OF geo(2,1)] by (auto simp: live_def)
  moreover have "o' \<noteq> 0"
  proof -
    have "slab_ok h ?c q" "8 \<le> obj_size ?c" using heap_ok_slots(2) [OF assms(1) q(1)] inv by (simp_all add: cache_inv_def cache_fit_def)
    then have "unat q < unat o'" using slab_slots_range [OF q(2)] by (auto elim: slab_okE)
    then show ?thesis by auto
  qed
  moreover have "heap_ok h' i ps' fs'" using heap_ok_keep [OF assms(1) r(2,3,7) geo(1)] .
  ultimately show ?thesis using r(1,3,7) hd geo by (intro exI [of _ h'] exI [of _ o'] exI [of _ ps'] exI [of _ fs']) (simp add: kmem_alloc_def)
qed

text \<open>C9. Allocating from a slab cache whose slabs are blocks of the zone. It aborts only when the
  cache has no partial slab and the mapping of a new one aborts, and it returns null only when
  the allocator has no block. Otherwise the object returned is not live, it becomes the only new
  live object, the cache stays well formed and keeps its slabs, and a cache with a partial slab
  touches neither the page tables nor the physical allocator.\<close>

theorem kmem_alloc_spec:
  assumes "heap_ok h i ps fs"
  shows "case kmem_alloc h i of
      None \<Rightarrow> ps = [] \<and> new_slab h i = None
    | Some (h', o') \<Rightarrow>
        if o' = 0 then ps = [] \<and> h' = h \<and> (\<forall>k. slab_order (caches h ! i) \<le> k \<and> k \<le> MAX_ORDER
            \<longrightarrow> free_lists (vphys (hvm h)) ! k = [])
        else \<exists>ps' fs'. heap_ok h' i ps' fs' \<and> set ps \<union> set fs \<subseteq> set ps' \<union> set fs'
          \<and> o' \<notin> live h i (set ps \<union> set fs)
          \<and> live h' i (set ps' \<union> set fs') = insert o' (live h i (set ps \<union> set fs))
          \<and> (ps \<noteq> [] \<longrightarrow> hvm h' = hvm h)"
proof (cases "ps = []")
  case False
  from alloc_partial_live [OF assms False] obtain h' o' ps' fs' where
    "kmem_alloc h i = Some (h', o')" "o' \<noteq> 0" "heap_ok h' i ps' fs'" "set ps' \<union> set fs' = set ps \<union> set fs"
    "o' \<notin> live h i (set ps \<union> set fs)" "live h' i (set ps \<union> set fs) = insert o' (live h i (set ps \<union> set fs))" "hvm h' = hvm h"
    by blast
  then show ?thesis by (simp, intro exI [of _ ps'] exI [of _ fs']) simp
next
  case True
  have inv: "cache_inv h i [] fs" using assms True by (simp add: heap_ok_def)
  then have null: "partial_slabs (caches h ! i) = 0" "free_slabs (caches h ! i) = 0" by (simp_all add: cache_inv_def dll_def)
  show ?thesis
  proof (cases "new_slab h i")
    case None
    then show ?thesis using True null by (simp add: kmem_alloc_def)
  next
    case (Some r)
    then obtain h1 x where r: "new_slab h i = Some (h1, x)" by fastforce
    show ?thesis
    proof (cases x)
      case None
      then have al: "\<exists>z. alloc_order (vphys (hvm h)) (slab_order (caches h ! i)) = Some (z, None) \<and> h1 = h\<lparr> hvm := (hvm h)\<lparr> vphys := z \<rparr> \<rparr>"
        using r by (auto simp: new_slab_def bind_eq_Some_conv Let_def split: option.splits prod.splits)
      then have "h1 = h \<and> (\<forall>k. slab_order (caches h ! i) \<le> k \<and> k \<le> MAX_ORDER \<longrightarrow> free_lists (vphys (hvm h)) ! k = [])"
        using alloc_order_correct [of "vphys (hvm h)" "slab_order (caches h ! i)"] assms
        by (auto simp: heap_ok_def phys_inv_def alloc_post_def)
      then show ?thesis using r None True null by (simp add: kmem_alloc_def)
    next
      case (Some y)
      obtain pa p ob where y: "y = (pa, p, ob)" by (cases y)
      from assms True r Some y have hy: "heap_ok h i [] fs" "new_slab h i = Some (h1, Some (pa, p, ob))" by simp_all
      obtain h' ps' fs' where n: "adopt_slab h1 i pa p ob = Some (h', ob)" "ob \<noteq> 0" "heap_ok h' i ps' fs'"
        "set fs \<subseteq> set ps' \<union> set fs'" "ob \<notin> live h i (set fs)"
        "live h' i (set ps' \<union> set fs') = insert ob (live h i (set fs))"
        using new_slab_adopt [OF hy] by blast
      then have "kmem_alloc h i = Some (h', ob)" using null hy(2) by (simp add: kmem_alloc_def)
      then show ?thesis using n True by (simp, intro exI [of _ ps'] exI [of _ fs']) simp
    qed
  qed
qed

lemma live_hvm [simp]: "live (h\<lparr> hvm := x \<rparr>) i P = live h i P"
  by (simp add: live_def)

lemma live_object:
  assumes "cache_inv h i ps fs" "o' \<in> live h i (set ps \<union> set fs)"
  obtains p where "p \<in> set ps \<union> set fs" "o' \<in> slab_slots (caches h ! i) p" "object_of h i ps fs p o'"
proof -
  obtain p where "p \<in> set ps \<union> set fs" "o' \<in> slab_slots (caches h ! i) p" using assms(2) by (auto simp: live_def)
  moreover from this have "o' \<notin> set (slab_free h p)" using assms(2) by (auto simp: live_def free_in_def)
  ultimately show ?thesis using that assms(1) by (simp add: object_of_def)
qed

text \<open>The last live object of a slab: all its other slots are free.\<close>

lemma last_object:
  assumes "object_of h i ps fs p o'" "Suc (length (slab_free h p)) = slots (caches h ! i)"
  shows "slab_slots (caches h ! i) p = insert o' (set (slab_free h p))"
proof -
  let ?c = "caches h ! i"
  have "slab_ok h ?c p" "cache_fit ?c" using assms(1) by (auto simp: object_of_def cache_inv_def)
  then have "distinct (slab_free h p)" "set (slab_free h p) \<subseteq> slab_slots ?c p" "distinct (map (slot_addr ?c p) [0..<slots ?c])"
    by (auto simp: slab_ok_def intro: slot_addr_inj split: option.splits)
  moreover have "slab_slots ?c p = set (map (slot_addr ?c p) [0..<slots ?c])" by (auto simp: slab_slots_def)
  ultimately have "card (slab_slots ?c p) = slots ?c" "card (set (slab_free h p)) = length (slab_free h p)"
    by (metis distinct_card length_map length_upt minus_nat.diff_0, metis distinct_card)
  then have "card (insert o' (set (slab_free h p))) = card (slab_slots ?c p)"
    using assms by (simp add: object_of_def card_insert_if)
  moreover have "insert o' (set (slab_free h p)) \<subseteq> slab_slots ?c p" "finite (slab_slots ?c p)"
    using assms(1) \<open>set (slab_free h p) \<subseteq> slab_slots ?c p\<close> by (simp_all add: object_of_def slab_slots_def)
  ultimately show ?thesis by (metis card_subset_eq)
qed

lemma live_without_slab:
  assumes "object_of h i ps fs p o'" "Suc (length (slab_free h p)) = slots (caches h ! i)"
  shows "live h i (set ps \<union> set fs - {p}) = live h i (set ps \<union> set fs) - {o'}"
proof -
  let ?c = "caches h ! i" and ?P = "set ps \<union> set fs"
  have p: "p \<in> ?P" and ok: "slabs_ok h ?c ?P" using assms(1) cache_inv_slabs by (auto simp: object_of_def)
  have dj: "slab_slots ?c p \<inter> slab_slots ?c q = {}" if "q \<in> ?P - {p}" for q
    using ok p that by (intro slots_apart [of ?c ?P]) (auto simp: slabs_ok_def cache_fit_def)
  define R where "R = (\<Union>q\<in>?P - {p}. slab_slots ?c q)"
  have "(\<Union>q\<in>?P. slab_slots ?c q) = slab_slots ?c p \<union> R" unfolding R_def using p by auto
  moreover have "free_in h ?P = set (slab_free h p) \<union> free_in h (?P - {p})" using p by (rule free_in_split)
  moreover have "set (slab_free h q) \<subseteq> slab_slots ?c q" if "q \<in> ?P" for q using ok that by (auto simp: slabs_ok_def slab_ok_def)
  then have "free_in h (?P - {p}) \<subseteq> R" by (auto simp: free_in_def R_def)
  moreover have "slab_slots ?c p \<inter> R = {}" unfolding R_def using dj by blast
  moreover have "o' \<notin> set (slab_free h p)" using assms(1) by (simp add: object_of_def)
  ultimately show ?thesis unfolding live_def R_def [symmetric] last_object [OF assms] by auto
qed

text \<open>C10. Releasing a live object of a well-formed cache. It aborts only if it was the last live object
  of its slab, whose pages are then unmapped and given back. If it returns, the cache is well
  formed, the live objects are those from before without the released one, and the slab is gone
  exactly if none of its objects is left.\<close>

theorem kmem_free_spec:
  assumes "cache_inv h i ps fs" "o' \<in> live h i (set ps \<union> set fs)"
  shows "\<exists>p\<in>set ps \<union> set fs. o' \<in> slab_slots (caches h ! i) p \<and>
    (case kmem_free h i o' of
       None \<Rightarrow> Suc (length (slab_free h p)) = slots (caches h ! i)
     | Some h' \<Rightarrow> \<exists>ps' fs'. cache_inv h' i ps' fs'
         \<and> set ps' \<union> set fs' = set ps \<union> set fs - (if Suc (length (slab_free h p)) = slots (caches h ! i) then {p} else {})
         \<and> live h' i (set ps' \<union> set fs') = live h i (set ps \<union> set fs) - {o'})"
proof -
  let ?c = "caches h ! i" and ?P = "set ps \<union> set fs"
  obtain p where p: "p \<in> ?P" "o' \<in> slab_slots ?c p" and ob: "object_of h i ps fs p o'"
    using live_object [OF assms] .
  have "length (slab_free h p) < slots ?c" using assms(1) p by (auto simp: cache_inv_def cache_fit_def)
  then consider "Suc (length (slab_free h p)) < slots ?c" | "Suc (length (slab_free h p)) = slots ?c" by linarith
  then show ?thesis
  proof cases
    case 1
    from kmem_free_keep [OF ob 1] obtain h' ps' fs' where k: "kmem_free h i o' = Some h'" "cache_inv h' i ps' fs'"
      "set ps' \<union> set fs' = ?P" "free_in h' ?P = insert o' (free_in h ?P)" "heap_frame h i ?P h'" by blast
    then have "live h' i ?P = live h i ?P - {o'}"
      using geometry [of "caches h' ! i" ?c] by (auto simp: live_def heap_frame_def)
    with k 1 p show ?thesis by (intro bexI [of _ p]) (simp, intro exI [of _ ps'] exI [of _ fs'], simp_all)
  next
    case 2
    from kmem_free_last [OF ob 2] obtain g where g: "kmem_free h i o' = do {
        phys_addr \<leftarrow> checked_sub p HIGHER_HALF;
        m \<leftarrow> unmap_pages (hvm h) p [0..<2 ^ slab_order ?c];
        z \<leftarrow> free_pages (vphys m) phys_addr (of_nat (2 ^ slab_order ?c));
        Some (g\<lparr> hvm := m\<lparr> vphys := z \<rparr> \<rparr>) }"
      "cache_inv g i (remove1 p ps) (remove1 p fs)" "free_in g (?P - {p}) = free_in h (?P - {p})" "heap_frame h i ?P g" by blast
    have sets: "set (remove1 p ps) \<union> set (remove1 p fs) = ?P - {p}" using assms(1) by (auto simp: cache_inv_def dll_def)
    have "live g i (?P - {p}) = live h i ?P - {o'}"
      using live_without_slab [OF ob 2] g(3,4) geometry [of "caches g ! i" ?c] by (auto simp: live_def heap_frame_def)
    moreover have "\<exists>x. h' = g\<lparr> hvm := x \<rparr>" if "kmem_free h i o' = Some h'" for h'
      using that unfolding g(1) by (auto simp: bind_eq_Some_conv)
    ultimately have "cache_inv h' i (remove1 p ps) (remove1 p fs) \<and> live h' i (?P - {p}) = live h i ?P - {o'}"
      if "kmem_free h i o' = Some h'" for h' using that g(2) by fastforce
    then show ?thesis using p 2 sets
      by (intro bexI [of _ p] conjI, simp, cases "kmem_free h i o'")
        (simp_all, intro exI [of _ "remove1 p ps"] exI [of _ "remove1 p fs"], simp)
  qed
qed

section \<open>Sizes, alignment and initialisation\<close>

lemma init_caches: "\<not> heap_initialized h \<Longrightarrow> caches (heap_init h) =
    [new_const 32 0 126, new_const 64 0 63, new_const 128 0 31, new_const 256 0 15, new_const 512 0 7,
     new_const 1024 0 3, new_const 2048 0 1, new_const 4096 1 1, new_const 8192 2 1]"
  by (simp add: heap_init_def CACHE_SIZES_def cache_params_def upt_rec SLAB_HEADER_def PAGE_SIZE_def)
    (simp add: numeral_2_eq_2)

definition class_ok :: "kmem_cache \<Rightarrow> bool" where
  "class_ok c \<longleftrightarrow> cache_fit c \<and> slab_order c \<le> MAX_ORDER \<and> unat (objs_per_slab c) = slots c
     \<and> SLAB_HEADER + slots c * obj_size c \<le> slab_bytes c"

lemma class_ok_new: "class_ok (new_const sz k w) \<longleftrightarrow> 8 \<le> sz \<and> k \<le> 10 \<and>
    (let n = (4096 * 2 ^ k - 40) div sz in 0 < n \<and> n < 65536 \<and> unat w = n \<and> 40 + n * sz \<le> 4096 * 2 ^ k)"
  by (auto simp: class_ok_def new_const_def cache_fit_def slots_def slab_bytes_def SLAB_HEADER_def MAX_ORDER_def Let_def)

lemma class_ok_init: "class_ok (new_const 32 0 126)" "class_ok (new_const 64 0 63)" "class_ok (new_const 128 0 31)"
  "class_ok (new_const 256 0 15)" "class_ok (new_const 512 0 7)" "class_ok (new_const 1024 0 3)"
  "class_ok (new_const 2048 0 1)" "class_ok (new_const 4096 1 1)" "class_ok (new_const 8192 2 1)"
  by (simp_all add: class_ok_new)

lemma cache_index_size: "cache_index n = Some i \<Longrightarrow> i < 9 \<and> n \<le> CACHE_SIZES ! i"
  by (auto simp: cache_index_def CACHE_SIZES_def split: if_splits)

text \<open>C35. After \<^verbatim>\<open>init\<close>, for every request size the class chosen by \<^verbatim>\<open>cache_index\<close> holds objects at least
  that large; its slabs fit into blocks of the allocator and hold at least one object and as many
  as \<^verbatim>\<open>cache_params\<close> computed; the header and all objects lie inside the slab. Larger requests
  have no class.\<close>

theorem cache_sizes_fit:
  assumes "\<not> heap_initialized h"
  shows "case cache_index n of
      None \<Rightarrow> 8192 < n
    | Some i \<Rightarrow> i < length (caches (heap_init h)) \<and> n \<le> obj_size (caches (heap_init h) ! i)
        \<and> cache_fit (caches (heap_init h) ! i) \<and> slab_order (caches (heap_init h) ! i) \<le> MAX_ORDER
        \<and> unat (objs_per_slab (caches (heap_init h) ! i)) = slots (caches (heap_init h) ! i)
        \<and> SLAB_HEADER + slots (caches (heap_init h) ! i) * obj_size (caches (heap_init h) ! i)
            \<le> slab_bytes (caches (heap_init h) ! i)"
proof (cases "cache_index n")
  case None
  then show ?thesis by (simp add: cache_index_def split: if_splits)
next
  case (Some i)
  let ?cs = "caches (heap_init h)"
  have "i < 9" "n \<le> CACHE_SIZES ! i" using cache_index_size [OF Some] by simp_all
  moreover have "map obj_size ?cs = CACHE_SIZES" "length ?cs = 9" "list_all class_ok ?cs"
    unfolding init_caches [OF assms] by (simp_all add: class_ok_init del: One_nat_def) (simp add: new_const_def CACHE_SIZES_def)
  moreover from this have "obj_size (?cs ! i) = CACHE_SIZES ! i" using \<open>i < 9\<close> by (metis nth_map)
  ultimately have "class_ok (?cs ! i)" "n \<le> obj_size (?cs ! i)" "i < length ?cs" by (simp_all add: list_all_length)
  then show ?thesis using Some by (simp add: class_ok_def)
qed

text \<open>An allocation that succeeds leaves its object live in a well-formed cache of the same geometry.\<close>

lemma kmem_alloc_live:
  assumes "heap_ok h i ps fs" "kmem_alloc h i = Some (h', o')" "o' \<noteq> 0"
  shows "\<exists>ps' fs'. heap_ok h' i ps' fs' \<and> o' \<in> live h' i (set ps' \<union> set fs') \<and> obj_size (caches h' ! i) = obj_size (caches h ! i)"
proof (cases "ps = []")
  case False
  from alloc_partial_live [OF assms(1) False] assms(2) show ?thesis by (metis insertI1 option.inject prod.inject)
next
  case True
  then have hy: "heap_ok h i [] fs" using assms(1) by simp
  then have null: "partial_slabs (caches h ! i) = 0" "free_slabs (caches h ! i) = 0" by (simp_all add: heap_ok_def cache_inv_def dll_def)
  then obtain h1 pa p ob where n: "new_slab h i = Some (h1, Some (pa, p, ob))" "adopt_slab h1 i pa p ob = Some (h', o')"
    using assms(2,3) by (auto simp: kmem_alloc_def bind_eq_Some_conv split: option.splits)
  from new_slab_adopt [OF hy n(1)] n(2) show ?thesis by (metis insertI1 option.inject prod.inject)
qed

lemma slot_mod_16:
  assumes "heap_ok h i ps fs" "o' \<in> live h i (set ps \<union> set fs)" "16 dvd obj_size (caches h ! i)"
  shows "unat o' mod 16 = 8"
proof -
  let ?c = "caches h ! i"
  have inv: "cache_inv h i ps fs" using assms(1) by (simp add: heap_ok_def)
  obtain p where p: "p \<in> set ps \<union> set fs" "o' \<in> slab_slots ?c p" using live_object [OF inv assms(2)] by blast
  then obtain k where k: "k < slots ?c" "o' = slot_addr ?c p k" by (auto simp: slab_slots_def)
  have "slab_ok h ?c p" by (rule heap_ok_slots(2) [OF assms(1) p(1)])
  then have "unat p + slab_bytes ?c < 2 ^ 64" by (rule slab_okE)
  then have u: "unat o' = unat p + SLAB_HEADER + k * obj_size ?c" using slot_addr_unat k by simp
  have "slab_owned (vphys (hvm h)) (slab_order ?c) p" and top: "unat (zone_top (vphys (hvm h))) < 2 ^ 47"
    using assms(1) p(1) by (auto simp: heap_ok_def)
  then have a: "4096 dvd unat (p - HIGHER_HALF)" "unat (p - HIGHER_HALF) < 2 ^ 47"
    by (auto simp: slab_owned_def block_in_def elim: dvd_mult_left)
  have "unat p = unat HIGHER_HALF + unat (p - HIGHER_HALF)" using higher_half_unat(2) [OF a(2)] by simp
  moreover have "(16 :: nat) dvd unat HIGHER_HALF" by (simp add: HIGHER_HALF_def)
  moreover have "16 dvd unat (p - HIGHER_HALF)" by (rule dvd_trans [OF _ a(1)]) simp
  ultimately have "16 dvd unat p" by (simp only: dvd_add)
  then have "16 dvd unat p + k * obj_size ?c" using assms(3) by simp
  then obtain j where "unat p + k * obj_size ?c = 16 * j" by (rule dvdE)
  then have "unat o' = 40 + 16 * j" unfolding u SLAB_HEADER_def by simp
  then show ?thesis by simp
qed

text \<open>\<^verbatim>\<open>kmalloc_aligned\<close> serves alignments up to 16 from the slab caches, but a slab starts with a
  40-byte header: when the object size is a multiple of 16, as in all nine classes, every object
  lies 8 bytes past a multiple of 16, so no request for 16-byte alignment is honoured.\<close>

theorem kmalloc_misaligned:
  assumes "heap_ok h i ps fs" "cache_index n = Some i" "align \<le> 16" "16 dvd obj_size (caches h ! i)"
    "kmalloc_aligned h n align = Some (h', o')" "o' \<noteq> 0"
  shows "unat o' mod 16 = 8"
proof -
  have "kmem_alloc h i = Some (h', o')" using assms(2,3,5) by (simp add: kmalloc_aligned_def)
  from kmem_alloc_live [OF assms(1) this assms(6)] slot_mod_16 assms(4) show ?thesis by metis
qed

lemma outside_slab:
  assumes "slab_owned z k p" "q \<in># free_mset z" "unat (zone_top z) < 2 ^ 47" "q = page_of a" "unat a < 2 ^ 47"
  shows "\<not> (unat p \<le> unat (HIGHER_HALF + a) \<and> unat (HIGHER_HALF + a) < unat p + 4096 * 2 ^ k)"
proof
  let ?b = "p - HIGHER_HALF"
  assume r: "unat p \<le> unat (HIGHER_HALF + a) \<and> unat (HIGHER_HALF + a) < unat p + 4096 * 2 ^ k"
  have "unat ?b < 2 ^ 47" and al: "4096 dvd unat ?b"
    using assms(1,3) by (auto simp: slab_owned_def block_in_def elim: dvd_mult_left)
  then have "unat p = unat HIGHER_HALF + unat ?b" using higher_half_unat(2) [of ?b] by simp
  with r higher_half_unat(2) [OF assms(5)] have ab: "unat ?b \<le> unat a" "unat a < unat ?b + 4096 * 2 ^ k" by simp_all
  then have "unat ?b div 4096 \<le> unat a div 4096" by (simp add: div_le_mono)
  moreover have "unat a div 4096 < unat ?b div 4096 + 2 ^ k"
  proof (rule div_less_iff_less_mult [THEN iffD2])
    have "unat ?b div 4096 * 4096 = unat ?b" using al by simp
    then show "unat a < (unat ?b div 4096 + 2 ^ k) * 4096" using ab(2) by (simp add: add_mult_distrib)
  qed simp
  ultimately have "q \<in># block_mset k ?b" using assms(4) by (simp add: block_mset_def page_of_def)
  then show False using assms(1,2) by (auto simp: slab_owned_def)
qed

lemma kmem_free_unknown:
  assumes "cache_inv h i ps fs"
    "\<forall>p\<in>set ps \<union> set fs. \<not> (unat p \<le> unat o' \<and> unat o' < unat p + slab_bytes (caches h ! i))"
  shows "kmem_free h i o' = Some h"
proof -
  let ?c = "caches h ! i"
  obtain l m where seg: "dseg (slabs h) 0 (partial_slabs ?c) ps l 0" "dseg (slabs h) 0 (full_slabs ?c) fs m 0"
    using assms(1) by (auto simp: cache_inv_def dll_def)
  have no: "slab_contains (the (slabs h p)) o' = Some False" if "p \<in> set ps \<union> set fs" for p
  proof -
    have "slab_ok h ?c p" using assms(1) that by (auto simp: cache_inv_def)
    then obtain s where "slabs h p = Some s" "slab_base s = p" "slab_ord s = slab_order ?c" "unat p + slab_bytes ?c < 2 ^ 64"
      by (rule slab_okE)
    moreover have "2 ^ slab_order ?c * unat PAGE_SIZE = slab_bytes ?c" by (simp add: slab_bytes_def PAGE_SIZE_def)
    ultimately show ?thesis using assms(2) that by (auto simp: slab_contains_def word_le_nat_alt)
  qed
  have none: "List.find (\<lambda>x. False) xs = None" for xs :: "u64 list" by (induction xs) simp_all
  have "find_slab_in h o' (partial_slabs ?c) = Some 0" "find_slab_in h o' (full_slabs ?c) = Some 0"
    using find_slab_in_dll [OF seg(1), where C = "\<lambda>_. False"] find_slab_in_dll [OF seg(2), where C = "\<lambda>_. False"] no
    by (simp_all add: none)
  then show ?thesis by (simp add: kmem_free_def find_slab_ptr_def)
qed

text \<open>A small allocation with an alignment above 16 comes straight from the page allocator, but
  \<^verbatim>\<open>kfree\<close> looks only at the size and searches the slabs of the cache: it finds nothing and returns
  with the state unchanged, so the pages of the block, free before, stay allocated.\<close>

theorem aligned_alloc_leaks:
  assumes "heap_ok h i ps fs" "cache_index n = Some i" "16 < align"
    "kmalloc_aligned h n align = Some (h', ptr)" "ptr \<noteq> 0"
  shows "\<exists>a. ptr = HIGHER_HALF + a \<and> page_of a \<in># free_mset (vphys (hvm h))
    \<and> kfree h' ptr n = Some h' \<and> page_of a \<notin># free_mset (vphys (hvm h'))"
proof -
  let ?z = "vphys (hvm h)" and ?c = "caches h ! i"
  have inv: "cache_inv h i ps fs" "phys_inv ?z" "unat (zone_top ?z) < 2 ^ 47"
    and own: "\<forall>p\<in>set ps \<union> set fs. slab_owned ?z (slab_order ?c) p" using assms(1) by (simp_all add: heap_ok_def)
  obtain k z a vb m pages where al: "k \<le> 10" "alloc_order ?z k = Some (z, Some a)" "checked_add HIGHER_HALF a = Some vb"
    "map_contiguous ((hvm h)\<lparr> vphys := z \<rparr>) (kernel_pml4 (hvm h)) vb a pages DATA = Some m" "h' = h\<lparr> hvm := m \<rparr>" "ptr = vb"
    using assms(3-5) by (auto simp: kmalloc_aligned_def alloc_direct_def bind_eq_Some_conv Let_def not_less split: if_splits option.splits)
  have alloc: "allocated ?z k z a"
    using alloc_order_correct [of ?z k] al(1,2) inv(2) by (auto simp: phys_inv_def alloc_post_def MAX_ORDER_def)
  then have st: "phys_step ?z z" "block_in ?z k a" and fm: "free_mset ?z = free_mset z + block_mset k a"
    by (simp_all add: allocated_def)
  have a: "unat a < 2 ^ 47" using st(2) inv(3) by (simp add: block_in_def)
  then have vb: "vb = HIGHER_HALF + a" using al(3) higher_half_unat(1) by simp
  have page: "page_of a \<in># block_mset k a" by (simp add: block_mset_def)
  then have free: "page_of a \<in># free_mset ?z" using fm by simp
  have "count (free_mset z + block_mset k a) (page_of a) \<le> 1" using inv(2) fm by (simp add: phys_inv_def)
  moreover have "0 < count (block_mset k a) (page_of a)" using page by simp
  ultimately have "page_of a \<notin># free_mset z" unfolding count_union not_in_iff by linarith
  moreover have "phys_inv z" by (rule phys_inv_take [OF inv(2) st(1)]) (simp add: fm)
  then have "free_mset (vphys m) \<subseteq># free_mset z"
    using shrinks_map_contiguous [OF al(4)] by (simp add: shrinks_def)
  ultimately have gone: "page_of a \<notin># free_mset (vphys (hvm h'))" using al(5) by (auto dest: mset_subset_eqD)
  have "\<forall>p\<in>set ps \<union> set fs. \<not> (unat p \<le> unat vb \<and> unat vb < unat p + slab_bytes ?c)"
    using outside_slab [OF _ free inv(3) refl a] own unfolding vb slab_bytes_def by blast
  then have "kmem_free h' i vb = Some h'" using kmem_free_unknown [of h' i ps fs vb] inv(1) al(5) by simp
  then have "kfree h' ptr n = Some h'" using assms(2) al(6) by (simp add: kfree_def)
  then show ?thesis using vb al(6) free gone by blast
qed

section \<open>A concrete heap\<close>

text \<open>The 1 KB cache with one partial slab at page \<open>0x100000\<close>: three slots, the last one free.\<close>

definition demo_slab :: u64 where "demo_slab = 0xFFFF800000100000"

definition demo_heap :: heap where
  "demo_heap = \<lparr> hvm = demo_vm\<lparr> vphys := demo_used, mem := (\<lambda>_. 0)(entry_addr 0x200000 256 := 0x201003,
       entry_addr 0x201000 0 := 0x202003, entry_addr 0x202000 0 := 0x203003) \<rparr>,
     slabs = (\<lambda>_. None)(demo_slab \<mapsto> \<lparr> free_head = demo_slab + 2088, slab_base = demo_slab, slab_next = 0,
       slab_prev = 0, slab_ord = 0, total_objs = 3, free_objs = 1 \<rparr>), words = (\<lambda>_. 0),
     caches = replicate 5 (new_const 32 0 126) @ [(new_const 1024 0 3)\<lparr> partial_slabs := demo_slab \<rparr>],
     heap_initialized = True \<rparr>"

lemma demo_heap_cache: "caches demo_heap ! 5 = (new_const 1024 0 3)\<lparr> partial_slabs := demo_slab \<rparr>"
  by (simp add: demo_heap_def nth_append)

lemma demo_heap_slots: "slots (caches demo_heap ! 5) = 3" "slab_bytes (caches demo_heap ! 5) = 4096"
  "slab_slots (caches demo_heap ! 5) demo_slab = {demo_slab + 40, demo_slab + 1064, demo_slab + 2088}"
proof -
  show b: "slab_bytes (caches demo_heap ! 5) = 4096" and n: "slots (caches demo_heap ! 5) = 3"
    by (simp_all add: demo_heap_cache slots_def slab_bytes_def new_const_def SLAB_HEADER_def)
  have "{..<3 :: nat} = {0, 1, 2}" by auto
  then show "slab_slots (caches demo_heap ! 5) demo_slab = {demo_slab + 40, demo_slab + 1064, demo_slab + 2088}"
    unfolding slab_slots_def n by (simp add: slot_addr_def demo_heap_cache new_const_def SLAB_HEADER_def)
qed

lemma demo_heap_free: "slab_free demo_heap demo_slab = [demo_slab + 2088]"
  by (simp add: slab_free_def demo_heap_def)

lemma demo_heap_inv: "cache_inv demo_heap 5 [demo_slab] []"
proof -
  have "slab_ok demo_heap (caches demo_heap ! 5) demo_slab"
    unfolding slab_ok_def demo_heap_slots demo_heap_free
    by (simp add: demo_heap_def demo_heap_cache new_const_def nth_append demo_slab_def)
  moreover have "dll (slabs demo_heap) demo_slab [demo_slab]" by (simp add: dll_def demo_heap_def demo_slab_def)
  moreover have "5 < length (caches demo_heap)" by (simp add: demo_heap_def)
  ultimately show ?thesis
    by (simp add: cache_inv_def cache_fit_def demo_heap_slots demo_heap_free apart_def)
      (simp add: demo_heap_cache new_const_def dll_null)
qed

lemma demo_heap_ok: "heap_ok demo_heap 5 [demo_slab] []"
proof -
  have z: "vphys (hvm demo_heap) = demo_used" by (simp add: demo_heap_def)
  have "block_in demo_used 0 0x100000" using demo_used_facts(2) by (simp add: block_in_def demo_used_def demo_zone_def)
  then have "slab_owned demo_used 0 demo_slab"
    by (simp add: slab_owned_def demo_slab_def HIGHER_HALF_def demo_used_facts(3) block_mset_def page_of_def)
  then show ?thesis using demo_heap_inv demo_used_facts(1)
    by (simp add: heap_ok_def z) (simp add: demo_heap_cache new_const_def demo_used_def demo_zone_def)
qed

lemma demo_heap_live: "live demo_heap 5 {demo_slab} = {demo_slab + 40, demo_slab + 1064}"
  by (auto simp: live_def demo_heap_slots free_in_def demo_heap_free)

lemma demo_heap_alloc: "\<exists>h'. kmem_alloc demo_heap 5 = Some (h', demo_slab + 2088)"
  by (simp add: kmem_alloc_def alloc_partial_def alloc_obj_def upd_slab_def slab_is_full_def demo_heap_cache new_const_def)
    (simp add: demo_heap_def demo_slab_def remove_partial_ptr_def unlink_slab_def push_full_ptr_def push_slab_def
      upd_slab_def set_cache_def nth_append new_const_def list_update_append)

theorem kmem_alloc_spec_witness:
  "\<exists>h' ps' fs'. kmem_alloc demo_heap 5 = Some (h', demo_slab + 2088) \<and> heap_ok h' 5 ps' fs'
    \<and> live h' 5 (set ps' \<union> set fs') = {demo_slab + 40, demo_slab + 1064, demo_slab + 2088}"
proof -
  have "demo_slab + 2088 \<noteq> 0" by (simp add: demo_slab_def)
  moreover obtain h' where r: "kmem_alloc demo_heap 5 = Some (h', demo_slab + 2088)" using demo_heap_alloc by blast
  ultimately obtain ps' fs' where "heap_ok h' 5 ps' fs'"
    "live h' 5 (set ps' \<union> set fs') = insert (demo_slab + 2088) (live demo_heap 5 (set [demo_slab] \<union> set []))"
    using kmem_alloc_spec [OF demo_heap_ok] by auto
  moreover have "insert (demo_slab + 2088) (live demo_heap 5 (set [demo_slab] \<union> set [])) = {demo_slab + 40, demo_slab + 1064, demo_slab + 2088}"
    unfolding list.set Un_empty_right demo_heap_live by blast
  ultimately show ?thesis using r by metis
qed

theorem kmem_free_spec_witness:
  "\<exists>h' ps' fs'. kmem_free demo_heap 5 (demo_slab + 40) = Some h' \<and> cache_inv h' 5 ps' fs'
    \<and> set ps' \<union> set fs' = {demo_slab} \<and> live h' 5 {demo_slab} = {demo_slab + 1064}"
proof -
  have "demo_slab + 40 \<in> live demo_heap 5 (set [demo_slab] \<union> set [])" by (simp add: demo_heap_live)
  from kmem_free_spec [OF demo_heap_inv this] obtain h' ps' fs' where
    "kmem_free demo_heap 5 (demo_slab + 40) = Some h'" "cache_inv h' 5 ps' fs'" "set ps' \<union> set fs' = {demo_slab}"
    "live h' 5 {demo_slab} = {demo_slab + 1064}"
    by (auto simp: demo_heap_live demo_heap_slots demo_heap_free split: option.splits)
  then show ?thesis by blast
qed

theorem cache_sizes_fit_witness:
  "let c = caches (heap_init (heap_boot demo_vm)) ! 7
   in cache_index 4096 = Some 7 \<and> 4096 \<le> obj_size c \<and> cache_fit c \<and> unat (objs_per_slab c) = slots c
     \<and> SLAB_HEADER + slots c * obj_size c \<le> slab_bytes c"
proof -
  have "\<not> heap_initialized (heap_boot demo_vm)" by (simp add: heap_boot_def)
  from cache_sizes_fit [OF this, of 4096] show ?thesis by (simp add: cache_index_def Let_def)
qed

theorem kmalloc_misaligned_witness:
  "\<exists>h'. kmalloc_aligned demo_heap 1000 16 = Some (h', demo_slab + 2088) \<and> unat (demo_slab + 2088) mod 16 = 8"
proof -
  obtain h' where r: "kmalloc_aligned demo_heap 1000 16 = Some (h', demo_slab + 2088)"
    using demo_heap_alloc by (auto simp: kmalloc_aligned_def cache_index_def)
  have "16 dvd obj_size (caches demo_heap ! 5)" by (simp add: demo_heap_cache new_const_def)
  from kmalloc_misaligned [OF demo_heap_ok _ _ this r] r show ?thesis by (simp add: cache_index_def demo_slab_def)
qed

lemma demo_heap_map:
  "\<exists>m. map_contiguous ((hvm demo_heap)\<lparr> vphys := z \<rparr>) 0x200000 0xFFFF800000107000 0x107000 1 DATA = Some m"
proof -
  have idx: "index_for_addr 0xFFFF800000107000 3 = 256" "index_for_addr 0xFFFF800000107000 2 = 0"
    "index_for_addr 0xFFFF800000107000 (Suc 0) = 0" "index_for_addr 0xFFFF800000107000 0 = 0x107"
    by (simp_all add: index_for_addr_def)
  have "\<exists>m. map_batch ((hvm demo_heap)\<lparr> vphys := z \<rparr>) 0x200000 0xFFFF800000107000 0x107000 (Suc 0) DATA = Some m"
    by (simp add: map_batch_def ensure_table_def ensure_present_def ensure_split_def idx or_entry_def write_word_def
        demo_heap_def demo_vm_def entry_addr_def flag_defs phys_to_virtual_def HIGHER_HALF_def DIRECT_MAP_SIZE_def
        PHYS_ADDR_MASK_def checked_add_def DATA_def Let_def)
  then obtain m where "map_batch ((hvm demo_heap)\<lparr> vphys := z \<rparr>) 0x200000 0xFFFF800000107000 0x107000 (Suc 0) DATA = Some m"
    by blast
  then show ?thesis
    by (simp add: map_contiguous_def checked_mul_def checked_add_def PAGE_SIZE_def phys_to_virtual_def HIGHER_HALF_def
      DIRECT_MAP_SIZE_def PHYS_ADDR_MASK_def map_contiguous_loop.simps idx Let_def)
qed

lemma demo_heap_direct: "\<exists>h'. kmalloc_aligned demo_heap 1000 64 = Some (h', 0xFFFF800000107000)"
proof -
  have one: "pages_of 1000 = Some (Suc 0)" "order_for (Suc 0) 0 = 0" by (simp_all add: pages_of_def order_for.simps)
  obtain z where z: "alloc_order (vphys (hvm demo_heap)) 0 = Some (z, Some 0x107000)"
    by (simp add: demo_heap_def alloc_order_def MAX_ORDER_def pop_block_def demo_used_def demo_zone_def)
  have root: "kernel_pml4 (hvm demo_heap) = 0x200000" by (simp add: demo_heap_def demo_vm_def)
  show ?thesis using one z demo_heap_map [of z] root
    by (auto simp: kmalloc_aligned_def alloc_direct_def checked_add_def HIGHER_HALF_def)
qed

theorem aligned_alloc_leaks_witness:
  "\<exists>h'. kmalloc_aligned demo_heap 1000 64 = Some (h', 0xFFFF800000107000)
    \<and> kfree h' 0xFFFF800000107000 1000 = Some h' \<and> 0x107 \<in># free_mset demo_used \<and> 0x107 \<notin># free_mset (vphys (hvm h'))"
proof -
  obtain h' where r: "kmalloc_aligned demo_heap 1000 64 = Some (h', 0xFFFF800000107000)" using demo_heap_direct by blast
  have "cache_index 1000 = Some 5" by (simp add: cache_index_def)
  from aligned_alloc_leaks [OF demo_heap_ok this _ r] obtain a where a: "0xFFFF800000107000 = HIGHER_HALF + a"
    "page_of a \<in># free_mset (vphys (hvm demo_heap))" "kfree h' 0xFFFF800000107000 1000 = Some h'"
    "page_of a \<notin># free_mset (vphys (hvm h'))" by auto
  have "a = 0xFFFF800000107000 - HIGHER_HALF" using a(1) by (simp add: algebra_simps)
  then have "a = 0x107000" by (simp add: HIGHER_HALF_def)
  then show ?thesis using r a by (simp add: page_of_def demo_heap_def)
qed

end
