(* ===== verification/Vcpu.thy ===== *)
theory Vcpu
  imports Vma Slot_Table
begin

text \<open>
  The vCPU slab of \<^verbatim>\<open>kernel/src/vcpu.rs\<close>: a table of 128 slots that holds the saved register frame,
  the scheduling state and the memory of every virtual CPU. Releasing a vCPU unmaps and frees its
  kernel stack and drops its \<^verbatim>\<open>ProcessMemory\<close>, so the state holds the page tables and the memory
  areas as well. The slab lock is not modelled: operations run one at a time.
\<close>

section \<open>Register frames\<close>

record trap_frame =
  r15 :: u64 r14 :: u64 r13 :: u64 r12 :: u64 r11 :: u64 r10 :: u64 r9 :: u64 r8 :: u64
  rax :: u64 rbx :: u64 rcx :: u64 rdx :: u64 rbp :: u64 rsi :: u64 rdi :: u64
  vector :: u64 error_code :: u64 rip :: u64 cs :: u64 rflags :: u64 rsp :: u64 ss :: u64

definition zero_frame :: trap_frame where
  "zero_frame = \<lparr> r15 = 0, r14 = 0, r13 = 0, r12 = 0, r11 = 0, r10 = 0, r9 = 0, r8 = 0,
     rax = 0, rbx = 0, rcx = 0, rdx = 0, rbp = 0, rsi = 0, rdi = 0, vector = 0, error_code = 0,
     rip = 0, cs = 0x08, rflags = 0x202, rsp = 0, ss = 0x10 \<rparr>"

type_synonym fpu_state = "u8 list"

definition FPU_STATE_INIT :: fpu_state where
  "FPU_STATE_INIT = (replicate 512 0)[0 := 0x7F, 1 := 0x03, 4 := 0xFF, 24 := 0x80, 25 := 0x1F, 28 := 0xFF, 29 := 0xFF]"

section \<open>The slab\<close>

definition GANG_UNSCHEDULED :: nat where "GANG_UNSCHEDULED = 0"
definition FRAME_MAGIC :: u64 where "FRAME_MAGIC = 0xDEADBEEFCAFEBABE"
definition MAX_VCPUS :: nat where "MAX_VCPUS = 128"
definition KERNEL_STACK_SIZE :: u64 where "KERNEL_STACK_SIZE = 16384"

datatype vcpu_state = Ready | Running | Halted | Blocked | Terminated | IdleState

datatype vcpu_type = Normal | HardwareDriver | AbstractionDriver | IdleType

record vcpu =
  vcpu_id :: nat
  gang_id :: nat
  vcpu_type :: vcpu_type
  vstate :: vcpu_state
  affinity :: u64
  saved_frame :: trap_frame
  frame_magic :: u64
  kstack_top :: u64
  vpml4 :: u64
  vruntime :: u64
  vfpu :: fpu_state
  process_mem :: u64

record vcpu_sys =
  kvma :: vma_sys
  procs :: "u64 \<Rightarrow> process_memory option"
  vcpus :: "vcpu option list"
  vcpu_total :: nat
  vcpu_ready :: bool

definition kvm :: "vcpu_sys \<Rightarrow> vm" where
  "kvm s = svm (kvma s)"

definition set_kvm :: "vcpu_sys \<Rightarrow> vm \<Rightarrow> vcpu_sys" where
  "set_kvm s m = s\<lparr> kvma := (kvma s)\<lparr> svm := m \<rparr> \<rparr>"

definition vcpu_init :: "vcpu_sys \<Rightarrow> vcpu_sys" where
  "vcpu_init s = s\<lparr> vcpu_total := 0, vcpu_ready := True \<rparr>"

definition vcpu_is_initialized :: "vcpu_sys \<Rightarrow> bool" where
  "vcpu_is_initialized s = vcpu_ready s"

definition new_vcpu :: "nat \<Rightarrow> u64 \<Rightarrow> u64 \<Rightarrow> vcpu_type \<Rightarrow> nat \<Rightarrow> vcpu" where
  "new_vcpu gang pml4 aff ty i = \<lparr> vcpu_id = i, gang_id = gang, vcpu_type = ty, vstate = Halted, affinity = aff,
     saved_frame = zero_frame, frame_magic = 0, kstack_top = 0, vpml4 = pml4, vruntime = 0,
     vfpu = FPU_STATE_INIT, process_mem = 0 \<rparr>"

definition vcpu_alloc :: "vcpu_sys \<Rightarrow> nat \<Rightarrow> u64 \<Rightarrow> u64 \<Rightarrow> vcpu_type \<Rightarrow> vcpu_sys \<times> nat option" where
  "vcpu_alloc s gang pml4 aff ty =
     (if MAX_VCPUS \<le> vcpu_total s then (s, None)
      else case find (\<lambda>i. vcpus s ! i = None) [0..<MAX_VCPUS] of
             None \<Rightarrow> (s, None)
           | Some i \<Rightarrow> (s\<lparr> vcpus := (vcpus s)[i := Some (new_vcpu gang pml4 aff ty i)], vcpu_total := vcpu_total s + 1 \<rparr>,
                         Some i))"

definition vcpu_get :: "vcpu_sys \<Rightarrow> nat \<Rightarrow> vcpu option" where
  "vcpu_get s i = (if i < MAX_VCPUS then vcpus s ! i else None)"

text \<open>\<^verbatim>\<open>with_mut\<close> with a closure that changes the vCPU if there is one.\<close>

definition upd_vcpu :: "vcpu_sys \<Rightarrow> nat \<Rightarrow> (vcpu \<Rightarrow> vcpu) \<Rightarrow> vcpu_sys" where
  "upd_vcpu s i f = (if i < MAX_VCPUS then s\<lparr> vcpus := (vcpus s)[i := map_option f (vcpus s ! i)] \<rparr> else s)"

definition get_vcpu_type :: "vcpu_sys \<Rightarrow> nat \<Rightarrow> vcpu_type" where
  "get_vcpu_type s i = (case vcpu_get s i of None \<Rightarrow> IdleType | Some v \<Rightarrow> vcpu_type v)"

definition vcpu_count :: "vcpu_sys \<Rightarrow> nat" where
  "vcpu_count s = vcpu_total s"

text \<open>\<^verbatim>\<open>with_process_mut\<close> aborts when the vCPU has no memory of its own.\<close>

definition with_process_mut :: "vcpu_sys \<Rightarrow> nat \<Rightarrow> (process_memory \<Rightarrow> process_memory \<times> 'r) \<Rightarrow> (vcpu_sys \<times> 'r) option" where
  "with_process_mut s i f = do {
     v \<leftarrow> vcpu_get s i;
     if process_mem v = 0 then None
     else do {
       pm \<leftarrow> procs s (process_mem v);
       (case f pm of (pm', r) \<Rightarrow> Some (s\<lparr> procs := (procs s)(process_mem v \<mapsto> pm') \<rparr>, r))
     }
   }"

section \<open>Release\<close>

text \<open>Clearing a mapping of the kernel stack.\<close>

definition clear_stack_pte :: "vm \<Rightarrow> u64 \<Rightarrow> u64 \<Rightarrow> vm option" where
  "clear_stack_pte m root addr = do {
     r \<leftarrow> read_pte m root addr;
     (case r of
        None \<Rightarrow> Some m
      | Some pte \<Rightarrow> if pte AND PRESENT \<noteq> 0 then do { (m', _) \<leftarrow> write_pte m root addr 0; Some m' } else Some m)
   }"

fun clear_stack_ptes :: "vm \<Rightarrow> u64 \<Rightarrow> u64 \<Rightarrow> nat list \<Rightarrow> vm option" where
  "clear_stack_ptes m root base [] = Some m"
| "clear_stack_ptes m root base (p # rest) = do {
     addr \<leftarrow> checked_add base (of_nat p * PAGE_SIZE);
     m' \<leftarrow> clear_stack_pte m root addr;
     clear_stack_ptes m' root base rest
   }"

definition STACK_PAGES :: nat where "STACK_PAGES = unat (KERNEL_STACK_SIZE div PAGE_SIZE)"

definition free_kernel_stack :: "vm \<Rightarrow> u64 \<Rightarrow> vm option" where
  "free_kernel_stack m stack_top = do {
     stack_virt_base \<leftarrow> checked_sub stack_top KERNEL_STACK_SIZE;
     p \<leftarrow> checked_sub stack_virt_base HIGHER_HALF;
     stack_phys \<leftarrow> checked_sub p PAGE_SIZE;
     guard_addr \<leftarrow> checked_sub stack_virt_base PAGE_SIZE;
     m1 \<leftarrow> clear_stack_pte m (kernel_pml4 m) guard_addr;
     m2 \<leftarrow> clear_stack_ptes m1 (kernel_pml4 m) stack_virt_base [0..<STACK_PAGES];
     stop \<leftarrow> checked_add stack_virt_base KERNEL_STACK_SIZE;
     m3 \<leftarrow> tlb_shootdown_range m2 guard_addr stop;
     z \<leftarrow> free_pages (vphys m3) stack_phys (of_nat (STACK_PAGES + 1));
     Some (m3\<lparr> vphys := z \<rparr>)
   }"

definition drop_process :: "vcpu_sys \<Rightarrow> u64 \<Rightarrow> vcpu_sys option" where
  "drop_process s p = do {
     pm \<leftarrow> procs s p;
     a \<leftarrow> vma_tree_drop (kvma s) (vma_tree pm);
     Some (s\<lparr> kvma := a, procs := (procs s)(p := None) \<rparr>)
   }"

definition vcpu_free :: "vcpu_sys \<Rightarrow> nat \<Rightarrow> vcpu_sys option" where
  "vcpu_free s i =
     (case vcpu_get s i of
        None \<Rightarrow> Some s
      | Some v \<Rightarrow> do {
          s1 \<leftarrow> (if vcpu_type v \<noteq> IdleType \<and> kstack_top v \<noteq> 0
                then do { m \<leftarrow> free_kernel_stack (kvm s) (kstack_top v); Some (set_kvm s m) }
                else Some s);
          s2 \<leftarrow> (if process_mem v \<noteq> 0 then drop_process s1 (process_mem v) else Some s1);
          Some (s2\<lparr> vcpus := (vcpus s2)[i := None], vcpu_total := vcpu_total s2 - 1 \<rparr>)
        })"

section \<open>The slab as a table\<close>

lemma vcpu_get_upd: "length (vcpus s) = MAX_VCPUS \<Longrightarrow>
    vcpu_get (upd_vcpu s i f) j = (if j = i then map_option f (vcpu_get s i) else vcpu_get s j)"
  by (auto simp: vcpu_get_def upd_vcpu_def)

lemma upd_vcpu_length [simp]: "length (vcpus (upd_vcpu s i f)) = length (vcpus s)"
  by (simp add: upd_vcpu_def)

definition slab_ok :: "vcpu_sys \<Rightarrow> bool" where
  "slab_ok s \<longleftrightarrow> length (vcpus s) = MAX_VCPUS \<and> vcpu_total s = live (vcpus s)"

text \<open>A vCPU without a stack and without memory of its own is released by clearing its slot.\<close>

definition drop_slot :: "nat \<Rightarrow> vcpu_sys \<Rightarrow> vcpu_sys" where
  "drop_slot i s = (if i < MAX_VCPUS \<and> vcpus s ! i \<noteq> None
     then s\<lparr> vcpus := (vcpus s)[i := None], vcpu_total := vcpu_total s - 1 \<rparr> else s)"

interpretation slab: slot_table vcpus vcpu_total MAX_VCPUS
  "\<lambda>(gang, pml4, aff, ty) s. vcpu_alloc s gang pml4 aff ty" "\<lambda>(gang, pml4, aff, ty). new_vcpu gang pml4 aff ty"
  drop_slot
  by unfold_locales (auto simp: vcpu_alloc_def drop_slot_def first_none_def)

lemma slab_ok_iff: "slab.ok s = slab_ok s"
  by (simp add: slab.ok_def slab_ok_def)

lemma vcpu_free_plain:
  assumes "\<And>v. vcpu_get s i = Some v \<Longrightarrow> (vcpu_type v = IdleType \<or> kstack_top v = 0) \<and> process_mem v = 0"
  shows "vcpu_free s i = Some (drop_slot i s)"
  using assms by (auto simp: vcpu_free_def drop_slot_def vcpu_get_def split: option.splits)

end
