(* ===== verification/Sched.thy ===== *)
theory Sched
  imports Vcpu
begin

text \<open>
  The gang scheduler, \<^verbatim>\<open>kernel/src/scheduler.rs\<close>: the gang table, creation of gangs and of
  driver gangs, the tick that saves the interrupted vCPU and picks the next one, blocking,
  waking and work stealing. The hardware a step reads is an argument: the interrupted frame
  and its address, the FPU image \<^verbatim>\<open>fxsave\<close> stores, whether interrupts are enabled and whether
  \<^verbatim>\<open>try_lock\<close> succeeds. A step runs under the gang lock, so steps are sequential.
\<close>

section \<open>The gang table\<close>

definition VRUNTIME_TICK :: u64 where "VRUNTIME_TICK = 20"
definition VRUNTIME_BIAS :: u64 where "VRUNTIME_BIAS = 8"
definition IRETQ_FRAME_SIZE :: u64 where "IRETQ_FRAME_SIZE = 24"
definition RFLAGS_IF :: u64 where "RFLAGS_IF = 0x202"
definition MAX_GANGS :: nat where "MAX_GANGS = 32"
definition MAX_VCPUS_PER_GANG :: nat where "MAX_VCPUS_PER_GANG = 8"
definition IPI_VECTOR :: u8 where "IPI_VECTOR = 0x81"

datatype gang_state = GActive | GHalted

record gang =
  gang_no :: nat
  gname :: "u8 list"
  symtab_phys :: u64
  symtab_size :: u64
  strtab_phys :: u64
  vcpu_ids :: "nat option list"
  gang_vcpus :: nat
  gvruntime :: u64
  running_count :: nat
  gstate :: gang_state

record sched =
  sk :: vcpu_sys
  gangs :: "gang option list"
  gang_count :: nat
  gang_ready :: bool
  rsp0 :: "u64 list"
  ipis :: "(u32 \<times> u8) list"

definition scpus :: "sched \<Rightarrow> cpu_table" where
  "scpus s = cpus (kvm (sk s))"

definition set_vm :: "sched \<Rightarrow> vm \<Rightarrow> sched" where
  "set_vm s m = s\<lparr> sk := set_kvm (sk s) m \<rparr>"

definition set_cpus :: "sched \<Rightarrow> cpu_table \<Rightarrow> sched" where
  "set_cpus s c = set_vm s ((kvm (sk s))\<lparr> cpus := c \<rparr>)"

definition svcpu :: "sched \<Rightarrow> nat \<Rightarrow> vcpu option" where
  "svcpu s i = vcpu_get (sk s) i"

definition with_mut :: "sched \<Rightarrow> nat \<Rightarrow> (vcpu \<Rightarrow> vcpu) \<Rightarrow> sched" where
  "with_mut s i f = s\<lparr> sk := upd_vcpu (sk s) i f \<rparr>"

definition set_gang :: "sched \<Rightarrow> nat \<Rightarrow> gang option \<Rightarrow> sched" where
  "set_gang s i g = s\<lparr> gangs := (gangs s)[i := g] \<rparr>"

text \<open>\<^verbatim>\<open>u32\<close> addition.\<close>

definition add32 :: "nat \<Rightarrow> nat \<Rightarrow> nat option" where
  "add32 a b = (if a + b < 2 ^ 32 then Some (a + b) else None)"

definition current_cpu_slot :: "sched \<Rightarrow> (sched \<times> nat) option" where
  "current_cpu_slot s = do {
     (c, slot) \<leftarrow> apic_id_to_slot (scpus s) (this_apic (kvm (sk s)));
     Some (set_cpus s c, slot)
   }"

definition sched_init :: "sched \<Rightarrow> sched" where
  "sched_init s = s\<lparr> gang_count := 0, gang_ready := True \<rparr>"

definition sched_is_initialized :: "sched \<Rightarrow> bool" where
  "sched_is_initialized s = gang_ready s"

definition idle_frame :: "u64 \<Rightarrow> u64 \<Rightarrow> trap_frame" where
  "idle_frame entry sp = zero_frame\<lparr> rip := entry, rsp := sp \<rparr>"

definition init_idle_vcpu :: "sched \<Rightarrow> u64 \<Rightarrow> u64 \<Rightarrow> sched option" where
  "init_idle_vcpu s idle_hlt_entry current_rsp = do {
     (s, cpu_slot) \<leftarrow> current_cpu_slot s;
     (k, r) \<leftarrow> Some (vcpu_alloc (sk s) GANG_UNSCHEDULED (current_pml4 (kvm (sk s))) (push_bit cpu_slot 1) IdleType);
     vid \<leftarrow> r;
     let s = with_mut (s\<lparr> sk := k \<rparr>) vid
               (\<lambda>v. v\<lparr> vstate := IdleState, saved_frame := idle_frame idle_hlt_entry current_rsp \<rparr>);
         c = set_cpu (scpus s) cpu_slot (kernel_stack_top_update (\<lambda>_. current_rsp));
         c = set_idle_vcpu c cpu_slot vid;
         c = set_current_vcpu c cpu_slot vid;
         c = set_task_count c cpu_slot 1
     in Some (set_cpus s c)
   }"

definition current_vcpu_id :: "sched \<Rightarrow> (sched \<times> nat) option" where
  "current_vcpu_id s = do {
     (s, cpu) \<leftarrow> current_cpu_slot s;
     Some (s, current_vcpu (scpus s) cpu mod 2 ^ 32)
   }"

definition sched_task_count :: "sched \<Rightarrow> nat" where
  "sched_task_count s = vcpu_count (sk s)"

definition cpu_task_count :: "sched \<Rightarrow> nat \<Rightarrow> u64" where
  "cpu_task_count s cpu = task_count (scpus s) (cpu mod MAX_CPUS)"

fun min_vruntime_from :: "gang option list \<Rightarrow> nat list \<Rightarrow> u64 \<Rightarrow> u64" where
  "min_vruntime_from gs [] m = m"
| "min_vruntime_from gs (i # rest) m = min_vruntime_from gs rest
     (case gs ! i of
        None \<Rightarrow> m
      | Some g \<Rightarrow> if gstate g = GActive \<and> gvruntime g < m then gvruntime g else m)"

definition min_gang_vruntime :: "sched \<Rightarrow> u64" where
  "min_gang_vruntime s =
     (let m = min_vruntime_from (gangs s) [0..<gang_count s] (- 1) in if m = - 1 then 0 else m)"

fun rq_push_all :: "sched \<Rightarrow> nat \<Rightarrow> nat list \<Rightarrow> sched option" where
  "rq_push_all s cpu [] = Some s"
| "rq_push_all s cpu (v # vs) = do {
     (q, _) \<leftarrow> rq_push (rq (scpus s) cpu) v;
     rq_push_all (set_cpus s (set_cpu (scpus s) (cpu mod MAX_CPUS) (run_queue_update (\<lambda>_. q)))) cpu vs
   }"

section \<open>Creating gangs\<close>

definition zero_bytes :: "vm \<Rightarrow> u64 \<Rightarrow> u64 \<Rightarrow> vm" where
  "zero_bytes m a n = m\<lparr> mem := (\<lambda>x. if x - a < n then 0 else mem m x) \<rparr>"

definition user_frame :: "u64 \<Rightarrow> u64 \<Rightarrow> u64 \<Rightarrow> trap_frame" where
  "user_frame entry arg sp = zero_frame\<lparr> rdi := arg, rip := entry, cs := 0x1B, rflags := RFLAGS_IF, rsp := sp, ss := 0x23 \<rparr>"

fun free_vcpus :: "sched \<Rightarrow> nat option list \<Rightarrow> sched option" where
  "free_vcpus s [] = Some s"
| "free_vcpus s (None # rest) = free_vcpus s rest"
| "free_vcpus s (Some v # rest) = do { k \<leftarrow> vcpu_free (sk s) v; free_vcpus (s\<lparr> sk := k \<rparr>) rest }"

text \<open>The stack of a new vCPU. Its memory is addressed through the higher half, where virtual
  address \<open>HIGHER_HALF + a\<close> is physical address \<open>a\<close>.\<close>

definition gang_stack :: "vm \<Rightarrow> u64 \<Rightarrow> u64 \<Rightarrow> (vm \<times> u64) option" where
  "gang_stack m pages entry = do {
     alloc_base \<leftarrow> checked_add HIGHER_HALF pages;
     stack_base \<leftarrow> checked_add alloc_base PAGE_SIZE;
     stack_top \<leftarrow> checked_add stack_base KERNEL_STACK_SIZE;
     let m1 = zero_bytes m (stack_base - HIGHER_HALF) KERNEL_STACK_SIZE;
     m2 \<leftarrow> map_contiguous m1 (kernel_pml4 m1) stack_base (pages + PAGE_SIZE) 2 DATA;
     let f = stack_top - IRETQ_FRAME_SIZE - HIGHER_HALF;
     let m3 = write_word (write_word (write_word m2 f entry) (f + 8) 0x1B) (f + 16) RFLAGS_IF;
     Some (m3, stack_top)
   }"

text \<open>Vcpu \<open>i\<close> of the gang; \<open>Inr\<close> carries its id, \<open>Inl\<close> means that creation failed and has
  been undone.\<close>

definition create_gang_vcpu :: "sched \<Rightarrow> nat \<Rightarrow> u64 \<Rightarrow> u64 \<Rightarrow> nat option list \<Rightarrow> (sched \<times> (unit + nat)) option" where
  "create_gang_vcpu s g entry arg ids =
     (case vcpu_alloc (sk s) g (kernel_pml4 (kvm (sk s))) (- 1) Normal of
        (k, None) \<Rightarrow> do { s1 \<leftarrow> free_vcpus (s\<lparr> sk := k \<rparr>) ids; Some (s1, Inl ()) }
      | (k, Some vid) \<Rightarrow> do {
          let m = kvm k;
          (z, r) \<leftarrow> alloc_pages (vphys m) 3;
          let s1 = set_vm (s\<lparr> sk := k \<rparr>) (m\<lparr> vphys := z \<rparr>);
          (case r of
             None \<Rightarrow> do { s2 \<leftarrow> free_vcpus s1 (Some vid # ids); Some (s2, Inl ()) }
           | Some pages \<Rightarrow> do {
               (m2, stack_top) \<leftarrow> gang_stack (kvm (sk s1)) pages entry;
               let s2 = set_vm s1 m2;
               let frame = user_frame entry arg (stack_top - IRETQ_FRAME_SIZE);
               let s3 = with_mut s2 vid (\<lambda>v. v\<lparr> vstate := Ready, saved_frame := frame, kstack_top := stack_top,
                          vpml4 := kernel_pml4 m2, gang_id := g \<rparr>);
               Some (s3, Inr vid)
             })
        })"

fun create_gang_loop :: "nat \<Rightarrow> sched \<Rightarrow> nat \<Rightarrow> u64 \<Rightarrow> u64 \<Rightarrow> nat option list \<Rightarrow> (sched \<times> nat option list option) option" where
  "create_gang_loop 0 s g entry arg ids = Some (s, Some ids)"
| "create_gang_loop (Suc n) s g entry arg ids = do {
     (s1, r) \<leftarrow> create_gang_vcpu s g entry arg ids;
     (case r of
        Inl _ \<Rightarrow> Some (s1, None)
      | Inr vid \<Rightarrow> create_gang_loop n s1 g entry arg (ids @ [Some vid]))
   }"

definition pad32 :: "u8 list \<Rightarrow> u8 list" where
  "pad32 name = take 32 name @ replicate (32 - length (take 32 name)) 0"

definition create_gang :: "sched \<Rightarrow> nat \<Rightarrow> u64 \<Rightarrow> u64 \<Rightarrow> u8 list \<Rightarrow> (u64 \<times> u64 \<times> u64) option
    \<Rightarrow> (sched \<times> nat option) option" where
  "create_gang s n_vcpus entry arg name syms =
     (let s = (if gang_count s = 0 then s\<lparr> gang_count := 1 \<rparr> else s) in
      if MAX_GANGS \<le> gang_count s then Some (s, None)
      else
        let g = gang_count s;
            (sym, symsz, str) = (case syms of None \<Rightarrow> (0, 0, 0) | Some t \<Rightarrow> t);
            n = min n_vcpus MAX_VCPUS_PER_GANG
        in do {
          (s1, r) \<leftarrow> create_gang_loop n s g entry arg [];
          (case r of
             None \<Rightarrow> Some (s1, None)
           | Some ids \<Rightarrow> do {
               let best_cpu = find_least_loaded (scpus s1);
               s2 \<leftarrow> rq_push_all s1 best_cpu (map the ids);
               let s3 = set_cpus s2 (add_task_count (scpus s2) best_cpu (int n));
               let new = \<lparr> gang_no = g, gname = pad32 name, symtab_phys = sym, symtab_size = symsz, strtab_phys = str,
                           vcpu_ids = ids @ replicate (MAX_VCPUS_PER_GANG - n) None, gang_vcpus = n_vcpus,
                           gvruntime = saturating_sub (min_gang_vruntime s3) (VRUNTIME_BIAS * of_nat n_vcpus),
                           running_count = 0, gstate = GActive \<rparr>;
               Some ((set_gang s3 g (Some new))\<lparr> gang_count := g + 1 \<rparr>, Some g)
             })
        })"

fun unmap_stack :: "vm \<Rightarrow> u64 \<Rightarrow> nat list \<Rightarrow> vm option" where
  "unmap_stack m base [] = Some m"
| "unmap_stack m base (p # rest) = do {
     a \<leftarrow> checked_add base (of_nat p * PAGE_SIZE);
     m' \<leftarrow> unmap m a;
     unmap_stack m' base rest
   }"

definition driver_gang_name :: "u8 list" where
  "driver_gang_name = map (\<lambda>c. of_nat (of_char c)) ''driver_vcpu'' @ replicate 21 0x20"

definition driver_gang :: "nat \<Rightarrow> nat \<Rightarrow> gang" where
  "driver_gang g vid = \<lparr> gang_no = g, gname = driver_gang_name, symtab_phys = 0, symtab_size = 0, strtab_phys = 0,
     vcpu_ids = Some vid # replicate (MAX_VCPUS_PER_GANG - 1) None, gang_vcpus = 1, gvruntime = 0,
     running_count = 0, gstate = GActive \<rparr>"

definition register_driver_vcpu :: "sched \<Rightarrow> nat \<Rightarrow> (sched \<times> bool) option" where
  "register_driver_vcpu s vid = do {
     let m = kvm (sk s);
     (z, r) \<leftarrow> alloc_pages (vphys m) (of_nat (STACK_PAGES + 1));
     let s1 = set_vm s (m\<lparr> vphys := z \<rparr>);
     (case r of
        None \<Rightarrow> Some (s1, False)
      | Some pages \<Rightarrow> do {
          alloc_base \<leftarrow> checked_add HIGHER_HALF pages;
          stack_base \<leftarrow> checked_add alloc_base PAGE_SIZE;
          stack_top \<leftarrow> checked_add stack_base KERNEL_STACK_SIZE;
          let m1 = kvm (sk s1);
          m2 \<leftarrow> map_contiguous m1 (kernel_pml4 m1) stack_base (pages + PAGE_SIZE) (of_nat STACK_PAGES) DATA;
          let m3 = zero_bytes m2 (stack_base - HIGHER_HALF) KERNEL_STACK_SIZE;
          let s2 = set_vm s1 m3;
          let s3 = (if gang_count s2 = 0 then s2\<lparr> gang_count := 1 \<rparr> else s2);
          if MAX_GANGS \<le> gang_count s3 then do {
            m4 \<leftarrow> unmap_stack m3 alloc_base [0..<STACK_PAGES + 1];
            z4 \<leftarrow> free_pages (vphys m4) pages (of_nat (STACK_PAGES + 1));
            Some (set_vm s3 (m4\<lparr> vphys := z4 \<rparr>), False)
          } else
            let g = gang_count s3;
                s4 = with_mut s3 vid (\<lambda>v. v\<lparr> kstack_top := stack_top, gang_id := g \<rparr>)
            in Some ((set_gang s4 g (Some (driver_gang g vid)))\<lparr> gang_count := g + 1 \<rparr>, True)
        })
   }"

section \<open>The scheduling step\<close>

text \<open>Step 0: vCPUs that are \<^verbatim>\<open>Terminated\<close> and still listed in a gang are freed; empty gangs go.\<close>

definition slot_terminated :: "sched \<Rightarrow> nat \<Rightarrow> bool \<times> u64" where
  "slot_terminated s vid = (case svcpu s vid of None \<Rightarrow> (False, 0) | Some v \<Rightarrow> (vstate v = Terminated, vpml4 v))"

definition clean_slot :: "sched \<Rightarrow> nat \<Rightarrow> nat \<Rightarrow> gang \<Rightarrow> nat \<Rightarrow> u64 \<Rightarrow> sched option" where
  "clean_slot s i k g vid pml4 = do {
     let s1 = set_gang s i (Some (g\<lparr> vcpu_ids := (vcpu_ids g)[k := None], gang_vcpus := gang_vcpus g - 1 \<rparr>));
     kk \<leftarrow> vcpu_free (sk s1) vid;
     let s2 = s1\<lparr> sk := kk \<rparr>;
     (if pml4 \<noteq> 0 then do { m \<leftarrow> free_pml4 (kvm kk) pml4; Some (set_vm s2 m) } else Some s2)
   }"

fun clean_slots :: "sched \<Rightarrow> nat \<Rightarrow> nat list \<Rightarrow> bool \<Rightarrow> (sched \<times> bool) option" where
  "clean_slots s i [] all_empty = Some (s, all_empty)"
| "clean_slots s i (k # ks) all_empty =
     (case gangs s ! i of
        None \<Rightarrow> Some (s, all_empty)
      | Some g \<Rightarrow>
          (case vcpu_ids g ! k of
             None \<Rightarrow> clean_slots s i ks all_empty
           | Some vid \<Rightarrow>
               (case slot_terminated s vid of
                  (True, pml4) \<Rightarrow> do { s1 \<leftarrow> clean_slot s i k g vid pml4; clean_slots s1 i ks all_empty }
                | (False, _) \<Rightarrow> clean_slots s i ks False)))"

fun clean_gangs :: "sched \<Rightarrow> nat list \<Rightarrow> sched option" where
  "clean_gangs s [] = Some s"
| "clean_gangs s (i # rest) = do {
     (s1, all_empty) \<leftarrow> clean_slots s i [0..<MAX_VCPUS_PER_GANG] True;
     clean_gangs (if all_empty then set_gang s1 i None else s1) rest
   }"

text \<open>Step 1: the interrupted vCPU.\<close>

definition save_frame :: "trap_frame \<Rightarrow> u64 \<Rightarrow> trap_frame option" where
  "save_frame frame frame_addr =
     (if cs frame AND 3 \<noteq> 0 then Some frame
      else do { sp \<leftarrow> checked_add frame_addr 160; Some (frame\<lparr> rsp := sp, ss := 0x10 \<rparr>) })"

definition charge_gang :: "gang \<Rightarrow> gang" where
  "charge_gang g = g\<lparr> gvruntime := saturating_add (gvruntime g) (VRUNTIME_TICK * 100 div of_nat (max (gang_vcpus g) 1)),
     running_count := running_count g - 1 \<rparr>"

definition save_current :: "sched \<Rightarrow> nat \<Rightarrow> trap_frame \<Rightarrow> u64 \<Rightarrow> fpu_state \<Rightarrow> sched option" where
  "save_current s cur frame frame_addr fx =
     (case svcpu s cur of
        None \<Rightarrow> Some s
      | Some v \<Rightarrow> do {
          saved \<leftarrow> save_frame frame frame_addr;
          let s1 = with_mut s cur (\<lambda>v. v\<lparr> saved_frame := saved, frame_magic := FRAME_MAGIC, vfpu := fx \<rparr>);
          (if vstate v = Halted then Some s1
           else if 0 < gang_id v \<and> gang_id v < MAX_GANGS then
             (case gangs s ! gang_id v of
                None \<Rightarrow> Some s1
              | Some g \<Rightarrow>
                  Some (set_gang
                    (with_mut s1 cur (\<lambda>v. v\<lparr> vruntime := saturating_add (vruntime v) VRUNTIME_TICK, vstate := Ready \<rparr>))
                    (gang_id v) (Some (charge_gang g))))
           else Some s1)
        })"

text \<open>Step 2: the active gang of smallest virtual runtime that has a vCPU to run.\<close>

definition gang_demand :: "gang \<Rightarrow> nat" where
  "gang_demand g = gang_vcpus g - running_count g"

fun best_gang_from :: "gang option list \<Rightarrow> nat list \<Rightarrow> nat option \<times> u64 \<Rightarrow> nat option \<times> u64" where
  "best_gang_from gs [] acc = acc"
| "best_gang_from gs (i # rest) (best, best_v) = best_gang_from gs rest
     (case gs ! i of
        None \<Rightarrow> (best, best_v)
      | Some g \<Rightarrow> if gstate g \<noteq> GActive then (best, best_v)
                  else if 0 < gang_demand g \<and> gvruntime g < best_v then (Some i, gvruntime g)
                  else (best, best_v))"

definition best_gang :: "sched \<Rightarrow> nat option" where
  "best_gang s = fst (best_gang_from (gangs s) [1..<gang_count s] (None, - 1))"

text \<open>Step 3: how many vCPUs of the gang this CPU takes.\<close>

definition count_free_cores :: "sched \<Rightarrow> nat" where
  "count_free_cores s = length (filter (\<lambda>cpu. online (percpu (scpus s) ! cpu)
      \<and> cur_vcpu (percpu (scpus s) ! cpu) mod 2 ^ 32 = idle_vcpu (scpus s) cpu) [0..<MAX_CPUS])"

definition per_core_share :: "nat \<Rightarrow> nat \<Rightarrow> nat option" where
  "per_core_share free_cores demand =
     (if demand \<le> free_cores then Some 1
      else if 0 < free_cores then do { t \<leftarrow> add32 demand free_cores; Some ((t - 1) div free_cores) }
      else Some 1)"

text \<open>Step 4: the ready vCPU of smallest virtual runtime.\<close>

fun pick_from :: "sched \<Rightarrow> nat option list \<Rightarrow> nat option \<times> u64 \<Rightarrow> nat option \<times> u64" where
  "pick_from s [] acc = acc"
| "pick_from s (slot # rest) (best, best_v) = pick_from s rest
     (case slot of
        None \<Rightarrow> (best, best_v)
      | Some vid \<Rightarrow>
          (case svcpu s vid of
             None \<Rightarrow> (best, best_v)
           | Some v \<Rightarrow> if vstate v = Ready \<and> vruntime v < best_v then (Some vid, vruntime v) else (best, best_v)))"

definition pick_vcpu :: "sched \<Rightarrow> gang \<Rightarrow> nat option" where
  "pick_vcpu s g = fst (pick_from s (vcpu_ids g) (None, - 1))"

definition inc_running :: "sched \<Rightarrow> nat \<Rightarrow> sched option" where
  "inc_running s i = do {
     g \<leftarrow> gangs s ! i;
     n \<leftarrow> add32 (running_count g) 1;
     Some (set_gang s i (Some (g\<lparr> running_count := n \<rparr>)))
   }"

text \<open>Step 5: further vCPUs for this CPU's queue.\<close>

fun push_extra :: "nat \<Rightarrow> sched \<Rightarrow> nat \<Rightarrow> nat \<Rightarrow> sched option" where
  "push_extra 0 s cpu i = Some s"
| "push_extra (Suc n) s cpu i = do {
     g \<leftarrow> gangs s ! i;
     (case pick_vcpu s g of
        None \<Rightarrow> push_extra n s cpu i
      | Some eid \<Rightarrow> do {
          s1 \<leftarrow> inc_running s i;
          s2 \<leftarrow> rq_push_all s1 cpu [eid];
          push_extra n s2 cpu i
        })
   }"

definition emulate :: "sched \<Rightarrow> nat \<Rightarrow> nat \<Rightarrow> nat \<Rightarrow> sched option" where
  "emulate s cpu i per_core =
     (if 1 < per_core then do {
        g \<leftarrow> gangs s ! i;
        push_extra (min (per_core - 1) (gang_demand g)) s cpu i
      } else Some s)"

text \<open>Step 6: loading and checking the chosen vCPU.\<close>

definition rip_canonical :: "u64 \<Rightarrow> bool" where
  "rip_canonical a \<longleftrightarrow> signed_drop_bit 47 a = - 1 \<or> drop_bit 47 a = 0"

definition frame_ok :: "trap_frame \<Rightarrow> bool" where
  "frame_ok f \<longleftrightarrow> rsp f \<noteq> 0 \<and> (cs f AND 3 = 3 \<or> cs f AND 3 = 0) \<and> (cs f = 0x08 \<or> cs f = 0x1B)
     \<and> (rip f \<noteq> 0 \<longrightarrow> rip_canonical (rip f))"

definition fix_ss :: "trap_frame \<Rightarrow> trap_frame" where
  "fix_ss f =
     (let f1 = (if cs f AND 3 = 3 \<and> ss f \<noteq> 0x23 \<and> ss f \<noteq> 0x2B then f\<lparr> ss := 0x23 \<rparr> else f)
      in if cs f AND 3 = 0 \<and> ss f1 \<noteq> 0x10 \<and> ss f1 \<noteq> 0x18 then f1\<lparr> ss := 0x10 \<rparr> else f1)"

definition MAX_PML4_PHYS :: u64 where "MAX_PML4_PHYS = 0x100000000"

record sched_out =
  os :: sched
  oframe :: trap_frame
  ofpu :: fpu_state
  switched :: bool
  next_pml4 :: u64

definition go_idle :: "sched \<Rightarrow> nat \<Rightarrow> trap_frame \<Rightarrow> fpu_state \<Rightarrow> sched_out" where
  "go_idle s cpu frame fpu_out =
     \<lparr> os = set_cpus s (set_current_vcpu (scpus s) cpu (idle_vcpu (scpus s) cpu)), oframe = frame, ofpu = fpu_out,
       switched = False, next_pml4 = 0 \<rparr>"

definition set_stack_top :: "sched \<Rightarrow> nat \<Rightarrow> u64 \<Rightarrow> sched" where
  "set_stack_top s cpu st =
     (if st \<noteq> 0 then
        (set_cpus s (set_cpu (scpus s) (cpu mod MAX_CPUS) (kernel_stack_top_update (\<lambda>_. st))))
          \<lparr> rsp0 := (rsp0 s)[cpu mod MAX_CPUS := st] \<rparr>
      else s)"

definition load_next :: "sched \<Rightarrow> nat \<Rightarrow> nat \<Rightarrow> trap_frame \<Rightarrow> fpu_state \<Rightarrow> sched_out" where
  "load_next s cpu vid frame fpu_out =
     (case svcpu s vid of
        None \<Rightarrow> go_idle s cpu frame fpu_out
      | Some v \<Rightarrow>
          let s1 = with_mut s vid (\<lambda>v. v\<lparr> vstate := Running, frame_magic := 0 \<rparr>);
              f = saved_frame v
          in if vcpu_type v \<noteq> IdleType \<and> frame_magic v \<noteq> FRAME_MAGIC then go_idle s1 cpu f (vfpu v)
             else if vcpu_type v \<noteq> IdleType \<and> \<not> frame_ok f then go_idle s1 cpu f (vfpu v)
             else
               let f1 = (if vcpu_type v \<noteq> IdleType then fix_ss f else f);
                   s2 = set_cpus s1 (set_current_vcpu (scpus s1) cpu vid);
                   need_switch = (vpml4 v \<noteq> current_pml4 (kvm (sk s2)) \<and> vpml4 v \<noteq> 0);
                   s3 = set_stack_top s2 cpu (kstack_top v)
               in if need_switch \<and> (MAX_PML4_PHYS \<le> vpml4 v \<or> vpml4 v = 0) then go_idle s3 cpu f1 (vfpu v)
                  else \<lparr> os = s3, oframe = f1, ofpu = vfpu v, switched = True,
                         next_pml4 = (if need_switch then vpml4 v else 0) \<rparr>)"

definition dispatch :: "sched \<Rightarrow> nat \<Rightarrow> trap_frame \<Rightarrow> fpu_state \<Rightarrow> sched_out option" where
  "dispatch s cpu frame fpu_out =
     (case best_gang s of
        None \<Rightarrow> Some (go_idle s cpu frame fpu_out)
      | Some i \<Rightarrow>
          (case gangs s ! i of
             None \<Rightarrow> Some (go_idle s cpu frame fpu_out)
           | Some g \<Rightarrow> do {
               per_core \<leftarrow> per_core_share (count_free_cores s) (gang_demand g);
               (case pick_vcpu s g of
                  None \<Rightarrow> Some (go_idle s cpu frame fpu_out)
                | Some vid \<Rightarrow> do {
                    s1 \<leftarrow> inc_running s i;
                    s2 \<leftarrow> emulate s1 cpu i per_core;
                    Some (load_next s2 cpu vid frame fpu_out)
                  })
             }))"

definition schedule_inner :: "sched \<Rightarrow> nat \<Rightarrow> trap_frame \<Rightarrow> u64 \<Rightarrow> fpu_state \<Rightarrow> fpu_state \<Rightarrow> sched_out option" where
  "schedule_inner s cpu frame frame_addr fx fpu_out =
     (if gang_count s < 1
      then Some \<lparr> os = s, oframe = frame, ofpu = fpu_out, switched = False, next_pml4 = 0 \<rparr>
      else do {
        s1 \<leftarrow> clean_gangs s [1..<gang_count s];
        let cur = current_vcpu (scpus s1) cpu mod 2 ^ 32;
        s2 \<leftarrow> (if cur \<noteq> idle_vcpu (scpus s1) cpu then save_current s1 cur frame frame_addr fx else Some s1);
        dispatch s2 cpu frame fpu_out
      })"

definition schedule :: "sched \<Rightarrow> trap_frame \<Rightarrow> u64 \<Rightarrow> fpu_state \<Rightarrow> fpu_state \<Rightarrow> sched_out option" where
  "schedule s frame frame_addr fx fpu_out = do {
     (s1, cpu) \<leftarrow> current_cpu_slot s;
     schedule_inner s1 cpu frame frame_addr fx fpu_out
   }"

section \<open>Blocking, waking, stealing\<close>

text \<open>\<^verbatim>\<open>fninit\<close> on an \<^verbatim>\<open>fxsave\<close> image: the default control word, every other x87 control
  field zero; the registers' bytes and the SSE state stay.\<close>

definition fninit :: "fpu_state \<Rightarrow> fpu_state" where
  "fninit f = [0x7F, 0x03] @ replicate 22 0 @ drop 24 f"

definition halt_current :: "sched \<Rightarrow> nat \<Rightarrow> sched" where
  "halt_current s cur =
     (case svcpu s cur of
        None \<Rightarrow> s
      | Some v \<Rightarrow>
          let s1 = with_mut s cur (\<lambda>v. v\<lparr> vstate := Halted \<rparr>)
          in if 0 < gang_id v \<and> gang_id v < MAX_GANGS then
               (case gangs s1 ! gang_id v of
                  None \<Rightarrow> s1
                | Some g \<Rightarrow> set_gang s1 (gang_id v) (Some (g\<lparr> running_count := running_count g - 1 \<rparr>)))
             else s1)"

text \<open>The result: the state, and whether \<^verbatim>\<open>context_switch\<close> left for another vCPU (with its
  frame and FPU image) or the call returned to its caller with the given frame.\<close>

datatype block_result = Returned trap_frame | SwitchedTo trap_frame fpu_state

definition block_current :: "sched \<Rightarrow> trap_frame \<Rightarrow> u64 \<Rightarrow> fpu_state \<Rightarrow> (sched \<times> block_result) option" where
  "block_current s frame frame_addr hw = do {
     (s1, cpu) \<leftarrow> current_cpu_slot s;
     let cur = current_vcpu (scpus s1) cpu mod 2 ^ 32;
     (if cur = idle_vcpu (scpus s1) cpu then Some (s1, Returned frame)
      else do {
        let s2 = halt_current s1 cur;
        let fx = fninit hw;
        r \<leftarrow> schedule_inner s2 cpu frame frame_addr fx fx;
        (if \<not> switched r then Some (os r, Returned (oframe r))
         else
           let m = kvm (sk (os r));
               m' = (if next_pml4 r \<noteq> 0 then m\<lparr> cr3 := next_pml4 r \<rparr> else m)
           in Some (set_vm (os r) m', SwitchedTo (oframe r) (ofpu r)))
      })
   }"

definition send_ipi :: "sched \<Rightarrow> u32 \<Rightarrow> u8 \<Rightarrow> sched" where
  "send_ipi s apic vec = s\<lparr> ipis := ipis s @ [(apic, vec)] \<rparr>"

definition notify_cpu :: "sched \<Rightarrow> nat \<Rightarrow> sched" where
  "notify_cpu s target =
     (if is_online (scpus s) target then
        send_ipi (set_cpus s (set_cpu (scpus s) target (need_resched_update (\<lambda>_. True))))
          (apic_id (percpu (scpus s) ! target)) IPI_VECTOR
      else s)"

definition enqueue_woken :: "sched \<Rightarrow> nat \<Rightarrow> sched option" where
  "enqueue_woken s vid =
     (let target = find_least_loaded (scpus s) in
      if MAX_CPUS \<le> target then Some s
      else do {
        s1 \<leftarrow> rq_push_all s target [vid];
        Some (notify_cpu (set_cpus s1 (add_task_count (scpus s1) target 1)) target)
      })"

definition wake :: "sched \<Rightarrow> u64 \<Rightarrow> sched option" where
  "wake s vid64 = do {
     (s, _) \<leftarrow> current_cpu_slot s;
     let vid = unat vid64 mod 2 ^ 32;
     (case svcpu s vid of
        None \<Rightarrow> Some s
      | Some v \<Rightarrow>
          if vstate v = Halted
          then enqueue_woken (with_mut s vid (\<lambda>v. v\<lparr> vstate := Ready, vruntime := 0 \<rparr>)) vid
          else Some s)
   }"

fun fattest_from :: "cpu_table \<Rightarrow> nat \<Rightarrow> nat list \<Rightarrow> nat option \<times> u64 \<Rightarrow> nat option \<times> u64" where
  "fattest_from c hungry [] acc = acc"
| "fattest_from c hungry (cpu # rest) (best, n) = fattest_from c hungry rest
     (if cpu = hungry then (best, n)
      else let cnt = task_count c cpu in if n < cnt \<and> 2 \<le> cnt then (Some cpu, cnt) else (best, n))"

definition steal_task :: "sched \<Rightarrow> nat \<Rightarrow> bool \<Rightarrow> bool \<Rightarrow> (sched \<times> bool) option" where
  "steal_task s hungry interrupts_enabled lock_free =
     (if \<not> interrupts_enabled then Some (s, False)
      else if \<not> lock_free then Some (s, False)
      else case fst (fattest_from (scpus s) hungry [0..<MAX_CPUS] (None, 0)) of
             None \<Rightarrow> Some (s, False)
           | Some source \<Rightarrow>
               (case rq_pop (rq (scpus s) source) of
                  (q, None) \<Rightarrow> Some (s, False)
                | (q, Some stolen) \<Rightarrow> do {
                    let s1 = set_cpus s (set_cpu (scpus s) (source mod MAX_CPUS) (run_queue_update (\<lambda>_. q)));
                    s2 \<leftarrow> rq_push_all s1 hungry [stolen mod 2 ^ 32];
                    Some (set_cpus s2 (add_task_count (add_task_count (scpus s2) source (- 1)) hungry 1), True)
                  }))"

definition get_gang_id :: "sched \<Rightarrow> nat \<Rightarrow> nat" where
  "get_gang_id s vid = (case svcpu s vid of None \<Rightarrow> 0xFFFF | Some v \<Rightarrow> gang_id v)"

end
