(* ===== verification/Elf.thy ===== *)
theory Elf
  imports Vma
begin

text \<open>
  The ELF loader, \<^verbatim>\<open>kernel/src/exec.rs\<close>: header checks, the two passes over the program headers,
  the symbol and string tables and the initial stack. The binary is its list of bytes. Results are
  a state with an error or a value; the outer \<open>None\<close> is an abort. The addresses at which the global
  allocator places the boxed areas are an argument.
\<close>

section \<open>Bytes and headers\<close>

datatype load_error = InvalidMagic | NotElf64 | NotExecutable | WrongArch | BadHeader | NoMem
  | MapFailed | NoSymbolTable | MisalignedBinary

record elf_header =
  h_magic :: "u8 list"
  h_class :: u8
  h_data :: u8
  h_type :: u16
  h_machine :: u16
  h_entry :: u64
  h_phoff :: u64
  h_shoff :: u64
  h_phentsize :: nat
  h_phnum :: nat
  h_shnum :: nat
  h_shstrndx :: nat

record phdr =
  p_type :: u32
  p_flags :: u32
  p_offset :: u64
  p_vaddr :: u64
  p_filesz :: u64
  p_memsz :: u64

record shdr =
  sh_name :: nat
  sh_offset :: u64
  sh_size :: u64
  sh_link :: nat

definition EHDR_SIZE :: nat where "EHDR_SIZE = 64"
definition PHDR_SIZE :: nat where "PHDR_SIZE = 56"
definition SHDR_SIZE :: nat where "SHDR_SIZE = 64"
definition MAX_PTLOAD :: nat where "MAX_PTLOAD = 32"
definition PT_LOAD :: u32 where "PT_LOAD = 1"
definition PT_GNU_STACK :: u32 where "PT_GNU_STACK = 0x6474e551"
definition PF_X :: u32 where "PF_X = 1"
definition PF_W :: u32 where "PF_W = 2"

definition read_header :: "u8 list \<Rightarrow> elf_header" where
  "read_header b = \<lparr> h_magic = take 4 b, h_class = of_nat (rd b 4 1), h_data = of_nat (rd b 5 1),
     h_type = of_nat (rd b 16 2), h_machine = of_nat (rd b 18 2), h_entry = of_nat (rd b 24 8),
     h_phoff = of_nat (rd b 32 8), h_shoff = of_nat (rd b 40 8), h_phentsize = rd b 54 2,
     h_phnum = rd b 56 2, h_shnum = rd b 60 2, h_shstrndx = rd b 62 2 \<rparr>"

definition read_phdr :: "u8 list \<Rightarrow> nat \<Rightarrow> phdr" where
  "read_phdr b off = \<lparr> p_type = of_nat (rd b off 4), p_flags = of_nat (rd b (off + 4) 4),
     p_offset = of_nat (rd b (off + 8) 8), p_vaddr = of_nat (rd b (off + 16) 8),
     p_filesz = of_nat (rd b (off + 32) 8), p_memsz = of_nat (rd b (off + 40) 8) \<rparr>"

definition read_shdr :: "u8 list \<Rightarrow> nat \<Rightarrow> shdr" where
  "read_shdr b off = \<lparr> sh_name = rd b off 4, sh_offset = of_nat (rd b (off + 24) 8),
     sh_size = of_nat (rd b (off + 32) 8), sh_link = rd b (off + 40) 4 \<rparr>"

definition parse_header :: "u8 list \<Rightarrow> load_error + elf_header" where
  "parse_header b =
     (if length b < EHDR_SIZE then Inl InvalidMagic
      else let h = read_header b in
        if h_magic h \<noteq> [0x7f, 0x45, 0x4c, 0x46] then Inl InvalidMagic
        else if h_class h \<noteq> 2 \<or> h_data h \<noteq> 1 then Inl NotElf64
        else if h_type h \<noteq> 2 \<and> h_type h \<noteq> 3 then Inl NotExecutable
        else if h_machine h \<noteq> 0x3e then Inl WrongArch
        else if h_phentsize h \<noteq> PHDR_SIZE then Inl BadHeader
        else Inr h)"

text \<open>\<^verbatim>\<open>usize\<close> addition.\<close>

definition usize_add :: "nat \<Rightarrow> nat \<Rightarrow> nat option" where
  "usize_add a b = (if a + b < 2 ^ 64 then Some (a + b) else None)"

definition page_align_down :: "u64 \<Rightarrow> u64" where "page_align_down x = x AND NOT 0xFFF"

definition page_align_up :: "u64 \<Rightarrow> u64 option" where
  "page_align_up x = do { y \<leftarrow> checked_add x 0xFFF; Some (y AND NOT 0xFFF) }"

section \<open>First pass: the segments\<close>

record segment =
  seg_vaddr :: u64
  seg_load_vaddr :: u64
  seg_load_end :: u64
  seg_pages :: u64
  seg_flags :: u64
  seg_off :: u64
  seg_filesz :: u64
  seg_memsz :: u64

definition segment_flags :: "u32 \<Rightarrow> u64" where
  "segment_flags fl = PRESENT OR USER OR (if fl AND PF_W \<noteq> 0 then WRITABLE else 0)
     OR (if fl AND PF_X = 0 then NO_EXECUTE else 0)"

definition overlaps :: "u64 \<Rightarrow> u64 \<Rightarrow> segment \<Rightarrow> bool" where
  "overlaps load_vaddr load_end g \<longleftrightarrow> load_vaddr < seg_load_end g \<and> seg_load_vaddr g < load_end"

definition collect_segment :: "u8 list \<Rightarrow> phdr \<Rightarrow> segment list \<Rightarrow> (load_error + segment list) option" where
  "collect_segment b ph segs =
     (if MAX_PTLOAD \<le> length segs then Some (Inl BadHeader)
      else case checked_add (p_offset ph) (p_filesz ph) of
        None \<Rightarrow> Some (Inl BadHeader)
      | Some copy_end \<Rightarrow>
          if length b < unat copy_end then Some (Inl BadHeader)
          else case checked_add (p_vaddr ph) (p_memsz ph) of
            None \<Rightarrow> Some (Inl BadHeader)
          | Some seg_end \<Rightarrow>
              let load_vaddr = page_align_down (p_vaddr ph) in do {
              load_end \<leftarrow> page_align_up seg_end;
              if list_ex (overlaps load_vaddr load_end) segs then Some (Inl MapFailed)
              else Some (Inr (segs @ [\<lparr> seg_vaddr = p_vaddr ph, seg_load_vaddr = load_vaddr, seg_load_end = load_end,
                seg_pages = (load_end - load_vaddr) div 0x1000, seg_flags = segment_flags (p_flags ph),
                seg_off = p_offset ph, seg_filesz = p_filesz ph, seg_memsz = p_memsz ph \<rparr>]))
              })"

fun scan_phdrs :: "u8 list \<Rightarrow> nat \<Rightarrow> nat list \<Rightarrow> segment list \<Rightarrow> bool \<Rightarrow> (load_error + segment list \<times> bool) option" where
  "scan_phdrs b base [] segs gnu = Some (Inr (segs, gnu))"
| "scan_phdrs b base (i # rest) segs gnu = do {
     off \<leftarrow> usize_add base (i * PHDR_SIZE);
     stop \<leftarrow> usize_add off PHDR_SIZE;
     if length b < stop then Some (Inl BadHeader)
     else
       let ph = read_phdr b off in
       if p_type ph \<noteq> PT_LOAD
       then scan_phdrs b base rest segs (if p_type ph = PT_GNU_STACK then p_flags ph AND PF_X \<noteq> 0 else gnu)
       else do {
         r \<leftarrow> collect_segment b ph segs;
         (case r of Inl e \<Rightarrow> Some (Inl e) | Inr segs' \<Rightarrow> scan_phdrs b base rest segs' gnu)
       }
   }"

section \<open>Memory effects\<close>

definition byte_of :: "u64 \<Rightarrow> nat \<Rightarrow> u8" where
  "byte_of w k = ucast (drop_bit (8 * k) w)"

fun word_of :: "u8 list \<Rightarrow> u64" where
  "word_of [] = 0"
| "word_of (b # bs) = ucast b OR push_bit 8 (word_of bs)"

text \<open>Storing bytes at a physical address; \<open>mem m x\<close> is the little-endian word at \<open>x\<close>.\<close>

definition store_bytes :: "vm \<Rightarrow> u64 \<Rightarrow> u8 list \<Rightarrow> vm" where
  "store_bytes m a bs = m\<lparr> mem := (\<lambda>x. word_of (map (\<lambda>k.
     let d = unat (x + of_nat k - a) in if d < length bs then bs ! d else byte_of (mem m x) k) [0..<8])) \<rparr>"

record elf_state =
  evma :: vma_sys
  epm :: "process_memory option"
  ebox :: nat

definition evm :: "elf_state \<Rightarrow> vm" where "evm s = svm (evma s)"

definition set_evm :: "elf_state \<Rightarrow> vm \<Rightarrow> elf_state" where
  "set_evm s m = s\<lparr> evma := (evma s)\<lparr> svm := m \<rparr> \<rparr>"

definition rbind :: "('s \<times> ('e + 'a)) option \<Rightarrow> ('s \<Rightarrow> 'a \<Rightarrow> ('s \<times> ('e + 'b)) option) \<Rightarrow> ('s \<times> ('e + 'b)) option" where
  "rbind x f = (case x of None \<Rightarrow> None | Some (s, Inl e) \<Rightarrow> Some (s, Inl e) | Some (s, Inr a) \<Rightarrow> f s a)"

definition elf_alloc :: "elf_state \<Rightarrow> u64 \<Rightarrow> (elf_state \<times> u64 option) option" where
  "elf_alloc s n = do {
     (z, r) \<leftarrow> alloc_pages (vphys (evm s)) n;
     Some (set_evm s ((evm s)\<lparr> vphys := z \<rparr>), r)
   }"

definition elf_free :: "elf_state \<Rightarrow> u64 \<Rightarrow> u64 \<Rightarrow> elf_state option" where
  "elf_free s p n = do { z \<leftarrow> free_pages (vphys (evm s)) p n; Some (set_evm s ((evm s)\<lparr> vphys := z \<rparr>)) }"

fun free_segments :: "elf_state \<Rightarrow> (u64 \<times> u64) list \<Rightarrow> elf_state option" where
  "free_segments s [] = Some s"
| "free_segments s ((p, n) # rest) =
     (if p \<noteq> 0 \<and> 0 < n then do { s1 \<leftarrow> elf_free s p n; free_segments s1 rest } else free_segments s rest)"

definition elf_add_vma :: "elf_state \<Rightarrow> (nat \<Rightarrow> u64) \<Rightarrow> u64 \<Rightarrow> u64 \<Rightarrow> vma_perm \<Rightarrow> elf_state option" where
  "elf_add_vma s box_at start stop perm =
     (case epm s of
        None \<Rightarrow> Some s
      | Some pm \<Rightarrow> do {
          (a, pm') \<leftarrow> add_vma (evma s) pm (box_at (ebox s)) start stop perm;
          Some (s\<lparr> evma := a, epm := Some pm', ebox := ebox s + 1 \<rparr>)
        })"

definition segment_perm :: "u64 \<Rightarrow> vma_perm" where
  "segment_perm fl =
     (if fl AND NO_EXECUTE = 0 then (if fl AND WRITABLE \<noteq> 0 then PermReadWriteExecute else PermReadExecute)
      else if fl AND WRITABLE \<noteq> 0 then PermReadWrite else PermRead)"

text \<open>Filling an allocated segment: file contents, then zeros up to the memory size.\<close>

definition fill_segment :: "u8 list \<Rightarrow> vm \<Rightarrow> u64 \<Rightarrow> segment \<Rightarrow> vm option" where
  "fill_segment b m phys g = do {
     virt_base \<leftarrow> checked_add HIGHER_HALF phys;
     copy_start \<leftarrow> checked_add virt_base (seg_vaddr g - seg_load_vaddr g);
     let m1 = (if 0 < seg_filesz g
               then store_bytes m (copy_start - HIGHER_HALF) (take (unat (seg_filesz g)) (drop (unat (seg_off g)) b)) else m);
     (if seg_filesz g < seg_memsz g then do {
        e \<leftarrow> checked_add (seg_vaddr g) (seg_filesz g);
        bss \<leftarrow> checked_add virt_base (e - seg_load_vaddr g);
        Some (store_bytes m1 (bss - HIGHER_HALF) (replicate (unat (seg_memsz g - seg_filesz g)) 0))
      } else Some m1)
   }"

definition load_segment :: "u8 list \<Rightarrow> (nat \<Rightarrow> u64) \<Rightarrow> u64 \<Rightarrow> elf_state \<Rightarrow> (u64 \<times> u64) list \<Rightarrow> segment
    \<Rightarrow> (elf_state \<times> (load_error + (u64 \<times> u64) list)) option" where
  "load_segment b box_at pml4 s got g = do {
     (s1, r) \<leftarrow> elf_alloc s (seg_pages g);
     (case r of
        None \<Rightarrow> do { s2 \<leftarrow> free_segments s1 got; Some (s2, Inl NoMem) }
      | Some phys \<Rightarrow> do {
          m1 \<leftarrow> map_contiguous (evm s1) pml4 (seg_load_vaddr g) phys (seg_pages g) (seg_flags g);
          nx \<leftarrow> (if seg_flags g AND NO_EXECUTE = 0 then is_nx m1 pml4 (seg_load_vaddr g) else Some False);
          if nx then None
          else do {
            m2 \<leftarrow> fill_segment b m1 phys g;
            e \<leftarrow> checked_add (seg_vaddr g) (seg_memsz g);
            stop \<leftarrow> page_align_up e;
            s2 \<leftarrow> elf_add_vma (set_evm s1 m2) box_at (page_align_down (seg_vaddr g)) stop (segment_perm (seg_flags g));
            Some (s2, Inr (got @ [(phys, seg_pages g)]))
          }
        })
   }"

fun load_segments :: "u8 list \<Rightarrow> (nat \<Rightarrow> u64) \<Rightarrow> u64 \<Rightarrow> elf_state \<Rightarrow> (u64 \<times> u64) list \<Rightarrow> segment list
    \<Rightarrow> (elf_state \<times> (load_error + (u64 \<times> u64) list)) option" where
  "load_segments b box_at pml4 s got [] = Some (s, Inr got)"
| "load_segments b box_at pml4 s got (g # rest) =
     rbind (load_segment b box_at pml4 s got g) (\<lambda>s got. load_segments b box_at pml4 s got rest)"

section \<open>Symbol and string tables\<close>

record symbols =
  y_symtab :: u64
  y_symsize :: u64
  y_strtab :: u64
  y_strsize :: u64
  y_stridx :: nat

definition free_table :: "elf_state \<Rightarrow> u64 \<Rightarrow> u64 \<Rightarrow> elf_state option" where
  "free_table s p n = (if p \<noteq> 0 then do { up \<leftarrow> checked_add n 0xFFF; elf_free s p (up div 0x1000) } else Some s)"

definition free_sym_str :: "elf_state \<Rightarrow> symbols \<Rightarrow> elf_state option" where
  "free_sym_str s y = do { s1 \<leftarrow> free_table s (y_symtab y) (y_symsize y); free_table s1 (y_strtab y) (y_strsize y) }"

definition fail_sym :: "elf_state \<Rightarrow> symbols \<Rightarrow> load_error \<Rightarrow> (elf_state \<times> (load_error + 'a)) option" where
  "fail_sym s y e = do { s1 \<leftarrow> free_sym_str s y; Some (s1, Inl e) }"

text \<open>The section-name table.\<close>

definition section_names :: "u8 list \<Rightarrow> elf_header \<Rightarrow> (load_error + u8 list) option" where
  "section_names b h =
     (let base = unat (h_shoff h) in
      case usize_add base (h_shnum h * SHDR_SIZE) of
        None \<Rightarrow> Some (Inl BadHeader)
      | Some stop \<Rightarrow>
          if length b < stop then Some (Inl BadHeader)
          else if h_shnum h \<le> h_shstrndx h then Some (Inl BadHeader)
          else do {
            o1 \<leftarrow> usize_add base (h_shstrndx h * SHDR_SIZE);
            o2 \<leftarrow> usize_add o1 SHDR_SIZE;
            if length b < o2 then Some (Inl BadHeader)
            else let sh = read_shdr b o1 in
              case usize_add (unat (sh_offset sh)) (unat (sh_size sh)) of
                None \<Rightarrow> Some (Inl BadHeader)
              | Some e \<Rightarrow> if length b < e then Some (Inl BadHeader)
                          else Some (Inr (take (unat (sh_size sh)) (drop (unat (sh_offset sh)) b)))
          })"

definition symtab_name :: "u8 list" where
  "symtab_name = [0x2e, 0x73, 0x79, 0x6d, 0x74, 0x61, 0x62]"

text \<open>Copying one table of the binary into fresh pages. \<open>Inl\<close> without release is the \<^verbatim>\<open>?\<close> path.\<close>

definition copy_table :: "u8 list \<Rightarrow> elf_state \<Rightarrow> symbols \<Rightarrow> shdr \<Rightarrow> (elf_state \<times> (load_error + u64)) option" where
  "copy_table b s y sh =
     (case usize_add (unat (sh_offset sh)) (unat (sh_size sh)) of
        None \<Rightarrow> Some (s, Inl BadHeader)
      | Some e \<Rightarrow>
          if length b < e then fail_sym s y BadHeader
          else do {
            up \<leftarrow> checked_add (sh_size sh) 0xFFF;
            (s1, r) \<leftarrow> elf_alloc s (up div 0x1000);
            (case r of
               None \<Rightarrow> fail_sym s1 y NoMem
             | Some phys \<Rightarrow> do {
                 _ \<leftarrow> checked_add HIGHER_HALF phys;
                 Some (set_evm s1 (store_bytes (evm s1) phys (take (unat (sh_size sh)) (drop (unat (sh_offset sh)) b))), Inr phys)
               })
          })"

fun scan_sections :: "u8 list \<Rightarrow> u8 list \<Rightarrow> nat \<Rightarrow> elf_state \<Rightarrow> symbols \<Rightarrow> nat list \<Rightarrow> (elf_state \<times> (load_error + symbols)) option" where
  "scan_sections b names base s y [] = Some (s, Inr y)"
| "scan_sections b names base s y (i # rest) = do {
     off \<leftarrow> usize_add base (i * SHDR_SIZE);
     stop \<leftarrow> usize_add off SHDR_SIZE;
     if length b < stop then fail_sym s y BadHeader
     else
       let sh = read_shdr b off in
       if length names \<le> sh_name sh then fail_sym s y BadHeader
       else if take (length symtab_name) (drop (sh_name sh) names) = symtab_name then
         rbind (copy_table b s y sh) (\<lambda>s phys.
           scan_sections b names base s (y\<lparr> y_symtab := phys, y_symsize := sh_size sh, y_stridx := sh_link sh \<rparr>) rest)
       else scan_sections b names base s y rest
   }"

definition load_strtab :: "u8 list \<Rightarrow> elf_header \<Rightarrow> elf_state \<Rightarrow> symbols \<Rightarrow> (elf_state \<times> (load_error + symbols)) option" where
  "load_strtab b h s y =
     (if y_stridx y = 0 then Some (s, Inr y)
      else if h_shnum h \<le> y_stridx y then fail_sym s y BadHeader
      else do {
        off \<leftarrow> usize_add (unat (h_shoff h)) (y_stridx y * SHDR_SIZE);
        stop \<leftarrow> usize_add off SHDR_SIZE;
        if length b < stop then fail_sym s y BadHeader
        else
          let sh = read_shdr b off in
          rbind (copy_table b s y sh) (\<lambda>s phys. Some (s, Inr (y\<lparr> y_strtab := phys, y_strsize := sh_size sh \<rparr>)))
      })"

definition load_symbols :: "u8 list \<Rightarrow> elf_header \<Rightarrow> elf_state \<Rightarrow> (elf_state \<times> (load_error + symbols)) option" where
  "load_symbols b h s = do {
     r \<leftarrow> section_names b h;
     (case r of
        Inl e \<Rightarrow> Some (s, Inl e)
      | Inr names \<Rightarrow>
          rbind (scan_sections b names (unat (h_shoff h)) s
                   \<lparr> y_symtab = 0, y_symsize = 0, y_strtab = 0, y_strsize = 0, y_stridx = 0 \<rparr> [0..<h_shnum h])
            (\<lambda>s y. rbind (load_strtab b h s y)
              (\<lambda>s y. if y_symtab y = 0 \<or> y_strtab y = 0 then fail_sym s y NoSymbolTable else Some (s, Inr y))))
   }"

section \<open>The stack and the whole loader\<close>

record load_result =
  lr_entry :: u64
  lr_stack_top :: u64
  lr_pml4 :: u64
  lr_stack_pages :: u64
  lr_symtab :: u64
  lr_symsize :: u64
  lr_strtab :: u64

definition STACK_END :: u64 where "STACK_END = 0x00007FFFFFFF0000"

definition stack_flags :: "bool \<Rightarrow> u64" where
  "stack_flags gnu = (if gnu then PRESENT OR WRITABLE OR USER else DATA OR USER)"

definition load_stack :: "(nat \<Rightarrow> u64) \<Rightarrow> u64 \<Rightarrow> elf_state \<Rightarrow> (u64 \<times> u64) list \<Rightarrow> symbols \<Rightarrow> bool \<Rightarrow> u64
    \<Rightarrow> (elf_state \<times> (load_error + u64)) option" where
  "load_stack box_at pml4 s got y gnu stack_size = do {
     up \<leftarrow> page_align_up stack_size;
     let pages = up div 0x1000;
     (if pages = 0 then Some (s, Inl BadHeader)
      else do {
        bytes \<leftarrow> checked_mul pages 0x1000;
        stack_virt \<leftarrow> checked_sub STACK_END bytes;
        if HIGHER_HALF \<le> stack_virt \<or> STACK_END < stack_virt + bytes then Some (s, Inl MapFailed)
        else do {
          (s1, r) \<leftarrow> elf_alloc s pages;
          (case r of
             None \<Rightarrow> do { s2 \<leftarrow> free_segments s1 got; s3 \<leftarrow> free_sym_str s2 y; Some (s3, Inl NoMem) }
           | Some phys \<Rightarrow> do {
               m \<leftarrow> map_contiguous (evm s1) pml4 stack_virt phys pages (stack_flags gnu);
               s2 \<leftarrow> elf_add_vma (set_evm s1 m) box_at stack_virt (stack_virt + bytes)
                       (if gnu then PermReadWriteExecute else PermReadWrite);
               Some (s2, Inr pages)
             })
        }
      })
   }"

definition load_elf :: "u8 list \<Rightarrow> u64 \<Rightarrow> u64 option \<Rightarrow> (nat \<Rightarrow> u64) \<Rightarrow> elf_state
    \<Rightarrow> (elf_state \<times> (load_error + load_result)) option" where
  "load_elf b stack_size target box_at s =
     (case parse_header b of
        Inl e \<Rightarrow> Some (s, Inl e)
      | Inr h \<Rightarrow>
          let pml4 = (case target of Some p \<Rightarrow> p | None \<Rightarrow> kernel_pml4 (evm s)) in do {
          r \<leftarrow> scan_phdrs b (unat (h_phoff h)) [0..<h_phnum h] [] False;
          (case r of
             Inl e \<Rightarrow> Some (s, Inl e)
           | Inr (segs, gnu) \<Rightarrow>
               rbind (load_segments b box_at pml4 s [] segs) (\<lambda>s got.
               rbind (load_symbols b h s) (\<lambda>s y.
               rbind (load_stack box_at pml4 s got y gnu stack_size) (\<lambda>s pages.
                 Some (s, Inr \<lparr> lr_entry = h_entry h, lr_stack_top = STACK_END, lr_pml4 = pml4, lr_stack_pages = pages,
                   lr_symtab = y_symtab y, lr_symsize = y_symsize y, lr_strtab = y_strtab y \<rparr>)))))
          })"

end
