(* ===== verification/Gdf.thy ===== *)
theory Gdf
  imports Sched Elf Service
begin

text \<open>
  The driver framework, \<^verbatim>\<open>kernel/src/gdf.rs\<close>: the driver table and its mailboxes, resource
  tracking, starting services from ELF images, crash handling with deferred restarts, and the
  switch away from a crashed driver. An operation is one state transformer, its effect when no
  other CPU enters the framework meanwhile; \<^verbatim>\<open>driver_call\<close>, which waits half-way, is given as its
  two phases, and a round of \<^verbatim>\<open>process_deferred_restarts\<close>, which takes the queue's lock anew each
  time, is also a step of its own (\<open>deferred_round\<close>), so that other CPUs can act in between. Addresses returned by the global allocator come from \<open>box_at\<close>.
\<close>

section \<open>State\<close>

definition MAX_DRIVERS :: nat where "MAX_DRIVERS = 16"
definition SERVICE_STACK_SIZE :: u64 where "SERVICE_STACK_SIZE = 16384"
definition MAX_CRASH_COUNT :: u32 where "MAX_CRASH_COUNT = 5"
definition MAX_DEFERRED_RESTARTS :: nat where "MAX_DEFERRED_RESTARTS = 8"

datatype driver_class = Hardware | Abstraction
datatype mailbox_flag = MAILBOX_IDLE | MAILBOX_PENDING | MAILBOX_RESPONSE

record mailbox =
  mb_cmd :: u32
  mb_flags :: mailbox_flag
  mb_arg0 :: u64
  mb_arg1 :: u64
  mb_arg2 :: u64
  mb_result :: u64

definition mailbox_empty :: mailbox where
  "mailbox_empty = \<lparr> mb_cmd = 0, mb_flags = MAILBOX_IDLE, mb_arg0 = 0, mb_arg1 = 0, mb_arg2 = 0, mb_result = 0 \<rparr>"

record driver_entry =
  d_name :: "u8 list"
  d_vcpu :: nat
  d_mailbox :: mailbox
  d_state :: u8
  d_type :: vcpu_type
  d_caller :: nat
  d_buf :: u64
  d_pml4 :: u64

record driver_pkg =
  pk_name :: "u8 list"
  pk_elf :: "u8 list"
  pk_class :: driver_class

record gdf =
  gs :: sched
  services :: service_table
  drivers :: "driver_entry option list"
  driver_count :: nat
  crash_counters :: "(u8 list \<times> u32) option list"
  deferred :: "driver_pkg option list"
  pkg_meta :: "driver_pkg option list"
  gbox :: nat

definition gvm :: "gdf \<Rightarrow> vm" where "gvm g = kvm (sk (gs g))"

definition set_gvm :: "gdf \<Rightarrow> vm \<Rightarrow> gdf" where "set_gvm g m = g\<lparr> gs := set_vm (gs g) m \<rparr>"

section \<open>Crash counters and deferred restarts\<close>

fun bump_in :: "u8 list \<Rightarrow> (u8 list \<times> u32) option list \<Rightarrow> ((u8 list \<times> u32) option list \<times> u32) option option" where
  "bump_in name [] = Some None"
| "bump_in name (None # rest) = do { r \<leftarrow> bump_in name rest; Some (map_option (\<lambda>(t, n). (None # t, n)) r) }"
| "bump_in name (Some (nm, c) # rest) =
     (if nm = name then do { c' \<leftarrow> checked_add c 1; Some (Some (Some (nm, c') # rest, c')) }
      else do { r \<leftarrow> bump_in name rest; Some (map_option (\<lambda>(t, n). (Some (nm, c) # t, n)) r) })"

definition bump_crash_count :: "gdf \<Rightarrow> u8 list \<Rightarrow> (gdf \<times> u32) option" where
  "bump_crash_count g name = do {
     r \<leftarrow> bump_in name (crash_counters g);
     (case r of
        Some (t, n) \<Rightarrow> Some (g\<lparr> crash_counters := t \<rparr>, n)
      | None \<Rightarrow>
          (case first_none (crash_counters g) of
             Some i \<Rightarrow> Some (g\<lparr> crash_counters := (crash_counters g)[i := Some (name, 1)] \<rparr>, 1)
           | None \<Rightarrow> Some (g, 1)))
   }"

definition push_deferred_restart :: "gdf \<Rightarrow> driver_pkg \<Rightarrow> gdf" where
  "push_deferred_restart g p =
     (case first_none (deferred g) of
        Some i \<Rightarrow> g\<lparr> deferred := (deferred g)[i := Some p] \<rparr>
      | None \<Rightarrow> g)"

section \<open>The driver table\<close>

definition register_driver :: "gdf \<Rightarrow> u8 list \<Rightarrow> nat \<Rightarrow> vcpu_type \<Rightarrow> gdf \<times> bool" where
  "register_driver g name vid ty =
     (if MAX_DRIVERS \<le> driver_count g then (g, False)
      else let nm = entry_name name in
        if list_ex (\<lambda>e. case e of None \<Rightarrow> False | Some d \<Rightarrow> d_name d = nm) (drivers g) then (g, False)
        else case svcpu (gs g) vid of
            None \<Rightarrow> (g, False)
          | Some v \<Rightarrow>
              (case first_none (drivers g) of
                 None \<Rightarrow> (g, False)
               | Some i \<Rightarrow>
                   (g\<lparr> drivers := (drivers g)[i := Some \<lparr> d_name = nm, d_vcpu = vid, d_mailbox = mailbox_empty, d_state = 1,
                         d_type = ty, d_caller = 0, d_buf = 0, d_pml4 = vpml4 v \<rparr>],
                       driver_count := driver_count g + 1 \<rparr>, True)))"

definition pkg_name :: "gdf \<Rightarrow> nat \<Rightarrow> u8 list option" where
  "pkg_name g i = (if i < length (pkg_meta g) then map_option pk_name (pkg_meta g ! i) else None)"

definition pkg_class :: "gdf \<Rightarrow> nat \<Rightarrow> string option" where
  "pkg_class g i = (if i < length (pkg_meta g)
     then map_option (\<lambda>p. case pk_class p of Hardware \<Rightarrow> ''Hardware'' | Abstraction \<Rightarrow> ''Abstraction'') (pkg_meta g ! i)
     else None)"

definition driver_named :: "u8 list \<Rightarrow> driver_entry \<Rightarrow> bool" where
  "driver_named name d =
     (let len = min (length name) 31 in
      take len (d_name d) = take len name \<and> (len = 31 \<or> d_name d ! len = 0))"

definition find_driver :: "(driver_entry \<Rightarrow> bool) \<Rightarrow> gdf \<Rightarrow> nat option" where
  "find_driver P g = find (\<lambda>i. case drivers g ! i of None \<Rightarrow> False | Some d \<Rightarrow> P d) [0..<length (drivers g)]"

definition find_by_name :: "gdf \<Rightarrow> u8 list \<Rightarrow> nat option" where
  "find_by_name g name = find_driver (driver_named name) g"

definition find_by_vcpu :: "gdf \<Rightarrow> nat \<Rightarrow> nat option" where
  "find_by_vcpu g vid = find_driver (\<lambda>d. d_vcpu d = vid) g"

definition set_driver :: "gdf \<Rightarrow> nat \<Rightarrow> driver_entry \<Rightarrow> gdf" where
  "set_driver g i d = g\<lparr> drivers := (drivers g)[i := Some d] \<rparr>"

definition poll_result :: "gdf \<Rightarrow> u8 list \<Rightarrow> u64 option" where
  "poll_result g name =
     (case find_by_name g name of
        None \<Rightarrow> None
      | Some i \<Rightarrow>
          (case drivers g ! i of
             None \<Rightarrow> None
           | Some d \<Rightarrow> if mb_flags (d_mailbox d) = MAILBOX_IDLE then Some (mb_result (d_mailbox d)) else None))"

definition post :: "mailbox \<Rightarrow> u32 \<Rightarrow> u64 \<Rightarrow> u64 \<Rightarrow> u64 \<Rightarrow> mailbox" where
  "post mb cmd a0 a1 a2 = mb\<lparr> mb_cmd := cmd, mb_arg0 := a0, mb_arg1 := a1, mb_arg2 := a2, mb_flags := MAILBOX_PENDING \<rparr>"

section \<open>Sending a command\<close>

text \<open>The pages of the 32-byte buffer must be present and writable in the driver's own table.\<close>

function buf_writable :: "vm \<Rightarrow> u64 \<Rightarrow> u64 \<Rightarrow> u64 \<Rightarrow> bool option" where
  "buf_writable m root page stop =
     (if page < stop then
        (case read_pte m root page of
           None \<Rightarrow> None
         | Some None \<Rightarrow> Some False
         | Some (Some pte) \<Rightarrow>
             if pte AND PRESENT = 0 \<or> pte AND WRITABLE = 0 then Some False
             else case checked_add page 0x1000 of None \<Rightarrow> None | Some page' \<Rightarrow> buf_writable m root page' stop)
      else Some True)"
  by pat_completeness auto
termination
proof (relation "measure (\<lambda>(m, root, page, stop). 2 ^ 64 - unat page)", goal_cases)
  case (2 m root page stop x x2 page')
  then have "unat page' = unat page + 0x1000" by (simp add: checked_add_unat)
  moreover have "unat page' < 2 ^ 64" using unat64_bound [of page'] by simp
  ultimately show ?case by simp
qed simp

declare buf_writable.simps [simp del]

text \<open>A store to a user address goes through the page table that is active; an unmapped page is a
  kernel fault, an abort.\<close>

fun user_store :: "vm \<Rightarrow> u64 \<Rightarrow> u8 list \<Rightarrow> vm option" where
  "user_store m va [] = Some m"
| "user_store m va (b # bs) = do {
     r \<leftarrow> read_pte m (cr3 m) va;
     pte \<leftarrow> r;
     if pte AND PRESENT = 0 then None
     else user_store (store_bytes m ((pte AND PHYS_ADDR_MASK) OR (va AND 0xFFF)) [b]) (va + 1) bs
   }"

definition words_bytes :: "u64 list \<Rightarrow> u8 list" where
  "words_bytes ws = concat (map (\<lambda>w. map (byte_of w) [0..<8]) ws)"

text \<open>Delivering to a driver that waits with a buffer: \<open>False\<close> is an early return.\<close>

definition deliver :: "gdf \<Rightarrow> nat \<Rightarrow> driver_entry \<Rightarrow> u64 list \<Rightarrow> (gdf \<times> bool) option" where
  "deliver g i d out =
     (if d_buf d = 0 then Some (set_driver g i d, True)
      else if HIGHER_HALF \<le> d_buf d then Some (set_driver g i (d\<lparr> d_buf := 0 \<rparr>), False)
      else do {
        stop \<leftarrow> checked_add (d_buf d) 32;
        ok \<leftarrow> buf_writable (gvm g) (d_pml4 d) (d_buf d AND NOT 0xFFF) stop;
        if \<not> ok then Some (set_driver g i (d\<lparr> d_buf := 0 \<rparr>), False)
        else do {
          m \<leftarrow> user_store (gvm g) (d_buf d) (words_bytes out);
          Some (set_driver (set_gvm g m) i (d\<lparr> d_buf := 0 \<rparr>), True)
        }
      })"

definition gwake :: "gdf \<Rightarrow> nat \<Rightarrow> gdf option" where
  "gwake g vid = do { s \<leftarrow> wake (gs g) (of_nat vid); Some (g\<lparr> gs := s \<rparr>) }"

definition send_cmd :: "gdf \<Rightarrow> u8 list \<Rightarrow> u32 \<Rightarrow> u64 \<Rightarrow> u64 \<Rightarrow> u64 \<Rightarrow> (gdf \<times> bool) option" where
  "send_cmd g name cmd a0 a1 a2 =
     (case find_by_name g name of
        None \<Rightarrow> Some (g, False)
      | Some i \<Rightarrow> do {
          d \<leftarrow> drivers g ! i;
          if mb_flags (d_mailbox d) \<noteq> MAILBOX_IDLE then Some (g, False)
          else do {
            (g1, ok) \<leftarrow> deliver g i (d\<lparr> d_mailbox := (post (d_mailbox d) cmd a0 a1 a2)\<lparr> mb_result := - 1 \<rparr> \<rparr>)
                          [ucast cmd, a0, a1, a2];
            if \<not> ok then Some (g1, False)
            else do { g2 \<leftarrow> gwake g1 (d_vcpu d); Some (g2, True) }
          }
        })"

definition recv :: "gdf \<Rightarrow> nat \<Rightarrow> gdf \<times> (u32 \<times> u64 \<times> u64 \<times> u64) option" where
  "recv g vid =
     (case find_driver (\<lambda>d. d_vcpu d = vid \<and> mb_flags (d_mailbox d) = MAILBOX_PENDING) g of
        None \<Rightarrow> (g, None)
      | Some i \<Rightarrow>
          (case drivers g ! i of
             None \<Rightarrow> (g, None)
           | Some d \<Rightarrow>
               let mb = d_mailbox d in
               (set_driver g i (d\<lparr> d_mailbox := mb\<lparr> mb_flags := MAILBOX_RESPONSE \<rparr> \<rparr>),
                Some (mb_cmd mb, mb_arg0 mb, mb_arg1 mb, mb_arg2 mb))))"

definition send_response :: "gdf \<Rightarrow> nat \<Rightarrow> u64 \<Rightarrow> (gdf \<times> bool) option" where
  "send_response g vid result =
     (case find_by_vcpu g vid of
        None \<Rightarrow> Some (g, False)
      | Some i \<Rightarrow> do {
          d \<leftarrow> drivers g ! i;
          let caller = d_caller d;
          let g1 = set_driver g i (d\<lparr> d_mailbox := (d_mailbox d)\<lparr> mb_result := result, mb_flags := MAILBOX_IDLE \<rparr>, d_caller := 0 \<rparr>);
          (if caller \<noteq> 0 then do {
             g2 \<leftarrow> gwake (g1\<lparr> gs := with_mut (gs g1) caller (\<lambda>v. v\<lparr> saved_frame := (saved_frame v)\<lparr> rax := result \<rparr> \<rparr>) \<rparr>) caller;
             Some (g2, True)
           } else Some (g1, True))
        })"

text \<open>\<^verbatim>\<open>driver_call\<close> up to and including the wake-up of the target; \<open>False\<close> is its early return.\<close>

definition driver_call_send :: "gdf \<Rightarrow> u8 list \<Rightarrow> u32 \<Rightarrow> u64 \<Rightarrow> u64 \<Rightarrow> u64 \<Rightarrow> (gdf \<times> bool) option" where
  "driver_call_send g name cmd a0 a1 a2 =
     (if name = [] then Some (g, False)
      else do {
        (s, caller) \<leftarrow> current_vcpu_id (gs g);
        let g = g\<lparr> gs := s \<rparr>;
        (case find_driver (\<lambda>d. d_name d = entry_name name \<and> d_vcpu d \<noteq> caller) g of
           None \<Rightarrow> Some (g, False)
         | Some i \<Rightarrow> do {
             d \<leftarrow> drivers g ! i;
             if mb_flags (d_mailbox d) \<noteq> MAILBOX_IDLE then Some (g, False)
             else do {
               g2 \<leftarrow> gwake (set_driver g i (d\<lparr> d_mailbox := post (d_mailbox d) cmd a0 a1 a2, d_caller := caller \<rparr>)) (d_vcpu d);
               Some (g2, True)
             }
           })
      })"

definition gblock :: "gdf \<Rightarrow> trap_frame \<Rightarrow> u64 \<Rightarrow> fpu_state \<Rightarrow> (gdf \<times> block_result) option" where
  "gblock g frame fa hw = do { (s, r) \<leftarrow> block_current (gs g) frame fa hw; Some (g\<lparr> gs := s \<rparr>, r) }"

definition driver_call :: "gdf \<Rightarrow> u8 list \<Rightarrow> u32 \<Rightarrow> u64 \<Rightarrow> u64 \<Rightarrow> u64 \<Rightarrow> trap_frame \<Rightarrow> u64 \<Rightarrow> fpu_state
    \<Rightarrow> (gdf \<times> bool \<times> block_result) option" where
  "driver_call g name cmd a0 a1 a2 frame fa hw = do {
     (g1, ok) \<leftarrow> driver_call_send g name cmd a0 a1 a2;
     if \<not> ok then Some (g1, False, Returned frame)
     else do { (g2, r) \<leftarrow> gblock g1 frame fa hw; Some (g2, True, r) }
   }"

definition set_blocked_buf :: "gdf \<Rightarrow> nat \<Rightarrow> u64 \<Rightarrow> gdf" where
  "set_blocked_buf g vid buf =
     (case find_by_vcpu g vid of
        None \<Rightarrow> g
      | Some i \<Rightarrow> (case drivers g ! i of None \<Rightarrow> g | Some d \<Rightarrow> set_driver g i (d\<lparr> d_buf := buf \<rparr>)))"

section \<open>Resource tracking\<close>

definition on_service :: "gdf \<Rightarrow> nat \<Rightarrow> (service \<Rightarrow> service \<times> bool) \<Rightarrow> gdf \<times> bool" where
  "on_service g vid f =
     (case service_find_by_vcpu (services g) vid of
        None \<Rightarrow> (g, False)
      | Some i \<Rightarrow>
          (case service_with_mut (services g) i
                  (\<lambda>e. case e of None \<Rightarrow> (None, False) | Some sv \<Rightarrow> apfst Some (f sv)) of
             (t, r) \<Rightarrow> (g\<lparr> services := t \<rparr>, r)))"

definition track_service_mmio :: "gdf \<Rightarrow> nat \<Rightarrow> u64 \<Rightarrow> u64 \<Rightarrow> u64 \<Rightarrow> gdf \<times> bool" where
  "track_service_mmio g vid phys virt pages = on_service g vid (\<lambda>sv. track_mmio sv phys virt pages)"

definition track_service_irq :: "gdf \<Rightarrow> nat \<Rightarrow> u8 \<Rightarrow> gdf \<times> bool" where
  "track_service_irq g vid vec = on_service g vid (\<lambda>sv. track_irq sv vec)"

definition track_service_dma :: "gdf \<Rightarrow> nat \<Rightarrow> u64 \<Rightarrow> u64 \<Rightarrow> gdf \<times> bool" where
  "track_service_dma g vid phys pages = on_service g vid (\<lambda>sv. track_dma sv phys pages)"

definition dma_pages :: "service \<Rightarrow> u64 \<Rightarrow> u64 option" where
  "dma_pages sv phys =
     (let r = svc_resources sv in
      map_option (\<lambda>i. snd (dma r ! i)) (find (\<lambda>i. fst (dma r ! i) = phys) [0..<dma_count r]))"

definition untrack_service_dma :: "gdf \<Rightarrow> nat \<Rightarrow> u64 \<Rightarrow> gdf \<times> u64 option" where
  "untrack_service_dma g vid phys =
     (case service_find_by_vcpu (services g) vid of
        None \<Rightarrow> (g, None)
      | Some i \<Rightarrow>
          (case service_with_mut (services g) i
                  (\<lambda>e. case e of
                     None \<Rightarrow> (None, None)
                   | Some sv \<Rightarrow> (case dma_pages sv phys of
                                  None \<Rightarrow> (Some sv, None)
                                | Some n \<Rightarrow> (Some (fst (untrack_dma sv phys)), Some n))) of
             (t, r) \<Rightarrow> (g\<lparr> services := t \<rparr>, r)))"

section \<open>Starting services\<close>

definition drop_pm :: "vma_sys \<Rightarrow> process_memory option \<Rightarrow> vma_sys option" where
  "drop_pm a pm = (case pm of None \<Rightarrow> Some a | Some p \<Rightarrow> vma_tree_drop a (vma_tree p))"

definition set_kvma :: "gdf \<Rightarrow> vma_sys \<Rightarrow> gdf" where
  "set_kvma g a = g\<lparr> gs := (gs g)\<lparr> sk := (sk (gs g))\<lparr> kvma := a \<rparr> \<rparr> \<rparr>"

text \<open>The vCPU of a service gets its address space and its first frame.\<close>

definition prepare_vcpu :: "u64 \<Rightarrow> u64 \<Rightarrow> u64 \<Rightarrow> vcpu \<Rightarrow> vcpu" where
  "prepare_vcpu pm_ptr entry sp v = v\<lparr> process_mem := pm_ptr,
     saved_frame := (saved_frame v)\<lparr> rip := entry, rsp := sp, cs := 0x1B, ss := 0x23, rflags := 0x202, rdi := 0, rsi := 0, rdx := 0 \<rparr>,
     frame_magic := FRAME_MAGIC, vstate := Ready \<rparr>"

definition class_vcpu_type :: "driver_class \<Rightarrow> vcpu_type" where
  "class_vcpu_type c = (case c of Hardware \<Rightarrow> HardwareDriver | Abstraction \<Rightarrow> AbstractionDriver)"

definition mark_service :: "gdf \<Rightarrow> nat \<Rightarrow> (service \<Rightarrow> service) \<Rightarrow> gdf" where
  "mark_service g i f = g\<lparr> services := fst (service_with_mut (services g) i (\<lambda>e. (map_option f e, ()))) \<rparr>"

text \<open>From a loaded image to a vCPU in the driver table and in a gang.\<close>

definition install_service :: "gdf \<Rightarrow> (nat \<Rightarrow> u64) \<Rightarrow> u8 list \<Rightarrow> u64 \<Rightarrow> vcpu_type \<Rightarrow> process_memory \<Rightarrow> load_result
    \<Rightarrow> (gdf \<times> nat option) option" where
  "install_service g box_at name pml4 ty pm lr =
     (case service_alloc (services g) name pml4 of
        (t, None) \<Rightarrow> do { a \<leftarrow> drop_pm (kvma (sk (gs g))) (Some pm); Some (set_kvma (g\<lparr> services := t \<rparr>) a, None) }
      | (t, Some sid) \<Rightarrow>
          let g1 = g\<lparr> services := t \<rparr> in
          (case vcpu_alloc (sk (gs g1)) GANG_UNSCHEDULED pml4 (- 1) ty of
             (k, None) \<Rightarrow> do { a \<leftarrow> drop_pm (kvma k) (Some pm); Some (set_kvma g1 a, None) }
           | (k, Some vid) \<Rightarrow> do {
               sp \<leftarrow> checked_sub (lr_stack_top lr) 8;
               let ptr = box_at (gbox g1);
               let k1 = k\<lparr> procs := (procs k)(ptr \<mapsto> pm) \<rparr>;
               let s1 = with_mut ((gs g1)\<lparr> sk := k1 \<rparr>) vid (prepare_vcpu ptr (lr_entry lr) sp);
               let g2 = mark_service (g1\<lparr> gs := s1, gbox := gbox g1 + 1 \<rparr>) sid (\<lambda>sv. sv\<lparr> svc_vcpu_id := vid, svc_state := SvcRunning \<rparr>);
               let g3 = fst (register_driver g2 name vid ty);
               (s2, ok) \<leftarrow> register_driver_vcpu (gs g3) vid;
               (if \<not> ok then Some (g3\<lparr> gs := s2 \<rparr>, None)
                else do {
                  let best = find_least_loaded (scpus s2);
                  s3 \<leftarrow> rq_push_all s2 best [vid];
                  n \<leftarrow> checked_add (task_count (scpus s3) best) 1;
                  Some (g3\<lparr> gs := set_cpus s3 (set_task_count (scpus s3) best n) \<rparr>, Some sid)
                })
             }))"

definition start_service :: "gdf \<Rightarrow> (nat \<Rightarrow> u64) \<Rightarrow> u8 list \<Rightarrow> u8 list \<Rightarrow> driver_class \<Rightarrow> (gdf \<times> nat option) option" where
  "start_service g box_at name bin cls = do {
     (m, r) \<leftarrow> fork_pml4 (gvm g) (kernel_pml4 (gvm g));
     let g0 = set_gvm g m;
     (case r of
        None \<Rightarrow> Some (g0, None)
      | Some pml4 \<Rightarrow> do {
          (e, res) \<leftarrow> load_elf bin SERVICE_STACK_SIZE (Some pml4) box_at
             \<lparr> evma = kvma (sk (gs g0)), epm = Some (process_memory_new pml4), ebox = gbox g0 \<rparr>;
          let g1 = set_kvma (g0\<lparr> gbox := ebox e \<rparr>) (evma e);
          (case res of
             Inl _ \<Rightarrow> do {
               m1 \<leftarrow> free_pml4 (gvm g1) pml4;
               let g2 = set_gvm g1 m1;
               a \<leftarrow> drop_pm (kvma (sk (gs g2))) (epm e);
               Some (set_kvma g2 a, None)
             }
           | Inr lr \<Rightarrow> do {
               pm \<leftarrow> epm e;
               install_service g1 box_at name pml4 (class_vcpu_type cls) pm lr
             })
        })
   }"

text \<open>The queue of deferred restarts is emptied one entry at a time, first slot first.\<close>

definition take_deferred :: "gdf \<Rightarrow> (gdf \<times> driver_pkg) option" where
  "take_deferred g =
     (case find (\<lambda>i. deferred g ! i \<noteq> None) [0..<length (deferred g)] of
        None \<Rightarrow> None
      | Some i \<Rightarrow> map_option (\<lambda>p. (g\<lparr> deferred := (deferred g)[i := None] \<rparr>, p)) (deferred g ! i))"

text \<open>The loop of \<^verbatim>\<open>process_deferred_restarts\<close> runs until the queue is empty; \<open>fuel\<close> bounds the rounds.\<close>

fun process_deferred_restarts :: "nat \<Rightarrow> gdf \<Rightarrow> (nat \<Rightarrow> u64) \<Rightarrow> gdf option" where
  "process_deferred_restarts 0 g box_at = (case take_deferred g of None \<Rightarrow> Some g | Some _ \<Rightarrow> None)"
| "process_deferred_restarts (Suc fuel) g box_at =
     (case take_deferred g of
        None \<Rightarrow> Some g
      | Some (g1, p) \<Rightarrow> do {
          (g2, _) \<leftarrow> start_service g1 box_at (pk_name p) (pk_elf p) (pk_class p);
          process_deferred_restarts fuel g2 box_at
        })"

text \<open>One round of the loop alone.\<close>

definition deferred_round :: "gdf \<Rightarrow> (nat \<Rightarrow> u64) \<Rightarrow> gdf option" where
  "deferred_round g box_at =
     (case take_deferred g of
        None \<Rightarrow> Some g
      | Some (g1, p) \<Rightarrow> do {
          (g2, _) \<leftarrow> start_service g1 box_at (pk_name p) (pk_elf p) (pk_class p);
          Some g2
        })"

section \<open>The driver package\<close>

definition PKG_HEADER :: nat where "PKG_HEADER = 12"
definition PKG_ENTRY :: nat where "PKG_ENTRY = 44"
definition DRIVER_PKG_MAGIC :: "u8 list" where
  "DRIVER_PKG_MAGIC = [0x4c, 0x4f, 0x44, 0x41, 0x58, 0x50, 0x4b, 0x47]"

record pkg_entry =
  pe_name :: "u8 list"
  pe_class :: nat
  pe_offset :: nat
  pe_size :: nat

definition read_pkg_entry :: "u8 list \<Rightarrow> nat \<Rightarrow> pkg_entry" where
  "read_pkg_entry b i =
     (let o1 = PKG_HEADER + i * PKG_ENTRY in
      \<lparr> pe_name = take 32 (drop o1 b), pe_class = rd b (o1 + 32) 4, pe_offset = rd b (o1 + 36) 4, pe_size = rd b (o1 + 40) 4 \<rparr>)"

definition pkg_entries :: "u8 list \<Rightarrow> pkg_entry list option" where
  "pkg_entries b =
     (if length b < PKG_HEADER then None
      else if take 8 b \<noteq> DRIVER_PKG_MAGIC then None
      else let n = rd b 8 4 in
        if length b < PKG_HEADER + n * PKG_ENTRY then None
        else Some (map (read_pkg_entry b) [0..<n]))"

definition decode_class :: "nat \<Rightarrow> driver_class option" where
  "decode_class n = (if n = 0 then Some Hardware else if n = 1 then Some Abstraction else None)"

definition meta_name :: "u8 list \<Rightarrow> u8 list" where
  "meta_name name = (let len = min (length (takeWhile (\<lambda>c. c \<noteq> 0) name)) 31 in take len name @ replicate (32 - len) 0)"

text \<open>\<open>copied i\<close> tells whether the copy of the ELF image found memory.\<close>

fun start_drivers :: "gdf \<Rightarrow> (nat \<Rightarrow> u64) \<Rightarrow> (nat \<Rightarrow> bool) \<Rightarrow> u8 list \<Rightarrow> nat \<Rightarrow> pkg_entry list \<Rightarrow> gdf option" where
  "start_drivers g box_at copied b i [] = Some g"
| "start_drivers g box_at copied b i (e # rest) =
     (if length b < pe_offset e + pe_size e then start_drivers g box_at copied b (i + 1) rest
      else case decode_class (pe_class e) of
          None \<Rightarrow> start_drivers g box_at copied b (i + 1) rest
        | Some cls \<Rightarrow>
            if \<not> copied i then start_drivers g box_at copied b (i + 1) rest
            else do {
              let elf = take (pe_size e) (drop (pe_offset e) b);
              (g1, r) \<leftarrow> start_service g box_at (pe_name e) elf cls;
              start_drivers
                (if r \<noteq> None \<and> i < MAX_DRIVERS
                 then g1\<lparr> pkg_meta := (pkg_meta g1)[i := Some \<lparr> pk_name = meta_name (pe_name e), pk_elf = elf, pk_class = cls \<rparr>] \<rparr>
                 else g1) box_at copied b (i + 1) rest
            })"

definition init_from_package :: "gdf \<Rightarrow> (nat \<Rightarrow> u64) \<Rightarrow> (nat \<Rightarrow> bool) \<Rightarrow> u8 list \<Rightarrow> gdf option" where
  "init_from_package g box_at copied b =
     (case pkg_entries b of None \<Rightarrow> Some g | Some es \<Rightarrow> start_drivers g box_at copied b 0 es)"

definition try_init_from_package :: "gdf \<Rightarrow> (nat \<Rightarrow> u64) \<Rightarrow> (nat \<Rightarrow> bool) \<Rightarrow> u8 list \<Rightarrow> bool \<Rightarrow> (gdf \<times> bool) option" where
  "try_init_from_package g box_at copied b lock_free =
     (if \<not> lock_free then Some (g, False)
      else do { g1 \<leftarrow> init_from_package g box_at copied b; Some (g1, True) })"

section \<open>Stopping and crashing\<close>

fun unmap_mmio :: "vm \<Rightarrow> u64 \<Rightarrow> nat list \<Rightarrow> vm option" where
  "unmap_mmio m virt [] = Some m"
| "unmap_mmio m virt (p # rest) = do {
     o1 \<leftarrow> checked_mul (of_nat p) 0x1000;
     a \<leftarrow> checked_add virt o1;
     m1 \<leftarrow> unmap m a;
     unmap_mmio m1 virt rest
   }"

fun release_mmio :: "vm \<Rightarrow> (u64 \<times> u64 \<times> u64) list \<Rightarrow> vm option" where
  "release_mmio m [] = Some m"
| "release_mmio m ((phys, virt, pages) # rest) =
     (if virt \<noteq> 0 \<and> 0 < pages then do { m1 \<leftarrow> unmap_mmio m virt [0..<unat pages]; release_mmio m1 rest }
      else release_mmio m rest)"

fun release_dma :: "vm \<Rightarrow> (u64 \<times> u64) list \<Rightarrow> vm option" where
  "release_dma m [] = Some m"
| "release_dma m ((phys, pages) # rest) =
     (if phys \<noteq> 0 \<and> 0 < pages then do { z \<leftarrow> free_pages (vphys m) phys pages; release_dma (m\<lparr> vphys := z \<rparr>) rest }
      else release_dma m rest)"

definition cleanup_resources :: "gdf \<Rightarrow> nat \<Rightarrow> gdf option" where
  "cleanup_resources g sid =
     (case service_get (services g) sid of
        None \<Rightarrow> Some g
      | Some sv \<Rightarrow> do {
          let r = svc_resources sv;
          let g1 = mark_service g sid clear_resources;
          m1 \<leftarrow> (if svc_pml4 sv \<noteq> 0 then release_mmio (gvm g1) (take (mmio_count r) (mmio r)) else Some (gvm g1));
          m2 \<leftarrow> release_dma m1 (take (dma_count r) (dma r));
          Some (set_gvm g1 m2)
        })"

definition stop_service :: "gdf \<Rightarrow> nat \<Rightarrow> gdf option" where
  "stop_service g sid = cleanup_resources (mark_service g sid (\<lambda>sv. sv\<lparr> svc_state := Stopped \<rparr>)) sid"

definition crash_name :: "u8 list \<Rightarrow> u8 list" where
  "crash_name nm = (let len = length (takeWhile (\<lambda>c. c \<noteq> 0) nm) in take len nm @ replicate (32 - len) 0)"

definition remove_driver :: "gdf \<Rightarrow> nat \<Rightarrow> gdf" where
  "remove_driver g vid =
     (case find_by_vcpu g vid of
        None \<Rightarrow> g
      | Some i \<Rightarrow> g\<lparr> drivers := (drivers g)[i := None], driver_count := driver_count g - 1 \<rparr>)"

definition drop_member :: "nat \<Rightarrow> gang \<Rightarrow> gang option" where
  "drop_member vid gg =
     (let ids = map (\<lambda>e. if e = Some vid then None else e) (vcpu_ids gg);
          n = length (filter (\<lambda>e. e = Some vid) (vcpu_ids gg))
      in if list_all (\<lambda>e. e = None) ids then None else Some (gg\<lparr> vcpu_ids := ids, gang_vcpus := gang_vcpus gg - n \<rparr>))"

definition terminate_vcpu :: "sched \<Rightarrow> nat \<Rightarrow> u64 \<Rightarrow> sched" where
  "terminate_vcpu s vid pml4 =
     (with_mut s vid (\<lambda>v. v\<lparr> vstate := Terminated, vpml4 := pml4 \<rparr>))
       \<lparr> gangs := map (\<lambda>e. Option.bind e (drop_member vid)) (gangs s) \<rparr>"

definition find_meta :: "gdf \<Rightarrow> u8 list \<Rightarrow> driver_pkg option" where
  "find_meta g name =
     (case find (\<lambda>e. case e of None \<Rightarrow> False | Some p \<Rightarrow> pk_name p = name) (pkg_meta g) of
        Some (Some p) \<Rightarrow> Some p
      | _ \<Rightarrow> None)"

definition should_restart :: "restart_policy \<Rightarrow> u32 \<Rightarrow> bool" where
  "should_restart p n = (case p of Always \<Rightarrow> True | OnFailure k \<Rightarrow> n \<le> k | Never \<Rightarrow> False)"

text \<open>What happens to the service after its vCPU is gone: a queued restart or a permanent stop.\<close>

definition after_crash :: "gdf \<Rightarrow> nat \<Rightarrow> u8 list \<Rightarrow> restart_policy \<Rightarrow> u32 \<Rightarrow> gdf option" where
  "after_crash g sid name policy restarts = do {
     (g1, crashes) \<leftarrow> bump_crash_count g name;
     let stopped = mark_service g1 sid (\<lambda>sv. sv\<lparr> svc_state := Stopped \<rparr>);
     (if MAX_CRASH_COUNT < crashes then Some stopped
      else if should_restart policy restarts then
        (case find_meta g1 name of
           None \<Rightarrow> Some stopped
         | Some p \<Rightarrow>
             let g2 = mark_service g1 sid (\<lambda>sv. clear_resources (sv\<lparr> svc_state := Restarting \<rparr>));
                 g3 = g2\<lparr> services := service_free (services g2) sid \<rparr>
             in Some (push_deferred_restart g3 (p\<lparr> pk_name := name \<rparr>)))
      else Some stopped)
   }"

definition handle_crash :: "gdf \<Rightarrow> nat \<Rightarrow> gdf option" where
  "handle_crash g vid =
     (case service_find_by_vcpu (services g) vid of
        None \<Rightarrow> Some g
      | Some sid \<Rightarrow> do {
          sv \<leftarrow> service_get (services g) sid;
          n \<leftarrow> checked_add (svc_restart_count sv) 1;
          let g1 = mark_service g sid (\<lambda>sv. sv\<lparr> svc_state := Crashed, svc_restart_count := n \<rparr>);
          g2 \<leftarrow> cleanup_resources g1 sid;
          let g3 = remove_driver g2 vid;
          let g4 = mark_service g3 sid (\<lambda>sv. sv\<lparr> svc_pml4 := 0 \<rparr>);
          let g5 = g4\<lparr> gs := terminate_vcpu (gs g4) vid (svc_pml4 sv) \<rparr>;
          after_crash g5 sid (crash_name (svc_name sv)) (svc_restart_policy sv) n
        })"

section \<open>Leaving a crashed driver\<close>

definition switch_frame_to_idle :: "gdf \<Rightarrow> trap_frame \<Rightarrow> (gdf \<times> trap_frame) option" where
  "switch_frame_to_idle g frame = do {
     (s, cpu) \<leftarrow> current_cpu_slot (gs g);
     let idle = idle_vcpu (scpus s) cpu;
     let f = (case svcpu s idle of None \<Rightarrow> frame | Some v \<Rightarrow> saved_frame v);
     Some (g\<lparr> gs := set_cpus s (set_current_vcpu (scpus s) cpu idle) \<rparr>, f)
   }"

definition ss_valid :: "trap_frame \<Rightarrow> bool" where
  "ss_valid f = (if cs f AND 3 = 0 then ss f = 0x10 \<or> ss f = 0x18
                 else if cs f AND 3 = 3 then ss f = 0x23 \<or> ss f = 0x2B else False)"

definition driver_frame_ok :: "trap_frame \<Rightarrow> bool" where
  "driver_frame_ok f \<longleftrightarrow> rsp f \<noteq> 0 \<and> (cs f = 0x08 \<or> cs f = 0x1B) \<and> ss_valid f \<and> (rip f = 0 \<or> rip_canonical (rip f))"

definition loadable :: "sched \<Rightarrow> nat \<Rightarrow> vcpu option" where
  "loadable s vid =
     (case svcpu s vid of
        None \<Rightarrow> None
      | Some v \<Rightarrow> if vstate v = Ready \<and> driver_frame_ok (saved_frame v) then Some v else None)"

definition is_driver :: "sched \<Rightarrow> nat \<Rightarrow> bool" where
  "is_driver s vid \<longleftrightarrow> get_vcpu_type (sk s) vid \<in> {HardwareDriver, AbstractionDriver}"

text \<open>The search of the ready queue; \<open>n\<close> rounds are left, \<open>temp\<close> holds the ids set aside.\<close>

fun next_driver :: "nat \<Rightarrow> sched \<Rightarrow> nat \<Rightarrow> nat list \<Rightarrow> (sched \<times> (nat \<times> vcpu) option) option" where
  "next_driver 0 s cpu temp = do { s1 \<leftarrow> rq_push_all s cpu temp; Some (s1, None) }"
| "next_driver (Suc n) s cpu temp =
     (case rq_pop (rq (scpus s) cpu) of
        (_, None) \<Rightarrow> do { s1 \<leftarrow> rq_push_all s cpu temp; Some (s1, None) }
      | (q, Some nid) \<Rightarrow>
          let s1 = set_cpus s (set_cpu (scpus s) (cpu mod MAX_CPUS) (run_queue_update (\<lambda>_. q)));
              vid = nid mod 2 ^ 32
          in if is_driver s1 vid then
               (case loadable s1 vid of
                  Some v \<Rightarrow> do {
                    s2 \<leftarrow> rq_push_all (with_mut s1 vid (\<lambda>v. v\<lparr> vstate := Running, frame_magic := 0 \<rparr>)) cpu temp;
                    Some (set_cpus s2 (set_current_vcpu (scpus s2) cpu vid), Some (vid, v))
                  }
                | None \<Rightarrow> do { s2 \<leftarrow> rq_push_all s1 cpu temp; next_driver n s2 cpu [] })
             else if length temp < 64 then next_driver n s1 cpu (temp @ [nid])
             else do { s2 \<leftarrow> rq_push_all s1 cpu [nid]; next_driver n s2 cpu temp })"

definition switch_frame_to_next_driver :: "gdf \<Rightarrow> trap_frame \<Rightarrow> (gdf \<times> trap_frame \<times> (u64 \<times> u64) option) option" where
  "switch_frame_to_next_driver g frame = do {
     (s, cpu) \<leftarrow> current_cpu_slot (gs g);
     (s1, r) \<leftarrow> next_driver 64 s cpu [];
     Some (g\<lparr> gs := s1 \<rparr>, (case r of None \<Rightarrow> frame | Some (_, v) \<Rightarrow> saved_frame v),
           map_option (\<lambda>(_, v). (vpml4 v, kstack_top v)) r)
   }"

text \<open>The recovery of the exception handler (\<^verbatim>\<open>arch/idt.rs\<close>) for a fault of a driver.\<close>

definition recover_from_crash :: "gdf \<Rightarrow> nat \<Rightarrow> trap_frame \<Rightarrow> (gdf \<times> trap_frame) option" where
  "recover_from_crash g vid frame = do {
     g1 \<leftarrow> handle_crash g vid;
     (g2, f, r) \<leftarrow> switch_frame_to_next_driver g1 frame;
     (case r of
        None \<Rightarrow> switch_frame_to_idle g2 f
      | Some (pml4, st) \<Rightarrow> do {
          let g3 = set_gvm g2 ((gvm g2)\<lparr> cr3 := pml4 \<rparr>);
          (s, cpu) \<leftarrow> current_cpu_slot (gs g3);
          Some (g3\<lparr> gs := (set_cpus s (set_cpu (scpus s) (cpu mod MAX_CPUS) (kernel_stack_top_update (\<lambda>_. st))))
                           \<lparr> rsp0 := (rsp0 s)[cpu mod MAX_CPUS := st] \<rparr> \<rparr>, f)
        })
   }"

end
