(* ===== verification/Acpi.thy ===== *)
theory Acpi
  imports Percpu
begin

text \<open>
  The firmware tables, \<^verbatim>\<open>kernel/src/acpi/mod.rs\<close> and \<^verbatim>\<open>kernel/src/acpi/madt.rs\<close>: the search for the
  root pointer, the walk over the root table and the parser of the multiple-APIC table. Memory is
  a function from addresses to bytes. The fixed arrays with their counts are lists of at most
  that many entries, since entries are only ever added at the end.
\<close>

section \<open>Reading firmware memory\<close>

definition mbytes :: "(u64 \<Rightarrow> u8) \<Rightarrow> u64 \<Rightarrow> nat \<Rightarrow> u8 list" where
  "mbytes m a n = map (\<lambda>k. m (a + of_nat k)) [0..<n]"

definition mget :: "(u64 \<Rightarrow> u8) \<Rightarrow> u64 \<Rightarrow> nat \<Rightarrow> nat" where
  "mget m a n = le_bytes (mbytes m a n)"

definition SDT_HEADER :: nat where "SDT_HEADER = 36"

definition ascii :: "string \<Rightarrow> u8 list" where
  "ascii s = map (\<lambda>c. of_nat (of_char c)) s"

definition sum_zero :: "u8 list \<Rightarrow> bool" where
  "sum_zero bs \<longleftrightarrow> fold (\<lambda>b a. a + b) bs 0 = 0"

section \<open>Root tables\<close>

record acpi_context =
  acpi_revision :: u8
  rsdp_addr :: u64
  xsdt_addr :: u64
  madt_addr :: "u64 option"

definition rsdp_checksum_valid :: "(u64 \<Rightarrow> u8) \<Rightarrow> u64 \<Rightarrow> bool" where
  "rsdp_checksum_valid m a = sum_zero (mbytes m a (if 2 \<le> m (a + 15) then 36 else 20))"

definition sdt_checksum_valid :: "(u64 \<Rightarrow> u8) \<Rightarrow> u64 \<Rightarrow> bool" where
  "sdt_checksum_valid m a = sum_zero (mbytes m a (mget m (a + 4) 4))"

definition check_rsdp_at :: "(u64 \<Rightarrow> u8) \<Rightarrow> u64 \<Rightarrow> bool" where
  "check_rsdp_at m a \<longleftrightarrow> mbytes m a 8 = ascii ''RSD PTR '' \<and> rsdp_checksum_valid m a"

text \<open>The scans step by 16 bytes; \<open>n\<close> is the number of addresses in the range.\<close>

definition scan_rsdp :: "(u64 \<Rightarrow> u8) \<Rightarrow> u64 \<Rightarrow> nat \<Rightarrow> u64 option" where
  "scan_rsdp m start n = find (check_rsdp_at m) (map (\<lambda>i. start + 16 * of_nat i) [0..<n])"

definition find_rsdp :: "(u64 \<Rightarrow> u8) \<Rightarrow> u64 option" where
  "find_rsdp m =
     (let ebda = mget m 0x40E 2;
          r = (if ebda \<noteq> 0 then scan_rsdp m (of_nat (ebda * 16)) 0x40 else None)
      in case r of
           Some a \<Rightarrow> Some a
         | None \<Rightarrow>
             (case scan_rsdp m 0xE0000 0x2000 of
                Some a \<Rightarrow> Some a
              | None \<Rightarrow> scan_rsdp m 0xFEFF0000 0x1000))"

text \<open>The entry at index \<open>i\<close> of a root table; 8 bytes in the extended table, 4 in the old one.\<close>

definition root_entry :: "(u64 \<Rightarrow> u8) \<Rightarrow> u64 \<Rightarrow> nat \<Rightarrow> nat \<Rightarrow> u64" where
  "root_entry m xsdt width i = of_nat (mget m (xsdt + of_nat SDT_HEADER + of_nat (i * width)) width)"

definition find_sdt :: "(u64 \<Rightarrow> u8) \<Rightarrow> u64 \<Rightarrow> u8 list \<Rightarrow> u64 option option" where
  "find_sdt m xsdt sig =
     (let width = (if mbytes m xsdt 4 = ascii ''XSDT'' then 8 else 4);
          len = mget m (xsdt + 4) 4
      in if len < SDT_HEADER then None
         else Some (find (\<lambda>a. a \<noteq> 0 \<and> mbytes m a 4 = sig \<and> sdt_checksum_valid m a)
                      (map (root_entry m xsdt width) [0..<(len - SDT_HEADER) div width])))"

definition acpi_init :: "(u64 \<Rightarrow> u8) \<Rightarrow> u64 option \<Rightarrow> acpi_context option option" where
  "acpi_init m hint =
     (case (case hint of Some a \<Rightarrow> Some a | None \<Rightarrow> find_rsdp m) of
        None \<Rightarrow> Some None
      | Some a \<Rightarrow> do {
          let rev = m (a + 15);
          let wide = (of_nat (mget m (a + 24) 8) :: u64);
          let xsdt = (if 2 \<le> rev \<and> wide \<noteq> 0 then wide else of_nat (mget m (a + 16) 4));
          madt \<leftarrow> find_sdt m xsdt (ascii ''APIC'');
          Some (Some \<lparr> acpi_revision = rev, rsdp_addr = a, xsdt_addr = xsdt, madt_addr = madt \<rparr>)
        })"

section \<open>The multiple-APIC table\<close>

record cpu_info =
  ci_acpi_id :: u8
  ci_apic_id :: u8
  ci_enabled :: bool

record ioapic_info =
  ii_id :: u8
  ii_addr :: u32
  ii_gsi_base :: u32

record iso_info =
  iso_bus :: u8
  iso_source :: u8
  iso_gsi :: u32
  iso_flags :: u16

record madt_info =
  mi_lapic :: u32
  mi_flags :: u32
  mi_cpus :: "cpu_info list"
  mi_ioapics :: "ioapic_info list"
  mi_isos :: "iso_info list"
  mi_override :: "u64 option"

definition MAX_IOAPICS :: nat where "MAX_IOAPICS = 16"
definition MAX_ISOS :: nat where "MAX_ISOS = 32"

definition add_upto :: "nat \<Rightarrow> 'a list \<Rightarrow> 'a \<Rightarrow> 'a list" where
  "add_upto n xs x = (if length xs < n then xs @ [x] else xs)"

definition parse_entry :: "(u64 \<Rightarrow> u8) \<Rightarrow> madt_info \<Rightarrow> u8 \<Rightarrow> u64 \<Rightarrow> madt_info" where
  "parse_entry m info ty a =
     (if ty = 0 then info\<lparr> mi_cpus := add_upto MAX_CPUS (mi_cpus info)
          \<lparr> ci_acpi_id = m (a + 2), ci_apic_id = m (a + 3), ci_enabled = (mget m (a + 4) 4 mod 2 \<noteq> 0) \<rparr> \<rparr>
      else if ty = 1 then info\<lparr> mi_ioapics := add_upto MAX_IOAPICS (mi_ioapics info)
          \<lparr> ii_id = m (a + 2), ii_addr = of_nat (mget m (a + 4) 4), ii_gsi_base = of_nat (mget m (a + 8) 4) \<rparr> \<rparr>
      else if ty = 2 then info\<lparr> mi_isos := add_upto MAX_ISOS (mi_isos info)
          \<lparr> iso_bus = m (a + 2), iso_source = m (a + 3), iso_gsi = of_nat (mget m (a + 4) 4),
            iso_flags = of_nat (mget m (a + 8) 2) \<rparr> \<rparr>
      else if ty = 5 then info\<lparr> mi_override := Some (of_nat (mget m (a + 4) 8)) \<rparr>
      else info)"

text \<open>The walk; offsets are relative to the table. The source walks with addresses in a \<^verbatim>\<open>usize\<close>; that the
  table does not reach the end of the address space, so that they do not overflow, is assumed.\<close>

function madt_walk :: "(u64 \<Rightarrow> u8) \<Rightarrow> u64 \<Rightarrow> nat \<Rightarrow> nat \<Rightarrow> madt_info \<Rightarrow> madt_info" where
  "madt_walk m base off stop info =
     (if off + 2 \<le> stop then
        let a = base + of_nat off; len = unat (m (a + 1)) in
        if len < 2 then info
        else if stop < off + len then info
        else madt_walk m base (off + len) stop (parse_entry m info (m a) a)
      else info)"
  by pat_completeness auto
termination by (relation "measure (\<lambda>(m, base, off, stop, info). stop - off)") auto

declare madt_walk.simps [simp del]

definition madt_parse :: "(u64 \<Rightarrow> u8) \<Rightarrow> u64 \<Rightarrow> madt_info option" where
  "madt_parse m a =
     (if mbytes m a 4 \<noteq> ascii ''APIC'' then None
      else if \<not> sdt_checksum_valid m a then None
      else Some (madt_walk m a (SDT_HEADER + 8) (mget m (a + 4) 4)
        \<lparr> mi_lapic = of_nat (mget m (a + of_nat SDT_HEADER) 4), mi_flags = of_nat (mget m (a + of_nat SDT_HEADER + 4) 4),
          mi_cpus = [], mi_ioapics = [], mi_isos = [], mi_override = None \<rparr>))"

definition madt_lookup_gsi :: "madt_info \<Rightarrow> u8 \<Rightarrow> u32" where
  "madt_lookup_gsi info irq =
     (case find (\<lambda>i. iso_bus i = 0 \<and> iso_source i = irq) (mi_isos info) of
        Some i \<Rightarrow> iso_gsi i
      | None \<Rightarrow> ucast irq)"

definition lookup_ioapic :: "madt_info \<Rightarrow> u32 \<Rightarrow> (nat \<times> u8) option" where
  "lookup_ioapic info gsi =
     map_option (\<lambda>i. (i, ucast (gsi - ii_gsi_base (mi_ioapics info ! i))))
       (find (\<lambda>i. gsi - ii_gsi_base (mi_ioapics info ! i) < 256) [0..<length (mi_ioapics info)])"

end
