(* ===== verification/Intr.thy ===== *)
theory Intr
  imports Acpi Virt
begin

text \<open>
  Interrupt routing, \<^verbatim>\<open>kernel/src/intr/mod.rs\<close> and \<^verbatim>\<open>kernel/src/arch/ioapic.rs\<close>: the I/O APICs and their
  redirection entries, the routing table built from the firmware's description, the vector
  allocator and the registrations of drivers. The registers of an I/O APIC are a function of its
  base address and the register index; a write is visible to the next read.
\<close>

section \<open>I/O APICs\<close>

record ioapic =
  io_base :: u64
  io_id :: u8
  io_version :: u8
  max_redir :: u8
  gsi_base :: u32

record irq_route =
  isa_source :: u8
  route_gsi :: u32
  ioapic_index :: nat
  ioapic_pin :: u8
  route_vector :: u8
  route_flags :: u16

record runtime_irq =
  ri_vector :: u8
  ri_gsi :: u32
  ri_vcpu :: nat

record intr =
  io_regs :: "u64 \<Rightarrow> u32 \<Rightarrow> u32"
  ioapics :: "ioapic list"
  io_ready :: bool
  next_vector :: u8
  vector_exhausted :: bool
  routes :: "irq_route list"
  routes_ready :: bool
  irq_cpu_next :: nat
  runtime_irqs :: "runtime_irq list"

definition read_reg :: "intr \<Rightarrow> ioapic \<Rightarrow> u32 \<Rightarrow> u32" where
  "read_reg t io r = io_regs t (io_base io) r"

definition write_reg :: "intr \<Rightarrow> ioapic \<Rightarrow> u32 \<Rightarrow> u32 \<Rightarrow> intr" where
  "write_reg t io r v = t\<lparr> io_regs := (io_regs t)(io_base io := (io_regs t (io_base io))(r := v)) \<rparr>"

definition redir_reg :: "u8 \<Rightarrow> u32" where "redir_reg pin = 0x10 + ucast pin * 2"

definition ioapic_mask_entry :: "intr \<Rightarrow> ioapic \<Rightarrow> u8 \<Rightarrow> intr" where
  "ioapic_mask_entry t io pin = write_reg t io (redir_reg pin) (read_reg t io (redir_reg pin) OR 0x10000)"

definition ioapic_unmask_entry :: "intr \<Rightarrow> ioapic \<Rightarrow> u8 \<Rightarrow> intr" where
  "ioapic_unmask_entry t io pin = write_reg t io (redir_reg pin) (read_reg t io (redir_reg pin) AND NOT 0x10000)"

definition ioapic_set_entry :: "intr \<Rightarrow> ioapic \<Rightarrow> u8 \<Rightarrow> u32 \<Rightarrow> u32 \<Rightarrow> intr" where
  "ioapic_set_entry t io pin low high = write_reg (write_reg t io (redir_reg pin) low) io (redir_reg pin + 1) high"

definition ioapic_get_entry :: "intr \<Rightarrow> ioapic \<Rightarrow> u8 \<Rightarrow> u32 \<times> u32" where
  "ioapic_get_entry t io pin = (read_reg t io (redir_reg pin), read_reg t io (redir_reg pin + 1))"

definition make_redir_low :: "u8 \<Rightarrow> u16 \<Rightarrow> bool \<Rightarrow> u32" where
  "make_redir_low vec flags masked = (ucast vec AND 0xFF) OR (if flags AND 2 \<noteq> 0 then 0x2000 else 0)
     OR (if flags AND 8 \<noteq> 0 then 0x8000 else 0) OR (if masked then 0x10000 else 0)"

definition make_redir_high :: "u8 \<Rightarrow> u32" where "make_redir_high apic = push_bit 24 (ucast apic)"

text \<open>One controller: its identification and all its entries masked at the spurious vector.\<close>

definition setup_ioapic :: "intr \<Rightarrow> u64 \<Rightarrow> u32 \<Rightarrow> intr" where
  "setup_ioapic t virt_base gsi =
     (let io = \<lparr> io_base = virt_base, io_id = 0, io_version = 0, max_redir = 0, gsi_base = gsi \<rparr>;
          ver = read_reg t io 1;
          hw = io\<lparr> io_id := ucast (drop_bit 24 (read_reg t io 0)), io_version := ucast (ver AND 0xFF),
                   max_redir := ucast (drop_bit 16 ver AND 0xFF) \<rparr>;
          t1 = fold (\<lambda>pin t. ioapic_set_entry t hw (of_nat pin) (make_redir_low 0xFF 0 True) 0)
                 [0..<unat (min (max_redir hw) 239) + 1] t
      in t1\<lparr> ioapics := ioapics t1 @ [hw] \<rparr>)"

fun ioapic_loop :: "vm \<Rightarrow> u64 \<Rightarrow> intr \<Rightarrow> ioapic_info list \<Rightarrow> (vm \<times> intr) option" where
  "ioapic_loop m root t [] = Some (m, t)"
| "ioapic_loop m root t (i # rest) = do {
     let phys = (ucast (ii_addr i) :: u64);
     m1 \<leftarrow> map_region_higher_half m root phys 0x1000 (PRESENT OR WRITABLE OR NO_EXECUTE OR CACHE_DISABLE);
     virt_base \<leftarrow> checked_add HIGHER_HALF phys;
     if MAX_IOAPICS \<le> length (ioapics t) then None
     else ioapic_loop m1 root (setup_ioapic t virt_base (ii_gsi_base i)) rest
   }"

definition ioapic_init :: "vm \<Rightarrow> intr \<Rightarrow> ioapic_info list \<Rightarrow> (vm \<times> intr) option" where
  "ioapic_init m t infos =
     (if io_ready t then Some (m, t)
      else do { (m1, t1) \<leftarrow> ioapic_loop m (current_pml4 m) t infos; Some (m1, t1\<lparr> io_ready := True \<rparr>) })"

definition ioapic_get :: "intr \<Rightarrow> nat \<Rightarrow> ioapic option" where
  "ioapic_get t i = (if i < length (ioapics t) then Some (ioapics t ! i) else None)"

definition ioapic_lookup_gsi :: "intr \<Rightarrow> u32 \<Rightarrow> (nat \<times> u8) option" where
  "ioapic_lookup_gsi t gsi =
     map_option (\<lambda>i. (i, ucast (gsi - gsi_base (ioapics t ! i))))
       (find (\<lambda>i. gsi - gsi_base (ioapics t ! i) \<le> ucast (max_redir (ioapics t ! i))) [0..<length (ioapics t)])"

section \<open>The routing table\<close>

definition alloc_vector :: "intr \<Rightarrow> intr \<times> u8 option" where
  "alloc_vector t =
     (let v = next_vector t; t1 = t\<lparr> next_vector := v + 1 \<rparr>
      in if 63 < v then (t1\<lparr> vector_exhausted := True \<rparr>, None) else (t1, Some v))"

definition build_route :: "intr \<Rightarrow> madt_info \<Rightarrow> u8 \<Rightarrow> u32 \<Rightarrow> u16 \<Rightarrow> intr \<times> irq_route option" where
  "build_route t info src gsi flags =
     (case lookup_ioapic info gsi of
        None \<Rightarrow> (t, None)
      | Some (i, pin) \<Rightarrow>
          (case alloc_vector t of
             (t1, None) \<Rightarrow> (t1, None)
           | (t1, Some v) \<Rightarrow> (t1, Some \<lparr> isa_source = src, route_gsi = gsi, ioapic_index = i, ioapic_pin = pin,
                                        route_vector = v, route_flags = flags \<rparr>)))"

definition add_route :: "intr \<Rightarrow> madt_info \<Rightarrow> u8 \<Rightarrow> u32 \<Rightarrow> u16 \<Rightarrow> intr" where
  "add_route t info src gsi flags =
     (case build_route t info src gsi flags of
        (t1, None) \<Rightarrow> t1
      | (t1, Some r) \<Rightarrow> t1\<lparr> routes := add_upto 32 (routes t1) r \<rparr>)"

fun iso_routes :: "madt_info \<Rightarrow> iso_info list \<Rightarrow> intr \<Rightarrow> u32 list \<Rightarrow> intr \<times> u32 list" where
  "iso_routes info [] t claimed = (t, claimed)"
| "iso_routes info (i # rest) t claimed =
     (if iso_bus i \<noteq> 0 \<or> 256 \<le> iso_gsi i then iso_routes info rest t claimed
      else iso_routes info rest (add_route t info (iso_source i) (iso_gsi i) (iso_flags i)) (iso_gsi i # claimed))"

definition has_iso :: "madt_info \<Rightarrow> u8 \<Rightarrow> bool" where
  "has_iso info irq = list_ex (\<lambda>i. iso_bus i = 0 \<and> iso_source i = irq) (mi_isos info)"

fun identity_routes :: "madt_info \<Rightarrow> u32 list \<Rightarrow> nat list \<Rightarrow> intr \<Rightarrow> intr" where
  "identity_routes info claimed [] t = t"
| "identity_routes info claimed (n # rest) t =
     (if has_iso info (of_nat n) \<or> of_nat n \<in> set claimed then identity_routes info claimed rest t
      else identity_routes info claimed rest (add_route t info (of_nat n) (of_nat n) 0))"

definition intr_init :: "intr \<Rightarrow> madt_info \<Rightarrow> intr" where
  "intr_init t info =
     (if routes_ready t then t
      else case iso_routes info (mi_isos info) t [] of
        (t1, claimed) \<Rightarrow> (identity_routes info claimed [0..<16] t1)\<lparr> routes_ready := True \<rparr>)"

definition lookup_isa :: "intr \<Rightarrow> u8 \<Rightarrow> irq_route option" where
  "lookup_isa t irq = find (\<lambda>r. isa_source r = irq) (routes t)"

definition lookup_gsi :: "intr \<Rightarrow> u32 \<Rightarrow> irq_route option" where
  "lookup_gsi t gsi = find (\<lambda>r. route_gsi r = gsi) (routes t)"

definition lookup_vector_isa :: "intr \<Rightarrow> u8 \<Rightarrow> u8 option" where
  "lookup_vector_isa t v = map_option isa_source (find (\<lambda>r. route_vector r = v) (routes t))"

section \<open>Programming routes\<close>

text \<open>The CPU an interrupt goes to: the first online one, starting from a rotating index.\<close>

fun route_target :: "cpu_table \<Rightarrow> nat \<Rightarrow> nat list \<Rightarrow> u8 option" where
  "route_target c n [] = Some 0"
| "route_target c n (i # rest) =
     (if 2 ^ 64 \<le> n + i then None
      else let p = percpu c ! ((n + i) mod MAX_CPUS) in
        if online p \<and> (ucast (apic_id p) :: u8) \<noteq> 255 then Some (ucast (apic_id p)) else route_target c n rest)"

definition install_route :: "intr \<Rightarrow> cpu_table \<Rightarrow> irq_route \<Rightarrow> intr option" where
  "install_route t c r =
     (case ioapic_get t (ioapic_index r) of
        None \<Rightarrow> Some t
      | Some io \<Rightarrow> do {
          target \<leftarrow> route_target c (irq_cpu_next t) [0..<MAX_CPUS];
          let t1 = t\<lparr> irq_cpu_next := (irq_cpu_next t + 1) mod 2 ^ 64 \<rparr>;
          Some (ioapic_set_entry t1 io (ioapic_pin r) (make_redir_low (route_vector r) (route_flags r) True) (make_redir_high target))
        })"

definition enable_route :: "intr \<Rightarrow> irq_route \<Rightarrow> intr" where
  "enable_route t r = (case ioapic_get t (ioapic_index r) of None \<Rightarrow> t | Some io \<Rightarrow> ioapic_unmask_entry t io (ioapic_pin r))"

fun install_routes :: "intr \<Rightarrow> cpu_table \<Rightarrow> irq_route list \<Rightarrow> intr option" where
  "install_routes t c [] = Some t"
| "install_routes t c (r # rest) = do { t1 \<leftarrow> install_route t c r; install_routes t1 c rest }"

definition install_all_masked :: "intr \<Rightarrow> cpu_table \<Rightarrow> (intr \<times> nat) option" where
  "install_all_masked t c = do { t1 \<leftarrow> install_routes t c (routes t); Some (t1, length (routes t)) }"

section \<open>Registrations of drivers\<close>

definition register_irq :: "intr \<Rightarrow> cpu_table \<Rightarrow> u32 \<Rightarrow> nat \<Rightarrow> (intr \<times> u8 option) option" where
  "register_irq t c gsi vid =
     (case lookup_gsi t gsi of
        None \<Rightarrow> Some (t, None)
      | Some r \<Rightarrow>
          if list_ex (\<lambda>e. ri_vcpu e = vid) (runtime_irqs t) then Some (t, None)
          else if 32 \<le> length (runtime_irqs t) then Some (t, None)
          else do {
            t1 \<leftarrow> install_route t c r;
            let t2 = enable_route t1 r;
            Some (t2\<lparr> runtime_irqs := runtime_irqs t2 @ [\<lparr> ri_vector = route_vector r, ri_gsi = gsi, ri_vcpu = vid \<rparr>] \<rparr>,
                  Some (route_vector r))
          })"

definition lookup_vector_driver :: "intr \<Rightarrow> u8 \<Rightarrow> nat" where
  "lookup_vector_driver t v = (case find (\<lambda>e. ri_vector e = v) (runtime_irqs t) of Some e \<Rightarrow> ri_vcpu e | None \<Rightarrow> 0)"

end
