(* ===== verification/Syscall.thy ===== *)
theory Syscall
  imports Gdf Intr
begin

text \<open>
  System calls, the second half of \<^verbatim>\<open>kernel/src/arch/idt.rs\<close>: the entry stub as its effect on the
  registers, the dispatcher with its access table and every call. A call either returns to its
  caller with a frame or leaves for another vCPU. The hardware a call reads is an argument: the
  address of the frame, the FPU state, the bytes PCI configuration reads deliver.
\<close>

section \<open>State\<close>

record idt =
  ig :: gdf
  itab :: intr
  tick_count :: u64
  pit_count :: u64
  irq_counts :: "u64 list"
  ipi_pending :: bool
  eois :: nat
  lapic_ready :: bool
  port_writes :: "(u16 \<times> nat \<times> u64) list"
  breakpoints :: "(u64 \<times> u8) list"
  step_vcpu :: int
  bp_hit :: "(nat \<times> u64 \<times> nat) option"

definition ivm :: "idt \<Rightarrow> vm" where "ivm s = gvm (ig s)"

definition set_ivm :: "idt \<Rightarrow> vm \<Rightarrow> idt" where "set_ivm s m = s\<lparr> ig := set_gvm (ig s) m \<rparr>"

definition isched :: "idt \<Rightarrow> sched" where "isched s = gs (ig s)"

definition set_isched :: "idt \<Rightarrow> sched \<Rightarrow> idt" where "set_isched s sc = s\<lparr> ig := (ig s)\<lparr> gs := sc \<rparr> \<rparr>"

definition give :: "idt \<Rightarrow> trap_frame \<Rightarrow> u64 \<Rightarrow> (idt \<times> block_result) option" where
  "give s frame v = Some (s, Returned (frame\<lparr> rax := v \<rparr>))"

definition caller :: "idt \<Rightarrow> (idt \<times> nat) option" where
  "caller s = do { (sc, vid) \<leftarrow> current_vcpu_id (isched s); Some (set_isched s sc, vid) }"

section \<open>Entry\<close>

text \<open>The registers at the \<^verbatim>\<open>syscall\<close> instruction as a frame whose \<^verbatim>\<open>rip\<close> is the return address. The
  stub tells user from kernel callers by the stack pointer, for which it uses \<^verbatim>\<open>rax\<close> and \<^verbatim>\<open>r10\<close>
  as scratch registers before it saves them. Without a kernel stack it stops for good; the pushes
  to the kernel stack do not fault.\<close>

definition syscall_entry :: "u64 \<Rightarrow> trap_frame \<Rightarrow> trap_frame option" where
  "syscall_entry kernel_stack regs =
     (let half = drop_bit 47 (rsp regs) in
      if half = 0 \<and> kernel_stack = 0 then None
      else Some (regs\<lparr> rax := half, r10 := rsp regs, rcx := rip regs, r11 := rflags regs, vector := 0,
                       error_code := 0x80, cs := 0x1B, ss := 0x23 \<rparr>))"

section \<open>User memory\<close>

text \<open>Access through the active page table; a page that is not present is a kernel fault, an abort.\<close>

fun user_load :: "vm \<Rightarrow> u64 \<Rightarrow> nat \<Rightarrow> u8 list option" where
  "user_load m va 0 = Some []"
| "user_load m va (Suc n) = do {
     r \<leftarrow> read_pte m (cr3 m AND PHYS_ADDR_MASK) va;
     pte \<leftarrow> r;
     if pte AND PRESENT = 0 then None
     else do {
       bs \<leftarrow> user_load m (va + 1) n;
       Some (byte_of (mem m ((pte AND PHYS_ADDR_MASK) OR (va AND 0xFFF))) 0 # bs)
     }
   }"

text \<open>Results: the outer \<open>None\<close> is an abort, the inner one \<^verbatim>\<open>Err\<close>.\<close>

definition copy_from_user :: "vm \<Rightarrow> u64 \<Rightarrow> nat \<Rightarrow> u8 list option option" where
  "copy_from_user m src len =
     (if len = 0 then Some (Some [])
      else case checked_add src (of_nat len) of
          None \<Rightarrow> Some None
        | Some stop \<Rightarrow>
            if HIGHER_HALF \<le> src \<or> HIGHER_HALF < stop then Some None
            else map_option Some (user_load m src len))"

partial_function (option) probe_pages :: "vm \<Rightarrow> u64 \<Rightarrow> u64 \<Rightarrow> bool option" where
  "probe_pages m addr stop =
     (if addr < stop then
        Option.bind (read_pte m (cr3 m AND 0x000FFFFFFFFFF000) addr) (\<lambda>r.
          case r of
            None \<Rightarrow> Some False
          | Some pte \<Rightarrow>
              if pte AND 1 = 0 \<or> (pte AND 2 = 0 \<and> pte AND COW = 0) then Some False
              else probe_pages m ((addr AND 0x000FFFFFFFFFF000) + 0x1000) stop)
      else Some True)"

definition copy_to_user :: "vm \<Rightarrow> u64 list \<Rightarrow> u64 \<Rightarrow> (vm \<times> bool) option" where
  "copy_to_user m ws dst =
     (if ws = [] then Some (m, True)
      else case checked_add dst (of_nat (length ws * 8)) of
          None \<Rightarrow> Some (m, False)
        | Some stop \<Rightarrow>
            if HIGHER_HALF \<le> dst \<or> HIGHER_HALF < stop then Some (m, False)
            else do {
              ok \<leftarrow> probe_pages m dst stop;
              if \<not> ok then Some (m, False)
              else do { m1 \<leftarrow> user_store m dst (words_bytes ws); Some (m1, True) }
            })"

section \<open>Calls for every vCPU\<close>

definition sys_yield :: "idt \<Rightarrow> trap_frame \<Rightarrow> u64 \<Rightarrow> fpu_state \<Rightarrow> (idt \<times> block_result) option" where
  "sys_yield s frame fa hw =
     (if sched_is_initialized (isched s)
      then do { (sc, r) \<leftarrow> block_current (isched s) frame fa hw; Some (set_isched s sc, r) }
      else Some (s, Returned frame))"

definition sys_exit :: "idt \<Rightarrow> trap_frame \<Rightarrow> u64 \<Rightarrow> fpu_state \<Rightarrow> (idt \<times> block_result) option" where
  "sys_exit s frame fa hw = sys_yield s frame fa hw"

definition sys_get_vcpu_id :: "idt \<Rightarrow> trap_frame \<Rightarrow> (idt \<times> block_result) option" where
  "sys_get_vcpu_id s frame = do { (s, vid) \<leftarrow> caller s; give s frame (of_nat vid) }"

definition sys_wake_vcpu :: "idt \<Rightarrow> trap_frame \<Rightarrow> u64 \<Rightarrow> (idt \<times> block_result) option" where
  "sys_wake_vcpu s frame vid =
     (if sched_is_initialized (isched s)
      then do { sc \<leftarrow> wake (isched s) vid; Some (set_isched s sc, Returned frame) }
      else Some (s, Returned frame))"

definition sys_get_ticks :: "idt \<Rightarrow> trap_frame \<Rightarrow> (idt \<times> block_result) option" where
  "sys_get_ticks s frame = give s frame (tick_count s)"

text \<open>The memory of the calling vCPU, if it has any, and its replacement.\<close>

definition caller_memory :: "idt \<Rightarrow> nat \<Rightarrow> (u64 \<times> process_memory) option option" where
  "caller_memory s vid =
     (case svcpu (isched s) vid of
        None \<Rightarrow> Some None
      | Some v \<Rightarrow>
          if process_mem v = 0 then Some None
          else map_option (\<lambda>pm. Some (process_mem v, pm)) (procs (sk (isched s)) (process_mem v)))"

definition set_memory :: "idt \<Rightarrow> u64 \<Rightarrow> vma_sys \<Rightarrow> process_memory \<Rightarrow> idt" where
  "set_memory s p a pm = set_isched s ((isched s)\<lparr> sk := (sk (isched s))\<lparr> kvma := a, procs := (procs (sk (isched s)))(p \<mapsto> pm) \<rparr> \<rparr>)"

definition ifree_pages :: "idt \<Rightarrow> u64 \<Rightarrow> u64 \<Rightarrow> idt option" where
  "ifree_pages s p n = do { z \<leftarrow> free_pages (vphys (ivm s)) p n; Some (set_ivm s ((ivm s)\<lparr> vphys := z \<rparr>)) }"

text \<open>Where the new mapping goes; \<open>None\<close> inside is a refusal.\<close>

definition mmap_place :: "idt \<Rightarrow> u64 \<Rightarrow> u64 \<Rightarrow> (idt \<times> u64 option) option" where
  "mmap_place s hint pages =
     (if hint \<noteq> 0 then
        if HIGHER_HALF \<le> hint \<or> hint AND 0xFFF \<noteq> 0 then Some (s, None)
        else do {
          (s, vid) \<leftarrow> caller s;
          mm \<leftarrow> caller_memory s vid;
          overlap \<leftarrow> (case mm of
              None \<Rightarrow> Some False
            | Some (_, pm) \<Rightarrow> do {
                stop \<leftarrow> checked_add hint (pages * 0x1000);
                has_overlap (kvma (sk (isched s))) (vma_tree pm) hint stop
              });
          Some (s, if overlap then None else Some hint)
        }
      else do {
        (s, vid) \<leftarrow> caller s;
        mm \<leftarrow> caller_memory s vid;
        (case mm of
           None \<Rightarrow> Some (s, None)
         | Some (p, pm) \<Rightarrow> do {
             (pm', a) \<leftarrow> alloc_user_vaddr (kvma (sk (isched s))) pm (pages * 0x1000);
             Some (set_memory s p (kvma (sk (isched s))) pm', a)
           })
      })"

definition sys_mmap :: "idt \<Rightarrow> (nat \<Rightarrow> u64) \<Rightarrow> trap_frame \<Rightarrow> u64 \<Rightarrow> u64 \<Rightarrow> (idt \<times> block_result) option" where
  "sys_mmap s box_at frame hint sz =
     (if \<not> sched_is_initialized (isched s) then give s frame (- 1)
      else do {
        let map_fixed = (sz AND 1 \<noteq> 0);
        up \<leftarrow> checked_add (max (sz AND NOT 1) 0x1000) 0xFFF;
        let pages = up div 0x1000;
        (z, r) \<leftarrow> alloc_pages (vphys (ivm s)) pages;
        let s = set_ivm s ((ivm s)\<lparr> vphys := z \<rparr>);
        (case r of
           None \<Rightarrow> give s frame (- 1)
         | Some phys \<Rightarrow> do {
             let root = cr3 (ivm s) AND 0x000FFFFFFFFFF000;
             (s, place) \<leftarrow> mmap_place s hint pages;
             (case place of
                None \<Rightarrow> do { s \<leftarrow> ifree_pages s phys pages; give s frame (- 1) }
              | Some virt \<Rightarrow> do {
                  m1 \<leftarrow> (if map_fixed then unmap_mmio (ivm s) virt [0..<unat pages] else Some (ivm s));
                  m2 \<leftarrow> map_contiguous m1 root virt phys pages (DATA OR USER);
                  (s, vid) \<leftarrow> caller (set_ivm s m2);
                  mm \<leftarrow> caller_memory s vid;
                  (case mm of
                     None \<Rightarrow> give s frame virt
                   | Some (p, pm) \<Rightarrow> do {
                       stop \<leftarrow> checked_add virt (pages * 0x1000);
                       (a, pm') \<leftarrow> add_vma (kvma (sk (isched s))) pm (box_at (gbox (ig s))) virt stop PermReadWrite;
                       let s = set_memory s p a pm';
                       give (s\<lparr> ig := (ig s)\<lparr> gbox := gbox (ig s) + 1 \<rparr> \<rparr>) frame virt
                     })
                })
           })
      })"

fun munmap_loop :: "vm \<Rightarrow> u64 \<Rightarrow> u64 \<Rightarrow> nat list \<Rightarrow> vm option" where
  "munmap_loop m root addr [] = Some m"
| "munmap_loop m root addr (p # rest) = do {
     o1 \<leftarrow> checked_mul (of_nat p) 0x1000;
     virt \<leftarrow> checked_add addr o1;
     r \<leftarrow> read_pte m root virt;
     let cow = (case r of None \<Rightarrow> False | Some pte \<Rightarrow> pte AND COW \<noteq> 0);
     t \<leftarrow> translate m virt;
     m1 \<leftarrow> unmap m virt;
     m2 \<leftarrow> (case t of
         Some phys \<Rightarrow> if cow then Some m1 else vm_free_page m1 (phys AND 0x000FFFFFFFFFF000)
       | None \<Rightarrow> Some m1);
     munmap_loop m2 root addr rest
   }"

definition sys_munmap :: "idt \<Rightarrow> trap_frame \<Rightarrow> u64 \<Rightarrow> u64 \<Rightarrow> (idt \<times> block_result) option" where
  "sys_munmap s frame addr sz =
     (if \<not> sched_is_initialized (isched s) then give s frame (- 1)
      else if HIGHER_HALF \<le> addr then give s frame (- 1)
      else do {
        up \<leftarrow> checked_add (max sz 0x1000) 0xFFF;
        m \<leftarrow> munmap_loop (ivm s) (cr3 (ivm s) AND NOT 0xFFF) addr [0..<unat (up div 0x1000)];
        (s, vid) \<leftarrow> caller (set_ivm s m);
        mm \<leftarrow> caller_memory s vid;
        (case mm of
           None \<Rightarrow> give s frame 0
         | Some (p, pm) \<Rightarrow> do {
             (a, root, _) \<leftarrow> vma_remove (kvma (sk (isched s))) (vma_tree pm) addr;
             give (set_memory s p a (pm\<lparr> vma_tree := root \<rparr>)) frame 0
           })
      })"

definition sys_create_gang :: "idt \<Rightarrow> trap_frame \<Rightarrow> u64 \<Rightarrow> u64 \<Rightarrow> u64 \<Rightarrow> (idt \<times> block_result) option" where
  "sys_create_gang s frame entry n_vcpus name_ptr =
     (if \<not> sched_is_initialized (isched s) then give s frame (- 1)
      else do {
        nm \<leftarrow> copy_from_user (ivm s) name_ptr 32;
        (case nm of
           None \<Rightarrow> give s frame (- 1)
         | Some name \<Rightarrow> do {
             (sc, r) \<leftarrow> create_gang (isched s) (unat (max n_vcpus 1) mod 2 ^ 32) entry 0 name None;
             give (set_isched s sc) frame (case r of None \<Rightarrow> - 1 | Some g \<Rightarrow> of_nat g)
           })
      })"

section \<open>Calls for hardware drivers\<close>

definition sys_mmap_phys :: "idt \<Rightarrow> trap_frame \<Rightarrow> u64 \<Rightarrow> u64 \<Rightarrow> (idt \<times> block_result) option" where
  "sys_mmap_phys s frame phys sz = do {
     (s, vid) \<leftarrow> caller s;
     (case svcpu (isched s) vid of
        None \<Rightarrow> give s frame (- 1)
      | Some v \<Rightarrow>
          if phys = 0 \<or> sz = 0 then give s frame (- 1)
          else do {
            let pages = saturating_add (max sz 0x1000) 0xFFF div 0x1000;
            bytes \<leftarrow> checked_mul pages 0x1000;
            (case checked_add phys bytes of
               None \<Rightarrow> give s frame (- 1)
             | Some _ \<Rightarrow> do {
                 m \<leftarrow> map_contiguous (ivm s) (vpml4 v) phys phys pages
                        (PRESENT OR WRITABLE OR CACHE_DISABLE OR NO_EXECUTE OR USER);
                 let s = set_ivm s m;
                 give (s\<lparr> ig := fst (track_service_mmio (ig s) vid phys phys pages) \<rparr>) frame phys
               })
          })
   }"

definition sys_register_intr :: "idt \<Rightarrow> trap_frame \<Rightarrow> u64 \<Rightarrow> (idt \<times> block_result) option" where
  "sys_register_intr s frame gsi = do {
     (s, vid) \<leftarrow> caller s;
     (t, r) \<leftarrow> register_irq (itab s) (scpus (isched s)) (ucast gsi) vid;
     give (s\<lparr> itab := t \<rparr>) frame (case r of None \<Rightarrow> - 1 | Some v \<Rightarrow> ucast v)
   }"

definition sys_intr_ack :: "idt \<Rightarrow> trap_frame \<Rightarrow> (idt \<times> block_result) option" where
  "sys_intr_ack s frame = give (s\<lparr> eois := eois s + 1 \<rparr>) frame 0"

fun flush_pages :: "vm \<Rightarrow> u64 \<Rightarrow> nat list \<Rightarrow> vm option" where
  "flush_pages m base [] = Some m"
| "flush_pages m base (p # rest) = do {
     o1 \<leftarrow> checked_mul (of_nat p) 0x1000;
     a \<leftarrow> checked_add base o1;
     m1 \<leftarrow> flush_page_all m a;
     flush_pages m1 base rest
   }"

text \<open>Giving the kernel mapping of a buffer new flags, on every CPU.\<close>

definition remap_buffer :: "vm \<Rightarrow> u64 \<Rightarrow> u64 \<Rightarrow> u64 \<Rightarrow> vm option" where
  "remap_buffer m phys pages flags = do {
     virt \<leftarrow> checked_add HIGHER_HALF phys;
     m1 \<leftarrow> map_contiguous m (kernel_pml4 m) virt phys pages flags;
     flush_pages m1 virt [0..<unat pages]
   }"

definition sys_dma_alloc :: "idt \<Rightarrow> trap_frame \<Rightarrow> u64 \<Rightarrow> (idt \<times> block_result) option" where
  "sys_dma_alloc s frame sz = do {
     (s, vid) \<leftarrow> caller s;
     let pages = saturating_add (max sz 0x1000) 0xFFF div 0x1000;
     (z, r) \<leftarrow> alloc_pages (vphys (ivm s)) pages;
     let s = set_ivm s ((ivm s)\<lparr> vphys := z \<rparr>);
     (case r of
        None \<Rightarrow> give s frame (- 1)
      | Some phys \<Rightarrow> do {
          m1 \<leftarrow> remap_buffer (ivm s) phys pages (DATA OR USER);
          bytes \<leftarrow> checked_mul pages 0x1000;
          let s = set_ivm s (zero_bytes m1 phys bytes);
          (case track_service_dma (ig s) vid phys pages of
             (g, True) \<Rightarrow> give (s\<lparr> ig := g \<rparr>) frame phys
           | (g, False) \<Rightarrow> do {
               let s = s\<lparr> ig := g \<rparr>;
               m2 \<leftarrow> remap_buffer (ivm s) phys pages DATA;
               s \<leftarrow> ifree_pages (set_ivm s m2) phys pages;
               give s frame (- 1)
             })
        })
   }"

definition sys_dma_free :: "idt \<Rightarrow> trap_frame \<Rightarrow> u64 \<Rightarrow> (idt \<times> block_result) option" where
  "sys_dma_free s frame phys = do {
     (s, vid) \<leftarrow> caller s;
     (case untrack_service_dma (ig s) vid phys of
        (g, None) \<Rightarrow> give (s\<lparr> ig := g \<rparr>) frame (- 1)
      | (g, Some pages) \<Rightarrow> do {
          let s = s\<lparr> ig := g \<rparr>;
          m \<leftarrow> remap_buffer (ivm s) phys pages DATA;
          s \<leftarrow> ifree_pages (set_ivm s m) phys pages;
          give s frame 0
        })
   }"

text \<open>\<open>port_in w\<close> is what reading \<open>w\<close> bytes from the data port delivers.\<close>

definition sys_pci_config :: "idt \<Rightarrow> (nat \<Rightarrow> u64) \<Rightarrow> trap_frame \<Rightarrow> u64 \<Rightarrow> u64 \<Rightarrow> u64 \<Rightarrow> u64 \<Rightarrow> u64
    \<Rightarrow> (idt \<times> block_result) option" where
  "sys_pci_config s port_in frame bdf offset width value is_write =
     (if 0xFFFF < bdf \<or> 0xFF < offset \<or> (width \<noteq> 1 \<and> width \<noteq> 2 \<and> width \<noteq> 4) then give s frame (- 1)
      else
        let addr = 0x80000000 OR push_bit 8 bdf OR (offset AND 0xFC);
            w = unat width;
            s1 = s\<lparr> port_writes := port_writes s @ [(0xCF8, 4, addr)] \<rparr>
        in if is_write \<noteq> 0
           then give (s1\<lparr> port_writes := port_writes s1 @ [(0xCFC, w, take_bit (8 * w) value)] \<rparr>) frame 0
           else give s1 frame (take_bit (8 * w) (port_in w)))"

section \<open>Calls for drivers\<close>

text \<open>Handing a received message to the caller's buffer.\<close>

definition deliver_message :: "idt \<Rightarrow> trap_frame \<Rightarrow> u64 \<Rightarrow> u32 \<times> u64 \<times> u64 \<times> u64 \<Rightarrow> (idt \<times> block_result) option" where
  "deliver_message s frame buf msg =
     (case msg of (cmd, a0, a1, a2) \<Rightarrow> do {
        (m, ok) \<leftarrow> copy_to_user (ivm s) [ucast cmd, a0, a1, a2] buf;
        give (set_ivm s m) frame (if ok then 0 else - 1)
      })"

definition sys_driver_recv :: "idt \<Rightarrow> trap_frame \<Rightarrow> u64 \<Rightarrow> (idt \<times> block_result) option" where
  "sys_driver_recv s frame buf = do {
     (s, vid) \<leftarrow> caller s;
     (case recv (ig s) vid of
        (g, None) \<Rightarrow> give s frame (- 1)
      | (g, Some msg) \<Rightarrow> deliver_message (s\<lparr> ig := g \<rparr>) frame buf msg)
   }"

definition sys_driver_send :: "idt \<Rightarrow> trap_frame \<Rightarrow> u64 \<Rightarrow> (idt \<times> block_result) option" where
  "sys_driver_send s frame result = do {
     (s, vid) \<leftarrow> caller s;
     (g, ok) \<leftarrow> send_response (ig s) vid result;
     give (s\<lparr> ig := g \<rparr>) frame (if ok then 0 else - 1)
   }"

text \<open>The part up to the decision to block; \<open>Inr\<close> carries the result of the fast path.\<close>

definition recv_block_fast :: "idt \<Rightarrow> trap_frame \<Rightarrow> u64 \<Rightarrow> (idt \<times> (nat + block_result)) option" where
  "recv_block_fast s frame buf =
     (if HIGHER_HALF \<le> buf then Some (s, Inr (Returned (frame\<lparr> rax := - 1 \<rparr>)))
      else do {
        (s, vid) \<leftarrow> caller s;
        (case recv (ig s) vid of
           (g, Some msg) \<Rightarrow> do { (s, r) \<leftarrow> deliver_message (s\<lparr> ig := g \<rparr>) frame buf msg; Some (s, Inr r) }
         | (g, None) \<Rightarrow> Some (s, Inl vid))
      })"

text \<open>Blocking. When another vCPU takes over, the code behind \<^verbatim>\<open>block_current\<close> is never reached: the
  caller resumes from the frame that was saved.\<close>

definition recv_block_slow :: "idt \<Rightarrow> trap_frame \<Rightarrow> u64 \<Rightarrow> nat \<Rightarrow> u64 \<Rightarrow> fpu_state \<Rightarrow> (idt \<times> block_result) option" where
  "recv_block_slow s frame buf vid fa hw = do {
     (g, r) \<leftarrow> gblock (ig s) (frame\<lparr> rax := 0 \<rparr>) fa hw;
     let s = s\<lparr> ig := g \<rparr>;
     (case r of
        SwitchedTo f fpu \<Rightarrow> Some (s, SwitchedTo f fpu)
      | Returned f \<Rightarrow>
          (case recv (ig s) vid of
             (g, Some msg) \<Rightarrow> deliver_message (s\<lparr> ig := g \<rparr>) f buf msg
           | (g, None) \<Rightarrow> give s f (- 1)))
   }"

definition sys_driver_recv_block :: "idt \<Rightarrow> trap_frame \<Rightarrow> u64 \<Rightarrow> u64 \<Rightarrow> fpu_state \<Rightarrow> (idt \<times> block_result) option" where
  "sys_driver_recv_block s frame buf fa hw = do {
     (s, r) \<leftarrow> recv_block_fast s frame buf;
     (case r of Inr res \<Rightarrow> Some (s, res) | Inl vid \<Rightarrow> recv_block_slow s frame buf vid fa hw)
   }"

definition sys_driver_call :: "idt \<Rightarrow> trap_frame \<Rightarrow> u64 \<Rightarrow> u64 \<Rightarrow> u64 \<Rightarrow> u64 \<Rightarrow> u64 \<Rightarrow> u64 \<Rightarrow> u64 \<Rightarrow> fpu_state
    \<Rightarrow> (idt \<times> block_result) option" where
  "sys_driver_call s frame name_ptr name_len cmd a0 a1 a2 fa hw =
     (if 31 < name_len \<or> name_len = 0 then give s frame (- 1)
      else do {
        nm \<leftarrow> copy_from_user (ivm s) name_ptr (unat name_len);
        (case nm of
           None \<Rightarrow> give s frame (- 1)
         | Some name \<Rightarrow> do {
             (g, ok, r) \<leftarrow> driver_call (ig s) name (ucast cmd) a0 a1 a2 frame fa hw;
             let s = s\<lparr> ig := g \<rparr>;
             (if ok then Some (s, r) else give s frame (- 1))
           })
      })"

definition sys_gdf_register :: "idt \<Rightarrow> trap_frame \<Rightarrow> u64 \<Rightarrow> u64 \<Rightarrow> (idt \<times> block_result) option" where
  "sys_gdf_register s frame name_ptr name_len =
     (if 31 < name_len \<or> name_len = 0 then give s frame (- 1)
      else do {
        nm \<leftarrow> copy_from_user (ivm s) name_ptr (unat name_len);
        (case nm of
           None \<Rightarrow> give s frame (- 1)
         | Some name \<Rightarrow> do {
             (s, vid) \<leftarrow> caller s;
             (case register_driver (ig s) name vid (get_vcpu_type (sk (isched s)) vid) of
                (g, ok) \<Rightarrow> give (s\<lparr> ig := g \<rparr>) frame (if ok then 0 else - 1))
           })
      })"

section \<open>The dispatcher\<close>

definition syscall_allowed :: "vcpu_type \<Rightarrow> u64 \<Rightarrow> bool" where
  "syscall_allowed ty nr =
     (if ty = IdleType then False
      else if nr \<le> 7 then True
      else if ty = HardwareDriver \<and> 10 \<le> nr \<and> nr \<le> 15 then True
      else ty \<in> {HardwareDriver, AbstractionDriver} \<and> (20 \<le> nr \<and> nr \<le> 22 \<or> nr = 30 \<or> nr = 31))"

definition sanitize_frame :: "trap_frame \<Rightarrow> trap_frame" where
  "sanitize_frame frame =
     (let f = frame\<lparr> rflags := rflags frame AND 0x300000D7 \<rparr>
      in if HIGHER_HALF \<le> rsp f then f\<lparr> cs := 0x08, ss := 0x10 \<rparr> else f\<lparr> cs := 0x1B, ss := 0x23 \<rparr>)"

definition syscall_handler :: "idt \<Rightarrow> (nat \<Rightarrow> u64) \<Rightarrow> (nat \<Rightarrow> u64) \<Rightarrow> trap_frame \<Rightarrow> u64 \<Rightarrow> fpu_state
    \<Rightarrow> (idt \<times> block_result) option" where
  "syscall_handler s box_at port_in frame0 fa hw = do {
     let frame = sanitize_frame frame0;
     let nr = rax frame;
     (s, vid) \<leftarrow> caller s;
     (if \<not> syscall_allowed (get_vcpu_type (sk (isched s)) vid) nr then give s frame (- 1)
      else
        let arg0 = rdi frame; arg1 = rsi frame; arg2 = rdx frame in
        if nr = 0 then sys_yield s frame fa hw
        else if nr = 1 then sys_exit s frame fa hw
        else if nr = 2 then sys_get_vcpu_id s frame
        else if nr = 3 then sys_wake_vcpu s frame arg0
        else if nr = 4 then sys_get_ticks s frame
        else if nr = 5 then sys_mmap s box_at frame arg0 arg1
        else if nr = 6 then sys_munmap s frame arg0 arg1
        else if nr = 7 then sys_create_gang s frame arg0 arg1 arg2
        else if nr = 10 then sys_mmap_phys s frame arg0 arg1
        else if nr = 11 then sys_register_intr s frame arg0
        else if nr = 12 then sys_intr_ack s frame
        else if nr = 13 then sys_dma_alloc s frame arg0
        else if nr = 14 then sys_dma_free s frame arg0
        else if nr = 15 then sys_pci_config s port_in frame arg0 arg1 arg2 (r10 frame) (r8 frame)
        else if nr = 20 then sys_driver_recv s frame arg0
        else if nr = 21 then sys_driver_send s frame arg0
        else if nr = 22 then sys_driver_recv_block s frame arg0 fa hw
        else if nr = 30 then sys_gdf_register s frame arg0 arg1
        else if nr = 31 then sys_driver_call s frame arg0 arg1 arg2 (r10 frame) (r8 frame) (r9 frame) fa hw
        else None)
   }"

text \<open>The whole path of a system call. \<^verbatim>\<open>iretq\<close> returns to the frame the handler leaves.\<close>

definition syscall :: "idt \<Rightarrow> (nat \<Rightarrow> u64) \<Rightarrow> (nat \<Rightarrow> u64) \<Rightarrow> u64 \<Rightarrow> trap_frame \<Rightarrow> u64 \<Rightarrow> fpu_state
    \<Rightarrow> (idt \<times> block_result) option" where
  "syscall s box_at port_in kernel_stack regs fa hw = do {
     frame \<leftarrow> syscall_entry kernel_stack regs;
     syscall_handler s box_at port_in frame fa hw
   }"

end
