(* ===== verification/Interrupt.thy ===== *)
theory Interrupt
  imports Syscall
begin

text \<open>
  Interrupts and exceptions, the first half of \<^verbatim>\<open>kernel/src/arch/idt.rs\<close>: the dispatcher, the timer and
  device interrupts, the inter-processor interrupt, faults with their recovery and the debugger's
  traps. What a handler reads from the hardware or from the debugger's flags is the record
  \<open>trap_env\<close>. Console input, logging and the register dumps are not modelled.
\<close>

record trap_env =
  frame_addr :: u64
  fpu_now :: fpu_state
  cr2 :: u64
  dr6 :: u64
  halt_mode :: bool
  freeze :: bool
  flush_request :: u64
  skip_fault :: "nat option option"
  wait_entry :: u64

datatype trap_result = Resume trap_frame | SwitchTo trap_frame fpu_state | HaltLoop

definition send_eoi :: "idt \<Rightarrow> idt" where "send_eoi s = s\<lparr> eois := eois s + 1 \<rparr>"

definition eoi_if_ready :: "idt \<Rightarrow> idt" where "eoi_if_ready s = (if lapic_ready s then send_eoi s else s)"

definition set_icpu :: "idt \<Rightarrow> nat \<Rightarrow> (per_cpu \<Rightarrow> per_cpu) \<Rightarrow> idt" where
  "set_icpu s slot f = set_isched s (set_cpus (isched s) (set_cpu (scpus (isched s)) slot f))"

definition this_slot :: "idt \<Rightarrow> (idt \<times> nat) option" where
  "this_slot s = do { (sc, slot) \<leftarrow> current_cpu_slot (isched s); Some (set_isched s sc, slot) }"

section \<open>Timer and device interrupts\<close>

text \<open>The timer handler executes \<^verbatim>\<open>fninit\<close> to initialise its buffer before the scheduler saves the FPU
  state of the interrupted vCPU.\<close>

definition timer_interrupt :: "idt \<Rightarrow> trap_env \<Rightarrow> trap_frame \<Rightarrow> (idt \<times> trap_result) option" where
  "timer_interrupt s e frame =
     (if halt_mode e then Some (eoi_if_ready s, Resume frame)
      else do {
        t \<leftarrow> checked_add (tick_count s) 1;
        (s, slot) \<leftarrow> this_slot (s\<lparr> tick_count := t \<rparr>);
        n \<leftarrow> checked_add (timer_fires (percpu (scpus (isched s)) ! slot)) 1;
        let s = set_icpu s slot (timer_fires_update (\<lambda>_. n));
        (if \<not> sched_is_initialized (isched s) then Some (s, Resume frame)
         else do {
           let fx = fninit (fpu_now e);
           r \<leftarrow> schedule (isched s) frame (frame_addr e) fx fx;
           let s = eoi_if_ready (set_isched s (os r));
           (if switched r
            then Some (if next_pml4 r \<noteq> 0 then set_ivm s ((ivm s)\<lparr> cr3 := next_pml4 r \<rparr>) else s,
                       SwitchTo (oframe r) (ofpu r))
            else Some (s, Resume (oframe r)))
         })
      })"

definition irq_handler :: "idt \<Rightarrow> trap_env \<Rightarrow> trap_frame \<Rightarrow> (idt \<times> trap_result) option" where
  "irq_handler s e frame =
     (if vector frame = 32 then timer_interrupt s e frame
      else do {
        let s = eoi_if_ready s;
        let v = (ucast (vector frame) :: u8);
        let s = (if lookup_vector_isa (itab s) v = Some 0 then s\<lparr> pit_count := pit_count s + 1 \<rparr> else s);
        let d = lookup_vector_driver (itab s) v;
        (if d \<noteq> 0 then do { sc \<leftarrow> wake (isched s) (of_nat d); Some (set_isched s sc, Resume frame) }
         else Some (s, Resume frame))
      })"

definition ipi_handler :: "idt \<Rightarrow> trap_env \<Rightarrow> trap_frame \<Rightarrow> (idt \<times> trap_result) option" where
  "ipi_handler s e frame = do {
     let s = s\<lparr> ipi_pending := True \<rparr>;
     s \<leftarrow> (if flush_request e \<noteq> 0 then do {
             (s, _) \<leftarrow> this_slot (set_ivm s ((ivm s)\<lparr> tlb_log := tlb_log (ivm s) @ [FlushLocal (flush_request e)] \<rparr>));
             Some s
           } else Some s);
     Some (send_eoi s, Resume frame)
   }"

section \<open>Exceptions\<close>

text \<open>Stopping the current vCPU for the debugger: the CPU goes on in the debugger's wait loop.\<close>

definition debug_halt :: "idt \<Rightarrow> trap_env \<Rightarrow> nat \<Rightarrow> nat \<Rightarrow> u64 \<Rightarrow> nat \<Rightarrow> trap_frame \<Rightarrow> idt \<times> trap_result" where
  "debug_halt s e cpu vid addr vec frame =
     (let sc = with_mut (isched s) vid (\<lambda>v. v\<lparr> saved_frame := frame, vstate := Halted \<rparr>);
          sc' = set_cpus sc (set_current_vcpu (scpus sc) cpu (idle_vcpu (scpus sc) cpu))
      in ((set_isched s sc')\<lparr> bp_hit := Some (vid, addr, vec) \<rparr>,
          Resume (frame\<lparr> rip := wait_entry e, cs := 0x08, rflags := 0x202 \<rparr>)))"

definition debug_exception :: "idt \<Rightarrow> trap_env \<Rightarrow> trap_frame \<Rightarrow> (idt \<times> trap_result) option" where
  "debug_exception s e frame = do {
     (s, cpu) \<leftarrow> (if dr6 e AND 0x4000 \<noteq> 0 \<or> dr6 e AND 1 \<noteq> 0 then this_slot s else Some (s, 0));
     let vid = current_vcpu (scpus (isched s)) cpu mod 2 ^ 32;
     Some (if dr6 e AND 0x4000 \<noteq> 0 \<and> sint (of_nat vid :: u32) = step_vcpu s
           then debug_halt (s\<lparr> step_vcpu := - 1 \<rparr>) e cpu vid (rip frame) 1 (frame\<lparr> rflags := rflags frame AND NOT 0x100 \<rparr>)
           else if dr6 e AND 1 \<noteq> 0 then debug_halt s e cpu vid (rip frame) 1 frame
           else (s, Resume frame))
   }"

definition breakpoint_exception :: "idt \<Rightarrow> trap_env \<Rightarrow> trap_frame \<Rightarrow> (idt \<times> trap_result) option" where
  "breakpoint_exception s e frame = do {
     let addr = rip frame - 1;
     s \<leftarrow> (case find (\<lambda>b. fst b = addr) (breakpoints s) of
             None \<Rightarrow> Some s
           | Some b \<Rightarrow> do { m \<leftarrow> user_store (ivm s) addr [snd b]; Some (set_ivm s m) });
     (s, cpu) \<leftarrow> this_slot s;
     Some (debug_halt s e cpu (current_vcpu (scpus (isched s)) cpu mod 2 ^ 32) addr 3 frame)
   }"

definition page_fault :: "idt \<Rightarrow> trap_env \<Rightarrow> trap_frame \<Rightarrow> (idt \<times> bool) option" where
  "page_fault s e frame = do {
     (s, mm) \<leftarrow> (if error_code frame AND 1 = 0 \<and> error_code frame AND 4 \<noteq> 0
                 then do { (s, vid) \<leftarrow> caller s; mm \<leftarrow> caller_memory s vid; Some (s, map_option snd mm) }
                 else Some (s, None));
     (a, ok) \<leftarrow> handle_page_fault (kvma (sk (isched s))) mm (cr2 e) (error_code frame);
     Some (s\<lparr> ig := set_kvma (ig s) a \<rparr>, ok)
   }"

text \<open>A fault nothing has resolved: the debugger's own faults are skipped, faults of drivers end the
  driver, every other fault stops the machine.\<close>

definition unresolved :: "idt \<Rightarrow> trap_env \<Rightarrow> trap_frame \<Rightarrow> (idt \<times> trap_result) option" where
  "unresolved s e frame =
     (case (if vector frame = 13 \<or> vector frame = 14 then skip_fault e else None) of
        Some len \<Rightarrow> do {
          a \<leftarrow> checked_add (rip frame) (case len of Some n \<Rightarrow> of_nat n | None \<Rightarrow> 1);
          Some (s, Resume (frame\<lparr> rip := a \<rparr>))
        }
      | None \<Rightarrow>
          if vector frame = 8 \<or> vector frame = 18 \<or> HIGHER_HALF \<le> rip frame then Some (s, HaltLoop)
          else do {
            (s, vid) \<leftarrow> caller s;
            (if is_driver (isched s) vid then do {
               (g, f) \<leftarrow> recover_from_crash (ig s) vid frame;
               Some (s\<lparr> ig := g \<rparr>, Resume f)
             } else Some (s, HaltLoop))
          })"

definition exception_handler :: "idt \<Rightarrow> trap_env \<Rightarrow> trap_frame \<Rightarrow> (idt \<times> trap_result) option" where
  "exception_handler s e frame =
     (if vector frame = 1 then debug_exception s e frame
      else if vector frame = 3 then breakpoint_exception s e frame
      else if vector frame = 14 then do {
        (s, ok) \<leftarrow> page_fault s e frame;
        if ok then Some (s, Resume frame) else unresolved s e frame
      }
      else unresolved s e frame)"

section \<open>The dispatcher\<close>

definition pending_flush :: "idt \<Rightarrow> nat \<Rightarrow> idt" where
  "pending_flush s slot =
     (let p = pending_tlb_flush (percpu (scpus (isched s)) ! slot);
          s1 = set_icpu s slot (\<lambda>c. c\<lparr> pending_tlb_flush := 0, saved_cr3 := cr3 (ivm s) \<rparr>)
      in if p = - 1 then set_ivm s1 ((ivm s1)\<lparr> tlb_log := tlb_log (ivm s1) @ [ReloadCr3] \<rparr>)
         else if p \<noteq> 0 then set_ivm s1 ((ivm s1)\<lparr> tlb_log := tlb_log (ivm s1) @ [FlushLocal p] \<rparr>)
         else s1)"

definition count_irq :: "idt \<Rightarrow> u64 \<Rightarrow> idt" where
  "count_irq s v = (if v < 256 then s\<lparr> irq_counts := (irq_counts s)[unat v := irq_counts s ! unat v + 1] \<rparr> else s)"

definition interrupt_dispatcher :: "idt \<Rightarrow> trap_env \<Rightarrow> trap_frame \<Rightarrow> (idt \<times> trap_result) option" where
  "interrupt_dispatcher s e frame =
     (if frame_addr e mod 16 \<noteq> 0 then None
      else do {
        (s, slot) \<leftarrow> this_slot s;
        let s = count_irq (pending_flush s slot) (vector frame);
        let v = vector frame;
        (if v = 2 then Some (if freeze e then (s, HaltLoop) else (send_eoi s, Resume frame))
         else if v \<le> 31 then exception_handler s e frame
         else if v \<le> 63 then irq_handler s e frame
         else if v = 0x81 then ipi_handler s e frame
         else if v = 0xFF then Some (s, Resume frame)
         else exception_handler s e frame)
      })"

end
