(* ===== verification/Sched_Keeps.thy ===== *)
theory Sched_Keeps
  imports Sched_Correct
begin

text \<open>
  What the operations leave alone. \<open>runs\<close> is the part of the per-CPU table that says which vCPU is
  a CPU's current one and which one is its idle vCPU; mapping, unmapping and freeing memory keep it, and
  they keep the slots by which a CPU finds its entry.
\<close>

declare upt_rec_numeral [simp del]

section \<open>Per-CPU table\<close>

definition runs :: "cpu_table \<Rightarrow> (nat \<times> nat) list" where
  "runs c = map (\<lambda>p. (cur_vcpu p, idle_vcpu_id p)) (percpu c)"

named_theorems runs_keep \<open>operations that keep what every CPU runs\<close>

lemma runs_set_cpu:
  assumes "\<And>p. cur_vcpu (f p) = cur_vcpu p \<and> idle_vcpu_id (f p) = idle_vcpu_id p"
  shows "runs (set_cpu c i f) = runs c"
proof (rule nth_equalityI)
  show "length (runs (set_cpu c i f)) = length (runs c)" by (simp add: runs_def set_cpu_def)
  fix j assume "j < length (runs (set_cpu c i f))"
  then have j: "j < length (percpu c)" by (simp add: runs_def set_cpu_def)
  then show "runs (set_cpu c i f) ! j = runs c ! j"
    by (cases "j = i") (simp_all add: runs_def set_cpu_def nth_list_update assms)
qed

lemma slots_set_cpu [simp]: "apic_to_slot (set_cpu c i f) = apic_to_slot c"
  by (simp add: set_cpu_def)

lemma runs_find_slot [runs_keep]: "find_slot c a = (c', r) \<Longrightarrow> runs c' = runs c \<and> apic_to_slot c' = apic_to_slot c"
  by (auto simp: find_slot_def runs_set_cpu split: option.splits)

lemma runs_apic_slot [runs_keep]: "apic_id_to_slot c a = Some (c', r) \<Longrightarrow> runs c' = runs c \<and> apic_to_slot c' = apic_to_slot c"
  by (auto simp: apic_id_to_slot_def slot_for_def split: if_splits prod.splits option.splits dest: runs_find_slot)

lemma runs_add_task_count [simp]: "runs (add_task_count c cpu d) = runs c"
  by (simp add: add_task_count_def runs_set_cpu)

lemma runs_queue [simp]: "runs (set_cpu c i (run_queue_update f)) = runs c"
  by (simp add: runs_set_cpu)

lemma runs_set_pending [simp]: "runs (set_pending_flush c cpu a) = runs c"
  "apic_to_slot (set_pending_flush c cpu a) = apic_to_slot c"
  by (simp_all add: set_pending_flush_def Let_def runs_set_cpu)

lemma runs_flush_others [simp]: "runs (flush_others c cpu a is) = runs c"
  "apic_to_slot (flush_others c cpu a is) = apic_to_slot c"
  by (induction "is" arbitrary: c) simp_all

section \<open>Memory operations\<close>

type_synonym cpu_view = "(nat \<times> nat) list \<times> (nat \<Rightarrow> u8) \<times> u32"

definition vruns :: "vm \<Rightarrow> cpu_view" where
  "vruns m = (runs (cpus m), apic_to_slot (cpus m), this_apic m)"

lemma vruns_update [simp]: "vruns (m\<lparr> vphys := z \<rparr>) = vruns m" "vruns (m\<lparr> mem := f \<rparr>) = vruns m"
  "vruns (m\<lparr> tlb_log := t \<rparr>) = vruns m" "vruns (m\<lparr> cr3 := p \<rparr>) = vruns m"
  "vruns (m\<lparr> cpus := c \<rparr>) = (runs c, apic_to_slot c, this_apic m)"
  by (simp_all add: vruns_def)

lemma vruns_eqD: "vruns m' = vruns m \<Longrightarrow>
    runs (cpus m') = runs (cpus m) \<and> apic_to_slot (cpus m') = apic_to_slot (cpus m) \<and> this_apic m' = this_apic m"
  by (simp add: vruns_def)

lemma vruns_simps [simp]:
  "vruns (write_word m a v) = vruns m" "vruns (new_zeroed m t) = vruns m" "vruns (or_entry m a v) = vruns m"
  "vruns (send_ipi_others m) = vruns m" "vruns (zero_bytes m a n) = vruns m"
  by (simp_all add: write_word_def new_zeroed_def or_entry_def send_ipi_others_def zero_bytes_def)

lemma vruns_tlb_flush [runs_keep]: "tlb_flush m a = Some m' \<Longrightarrow> vruns m' = vruns m"
  by (auto simp: tlb_flush_def split: if_splits)

lemma vruns_flush_range [runs_keep]: "flush_range m a b = Some m' \<Longrightarrow> vruns m' = vruns m"
  by (induction m a b rule: flush_range.induct)
    (subst (asm) (2) flush_range.simps, auto split: if_splits option.splits dest: vruns_tlb_flush)

lemma vruns_shootdown [runs_keep]: "tlb_shootdown m a = Some m' \<Longrightarrow> vruns m' = vruns m"
  unfolding tlb_shootdown_def
  by (elim bind_pair_SomeE bind_SomeE, drule runs_apic_slot, drule vruns_tlb_flush) (auto simp: vruns_def [of m])

lemma vruns_shootdown_range [runs_keep]: "tlb_shootdown_range m a b = Some m' \<Longrightarrow> vruns m' = vruns m"
  unfolding tlb_shootdown_range_def Let_def
  by (elim bind_pair_SomeE bind_SomeE, drule runs_apic_slot, drule vruns_flush_range) (auto simp: vruns_def [of m])

lemma vruns_flush_shoot [runs_keep]: "tlb_flush_and_shootdown m a = Some m' \<Longrightarrow> vruns m' = vruns m"
  by (auto simp: tlb_flush_and_shootdown_def bind_eq_Some_conv dest!: vruns_tlb_flush vruns_shootdown)

lemma vruns_alloc_page [runs_keep]: "vm_alloc_page m = Some (m', r) \<Longrightarrow> vruns m' = vruns m"
  by (auto simp: vm_alloc_page_def bind_eq_Some_conv)

lemma vruns_free_page [runs_keep]: "vm_free_page m a = Some m' \<Longrightarrow> vruns m' = vruns m"
  by (auto simp: vm_free_page_def bind_eq_Some_conv)

lemma vruns_ensure_table [runs_keep]: "ensure_table m ea fl l a = Some (m', r) \<Longrightarrow> vruns m' = vruns m"
  by (auto simp: ensure_table_def ensure_present_def ensure_split_def bind_eq_Some_conv Let_def
      split: if_splits dest!: vruns_alloc_page vruns_tlb_flush)

lemma vruns_write_batch [runs_keep]: "write_batch m pt i p fl ks = Some m' \<Longrightarrow> vruns m' = vruns m"
  by (induction ks arbitrary: m) (auto simp: bind_eq_Some_conv Let_def)

lemma vruns_map_batch [runs_keep]: "map_batch m pml4 v p n fl = Some m' \<Longrightarrow> vruns m' = vruns m"
  by (auto simp: map_batch_def bind_eq_Some_conv Let_def dest!: vruns_ensure_table vruns_write_batch)

lemma vruns_map_loop [runs_keep]: "map_contiguous_loop m pml4 v p n fl = Some m' \<Longrightarrow> vruns m' = vruns m"
proof (induction m pml4 v p n fl rule: map_contiguous_loop.induct)
  case (1 m pml4 v p n fl)
  show ?case
    using 1(2) 1(1)
    by (subst (asm) map_contiguous_loop.simps)
      (auto simp: Let_def split: if_splits option.splits prod.splits dest!: vruns_map_batch)
qed

lemma vruns_map [runs_keep]: "map_contiguous m pml4 v p n fl = Some m' \<Longrightarrow> vruns m' = vruns m"
  by (auto simp: map_contiguous_def bind_eq_Some_conv split: if_splits dest: vruns_map_loop)

lemma vruns_free_list [runs_keep]: "free_list_pages m xs = Some m' \<Longrightarrow> vruns m' = vruns m"
  by (induction xs arbitrary: m) (auto simp: bind_eq_Some_conv split: if_splits dest!: vruns_free_page)

definition keeps :: "cpu_view \<Rightarrow> vm option \<Rightarrow> bool" where
  "keeps R r \<longleftrightarrow> (\<forall>m'. r = Some m' \<longrightarrow> vruns m' = R)"

lemma keeps_if: "(b \<Longrightarrow> keeps R x) \<Longrightarrow> (\<not> b \<Longrightarrow> keeps R y) \<Longrightarrow> keeps R (if b then x else y)"
  by simp

lemma keeps_bind: "(\<And>x. e = Some x \<Longrightarrow> keeps R (f x)) \<Longrightarrow> keeps R (Option.bind e f)"
  by (cases e) (simp_all add: keeps_def)

lemma keeps_let: "(\<And>x. x = e \<Longrightarrow> keeps R (f x)) \<Longrightarrow> keeps R (Let e f)"
  by simp

lemma keeps_leaf:
  "vruns m = R \<Longrightarrow> keeps R (Some m)" "vruns m = R \<Longrightarrow> keeps R (tlb_flush_and_shootdown m a)"
  "vruns m = R \<Longrightarrow> keeps R (free_list_pages m ps)"
  by (auto simp: keeps_def dest: vruns_flush_shoot vruns_free_list)

lemma keeps_unmap: "keeps (vruns m) (unmap m a)"
  unfolding unmap_def
  by (intro keeps_if keeps_bind keeps_let keeps_leaf) (auto dest!: vruns_flush_shoot)

lemma vruns_unmap [runs_keep]: "unmap m a = Some m' \<Longrightarrow> vruns m' = vruns m"
  using keeps_unmap [of m a] by (simp add: keeps_def)

lemma vruns_unmap_stack [runs_keep]: "unmap_stack m a ps = Some m' \<Longrightarrow> vruns m' = vruns m"
  by (induction ps arbitrary: m) (auto simp: bind_eq_Some_conv dest!: vruns_unmap)

lemma vruns_write_pte [runs_keep]: "write_pte m r a v = Some (m', b) \<Longrightarrow> vruns m' = vruns m"
  unfolding write_pte_def by (cases "pte_walk m r a")
    (auto simp: bind_eq_Some_conv split: option.splits dest!: vruns_tlb_flush)

lemma vruns_clear_pte [runs_keep]: "clear_stack_pte m r a = Some m' \<Longrightarrow> vruns m' = vruns m"
  unfolding clear_stack_pte_def by (cases "read_pte m r a")
    (auto simp: bind_eq_Some_conv split: if_splits option.splits dest!: vruns_write_pte)

lemma vruns_clear_ptes [runs_keep]: "clear_stack_ptes m r a ps = Some m' \<Longrightarrow> vruns m' = vruns m"
  by (induction ps arbitrary: m) (auto simp: bind_eq_Some_conv dest!: vruns_clear_pte)

lemma vruns_free_stack [runs_keep]: "free_kernel_stack m st = Some m' \<Longrightarrow> vruns m' = vruns m"
  by (auto simp: free_kernel_stack_def bind_eq_Some_conv
      dest!: vruns_clear_pte vruns_clear_ptes vruns_shootdown_range)

lemma vruns_gang_stack [runs_keep]: "gang_stack m p e = Some (m', st) \<Longrightarrow> vruns m' = vruns m"
  by (auto simp: gang_stack_def bind_eq_Some_conv Let_def dest!: vruns_map)

section \<open>Dropping process memory\<close>

lemma svm_free_node: "radix_free_node s n = Some s' \<Longrightarrow> vruns (svm s') = vruns (svm s)"
  by (auto simp: radix_free_node_def bind_eq_Some_conv set_phys_def)

lemma svm_free_slots:
  assumes "\<And>s p s'. g s p = Some s' \<Longrightarrow> vruns (svm s') = vruns (svm s)"
  shows "free_slots g s e is = Some s' \<Longrightarrow> vruns (svm s') = vruns (svm s)"
  by (induction "is" arbitrary: s) (auto simp: bind_eq_Some_conv split: if_splits dest!: assms)

lemma svm_free_box: "free_box s p = Some s' \<Longrightarrow> vruns (svm s') = vruns (svm s)"
  by (auto simp: free_box_def drop_box_def bind_eq_Some_conv)

lemma svm_free_tree: "free_tree l s n = Some s' \<Longrightarrow> vruns (svm s') = vruns (svm s)"
proof (induction l arbitrary: s n s')
  case 0
  then obtain e s1 where "free_slots free_box s e [0..<RADIX_SIZE] = Some s1" "radix_free_node s1 n = Some s'"
    by (auto simp: bind_eq_Some_conv)
  then show ?case using svm_free_slots [OF svm_free_box] svm_free_node by fastforce
next
  case (Suc l)
  obtain e s1 where s1: "free_slots (free_tree l) s e [0..<RADIX_SIZE] = Some s1" "radix_free_node s1 n = Some s'"
    using Suc.prems unfolding free_tree.simps by (elim bind_eq_Some_conv [THEN iffD1, elim_format] exE conjE)
  have "vruns (svm s1) = vruns (svm s)" by (rule svm_free_slots [OF Suc.IH s1(1)])
  then show ?case using svm_free_node [OF s1(2)] by simp
qed

lemma drop_process_keeps:
  assumes "drop_process k p = Some k'"
  shows "vruns (kvm k') = vruns (kvm k)" "vcpus k' = vcpus k" "vcpu_total k' = vcpu_total k"
  using assms by (auto simp: drop_process_def vma_tree_drop_def kvm_def bind_eq_Some_conv
      split: if_splits dest!: svm_free_tree)

lemma set_kvm_simps [simp]: "kvm (set_kvm k m) = m" "vcpus (set_kvm k m) = vcpus k"
  "vcpu_total (set_kvm k m) = vcpu_total k" "procs (set_kvm k m) = procs k"
  by (simp_all add: kvm_def set_kvm_def)

lemma vcpu_free_keeps:
  assumes "vcpu_free k i = Some k'"
  shows "vruns (kvm k') = vruns (kvm k)
    \<and> vcpus k' = (if i < MAX_VCPUS then (vcpus k)[i := None] else vcpus k)"
proof (cases "vcpu_get k i")
  case None
  then have "k' = k" using assms by (simp add: vcpu_free_def)
  moreover have "(vcpus k)[i := None] = vcpus k" if "i < MAX_VCPUS"
    using None that by (simp add: vcpu_get_def) (metis list_update_id)
  ultimately show ?thesis by simp
next
  case (Some v)
  then obtain k1 k2 where k: "(if vcpu_type v \<noteq> IdleType \<and> kstack_top v \<noteq> 0
                then do { m \<leftarrow> free_kernel_stack (kvm k) (kstack_top v); Some (set_kvm k m) }
                else Some k) = Some k1"
     "(if process_mem v \<noteq> 0 then drop_process k1 (process_mem v) else Some k1) = Some k2"
     "k' = k2\<lparr> vcpus := (vcpus k2)[i := None], vcpu_total := vcpu_total k2 - 1 \<rparr>"
    using assms by (auto simp: vcpu_free_def bind_eq_Some_conv)
  have "vruns (kvm k1) = vruns (kvm k) \<and> vcpus k1 = vcpus k"
    using k(1) by (auto simp: bind_eq_Some_conv split: if_splits dest: vruns_free_stack)
  moreover have "vruns (kvm k2) = vruns (kvm k1) \<and> vcpus k2 = vcpus k1"
    using k(2) by (auto split: if_splits dest: drop_process_keeps)
  moreover have "i < MAX_VCPUS" using Some by (auto simp: vcpu_get_def split: if_splits)
  moreover have "kvm k' = kvm k2" by (simp add: k(3) kvm_def)
  ultimately show ?thesis by (simp add: k(3))
qed

end
