(* ===== verification/Sched_Excl.thy ===== *)
theory Sched_Excl
  imports Sched_Keeps
begin

text \<open>
  Mutual exclusion: no vCPU is recorded as the current one of two CPUs. The invariant says that
  the vCPU the per-CPU table names as current, other than the idle one, is marked \<^verbatim>\<open>Running\<close> and
  that two CPUs never name the same one; every operation of the scheduler preserves it, because
  only \<^verbatim>\<open>Ready\<close> vCPUs are picked. What a CPU executes can differ from its record: a step that does
  not switch records the idle vCPU and returns to the interrupted frame.
\<close>

declare upt_rec_numeral [simp del]

section \<open>The invariant\<close>

definition sruns :: "sched \<Rightarrow> (nat \<times> nat) list" where
  "sruns s = runs (scpus s)"

definition sview :: "sched \<Rightarrow> cpu_view" where
  "sview s = vruns (kvm (sk s))"

lemma sruns_sview: "sview s' = sview s \<Longrightarrow> sruns s' = sruns s"
  by (simp add: sview_def vruns_def sruns_def scpus_def)

text \<open>The vCPU that the table records as the current one of CPU \<open>c\<close>.\<close>

definition running_on :: "sched \<Rightarrow> nat \<Rightarrow> nat" where
  "running_on s c = fst (sruns s ! c) mod 2 ^ 32"

text \<open>A CPU whose idle vCPU has been set up and whose current vCPU is another one.\<close>

definition busy :: "sched \<Rightarrow> nat \<Rightarrow> bool" where
  "busy s c \<longleftrightarrow> snd (sruns s ! c) \<noteq> U32_MAX \<and> running_on s c \<noteq> snd (sruns s ! c)"

definition vst :: "sched \<Rightarrow> nat \<Rightarrow> vcpu_state option" where
  "vst s vid = map_option vstate (svcpu s vid)"

definition listed :: "sched \<Rightarrow> nat set" where
  "listed s = {vid. \<exists>g. Some g \<in> set (gangs s) \<and> Some vid \<in> set (vcpu_ids g)}"

definition inv_but :: "nat set \<Rightarrow> sched \<Rightarrow> bool" where
  "inv_but X s \<longleftrightarrow> length (vcpus (sk s)) = MAX_VCPUS \<and> length (sruns s) = MAX_CPUS
     \<and> (\<forall>c < MAX_CPUS. snd (sruns s ! c) < 2 ^ 32)
     \<and> (\<forall>vid \<in> listed s. vst s vid \<noteq> Some Terminated)
     \<and> (\<forall>c < MAX_CPUS. c \<notin> X \<longrightarrow> busy s c \<longrightarrow> vst s (running_on s c) = Some Running)
     \<and> (\<forall>c < MAX_CPUS. \<forall>d < MAX_CPUS. c \<notin> X \<longrightarrow> d \<notin> X \<longrightarrow> c \<noteq> d \<longrightarrow> busy s c \<longrightarrow> busy s d \<longrightarrow>
          running_on s c \<noteq> running_on s d)"

abbreviation run_inv :: "sched \<Rightarrow> bool" where "run_inv \<equiv> inv_but {}"

lemma inv_but_mono: "inv_but X s \<Longrightarrow> X \<subseteq> Y \<Longrightarrow> inv_but Y s"
  unfolding inv_but_def by blast

lemma inv_but_change:
  assumes "inv_but X s" "sruns s' = sruns s" "length (vcpus (sk s')) = MAX_VCPUS" "X \<subseteq> Y"
    and "\<And>c. c < MAX_CPUS \<Longrightarrow> c \<notin> Y \<Longrightarrow> busy s c \<Longrightarrow> vst s (running_on s c) = Some Running \<Longrightarrow>
        vst s' (running_on s c) = Some Running"
    and "\<And>vid. vid \<in> listed s' \<Longrightarrow> vst s' vid \<noteq> Some Terminated"
  shows "inv_but Y s'"
proof -
  have r: "running_on s' = running_on s" "busy s' = busy s"
    using assms(2) by (auto simp: running_on_def busy_def fun_eq_iff)
  have inv: "length (sruns s) = MAX_CPUS" "\<And>c. c < MAX_CPUS \<Longrightarrow> snd (sruns s ! c) < 2 ^ 32"
    "\<And>c. c < MAX_CPUS \<Longrightarrow> c \<notin> X \<Longrightarrow> busy s c \<Longrightarrow> vst s (running_on s c) = Some Running"
    "\<And>c d. c < MAX_CPUS \<Longrightarrow> d < MAX_CPUS \<Longrightarrow> c \<notin> X \<Longrightarrow> d \<notin> X \<Longrightarrow> c \<noteq> d \<Longrightarrow> busy s c \<Longrightarrow> busy s d
       \<Longrightarrow> running_on s c \<noteq> running_on s d"
    using assms(1) by (auto simp: inv_but_def)
  have sub: "c \<notin> Y \<Longrightarrow> c \<notin> X" for c using assms(4) by blast
  show ?thesis unfolding inv_but_def r assms(2)
    by (intro conjI ballI allI impI) (simp_all add: assms(3,5,6) inv(1) inv(2) [simplified] inv(3,4) sub)
qed

section \<open>Field accessors\<close>

lemma sched_simps [simp]:
  "scpus (set_cpus s c) = c" "vcpus (sk (set_cpus s c)) = vcpus (sk s)" "gangs (set_cpus s c) = gangs s"
  "gang_count (set_cpus s c) = gang_count s"
  "scpus (set_vm s m) = cpus m" "vcpus (sk (set_vm s m)) = vcpus (sk s)" "gangs (set_vm s m) = gangs s"
  "gang_count (set_vm s m) = gang_count s" "kvm (sk (set_vm s m)) = m"
  "sk (set_gang s i g) = sk s" "gangs (set_gang s i g) = (gangs s)[i := g]" "scpus (set_gang s i g) = scpus s"
  "gangs (with_mut s i f) = gangs s" "scpus (with_mut s i f) = scpus s"
  "length (vcpus (sk (with_mut s i f))) = length (vcpus (sk s))"
  "gang_count (with_mut s i f) = gang_count s" "gang_count (set_gang s i g) = gang_count s"
  by (simp_all add: scpus_def set_cpus_def set_vm_def set_gang_def with_mut_def upd_vcpu_def set_kvm_def kvm_def)

lemma svcpu_cong: "vcpus (sk s') = vcpus (sk s) \<Longrightarrow> svcpu s' = svcpu s"
  by (simp add: svcpu_def vcpu_get_def fun_eq_iff)

lemma vst_cong: "vcpus (sk s') = vcpus (sk s) \<Longrightarrow> vst s' = vst s"
  using svcpu_cong [of s' s] by (simp add: vst_def fun_eq_iff)

lemma svcpu_with_mut:
  "length (vcpus (sk s)) = MAX_VCPUS \<Longrightarrow>
    svcpu (with_mut s i f) j = (if j = i then map_option f (svcpu s i) else svcpu s j)"
  by (simp add: svcpu_def with_mut_def vcpu_get_upd)

lemma listed_gangs: "gangs s' = gangs s \<Longrightarrow> listed s' = listed s"
  by (simp add: listed_def)

lemma listed_set_gang:
  assumes "vid \<in> listed (set_gang s i (Some g'))" "i < length (gangs s) \<Longrightarrow> gangs s ! i = Some g"
    "vcpu_ids g' = vcpu_ids g"
  shows "vid \<in> listed s"
proof -
  obtain h where h: "Some h \<in> set ((gangs s)[i := Some g'])" "Some vid \<in> set (vcpu_ids h)"
    using assms(1) unfolding listed_def sched_simps by blast
  show ?thesis
  proof (cases "i < length (gangs s) \<and> h = g'")
    case True
    then have "gangs s ! i = Some g" "i < length (gangs s)" using assms(2) by simp_all
    then have "Some g \<in> set (gangs s)" using nth_mem [of i "gangs s"] by simp
    moreover have "Some vid \<in> set (vcpu_ids g)" using h(2) True assms(3) by simp
    ultimately show ?thesis unfolding listed_def by blast
  next
    case False
    then have "Some h \<in> set (gangs s)"
      using h(1) set_update_subset_insert [of "gangs s" i "Some g'"]
      by (cases "i < length (gangs s)") (blast, simp add: list_update_beyond)
    then show ?thesis using h(2) unfolding listed_def by blast
  qed
qed

text \<open>The table has its length, and so has every list of members.\<close>

definition gangs_wf :: "sched \<Rightarrow> bool" where
  "gangs_wf s \<longleftrightarrow> length (gangs s) = MAX_GANGS \<and> gang_count s \<le> MAX_GANGS
     \<and> (\<forall>g. Some g \<in> set (gangs s) \<longrightarrow> length (vcpu_ids g) = MAX_VCPUS_PER_GANG)"

lemma gangs_wf_set:
  assumes "gangs_wf s" "gangs s ! i = Some g" "length (vcpu_ids g') = length (vcpu_ids g)"
  shows "gangs_wf (set_gang s i (Some g'))"
proof (cases "i < length (gangs s)")
  case True
  then have "Some g \<in> set (gangs s)" using assms(2) nth_mem [OF True] by simp
  then have "length (vcpu_ids g') = MAX_VCPUS_PER_GANG" using assms by (simp add: gangs_wf_def)
  then show ?thesis using assms(1) set_update_subset_insert [of "gangs s" i "Some g'"]
    by (simp add: gangs_wf_def) blast
next
  case False
  then show ?thesis using assms(1) by (simp add: gangs_wf_def list_update_beyond)
qed

text \<open>A step that touches neither what runs, nor a vCPU, nor the members of the gangs.\<close>

definition quiet :: "sched \<Rightarrow> sched \<Rightarrow> bool" where
  "quiet s s' \<longleftrightarrow> sruns s' = sruns s \<and> vcpus (sk s') = vcpus (sk s) \<and> listed s' \<subseteq> listed s
     \<and> gang_count s' = gang_count s \<and> (gangs_wf s \<longrightarrow> gangs_wf s')"

lemma quiet_trans: "quiet s t \<Longrightarrow> quiet t u \<Longrightarrow> quiet s u"
  unfolding quiet_def by auto

lemma quiet_refl [simp]: "quiet s s"
  by (simp add: quiet_def)

lemma quiet_same:
  "sruns s' = sruns s \<Longrightarrow> vcpus (sk s') = vcpus (sk s) \<Longrightarrow> gangs s' = gangs s \<Longrightarrow> gang_count s' = gang_count s
    \<Longrightarrow> quiet s s'"
  by (simp add: quiet_def listed_def gangs_wf_def)

lemma inv_quiet:
  assumes "inv_but X s" "quiet s s'"
  shows "inv_but X s'"
proof -
  have "vst s' = vst s" using assms(2) by (intro vst_cong) (simp add: quiet_def)
  then show ?thesis using assms by (intro inv_but_change [of X s s' X]) (auto simp: quiet_def inv_but_def)
qed

lemma quiet_current_slot: "current_cpu_slot s = Some (s', cpu) \<Longrightarrow> quiet s s'"
  unfolding current_cpu_slot_def
  by (elim bind_pair_SomeE)
    (clarsimp, rule quiet_same, simp_all add: sruns_def, drule runs_apic_slot, simp)

lemma quiet_push: "rq_push_all s cpu vs = Some s' \<Longrightarrow> quiet s s'"
proof (induction vs arbitrary: s)
  case (Cons v vs)
  from Cons.prems obtain q b where q: "rq_push (rq (scpus s) cpu) v = Some (q, b)"
    "rq_push_all (set_cpus s (set_cpu (scpus s) (cpu mod MAX_CPUS) (run_queue_update (\<lambda>_. q)))) cpu vs = Some s'"
    unfolding rq_push_all.simps by (elim bind_pair_SomeE)
  show ?case by (rule quiet_trans [OF quiet_same Cons.IH [OF q(2)]]) (simp_all add: sruns_def)
qed simp

lemma quiet_task_count: "quiet s (set_cpus s (add_task_count (scpus s) cpu d))"
  by (rule quiet_same) (simp_all add: sruns_def)

lemma quiet_set_gang:
  assumes "gangs s ! i = Some g" "vcpu_ids g' = vcpu_ids g"
  shows "quiet s (set_gang s i (Some g'))"
  using listed_set_gang [of _ s i g' g] gangs_wf_set [of s i g g'] assms by (auto simp: quiet_def sruns_def)

lemma quiet_inc: "inc_running s i = Some s' \<Longrightarrow> quiet s s'"
  unfolding inc_running_def by (elim bind_SomeE) (drule option.inject [THEN iffD1], erule subst, rule quiet_set_gang, assumption, simp)

lemma quiet_push_extra: "push_extra n s cpu i = Some s' \<Longrightarrow> quiet s s'"
proof (induction n arbitrary: s)
  case (Suc n)
  obtain g where g: "gangs s ! i = Some g" using Suc.prems unfolding push_extra.simps by (elim bind_SomeE)
  show ?case
  proof (cases "pick_vcpu s g")
    case None
    then show ?thesis using Suc g by simp
  next
    case (Some eid)
    then obtain s1 s2 where s: "inc_running s i = Some s1" "rq_push_all s1 cpu [eid] = Some s2" "push_extra n s2 cpu i = Some s'"
      using Suc.prems unfolding push_extra.simps g by (simp del: rq_push_all.simps) (elim bind_SomeE)
    show ?thesis by (rule quiet_trans [OF quiet_inc [OF s(1)] quiet_trans [OF quiet_push [OF s(2)] Suc.IH [OF s(3)]]])
  qed
qed simp

lemma quiet_emulate: "emulate s cpu i n = Some s' \<Longrightarrow> quiet s s'"
  unfolding emulate_def by (cases "1 < n") (simp, elim bind_SomeE, erule quiet_push_extra, simp)

section \<open>The scheduling step\<close>

lemma no_zombie_slot:
  assumes "\<forall>vid \<in> listed s. vst s vid \<noteq> Some Terminated" "gangs s ! i = Some g" "i < length (gangs s)"
    "vcpu_ids g ! k = Some vid" "k < length (vcpu_ids g)"
  shows "\<not> fst (slot_terminated s vid)"
proof -
  have "Some g \<in> set (gangs s)" "Some vid \<in> set (vcpu_ids g)"
    using assms nth_mem [of i "gangs s"] nth_mem [of k "vcpu_ids g"] by simp_all
  then have "vid \<in> listed s" unfolding listed_def by blast
  then show ?thesis using assms(1) by (auto simp: slot_terminated_def vst_def split: option.splits)
qed

lemma clean_slots_quiet:
  assumes "\<forall>vid \<in> listed s. vst s vid \<noteq> Some Terminated" "gangs_wf s" "i < MAX_GANGS"
    "\<forall>k \<in> set ks. k < MAX_VCPUS_PER_GANG"
  shows "\<exists>e. clean_slots s i ks all_empty = Some (s, e)"
  using assms(4)
proof (induction ks arbitrary: all_empty)
  case (Cons k ks)
  show ?case
  proof (cases "gangs s ! i")
    case (Some g)
    have i: "i < length (gangs s)" using assms by (simp add: gangs_wf_def)
    then have "Some g \<in> set (gangs s)" using nth_mem [OF i] Some by simp
    then have "length (vcpu_ids g) = MAX_VCPUS_PER_GANG" using assms(2) by (simp add: gangs_wf_def)
    then have "\<not> fst (slot_terminated s vid)" if "vcpu_ids g ! k = Some vid" for vid
      using no_zombie_slot [OF assms(1) Some i that] Cons.prems by simp
    then show ?thesis using Cons Some
      by (simp split: option.splits prod.splits bool.splits) fastforce
  qed simp
qed simp

lemma listed_drop_gang: "listed (set_gang s i None) \<subseteq> listed s"
proof
  fix vid assume "vid \<in> listed (set_gang s i None)"
  then obtain g where "Some g \<in> set ((gangs s)[i := None])" "Some vid \<in> set (vcpu_ids g)"
    unfolding listed_def sched_simps by blast
  then show "vid \<in> listed s"
    using set_update_subset_insert [of "gangs s" i None] unfolding listed_def by blast
qed

lemma gangs_wf_drop: "gangs_wf s \<Longrightarrow> gangs_wf (set_gang s i None)"
  using set_update_subset_insert [of "gangs s" i None] by (simp add: gangs_wf_def) blast

lemma quiet_drop_gang: "quiet s (set_gang s i None)"
  using listed_drop_gang gangs_wf_drop by (simp add: quiet_def sruns_def)

lemma clean_gangs_quiet:
  assumes "inv_but X s" "gangs_wf s" "\<forall>i \<in> set is. i < MAX_GANGS" "clean_gangs s is = Some s'"
  shows "quiet s s'"
  using assms
proof (induction "is" arbitrary: s)
  case (Cons i "is")
  have "\<forall>vid \<in> listed s. vst s vid \<noteq> Some Terminated" using Cons.prems(1) by (simp add: inv_but_def)
  then obtain e where e: "clean_slots s i [0..<MAX_VCPUS_PER_GANG] True = Some (s, e)"
    using clean_slots_quiet [OF _ Cons.prems(2)] Cons.prems(3) by fastforce
  let ?s = "if e then set_gang s i None else s"
  have q: "quiet s ?s" using quiet_drop_gang by simp
  have wf: "gangs_wf ?s" using Cons.prems(2) gangs_wf_drop by simp
  have "clean_gangs ?s is = Some s'" using Cons.prems(4) e by simp
  moreover have "\<forall>i \<in> set is. i < MAX_GANGS" using Cons.prems(3) by simp
  ultimately have "quiet ?s s'" by (intro Cons.IH inv_quiet [OF Cons.prems(1) q] wf)
  then show ?case by (rule quiet_trans [OF q])
qed simp

lemma vst_with_mut:
  "length (vcpus (sk s)) = MAX_VCPUS \<Longrightarrow>
    vst (with_mut s i f) j = (if j = i then map_option (\<lambda>v. vstate (f v)) (svcpu s i) else vst s j)"
  by (simp add: vst_def svcpu_with_mut option.map_comp comp_def)

lemma vst_set_gang [simp]: "vst (set_gang s i g) = vst s" "svcpu (set_gang s i g) = svcpu s"
  by (simp_all add: vst_def svcpu_def fun_eq_iff)

text \<open>Changing the current vCPU of a CPU keeps the invariant of the others.\<close>

lemma change_own:
  assumes inv: "run_inv s" and c: "c < MAX_CPUS" "busy s c"
    and "sruns s' = sruns s" "length (vcpus (sk s')) = MAX_VCPUS" "listed s' \<subseteq> listed s"
    and other: "\<And>vid. vid \<noteq> running_on s c \<Longrightarrow> vst s' vid = vst s vid"
    and own: "vst s' (running_on s c) \<noteq> Some Terminated"
  shows "inv_but {c} s'"
proof (rule inv_but_change [OF inv])
  fix d assume d: "d < MAX_CPUS" "d \<notin> {c}" "busy s d" "vst s (running_on s d) = Some Running"
  then have "running_on s d \<noteq> running_on s c" using inv c by (simp add: inv_but_def)
  then show "vst s' (running_on s d) = Some Running" using other d by simp
next
  fix vid assume "vid \<in> listed s'"
  then show "vst s' vid \<noteq> Some Terminated"
    using assms by (cases "vid = running_on s c") (auto simp: inv_but_def)
qed (use assms in auto)

lemma save_current_eff:
  assumes "save_current s cur frame fa fx = Some s'" "length (vcpus (sk s)) = MAX_VCPUS"
    "gangs_wf s"
  shows "sruns s' = sruns s \<and> length (vcpus (sk s')) = MAX_VCPUS \<and> listed s' \<subseteq> listed s
    \<and> (\<forall>vid. vid \<noteq> cur \<longrightarrow> vst s' vid = vst s vid) \<and> vst s' cur \<in> {vst s cur, Some Ready}
    \<and> gangs_wf s' \<and> gang_count s' = gang_count s"
proof (cases "svcpu s cur")
  case None
  then show ?thesis using assms by (simp add: save_current_def)
next
  case (Some v)
  then obtain saved where saved: "save_frame frame fa = Some saved"
    using assms(1) by (cases "save_frame frame fa") (simp_all add: save_current_def)
  define s1 where "s1 = with_mut s cur (\<lambda>v. v\<lparr> saved_frame := saved, frame_magic := FRAME_MAGIC, vfpu := fx \<rparr>)"
  have l1: "length (vcpus (sk s1)) = MAX_VCPUS" using assms(2) by (simp add: s1_def)
  have s1: "sruns s1 = sruns s" "listed s1 = listed s" "gangs_wf s1" "gangs s1 = gangs s" "gang_count s1 = gang_count s"
    using assms(3) by (simp_all add: s1_def sruns_def listed_def gangs_wf_def)
  have v1: "vst s1 vid = vst s vid" for vid
    using assms(2) Some by (simp add: s1_def vst_with_mut) (simp add: vst_def)
  show ?thesis
  proof (cases "s' = s1")
    case True
    then show ?thesis using s1 v1 l1 by simp
  next
    case False
    define s2 where "s2 = with_mut s1 cur (\<lambda>v. v\<lparr> vruntime := saturating_add (vruntime v) VRUNTIME_TICK, vstate := Ready \<rparr>)"
    obtain g where g: "gangs s ! gang_id v = Some g" and s': "s' = set_gang s2 (gang_id v) (Some (charge_gang g))"
      using assms(1) Some saved False
      by (simp add: save_current_def s1_def s2_def Let_def split: if_splits option.splits)
    have s2: "sruns s2 = sruns s" "listed s2 = listed s" "gangs_wf s2" "gangs s2 = gangs s" "length (vcpus (sk s2)) = MAX_VCPUS"
      "gang_count s2 = gang_count s"
      using s1 l1 by (simp_all add: s2_def sruns_def listed_def gangs_wf_def)
    have "vcpu_ids (charge_gang g) = vcpu_ids g" by (simp add: charge_gang_def)
    then have q: "quiet s2 s'" unfolding s' using s2(4) g by (intro quiet_set_gang) simp_all
    have "vst s' vid = (if vid = cur then map_option (\<lambda>_. Ready) (svcpu s1 cur) else vst s vid)" for vid
      using l1 v1 by (simp add: s' s2_def vst_with_mut)
    moreover have "svcpu s1 cur \<noteq> None" using v1 [of cur] Some by (auto simp: vst_def)
    ultimately show ?thesis using s2 q by (auto simp: quiet_def)
  qed
qed

lemma halt_current_eff:
  assumes "length (vcpus (sk s)) = MAX_VCPUS" "gangs_wf s"
  shows "sruns (halt_current s cur) = sruns s \<and> length (vcpus (sk (halt_current s cur))) = MAX_VCPUS
    \<and> listed (halt_current s cur) \<subseteq> listed s \<and> (\<forall>vid. vid \<noteq> cur \<longrightarrow> vst (halt_current s cur) vid = vst s vid)
    \<and> vst (halt_current s cur) cur \<in> {None, Some Halted} \<and> gangs_wf (halt_current s cur)
    \<and> gang_count (halt_current s cur) = gang_count s"
proof (cases "svcpu s cur")
  case None
  then show ?thesis using assms by (simp add: halt_current_def vst_def)
next
  case (Some v)
  define s1 where "s1 = with_mut s cur (\<lambda>v. v\<lparr> vstate := Halted \<rparr>)"
  have s1: "sruns s1 = sruns s" "length (vcpus (sk s1)) = MAX_VCPUS" "listed s1 = listed s" "gangs_wf s1"
    "gang_count s1 = gang_count s" "\<And>vid. vst s1 vid = (if vid = cur then Some Halted else vst s vid)"
    using assms Some by (simp_all add: s1_def sruns_def listed_def gangs_wf_def vst_with_mut)
  have q: "quiet s1 (halt_current s cur)"
    using Some by (auto simp: halt_current_def s1_def [symmetric] Let_def intro!: quiet_set_gang split: option.splits)
  then have "vst (halt_current s cur) = vst s1" by (intro vst_cong) (simp add: quiet_def)
  then show ?thesis using q s1 by (auto simp: quiet_def)
qed

lemma runs_set_current:
  "runs (set_current_vcpu c cpu v) = (runs c)[cpu mod MAX_CPUS := (v, snd (runs c ! (cpu mod MAX_CPUS)))]"
proof (cases "cpu mod MAX_CPUS < length (percpu c)")
  case True
  then show ?thesis by (simp add: runs_def set_current_vcpu_def set_cpu_def map_update)
next
  case False
  then show ?thesis by (simp add: runs_def set_current_vcpu_def set_cpu_def list_update_beyond)
qed

lemma runs_current:
  assumes "length (runs c) = MAX_CPUS"
  shows "current_vcpu c cpu = fst (runs c ! (cpu mod MAX_CPUS))" "idle_vcpu c cpu = snd (runs c ! (cpu mod MAX_CPUS))"
proof -
  have "cpu mod MAX_CPUS < length (percpu c)" using assms by (simp add: runs_def MAX_CPUS_def)
  then show "current_vcpu c cpu = fst (runs c ! (cpu mod MAX_CPUS))" "idle_vcpu c cpu = snd (runs c ! (cpu mod MAX_CPUS))"
    by (simp_all add: runs_def current_vcpu_def idle_vcpu_def)
qed

text \<open>Giving CPU \<open>c\<close> a current vCPU: its idle vCPU, or one that was not running.\<close>

lemma take_cpu:
  assumes inv: "inv_but {c} s" and c: "c < MAX_CPUS"
    and r: "sruns s' = (sruns s)[c := (x, snd (sruns s ! c))]"
    and l: "length (vcpus (sk s')) = MAX_VCPUS"
    and x: "x = snd (sruns s ! c) \<or> x < 2 ^ 32 \<and> vst s x \<noteq> Some Running \<and> vst s' x = Some Running"
    and keep: "\<And>vid. vst s vid = Some Running \<Longrightarrow> vst s' vid = Some Running"
    and nz: "\<And>vid. vid \<in> listed s' \<Longrightarrow> vst s' vid \<noteq> Some Terminated"
  shows "run_inv s'"
proof -
  have len: "length (sruns s) = MAX_CPUS" and idle: "\<And>d. d < MAX_CPUS \<Longrightarrow> snd (sruns s ! d) < 2 ^ 32"
    and run: "\<And>d. d < MAX_CPUS \<Longrightarrow> d \<noteq> c \<Longrightarrow> busy s d \<Longrightarrow> vst s (running_on s d) = Some Running"
    and dist: "\<And>d e. d < MAX_CPUS \<Longrightarrow> e < MAX_CPUS \<Longrightarrow> d \<noteq> c \<Longrightarrow> e \<noteq> c \<Longrightarrow> d \<noteq> e \<Longrightarrow> busy s d \<Longrightarrow> busy s e
       \<Longrightarrow> running_on s d \<noteq> running_on s e"
    using inv by (auto simp: inv_but_def)
  have other: "running_on s' d = running_on s d" "busy s' d = busy s d" if "d \<noteq> c" for d
    using that by (simp_all add: running_on_def busy_def r)
  have snd: "snd (sruns s' ! d) = snd (sruns s ! d)" if "d < MAX_CPUS" for d
    using that len by (cases "d = c") (simp_all add: r)
  have own: "running_on s' c = x mod 2 ^ 32" using c len by (simp add: running_on_def r)
  have own': "x < 2 ^ 32 \<and> vst s x \<noteq> Some Running \<and> vst s' x = Some Running" if "busy s' c"
    using that x own snd [OF c] idle [OF c] by (auto simp: busy_def)
  show ?thesis unfolding inv_but_def
  proof (intro conjI ballI allI impI)
    show "length (sruns s') = MAX_CPUS" by (simp add: r len)
    fix d assume d: "d < MAX_CPUS"
    show "snd (sruns s' ! d) < 2 ^ 32" using idle [OF d] snd [OF d] by simp
    show "vst s' (running_on s' d) = Some Running" if "busy s' d"
      using that run [OF d] other [of d] own own' keep by (cases "d = c") auto
    fix e assume e: "e < MAX_CPUS" "d \<noteq> e" "busy s' d" "busy s' e"
    show "running_on s' d \<noteq> running_on s' e"
      using e d dist [of d e] run [of d] run [of e] other own own' by (cases "d = c"; cases "e = c") auto
  qed (use l nz in auto)
qed

lemma scpus_set_stack_top: "runs (scpus (set_stack_top s cpu st)) = runs (scpus s)"
  by (simp add: set_stack_top_def runs_set_cpu scpus_def) (simp add: set_cpus_def set_vm_def runs_set_cpu)

lemma set_stack_top_simps [simp]: "vcpus (sk (set_stack_top s cpu st)) = vcpus (sk s)"
  "gangs (set_stack_top s cpu st) = gangs s" "gang_count (set_stack_top s cpu st) = gang_count s"
  by (simp_all add: set_stack_top_def)

lemma vcpu_id_small: "svcpu s vid = Some v \<Longrightarrow> vid < 2 ^ 32"
  by (auto simp: svcpu_def vcpu_get_def MAX_VCPUS_def split: if_splits)

lemma go_idle_simps [simp]: "vcpus (sk (os (go_idle s cpu f p))) = vcpus (sk s)" "gangs (os (go_idle s cpu f p)) = gangs s"
  "gang_count (os (go_idle s cpu f p)) = gang_count s"
  by (simp_all add: go_idle_def)

lemma go_idle_runs:
  "length (sruns s) = MAX_CPUS \<Longrightarrow> sruns (os (go_idle s cpu f p)) =
    (sruns s)[cpu mod MAX_CPUS := (snd (sruns s ! (cpu mod MAX_CPUS)), snd (sruns s ! (cpu mod MAX_CPUS)))]"
  by (simp add: go_idle_def sruns_def runs_set_current runs_current)

lemma inv_go_idle:
  assumes "inv_but {cpu mod MAX_CPUS} s"
  shows "run_inv (os (go_idle s cpu f p))"
proof (rule take_cpu [OF assms])
  have v: "vst (os (go_idle s cpu f p)) = vst s" by (rule vst_cong) simp
  have l: "listed (os (go_idle s cpu f p)) = listed s" by (rule listed_gangs) simp
  show "sruns (os (go_idle s cpu f p)) = (sruns s)[cpu mod MAX_CPUS :=
      (snd (sruns s ! (cpu mod MAX_CPUS)), snd (sruns s ! (cpu mod MAX_CPUS)))]"
    using assms by (intro go_idle_runs) (simp add: inv_but_def)
  show "vst (os (go_idle s cpu f p)) vid \<noteq> Some Terminated" if "vid \<in> listed (os (go_idle s cpu f p))" for vid
    using that assms by (simp add: v l inv_but_def)
  show "vst (os (go_idle s cpu f p)) vid = Some Running" if "vst s vid = Some Running" for vid
    using that by (simp add: v)
qed (use assms in \<open>simp_all add: inv_but_def MAX_CPUS_def\<close>)

lemma inv_mark_running:
  assumes "inv_but X s"
  shows "inv_but X (with_mut s vid (\<lambda>v. v\<lparr> vstate := Running, frame_magic := 0 \<rparr>))"
proof (rule inv_but_change [OF assms])
  let ?s = "with_mut s vid (\<lambda>v. v\<lparr> vstate := Running, frame_magic := 0 \<rparr>)"
  have v: "vst ?s w = (if w = vid then map_option (\<lambda>_. Running) (svcpu s vid) else vst s w)" for w
    using assms by (simp add: vst_with_mut inv_but_def)
  show "vst ?s (running_on s c) = Some Running" if "vst s (running_on s c) = Some Running" for c
    using that by (simp add: v) (auto simp: vst_def)
  have l: "listed ?s = listed s" by (rule listed_gangs) simp
  show "vst ?s w \<noteq> Some Terminated" if "w \<in> listed ?s" for w
    using that assms by (auto simp: l v inv_but_def)
qed (use assms in \<open>simp_all add: inv_but_def sruns_def\<close>)

lemma inv_load_next:
  assumes inv: "inv_but {cpu mod MAX_CPUS} s" and rdy: "vst s vid = Some Ready"
  shows "run_inv (os (load_next s cpu vid frame fpu))"
proof -
  obtain v where v: "svcpu s vid = Some v" using rdy by (auto simp: vst_def)
  define s1 where "s1 = with_mut s vid (\<lambda>v. v\<lparr> vstate := Running, frame_magic := 0 \<rparr>)"
  have i1: "inv_but {cpu mod MAX_CPUS} s1" unfolding s1_def by (rule inv_mark_running [OF inv])
  have len: "length (vcpus (sk s)) = MAX_VCPUS" using inv by (simp add: inv_but_def)
  have r1: "sruns s1 = sruns s" by (simp add: s1_def sruns_def)
  have v1: "vst s1 w = (if w = vid then Some Running else vst s w)" for w
    using len v by (simp add: s1_def vst_with_mut)
  define s2 where "s2 = set_cpus s1 (set_current_vcpu (scpus s1) cpu vid)"
  define s3 where "s3 = set_stack_top s2 cpu (kstack_top v)"
  have r3: "sruns s3 = (sruns s)[cpu mod MAX_CPUS := (vid, snd (sruns s ! (cpu mod MAX_CPUS)))]"
    using r1 by (simp add: s3_def s2_def sruns_def scpus_set_stack_top runs_set_current)
  have v3: "vst s3 = vst s1" by (rule vst_cong) (simp add: s3_def s2_def)
  have l3: "listed s3 = listed s" by (simp add: s3_def s2_def s1_def listed_def)
  have i3: "run_inv s3"
  proof (rule take_cpu [OF inv _ r3])
    show "vst s3 w \<noteq> Some Terminated" if "w \<in> listed s3" for w
      using that inv by (auto simp: v3 v1 l3 inv_but_def)
  qed (use rdy vcpu_id_small [OF v] len in \<open>simp_all add: v3 v1 MAX_CPUS_def, simp_all add: s3_def s2_def s1_def\<close>)
  have g1: "run_inv (os (go_idle s1 cpu f p))" for f p by (rule inv_go_idle [OF i1])
  have g3: "run_inv (os (go_idle s3 cpu f p))" for f p by (rule inv_go_idle [OF inv_but_mono [OF i3]]) simp
  show ?thesis
    using v by (simp add: load_next_def Let_def s1_def [symmetric] s2_def [symmetric] s3_def [symmetric] g1 g3 i3)
qed

lemma load_next_gangs:
  "gangs (os (load_next s cpu vid frame fpu)) = gangs s \<and> gang_count (os (load_next s cpu vid frame fpu)) = gang_count s"
  by (simp add: load_next_def Let_def split: option.splits)

lemma gangs_wf_cong: "gangs s' = gangs s \<Longrightarrow> gang_count s' = gang_count s \<Longrightarrow> gangs_wf s \<Longrightarrow> gangs_wf s'"
  by (simp add: gangs_wf_def)

lemma inv_dispatch:
  assumes inv: "inv_but {cpu mod MAX_CPUS} s" "gangs_wf s" and d: "dispatch s cpu frame fpu = Some r"
  shows "run_inv (os r) \<and> gangs_wf (os r) \<and> gang_count (os r) = gang_count s"
proof (cases "\<exists>f p. r = go_idle s cpu f p")
  case True
  then obtain f p where r: "r = go_idle s cpu f p" by blast
  have "gangs_wf (os r)" using inv(2) unfolding r by (rule gangs_wf_cong [rotated 2]) simp_all
  then show ?thesis using inv_go_idle [OF inv(1)] by (simp add: r)
next
  case False
  obtain i g where g: "best_gang s = Some i" "gangs s ! i = Some g"
    using d False by (auto simp: dispatch_def split: option.splits)
  obtain pc where pc: "per_core_share (count_free_cores s) (gang_demand g) = Some pc"
    using d g by (cases "per_core_share (count_free_cores s) (gang_demand g)") (simp_all add: dispatch_def)
  obtain vid where vid: "pick_vcpu s g = Some vid"
    using d g pc False by (cases "pick_vcpu s g") (auto simp: dispatch_def)
  have "(do { s1 \<leftarrow> inc_running s i; s2 \<leftarrow> emulate s1 cpu i pc; Some (load_next s2 cpu vid frame fpu) }) = Some r"
    using d g pc vid by (simp add: dispatch_def)
  then obtain s1 s2 where s: "inc_running s i = Some s1" "emulate s1 cpu i pc = Some s2"
      "Some (load_next s2 cpu vid frame fpu) = Some r" by (elim bind_SomeE)
  have q: "quiet s s2" by (rule quiet_trans [OF quiet_inc [OF s(1)] quiet_emulate [OF s(2)]])
  have v2: "vst s2 = vst s" using q by (intro vst_cong) (simp add: quiet_def)
  have "vst s2 vid = Some Ready" unfolding v2 using pick_vcpu_Some [OF vid] by (auto simp: vst_def)
  then have "run_inv (os (load_next s2 cpu vid frame fpu))" by (rule inv_load_next [OF inv_quiet [OF inv(1) q]])
  then have "run_inv (os r)" using s(3) by simp
  moreover have "gangs_wf (os r) \<and> gang_count (os r) = gang_count s"
    using load_next_gangs [of s2 cpu vid frame fpu] q inv(2) s(3) gangs_wf_cong [of "os r" s2]
    by (simp add: quiet_def)
  ultimately show ?thesis by simp
qed

end
