(* ===== verification/Sched_Steps.thy ===== *)
theory Sched_Steps
  imports Sched_Excl
begin

text \<open>
  Every operation of the scheduler keeps the mutual-exclusion invariant, and the step relation that
  puts the operations of all CPUs into one sequence.
\<close>

declare upt_rec_numeral [simp del]

definition step_inv :: "sched \<Rightarrow> bool" where
  "step_inv s \<longleftrightarrow> run_inv s \<and> gangs_wf s \<and> (gang_count s = 0 \<longrightarrow> (\<forall>c < MAX_CPUS. \<not> busy s c))"

definition started :: "sched \<Rightarrow> nat \<Rightarrow> bool" where
  "started s cpu \<longleftrightarrow> snd (sruns s ! (cpu mod MAX_CPUS)) \<noteq> U32_MAX"

lemma busy_cong: "sruns s' = sruns s \<Longrightarrow> busy s' = busy s"
  by (simp add: busy_def running_on_def fun_eq_iff)

lemma step_inv_quiet:
  assumes "step_inv s" "quiet s s'"
  shows "step_inv s'"
proof -
  have "busy s' = busy s" using assms(2) by (intro busy_cong) (simp add: quiet_def)
  then show ?thesis using assms inv_quiet [of "{}" s s'] by (simp add: step_inv_def quiet_def)
qed

section \<open>Ticks and blocking\<close>

lemma change_stopped:
  assumes inv: "inv_but X s" and stopped: "vst s w \<noteq> Some Running"
    and "sruns s' = sruns s" "length (vcpus (sk s')) = MAX_VCPUS" "listed s' \<subseteq> listed s"
    and other: "\<And>vid. vid \<noteq> w \<Longrightarrow> vst s' vid = vst s vid"
    and own: "vst s' w \<noteq> Some Terminated"
  shows "inv_but X s'"
proof (rule inv_but_change [OF inv])
  fix d assume "vst s (running_on s d) = Some Running"
  then show "vst s' (running_on s d) = Some Running" using stopped other [of "running_on s d"] by fastforce
next
  fix vid assume "vid \<in> listed s'"
  then show "vst s' vid \<noteq> Some Terminated"
    using inv own other [of vid] assms(5) by (cases "vid = w") (auto simp: inv_but_def)
qed (use assms in auto)

lemma current_running_on:
  "length (sruns s) = MAX_CPUS \<Longrightarrow> current_vcpu (scpus s) cpu mod 2 ^ 32 = running_on s (cpu mod MAX_CPUS)
    \<and> idle_vcpu (scpus s) cpu = snd (sruns s ! (cpu mod MAX_CPUS))"
  by (simp add: running_on_def sruns_def runs_current)

lemma mod_cpus: "cpu mod MAX_CPUS < MAX_CPUS"
  by (simp add: MAX_CPUS_def)

text \<open>The common part: the state before the step satisfies the invariant except for this CPU, whose
  vCPU is either its current one or stopped.\<close>

lemma schedule_inner_inv:
  assumes inv: "inv_but X s" "gangs_wf s" and X: "X = {} \<or> X = {cpu mod MAX_CPUS} \<and> vst s (running_on s (cpu mod MAX_CPUS)) \<in> {None, Some Halted}"
    and st: "started s cpu" and n: "1 \<le> gang_count s"
    and r: "schedule_inner s cpu frame fa fx fpu = Some r"
  shows "run_inv (os r) \<and> gangs_wf (os r) \<and> gang_count (os r) = gang_count s"
proof -
  let ?c = "cpu mod MAX_CPUS"
  obtain s1 where s1: "clean_gangs s [1..<gang_count s] = Some s1"
    and r1: "(let cur = current_vcpu (scpus s1) cpu mod 2 ^ 32
       in do { s2 \<leftarrow> (if cur \<noteq> idle_vcpu (scpus s1) cpu then save_current s1 cur frame fa fx else Some s1);
               dispatch s2 cpu frame fpu }) = Some r"
    using r n by (cases "clean_gangs s [1..<gang_count s]") (simp_all add: schedule_inner_def)
  have q: "quiet s s1"
    using s1 inv by (intro clean_gangs_quiet [OF inv]) (auto simp: gangs_wf_def)
  have i1: "inv_but X s1" by (rule inv_quiet [OF inv(1) q])
  have v1: "vst s1 = vst s" using q by (intro vst_cong) (simp add: quiet_def)
  have sr: "sruns s1 = sruns s" and wf1: "gangs_wf s1" and n1: "gang_count s1 = gang_count s"
    using q inv(2) by (simp_all add: quiet_def)
  have len: "length (sruns s1) = MAX_CPUS" "length (vcpus (sk s1)) = MAX_VCPUS" using i1 by (simp_all add: inv_but_def)
  have ro: "running_on s1 = running_on s" using sr by (simp add: running_on_def fun_eq_iff)
  obtain s2 where s2: "(if running_on s1 ?c \<noteq> snd (sruns s1 ! ?c) then save_current s1 (running_on s1 ?c) frame fa fx else Some s1) = Some s2"
      and d: "dispatch s2 cpu frame fpu = Some r"
    using r1 unfolding Let_def current_running_on [OF len(1), THEN conjunct1] current_running_on [OF len(1), THEN conjunct2]
    by (elim bind_SomeE)
  have "inv_but {?c} s2 \<and> gangs_wf s2 \<and> gang_count s2 = gang_count s"
  proof (cases "running_on s1 ?c \<noteq> snd (sruns s1 ! ?c)")
    case False
    then show ?thesis using s2 i1 wf1 n1 X inv_but_mono [of X s1 "{?c}"] by auto
  next
    case True
    then have e: "save_current s1 (running_on s1 ?c) frame fa fx = Some s2" using s2 by simp
    note eff = save_current_eff [OF e len(2) wf1, unfolded n1]
    have b: "busy s1 ?c" using True st by (simp add: busy_def started_def sr)
    from X show ?thesis
    proof
      assume "X = {}"
      then have i: "run_inv s1" using i1 by simp
      then have "vst s1 (running_on s1 ?c) = Some Running" using b mod_cpus by (simp add: inv_but_def)
      then show ?thesis using eff by (intro conjI change_own [OF i mod_cpus b]) auto
    next
      assume X: "X = {?c} \<and> vst s (running_on s ?c) \<in> {None, Some Halted}"
      then have "vst s1 (running_on s1 ?c) \<in> {None, Some Halted}" by (simp add: v1 ro)
      moreover have "inv_but {?c} s1" using i1 X by simp
      ultimately show ?thesis
        using eff by (intro conjI change_stopped [of "{?c}" s1 "running_on s1 ?c" s2]) auto
    qed
  qed
  then show ?thesis using inv_dispatch [OF _ _ d] by metis
qed

lemma step_inv_slot:
  assumes "step_inv s" "current_cpu_slot s = Some (s1, cpu)"
  shows "step_inv s1"
  by (rule step_inv_quiet [OF assms(1) quiet_current_slot [OF assms(2)]])

lemma schedule_inv:
  assumes inv: "step_inv s" and st: "current_cpu_slot s = Some (s1, cpu)" "started s1 cpu"
    and r: "schedule s frame fa fx fpu = Some r"
  shows "step_inv (os r)"
proof -
  have i1: "step_inv s1" by (rule step_inv_slot [OF inv st(1)])
  have r1: "schedule_inner s1 cpu frame fa fx fpu = Some r" using r st(1) by (simp add: schedule_def)
  show ?thesis
  proof (cases "gang_count s1 < 1")
    case True
    then show ?thesis using r1 i1 by (auto simp: schedule_inner_def)
  next
    case False
    then have "run_inv (os r) \<and> gangs_wf (os r) \<and> gang_count (os r) = gang_count s1"
      using i1 by (intro schedule_inner_inv [of "{}" s1 cpu, OF _ _ _ st(2) _ r1]) (simp_all add: step_inv_def)
    then show ?thesis using False by (simp add: step_inv_def)
  qed
qed

lemma busy_slot:
  assumes "step_inv s" "started s cpu" "current_vcpu (scpus s) cpu mod 2 ^ 32 \<noteq> idle_vcpu (scpus s) cpu"
  shows "busy s (cpu mod MAX_CPUS) \<and> current_vcpu (scpus s) cpu mod 2 ^ 32 = running_on s (cpu mod MAX_CPUS)"
proof -
  have "length (sruns s) = MAX_CPUS" using assms(1) by (simp add: step_inv_def inv_but_def)
  then show ?thesis using current_running_on [of s cpu] assms(2,3) by (simp add: busy_def started_def)
qed

lemma block_inv:
  assumes inv: "step_inv s" and st: "current_cpu_slot s = Some (s1, cpu)" "started s1 cpu"
    and r: "block_current s frame fa hw = Some (s', res)"
  shows "step_inv s'"
proof -
  let ?c = "cpu mod MAX_CPUS"
  let ?cur = "current_vcpu (scpus s1) cpu mod 2 ^ 32"
  have i1: "step_inv s1" by (rule step_inv_slot [OF inv st(1)])
  show ?thesis
  proof (cases "?cur = idle_vcpu (scpus s1) cpu")
    case True
    then show ?thesis using r i1 st(1) by (simp add: block_current_def)
  next
    case False
    define s2 where "s2 = halt_current s1 ?cur"
    from busy_slot [OF i1 st(2) False] have b: "busy s1 ?c" and cur: "?cur = running_on s1 ?c" by auto
    have len: "length (vcpus (sk s1)) = MAX_VCPUS" and wf: "gangs_wf s1" and ri: "run_inv s1"
      using i1 by (simp_all add: step_inv_def inv_but_def)
    note eff = halt_current_eff [OF len wf, of ?cur, folded s2_def, unfolded cur]
    have i2: "inv_but {?c} s2"
      using eff by (intro change_own [OF ri mod_cpus b]) (auto simp: cur)
    have n: "1 \<le> gang_count s2" using i1 b mod_cpus eff by (auto simp: step_inv_def intro: Suc_leI)
    have ro: "running_on s2 = running_on s1" using eff by (simp add: running_on_def fun_eq_iff)
    obtain rr where rr: "schedule_inner s2 cpu frame fa (fninit hw) (fninit hw) = Some rr"
      using r st(1) False
      by (cases "schedule_inner s2 cpu frame fa (fninit hw) (fninit hw)") (simp_all add: block_current_def s2_def)
    have "run_inv (os rr) \<and> gangs_wf (os rr) \<and> gang_count (os rr) = gang_count s2"
      using eff i2 n st(2) by (intro schedule_inner_inv [of "{?c}" s2 cpu, OF _ _ _ _ _ rr])
        (simp_all add: cur ro started_def)
    then have irr: "step_inv (os rr)" using n by (simp add: step_inv_def)
    have "s' = os rr \<or> (\<exists>m. s' = set_vm (os rr) m \<and> cpus m = scpus (os rr))"
      using r st(1) False rr unfolding s2_def
      by (auto simp: block_current_def Let_def scpus_def [of "os rr"] split: if_splits)
    then have "quiet (os rr) s'" by (auto intro!: quiet_same simp: sruns_def)
    then show ?thesis by (rule step_inv_quiet [OF irr])
  qed
qed

section \<open>Waking and stealing\<close>

lemma step_inv_change:
  assumes inv: "step_inv s" and "sruns s' = sruns s" "length (vcpus (sk s')) = MAX_VCPUS" "gangs_wf s'"
    and "gang_count s \<le> gang_count s'"
    and keep: "\<And>vid. vst s vid = Some Running \<Longrightarrow> vst s' vid = Some Running"
    and nz: "\<And>vid. vid \<in> listed s' \<Longrightarrow> vst s' vid \<noteq> Some Terminated"
  shows "step_inv s'"
proof -
  have "run_inv s'" using assms by (intro inv_but_change [of "{}" s s']) (auto simp: step_inv_def)
  then show ?thesis using assms busy_cong [OF assms(2)] by (auto simp: step_inv_def)
qed

lemma quiet_enqueue:
  assumes "enqueue_woken s vid = Some s'"
  shows "quiet s s'"
proof (cases "MAX_CPUS \<le> find_least_loaded (scpus s)")
  case True
  then show ?thesis using assms by (simp add: enqueue_woken_def Let_def)
next
  case False
  let ?t = "find_least_loaded (scpus s)"
  obtain s1 where s1: "rq_push_all s ?t [vid] = Some s1"
      "Some (notify_cpu (set_cpus s1 (add_task_count (scpus s1) ?t 1)) ?t) = Some s'"
    using assms False unfolding enqueue_woken_def Let_def by (simp only: if_False) (elim bind_SomeE)
  have "quiet t (notify_cpu t c)" for t c
    by (auto simp: notify_cpu_def send_ipi_def sruns_def scpus_def set_cpus_def set_vm_def runs_set_cpu set_kvm_def kvm_def
        intro!: quiet_same)
  then have "quiet (set_cpus s1 (add_task_count (scpus s1) ?t 1)) s'" using s1(2) by auto
  then show ?thesis using quiet_push [OF s1(1)] quiet_task_count quiet_trans by metis
qed

lemma wake_inv:
  assumes inv: "step_inv s" and w: "wake s vid64 = Some s'"
  shows "step_inv s'"
proof -
  obtain s1 c where s1: "current_cpu_slot s = Some (s1, c)"
    using w by (cases "current_cpu_slot s") (auto simp: wake_def)
  have i1: "step_inv s1" by (rule step_inv_slot [OF inv s1])
  let ?vid = "unat vid64 mod 2 ^ 32"
  show ?thesis
  proof (cases "\<exists>v. svcpu s1 ?vid = Some v \<and> vstate v = Halted")
    case False
    then have "s' = s1" using w s1 by (auto simp: wake_def Let_def split: option.splits if_splits)
    then show ?thesis using i1 by simp
  next
    case True
    then obtain v where v: "svcpu s1 ?vid = Some v" "vstate v = Halted" by blast
    define s2 where "s2 = with_mut s1 ?vid (\<lambda>v. v\<lparr> vstate := Ready, vruntime := 0 \<rparr>)"
    have len: "length (vcpus (sk s1)) = MAX_VCPUS" using i1 by (simp add: step_inv_def inv_but_def)
    have v2: "vst s2 w = (if w = ?vid then Some Ready else vst s1 w)" for w
      using len v by (simp add: s2_def vst_with_mut)
    have l2: "listed s2 = listed s1" by (simp add: s2_def listed_def)
    have i2: "step_inv s2"
    proof (rule step_inv_change [OF i1])
      show "vst s2 w = Some Running" if "vst s1 w = Some Running" for w
        using that v2 [of w] v by (cases "w = ?vid") (simp_all add: vst_def)
      show "vst s2 w \<noteq> Some Terminated" if "w \<in> listed s2" for w
        using that i1 by (auto simp: v2 l2 step_inv_def inv_but_def)
    qed (use i1 len in \<open>simp_all add: s2_def sruns_def step_inv_def gangs_wf_def\<close>)
    have "enqueue_woken s2 ?vid = Some s'" using w s1 v by (simp add: wake_def s2_def Let_def)
    then show ?thesis by (rule step_inv_quiet [OF i2 quiet_enqueue])
  qed
qed

lemma steal_inv:
  assumes inv: "step_inv s" and st: "steal_task s hungry ie lk = Some (s', b)"
  shows "step_inv s'"
proof (cases "s' = s")
  case False
  then obtain src q v where src: "rq_pop (rq (scpus s) src) = (q, Some v)"
      and st2: "(do { s2 \<leftarrow> rq_push_all (set_cpus s (set_cpu (scpus s) (src mod MAX_CPUS) (run_queue_update (\<lambda>_. q)))) hungry [v mod 2 ^ 32];
        Some (set_cpus s2 (add_task_count (add_task_count (scpus s2) src (- 1)) hungry 1), True) }) = Some (s', b)"
    using st by (auto simp: steal_task_def simp del: rq_push_all.simps split: if_splits option.splits prod.splits)
  obtain s2 where s2: "rq_push_all (set_cpus s (set_cpu (scpus s) (src mod MAX_CPUS) (run_queue_update (\<lambda>_. q)))) hungry [v mod 2 ^ 32] = Some s2"
      "s' = set_cpus s2 (add_task_count (add_task_count (scpus s2) src (- 1)) hungry 1)"
    using st2 by (elim bind_SomeE) simp
  have "quiet s (set_cpus s (set_cpu (scpus s) (src mod MAX_CPUS) (run_queue_update (\<lambda>_. q))))"
    by (rule quiet_same) (simp_all add: sruns_def)
  moreover have "quiet s2 s'" unfolding s2(2) by (rule quiet_same) (simp_all add: sruns_def)
  ultimately have "quiet s s'" using quiet_push [OF s2(1)] quiet_trans by metis
  then show ?thesis by (rule step_inv_quiet [OF inv])
qed (use inv in simp)

end
