(* ===== verification/Sched_Create.thy ===== *)
theory Sched_Create
  imports Sched_Steps
begin

text \<open>
  Creating gangs, driver gangs and idle vCPUs keeps the mutual-exclusion invariant, also on the
  paths that fail half-way and release what they have taken.
\<close>

declare upt_rec_numeral [simp del]

section \<open>Allocation and release of vCPUs\<close>

lemma vcpu_alloc_eff:
  assumes "vcpu_alloc k g p a ty = (k', r)"
  shows "kvm k' = kvm k \<and> (case r of None \<Rightarrow> k' = k
    | Some i \<Rightarrow> i < MAX_VCPUS \<and> vcpus k ! i = None \<and> vcpus k' = (vcpus k)[i := Some (new_vcpu g p a ty i)])"
  using assms by (auto simp: vcpu_alloc_def kvm_def split: if_splits option.splits dest: find_upt_Some)

lemma vst_alloc:
  assumes "vcpu_alloc (sk s) g p a ty = (k, Some i)" "length (vcpus (sk s)) = MAX_VCPUS"
    "vcpus (sk s') = vcpus k"
  shows "vst s' w = (if w = i then Some Halted else vst s w)" "vst s i = None"
  using vcpu_alloc_eff [OF assms(1)] assms(2,3)
  by (auto simp: vst_def svcpu_def vcpu_get_def new_vcpu_def)

lemma step_inv_same:
  "step_inv s \<Longrightarrow> sruns s' = sruns s \<Longrightarrow> vcpus (sk s') = vcpus (sk s) \<Longrightarrow> gangs s' = gangs s \<Longrightarrow>
    gang_count s' = gang_count s \<Longrightarrow> step_inv s'"
  by (rule step_inv_quiet [OF _ quiet_same])

lemma sk_update_simps [simp]: "scpus (s\<lparr> sk := k \<rparr>) = cpus (kvm k)"
  by (simp add: scpus_def)

lemma step_inv_alloc:
  assumes inv: "step_inv s" and a: "vcpu_alloc (sk s) g p a ty = (k, Some i)"
  shows "step_inv (s\<lparr> sk := k \<rparr>)"
proof -
  have len: "length (vcpus (sk s)) = MAX_VCPUS" using inv by (simp add: step_inv_def inv_but_def)
  note eff = vcpu_alloc_eff [OF a]
  note v = vst_alloc [OF a len, of "s\<lparr> sk := k \<rparr>"]
  have l: "listed (s\<lparr> sk := k \<rparr>) = listed s" by (rule listed_gangs) simp
  have k: "cpus (kvm k) = scpus s" using eff by (simp add: scpus_def)
  show ?thesis
  proof (rule step_inv_change [OF inv])
    show "vst (s\<lparr> sk := k \<rparr>) w = Some Running" if "vst s w = Some Running" for w using that v by auto
    show "vst (s\<lparr> sk := k \<rparr>) w \<noteq> Some Terminated" if "w \<in> listed (s\<lparr> sk := k \<rparr>)" for w
      using that inv v by (auto simp: l step_inv_def inv_but_def)
  qed (use eff len inv k in \<open>simp_all add: sruns_def step_inv_def gangs_wf_def\<close>)
qed

lemma vst_free:
  assumes "vcpu_free (sk s) i = Some k" "length (vcpus (sk s)) = MAX_VCPUS"
  shows "vst (s\<lparr> sk := k \<rparr>) w = (if w = i then None else vst s w)"
proof -
  have "vcpus k = (if i < MAX_VCPUS then (vcpus (sk s))[i := None] else vcpus (sk s))"
    using vcpu_free_keeps [OF assms(1)] by simp
  then show ?thesis using assms(2) by (simp add: vst_def svcpu_def vcpu_get_def)
qed

lemma step_inv_free:
  assumes inv: "step_inv s" and f: "vcpu_free (sk s) i = Some k" and ns: "vst s i \<noteq> Some Running"
  shows "step_inv (s\<lparr> sk := k \<rparr>)"
proof -
  have len: "length (vcpus (sk s)) = MAX_VCPUS" using inv by (simp add: step_inv_def inv_but_def)
  note eff = vcpu_free_keeps [OF f] vruns_eqD [of "kvm k" "kvm (sk s)"]
  note v = vst_free [OF f len]
  have l: "listed (s\<lparr> sk := k \<rparr>) = listed s" by (rule listed_gangs) simp
  show ?thesis
  proof (rule step_inv_change [OF inv])
    show "vst (s\<lparr> sk := k \<rparr>) w = Some Running" if "vst s w = Some Running" for w using that v ns by auto
    show "vst (s\<lparr> sk := k \<rparr>) w \<noteq> Some Terminated" if "w \<in> listed (s\<lparr> sk := k \<rparr>)" for w
      using that inv v by (auto simp: l step_inv_def inv_but_def)
  qed (use eff len inv in \<open>simp_all add: sruns_def scpus_def step_inv_def gangs_wf_def\<close>)
qed

lemma free_vcpus_inv:
  assumes "step_inv s" "\<forall>vid. Some vid \<in> set ids \<longrightarrow> vst s vid \<noteq> Some Running" "free_vcpus s ids = Some s'"
  shows "step_inv s' \<and> gangs s' = gangs s \<and> gang_count s' = gang_count s"
  using assms
proof (induction s ids rule: free_vcpus.induct)
  case (3 s vid rest)
  then obtain k where k: "vcpu_free (sk s) vid = Some k" "free_vcpus (s\<lparr> sk := k \<rparr>) rest = Some s'"
    unfolding free_vcpus.simps by (elim bind_SomeE)
  have len: "length (vcpus (sk s)) = MAX_VCPUS" using "3.prems"(1) by (simp add: step_inv_def inv_but_def)
  have "step_inv (s\<lparr> sk := k \<rparr>)" by (rule step_inv_free [OF "3.prems"(1) k(1)]) (use "3.prems"(2) in simp)
  moreover have "\<forall>v. Some v \<in> set rest \<longrightarrow> vst (s\<lparr> sk := k \<rparr>) v \<noteq> Some Running"
    using "3.prems"(2) by (simp add: vst_free [OF k(1) len])
  ultimately show ?case using "3.IH" [OF k(1) _ _ k(2)] by simp
qed auto

section \<open>Creating a gang\<close>

lemma set_vm_inv: "step_inv s \<Longrightarrow> vruns m = sview s \<Longrightarrow> step_inv (set_vm s m)"
  by (rule step_inv_same) (simp_all add: sruns_def sview_def vruns_def scpus_def)

definition all_ready :: "sched \<Rightarrow> nat option list \<Rightarrow> bool" where
  "all_ready s ids \<longleftrightarrow> (\<forall>vid. Some vid \<in> set ids \<longrightarrow> vst s vid = Some Ready)"

lemma create_gang_vcpu_inv:
  assumes inv: "step_inv s" "all_ready s ids" and c: "create_gang_vcpu s g entry arg ids = Some (s', r)"
  shows "step_inv s' \<and> gangs s' = gangs s \<and> gang_count s' = gang_count s
    \<and> (\<forall>vid. r = Inr vid \<longrightarrow> all_ready s' (ids @ [Some vid]))"
proof -
  have len: "length (vcpus (sk s)) = MAX_VCPUS" using inv by (simp add: step_inv_def inv_but_def)
  obtain k a where ka: "vcpu_alloc (sk s) g (kernel_pml4 (kvm (sk s))) (- 1) Normal = (k, a)" by fastforce
  note eff = vcpu_alloc_eff [OF ka]
  show ?thesis
  proof (cases a)
    case None
    then have "k = sk s" using eff by simp
    then obtain t where t: "free_vcpus s ids = Some t" "s' = t" "r = Inl ()"
      using c ka None by (cases "free_vcpus s ids") (simp_all add: create_gang_vcpu_def)
    then show ?thesis using free_vcpus_inv [OF inv(1) _ t(1)] inv(2) by (simp add: all_ready_def)
  next
    case (Some vid)
    note ka = ka [unfolded Some]
    have ik: "step_inv (s\<lparr> sk := k \<rparr>)" by (rule step_inv_alloc [OF inv(1) ka])
    note v = vst_alloc [OF ka len]
    obtain z q where z: "alloc_pages (vphys (kvm k)) 3 = Some (z, q)"
      using c ka by (cases "alloc_pages (vphys (kvm k)) 3") (auto simp: create_gang_vcpu_def)
    define s1 where "s1 = set_vm (s\<lparr> sk := k \<rparr>) ((kvm k)\<lparr> vphys := z \<rparr>)"
    have i1: "step_inv s1" unfolding s1_def by (rule set_vm_inv [OF ik]) (simp add: sview_def)
    have v1: "vst s1 w = (if w = vid then Some Halted else vst s w)" for w by (rule v(1)) (simp add: s1_def)
    have g1: "gangs s1 = gangs s" "gang_count s1 = gang_count s" by (simp_all add: s1_def)
    show ?thesis
    proof (cases q)
      case None
      then obtain t where t: "free_vcpus s1 (Some vid # ids) = Some t" "s' = t" "r = Inl ()"
        using c ka z by (cases "free_vcpus s1 (Some vid # ids)")
          (simp_all add: create_gang_vcpu_def s1_def del: free_vcpus.simps)
      moreover have "\<forall>w. Some w \<in> set (Some vid # ids) \<longrightarrow> vst s1 w \<noteq> Some Running"
        using inv(2) by (auto simp: v1 all_ready_def)
      ultimately show ?thesis using free_vcpus_inv [OF i1 _ t(1)] g1 by simp
    next
      case q: (Some pages)
      obtain m2 st where m2: "gang_stack (kvm (sk s1)) pages entry = Some (m2, st)"
        using c ka z q by (cases "gang_stack (kvm (sk s1)) pages entry")
          (simp_all add: create_gang_vcpu_def s1_def split: prod.splits)
      define s2 where "s2 = set_vm s1 m2"
      have i2: "step_inv s2" unfolding s2_def
        by (rule set_vm_inv [OF i1]) (use vruns_gang_stack [OF m2] in \<open>simp add: sview_def\<close>)
      have v2: "vst s2 = vst s1" by (rule vst_cong) (simp add: s2_def)
      have g2: "gangs s2 = gangs s" "gang_count s2 = gang_count s" "length (vcpus (sk s2)) = MAX_VCPUS"
        using g1 i2 by (simp_all add: s2_def step_inv_def inv_but_def)
      define s3 where "s3 = with_mut s2 vid (\<lambda>v. v\<lparr> vstate := Ready, saved_frame := user_frame entry arg (st - IRETQ_FRAME_SIZE),
           kstack_top := st, vpml4 := kernel_pml4 m2, gang_id := g \<rparr>)"
      have r: "s' = s3 \<and> r = Inr vid"
        using c ka z q m2 by (simp add: create_gang_vcpu_def s1_def s2_def s3_def Let_def)
      have ex: "svcpu s2 vid \<noteq> None" using v1 [of vid] v2 vst_def [of s2 vid] by (cases "svcpu s2 vid") auto
      have v3: "vst s3 w = (if w = vid then Some Ready else vst s w)" for w
        using ex g2(3) v1 v2 by (auto simp: s3_def vst_with_mut)
      have "step_inv s3"
      proof (rule step_inv_change [OF i2])
        show "vst s3 w = Some Running" if "vst s2 w = Some Running" for w using that by (auto simp: v2 v1 v3)
        have l: "listed s3 = listed s" by (rule listed_gangs) (simp add: s3_def g2)
        show "vst s3 w \<noteq> Some Terminated" if "w \<in> listed s3" for w
          using that inv(1) by (auto simp: l v3 step_inv_def inv_but_def)
      qed (use i2 g2 in \<open>simp_all add: s3_def sruns_def step_inv_def gangs_wf_def\<close>)
      then show ?thesis using r inv(2) g2 v3 by (auto simp: all_ready_def s3_def)
    qed
  qed
qed

lemma create_gang_loop_inv:
  assumes "step_inv s" "all_ready s ids" "create_gang_loop n s g entry arg ids = Some (s', r)"
  shows "step_inv s' \<and> gangs s' = gangs s \<and> gang_count s' = gang_count s
    \<and> (\<forall>ids'. r = Some ids' \<longrightarrow> all_ready s' ids' \<and> length ids' = length ids + n)"
  using assms
proof (induction n arbitrary: s ids)
  case (Suc n)
  obtain s1 q where s1: "create_gang_vcpu s g entry arg ids = Some (s1, q)"
      "(case q of Inl _ \<Rightarrow> Some (s1, None) | Inr vid \<Rightarrow> create_gang_loop n s1 g entry arg (ids @ [Some vid])) = Some (s', r)"
    using Suc.prems(3) unfolding create_gang_loop.simps by (elim bind_pair_SomeE)
  note e = create_gang_vcpu_inv [OF Suc.prems(1,2) s1(1)]
  show ?case
  proof (cases q)
    case (Inl u)
    then show ?thesis using s1(2) e by simp
  next
    case (Inr vid)
    then have "create_gang_loop n s1 g entry arg (ids @ [Some vid]) = Some (s', r)" using s1(2) by simp
    moreover have "step_inv s1" "all_ready s1 (ids @ [Some vid])" using e Inr by simp_all
    ultimately show ?thesis using Suc.IH [of s1 "ids @ [Some vid]"] e by simp
  qed
qed auto

lemma count_update_simps [simp]: "vst (s\<lparr> gang_count := n \<rparr>) = vst s" "listed (s\<lparr> gang_count := n \<rparr>) = listed s"
  "scpus (s\<lparr> gang_count := n \<rparr>) = scpus s"
  by (simp_all add: vst_def svcpu_def listed_def scpus_def fun_eq_iff)

lemma listed_new_gang:
  assumes "vid \<in> listed ((set_gang s g (Some new))\<lparr> gang_count := n \<rparr>)"
  shows "vid \<in> listed s \<or> Some vid \<in> set (vcpu_ids new)"
proof -
  obtain h where h: "Some h \<in> set ((gangs s)[g := Some new])" "Some vid \<in> set (vcpu_ids h)"
    using assms [unfolded count_update_simps] unfolding listed_def sched_simps by blast
  then have "Some h \<in> set (gangs s) \<or> h = new"
    using set_update_subset_insert [of "gangs s" g "Some new"] by blast
  then show ?thesis using h(2) unfolding listed_def by blast
qed

text \<open>Entering a gang whose members are not \<^verbatim>\<open>Terminated\<close>.\<close>

lemma new_gang_inv:
  assumes inv: "step_inv s" and g: "gang_count s < MAX_GANGS"
    and new: "length (vcpu_ids new) = MAX_VCPUS_PER_GANG"
    and nz: "\<And>vid. Some vid \<in> set (vcpu_ids new) \<Longrightarrow> vst s vid \<noteq> Some Terminated"
  shows "step_inv ((set_gang s (gang_count s) (Some new))\<lparr> gang_count := gang_count s + 1 \<rparr>)"
proof -
  let ?s = "(set_gang s (gang_count s) (Some new))\<lparr> gang_count := gang_count s + 1 \<rparr>"
  have sk: "sk ?s = sk s" by simp
  have v: "vst ?s = vst s" by simp
  have wf: "gangs_wf s" using inv by (simp add: step_inv_def)
  then have "gangs_wf ?s"
    using g new set_update_subset_insert [of "gangs s" "gang_count s" "Some new"]
    by (simp add: gangs_wf_def) blast
  moreover have "sruns ?s = sruns s" by (simp add: sruns_def)
  moreover have "vst ?s vid \<noteq> Some Terminated" if "vid \<in> listed ?s" for vid
    using listed_new_gang [OF that] nz [of vid] inv unfolding v by (auto simp: step_inv_def inv_but_def)
  ultimately show ?thesis
    using inv by (intro step_inv_change [OF inv]) (simp_all add: step_inv_def inv_but_def)
qed

lemma first_gang_inv: "step_inv s \<Longrightarrow> gang_count s = 0 \<Longrightarrow> step_inv (s\<lparr> gang_count := 1 \<rparr>)"
  by (rule step_inv_change [of s]) (auto simp: sruns_def step_inv_def inv_but_def gangs_wf_def MAX_GANGS_def)

lemma create_gang_inv:
  assumes inv: "step_inv s" and c: "create_gang s n_vcpus entry arg name syms = Some (s', r)"
  shows "step_inv s'"
proof -
  define s0 where "s0 = (if gang_count s = 0 then s\<lparr> gang_count := 1 \<rparr> else s)"
  have i0: "step_inv s0" using inv first_gang_inv by (simp add: s0_def)
  let ?n = "min n_vcpus MAX_VCPUS_PER_GANG"
  show ?thesis
  proof (cases "MAX_GANGS \<le> gang_count s0")
    case True
    then show ?thesis using c i0 by (simp add: create_gang_def Let_def s0_def [symmetric])
  next
    case False
    obtain s1 q where s1: "create_gang_loop ?n s0 (gang_count s0) entry arg [] = Some (s1, q)"
      using c False by (cases "create_gang_loop ?n s0 (gang_count s0) entry arg []")
        (auto simp: create_gang_def Let_def s0_def [symmetric] split: prod.splits)
    note e = create_gang_loop_inv [OF i0 _ s1]
    have i1: "step_inv s1" and gc: "gang_count s1 = gang_count s0" using e by (simp_all add: all_ready_def)
    show ?thesis
    proof (cases q)
      case None
      then show ?thesis using c False s1 i1 by (auto simp: create_gang_def Let_def s0_def [symmetric] split: prod.splits)
    next
      case (Some ids)
      let ?b = "find_least_loaded (scpus s1)"
      have ids: "all_ready s1 ids" "length ids = ?n" using e Some by (simp_all add: all_ready_def)
      obtain s2 where s2: "rq_push_all s1 ?b (map the ids) = Some s2"
        using c False s1 Some by (cases "rq_push_all s1 ?b (map the ids)")
          (auto simp: create_gang_def Let_def s0_def [symmetric] split: prod.splits)
      define s3 where "s3 = set_cpus s2 (add_task_count (scpus s2) ?b (int ?n))"
      have q: "quiet s1 s3" unfolding s3_def by (rule quiet_trans [OF quiet_push [OF s2] quiet_task_count])
      have i3: "step_inv s3" by (rule step_inv_quiet [OF i1 q])
      have v3: "vst s3 = vst s1" using q by (intro vst_cong) (simp add: quiet_def)
      have gc2: "gang_count s2 = gang_count s0" using quiet_push [OF s2] gc by (simp add: quiet_def)
      have gc3: "gang_count s3 = gang_count s0" using q gc by (simp add: quiet_def)
      obtain new where new: "s' = (set_gang s3 (gang_count s3) (Some new))\<lparr> gang_count := gang_count s3 + 1 \<rparr>"
          "vcpu_ids new = ids @ replicate (MAX_VCPUS_PER_GANG - ?n) None"
        using c False s1 Some s2
        by (auto simp: create_gang_def Let_def s0_def [symmetric] s3_def gc2 split: prod.splits intro!: that)
      show ?thesis unfolding new(1)
        using False ids by (intro new_gang_inv [OF i3]) (auto simp: gc3 new(2) v3 all_ready_def)
    qed
  qed
qed

section \<open>Driver gangs and idle vCPUs\<close>

lemma with_mut_inv:
  assumes inv: "step_inv s" and f: "\<And>v. vstate (f v) = vstate v"
  shows "step_inv (with_mut s vid f) \<and> vst (with_mut s vid f) = vst s"
proof -
  have len: "length (vcpus (sk s)) = MAX_VCPUS" using inv by (simp add: step_inv_def inv_but_def)
  have v: "vst (with_mut s vid f) = vst s" using len f by (auto simp: vst_with_mut fun_eq_iff) (simp add: vst_def)
  have l: "listed (with_mut s vid f) = listed s" by (rule listed_gangs) simp
  have "step_inv (with_mut s vid f)"
    by (rule step_inv_change [OF inv]) (use inv in \<open>simp_all add: v l sruns_def step_inv_def inv_but_def gangs_wf_def\<close>)
  then show ?thesis using v by simp
qed

lemma register_inv:
  assumes inv: "step_inv s" and nz: "vst s vid \<noteq> Some Terminated"
    and r: "register_driver_vcpu s vid = Some (s', b)"
  shows "step_inv s'"
proof -
  obtain z q where z: "alloc_pages (vphys (kvm (sk s))) (of_nat (STACK_PAGES + 1)) = Some (z, q)"
    using r by (cases "alloc_pages (vphys (kvm (sk s))) (of_nat (STACK_PAGES + 1))")
      (auto simp: register_driver_vcpu_def Let_def simp del: of_nat_add)
  define s1 where "s1 = set_vm s ((kvm (sk s))\<lparr> vphys := z \<rparr>)"
  have i1: "step_inv s1" unfolding s1_def by (rule set_vm_inv [OF inv]) (simp add: sview_def)
  show ?thesis
  proof (cases q)
    case None
    then show ?thesis using r z i1 by (simp add: register_driver_vcpu_def Let_def s1_def del: of_nat_add)
  next
    case (Some pages)
    let ?m1 = "kvm (sk s1)"
    obtain ab sb st m2 where st: "checked_add HIGHER_HALF pages = Some ab" "checked_add ab PAGE_SIZE = Some sb"
        "checked_add sb KERNEL_STACK_SIZE = Some st"
        "map_contiguous ?m1 (kernel_pml4 ?m1) sb (pages + PAGE_SIZE) (of_nat STACK_PAGES) DATA = Some m2"
        and res: "(let m3 = zero_bytes m2 (sb - HIGHER_HALF) KERNEL_STACK_SIZE; s2 = set_vm s1 m3;
           s3 = (if gang_count s2 = 0 then s2\<lparr> gang_count := 1 \<rparr> else s2)
          in if MAX_GANGS \<le> gang_count s3 then do {
            m4 \<leftarrow> unmap_stack m3 ab [0..<STACK_PAGES + 1];
            z4 \<leftarrow> free_pages (vphys m4) pages (of_nat (STACK_PAGES + 1));
            Some (set_vm s3 (m4\<lparr> vphys := z4 \<rparr>), False)
          } else
            let g = gang_count s3;
                s4 = with_mut s3 vid (\<lambda>v. v\<lparr> kstack_top := st, gang_id := g \<rparr>)
            in Some ((set_gang s4 g (Some (driver_gang g vid)))\<lparr> gang_count := g + 1 \<rparr>, True)) = Some (s', b)"
      using r z Some unfolding register_driver_vcpu_def Let_def s1_def
      by (simp del: of_nat_add) (elim bind_SomeE)
    define m3 where "m3 = zero_bytes m2 (sb - HIGHER_HALF) KERNEL_STACK_SIZE"
    have m3: "vruns m3 = sview s1" using vruns_map [OF st(4)] by (simp add: m3_def sview_def)
    have i2: "step_inv (set_vm s1 m3)" by (rule set_vm_inv [OF i1 m3])
    define s3 where "s3 = (if gang_count (set_vm s1 m3) = 0 then (set_vm s1 m3)\<lparr> gang_count := 1 \<rparr> else set_vm s1 m3)"
    have i3: "step_inv s3" unfolding s3_def using i2 first_gang_inv by simp
    have r3: "sview s3 = vruns m3" by (simp add: s3_def sview_def)
    have v3: "vst s3 = vst s" by (simp add: s3_def s1_def) (auto intro!: vst_cong)
    note res = res [folded m3_def, unfolded Let_def, folded s3_def]
    show ?thesis
    proof (cases "MAX_GANGS \<le> gang_count s3")
      case True
      then obtain m4 z4 where m4: "unmap_stack m3 ab [0..<STACK_PAGES + 1] = Some m4"
          "Some (set_vm s3 (m4\<lparr> vphys := z4 \<rparr>), False) = Some (s', b)"
        using res by (simp only: if_True) (elim bind_SomeE)
      then show ?thesis using vruns_unmap_stack [OF m4(1)] set_vm_inv [OF i3, of "m4\<lparr> vphys := z4 \<rparr>"] r3 by simp
    next
      case False
      define s4 where "s4 = with_mut s3 vid (\<lambda>v. v\<lparr> kstack_top := st, gang_id := gang_count s3 \<rparr>)"
      have i4: "step_inv s4" "vst s4 = vst s" using with_mut_inv [OF i3] v3 by (simp_all add: s4_def)
      have g4: "gang_count s4 = gang_count s3" by (simp add: s4_def)
      have "s' = (set_gang s4 (gang_count s4) (Some (driver_gang (gang_count s4) vid)))\<lparr> gang_count := gang_count s4 + 1 \<rparr>"
        using res False by (simp add: s4_def [symmetric] g4)
      then show ?thesis
        using new_gang_inv [OF i4(1), of "driver_gang (gang_count s4) vid"] False nz i4(2) g4
        by (auto simp: driver_gang_def MAX_VCPUS_PER_GANG_def)
    qed
  qed
qed

lemma set_idle_inv:
  assumes inv: "step_inv s" and c: "c < MAX_CPUS" and r: "sruns s' = (sruns s)[c := (vid, vid)]" and vid: "vid < 2 ^ 32"
    and same: "vcpus (sk s') = vcpus (sk s)" "gangs s' = gangs s" "gang_count s' = gang_count s"
  shows "step_inv s'"
proof -
  have len: "length (sruns s) = MAX_CPUS" using inv by (simp add: step_inv_def inv_but_def)
  have other: "running_on s' d = running_on s d" "busy s' d = busy s d" "sruns s' ! d = sruns s ! d" if "d \<noteq> c" for d
    using that by (simp_all add: running_on_def busy_def r)
  have own: "\<not> busy s' c" "sruns s' ! c = (vid, vid)" using c len vid by (simp_all add: busy_def running_on_def r)
  have nb: "busy s' d \<Longrightarrow> d \<noteq> c \<and> busy s d \<and> running_on s' d = running_on s d" for d
    using own other [of d] by (cases "d = c") simp_all
  have v: "vst s' = vst s" by (rule vst_cong [OF same(1)])
  have l: "listed s' = listed s" by (rule listed_gangs [OF same(2)])
  have idle: "snd (sruns s' ! d) < 2 ^ 32" if "d < MAX_CPUS" for d
    using inv that other(3) [of d] own(2) vid by (cases "d = c") (simp_all add: step_inv_def inv_but_def)
  have "run_inv s'" unfolding inv_but_def v l same(1)
    using inv nb idle by (simp add: step_inv_def inv_but_def r)
  moreover have "gangs_wf s'" using inv same by (simp add: step_inv_def gangs_wf_def)
  ultimately show ?thesis using inv nb same(3) by (auto simp: step_inv_def)
qed

lemma runs_idle:
  assumes "slot mod MAX_CPUS < length (runs c)"
  shows "runs (set_task_count (set_current_vcpu (set_idle_vcpu (set_cpu c slot (kernel_stack_top_update f)) slot v) slot v) slot n)
    = (runs c)[slot mod MAX_CPUS := (v, v)]"
proof -
  have "runs (set_idle_vcpu c slot v) = (runs c)[slot mod MAX_CPUS := (fst (runs c ! (slot mod MAX_CPUS)), v)]" for c
  proof (cases "slot mod MAX_CPUS < length (percpu c)")
    case True
    then show ?thesis by (simp add: runs_def set_idle_vcpu_def set_cpu_def map_update)
  next
    case False
    then show ?thesis by (simp add: runs_def set_idle_vcpu_def set_cpu_def list_update_beyond)
  qed
  then show ?thesis using assms
    by (simp add: set_task_count_def runs_set_current runs_set_cpu)
qed

lemma idle_vcpu_inv:
  assumes inv: "step_inv s" and i: "init_idle_vcpu s entry sp = Some s'"
  shows "step_inv s'"
proof -
  obtain s1 slot where s1: "current_cpu_slot s = Some (s1, slot)"
    using i by (cases "current_cpu_slot s") (auto simp: init_idle_vcpu_def)
  have i1: "step_inv s1" by (rule step_inv_slot [OF inv s1])
  have len: "length (vcpus (sk s1)) = MAX_VCPUS" "length (sruns s1) = MAX_CPUS" using i1 by (simp_all add: step_inv_def inv_but_def)
  obtain k vid where k: "vcpu_alloc (sk s1) GANG_UNSCHEDULED (current_pml4 (kvm (sk s1))) (push_bit slot 1) IdleType = (k, Some vid)"
    using i s1 by (cases "vcpu_alloc (sk s1) GANG_UNSCHEDULED (current_pml4 (kvm (sk s1))) (push_bit slot 1) IdleType")
      (auto simp: init_idle_vcpu_def bind_eq_Some_conv)
  have i2: "step_inv (s1\<lparr> sk := k \<rparr>)" by (rule step_inv_alloc [OF i1 k])
  note v2 = vst_alloc [OF k len(1), of "s1\<lparr> sk := k \<rparr>"]
  have len2: "length (vcpus (sk (s1\<lparr> sk := k \<rparr>))) = MAX_VCPUS" using i2 by (simp add: step_inv_def inv_but_def)
  define s3 where "s3 = with_mut (s1\<lparr> sk := k \<rparr>) vid (\<lambda>v. v\<lparr> vstate := IdleState, saved_frame := idle_frame entry sp \<rparr>)"
  have v3: "vst s3 w = (if w = vid then map_option (\<lambda>_. IdleState) (svcpu (s1\<lparr> sk := k \<rparr>) vid) else vst s1 w)" for w
    using v2 len2 by (simp add: s3_def vst_with_mut)
  have l3: "listed s3 = listed s1" by (rule listed_gangs) (simp add: s3_def)
  have i3: "step_inv s3"
  proof (rule step_inv_change [OF i2])
    show "vst s3 w = Some Running" if "vst (s1\<lparr> sk := k \<rparr>) w = Some Running" for w using that v2 v3 by auto
    show "vst s3 w \<noteq> Some Terminated" if "w \<in> listed s3" for w
      using that i1 v3 [of w] by (auto simp: l3 step_inv_def inv_but_def)
  qed (use i2 len2 in \<open>simp_all add: s3_def sruns_def step_inv_def gangs_wf_def\<close>)
  have s': "s' = set_cpus s3 (set_task_count (set_current_vcpu (set_idle_vcpu
      (set_cpu (scpus s3) slot (kernel_stack_top_update (\<lambda>_. sp))) slot vid) slot vid) slot 1)"
    using i s1 k by (simp add: init_idle_vcpu_def s3_def Let_def)
  have "length (sruns s3) = MAX_CPUS" using i3 by (simp add: step_inv_def inv_but_def)
  then have "sruns s' = (sruns s3)[slot mod MAX_CPUS := (vid, vid)]"
    using mod_cpus [of slot] by (simp add: s' sruns_def runs_idle)
  moreover have "vid < 2 ^ 32" using vcpu_alloc_eff [OF k] by (simp add: MAX_VCPUS_def)
  ultimately show ?thesis by (intro set_idle_inv [OF i3 mod_cpus]) (simp_all add: s')
qed

section \<open>Sequences of steps\<close>

text \<open>One operation of the scheduler, run by the CPU whose local APIC answers \<open>this_apic\<close>. A tick or a block
  happens on a CPU whose idle vCPU exists. \<open>hop\<close> lets another CPU take the next step.\<close>

inductive sched_step :: "sched \<Rightarrow> sched \<Rightarrow> bool" where
  tick: "current_cpu_slot s = Some (s1, cpu) \<Longrightarrow> started s1 cpu \<Longrightarrow> schedule s frame fa fx fpu = Some r \<Longrightarrow> sched_step s (os r)"
| block: "current_cpu_slot s = Some (s1, cpu) \<Longrightarrow> started s1 cpu \<Longrightarrow> block_current s frame fa hw = Some (s', res)
    \<Longrightarrow> sched_step s s'"
| wake: "wake s vid = Some s' \<Longrightarrow> sched_step s s'"
| steal: "steal_task s hungry ie lk = Some (s', b) \<Longrightarrow> sched_step s s'"
| create: "create_gang s n entry arg name syms = Some (s', g) \<Longrightarrow> sched_step s s'"
| driver: "vst s vid \<noteq> Some Terminated \<Longrightarrow> register_driver_vcpu s vid = Some (s', b) \<Longrightarrow> sched_step s s'"
| idle: "init_idle_vcpu s entry sp = Some s' \<Longrightarrow> sched_step s s'"
| hop: "sched_step s (set_vm s ((kvm (sk s))\<lparr> this_apic := a \<rparr>))"

lemma hop_inv: "step_inv s \<Longrightarrow> step_inv (set_vm s ((kvm (sk s))\<lparr> this_apic := a \<rparr>))"
  by (rule step_inv_same) (simp_all add: sruns_def scpus_def)

lemma step_preserves: "sched_step s s' \<Longrightarrow> step_inv s \<Longrightarrow> step_inv s'"
  by (induction rule: sched_step.induct)
    (auto intro: schedule_inv block_inv wake_inv steal_inv create_gang_inv register_inv idle_vcpu_inv hop_inv)

interpretation sched_inv: step_invariant sched_step step_inv
  by unfold_locales (rule step_preserves)

end
