(* ===== verification/Gdf_Keeps.thy ===== *)
theory Gdf_Keeps
  imports Gdf Sched_Create
begin

text \<open>
  Forking and freeing address spaces, loading an ELF image and releasing a service's resources
  leave the vCPUs and the current vCPU of each CPU unchanged.
\<close>

declare upt_rec_numeral [simp del]

section \<open>Forking and freeing address spaces\<close>

definition keeps2 :: "cpu_view \<Rightarrow> (vm \<times> 'a) option \<Rightarrow> bool" where
  "keeps2 R r \<longleftrightarrow> (\<forall>m' x. r = Some (m', x) \<longrightarrow> vruns m' = R)"

lemma keeps2_if: "(b \<Longrightarrow> keeps2 R x) \<Longrightarrow> (\<not> b \<Longrightarrow> keeps2 R y) \<Longrightarrow> keeps2 R (if b then x else y)"
  by simp

lemma keeps2_None [simp]: "keeps2 R None"
  unfolding keeps2_def by simp

lemma keeps2_bind: "(\<And>x. e = Some x \<Longrightarrow> keeps2 R (f x)) \<Longrightarrow> keeps2 R (Option.bind e f)"
  by (cases e) simp_all

lemma keeps2_let: "(\<And>x. x = e \<Longrightarrow> keeps2 R (f x)) \<Longrightarrow> keeps2 R (Let e f)"
  by simp

lemma keeps2_Some_iff [simp]: "keeps2 R (Some (m, x)) \<longleftrightarrow> vruns m = R"
  unfolding keeps2_def by blast

lemma keeps2_Some: "vruns m = R \<Longrightarrow> keeps2 R (Some (m, x))"
  by simp

lemma keeps2_pair:
  assumes "keeps2 (vruns m) e" "\<And>m' x. vruns m' = vruns m \<Longrightarrow> keeps2 R (f m' x)"
  shows "keeps2 R (Option.bind e (\<lambda>(a, b). f a b))"
proof (cases e)
  case (Some p)
  obtain a b where p: "p = (a, b)" by (cases p)
  show ?thesis using assms Some by (simp add: p)
qed simp

lemma keeps2_case: "(r = None \<Longrightarrow> keeps2 R x) \<Longrightarrow> (\<And>v. r = Some v \<Longrightarrow> keeps2 R (f v)) \<Longrightarrow>
    keeps2 R (case r of None \<Rightarrow> x | Some v \<Rightarrow> f v)"
  by (cases r) simp_all

lemmas keeps2_rules = keeps2_if keeps2_let keeps2_case keeps2_Some

lemma keeps2_alloc: "keeps2 (vruns m) (vm_alloc_page m)"
  unfolding keeps2_def by (intro allI impI) (rule vruns_alloc_page)

lemma keeps2_loop:
  assumes "\<And>m i. keeps2 (vruns m) (body m i)"
  shows "keeps2 (vruns m) (copy_loop body m is)"
proof (induction "is" arbitrary: m)
  case Nil
  then show ?case by (simp add: keeps2_def)
next
  case (Cons i "is")
  show ?case unfolding copy_loop.simps
  proof (rule keeps2_pair [OF assms])
    fix m' x assume "vruns m' = vruns m"
    then show "keeps2 (vruns m) (if x then copy_loop body m' is else Some (m', False))"
      using Cons.IH [of m'] by (simp add: keeps2_Some)
  qed
qed

lemma cow_entry_runs [simp]: "vruns (fst (cow_entry m c e)) = vruns m"
  by (simp add: cow_entry_def)

lemma keeps2_cow:
  "keeps2 (vruns m) (case cow_entry m c e of (m', v) \<Rightarrow> Some (write_word m' a v, True))"
  using cow_entry_runs [of m c e] by (cases "cow_entry m c e") (simp add: keeps2_def)

lemma keeps2_leaf: "keeps2 (vruns m) (copy_leaf cow src new m i)"
  unfolding copy_leaf_def by (intro keeps2_rules keeps2_cow refl)

lemma keeps2_child:
  assumes "keeps2 (vruns m) e"
  shows "keeps2 (vruns m) (Option.bind e (\<lambda>(s', r). case r of None \<Rightarrow> Some (s', False)
     | Some d \<Rightarrow> Some (write_word s' (f d) (h d), True)))"
  by (rule keeps2_pair [OF assms], rule keeps2_case) (simp_all add: keeps2_Some)

lemma keeps2_node:
  assumes "\<And>m p. keeps2 (vruns m) (child m p)"
  shows "keeps2 (vruns m) (copy_node child cow src new m i)"
  unfolding copy_node_def by (intro keeps2_if keeps2_let keeps2_Some keeps2_cow keeps2_child assms refl)

lemma keeps2_copy_with:
  assumes "\<And>src new m i. keeps2 (vruns m) (body src new m i)"
  shows "keeps2 (vruns m) (copy_with body m p)"
  unfolding copy_with_def
proof (rule keeps2_bind, rule keeps2_pair [OF keeps2_alloc], rule keeps2_case)
  fix src s1 r and v :: u64
  assume m1: "vruns s1 = vruns m"
  show "keeps2 (vruns m) (Some (s1, None))" using m1 by (rule keeps2_Some)
  show "keeps2 (vruns m) (do { new \<leftarrow> phys_to_virtual v;
      (s2, ok) \<leftarrow> copy_loop (body src new) (new_zeroed s1 new) [0..<512];
      Some (s2, if ok then Some v else None) })"
  proof (rule keeps2_bind)
    fix new
    show "keeps2 (vruns m) (do { (s2, ok) \<leftarrow> copy_loop (body src new) (new_zeroed s1 new) [0..<512];
      Some (s2, if ok then Some v else None) })"
      by (rule keeps2_pair [OF keeps2_loop [OF assms]]) (simp add: keeps2_Some m1)
  qed
qed

lemma keeps2_copy_table: "keeps2 (vruns m) (copy_table_recursive l cow m p)"
  by (induction l arbitrary: m p) (simp_all add: keeps2_copy_with keeps2_leaf keeps2_node)

lemma keeps2_low_entry: "keeps2 (vruns m) (copy_low_entry a b m i)"
  unfolding copy_low_entry_def by (intro keeps2_if keeps2_let keeps2_child keeps2_copy_table) (simp add: keeps2_Some)

lemma keeps2_fork_entry: "keeps2 (vruns m) (fork_entry k a b m i)"
  unfolding fork_entry_def
  by (intro keeps2_if keeps2_let keeps2_child keeps2_copy_table) (simp_all add: keeps2_Some)

lemma keeps2_low_tail:
  assumes "vruns s2 = R"
  shows "keeps2 R (do { new_pdp \<leftarrow> x1; new_pd \<leftarrow> x2; src_pd \<leftarrow> x3;
     (s3, ok) \<leftarrow> copy_loop (copy_low_entry src_pd new_pd) (new_zeroed (new_zeroed s2 new_pdp) new_pd) ks;
     if ok then Some (write_word (write_word s3 (a1 new_pdp) v1) a2 v2, True) else Some (s3, False) })"
  by (rule keeps2_bind, rule keeps2_bind, rule keeps2_bind, rule keeps2_pair [OF keeps2_loop [OF keeps2_low_entry]])
    (simp add: keeps2_Some assms)

lemma keeps2_free: "vruns m = R \<Longrightarrow> keeps2 R (do { m' \<leftarrow> vm_free_page m p; Some (m', x) })"
  by (rule keeps2_bind) (simp add: keeps2_Some vruns_free_page)

lemma keeps2_low: "keeps2 (vruns m) (copy_kernel_low_identity m a b)"
  unfolding copy_kernel_low_identity_def
  apply (rule keeps2_let, rule keeps2_if, simp add: keeps2_Some)
  apply (rule keeps2_bind, rule keeps2_let, rule keeps2_if, simp add: keeps2_Some)
  apply (rule keeps2_pair [OF keeps2_alloc], rule keeps2_case, simp add: keeps2_Some)
  apply (rule keeps2_pair [OF keeps2_alloc], rule keeps2_case)
   apply (rule keeps2_free, simp)
  apply (rule keeps2_low_tail, simp)
  done

lemma vruns_fork [runs_keep]:
  assumes "fork_pml4 m p = Some (m', r)"
  shows "vruns m' = vruns m"
proof -
  have "keeps2 (vruns m) (fork_pml4 m p)"
    unfolding fork_pml4_def
    apply (rule keeps2_bind, rule keeps2_pair [OF keeps2_alloc], rule keeps2_case, simp add: keeps2_Some)
    apply (rule keeps2_bind, rule keeps2_let, rule keeps2_let)
    subgoal for src s1 r new_phys new s2 fk
      apply (rule keeps2_pair [of s2])
       apply (rule keeps2_if, rule keeps2_low, simp)
      apply (rule keeps2_if, simp)
      apply (rule keeps2_pair [OF keeps2_loop [OF keeps2_fork_entry]], simp add: keeps2_Some)
      done
    done
  then show ?thesis unfolding assms by simp
qed

lemma keeps_free_loop:
  assumes "\<And>m i m'. body m i = Some m' \<Longrightarrow> vruns m' = vruns m"
  shows "free_loop body m is = Some m' \<Longrightarrow> vruns m' = vruns m"
proof (induction "is" arbitrary: m)
  case (Cons i "is")
  from Cons.prems obtain m1 where "body m i = Some m1" "free_loop body m1 is = Some m'"
    unfolding free_loop.simps by (elim bind_SomeE)
  then show ?case using assms Cons.IH by metis
qed simp

lemma vruns_free_table: "free_table_recursive l m p = Some m' \<Longrightarrow> vruns m' = vruns m"
proof (induction l arbitrary: m p m')
  case 0
  then show ?case unfolding free_table_recursive.simps by (elim bind_SomeE) (rule vruns_free_page)
next
  case (Suc l)
  from Suc.prems obtain t m1 where m1: "free_loop (\<lambda>s i. let entry = mem s (entry_addr t i) in
        if has entry PRESENT \<and> \<not> has entry HUGE
        then free_table_recursive l s (entry AND PHYS_ADDR_MASK) else Some s) m [0..<512] = Some m1"
      and m': "vm_free_page m1 p = Some m'"
    unfolding free_table_recursive.simps by (elim bind_SomeE)
  have "vruns m' = vruns m" if "(let entry = mem m (entry_addr t i) in
        if has entry PRESENT \<and> \<not> has entry HUGE
        then free_table_recursive l m (entry AND PHYS_ADDR_MASK) else Some m) = Some m'" for m i m'
    using that Suc.IH by (simp add: Let_def split: if_splits)
  then have "vruns m1 = vruns m" by (rule keeps_free_loop [OF _ m1])
  then show ?case using vruns_free_page [OF m'] by simp
qed

lemma vruns_free_pml4 [runs_keep]:
  assumes "free_pml4 m p = Some m'"
  shows "vruns m' = vruns m"
proof -
  obtain t m1 m2 where m1: "free_loop (\<lambda>s i. let entry = mem s (entry_addr t i) in
        if has entry PRESENT \<and> \<not> has entry HUGE
        then free_table_recursive 2 s (entry AND PHYS_ADDR_MASK) else Some s) m [0..<256] = Some m1"
      and m2: "vm_free_page m1 p = Some m2"
      "(if p = current_pml4 m2 then Some (m2\<lparr> tlb_log := tlb_log m2 @ [ReloadCr3] \<rparr>) else Some m2) = Some m'"
    using assms unfolding free_pml4_def by (elim bind_SomeE)
  have "vruns m' = vruns m" if "(let entry = mem m (entry_addr t i) in
        if has entry PRESENT \<and> \<not> has entry HUGE
        then free_table_recursive 2 m (entry AND PHYS_ADDR_MASK) else Some m) = Some m'" for m i m'
    using that vruns_free_table by (simp add: Let_def split: if_splits)
  then have "vruns m1 = vruns m" by (rule keeps_free_loop [OF _ m1])
  then show ?thesis using m2 vruns_free_page [OF m2(1)] by (auto split: if_splits)
qed

section \<open>Loading an image\<close>

definition eruns :: "elf_state \<Rightarrow> cpu_view" where
  "eruns s = vruns (evm s)"

definition ekeeps :: "cpu_view \<Rightarrow> (elf_state \<times> 'a) option \<Rightarrow> bool" where
  "ekeeps R r \<longleftrightarrow> (\<forall>s' x. r = Some (s', x) \<longrightarrow> eruns s' = R)"

lemma ekeeps_None [simp]: "ekeeps R None"
  unfolding ekeeps_def by simp

lemma ekeeps_Some [simp]: "ekeeps R (Some (s, x)) \<longleftrightarrow> eruns s = R"
  unfolding ekeeps_def by blast

lemma ekeeps_D: "ekeeps R r \<Longrightarrow> r = Some (s', x) \<Longrightarrow> eruns s' = R"
  by simp

lemma ekeeps_bind: "(\<And>x. e = Some x \<Longrightarrow> ekeeps R (f x)) \<Longrightarrow> ekeeps R (Option.bind e f)"
  by (cases e) simp_all

lemma ekeeps_pair:
  assumes "ekeeps R e" "\<And>s' x. eruns s' = R \<Longrightarrow> ekeeps R (f s' x)"
  shows "ekeeps R (Option.bind e (\<lambda>(a, b). f a b))"
proof (cases e)
  case (Some p)
  obtain a b where p: "p = (a, b)" by (cases p)
  show ?thesis using assms Some by (simp add: p)
qed simp

lemma ekeeps_rbind:
  assumes "ekeeps R e" "\<And>s' x. eruns s' = R \<Longrightarrow> ekeeps R (f s' x)"
  shows "ekeeps R (rbind e f)"
proof (cases e)
  case (Some p)
  obtain a b where p: "p = (a, b)" by (cases p)
  show ?thesis using assms Some by (cases b) (simp_all add: p rbind_def)
qed (simp add: rbind_def)

lemma ekeeps_if: "(b \<Longrightarrow> ekeeps R x) \<Longrightarrow> (\<not> b \<Longrightarrow> ekeeps R y) \<Longrightarrow> ekeeps R (if b then x else y)"
  by simp

lemma ekeeps_case: "(r = None \<Longrightarrow> ekeeps R x) \<Longrightarrow> (\<And>v. r = Some v \<Longrightarrow> ekeeps R (f v)) \<Longrightarrow>
    ekeeps R (case r of None \<Rightarrow> x | Some v \<Rightarrow> f v)"
  by (cases r) simp_all

lemma eruns_set_evm [simp]: "eruns (set_evm s m) = vruns m" "evm (set_evm s m) = m"
  by (simp_all add: eruns_def evm_def set_evm_def)

lemma eruns_evm: "vruns (evm s) = eruns s"
  by (simp add: eruns_def)

lemma vruns_store_bytes [simp]: "vruns (store_bytes m a bs) = vruns m"
  by (simp add: store_bytes_def)

lemma ekeeps_alloc: "eruns s = R \<Longrightarrow> ekeeps R (elf_alloc s n)"
  unfolding elf_alloc_def by (rule ekeeps_bind) (simp split: prod.splits add: eruns_def)

lemma eruns_free: "elf_free s p n = Some s' \<Longrightarrow> eruns s' = eruns s"
  unfolding elf_free_def by (elim bind_SomeE) (simp, elim subst, simp add: eruns_def)

lemma eruns_free_segments: "free_segments s got = Some s' \<Longrightarrow> eruns s' = eruns s"
proof (induction s got rule: free_segments.induct)
  case (2 s p n rest)
  show ?case
  proof (cases "p \<noteq> 0 \<and> 0 < n")
    case True
    then obtain s1 where "elf_free s p n = Some s1" "free_segments s1 rest = Some s'"
      using "2.prems" unfolding free_segments.simps if_P [OF True] by (elim bind_SomeE)
    then show ?thesis using "2.IH"(1) [OF True] eruns_free by metis
  next
    case False
    then show ?thesis using "2.prems" "2.IH"(2) unfolding free_segments.simps if_not_P [OF False] by simp
  qed
qed simp

lemma svm_set_entry: "set_entry a n i v = Some a' \<Longrightarrow> svm a' = svm a"
  unfolding set_entry_def by (elim bind_SomeE) (simp, elim subst, simp)

lemma vruns_v_new_node: "radix_new_zeroed a = Some (a', p) \<Longrightarrow> vruns (svm a') = vruns (svm a)"
  unfolding radix_new_zeroed_def by (elim bind_pair_SomeE bind_SomeE) (simp, elim conjE subst, simp add: set_phys_def)

lemma vruns_v_insert_walk: "insert_walk a addr node ls = Some (a', n) \<Longrightarrow> vruns (svm a') = vruns (svm a)"
proof (induction a addr node ls rule: insert_walk.induct)
  case (2 s addr node level rest)
  obtain f where f: "rnode s node = Some f" using "2.prems" by (cases "rnode s node") simp_all
  show ?case
  proof (cases "f (radix_index addr level) = 0")
    case True
    then have "(do { (s1, c) \<leftarrow> radix_new_zeroed s; s2 \<leftarrow> set_entry s1 node (radix_index addr level) c;
       insert_walk s2 addr c rest }) = Some (a', n)"
      using "2.prems" f by (simp add: Let_def)
    then obtain s1 c s2 where s1: "radix_new_zeroed s = Some (s1, c)" and s2: "set_entry s1 node (radix_index addr level) c = Some s2"
        "insert_walk s2 addr c rest = Some (a', n)" by (elim bind_pair_SomeE bind_SomeE)
    have "vruns (svm a') = vruns (svm s2)"
      using "2.IH"(1) [OF f refl True s1 refl s2(1)] s2(2) by simp
    then show ?thesis using vruns_v_new_node [OF s1] svm_set_entry [OF s2(1)] by simp
  next
    case False
    then show ?thesis using 2 f by (simp add: Let_def)
  qed
qed simp

lemma vruns_v_vma_insert:
  assumes "vma_insert a root p = Some (a', r)"
  shows "vruns (svm a') = vruns (svm a)"
proof -
  obtain v :: vma and s1 root1 s2 node s3 where s: "(if root = 0 then radix_new_zeroed a else Some (a, root)) = Some (s1, root1)"
      "insert_walk s1 (vma_start v) root1 (rev [1..<RADIX_LEVELS]) = Some (s2, node)"
      "set_entry s2 node (radix_index (vma_start v) 0) p = Some s3" "Some (s3, root1) = Some (a', r)"
    using assms unfolding vma_insert_def by (elim bind_pair_SomeE bind_SomeE) (rule that, assumption+)
  have "vruns (svm s1) = vruns (svm a)" using s(1) vruns_v_new_node by (auto split: if_splits)
  then show ?thesis using vruns_v_insert_walk [OF s(2)] svm_set_entry [OF s(3)] s(4) by simp
qed

lemma eruns_add_vma:
  assumes "elf_add_vma s box_at a b perm = Some s'"
  shows "eruns s' = eruns s"
proof (cases "epm s")
  case None
  then show ?thesis using assms by (simp add: elf_add_vma_def)
next
  case (Some pm)
  then obtain va pm' where va: "add_vma (evma s) pm (box_at (ebox s)) a b perm = Some (va, pm')"
      "Some (s\<lparr> evma := va, epm := Some pm', ebox := ebox s + 1 \<rparr>) = Some s'"
    using assms unfolding elf_add_vma_def Some option.case by (elim bind_pair_SomeE)
  obtain s1 root where s1: "vma_insert ((evma s)\<lparr> boxes := (boxes (evma s))(box_at (ebox s) \<mapsto>
       \<lparr> vma_start = a, vma_end = b, vma_perm = perm, vma_flags = 0 \<rparr>) \<rparr>) (vma_tree pm) (box_at (ebox s)) = Some (s1, root)"
      "va = s1"
    using va(1) unfolding add_vma_def Let_def by (elim bind_pair_SomeE) simp
  then have "vruns (svm va) = vruns (svm (evma s))" using vruns_v_vma_insert [OF s1(1)] by simp
  moreover have "evma s' = va" using va(2) by auto
  ultimately show ?thesis by (simp add: eruns_def evm_def)
qed

lemma vruns_fill [runs_keep]: "fill_segment b m p g = Some m' \<Longrightarrow> vruns m' = vruns m"
  unfolding fill_segment_def Let_def
  by (elim bind_SomeE) (auto simp: bind_eq_Some_conv split: if_splits)

lemma ekeeps_load_segment:
  assumes "eruns s = R"
  shows "ekeeps R (load_segment b box_at pml4 s got g)"
  unfolding load_segment_def
proof (rule ekeeps_pair [OF ekeeps_alloc [OF assms]], rule ekeeps_case)
  fix s1 r phys
  assume s1: "eruns s1 = R"
  show "ekeeps R (do { s2 \<leftarrow> free_segments s1 got; Some (s2, Inl NoMem) })"
    using s1 by (intro ekeeps_bind) (simp add: eruns_free_segments)
  show "ekeeps R (do {
          m1 \<leftarrow> map_contiguous (evm s1) pml4 (seg_load_vaddr g) phys (seg_pages g) (seg_flags g);
          nx \<leftarrow> (if seg_flags g AND NO_EXECUTE = 0 then is_nx m1 pml4 (seg_load_vaddr g) else Some False);
          if nx then None
          else do {
            m2 \<leftarrow> fill_segment b m1 phys g;
            e \<leftarrow> checked_add (seg_vaddr g) (seg_memsz g);
            stop \<leftarrow> page_align_up e;
            s2 \<leftarrow> elf_add_vma (set_evm s1 m2) box_at (page_align_down (seg_vaddr g)) stop (segment_perm (seg_flags g));
            Some (s2, Inr (got @ [(phys, seg_pages g)]))
          }
        })"
    using s1 by (intro ekeeps_bind ekeeps_if) (simp_all add: eruns_add_vma vruns_fill vruns_map eruns_evm)
qed

lemma ekeeps_load_segments: "eruns s = R \<Longrightarrow> ekeeps R (load_segments b box_at pml4 s got segs)"
  by (induction segs arbitrary: s got) (simp_all add: ekeeps_rbind ekeeps_load_segment)

lemma eruns_free_table: "free_table s p n = Some s' \<Longrightarrow> eruns s' = eruns s"
  unfolding free_table_def by (cases "p = 0") (simp, simp, elim bind_SomeE, rule eruns_free)

lemma ekeeps_fail: "eruns s = R \<Longrightarrow> ekeeps R (fail_sym s y e)"
  unfolding fail_sym_def free_sym_str_def
  by (intro ekeeps_bind) (simp, elim bind_SomeE, simp add: eruns_free_table)

lemma ekeeps_copy_table: "eruns s = R \<Longrightarrow> ekeeps R (copy_table b s y sh)"
  unfolding copy_table_def
  apply (rule ekeeps_case, simp)
  apply (rule ekeeps_if, simp add: ekeeps_fail)
  apply (rule ekeeps_bind, rule ekeeps_pair [OF ekeeps_alloc], simp)
  apply (rule ekeeps_case, simp add: ekeeps_fail)
  apply (rule ekeeps_bind, simp add: eruns_def)
  done

lemma ekeeps_sections: "eruns s = R \<Longrightarrow> ekeeps R (scan_sections b names base s y is)"
proof (induction "is" arbitrary: s y)
  case (Cons i "is")
  show ?case unfolding scan_sections.simps Let_def
    by (intro ekeeps_bind ekeeps_if ekeeps_rbind ekeeps_copy_table ekeeps_fail Cons)
qed simp

lemma ekeeps_symbols: "eruns s = R \<Longrightarrow> ekeeps R (load_symbols b h s)"
  unfolding load_symbols_def load_strtab_def Let_def
  by (rule ekeeps_bind, split sum.split)
    (auto intro!: ekeeps_rbind ekeeps_sections ekeeps_if ekeeps_fail ekeeps_bind ekeeps_copy_table)

lemma ekeeps_stack: "eruns s = R \<Longrightarrow> ekeeps R (load_stack box_at pml4 s got y gnu n)"
  unfolding load_stack_def Let_def
  apply (rule ekeeps_bind, rule ekeeps_if, simp)
  apply (rule ekeeps_bind, rule ekeeps_bind, rule ekeeps_if, simp)
  apply (rule ekeeps_pair [OF ekeeps_alloc], simp, rule ekeeps_case)
   apply (rule ekeeps_bind, rule ekeeps_bind, simp add: free_sym_str_def)
   apply (elim bind_SomeE, simp add: eruns_free_table eruns_free_segments)
  apply (rule ekeeps_bind, rule ekeeps_bind, simp add: eruns_add_vma vruns_map eruns_evm)
  done

lemma ekeeps_load_elf: "eruns s = R \<Longrightarrow> ekeeps R (load_elf b n t box_at s)"
  unfolding load_elf_def Let_def
  apply (split sum.split, intro conjI allI impI, simp)
  apply (rule ekeeps_bind, split sum.split, intro conjI allI impI, simp)
  apply (split prod.split, intro allI impI)
  apply (rule ekeeps_rbind [OF ekeeps_load_segments], simp)
  apply (rule ekeeps_rbind [OF ekeeps_symbols], simp)
  apply (rule ekeeps_rbind [OF ekeeps_stack], simp_all)
  done

end
