(* ===== verification/Gdf_Excl.thy ===== *)
theory Gdf_Excl
  imports Gdf_Keeps
begin

text \<open>
  The driver framework keeps the scheduler's mutual-exclusion invariant: starting services from
  arbitrary images, exchanging messages, and taking a crashed driver off its CPU. Together with the
  scheduler's own steps this gives the invariant for every sequence of operations.
\<close>

declare upt_rec_numeral [simp del]

abbreviation ginv :: "gdf \<Rightarrow> bool" where "ginv g \<equiv> step_inv (gs g)"

lemma set_gvm_inv: "ginv g \<Longrightarrow> vruns m = sview (gs g) \<Longrightarrow> ginv (set_gvm g m)"
  by (simp add: set_gvm_def set_vm_inv)

lemma gvm_runs: "vruns (gvm g) = sview (gs g)"
  by (simp add: gvm_def sview_def)

lemma set_kvma_inv:
  assumes "ginv g" "vruns (svm a) = sview (gs g)"
  shows "ginv (set_kvma g a)"
  by (rule step_inv_same [OF assms(1)])
    (use assms(2) in \<open>simp_all add: set_kvma_def sruns_def scpus_def kvm_def sview_def vruns_def\<close>)

lemma kvma_runs: "vruns (svm (kvma (sk (gs g)))) = sview (gs g)"
  by (simp add: sview_def kvm_def)

lemma drop_pm_runs: "drop_pm a pm = Some a' \<Longrightarrow> vruns (svm a') = vruns (svm a)"
  by (cases pm) (auto simp: drop_pm_def vma_tree_drop_def split: if_splits dest!: svm_free_tree)

lemma gs_simps [simp]: "gs (mark_service g i f) = gs g" "gs (fst (register_driver g name vid ty)) = gs g"
  "gs (g\<lparr> services := t \<rparr>) = gs g" "gs (set_driver g i d) = gs g" "gs (remove_driver g vid) = gs g"
  "gs (push_deferred_restart g p) = gs g"
  by (simp_all add: mark_service_def register_driver_def set_driver_def remove_driver_def push_deferred_restart_def
      Let_def split: option.splits)

lemma gs_bump: "bump_crash_count g name = Some (g', n) \<Longrightarrow> gs g' = gs g"
  unfolding bump_crash_count_def by (elim bind_SomeE) (auto split: option.splits prod.splits)

section \<open>Starting services\<close>

lemma prepare_inv:
  assumes inv: "step_inv s" and v: "vst s vid = Some Halted"
  shows "step_inv (with_mut s vid (prepare_vcpu p e sp)) \<and> vst (with_mut s vid (prepare_vcpu p e sp)) vid = Some Ready"
proof -
  let ?s = "with_mut s vid (prepare_vcpu p e sp)"
  have len: "length (vcpus (sk s)) = MAX_VCPUS" using inv by (simp add: step_inv_def inv_but_def)
  have v': "vst ?s w = (if w = vid then Some Ready else vst s w)" for w
    using len v vst_def [of s vid] by (cases "svcpu s vid") (simp_all add: vst_with_mut prepare_vcpu_def)
  have l: "listed ?s = listed s" by (rule listed_gangs) simp
  have "step_inv ?s"
  proof (rule step_inv_change [OF inv])
    show "vst ?s w = Some Running" if "vst s w = Some Running" for w using that v by (auto simp: v')
    show "vst ?s w \<noteq> Some Terminated" if "w \<in> listed ?s" for w
      using that inv by (auto simp: v' l step_inv_def inv_but_def)
  qed (use inv len in \<open>simp_all add: sruns_def step_inv_def gangs_wf_def\<close>)
  then show ?thesis by (simp add: v')
qed

lemma install_inv:
  assumes inv: "ginv g" and i: "install_service g box_at name pml4 ty pm lr = Some (g', r)"
  shows "ginv g'"
proof -
  obtain t a where t: "service_alloc (services g) name pml4 = (t, a)" by fastforce
  define g1 where "g1 = g\<lparr> services := t \<rparr>"
  have i1: "ginv g1" using inv by (simp add: g1_def)
  show ?thesis
  proof (cases a)
    case None
    then obtain w where w: "drop_pm (kvma (sk (gs g))) (Some pm) = Some w" "g' = set_kvma g1 w"
      using i t by (cases "drop_pm (kvma (sk (gs g))) (Some pm)") (simp_all add: install_service_def g1_def)
    show ?thesis unfolding w(2) using i1 drop_pm_runs [OF w(1)] kvma_runs [of g]
      by (intro set_kvma_inv) (simp_all add: g1_def)
  next
    case (Some sid)
    obtain k b where k: "vcpu_alloc (sk (gs g1)) GANG_UNSCHEDULED pml4 (- 1) ty = (k, b)" by fastforce
    show ?thesis
    proof (cases b)
      case None
      then have "k = sk (gs g1)" using vcpu_alloc_eff [OF k] by simp
      then obtain w where w: "drop_pm (kvma (sk (gs g1))) (Some pm) = Some w" "g' = set_kvma g1 w"
        using i t Some k None by (cases "drop_pm (kvma (sk (gs g1))) (Some pm)") (simp_all add: install_service_def g1_def)
      show ?thesis unfolding w(2) using i1 drop_pm_runs [OF w(1)] kvma_runs [of g1]
        by (intro set_kvma_inv) simp_all
    next
      case vid: (Some vid)
      note k = k [unfolded vid]
      have len: "length (vcpus (sk (gs g1))) = MAX_VCPUS" using i1 by (simp add: step_inv_def inv_but_def)
      define k1 where "k1 = k\<lparr> procs := (procs k)(box_at (gbox g1) \<mapsto> pm) \<rparr>"
      obtain sp where sp: "checked_sub (lr_stack_top lr) 8 = Some sp"
        using i t Some k by (cases "checked_sub (lr_stack_top lr) 8") (simp_all add: install_service_def g1_def)
      define s0 where "s0 = (gs g1)\<lparr> sk := k1 \<rparr>"
      have i0: "step_inv s0"
        by (rule step_inv_same [OF step_inv_alloc [OF i1 k]]) (simp_all add: s0_def k1_def sruns_def kvm_def)
      have v0: "vst s0 vid = Some Halted" using vst_alloc(1) [OF k len, of s0 vid] by (simp add: s0_def k1_def)
      define s1 where "s1 = with_mut s0 vid (prepare_vcpu (box_at (gbox g1)) (lr_entry lr) sp)"
      have is1: "step_inv s1" "vst s1 vid = Some Ready" using prepare_inv [OF i0 v0] by (simp_all add: s1_def)
      define g3 where "g3 = fst (register_driver (mark_service (g1\<lparr> gs := s1, gbox := gbox g1 + 1 \<rparr>) sid
        (\<lambda>sv. sv\<lparr> svc_vcpu_id := vid, svc_state := SvcRunning \<rparr>)) name vid ty)"
      have gs3: "gs g3 = s1" by (simp add: g3_def)
      have body: "(do { (s2, ok) \<leftarrow> register_driver_vcpu s1 vid;
          (if \<not> ok then Some (g3\<lparr> gs := s2 \<rparr>, None)
                else do {
                  let best = find_least_loaded (scpus s2);
                  s3 \<leftarrow> rq_push_all s2 best [vid];
                  n \<leftarrow> checked_add (task_count (scpus s3) best) 1;
                  Some (g3\<lparr> gs := set_cpus s3 (set_task_count (scpus s3) best n) \<rparr>, Some sid)
                }) }) = Some (g', r)"
        using i t Some k sp
        unfolding install_service_def by (simp only: option.case prod.case Let_def g1_def [symmetric]
           k1_def [symmetric] s0_def [symmetric] s1_def [symmetric] g3_def [symmetric] gs3 bind.simps)
      obtain s2 ok where s2: "register_driver_vcpu s1 vid = Some (s2, ok)"
        using body by (cases "register_driver_vcpu s1 vid") auto
      have is2: "step_inv s2" using register_inv [OF is1(1) _ s2] is1(2) by simp
      show ?thesis
      proof (cases ok)
        case False
        then show ?thesis using body s2 is2 by auto
      next
        case True
        then obtain s3 n where s3: "rq_push_all s2 (find_least_loaded (scpus s2)) [vid] = Some s3"
            "g' = g3\<lparr> gs := set_cpus s3 (set_task_count (scpus s3) (find_least_loaded (scpus s2)) n) \<rparr>"
          using body s2 unfolding Let_def by (auto simp: bind_eq_Some_conv simp del: rq_push_all.simps)
        have q: "quiet s3 (set_cpus s3 (set_task_count (scpus s3) (find_least_loaded (scpus s2)) n))"
          by (rule quiet_same) (simp_all add: sruns_def set_task_count_def runs_set_cpu)
        show ?thesis using step_inv_quiet [OF is2 quiet_trans [OF quiet_push [OF s3(1)] q]] by (simp add: s3(2))
      qed
    qed
  qed
qed

lemma start_inv:
  assumes inv: "ginv g" and st: "start_service g box_at name bin cls = Some (g', r)"
  shows "ginv g'"
proof -
  obtain m p where m: "fork_pml4 (gvm g) (kernel_pml4 (gvm g)) = Some (m, p)"
    using st by (cases "fork_pml4 (gvm g) (kernel_pml4 (gvm g))") (auto simp: start_service_def)
  define g0 where "g0 = set_gvm g m"
  have i0: "ginv g0" unfolding g0_def by (rule set_gvm_inv [OF inv]) (simp add: vruns_fork [OF m] gvm_runs)
  show ?thesis
  proof (cases p)
    case None
    then show ?thesis using st m i0 by (simp add: start_service_def g0_def)
  next
    case (Some pml4)
    let ?e0 = "\<lparr> evma = kvma (sk (gs g0)), epm = Some (process_memory_new pml4), ebox = gbox g0 \<rparr>"
    obtain e res where e: "load_elf bin SERVICE_STACK_SIZE (Some pml4) box_at ?e0 = Some (e, res)"
      using st m Some by (cases "load_elf bin SERVICE_STACK_SIZE (Some pml4) box_at ?e0")
        (auto simp: start_service_def g0_def)
    have "eruns e = eruns ?e0" by (rule ekeeps_D [OF ekeeps_load_elf [OF refl] e])
    then have er: "vruns (svm (evma e)) = sview (gs g0)" by (simp add: eruns_def evm_def kvma_runs)
    define g1 where "g1 = set_kvma (g0\<lparr> gbox := ebox e \<rparr>) (evma e)"
    have i1: "ginv g1" unfolding g1_def using i0 er by (intro set_kvma_inv) simp_all
    show ?thesis
    proof (cases res)
      case (Inl err)
      then have "(do { m1 \<leftarrow> free_pml4 (gvm g1) pml4; let g2 = set_gvm g1 m1;
           a \<leftarrow> drop_pm (kvma (sk (gs g2))) (epm e); Some (set_kvma g2 a, None) }) = Some (g', r)"
        using st m Some e by (simp add: start_service_def g0_def [symmetric] g1_def [symmetric])
      then obtain m1 a where m1: "free_pml4 (gvm g1) pml4 = Some m1"
          and a: "drop_pm (kvma (sk (gs (set_gvm g1 m1)))) (epm e) = Some a" "Some (set_kvma (set_gvm g1 m1) a, None) = Some (g', r)"
        unfolding Let_def by (elim bind_SomeE)
      have i2: "ginv (set_gvm g1 m1)" by (rule set_gvm_inv [OF i1]) (simp add: vruns_free_pml4 [OF m1] gvm_runs)
      have "ginv (set_kvma (set_gvm g1 m1) a)"
        by (rule set_kvma_inv [OF i2]) (simp add: drop_pm_runs [OF a(1)] kvma_runs)
      then show ?thesis using a(2) by simp
    next
      case (Inr lr)
      obtain pm where "epm e = Some pm" "install_service g1 box_at name pml4 (class_vcpu_type cls) pm lr = Some (g', r)"
        using st m Some e Inr by (cases "epm e") (simp_all add: start_service_def g0_def [symmetric] g1_def [symmetric])
      then show ?thesis using install_inv [OF i1] by blast
    qed
  qed
qed

lemma gs_take_deferred: "take_deferred g = Some (g1, p) \<Longrightarrow> gs g1 = gs g"
  by (auto simp: take_deferred_def split: option.splits)

lemma deferred_inv: "ginv g \<Longrightarrow> process_deferred_restarts n g box_at = Some g' \<Longrightarrow> ginv g'"
proof (induction n arbitrary: g)
  case 0
  then show ?case by (simp split: option.splits)
next
  case (Suc n)
  show ?case
  proof (cases "take_deferred g")
    case None
    then show ?thesis using Suc.prems by simp
  next
    case (Some gp)
    obtain g1 p where gp: "gp = (g1, p)" by (cases gp)
    then obtain g2 r where g2: "start_service g1 box_at (pk_name p) (pk_elf p) (pk_class p) = Some (g2, r)"
        "process_deferred_restarts n g2 box_at = Some g'"
      using Suc.prems(2) Some by simp (elim bind_pair_SomeE)
    have "ginv g1" using Suc.prems(1) gs_take_deferred Some gp by metis
    then show ?thesis using start_inv [OF _ g2(1)] Suc.IH g2(2) by blast
  qed
qed

section \<open>Messages\<close>

lemma gwake_inv: "ginv g \<Longrightarrow> gwake g vid = Some g' \<Longrightarrow> ginv g'"
  unfolding gwake_def by (elim bind_SomeE) (auto dest: wake_inv)

lemma vruns_user_store: "user_store m va bs = Some m' \<Longrightarrow> vruns m' = vruns m"
proof (induction m va bs rule: user_store.induct)
  case (2 m va b bs)
  obtain r pte where r: "read_pte m (cr3 m) va = Some r" "r = Some pte"
      "(if pte AND PRESENT = 0 then None
        else user_store (store_bytes m ((pte AND PHYS_ADDR_MASK) OR (va AND 0xFFF)) [b]) (va + 1) bs) = Some m'"
    using "2.prems" unfolding user_store.simps by (elim bind_SomeE)
  then have "pte AND PRESENT \<noteq> 0" by (auto split: if_splits)
  then show ?case using "2.IH" [OF r(1,2)] r(3) by simp
qed simp

lemma deliver_inv:
  assumes "ginv g" "deliver g i d out = Some (g', ok)"
  shows "ginv g'"
proof (cases "d_buf d = 0 \<or> HIGHER_HALF \<le> d_buf d")
  case True
  then show ?thesis using assms by (auto simp: deliver_def split: if_splits)
next
  case False
  then have "(do { stop \<leftarrow> checked_add (d_buf d) 32;
        ok \<leftarrow> buf_writable (gvm g) (d_pml4 d) (d_buf d AND NOT 0xFFF) stop;
        if \<not> ok then Some (set_driver g i (d\<lparr> d_buf := 0 \<rparr>), False)
        else do { m \<leftarrow> user_store (gvm g) (d_buf d) (words_bytes out);
          Some (set_driver (set_gvm g m) i (d\<lparr> d_buf := 0 \<rparr>), True) } }) = Some (g', ok)"
    using assms(2) by (simp add: deliver_def)
  then obtain w where w: "(if \<not> w then Some (set_driver g i (d\<lparr> d_buf := 0 \<rparr>), False)
        else do { m \<leftarrow> user_store (gvm g) (d_buf d) (words_bytes out);
          Some (set_driver (set_gvm g m) i (d\<lparr> d_buf := 0 \<rparr>), True) }) = Some (g', ok)"
    by (elim bind_SomeE) 
  show ?thesis
  proof (cases w)
    case True
    then obtain m where m: "user_store (gvm g) (d_buf d) (words_bytes out) = Some m"
        "Some (set_driver (set_gvm g m) i (d\<lparr> d_buf := 0 \<rparr>), True) = Some (g', ok)"
      using w by (auto elim!: bind_SomeE)
    have "ginv (set_gvm g m)" by (rule set_gvm_inv [OF assms(1)]) (simp add: vruns_user_store [OF m(1)] gvm_runs)
    then show ?thesis using m(2) by auto
  next
    case False
    then show ?thesis using w assms(1) by auto
  qed
qed

lemma send_cmd_inv:
  assumes "ginv g" "send_cmd g name cmd a0 a1 a2 = Some (g', ok)"
  shows "ginv g'"
proof (cases "find_by_name g name")
  case None
  then show ?thesis using assms by (simp add: send_cmd_def)
next
  case (Some i)
  then obtain d where d: "drivers g ! i = Some d"
    using assms(2) by (cases "drivers g ! i") (simp_all add: send_cmd_def)
  let ?d = "d\<lparr> d_mailbox := (post (d_mailbox d) cmd a0 a1 a2)\<lparr> mb_result := - 1 \<rparr> \<rparr>"
  show ?thesis
  proof (cases "mb_flags (d_mailbox d) = MAILBOX_IDLE")
    case False
    then show ?thesis using assms Some d by (simp add: send_cmd_def)
  next
    case True
    then have "(do { (g1, ok) \<leftarrow> deliver g i ?d [ucast cmd, a0, a1, a2];
            if \<not> ok then Some (g1, False) else do { g2 \<leftarrow> gwake g1 (d_vcpu d); Some (g2, True) } }) = Some (g', ok)"
      using assms(2) Some d by (simp add: send_cmd_def)
    then obtain g1 b where g1: "deliver g i ?d [ucast cmd, a0, a1, a2] = Some (g1, b)"
        "(if \<not> b then Some (g1, False) else do { g2 \<leftarrow> gwake g1 (d_vcpu d); Some (g2, True) }) = Some (g', ok)"
      by (elim bind_pair_SomeE)
    have "ginv g1" by (rule deliver_inv [OF assms(1) g1(1)])
    then show ?thesis using g1(2) gwake_inv by (cases b) (auto simp: bind_eq_Some_conv)
  qed
qed

lemma gs_recv: "gs (fst (recv g vid)) = gs g"
  by (simp add: recv_def Let_def split: option.splits)

lemma send_response_inv:
  assumes "ginv g" "send_response g vid result = Some (g', ok)"
  shows "ginv g'"
proof (cases "find_by_vcpu g vid")
  case None
  then show ?thesis using assms by (simp add: send_response_def)
next
  case (Some i)
  then obtain d where d: "drivers g ! i = Some d"
    using assms(2) by (cases "drivers g ! i") (simp_all add: send_response_def)
  define g1 where "g1 = set_driver g i (d\<lparr> d_mailbox := (d_mailbox d)\<lparr> mb_result := result, mb_flags := MAILBOX_IDLE \<rparr>, d_caller := 0 \<rparr>)"
  let ?g = "g1\<lparr> gs := with_mut (gs g1) (d_caller d) (\<lambda>v. v\<lparr> saved_frame := (saved_frame v)\<lparr> rax := result \<rparr> \<rparr>) \<rparr>"
  have i1: "ginv g1" using assms(1) by (simp add: g1_def)
  have "ginv ?g" using with_mut_inv [OF i1] by simp
  then show ?thesis
    using assms(2) Some d i1 gwake_inv [of ?g "d_caller d"]
    by (auto simp: send_response_def Let_def g1_def [symmetric] elim!: bind_SomeE split: if_splits)
qed

lemma call_send_inv:
  assumes "ginv g" "driver_call_send g name cmd a0 a1 a2 = Some (g', ok)"
  shows "ginv g'"
proof (cases "name = []")
  case True
  then show ?thesis using assms by (simp add: driver_call_send_def)
next
  case False
  then obtain s caller where s: "current_vcpu_id (gs g) = Some (s, caller)"
    using assms(2) by (cases "current_vcpu_id (gs g)") (auto simp: driver_call_send_def)
  then have "step_inv s" using assms(1) step_inv_slot unfolding current_vcpu_id_def by (elim bind_pair_SomeE) auto
  then have i1: "ginv (g\<lparr> gs := s \<rparr>)" by simp
  let ?P = "\<lambda>d. d_name d = entry_name name \<and> d_vcpu d \<noteq> caller"
  show ?thesis
  proof (cases "find_driver ?P (g\<lparr> gs := s \<rparr>)")
    case None
    then show ?thesis using assms(2) False s i1 by (auto simp: driver_call_send_def)
  next
    case (Some i)
    obtain d where d: "drivers g ! i = Some d"
      using assms(2) False s Some by (cases "drivers g ! i") (auto simp: driver_call_send_def)
    let ?g = "set_driver (g\<lparr> gs := s \<rparr>) i (d\<lparr> d_mailbox := post (d_mailbox d) cmd a0 a1 a2, d_caller := caller \<rparr>)"
    have "ginv ?g" using i1 by simp
    then show ?thesis
      using assms(2) False s Some d i1 gwake_inv [of ?g "d_vcpu d"]
      by (auto simp: driver_call_send_def Let_def elim!: bind_SomeE split: if_splits)
  qed
qed

section \<open>Crashes\<close>

lemma vruns_unmap_mmio: "unmap_mmio m v ps = Some m' \<Longrightarrow> vruns m' = vruns m"
proof (induction ps arbitrary: m)
  case (Cons p ps)
  from Cons.prems obtain a m1 where "unmap m a = Some m1" "unmap_mmio m1 v ps = Some m'"
    unfolding unmap_mmio.simps by (elim bind_SomeE)
  then show ?case using Cons.IH vruns_unmap by metis
qed simp

lemma vruns_release_mmio: "release_mmio m es = Some m' \<Longrightarrow> vruns m' = vruns m"
proof (induction m es rule: release_mmio.induct)
  case (2 m phys virt pages rest)
  show ?case
  proof (cases "virt \<noteq> 0 \<and> 0 < pages")
    case True
    then obtain m1 where "unmap_mmio m virt [0..<unat pages] = Some m1" "release_mmio m1 rest = Some m'"
      using "2.prems" unfolding release_mmio.simps if_P [OF True] by (elim bind_SomeE)
    then show ?thesis using "2.IH"(1) [OF True] vruns_unmap_mmio by metis
  next
    case False
    then show ?thesis using "2.prems" "2.IH"(2) unfolding release_mmio.simps if_not_P [OF False] by simp
  qed
qed simp

lemma vruns_release_dma: "release_dma m es = Some m' \<Longrightarrow> vruns m' = vruns m"
proof (induction m es rule: release_dma.induct)
  case (2 m phys pages rest)
  show ?case
  proof (cases "phys \<noteq> 0 \<and> 0 < pages")
    case True
    then obtain z where z: "free_pages (vphys m) phys pages = Some z" "release_dma (m\<lparr> vphys := z \<rparr>) rest = Some m'"
      using "2.prems" unfolding release_dma.simps if_P [OF True] by (elim bind_SomeE)
    then show ?thesis using "2.IH"(1) [OF True z(1)] by simp
  next
    case False
    then show ?thesis using "2.prems" "2.IH"(2) unfolding release_dma.simps if_not_P [OF False] by simp
  qed
qed simp

text \<open>The scheduler's state after a clean-up differs at most in the memory.\<close>

lemma cleanup_vm:
  assumes "cleanup_resources g sid = Some g'"
  shows "\<exists>m. gs g' = set_vm (gs g) m \<and> vruns m = sview (gs g)"
proof (cases "service_get (services g) sid")
  case None
  then have "g' = g" using assms by (simp add: cleanup_resources_def)
  moreover have "set_vm (gs g) (gvm g) = gs g"
    by (simp add: set_vm_def gvm_def set_kvm_def kvm_def)
  ultimately show ?thesis using gvm_runs [of g] by metis
next
  case (Some sv)
  define g1 where "g1 = mark_service g sid clear_resources"
  obtain m1 m2 where m1: "(if svc_pml4 sv \<noteq> 0 then release_mmio (gvm g1) (take (mmio_count (svc_resources sv)) (mmio (svc_resources sv)))
          else Some (gvm g1)) = Some m1"
      and m2: "release_dma m1 (take (dma_count (svc_resources sv)) (dma (svc_resources sv))) = Some m2" "Some (set_gvm g1 m2) = Some g'"
    using assms unfolding cleanup_resources_def Some option.case Let_def g1_def [symmetric] by (elim bind_SomeE)
  have "vruns m1 = vruns (gvm g1)" using m1 vruns_release_mmio by (auto split: if_splits)
  then have "vruns m2 = sview (gs g)" using vruns_release_dma [OF m2(1)] gvm_runs [of g1] by (simp add: g1_def)
  moreover have "gs g' = set_vm (gs g) m2" using m2(2) by (auto simp: set_gvm_def g1_def)
  ultimately show ?thesis by blast
qed

lemma stop_inv: "ginv g \<Longrightarrow> stop_service g sid = Some g' \<Longrightarrow> ginv g'"
  using cleanup_vm [of "mark_service g sid (\<lambda>sv. sv\<lparr> svc_state := Stopped \<rparr>)" sid g']
  by (auto simp: stop_service_def intro: set_vm_inv)

text \<open>A CPU whose LAPIC id has been registered always finds the same slot.\<close>

definition registered :: "sched \<Rightarrow> bool" where
  "registered s \<longleftrightarrow> this_apic (kvm (sk s)) < 256 \<and> apic_to_slot (scpus s) (unat (this_apic (kvm (sk s)))) \<noteq> 0xFF"

definition my_slot :: "sched \<Rightarrow> nat" where
  "my_slot s = unat (apic_to_slot (scpus s) (unat (this_apic (kvm (sk s)))))"

lemma set_cpus_same [simp]: "set_cpus s (scpus s) = s"
  by (simp add: set_cpus_def scpus_def set_vm_def set_kvm_def kvm_def)

lemma registered_slot: "registered s \<Longrightarrow> current_cpu_slot s = Some (s, my_slot s)"
  by (simp add: registered_def my_slot_def current_cpu_slot_def apic_id_to_slot_def)

lemma registered_view: "sview s' = sview s \<Longrightarrow> (registered s' \<longleftrightarrow> registered s) \<and> my_slot s' = my_slot s"
  by (simp add: registered_def my_slot_def sview_def vruns_def scpus_def)

lemma gangs_terminate:
  "gangs (terminate_vcpu s vid p) = map (\<lambda>e. Option.bind e (drop_member vid)) (gangs s)"
  by (simp add: terminate_vcpu_def)

lemma drop_member_Some:
  assumes "drop_member vid gg = Some g'"
  shows "length (vcpu_ids g') = length (vcpu_ids gg)
    \<and> (\<forall>w. Some w \<in> set (vcpu_ids g') \<longrightarrow> w \<noteq> vid \<and> Some w \<in> set (vcpu_ids gg))"
proof -
  have ids: "vcpu_ids g' = map (\<lambda>e. if e = Some vid then None else e) (vcpu_ids gg)"
    using assms by (auto simp: drop_member_def Let_def split: if_splits)
  show ?thesis unfolding ids by auto
qed

lemma terminate_member:
  assumes "Some g' \<in> set (gangs (terminate_vcpu s vid p))"
  obtains gg where "Some gg \<in> set (gangs s)" "drop_member vid gg = Some g'"
proof -
  obtain e where e: "e \<in> set (gangs s)" "Option.bind e (drop_member vid) = Some g'"
    using assms unfolding gangs_terminate by (metis (no_types, lifting) imageE image_set)
  from e(2) obtain gg where "e = Some gg" "drop_member vid gg = Some g'" by (elim bind_SomeE)
  then show ?thesis using that e(1) by simp
qed

lemma listed_terminate: "listed (terminate_vcpu s vid p) \<subseteq> listed s - {vid}"
proof
  fix w assume "w \<in> listed (terminate_vcpu s vid p)"
  then obtain g' where g': "Some g' \<in> set (gangs (terminate_vcpu s vid p))" "Some w \<in> set (vcpu_ids g')"
    unfolding listed_def by blast
  obtain gg where "Some gg \<in> set (gangs s)" "drop_member vid gg = Some g'" by (rule terminate_member [OF g'(1)])
  then show "w \<in> listed s - {vid}" using drop_member_Some g'(2) unfolding listed_def by blast
qed

lemma gangs_wf_terminate:
  assumes "gangs_wf s"
  shows "gangs_wf (terminate_vcpu s vid p)"
proof -
  have "length (vcpu_ids g') = MAX_VCPUS_PER_GANG" if g': "Some g' \<in> set (gangs (terminate_vcpu s vid p))" for g'
  proof -
    obtain gg where gg: "Some gg \<in> set (gangs s)" "drop_member vid gg = Some g'" by (rule terminate_member [OF g'])
    have "length (vcpu_ids gg) = MAX_VCPUS_PER_GANG" using assms gg(1) by (simp add: gangs_wf_def)
    then show ?thesis using drop_member_Some [OF gg(2)] by simp
  qed
  then show ?thesis using assms unfolding gangs_wf_def gangs_terminate
    by (simp add: terminate_vcpu_def)
qed

lemma terminate_eff:
  assumes "length (vcpus (sk s)) = MAX_VCPUS"
  shows "sview (terminate_vcpu s vid p) = sview s" "length (vcpus (sk (terminate_vcpu s vid p))) = MAX_VCPUS"
    "gang_count (terminate_vcpu s vid p) = gang_count s"
    "\<And>w. w \<noteq> vid \<Longrightarrow> vst (terminate_vcpu s vid p) w = vst s w"
proof -
  let ?s = "with_mut s vid (\<lambda>v. v\<lparr> vstate := Terminated, vpml4 := p \<rparr>)"
  have sk: "sk (terminate_vcpu s vid p) = sk ?s" by (simp add: terminate_vcpu_def)
  show "sview (terminate_vcpu s vid p) = sview s"
    by (simp add: sview_def sk) (simp add: with_mut_def upd_vcpu_def kvm_def)
  show "length (vcpus (sk (terminate_vcpu s vid p))) = MAX_VCPUS" using assms by (simp add: sk)
  show "gang_count (terminate_vcpu s vid p) = gang_count s" by (simp add: terminate_vcpu_def)
  have "vst (terminate_vcpu s vid p) = vst ?s" by (rule vst_cong) (simp add: sk)
  then show "vst (terminate_vcpu s vid p) w = vst s w" if "w \<noteq> vid" for w
    using that assms by (simp add: vst_with_mut)
qed

text \<open>After the crash handler has terminated the vCPU that CPU \<open>c\<close> has as current, the invariant holds for all
  other CPUs.\<close>

lemma terminate_inv:
  assumes inv: "step_inv s" and c: "c < MAX_CPUS" "busy s c" and vid: "vid = running_on s c"
  shows "inv_but {c} (terminate_vcpu s vid p) \<and> gangs_wf (terminate_vcpu s vid p)"
proof -
  have len: "length (vcpus (sk s)) = MAX_VCPUS" using inv by (simp add: step_inv_def inv_but_def)
  have ri: "run_inv s" using inv by (simp add: step_inv_def)
  note eff = terminate_eff [OF len, where vid = vid and p = p]
  have "inv_but {c} (terminate_vcpu s vid p)"
  proof (rule inv_but_change [OF ri sruns_sview [OF eff(1)] eff(2)])
    fix d assume d: "d < MAX_CPUS" "d \<notin> {c}" "busy s d" "vst s (running_on s d) = Some Running"
    then have "running_on s d \<noteq> vid" using ri c vid by (simp add: inv_but_def)
    then show "vst (terminate_vcpu s vid p) (running_on s d) = Some Running" using eff(4) d by simp
  next
    fix w assume "w \<in> listed (terminate_vcpu s vid p)"
    then have "w \<in> listed s" "w \<noteq> vid" using listed_terminate by blast+
    then show "vst (terminate_vcpu s vid p) w \<noteq> Some Terminated" using eff(4) ri by (simp add: inv_but_def)
  qed simp
  moreover have "gangs_wf s" using inv by (simp add: step_inv_def)
  ultimately show ?thesis using gangs_wf_terminate by blast
qed

lemma gs_after_crash: "after_crash g sid name pol n = Some g' \<Longrightarrow> gs g' = gs g"
  unfolding after_crash_def by (elim bind_pair_SomeE) (auto simp: Let_def dest!: gs_bump split: if_splits option.splits)

lemma handle_crash_inv:
  assumes inv: "ginv g" and c: "c < MAX_CPUS" "busy (gs g) c" and vid: "vid = running_on (gs g) c"
    and h: "handle_crash g vid = Some g'"
  shows "inv_but {c} (gs g') \<and> gangs_wf (gs g') \<and> sview (gs g') = sview (gs g) \<and> gang_count (gs g') = gang_count (gs g)"
proof (cases "service_find_by_vcpu (services g) vid")
  case None
  then have "g' = g" using h by (simp add: handle_crash_def)
  then show ?thesis using inv inv_but_mono [of "{}" "gs g" "{c}"] by (simp add: step_inv_def)
next
  case (Some sid)
  obtain sv :: service and n g2 where g2: "cleanup_resources (mark_service g sid (\<lambda>sv. sv\<lparr> svc_state := Crashed, svc_restart_count := n \<rparr>)) sid = Some g2"
      and g': "after_crash ((mark_service (remove_driver g2 vid) sid (\<lambda>sv. sv\<lparr> svc_pml4 := 0 \<rparr>))
          \<lparr> gs := terminate_vcpu (gs (mark_service (remove_driver g2 vid) sid (\<lambda>sv. sv\<lparr> svc_pml4 := 0 \<rparr>))) vid (svc_pml4 sv) \<rparr>)
          sid (crash_name (svc_name sv)) (svc_restart_policy sv) n = Some g'"
    using h unfolding handle_crash_def Some option.case Let_def by (elim bind_SomeE)
  obtain m where m: "gs g2 = set_vm (gs g) m" "vruns m = sview (gs g)" using cleanup_vm [OF g2] by auto
  have i2: "step_inv (gs g2)" unfolding m(1) by (rule set_vm_inv [OF inv m(2)])
  have v2: "sview (gs g2) = sview (gs g)" using m by (simp add: sview_def)
  have sr: "sruns (gs g2) = sruns (gs g)" by (rule sruns_sview [OF v2])
  have b2: "busy (gs g2) c" "vid = running_on (gs g2) c"
    using c(2) vid sr by (simp_all add: busy_def running_on_def)
  have gg: "gs g' = terminate_vcpu (gs g2) vid (svc_pml4 sv)" using gs_after_crash [OF g'] by simp
  have len: "length (vcpus (sk (gs g2))) = MAX_VCPUS" using i2 by (simp add: step_inv_def inv_but_def)
  show ?thesis unfolding gg
    using terminate_inv [OF i2 c(1) b2] terminate_eff [OF len] v2 m(1) by simp
qed

section \<open>Leaving the crashed driver\<close>

lemma view_set_queue [simp]: "sview (set_cpus s (set_cpu (scpus s) i (run_queue_update f))) = sview s"
  by (simp add: sview_def set_cpus_def) (simp add: vruns_def scpus_def)

lemma view_push: "rq_push_all s cpu vs = Some s' \<Longrightarrow> sview s' = sview s"
proof (induction vs arbitrary: s)
  case (Cons v vs)
  from Cons.prems obtain q b where "rq_push_all (set_cpus s (set_cpu (scpus s) (cpu mod MAX_CPUS) (run_queue_update (\<lambda>_. q)))) cpu vs = Some s'"
    unfolding rq_push_all.simps by (elim bind_pair_SomeE)
  from Cons.IH [OF this] show ?case by simp
qed simp

lemma quiet_set_queue: "quiet s (set_cpus s (set_cpu (scpus s) i (run_queue_update f)))"
  by (rule quiet_same) (simp_all add: sruns_def)

text \<open>Taking a loadable driver: it was \<^verbatim>\<open>Ready\<close>, so it is not the current one of another CPU.\<close>

lemma take_driver_inv:
  assumes inv: "inv_but {cpu mod MAX_CPUS} s" "gangs_wf s" and l: "loadable s vid = Some v"
    and p: "rq_push_all (with_mut s vid (\<lambda>v. v\<lparr> vstate := Running, frame_magic := 0 \<rparr>)) cpu temp = Some s2"
  shows "run_inv (set_cpus s2 (set_current_vcpu (scpus s2) cpu vid))
    \<and> gangs_wf (set_cpus s2 (set_current_vcpu (scpus s2) cpu vid))
    \<and> gang_count (set_cpus s2 (set_current_vcpu (scpus s2) cpu vid)) = gang_count s"
proof -
  let ?c = "cpu mod MAX_CPUS"
  let ?s3 = "set_cpus s2 (set_current_vcpu (scpus s2) cpu vid)"
  define s1 where "s1 = with_mut s vid (\<lambda>v. v\<lparr> vstate := Running, frame_magic := 0 \<rparr>)"
  have v: "svcpu s vid = Some v" "vstate v = Ready"
    using l by (auto simp: loadable_def split: option.splits if_splits)
  have len: "length (vcpus (sk s)) = MAX_VCPUS" using inv(1) by (simp add: inv_but_def)
  have q: "quiet s1 s2" unfolding s1_def by (rule quiet_push [OF p])
  have v1: "vst s1 w = (if w = vid then Some Running else vst s w)" for w
    using len v by (simp add: s1_def vst_with_mut)
  have v3: "vst ?s3 = vst s1" using q by (intro vst_cong) (simp add: quiet_def)
  have r2: "sruns s2 = sruns s" using q by (simp add: quiet_def s1_def sruns_def)
  have r3: "sruns ?s3 = (sruns s)[?c := (vid, snd (sruns s ! ?c))]"
    using r2 by (simp add: sruns_def runs_set_current)
  have l3: "listed ?s3 \<subseteq> listed s" using q by (simp add: quiet_def s1_def listed_def)
  have "run_inv ?s3"
  proof (rule take_cpu [OF inv(1) mod_cpus r3])
    show "length (vcpus (sk ?s3)) = MAX_VCPUS" using q len by (simp add: quiet_def s1_def)
    show "vid = snd (sruns s ! ?c) \<or> vid < 2 ^ 32 \<and> vst s vid \<noteq> Some Running \<and> vst ?s3 vid = Some Running"
      using vcpu_id_small [OF v(1)] v by (simp add: v3 v1) (simp add: vst_def)
    show "vst ?s3 w = Some Running" if "vst s w = Some Running" for w using that by (simp add: v3 v1)
    show "vst ?s3 w \<noteq> Some Terminated" if "w \<in> listed ?s3" for w
      using that l3 inv(1) by (auto simp: v3 v1 inv_but_def)
  qed
  moreover have "gangs_wf s1" using inv(2) by (simp add: s1_def gangs_wf_def)
  then have "gangs_wf ?s3" using q gangs_wf_cong [of ?s3 s2] by (simp add: quiet_def)
  moreover have "gang_count ?s3 = gang_count s" using q by (simp add: quiet_def s1_def)
  ultimately show ?thesis by simp
qed

lemma next_driver_inv:
  assumes "inv_but {cpu mod MAX_CPUS} s" "gangs_wf s" "next_driver n s cpu temp = Some (s', r)"
  shows "gangs_wf s' \<and> gang_count s' = gang_count s \<and> (if r = None then quiet s s' \<and> sview s' = sview s else run_inv s')"
  using assms
proof (induction n arbitrary: s temp)
  case 0
  then obtain s1 where s1: "rq_push_all s cpu temp = Some s1" "s' = s1" "r = None"
    by (cases "rq_push_all s cpu temp") simp_all
  then show ?case using quiet_push [OF s1(1)] view_push [OF s1(1)] "0.prems"(2) by (simp add: quiet_def)
next
  case (Suc n)
  obtain q o1 where pop: "rq_pop (rq (scpus s) cpu) = (q, o1)" by fastforce
  show ?case
  proof (cases o1)
    case None
    then obtain s1 where s1: "rq_push_all s cpu temp = Some s1" "s' = s1" "r = None"
      using Suc.prems(3) pop by (cases "rq_push_all s cpu temp") simp_all
    then show ?thesis using quiet_push [OF s1(1)] view_push [OF s1(1)] Suc.prems(2) by (simp add: quiet_def)
  next
    case (Some nid)
    define s1 where "s1 = set_cpus s (set_cpu (scpus s) (cpu mod MAX_CPUS) (run_queue_update (\<lambda>_. q)))"
    let ?vid = "nid mod 2 ^ 32"
    have q1: "quiet s s1" "sview s1 = sview s" unfolding s1_def by (rule quiet_set_queue, simp)
    have wf1: "gangs_wf s1" and gc1: "gang_count s1 = gang_count s" using q1 Suc.prems(2) by (simp_all add: quiet_def)
    have i1: "inv_but {cpu mod MAX_CPUS} s1" by (rule inv_quiet [OF Suc.prems(1) q1(1)])
    have rec: ?thesis if nd: "next_driver n t cpu tmp = Some (s', r)" and t: "rq_push_all s1 cpu us = Some t" for t tmp us
    proof -
      have q2: "quiet s t" "sview t = sview s"
        using quiet_trans [OF q1(1) quiet_push [OF t]] view_push [OF t] q1(2) by simp_all
      have wt: "gangs_wf t" "gang_count t = gang_count s" using q2(1) Suc.prems(2) by (simp_all add: quiet_def)
      from Suc.IH [OF inv_quiet [OF Suc.prems(1) q2(1)] wt(1) nd] show ?thesis
        using wt(2) q2 quiet_trans by (auto split: if_splits)
    qed
    show ?thesis
    proof (cases "is_driver s1 ?vid")
      case drv: True
      show ?thesis
      proof (cases "loadable s1 ?vid")
        case None
        then obtain t where "rq_push_all s1 cpu temp = Some t" "next_driver n t cpu [] = Some (s', r)"
          using Suc.prems(3) pop Some drv by (auto simp: Let_def s1_def [symmetric] elim!: bind_SomeE)
        then show ?thesis using rec by blast
      next
        case ld: (Some v)
        then obtain s2 where s2: "rq_push_all (with_mut s1 ?vid (\<lambda>v. v\<lparr> vstate := Running, frame_magic := 0 \<rparr>)) cpu temp = Some s2"
            "s' = set_cpus s2 (set_current_vcpu (scpus s2) cpu ?vid)" "r = Some (?vid, v)"
          using Suc.prems(3) pop Some drv by (auto simp: Let_def s1_def [symmetric] elim!: bind_SomeE)
        then show ?thesis using take_driver_inv [OF i1 wf1 ld s2(1)] gc1 by simp
      qed
    next
      case nodrv: False
      show ?thesis
      proof (cases "length temp < 64")
        case True
        then have "next_driver n s1 cpu (temp @ [nid]) = Some (s', r)"
          using Suc.prems(3) pop Some nodrv by (simp add: Let_def s1_def [symmetric])
        then show ?thesis using rec [of s1 "temp @ [nid]" "[]"] by simp
      next
        case False
        then obtain t where "rq_push_all s1 cpu [nid] = Some t" "next_driver n t cpu temp = Some (s', r)"
          using Suc.prems(3) pop Some nodrv
          by (auto simp: Let_def s1_def [symmetric] elim!: bind_SomeE simp del: rq_push_all.simps)
        then show ?thesis using rec by blast
      qed
    qed
  qed
qed

lemma to_idle_inv:
  assumes inv: "inv_but {my_slot (gs g) mod MAX_CPUS} (gs g)" "gangs_wf (gs g)" and reg: "registered (gs g)"
    and sw: "switch_frame_to_idle g frame = Some (g', f)"
  shows "run_inv (gs g') \<and> gangs_wf (gs g') \<and> gang_count (gs g') = gang_count (gs g)"
proof -
  let ?s = "gs g" and ?cpu = "my_slot (gs g)"
  let ?c = "?cpu mod MAX_CPUS" and ?idle = "idle_vcpu (scpus (gs g)) (my_slot (gs g))"
  have gs': "gs g' = set_cpus ?s (set_current_vcpu (scpus ?s) ?cpu ?idle)"
    using sw registered_slot [OF reg] by (auto simp: switch_frame_to_idle_def Let_def)
  have len: "length (sruns ?s) = MAX_CPUS" using inv(1) by (simp add: inv_but_def)
  have idle: "?idle = snd (sruns ?s ! ?c)"
    using len mod_cpus [of ?cpu] by (simp add: sruns_def runs_def idle_vcpu_def)
  have r: "sruns (gs g') = (sruns ?s)[?c := (?idle, snd (sruns ?s ! ?c))]"
    by (simp add: gs' sruns_def runs_set_current)
  have v: "vst (gs g') = vst ?s" by (rule vst_cong) (simp add: gs')
  have l: "listed (gs g') = listed ?s" by (rule listed_gangs) (simp add: gs')
  have "run_inv (gs g')"
    by (rule take_cpu [OF inv(1) mod_cpus r]) (use inv(1) idle v l in \<open>auto simp: gs' inv_but_def\<close>)
  then show ?thesis using inv(2) gangs_wf_cong [of "gs g'" ?s] by (simp add: gs')
qed

lemma scpus_rsp0: "scpus (s\<lparr> rsp0 := x \<rparr>) = scpus s"
  by (simp add: scpus_def)

lemma recover_inv:
  assumes inv: "ginv g" and reg: "registered (gs g)" and b: "busy (gs g) (my_slot (gs g) mod MAX_CPUS)"
    and vid: "vid = running_on (gs g) (my_slot (gs g) mod MAX_CPUS)"
    and r: "recover_from_crash g vid frame = Some (g', f')"
  shows "ginv g'"
proof -
  let ?cpu = "my_slot (gs g)"
  have gc: "gang_count (gs g) \<noteq> 0" using inv b mod_cpus [of ?cpu] by (auto simp: step_inv_def)
  obtain g1 g2 f r2 where g1: "handle_crash g vid = Some g1"
      and sw: "switch_frame_to_next_driver g1 frame = Some (g2, f, r2)"
      and rest: "(case r2 of None \<Rightarrow> switch_frame_to_idle g2 f
        | Some (pml4, st) \<Rightarrow> do {
          let g3 = set_gvm g2 ((gvm g2)\<lparr> cr3 := pml4 \<rparr>);
          (s, cpu) \<leftarrow> current_cpu_slot (gs g3);
          Some (g3\<lparr> gs := (set_cpus s (set_cpu (scpus s) (cpu mod MAX_CPUS) (kernel_stack_top_update (\<lambda>_. st))))
                           \<lparr> rsp0 := (rsp0 s)[cpu mod MAX_CPUS := st] \<rparr> \<rparr>, f) }) = Some (g', f')"
    proof -
    obtain g1 where g1: "handle_crash g vid = Some g1"
      using r by (cases "handle_crash g vid") (simp_all add: recover_from_crash_def)
    obtain g2 f r2 where sw: "switch_frame_to_next_driver g1 frame = Some (g2, f, r2)"
      using r g1 by (cases "switch_frame_to_next_driver g1 frame") (auto simp: recover_from_crash_def)
    show thesis using that [OF g1 sw] r g1 sw by (simp add: recover_from_crash_def)
  qed
  note h = handle_crash_inv [OF inv mod_cpus b vid g1]
  have reg1: "registered (gs g1)" "my_slot (gs g1) = ?cpu" using h registered_view reg by metis+
  obtain s1 nr where nd: "next_driver 64 (gs g1) ?cpu [] = Some (s1, nr)" and g2: "g2 = g1\<lparr> gs := s1 \<rparr>"
      and r2: "r2 = map_option (\<lambda>(_, v). (vpml4 v, kstack_top v)) nr"
    using sw registered_slot [OF reg1(1)] reg1(2) unfolding switch_frame_to_next_driver_def
    by (auto elim!: bind_pair_SomeE)
  have n: "gangs_wf s1 \<and> gang_count s1 = gang_count (gs g) \<and>
      (if nr = None then quiet (gs g1) s1 \<and> sview s1 = sview (gs g1) else run_inv s1)"
    using next_driver_inv [OF _ _ nd] h by simp
  show ?thesis
  proof (cases nr)
    case None
    have q: "quiet (gs g1) (gs g2)" "sview (gs g2) = sview (gs g1)" "gangs_wf (gs g2)" "gang_count (gs g2) = gang_count (gs g)"
      using n None by (simp_all add: g2)
    have reg2: "registered (gs g2)" "my_slot (gs g2) = ?cpu" using registered_view [OF q(2)] reg1 by simp_all
    have "inv_but {?cpu mod MAX_CPUS} (gs g2)" using inv_quiet [OF _ q(1)] h by simp
    then show ?thesis
      using to_idle_inv [of g2 f g' f'] reg2 q(3,4) rest r2 None gc by (simp add: step_inv_def)
  next
    case (Some w)
    then obtain pml4 st where p: "r2 = Some (pml4, st)" using r2 by (cases w) simp
    define g3 where "g3 = set_gvm g2 ((gvm g2)\<lparr> cr3 := pml4 \<rparr>)"
    have "ginv g2" using n Some gc by (simp add: g2 step_inv_def)
    then have i3: "ginv g3" unfolding g3_def by (rule set_gvm_inv) (simp add: gvm_def sview_def vruns_def)
    obtain s cpu where s: "current_cpu_slot (gs g3) = Some (s, cpu)"
        and g': "gs g' = (set_cpus s (set_cpu (scpus s) (cpu mod MAX_CPUS) (kernel_stack_top_update (\<lambda>_. st))))
           \<lparr> rsp0 := (rsp0 s)[cpu mod MAX_CPUS := st] \<rparr>"
      using rest p by (auto simp: g3_def Let_def elim!: bind_pair_SomeE)
    show ?thesis
      by (rule step_inv_same [OF step_inv_slot [OF i3 s]]) (simp_all add: g' sruns_def runs_set_cpu scpus_rsp0)
  qed
qed

section \<open>Sequences of steps of the driver framework\<close>

text \<open>One operation of the driver framework or of the scheduler underneath it. A crash is the one of the vCPU the
  faulting CPU has as current.\<close>

inductive gdf_step :: "gdf \<Rightarrow> gdf \<Rightarrow> bool" where
  sched: "sched_step (gs g) s \<Longrightarrow> gdf_step g (g\<lparr> gs := s \<rparr>)"
| start: "start_service g box_at name bin cls = Some (g', r) \<Longrightarrow> gdf_step g g'"
| restart: "process_deferred_restarts n g box_at = Some g' \<Longrightarrow> gdf_step g g'"
| round: "deferred_round g box_at = Some g' \<Longrightarrow> gdf_step g g'"
| stop: "stop_service g sid = Some g' \<Longrightarrow> gdf_step g g'"
| send: "send_cmd g name cmd a0 a1 a2 = Some (g', ok) \<Longrightarrow> gdf_step g g'"
| call: "driver_call_send g name cmd a0 a1 a2 = Some (g', ok) \<Longrightarrow> gdf_step g g'"
| recv: "gdf_step g (fst (recv g vid))"
| respond: "send_response g vid result = Some (g', ok) \<Longrightarrow> gdf_step g g'"
| crash: "registered (gs g) \<Longrightarrow> busy (gs g) (my_slot (gs g) mod MAX_CPUS) \<Longrightarrow>
    recover_from_crash g (running_on (gs g) (my_slot (gs g) mod MAX_CPUS)) frame = Some (g', f) \<Longrightarrow> gdf_step g g'"

lemma round_inv: "ginv g \<Longrightarrow> deferred_round g box_at = Some g' \<Longrightarrow> ginv g'"
  by (auto simp: deferred_round_def bind_eq_Some_conv split: option.splits)
    (metis gs_take_deferred start_inv)

lemma gdf_preserves: "gdf_step g g' \<Longrightarrow> ginv g \<Longrightarrow> ginv g'"
  by (induction rule: gdf_step.induct)
    (auto simp: gs_recv intro: step_preserves start_inv deferred_inv round_inv stop_inv send_cmd_inv call_send_inv
      send_response_inv recover_inv)

interpretation gdf_inv: step_invariant gdf_step "\<lambda>g. step_inv (gs g)"
  by unfold_locales (rule gdf_preserves)

lemma step_inv_exclusive:
  assumes "step_inv s" "c < MAX_CPUS" "d < MAX_CPUS" "c \<noteq> d" "busy s c" "busy s d"
  shows "running_on s c \<noteq> running_on s d \<and> vst s (running_on s c) = Some Running"
  using assms by (auto simp: step_inv_def inv_but_def)

end
