(* ===== verification/System.thy ===== *)
theory System
  imports Interrupt Gdf_Excl
begin

text \<open>
  The whole kernel as one transition system: system calls, interrupts and exceptions on any CPU,
  the operations of the driver framework and of the scheduler. Every step keeps the invariant of
  the scheduler under which no vCPU is the current one of two CPUs.
\<close>

declare upt_rec_numeral [simp del]

section \<open>States in which a CPU can take a step\<close>

definition good :: "sched \<Rightarrow> bool" where
  "good s \<longleftrightarrow> step_inv s \<and> registered s \<and> started s (my_slot s)"

definition ok :: "(idt \<times> 'r) option \<Rightarrow> bool" where
  "ok r \<longleftrightarrow> (case r of None \<Rightarrow> True | Some (s, _) \<Rightarrow> step_inv (isched s))"

lemma sview_sruns: "sview s' = sview s \<Longrightarrow> sruns s' = sruns s"
  by (simp add: sview_def vruns_def sruns_def scpus_def)

lemma good_change: "good s \<Longrightarrow> step_inv s' \<Longrightarrow> sview s' = sview s \<Longrightarrow> good s'"
  using registered_view [of s' s] sview_sruns [of s' s] by (simp add: good_def started_def)

lemma sview_set_vm [simp]: "sview (set_vm s m) = vruns m"
  by (simp add: sview_def)

lemma isched_simps [simp]:
  "isched (set_ivm s m) = set_vm (isched s) m" "isched (set_isched s sc) = sc"
  "isched (s\<lparr> itab := t \<rparr>) = isched s" "isched (s\<lparr> eois := n \<rparr>) = isched s" "isched (s\<lparr> port_writes := w \<rparr>) = isched s"
  "isched (s\<lparr> tick_count := k \<rparr>) = isched s" "isched (s\<lparr> pit_count := k \<rparr>) = isched s"
  "isched (s\<lparr> ipi_pending := b \<rparr>) = isched s" "isched (s\<lparr> bp_hit := h \<rparr>) = isched s"
  "isched (s\<lparr> step_vcpu := j \<rparr>) = isched s" "isched (s\<lparr> irq_counts := cn \<rparr>) = isched s"
  "isched (s\<lparr> ig := g \<rparr>) = gs g" "isched (send_eoi s) = isched s" "isched (eoi_if_ready s) = isched s"
  "isched (count_irq s v) = isched s"
  by (simp_all add: isched_def set_ivm_def set_isched_def set_gvm_def send_eoi_def eoi_if_ready_def count_irq_def)

lemma ivm_sched: "ivm s = kvm (sk (isched s))"
  by (simp add: ivm_def gvm_def isched_def)

lemma vruns_ivm: "vruns (ivm s) = sview (isched s)"
  by (simp add: ivm_sched sview_def)

lemma set_isched_self [simp]: "set_isched s (isched s) = s"
  by (simp add: set_isched_def isched_def)

lemma gs_ig [simp]: "gs (ig s) = isched s"
  by (simp add: isched_def)

lemma good_vm: "good (isched s) \<Longrightarrow> vruns m = sview (isched s) \<Longrightarrow> good (isched (set_ivm s m))"
  by (rule good_change) (simp_all add: good_def set_vm_inv)

lemma good_memory:
  assumes "good (isched s)" "vruns (svm a) = sview (isched s)"
  shows "good (isched (set_memory s p a pm))" "sview (isched (set_memory s p a pm)) = sview (isched s)"
proof -
  have v: "sview (isched (set_memory s p a pm)) = sview (isched s)"
    using assms(2) by (simp add: set_memory_def sview_def kvm_def)
  have r: "sruns (isched (set_memory s p a pm)) = sruns (isched s)" by (rule sview_sruns [OF v])
  have i: "step_inv (isched s)" using assms(1) by (simp add: good_def)
  have "step_inv (isched (set_memory s p a pm))"
    by (rule step_inv_same [OF i r]) (simp_all add: set_memory_def)
  then show "good (isched (set_memory s p a pm))" using good_change [OF assms(1)] v by simp
  show "sview (isched (set_memory s p a pm)) = sview (isched s)" by (rule v)
qed

lemma current_slot_good: "good s \<Longrightarrow> current_cpu_slot s = Some (s, my_slot s)"
  by (simp add: good_def registered_slot)

lemma current_vcpu_running:
  assumes "length (sruns s) = MAX_CPUS"
  shows "current_vcpu (scpus s) cpu mod 2 ^ 32 = running_on s (cpu mod MAX_CPUS)"
  using assms mod_cpus [of cpu] by (simp add: running_on_def sruns_def runs_def current_vcpu_def)

lemma good_length: "good s \<Longrightarrow> length (sruns s) = MAX_CPUS"
  by (simp add: good_def step_inv_def inv_but_def)

lemma caller_good:
  assumes g: "good (isched s)"
  shows "caller s = Some (s, running_on (isched s) (my_slot (isched s) mod MAX_CPUS))"
proof -
  have l: "length (sruns (isched s)) = MAX_CPUS" using good_length [OF g] .
  have "current_vcpu_id (isched s) = Some (isched s, running_on (isched s) (my_slot (isched s) mod MAX_CPUS))"
    unfolding current_vcpu_id_def current_slot_good [OF g] bind.simps prod.case current_vcpu_running [OF l] ..
  then show ?thesis unfolding caller_def by (simp only: bind.simps prod.case set_isched_self)
qed

lemma this_slot_good: "good (isched s) \<Longrightarrow> this_slot s = Some (s, my_slot (isched s))"
  using current_slot_good [of "isched s"] by (simp add: this_slot_def)

section \<open>Composition of operations\<close>

lemma ok_None [simp]: "ok None"
  by (simp add: ok_def)

lemma ok_Some [simp]: "ok (Some (s, x)) \<longleftrightarrow> step_inv (isched s)"
  by (simp add: ok_def)

lemma ok_bind: "(\<And>x. e = Some x \<Longrightarrow> ok (f x)) \<Longrightarrow> ok (Option.bind e f)"
  by (cases e) simp_all

lemma ok_pair: "(\<And>a b. e = Some (a, b) \<Longrightarrow> ok (f a b)) \<Longrightarrow> ok (Option.bind e (\<lambda>(a, b). f a b))"
  by (rule ok_bind) (simp split: prod.split)

lemma ok_let: "(\<And>x. x = e \<Longrightarrow> ok (f x)) \<Longrightarrow> ok (Let e f)"
  by simp

lemma ok_if: "(b \<Longrightarrow> ok x) \<Longrightarrow> (\<not> b \<Longrightarrow> ok y) \<Longrightarrow> ok (if b then x else y)"
  by simp

lemma ok_case: "(r = None \<Longrightarrow> ok x) \<Longrightarrow> (\<And>v. r = Some v \<Longrightarrow> ok (f v)) \<Longrightarrow>
    ok (case r of None \<Rightarrow> x | Some v \<Rightarrow> f v)"
  by (cases r) simp_all

lemma ok_give: "good (isched s) \<Longrightarrow> ok (give s frame v)"
  by (simp add: give_def good_def)

lemma ok_caller: "good (isched s) \<Longrightarrow> (\<And>vid. ok (f s vid)) \<Longrightarrow> ok (Option.bind (caller s) (\<lambda>(s, vid). f s vid))"
  by (simp add: caller_good)

lemma ok_slot: "good (isched s) \<Longrightarrow> (\<And>c. ok (f s c)) \<Longrightarrow> ok (Option.bind (this_slot s) (\<lambda>(s, c). f s c))"
  by (simp add: this_slot_good)

lemmas ok_rules = ok_bind ok_pair ok_let ok_if ok_case ok_give ok_caller ok_slot

section \<open>System calls\<close>

lemma ok_block:
  assumes "good (isched s)"
  shows "ok (do { (sc, r) \<leftarrow> block_current (isched s) frame fa hw; Some (set_isched s sc, r) })"
  by (rule ok_pair) (use assms block_inv current_slot_good in \<open>auto simp: good_def\<close>)

lemma ok_yield: "good (isched s) \<Longrightarrow> ok (sys_yield s frame fa hw)"
  unfolding sys_yield_def by (intro ok_if ok_block) (simp_all add: good_def)

lemma ok_wake: "good (isched s) \<Longrightarrow> ok (sys_wake_vcpu s frame vid)"
  unfolding sys_wake_vcpu_def by (intro ok_if ok_bind) (auto simp: good_def intro: wake_inv)

lemma good_free: "good (isched s) \<Longrightarrow> ifree_pages s p n = Some s' \<Longrightarrow> good (isched s')"
  unfolding ifree_pages_def by (elim bind_SomeE) (auto intro!: good_vm simp: vruns_ivm)

lemma good_phys: "good (isched s) \<Longrightarrow> good (isched (set_ivm s ((ivm s)\<lparr> vphys := z \<rparr>)))"
  by (rule good_vm) (simp_all add: vruns_ivm)

lemma svm_kvma: "vruns (svm (kvma (sk (isched s)))) = sview (isched s)"
  by (simp add: sview_def kvm_def)

lemma good_memory_same: "good (isched s) \<Longrightarrow> good (isched (set_memory s p (kvma (sk (isched s))) pm))"
  by (rule good_memory(1)) (simp_all add: svm_kvma)

lemma good_place:
  assumes "good (isched s)" "mmap_place s hint pages = Some (s', r)"
  shows "good (isched s')"
  using assms unfolding mmap_place_def caller_good [OF assms(1)]
  by (auto split: if_splits option.splits elim!: bind_SomeE bind_pair_SomeE intro: good_memory_same)

lemma vruns_add_vma: "add_vma a pm b start stop perm = Some (a', pm') \<Longrightarrow> vruns (svm a') = vruns (svm a)"
  unfolding add_vma_def Let_def by (elim bind_pair_SomeE) (auto dest: vruns_v_vma_insert)

lemma good_gbox: "good (isched s) \<Longrightarrow> good (isched (s\<lparr> ig := (ig s)\<lparr> gbox := n \<rparr> \<rparr>))"
  by simp

lemma ok_mmap_tail:
  assumes "good (isched s)"
  shows "ok (do {
    m1 \<leftarrow> (if b then unmap_mmio (ivm s) virt ps else Some (ivm s));
    m2 \<leftarrow> map_contiguous m1 root virt phys pages fl;
    (s, vid) \<leftarrow> caller (set_ivm s m2);
    mm \<leftarrow> caller_memory s vid;
    (case mm of
       None \<Rightarrow> give s frame virt
     | Some (p, pm) \<Rightarrow> do {
         stop \<leftarrow> checked_add virt bytes;
         (a, pm') \<leftarrow> add_vma (kvma (sk (isched s))) pm (box_at (gbox (ig s))) virt stop perm;
         let s = set_memory s p a pm';
         give (s\<lparr> ig := (ig s)\<lparr> gbox := gbox (ig s) + 1 \<rparr> \<rparr>) frame virt
       }) })"
proof (rule ok_bind, rule ok_bind)
  fix m1 m2
  assume m: "(if b then unmap_mmio (ivm s) virt ps else Some (ivm s)) = Some m1"
    "map_contiguous m1 root virt phys pages fl = Some m2"
  have "vruns m2 = sview (isched s)"
    using m vruns_map [OF m(2)] vruns_unmap_mmio [of "ivm s" virt ps m1] by (auto simp: vruns_ivm split: if_splits)
  from good_vm [OF assms this] have g: "good (isched (set_ivm s m2))" .
  show "ok (do { (s, vid) \<leftarrow> caller (set_ivm s m2);
    mm \<leftarrow> caller_memory s vid;
    (case mm of
       None \<Rightarrow> give s frame virt
     | Some (p, pm) \<Rightarrow> do {
         stop \<leftarrow> checked_add virt bytes;
         (a, pm') \<leftarrow> add_vma (kvma (sk (isched s))) pm (box_at (gbox (ig s))) virt stop perm;
         let s = set_memory s p a pm';
         give (s\<lparr> ig := (ig s)\<lparr> gbox := gbox (ig s) + 1 \<rparr> \<rparr>) frame virt
       }) })"
    apply (rule ok_caller [OF g], rule ok_bind, rule ok_case, rule ok_give [OF g])
    apply (simp only: split_paired_all prod.case)
    apply (rule ok_bind, rule ok_pair, rule ok_let, rule ok_give)
    subgoal premises p
      using p good_memory(1) [OF g] vruns_add_vma svm_kvma [of "set_ivm s m2"] by (auto simp del: isched_simps(1))
    done
qed

lemma ok_mmap:
  assumes "good (isched s)"
  shows "ok (sys_mmap s box_at frame hint sz)"
  unfolding sys_mmap_def
  apply (rule ok_if, rule ok_give [OF assms], rule ok_let, rule ok_bind, rule ok_let, rule ok_pair, rule ok_let)
  subgoal for mf up pages z r s1
  proof -
    assume "s1 = set_ivm s (ivm s\<lparr> vphys := z \<rparr>)"
    then have g: "good (isched s1)" using good_phys [OF assms] by simp
    show ?thesis
      apply (rule ok_case, rule ok_give [OF g], rule ok_let, rule ok_pair, rule ok_case, rule ok_bind, rule ok_give)
       apply (erule good_free [OF good_place [OF g]], assumption)
      apply (rule ok_mmap_tail, erule good_place [OF g])
      done
  qed
  done

lemma svm_drop_box [simp]: "svm (drop_box a p) = svm a"
  by (simp add: drop_box_def)

lemma vruns_remove_cleanup: "remove_cleanup a root node path = Some (a', r) \<Longrightarrow> vruns (svm a') = vruns (svm a)"
proof (induction a root node path rule: remove_cleanup.induct)
  case (1 s root node)
  then show ?case unfolding remove_cleanup.simps
    by (elim bind_SomeE) (auto split: if_splits elim!: bind_SomeE dest: svm_free_node)
next
  case (2 s root node parent pidx path)
  obtain f where f: "rnode s node = Some f" using "2.prems" by (cases "rnode s node") simp_all
  show ?case
  proof (cases "node_empty f")
    case True
    then obtain s1 s2 where "radix_free_node s node = Some s1" "set_entry s1 parent pidx 0 = Some s2"
        "remove_cleanup s2 root parent path = Some (a', r)"
      using "2.prems" f by (auto elim!: bind_SomeE)
    then show ?thesis using "2.IH" [OF f True] svm_free_node [of s node s1] svm_set_entry [of s1 parent pidx 0 s2] by simp
  next
    case False
    then show ?thesis using "2.prems" f by simp
  qed
qed

lemma vruns_vma_remove:
  assumes "vma_remove a root start = Some (a', root', b)"
  shows "vruns (svm a') = vruns (svm a)"
proof (cases "root = 0")
  case True
  then show ?thesis using assms by (simp add: vma_remove_def)
next
  case False
  obtain r where r: "remove_walk_path a start root [] (rev [1..<RADIX_LEVELS]) = Some r"
    using assms False by (cases "remove_walk_path a start root [] (rev [1..<RADIX_LEVELS])") (simp_all add: vma_remove_def)
  show ?thesis
  proof (cases r)
    case None
    then show ?thesis using assms False r by (simp add: vma_remove_def)
  next
    case (Some np)
    obtain node path where np: "np = (node, path)" by fastforce
    obtain f a1 where f: "rnode a node = Some f" and a1: "set_entry a node (radix_index start 0) 0 = Some a1"
        and rest: "(if f (radix_index start 0) = 0 then Some (a1, root, False)
          else do { (s2, root2) \<leftarrow> remove_cleanup (drop_box a1 (f (radix_index start 0))) root node path;
                    Some (s2, root2, True) }) = Some (a', root', b)"
      using assms False r Some np by (auto simp: vma_remove_def Let_def elim!: bind_SomeE)
    show ?thesis
    proof (cases "f (radix_index start 0) = 0")
      case True
      then show ?thesis using rest svm_set_entry [OF a1] by simp
    next
      case False
      then obtain s2 where "remove_cleanup (drop_box a1 (f (radix_index start 0))) root node path = Some (s2, root')" "s2 = a'"
        using rest by (auto elim!: bind_pair_SomeE)
      then show ?thesis using vruns_remove_cleanup svm_set_entry [OF a1] by fastforce
    qed
  qed
qed

lemma vruns_munmap_loop: "munmap_loop m root addr ps = Some m' \<Longrightarrow> vruns m' = vruns m"
proof (induction ps arbitrary: m)
  case (Cons p ps)
  from Cons.prems obtain v t m1 m2 pte where m1: "unmap m v = Some m1"
      and m2: "(case t of Some phys \<Rightarrow>
          if (case pte of None \<Rightarrow> False | Some e \<Rightarrow> e AND COW \<noteq> 0) then Some m1
          else vm_free_page m1 (phys AND 0x000FFFFFFFFFF000) | None \<Rightarrow> Some m1) = Some m2"
      and r: "munmap_loop m2 root addr ps = Some m'"
    unfolding munmap_loop.simps Let_def by (elim bind_SomeE)
  have "vruns m2 = vruns m1" using m2 vruns_free_page by (auto split: option.splits if_splits)
  then show ?case using Cons.IH [OF r] vruns_unmap [OF m1] by simp
qed simp

lemma vruns_flush_pages: "flush_pages m a ps = Some m' \<Longrightarrow> vruns m' = vruns m"
proof (induction ps arbitrary: m)
  case (Cons p ps)
  from Cons.prems obtain b m1 where "flush_page_all m b = Some m1" "flush_pages m1 a ps = Some m'"
    unfolding flush_pages.simps by (elim bind_SomeE)
  then show ?case using Cons.IH vruns_shootdown by (simp add: flush_page_all_def)
qed simp

lemma vruns_remap: "remap_buffer m p n fl = Some m' \<Longrightarrow> vruns m' = vruns m"
  unfolding remap_buffer_def by (elim bind_SomeE) (auto dest!: vruns_map vruns_flush_pages)

lemma vruns_copy_to_user: "copy_to_user m ws dst = Some (m', b) \<Longrightarrow> vruns m' = vruns m"
  by (auto simp: copy_to_user_def split: if_splits option.splits elim!: bind_SomeE dest: vruns_user_store)

lemma gs_track [simp]: "gs (fst (track_service_mmio g vid p v n)) = gs g" "gs (fst (track_service_dma g vid p n)) = gs g"
  "gs (fst (untrack_service_dma g vid p)) = gs g"
  by (simp_all add: track_service_mmio_def track_service_dma_def untrack_service_dma_def on_service_def split: option.splits prod.splits)

lemma ok_munmap:
  assumes "good (isched s)"
  shows "ok (sys_munmap s frame addr sz)"
  unfolding sys_munmap_def
  apply (rule ok_if, rule ok_give [OF assms], rule ok_if, rule ok_give [OF assms], rule ok_bind, rule ok_bind)
  subgoal for up m
  proof -
    assume m: "munmap_loop (ivm s) (cr3 (ivm s) AND NOT 0xFFF) addr [0..<unat (up div 0x1000)] = Some m"
    have g: "good (isched (set_ivm s m))"
      by (rule good_vm [OF assms]) (simp add: vruns_munmap_loop [OF m] vruns_ivm)
    show ?thesis
      apply (rule ok_caller [OF g], rule ok_bind, rule ok_case, rule ok_give [OF g])
      apply (simp only: split_paired_all prod.case)
      apply (rule ok_bind, simp only: split_paired_all prod.case, rule ok_give)
      subgoal premises p
        using p good_memory(1) [OF g] vruns_vma_remove svm_kvma [of "set_ivm s m"] by (auto simp del: isched_simps(1))
      done
  qed
  done

lemma ok_create_gang: "good (isched s) \<Longrightarrow> ok (sys_create_gang s frame entry n p)"
  unfolding sys_create_gang_def
  by (intro ok_if ok_give ok_bind ok_case) (auto simp: give_def good_def dest: create_gang_inv split: prod.splits)

lemma ok_mmap_phys:
  assumes "good (isched s)"
  shows "ok (sys_mmap_phys s frame phys sz)"
  unfolding sys_mmap_phys_def Let_def
  apply (rule ok_caller [OF assms], rule ok_case, rule ok_give [OF assms], rule ok_if, rule ok_give [OF assms])
  apply (rule ok_bind, rule ok_case, rule ok_give [OF assms], rule ok_bind, rule ok_give)
  subgoal premises p for vid v bytes w m
    using good_vm [OF assms, of m] vruns_map [OF p(5)] by (simp add: vruns_ivm)
  done

lemma ok_register_intr: "good (isched s) \<Longrightarrow> ok (sys_register_intr s frame gsi)"
  unfolding sys_register_intr_def by (intro ok_caller ok_pair ok_give) simp_all

lemma ok_intr_ack: "good (isched s) \<Longrightarrow> ok (sys_intr_ack s frame)"
  unfolding sys_intr_ack_def by (rule ok_give) simp

lemma ok_pci: "good (isched s) \<Longrightarrow> ok (sys_pci_config s port_in frame b off w v wr)"
  unfolding sys_pci_config_def Let_def by (intro ok_if ok_give) simp_all

lemma good_remap: "good (isched s) \<Longrightarrow> remap_buffer (ivm s) p n fl = Some m \<Longrightarrow> good (isched (set_ivm s m))"
  by (rule good_vm) (simp_all add: vruns_remap vruns_ivm)

lemma good_zero: "good (isched (set_ivm s m)) \<Longrightarrow> good (isched (set_ivm s (zero_bytes m a n)))"
proof -
  assume g: "good (isched (set_ivm s m))"
  have v: "sview (isched (set_ivm s (zero_bytes m a n))) = sview (isched (set_ivm s m))" by simp
  have "step_inv (set_vm (set_vm (isched s) m) (zero_bytes m a n))"
    by (rule set_vm_inv) (use g in \<open>simp_all add: good_def\<close>)
  moreover have "set_vm (set_vm (isched s) m) (zero_bytes m a n) = set_vm (isched s) (zero_bytes m a n)"
    by (simp add: set_vm_def set_kvm_def)
  ultimately show ?thesis using good_change [OF g _ v] by simp
qed

lemma ok_dma_undo:
  assumes "good (isched s)"
  shows "ok (do { m \<leftarrow> remap_buffer (ivm s) p n fl; s \<leftarrow> ifree_pages (set_ivm s m) p n; give s frame v })"
  by (intro ok_bind ok_give) (erule good_free [OF good_remap [OF assms], rotated], assumption)

lemma ok_dma_alloc:
  assumes "good (isched s)"
  shows "ok (sys_dma_alloc s frame sz)"
  unfolding sys_dma_alloc_def
  apply (rule ok_caller [OF assms], rule ok_let, rule ok_pair, rule ok_let)
  subgoal for vid pages z r s1
  proof -
    assume "s1 = set_ivm s (ivm s\<lparr> vphys := z \<rparr>)"
    then have g: "good (isched s1)" using good_phys [OF assms] by simp
    show ?thesis
      apply (rule ok_case, rule ok_give [OF g], rule ok_bind, rule ok_bind, rule ok_let)
      subgoal for phys m1 bytes s2
      proof -
        assume "remap_buffer (ivm s1) phys pages (DATA OR USER) = Some m1" "s2 = set_ivm s1 (zero_bytes m1 phys bytes)"
        then have g2: "good (isched s2)" using good_zero [OF good_remap [OF g]] by simp
        obtain h b where t: "track_service_dma (ig s2) vid phys pages = (h, b)" by fastforce
        have "gs h = isched s2" using gs_track(2) [of "ig s2" vid phys pages] t by simp
        then have g3: "good (isched (s2\<lparr> ig := h \<rparr>))" using g2 by simp
        show ?thesis unfolding t prod.case Let_def
          by (cases b) (simp_all only: bool.case ok_give [OF g3] ok_dma_undo [OF g3])
      qed
      done
  qed
  done

lemma ok_dma_free:
  assumes "good (isched s)"
  shows "ok (sys_dma_free s frame phys)"
  unfolding sys_dma_free_def
proof (rule ok_caller [OF assms])
  fix vid
  obtain h b where t: "untrack_service_dma (ig s) vid phys = (h, b)" by fastforce
  have "gs h = isched s" using gs_track(3) [of "ig s" vid phys] t by simp
  then have g: "good (isched (s\<lparr> ig := h \<rparr>))" using assms by simp
  show "ok (case untrack_service_dma (ig s) vid phys of
      (g, None) \<Rightarrow> give (s\<lparr> ig := g \<rparr>) frame (- 1)
    | (g, Some pages) \<Rightarrow> do {
        let s = s\<lparr> ig := g \<rparr>;
        m \<leftarrow> remap_buffer (ivm s) phys pages DATA;
        s \<leftarrow> ifree_pages (set_ivm s m) phys pages;
        give s frame 0
      })"
    unfolding t prod.case Let_def by (cases b) (simp_all only: option.case ok_give [OF g] ok_dma_undo [OF g])
qed

lemma ok_deliver:
  assumes "good (isched s)"
  shows "ok (deliver_message s frame buf msg)"
proof -
  obtain cmd a0 a1 a2 where "msg = (cmd, a0, a1, a2)" by (cases msg)
  then show ?thesis unfolding deliver_message_def
    by (simp only: prod.case) (rule ok_pair, rule ok_give, rule good_vm [OF assms], simp add: vruns_copy_to_user vruns_ivm)
qed

lemma ok_recv:
  assumes "good (isched s)"
  shows "ok (sys_driver_recv s frame buf)"
  unfolding sys_driver_recv_def
proof (rule ok_caller [OF assms])
  fix vid
  obtain h r where t: "recv (ig s) vid = (h, r)" by fastforce
  have "gs h = isched s" using gs_recv [of "ig s" vid] t by simp
  then have g: "good (isched (s\<lparr> ig := h \<rparr>))" using assms by simp
  show "ok (case recv (ig s) vid of (g, None) \<Rightarrow> give s frame (- 1)
      | (g, Some msg) \<Rightarrow> deliver_message (s\<lparr> ig := g \<rparr>) frame buf msg)"
    unfolding t prod.case by (rule ok_case) (simp_all only: ok_give [OF assms] ok_deliver [OF g])
qed

lemma ok_send:
  assumes "good (isched s)"
  shows "ok (sys_driver_send s frame result)"
  unfolding sys_driver_send_def
  apply (rule ok_caller [OF assms], rule ok_pair)
  subgoal premises p for vid g b
    using send_response_inv [OF _ p] assms by (simp add: give_def good_def)
  done

lemma ok_gdf_register:
  assumes "good (isched s)"
  shows "ok (sys_gdf_register s frame p n)"
  unfolding sys_gdf_register_def
  apply (rule ok_if, rule ok_give [OF assms], rule ok_bind, rule ok_case, rule ok_give [OF assms], rule ok_caller [OF assms])
  subgoal for nm name vid
  proof -
    obtain h b where t: "register_driver (ig s) name vid (get_vcpu_type (sk (isched s)) vid) = (h, b)" by fastforce
    have "gs h = isched s" using gs_simps(2) [of "ig s" name vid "get_vcpu_type (sk (isched s)) vid"] t by simp
    then show ?thesis unfolding t prod.case using assms by (simp add: give_def good_def)
  qed
  done

lemma good_fast:
  assumes "good (isched s)" "recv_block_fast s frame buf = Some (s', Inl vid)"
  shows "s' = s"
  using assms by (auto simp: recv_block_fast_def caller_good deliver_message_def give_def
      split: if_splits prod.splits option.splits elim!: bind_SomeE)

lemma ok_fast:
  assumes "good (isched s)"
  shows "ok (recv_block_fast s frame buf)"
  unfolding recv_block_fast_def
  apply (rule ok_if, use assms in \<open>simp add: good_def\<close>, rule ok_caller [OF assms])
  subgoal for vid
  proof -
    obtain h r where t: "recv (ig s) vid = (h, r)" by fastforce
    have "gs h = isched s" using gs_recv [of "ig s" vid] t by simp
    then have g: "good (isched (s\<lparr> ig := h \<rparr>))" using assms by simp
    show ?thesis
    proof (cases r)
      case None
      then show ?thesis unfolding t using assms by (simp add: good_def)
    next
      case (Some msg)
      have "ok (do { (s, r) \<leftarrow> deliver_message (s\<lparr> ig := h \<rparr>) frame buf msg; Some (s, Inr r) })"
        using ok_deliver [OF g, of frame buf msg] by (cases "deliver_message (s\<lparr> ig := h \<rparr>) frame buf msg") auto
      then show ?thesis unfolding t Some prod.case option.case .
    qed
  qed
  done

lemma block_keeps:
  assumes "good sc" "block_current sc frame fa hw = Some (sc', r)"
  shows "step_inv sc'"
  using assms block_inv current_slot_good by (auto simp: good_def)

text \<open>Receiving, once blocking has returned: nothing but the mailbox and the caller's memory changes.\<close>

lemma deliver_inv_only:
  assumes "step_inv (isched s)"
  shows "ok (deliver_message s frame buf msg)"
proof -
  obtain cmd a0 a1 a2 where "msg = (cmd, a0, a1, a2)" by (cases msg)
  then show ?thesis unfolding deliver_message_def
    by (simp only: prod.case) (rule ok_pair, simp add: give_def set_vm_inv [OF assms] vruns_copy_to_user vruns_ivm)
qed

lemma ok_slow:
  assumes "good (isched s)"
  shows "ok (recv_block_slow s frame buf vid fa hw)"
  unfolding recv_block_slow_def Let_def
proof (rule ok_pair)
  fix g r
  assume b: "gblock (ig s) (frame\<lparr> rax := 0 \<rparr>) fa hw = Some (g, r)"
  then have i: "step_inv (gs g)"
    unfolding gblock_def by (elim bind_pair_SomeE) (use block_keeps [OF assms] in auto)
  obtain h q where t: "recv g vid = (h, q)" by fastforce
  have h: "step_inv (gs h)" using gs_recv [of g vid] t i by simp
  show "ok (case r of SwitchedTo f fpu \<Rightarrow> Some (s\<lparr> ig := g \<rparr>, SwitchedTo f fpu)
      | Returned f \<Rightarrow> (case recv (ig (s\<lparr> ig := g \<rparr>)) vid of
             (h, Some msg) \<Rightarrow> deliver_message (s\<lparr> ig := g, ig := h \<rparr>) f buf msg
           | (h, None) \<Rightarrow> give (s\<lparr> ig := g \<rparr>) f (- 1)))"
    using i h deliver_inv_only [of "s\<lparr> ig := h \<rparr>"]
    by (cases r; cases q) (simp_all add: t give_def)
qed

lemma ok_recv_block:
  assumes "good (isched s)"
  shows "ok (sys_driver_recv_block s frame buf fa hw)"
proof (cases "recv_block_fast s frame buf")
  case (Some sr)
  then obtain s1 r where f: "recv_block_fast s frame buf = Some (s1, r)" by (cases sr) simp
  show ?thesis
  proof (cases r)
    case (Inl vid)
    then have "s1 = s" using f good_fast [OF assms, of frame buf s1 vid] by simp
    then show ?thesis using f Inl ok_slow [OF assms] by (simp add: sys_driver_recv_block_def)
  next
    case (Inr res)
    then show ?thesis using f ok_fast [OF assms, of frame buf] by (simp add: sys_driver_recv_block_def)
  qed
qed (simp add: sys_driver_recv_block_def)

lemma sview_with_mut [simp]: "sview (with_mut s v f) = sview s"
  by (simp add: sview_def with_mut_def upd_vcpu_def kvm_def)

lemma sview_cpus: "runs c = runs (scpus s) \<Longrightarrow> apic_to_slot c = apic_to_slot (scpus s) \<Longrightarrow> sview (set_cpus s c) = sview s"
  by (simp add: set_cpus_def) (simp add: sview_def vruns_def scpus_def)

lemma sview_ipis [simp]: "sview (s\<lparr> ipis := x \<rparr>) = sview s"
  by (simp add: sview_def)

lemma sview_notify: "sview (notify_cpu s t) = sview s"
  by (simp add: notify_cpu_def send_ipi_def sview_cpus runs_set_cpu)

lemma add_task_slots [simp]: "apic_to_slot (add_task_count c cpu d) = apic_to_slot c"
  by (simp add: add_task_count_def)

lemma wake_view:
  assumes "registered s" "wake s v = Some s'"
  shows "sview s' = sview s"
proof -
  let ?v = "unat v mod 2 ^ 32"
  let ?w = "with_mut s ?v (\<lambda>v. v\<lparr> vstate := Ready, vruntime := 0 \<rparr>)"
  have "s' = s \<or> enqueue_woken ?w ?v = Some s'"
    using assms(2) unfolding wake_def registered_slot [OF assms(1)] Let_def by (auto split: option.splits if_splits)
  moreover have "sview s' = sview ?w" if "enqueue_woken ?w ?v = Some s'"
    using that unfolding enqueue_woken_def Let_def
    by (auto split: if_splits elim!: bind_SomeE simp: sview_notify sview_cpus dest: view_push simp del: rq_push_all.simps)
  ultimately show ?thesis by auto
qed

lemma call_view:
  assumes "good (gs g)" "driver_call_send g name cmd a0 a1 a2 = Some (g', b)"
  shows "good (gs g')"
proof -
  have i: "step_inv (gs g')" using call_send_inv [OF _ assms(2)] assms(1) by (simp add: good_def)
  have r: "registered (gs g)" using assms(1) by (simp add: good_def)
  have "sview (gs g') = sview (gs g)"
    using assms(2) unfolding driver_call_send_def current_vcpu_id_def registered_slot [OF r]
    by (auto simp: gwake_def set_driver_def r split: if_splits option.splits elim!: bind_SomeE dest!: wake_view [rotated])
  then show ?thesis by (rule good_change [OF assms(1) i])
qed

lemma ok_driver_call:
  assumes "good (isched s)"
  shows "ok (sys_driver_call s frame p n cmd a0 a1 a2 fa hw)"
  unfolding sys_driver_call_def Let_def
  apply (rule ok_if, rule ok_give [OF assms], rule ok_bind, rule ok_case, rule ok_give [OF assms], rule ok_bind)
  subgoal for nm name gor
  proof -
    assume d: "driver_call (ig s) name (ucast cmd) a0 a1 a2 frame fa hw = Some gor"
    then obtain g1 b where c: "driver_call_send (ig s) name (ucast cmd) a0 a1 a2 = Some (g1, b)"
      by (cases "driver_call_send (ig s) name (ucast cmd) a0 a1 a2") (auto simp: driver_call_def)
    have g1: "good (gs g1)" using call_view [OF _ c] assms by simp
    obtain g b2 r where gor: "gor = (g, b2, r)" by (cases gor)
    have "step_inv (gs g)"
    proof (cases b)
      case True
      then have "gblock g1 frame fa hw = Some (g, r)" using d c gor by (auto simp: driver_call_def elim!: bind_pair_SomeE)
      then show ?thesis unfolding gblock_def by (elim bind_pair_SomeE) (use block_keeps [OF g1] in auto)
    next
      case False
      then show ?thesis using d c gor g1 by (simp add: driver_call_def good_def)
    qed
    then show ?thesis unfolding gor prod.case by (simp add: give_def)
  qed
  done

lemma handler_inv:
  assumes "good (isched s)" "syscall_handler s box_at port_in frame fa hw = Some (s', r)"
  shows "step_inv (isched s')"
proof -
  have "ok (syscall_handler s box_at port_in frame fa hw)"
    unfolding syscall_handler_def sys_exit_def sys_get_vcpu_id_def sys_get_ticks_def
    by (intro ok_let ok_if ok_give ok_caller ok_yield ok_wake ok_mmap ok_munmap ok_create_gang ok_mmap_phys
      ok_register_intr ok_intr_ack ok_dma_alloc ok_dma_free ok_pci ok_recv ok_send ok_recv_block ok_gdf_register
      ok_driver_call ok_None assms(1))
  then show ?thesis using assms(2) by simp
qed

section \<open>Interrupts and exceptions\<close>

lemma set_icpu_good:
  assumes "good (isched s)" "\<And>p. cur_vcpu (f p) = cur_vcpu p \<and> idle_vcpu_id (f p) = idle_vcpu_id p"
  shows "good (isched (set_icpu s slot f))"
proof -
  let ?s = "set_cpus (isched s) (set_cpu (scpus (isched s)) slot f)"
  have v: "sview ?s = sview (isched s)" by (rule sview_cpus) (simp_all add: runs_set_cpu assms(2))
  have "step_inv ?s" by (rule step_inv_same [OF _ sview_sruns [OF v]]) (use assms(1) in \<open>simp_all add: good_def\<close>)
  then show ?thesis using good_change [OF assms(1)] v by (simp add: set_icpu_def)
qed

lemma good_tlb: "good (isched s) \<Longrightarrow> good (isched (set_ivm s ((ivm s)\<lparr> tlb_log := x \<rparr>)))"
  by (rule good_vm) (simp_all add: vruns_ivm)

lemma good_pending: "good (isched s) \<Longrightarrow> good (isched (pending_flush s slot))"
  unfolding pending_flush_def Let_def by (simp add: good_tlb set_icpu_good del: isched_simps(1))

lemma ok_timer:
  assumes "good (isched s)"
  shows "ok (timer_interrupt s e frame)"
  unfolding timer_interrupt_def
  apply (rule ok_if, use assms in \<open>simp add: good_def\<close>, rule ok_bind, rule ok_slot, use assms in simp, rule ok_bind, rule ok_let)
  subgoal for t slot n s1
  proof -
    assume "s1 = set_icpu (s\<lparr> tick_count := t \<rparr>) slot (timer_fires_update (\<lambda>_. n))"
    then have g: "good (isched s1)" using set_icpu_good [of "s\<lparr> tick_count := t \<rparr>"] assms by simp
    show ?thesis
      apply (rule ok_if, use g in \<open>simp add: good_def\<close>, rule ok_let, rule ok_bind, rule ok_let)
      subgoal premises p for fx r s2
      proof -
        have "step_inv (os r)"
          by (rule schedule_inv [OF _ current_slot_good [OF g] _ p(3)]) (use g in \<open>simp_all add: good_def\<close>)
        then show ?thesis using set_vm_inv [of "os r" "ivm s2\<lparr> cr3 := next_pml4 r \<rparr>"] p(4)
          by (simp add: ivm_sched sview_def)
      qed
      done
  qed
  done

lemma ok_irq:
  assumes "good (isched s)"
  shows "ok (irq_handler s e frame)"
  unfolding irq_handler_def Let_def
  apply (rule ok_if, rule ok_timer [OF assms], rule ok_if, rule ok_bind)
  subgoal premises p
    using p wake_inv assms by (auto simp: good_def split: if_splits)
  using assms by (simp add: good_def)

lemma ok_ipi:
  assumes "good (isched s)"
  shows "ok (ipi_handler s e frame)"
proof -
  let ?s = "set_ivm (s\<lparr> ipi_pending := True \<rparr>) (ivm (s\<lparr> ipi_pending := True \<rparr>)
      \<lparr> tlb_log := tlb_log (ivm (s\<lparr> ipi_pending := True \<rparr>)) @ [FlushLocal (flush_request e)] \<rparr>)"
  have g: "good (isched ?s)" by (rule good_tlb) (simp add: assms)
  have i: "step_inv (isched ?s)" "step_inv (isched s)" using g assms by (simp_all add: good_def)
  show ?thesis unfolding ipi_handler_def Let_def this_slot_good [OF g] using i by simp
qed

lemma debug_halt_inv:
  assumes "good (isched s)" and b: "busy (isched s) (cpu mod MAX_CPUS)" and vid: "vid = running_on (isched s) (cpu mod MAX_CPUS)"
    and d: "debug_halt s e cpu vid addr vec frame = (s', r)"
  shows "step_inv (isched s')"
proof -
  let ?s = "isched s" and ?c = "cpu mod MAX_CPUS"
  have inv: "step_inv ?s" using assms(1) by (simp add: good_def)
  then have ri: "run_inv ?s" and wf: "gangs_wf ?s" and gc: "gang_count ?s \<noteq> 0"
    and len: "length (vcpus (sk ?s)) = MAX_VCPUS"
    using b mod_cpus [of cpu] by (auto simp: step_inv_def inv_but_def)
  define s1 where "s1 = with_mut ?s vid (\<lambda>v. v\<lparr> saved_frame := frame, vstate := Halted \<rparr>)"
  have s': "isched s' = os (go_idle s1 cpu frame [])"
    using d by (auto simp: debug_halt_def Let_def go_idle_def s1_def)
  have "inv_but {?c} s1"
  proof (rule change_own [OF ri mod_cpus b])
    show "listed s1 \<subseteq> listed ?s" using listed_gangs [of s1 ?s] by (simp add: s1_def)
  qed (use len vid in \<open>auto simp: s1_def sruns_def vst_with_mut\<close>)
  then have "run_inv (os (go_idle s1 cpu frame []))" by (rule inv_go_idle)
  moreover have "gangs_wf (os (go_idle s1 cpu frame []))" using wf by (simp add: gangs_wf_def s1_def)
  ultimately show ?thesis unfolding s' using gc by (simp add: step_inv_def s1_def)
qed

text \<open>Page faults change memory and page tables only.\<close>

definition akeeps :: "cpu_view \<Rightarrow> (vma_sys \<times> 'r) option \<Rightarrow> bool" where
  "akeeps R r \<longleftrightarrow> (case r of None \<Rightarrow> True | Some (a, _) \<Rightarrow> vruns (svm a) = R)"

lemma akeeps_simps [simp]: "akeeps R None" "akeeps R (Some (a, x)) \<longleftrightarrow> vruns (svm a) = R"
  by (simp_all add: akeeps_def)

lemma akeeps_bind: "(\<And>x. e = Some x \<Longrightarrow> akeeps R (f x)) \<Longrightarrow> akeeps R (Option.bind e f)"
  by (cases e) simp_all

lemma akeeps_pair: "(\<And>a b. e = Some (a, b) \<Longrightarrow> akeeps R (f a b)) \<Longrightarrow> akeeps R (Option.bind e (\<lambda>(a, b). f a b))"
  by (rule akeeps_bind) (simp split: prod.split)

lemma akeeps_if: "(b \<Longrightarrow> akeeps R x) \<Longrightarrow> (\<not> b \<Longrightarrow> akeeps R y) \<Longrightarrow> akeeps R (if b then x else y)"
  by simp

lemma akeeps_case: "(r = None \<Longrightarrow> akeeps R x) \<Longrightarrow> (\<And>v. r = Some v \<Longrightarrow> akeeps R (f v)) \<Longrightarrow>
    akeeps R (case r of None \<Rightarrow> x | Some v \<Rightarrow> f v)"
  by (cases r) simp_all

lemma vruns_zero_page: "zero_page m p = Some m' \<Longrightarrow> vruns m' = vruns m"
  unfolding zero_page_def by (elim bind_SomeE) auto

lemma vruns_map_page: "map_page m pml4 v p fl = Some m' \<Longrightarrow> vruns m' = vruns m"
  by (auto simp: map_page_def bind_eq_Some_conv Let_def dest!: vruns_ensure_table vruns_tlb_flush split: if_splits)

lemma vruns_map_explicit: "map_page_explicit m r v p fl = Some m' \<Longrightarrow> vruns m' = vruns m"
  unfolding map_page_explicit_def Let_def
  by (elim bind_SomeE) (auto split: if_splits dest!: vruns_map_page vruns_shootdown)

lemma vruns_resolve_cow:
  assumes "resolve_cow m r a pte = Some (m', b)"
  shows "vruns m' = vruns m"
proof -
  obtain m1 q where m1: "vm_alloc_page m = Some (m1, q)"
    using assms by (cases "vm_alloc_page m") (auto simp: resolve_cow_def)
  show ?thesis
  proof (cases q)
    case None
    then show ?thesis using assms m1 vruns_alloc_page [OF m1] by (simp add: resolve_cow_def)
  next
    case (Some p)
    have c: "vruns (copy_page m1 x p) = vruns m1" for x by (simp add: copy_page_def)
    obtain m3 w x y m4 where m3: "write_pte (copy_page m1 x p) r a y = Some (m3, w)"
        and m4: "flush_page_all m3 a = Some m4"
        and rest: "(case unref_page (vphys m4) (x div PAGE_SIZE) of (z, was_last) \<Rightarrow>
            if was_last then do { s5 \<leftarrow> vm_free_page (m4\<lparr> vphys := z \<rparr>) x; Some (s5, True) }
            else Some (m4\<lparr> vphys := z \<rparr>, True)) = Some (m', b)"
      using assms m1 Some by (auto simp: resolve_cow_def Let_def elim!: bind_SomeE bind_pair_SomeE)
    have "vruns m' = vruns m4"
      using rest by (auto split: prod.splits if_splits elim!: bind_SomeE dest!: vruns_free_page)
    then show ?thesis
      using vruns_alloc_page [OF m1] vruns_write_pte [OF m3] c m4 vruns_shootdown [of m3 a m4] by (simp add: flush_page_all_def)
  qed
qed

lemma akeeps_pm_fault: "akeeps (vruns (svm a)) (pm_handle_page_fault a pm addr w)"
  unfolding pm_handle_page_fault_def Let_def
  apply (rule akeeps_bind, rule akeeps_if, rule akeeps_pair)
   apply (auto simp: handle_cow_fault_def Let_def split: option.splits elim!: bind_SomeE dest: vruns_resolve_cow)[]
  apply (rule akeeps_bind, rule akeeps_case, simp, rule akeeps_bind, rule akeeps_if, simp, rule akeeps_pair, rule akeeps_case)
   apply (simp add: vruns_alloc_page)
  apply (rule akeeps_bind, rule akeeps_bind, rule akeeps_bind)
  apply (simp add: vruns_alloc_page vruns_zero_page vruns_map_explicit vruns_tlb_flush)
  done

lemma akeeps_fault: "akeeps (vruns (svm a)) (handle_page_fault a cur addr err)"
  unfolding handle_page_fault_def Let_def
  apply (rule akeeps_if, rule akeeps_bind, rule akeeps_case, simp, rule akeeps_if, rule akeeps_pair)
     apply (simp add: vruns_resolve_cow)
    apply simp
  apply (rule akeeps_if, simp, rule akeeps_if, rule akeeps_case, simp, rule akeeps_pm_fault)
  apply (rule akeeps_bind, rule akeeps_case, simp, rule akeeps_bind, rule akeeps_pair, rule akeeps_case)
   apply (simp add: vruns_alloc_page)
  apply (rule akeeps_bind, rule akeeps_bind)
  apply (simp add: vruns_alloc_page vruns_zero_page vruns_map_explicit)
  done

end
