(* ===== verification/Kernel.thy ===== *)
theory Kernel
  imports System
begin

text \<open>
  Exceptions and the interrupt dispatcher keep the invariant of the scheduler, and with them every step
  of the kernel: a system call, an interrupt or exception, an operation of the driver framework.
\<close>

declare upt_rec_numeral [simp del]

section \<open>Exceptions\<close>

text \<open>The record of the CPU names a vCPU other than its idle one, or the interrupt is none that could halt or
  end the recorded vCPU: not a debug exception or a breakpoint, and no driver is recorded.\<close>

definition may_trap :: "sched \<Rightarrow> trap_frame \<Rightarrow> bool" where
  "may_trap s frame \<longleftrightarrow>
     (let c = my_slot s mod MAX_CPUS
      in busy s c \<or> vector frame \<noteq> 1 \<and> vector frame \<noteq> 3 \<and> \<not> is_driver s (running_on s c))"

lemma own_view:
  assumes "sview s' = sview s"
  shows "my_slot s' = my_slot s" "busy s' = busy s" "running_on s' = running_on s"
proof -
  have r: "sruns s' = sruns s" using assms by (rule sview_sruns)
  show "my_slot s' = my_slot s" using assms by (auto simp: my_slot_def sview_def vruns_def scpus_def)
  show "busy s' = busy s" by (rule busy_cong [OF r])
  show "running_on s' = running_on s" by (simp add: running_on_def r fun_eq_iff)
qed

lemma may_trap_view:
  assumes "sview s' = sview s" "vcpus (sk s') = vcpus (sk s)"
  shows "may_trap s' frame = may_trap s frame"
proof -
  have "is_driver s' v = is_driver s v" for v using assms(2) by (simp add: is_driver_def get_vcpu_type_def vcpu_get_def)
  then show ?thesis unfolding may_trap_def own_view [OF assms(1)] by simp
qed

lemma ok_halt:
  assumes g: "good (isched s)" and b: "busy (isched s) (my_slot (isched s) mod MAX_CPUS)"
  shows "ok (Some (debug_halt s e (my_slot (isched s)) (current_vcpu (scpus (isched s)) (my_slot (isched s)) mod 2 ^ 32) a n frame))"
proof -
  obtain s' r where d: "debug_halt s e (my_slot (isched s)) (current_vcpu (scpus (isched s)) (my_slot (isched s)) mod 2 ^ 32) a n frame = (s', r)"
    by fastforce
  have "step_inv (isched s')"
    by (rule debug_halt_inv [OF g b current_vcpu_running [OF good_length [OF g]] d])
  then show ?thesis unfolding d by (simp add: ok_def)
qed

lemma ok_debug:
  assumes g: "good (isched s)" and b: "busy (isched s) (my_slot (isched s) mod MAX_CPUS)"
  shows "ok (debug_exception s e frame)"
proof -
  have h: "ok (Some (debug_halt (s\<lparr> step_vcpu := j \<rparr>) e (my_slot (isched s)) (current_vcpu (scpus (isched s)) (my_slot (isched s)) mod 2 ^ 32) a n f))"
    for j a n f using ok_halt [of "s\<lparr> step_vcpu := j \<rparr>"] g b by simp
  show ?thesis
    unfolding debug_exception_def this_slot_good [OF g]
    using g h ok_halt [OF g b] by (auto simp: good_def Let_def ok_def)
qed

lemma ok_breakpoint:
  assumes g: "good (isched s)" and b: "busy (isched s) (my_slot (isched s) mod MAX_CPUS)"
  shows "ok (breakpoint_exception s e frame)"
proof -
  have m: "ok (Option.bind (this_slot t) (\<lambda>(s, cpu). Some (debug_halt s e cpu (current_vcpu (scpus (isched s)) cpu mod 2 ^ 32) a 3 frame)))"
    if t: "good (isched t)" "sview (isched t) = sview (isched s)" for t a
  proof -
    have "busy (isched t) (my_slot (isched t) mod MAX_CPUS)" unfolding own_view [OF t(2)] by (rule b)
    then show ?thesis unfolding this_slot_good [OF t(1)] bind.simps prod.case by (rule ok_halt [OF t(1)])
  qed
  have st: "good (isched (set_ivm s x)) \<and> sview (isched (set_ivm s x)) = sview (isched s)"
    if "user_store (ivm s) a bs = Some x" for a bs x
    using that vruns_user_store good_vm [OF g] by (simp add: vruns_ivm del: isched_simps(1)) (simp add: vruns_user_store vruns_ivm)
  show ?thesis
    unfolding breakpoint_exception_def Let_def
    apply (rule ok_bind)
    subgoal premises p for t
    proof (rule m)
      have "t = s \<or> (\<exists>a bs x. user_store (ivm s) a bs = Some x \<and> t = set_ivm s x)"
        using p by (cases "find (\<lambda>b. fst b = rip frame - 1) (breakpoints s)") (auto simp: bind_eq_Some_conv simp del: user_store.simps)
      then show "good (isched t)" "sview (isched t) = sview (isched s)" using g st by blast+
    qed
    done
qed

lemma page_fault_keeps:
  assumes g: "good (isched s)" and p: "page_fault s e frame = Some (s', done_now)"
  shows "good (isched s')" "sview (isched s') = sview (isched s)" "vcpus (sk (isched s')) = vcpus (sk (isched s))"
proof -
  obtain mm a where h: "handle_page_fault (kvma (sk (isched s))) mm (cr2 e) (error_code frame) = Some (a, done_now)"
      and s': "s' = s\<lparr> ig := set_kvma (ig s) a \<rparr>"
    using p unfolding page_fault_def caller_good [OF g]
    by (auto split: if_splits elim!: bind_SomeE bind_pair_SomeE)
  have a: "vruns (svm a) = sview (isched s)"
    using akeeps_fault [of "kvma (sk (isched s))" mm "cr2 e" "error_code frame"] unfolding h by (simp add: sview_def kvm_def)
  show v: "sview (isched s') = sview (isched s)" using a by (simp add: s' set_kvma_def sview_def kvm_def)
  show c: "vcpus (sk (isched s')) = vcpus (sk (isched s))" by (simp add: s' set_kvma_def)
  have i: "step_inv (isched s)" using g by (simp add: good_def)
  have "step_inv (isched s')"
    by (rule step_inv_same [OF i sview_sruns [OF v] c]) (simp_all add: s' set_kvma_def)
  then show "good (isched s')" using good_change [OF g] v by simp
qed

lemma ok_unresolved:
  assumes g: "good (isched s)" and t: "may_trap (isched s) frame"
  shows "ok (unresolved s e frame)"
proof -
  have i: "step_inv (isched s)" "registered (isched s)" using g by (simp_all add: good_def)
  have crash: "step_inv (gs g')"
    if d: "is_driver (isched s) (running_on (isched s) (my_slot (isched s) mod MAX_CPUS))"
      and r: "recover_from_crash (ig s) (running_on (isched s) (my_slot (isched s) mod MAX_CPUS)) frame = Some (g', f)"
    for g' f
  proof (rule recover_inv [OF _ _ _ _ r])
    show "busy (gs (ig s)) (my_slot (gs (ig s)) mod MAX_CPUS)" using t d by (simp add: may_trap_def Let_def)
  qed (use i in simp_all)
  show ?thesis
    unfolding unresolved_def caller_good [OF g] bind.simps prod.case
    apply (rule ok_case, rule ok_if, simp add: i, rule ok_if, rule ok_pair, simp add: crash)
    by (simp add: i, rule ok_bind, simp add: i)
qed

lemma ok_exception:
  assumes g: "good (isched s)" and t: "may_trap (isched s) frame"
  shows "ok (exception_handler s e frame)"
proof -
  have b: "busy (isched s) (my_slot (isched s) mod MAX_CPUS)" if "vector frame = 1 \<or> vector frame = 3"
    using t that by (auto simp: may_trap_def Let_def)
  show ?thesis
    unfolding exception_handler_def
    apply (rule ok_if, rule ok_debug [OF g b], simp, rule ok_if, rule ok_breakpoint [OF g b], simp)
    apply (rule ok_if, rule ok_pair)
    subgoal premises p for s' r
    proof -
      have "good (isched s')" by (rule page_fault_keeps(1) [OF g p(4)])
      moreover have "may_trap (isched s') frame"
        using may_trap_view [OF page_fault_keeps(2,3) [OF g p(4)]] t by simp
      ultimately show ?thesis using ok_unresolved by (auto simp: good_def)
    qed
    by (rule ok_unresolved [OF g t])
qed

section \<open>The dispatcher\<close>

lemma pending_view:
  "sview (isched (pending_flush s slot)) = sview (isched s)" "vcpus (sk (isched (pending_flush s slot))) = vcpus (sk (isched s))"
proof -
  let ?f = "\<lambda>c. c\<lparr> pending_tlb_flush := 0, saved_cr3 := cr3 (ivm s) \<rparr>"
  have v: "sview (isched (set_icpu s slot ?f)) = sview (isched s)"
    unfolding set_icpu_def isched_simps by (rule sview_cpus) (simp_all add: runs_set_cpu)
  have c: "vcpus (sk (isched (set_icpu s slot ?f))) = vcpus (sk (isched s))" by (simp add: set_icpu_def)
  show "sview (isched (pending_flush s slot)) = sview (isched s)"
    using v by (simp add: pending_flush_def Let_def vruns_ivm)
  show "vcpus (sk (isched (pending_flush s slot))) = vcpus (sk (isched s))"
    using c by (simp add: pending_flush_def Let_def)
qed

lemma ok_dispatcher:
  assumes g: "good (isched s)" and t: "may_trap (isched s) frame"
  shows "ok (interrupt_dispatcher s e frame)"
proof -
  let ?s = "count_irq (pending_flush s (my_slot (isched s))) (vector frame)"
  have g': "good (isched ?s)" using good_pending [OF g] by simp
  have t': "may_trap (isched ?s) frame" using may_trap_view [OF pending_view] t by simp
  have i: "step_inv (isched ?s)" using g' by (simp add: good_def)
  show ?thesis
    unfolding interrupt_dispatcher_def this_slot_good [OF g] bind.simps prod.case Let_def
    by (intro ok_if ok_None ok_exception [OF g' t'] ok_irq [OF g'] ok_ipi [OF g']) (use i in \<open>simp_all split: if_split\<close>)
qed

section \<open>The kernel as one transition system\<close>

text \<open>A step is an operation of the driver framework or of the scheduler (which includes that another CPU
  goes on), a system call, or an interrupt or exception. System calls and traps come from CPUs whose
  per-CPU data is set up.\<close>

inductive sys_step :: "idt \<Rightarrow> idt \<Rightarrow> bool" where
  framework: "gdf_step (ig s) g \<Longrightarrow> sys_step s (s\<lparr> ig := g \<rparr>)"
| call: "good (isched s) \<Longrightarrow> syscall s box_at port_in kernel_stack regs fa hw = Some (s', r) \<Longrightarrow> sys_step s s'"
| trap: "good (isched s) \<Longrightarrow> may_trap (isched s) frame \<Longrightarrow> interrupt_dispatcher s e frame = Some (s', r) \<Longrightarrow> sys_step s s'"

lemma sys_preserves: "sys_step s s' \<Longrightarrow> step_inv (isched s) \<Longrightarrow> step_inv (isched s')"
proof (induction rule: sys_step.induct)
  case (framework s g)
  then show ?case using gdf_preserves by simp
next
  case (call s box_at port_in kernel_stack regs fa hw s' r)
  then show ?case unfolding syscall_def by (elim bind_SomeE) (rule handler_inv)
next
  case (trap s frame e s' r)
  then show ?case using ok_dispatcher [of s frame e] by simp
qed

interpretation sys_inv: step_invariant sys_step "\<lambda>s. step_inv (isched s)"
  by unfold_locales (rule sys_preserves)

end
