(* ===== verification/Sched_Theorems.thy ===== *)
theory Sched_Theorems
  imports Kernel Virt_Theorems
begin

text \<open>
  The properties of the scheduler: its choices against the reference definition of a least key, progress
  of the dispatcher, starvation behind a gang that sleeps, and the round trip of a context. The
  state \<open>demo_sched\<close> has two CPUs with idle vCPUs 0 and 1, vCPU 2 in gang 1 and vCPU 3 in gang 2.
\<close>

declare upt_rec_numeral [simp del]

section \<open>A concrete state\<close>

definition demo_cpu :: "u32 \<Rightarrow> nat \<Rightarrow> nat \<Rightarrow> per_cpu" where
  "demo_cpu a cur idle = per_cpu_new\<lparr> apic_id := a, online := True, cur_vcpu := cur, idle_vcpu_id := idle \<rparr>"

definition demo_cpus :: "nat \<Rightarrow> nat \<Rightarrow> cpu_table" where
  "demo_cpus v w = \<lparr> percpu = [demo_cpu 0 v 0, demo_cpu 1 w 1, per_cpu_new, per_cpu_new],
     apic_to_slot = (\<lambda>a. if a = 0 then 0 else if a = 1 then 1 else 0xFF) \<rparr>"

definition demo_gang :: "nat \<Rightarrow> nat \<Rightarrow> u64 \<Rightarrow> nat \<Rightarrow> gang" where
  "demo_gang i vid vr n = (driver_gang i vid)\<lparr> gvruntime := vr, running_count := n \<rparr>"

definition demo_vcpu :: "nat \<Rightarrow> nat \<Rightarrow> vcpu_state \<Rightarrow> vcpu" where
  "demo_vcpu i g st = (new_vcpu g 0x200000 (- 1) Normal i)\<lparr> vstate := st, frame_magic := FRAME_MAGIC,
     saved_frame := user_frame 0x400000 0 0x7000 \<rparr>"

definition demo_sched :: "nat \<Rightarrow> nat \<Rightarrow> vcpu_state \<Rightarrow> vcpu_state \<Rightarrow> nat \<Rightarrow> sched" where
  "demo_sched v w st2 st3 n = \<lparr>
     sk = \<lparr> kvma = \<lparr> svm = demo_vm\<lparr> cpus := demo_cpus v w \<rparr>, rnode = (\<lambda>_. None), boxes = (\<lambda>_. None),
                     kernel_root = 0, kernel_vma_initialized = True \<rparr>,
            procs = (\<lambda>_. None),
            vcpus = [Some (new_vcpu 0 0x200000 1 IdleType 0), Some (new_vcpu 0 0x200000 2 IdleType 1),
                     Some (demo_vcpu 2 1 st2), Some (demo_vcpu 3 2 st3)] @ replicate 124 None,
            vcpu_total = 4, vcpu_ready = True \<rparr>,
     gangs = [None, Some (demo_gang 1 2 0 n), Some (demo_gang 2 3 20 n)] @ replicate 29 None,
     gang_count = 3, gang_ready = True, rsp0 = [0, 0, 0, 0], ipis = [] \<rparr>"

lemma demo_scpus [simp]: "scpus (demo_sched v w a b n) = demo_cpus v w"
  by (simp add: demo_sched_def scpus_def kvm_def)

lemma demo_svcpu [simp]:
  "svcpu (demo_sched v w a b n) 2 = Some (demo_vcpu 2 1 a)" "svcpu (demo_sched v w a b n) 3 = Some (demo_vcpu 3 2 b)"
  by (simp_all add: demo_sched_def svcpu_def vcpu_get_def MAX_VCPUS_def nth_append numeral_eq_Suc)

lemma demo_sruns [simp]: "sruns (demo_sched v w a b n) = [(v, 0), (w, 1), (0, U32_MAX), (0, U32_MAX)]"
  by (simp add: sruns_def runs_def demo_cpus_def demo_cpu_def per_cpu_new_def)

lemma demo_gangs [simp]:
  "gangs (demo_sched v w a b n) ! 1 = Some (demo_gang 1 2 0 n)" "gangs (demo_sched v w a b n) ! Suc 0 = Some (demo_gang 1 2 0 n)"
  "gangs (demo_sched v w a b n) ! 2 = Some (demo_gang 2 3 20 n)" "gang_count (demo_sched v w a b n) = 3"
  by (simp_all add: demo_sched_def)

lemma demo_gang_set: "set (gangs (demo_sched v w a b n)) = {None, Some (demo_gang 1 2 0 n), Some (demo_gang 2 3 20 n)}"
  by (auto simp: demo_sched_def)

lemma demo_gang_ids [simp]: "vcpu_ids (demo_gang i vid vr n) = Some vid # replicate 7 None"
  by (simp add: demo_gang_def driver_gang_def MAX_VCPUS_PER_GANG_def)

lemma demo_gang_size: "gang_vcpus (demo_gang i vid vr n) = 1"
  by (simp add: demo_gang_def driver_gang_def)

lemma demo_listed: "listed (demo_sched v w a b n) = {2, 3}"
proof -
  have "listed (demo_sched v w a b n) = {vid. Some vid \<in> set (vcpu_ids (demo_gang 1 2 0 n))} \<union> {vid. Some vid \<in> set (vcpu_ids (demo_gang 2 3 20 n))}"
    unfolding listed_def demo_gang_set by blast
  then show ?thesis by auto
qed

lemma demo_sched_inv: "step_inv (demo_sched 2 3 Running Running n)"
proof -
  let ?s = "demo_sched 2 3 Running Running n"
  have len: "length (vcpus (sk ?s)) = MAX_VCPUS" by (simp add: demo_sched_def MAX_VCPUS_def)
  have v: "vst ?s 2 = Some Running" "vst ?s 3 = Some Running" by (simp_all add: vst_def demo_vcpu_def)
  have b: "running_on ?s 0 = 2" "running_on ?s (Suc 0) = 3" "\<not> busy ?s 2" "\<not> busy ?s 3"
    by (simp_all add: running_on_def busy_def U32_MAX_def)
  have c: "c < 4 \<longleftrightarrow> c = 0 \<or> c = Suc 0 \<or> c = 2 \<or> c = 3" for c :: nat by auto
  have "run_inv ?s" unfolding inv_but_def MAX_CPUS_def c demo_listed
    using len v b by (auto simp: U32_MAX_def)
  moreover have "gangs_wf ?s"
    unfolding gangs_wf_def demo_gang_set by (auto simp: demo_sched_def MAX_GANGS_def MAX_VCPUS_PER_GANG_def)
  ultimately show ?thesis by (simp add: step_inv_def)
qed

text \<open>The same with vCPU 2 ready and the first CPU idle.\<close>

lemma demo_idle_inv: "step_inv (demo_sched 0 3 Ready Running n)"
proof -
  let ?s = "demo_sched 0 3 Ready Running n"
  have len: "length (vcpus (sk ?s)) = MAX_VCPUS" by (simp add: demo_sched_def MAX_VCPUS_def)
  have v: "vst ?s 2 = Some Ready" "vst ?s 3 = Some Running" by (simp_all add: vst_def demo_vcpu_def)
  have b: "running_on ?s (Suc 0) = 3" "\<not> busy ?s 0" "\<not> busy ?s 2" "\<not> busy ?s 3"
    by (simp_all add: running_on_def busy_def U32_MAX_def)
  have c: "c < 4 \<longleftrightarrow> c = 0 \<or> c = Suc 0 \<or> c = 2 \<or> c = 3" for c :: nat by auto
  have "run_inv ?s" unfolding inv_but_def MAX_CPUS_def c demo_listed
    using len v b by (auto simp: U32_MAX_def)
  moreover have "gangs_wf ?s"
    unfolding gangs_wf_def demo_gang_set by (auto simp: demo_sched_def MAX_GANGS_def MAX_VCPUS_PER_GANG_def)
  ultimately show ?thesis by (simp add: step_inv_def)
qed

section \<open>Choices\<close>

text \<open>C6. The one-pass searches of the scheduler are the reference definition of a first element of least
  key: \<^verbatim>\<open>schedule_inner\<close> takes the first active gang of least virtual runtime among those with more vCPUs
  than it has running, and in it the first ready vCPU of least virtual runtime. A vCPU that is picked is
  a ready member of the gang and no ready member has run less; nothing is picked exactly when no member
  is ready with a runtime below the maximum.\<close>

theorem scheduler_choices:
  "best_gang s = least_key (gang_key (gangs s)) (- 1) [1..<gang_count s]
   \<and> pick_vcpu s g = join (least_key (vcpu_key s) (- 1) (vcpu_ids g))
   \<and> (case pick_vcpu s g of
        None \<Rightarrow> key_le (vcpu_key s) (- 1) (vcpu_ids g)
      | Some vid \<Rightarrow> Some vid \<in> set (vcpu_ids g)
          \<and> (case svcpu s vid of None \<Rightarrow> False
             | Some v \<Rightarrow> vstate v = Ready \<and> key_le (vcpu_key s) (vruntime v) (vcpu_ids g)))"
proof -
  have some: "x \<noteq> None" if "least_key (vcpu_key s) (- 1) (vcpu_ids g) = Some x" for x
    using least_key_Some [OF that] by (cases x) (auto simp: vcpu_key_simps)
  show ?thesis
  proof (cases "least_key (vcpu_key s) (- 1) (vcpu_ids g)")
    case None
    then show ?thesis using least_key_None [of "vcpu_key s" "- 1" "vcpu_ids g"]
      by (simp add: best_gang_least pick_vcpu_least join_def)
  next
    case (Some x)
    then obtain vid where x: "x = Some vid" using some by auto
    show ?thesis using least_key_Some [OF Some] Some x
      by (auto simp: best_gang_least pick_vcpu_least join_def vcpu_key_def split: option.splits if_splits)
  qed
qed

section \<open>Progress\<close>

text \<open>What keeps the counters of a step that takes \<open>n\<close> more vCPUs of gang \<open>i\<close> from overflowing.\<close>

definition room :: "nat \<Rightarrow> sched \<Rightarrow> nat \<Rightarrow> nat \<Rightarrow> bool" where
  "room n s cpu i \<longleftrightarrow> i < length (gangs s) \<and> cpu mod MAX_CPUS < length (percpu (scpus s))
     \<and> (case gangs s ! i of None \<Rightarrow> False | Some g \<Rightarrow> running_count g + n < 2 ^ 32)
     \<and> unat (rq_dropped (rq (scpus s) cpu)) + n < 2 ^ 64"

lemma rq_push_total:
  assumes "unat (rq_dropped q) + 1 < 2 ^ 64"
  shows "\<exists>q' b. rq_push q v = Some (q', b) \<and> unat (rq_dropped q') \<le> unat (rq_dropped q) + 1"
proof -
  have "checked_add (rq_dropped q) 1 = Some (rq_dropped q + 1)"
    using assms by (simp add: checked_add_def)
  moreover have "unat (rq_dropped q + 1) = unat (rq_dropped q) + 1"
    using assms by (simp add: unat_word_ariths)
  ultimately show ?thesis by (auto simp: rq_push_def Let_def)
qed

lemma room_step:
  assumes "room (Suc n) s cpu i"
  shows "\<exists>s1 s2. inc_running s i = Some s1 \<and> rq_push_all s1 cpu [v] = Some s2 \<and> room n s2 cpu i"
proof -
  obtain g where g: "gangs s ! i = Some g" and r: "i < length (gangs s)" "cpu mod MAX_CPUS < length (percpu (scpus s))"
      "running_count g + Suc n < 2 ^ 32" "unat (rq_dropped (rq (scpus s) cpu)) + Suc n < 2 ^ 64"
    using assms by (auto simp: room_def split: option.splits)
  define s1 where "s1 = set_gang s i (Some (g\<lparr> running_count := running_count g + 1 \<rparr>))"
  have s1: "inc_running s i = Some s1" using r(3) by (simp add: inc_running_def g add32_def s1_def)
  obtain q b where q: "rq_push (rq (scpus s) cpu) v = Some (q, b)"
      and d: "unat (rq_dropped q) \<le> unat (rq_dropped (rq (scpus s) cpu)) + 1"
    using rq_push_total [of "rq (scpus s) cpu" v] r(4) by auto
  have sc: "scpus s1 = scpus s" by (simp add: s1_def)
  have "rq_push_all s1 cpu [v] = Some (set_cpus s1 (set_cpu (scpus s1) (cpu mod MAX_CPUS) (run_queue_update (\<lambda>_. q))))"
    by (simp add: sc q)
  moreover have "room n (set_cpus s1 (set_cpu (scpus s1) (cpu mod MAX_CPUS) (run_queue_update (\<lambda>_. q)))) cpu i"
    using r d by (simp add: room_def s1_def rq_def set_cpu_def)
  ultimately show ?thesis using s1 by blast
qed

lemma room_less: "room (Suc n) s cpu i \<Longrightarrow> room n s cpu i"
  by (auto simp: room_def split: option.splits)

lemma push_extra_total: "room n s cpu i \<Longrightarrow> \<exists>s'. push_extra n s cpu i = Some s'"
proof (induction n arbitrary: s)
  case (Suc n)
  obtain g where g: "gangs s ! i = Some g" using Suc.prems by (auto simp: room_def split: option.splits)
  show ?case
  proof (cases "pick_vcpu s g")
    case None
    then show ?thesis using Suc.IH [OF room_less [OF Suc.prems]] g by simp
  next
    case (Some vid)
    obtain s1 s2 where "inc_running s i = Some s1" "rq_push_all s1 cpu [vid] = Some s2" "room n s2 cpu i"
      using room_step [OF Suc.prems] by blast
    then show ?thesis using Suc.IH [of s2] g Some by (simp del: rq_push_all.simps)
  qed
qed simp

lemma emulate_total:
  assumes g: "gangs s ! i = Some g" "i < length (gangs s)" and c: "cpu mod MAX_CPUS < length (percpu (scpus s))"
    and d: "0 < gang_demand g" "gang_vcpus g < 2 ^ 31" "unat (rq_dropped (rq (scpus s) cpu)) < 2 ^ 63"
  shows "\<exists>s1 s2. inc_running s i = Some s1 \<and> emulate s1 cpu i n = Some s2 \<and> quiet s s2"
proof -
  let ?g = "g\<lparr> running_count := running_count g + 1 \<rparr>"
  define s1 where "s1 = set_gang s i (Some ?g)"
  have s1: "inc_running s i = Some s1" using d by (simp add: inc_running_def g add32_def s1_def gang_demand_def)
  have g1: "gangs s1 ! i = Some ?g" using g by (simp add: s1_def)
  have "room (min (n - 1) (gang_demand ?g)) s1 cpu i"
    using g c d min.cobounded2 [of "n - 1" "gang_demand ?g"] unfolding room_def s1_def
    by (simp add: gang_demand_def del: min.cobounded2) linarith
  then obtain s2 where "push_extra (min (n - 1) (gang_demand ?g)) s1 cpu i = Some s2" using push_extra_total by blast
  then have "\<exists>s2. emulate s1 cpu i n = Some s2" by (simp add: emulate_def g1)
  then show ?thesis using s1 quiet_trans [OF quiet_inc [OF s1] quiet_emulate] by blast
qed

lemma per_core_total:
  assumes "gang_vcpus g < 2 ^ 31"
  shows "\<exists>p. per_core_share (count_free_cores s) (gang_demand g) = Some p"
proof -
  have "count_free_cores s \<le> length [0..<MAX_CPUS]" unfolding count_free_cores_def by (rule length_filter_le)
  then show ?thesis using assms by (simp add: per_core_share_def add32_def gang_demand_def MAX_CPUS_def)
qed

definition runnable :: "vcpu \<Rightarrow> bool" where
  "runnable v \<longleftrightarrow> vcpu_type v \<noteq> IdleType \<and> frame_magic v = FRAME_MAGIC \<and> frame_ok (saved_frame v) \<and> vpml4 v < MAX_PML4_PHYS"

lemma svcpu_same: "vcpus (sk s') = vcpus (sk s) \<Longrightarrow> svcpu s' = svcpu s"
  by (simp add: svcpu_def vcpu_get_def fun_eq_iff)

lemma load_next_runs:
  assumes v: "svcpu s vid = Some v" "runnable v" and len: "length (vcpus (sk s)) = MAX_VCPUS" "cpu mod MAX_CPUS < length (percpu (scpus s))"
  shows "switched (load_next s cpu vid frame fpu) \<and> oframe (load_next s cpu vid frame fpu) = fix_ss (saved_frame v)
    \<and> ofpu (load_next s cpu vid frame fpu) = vfpu v \<and> current_vcpu (scpus (os (load_next s cpu vid frame fpu))) cpu = vid
    \<and> vst (os (load_next s cpu vid frame fpu)) vid = Some Running"
proof -
  let ?s1 = "with_mut s vid (\<lambda>v. v\<lparr> vstate := Running, frame_magic := 0 \<rparr>)"
  have r: "vst (set_stack_top (set_cpus ?s1 c) cpu t) vid = Some Running" for c t
  proof -
    have "svcpu (set_stack_top (set_cpus ?s1 c) cpu t) = svcpu ?s1" by (rule svcpu_same) (simp add: set_stack_top_def)
    then have "vst (set_stack_top (set_cpus ?s1 c) cpu t) vid = vst ?s1 vid" by (simp add: vst_def)
    then show ?thesis using vst_with_mut [OF len(1)] v(1) by simp
  qed
  have c: "current_vcpu (scpus (set_stack_top (set_cpus ?s1 (set_current_vcpu (scpus ?s1) cpu vid)) cpu t)) cpu = vid" for t
    using len(2) by (simp add: set_stack_top_def current_vcpu_def set_current_vcpu_def set_cpu_def scpus_rsp0)
  have "\<not> MAX_PML4_PHYS \<le> vpml4 v" using v(2) by (simp add: runnable_def linorder_not_le)
  then show ?thesis using v r c by (simp add: load_next_def Let_def runnable_def)
qed

lemma load_next_sruns:
  assumes "svcpu s vid = Some v" "runnable v"
  shows "sruns (os (load_next s cpu vid frame fpu)) = (sruns s)[cpu mod MAX_CPUS := (vid, snd (sruns s ! (cpu mod MAX_CPUS)))]"
proof -
  have "\<not> MAX_PML4_PHYS \<le> vpml4 v" using assms(2) by (simp add: runnable_def linorder_not_le)
  then show ?thesis
    using assms by (simp add: load_next_def Let_def runnable_def sruns_def scpus_set_stack_top runs_set_current)
qed

lemma dispatch_loads:
  assumes b: "best_gang s = Some i" and g: "gangs s ! i = Some g" and p: "pick_vcpu s g = Some vid"
    and wf: "gangs_wf s" "length (percpu (scpus s)) = MAX_CPUS"
    and lim: "gang_vcpus g < 2 ^ 31" "unat (rq_dropped (rq (scpus s) cpu)) < 2 ^ 63"
  shows "\<exists>s2. dispatch s cpu frame fpu = Some (load_next s2 cpu vid frame fpu) \<and> quiet s s2"
proof -
  have i: "0 < gang_demand g" "i < length (gangs s)" using best_gang_Some [OF b] g wf(1) by (auto simp: gangs_wf_def)
  have c: "cpu mod MAX_CPUS < length (percpu (scpus s))" using wf(2) mod_cpus [of cpu] by simp
  obtain pc where pc: "per_core_share (count_free_cores s) (gang_demand g) = Some pc" using per_core_total [OF lim(1)] by blast
  obtain s1 s2 where s: "inc_running s i = Some s1" "emulate s1 cpu i pc = Some s2" "quiet s s2"
    using emulate_total [OF g i(2) c i(1) lim] by blast
  then have "dispatch s cpu frame fpu = Some (load_next s2 cpu vid frame fpu)"
    by (simp add: dispatch_def b g p pc)
  then show ?thesis using s(3) by blast
qed

text \<open>C21. Progress of the dispatcher: when the gang of least virtual runtime has a ready vCPU and the one picked
  has a valid saved frame and page table, the scheduling step does not abort and ends with this vCPU
  running on the CPU, its frame and FPU state loaded. The counters are assumed not to be at their
  limits.\<close>

theorem dispatch_progress:
  assumes b: "best_gang s = Some i" and g: "gangs s ! i = Some g" and p: "pick_vcpu s g = Some vid"
    and v: "svcpu s vid = Some v" "runnable v"
    and wf: "gangs_wf s" "length (vcpus (sk s)) = MAX_VCPUS" "length (percpu (scpus s)) = MAX_CPUS"
    and lim: "gang_vcpus g < 2 ^ 31" "unat (rq_dropped (rq (scpus s) cpu)) < 2 ^ 63"
  shows "\<exists>r. dispatch s cpu frame fpu = Some r \<and> switched r \<and> oframe r = fix_ss (saved_frame v) \<and> ofpu r = vfpu v
    \<and> current_vcpu (scpus (os r)) cpu = vid \<and> vst (os r) vid = Some Running"
proof -
  obtain s2 where s: "dispatch s cpu frame fpu = Some (load_next s2 cpu vid frame fpu)" "quiet s s2"
    using dispatch_loads [OF b g p wf(1,3) lim] by blast
  have v2: "svcpu s2 vid = Some v" and l2: "length (vcpus (sk s2)) = MAX_VCPUS"
    using s(2) v wf(2) svcpu_same [of s2 s] by (simp_all add: quiet_def)
  have "length (runs (scpus s2)) = length (runs (scpus s))" using s(2) by (simp add: quiet_def sruns_def)
  then have c2: "cpu mod MAX_CPUS < length (percpu (scpus s2))" using wf(3) mod_cpus [of cpu] by (simp add: runs_def)
  then show ?thesis using s(1) load_next_runs [OF v2 v(2) l2 c2] by simp
qed

lemma pick_from_empty [simp]: "pick_from s (replicate n None) acc = acc"
  by (cases acc, induction n) simp_all

lemma demo_choice:
  assumes "n = 0"
  shows "best_gang (demo_sched v w a b n) = Some 1"
    "pick_vcpu (demo_sched v w a b n) (demo_gang (Suc 0) 2 0 n) = (if a = Ready then Some 2 else None)"
proof -
  have "[Suc 0..<3] = [1, 2]" by (simp add: upt_rec_numeral upt_conv_Cons)
  then show "best_gang (demo_sched v w a b n) = Some 1"
    using assms by (simp add: best_gang_def demo_gang_def driver_gang_def gang_demand_def word_gt_0)
  show "pick_vcpu (demo_sched v w a b n) (demo_gang (Suc 0) 2 0 n) = (if a = Ready then Some 2 else None)"
    by (simp add: pick_vcpu_def demo_vcpu_def new_vcpu_def word_gt_0)
qed

lemma demo_wf:
  "gangs_wf (demo_sched v w a b n)" "length (vcpus (sk (demo_sched v w a b n))) = MAX_VCPUS"
  "length (percpu (demo_cpus v w)) = MAX_CPUS"
  unfolding gangs_wf_def demo_gang_set
  by (auto simp: demo_sched_def MAX_VCPUS_def MAX_GANGS_def MAX_VCPUS_PER_GANG_def demo_cpus_def MAX_CPUS_def)

lemma demo_runnable: "runnable (demo_vcpu i g st)"
  by (simp add: runnable_def demo_vcpu_def new_vcpu_def frame_ok_def user_frame_def zero_frame_def rip_canonical_def
      MAX_PML4_PHYS_def)

theorem dispatch_progress_witness:
  "\<exists>r. dispatch (demo_sched 0 1 Ready Ready 0) 0 zero_frame [] = Some r \<and> switched r
     \<and> oframe r = fix_ss (saved_frame (demo_vcpu 2 1 Ready)) \<and> ofpu r = vfpu (demo_vcpu 2 1 Ready)
     \<and> current_vcpu (scpus (os r)) 0 = 2 \<and> vst (os r) 2 = Some Running"
  by (rule dispatch_progress [of _ 1 "demo_gang 1 2 0 0" 2 "demo_vcpu 2 1 Ready"])
    (simp_all add: demo_choice demo_runnable demo_wf,
     simp_all add: demo_gang_def driver_gang_def demo_cpus_def demo_cpu_def rq_def per_cpu_new_def rq_empty_def)

section \<open>Starvation\<close>

text \<open>Nothing for the clean-up at the start of a scheduling step to do.\<close>

definition none_ended :: "sched \<Rightarrow> gang \<Rightarrow> nat list \<Rightarrow> bool" where
  "none_ended s g ks \<longleftrightarrow>
     list_all (\<lambda>k. case vcpu_ids g ! k of None \<Rightarrow> True | Some vid \<Rightarrow> \<not> fst (slot_terminated s vid)) ks"

definition tidy :: "sched \<Rightarrow> bool" where
  "tidy s \<longleftrightarrow> list_all (\<lambda>i. case gangs s ! i of None \<Rightarrow> True
     | Some g \<Rightarrow> list_ex (\<lambda>k. vcpu_ids g ! k \<noteq> None) [0..<MAX_VCPUS_PER_GANG]
         \<and> none_ended s g [0..<MAX_VCPUS_PER_GANG]) [1..<gang_count s]"

lemma clean_slots_tidy:
  assumes g: "gangs s ! i = Some g"
  shows "none_ended s g ks \<Longrightarrow> clean_slots s i ks b = Some (s, b \<and> \<not> list_ex (\<lambda>k. vcpu_ids g ! k \<noteq> None) ks)"
proof (induction ks arbitrary: b)
  case (Cons k ks)
  then have ks: "none_ended s g ks" by (simp add: none_ended_def)
  show ?case
  proof (cases "vcpu_ids g ! k")
    case None
    then show ?thesis using Cons.IH [OF ks] g by simp
  next
    case (Some vid)
    then obtain p where "slot_terminated s vid = (False, p)"
      using Cons.prems by (cases "slot_terminated s vid") (simp add: none_ended_def)
    then show ?thesis using Cons.IH [OF ks] g Some by simp
  qed
qed simp

lemma clean_gangs_tidy: "tidy s \<Longrightarrow> set is \<subseteq> set [1..<gang_count s] \<Longrightarrow> clean_gangs s is = Some s"
proof (induction "is")
  case (Cons i "is")
  show ?case
  proof (cases "gangs s ! i")
    case None
    have "clean_slots s i ks b = Some (s, b)" for ks b using None by (cases ks) simp_all
    moreover have "(gangs s)[i := None] = gangs s" using list_update_id [of "gangs s" i] None by simp
    then have "set_gang s i None = s" by (simp add: set_gang_def)
    ultimately show ?thesis using Cons by (simp del: upt_Suc)
  next
    case (Some g)
    then have "list_ex (\<lambda>k. vcpu_ids g ! k \<noteq> None) [0..<MAX_VCPUS_PER_GANG]" "none_ended s g [0..<MAX_VCPUS_PER_GANG]"
      using bspec [OF Cons.prems(1) [unfolded tidy_def list_all_iff], of i] Cons.prems(2) by simp_all
    then have "clean_slots s i [0..<MAX_VCPUS_PER_GANG] True = Some (s, False)"
      using clean_slots_tidy [OF Some, of "[0..<MAX_VCPUS_PER_GANG]" True] by simp
    then show ?thesis using Cons by simp
  qed
qed simp

text \<open>C39. A gang whose vCPUs all wait starves every other gang. Virtual runtime is charged to a gang only for
  vCPUs that run, and waiting vCPUs count as demand, so a sleeping gang of least runtime stays the chosen
  one. The scheduling step then finds no ready vCPU in it and leaves the CPU idle without looking at
  another gang: on an idle CPU it returns the state, the frame and the FPU buffer unchanged, however
  many vCPUs of other gangs are ready. The same happens at every later tick.\<close>

theorem sleeping_gang_starves:
  assumes "best_gang s = Some i" "gangs s ! i = Some g" "pick_vcpu s g = None" "gang_vcpus g < 2 ^ 31"
    and "tidy s" "current_vcpu (scpus s) cpu = idle_vcpu (scpus s) cpu" "idle_vcpu (scpus s) cpu < 2 ^ 32"
  shows "schedule_inner s cpu frame fa fx fpu = Some \<lparr> os = s, oframe = frame, ofpu = fpu, switched = False, next_pml4 = 0 \<rparr>"
proof -
  obtain pc where pc: "per_core_share (count_free_cores s) (gang_demand g) = Some pc" using per_core_total [OF assms(4)] by blast
  have gc: "\<not> gang_count s < 1" using best_gang_Some [OF assms(1)] by auto
  have c: "clean_gangs s [1..<gang_count s] = Some s" by (rule clean_gangs_tidy [OF assms(5)]) simp
  have "set_current_vcpu (scpus s) cpu (current_vcpu (scpus s) cpu) = scpus s"
    by (simp add: set_current_vcpu_def set_cpu_def current_vcpu_def)
  then have "set_current_vcpu (scpus s) cpu (idle_vcpu (scpus s) cpu) = scpus s" using assms(6) by simp
  then have "go_idle s cpu frame fpu = \<lparr> os = s, oframe = frame, ofpu = fpu, switched = False, next_pml4 = 0 \<rparr>"
    by (simp add: go_idle_def)
  then have "dispatch s cpu frame fpu = Some \<lparr> os = s, oframe = frame, ofpu = fpu, switched = False, next_pml4 = 0 \<rparr>"
    by (simp add: dispatch_def assms pc)
  then show ?thesis unfolding schedule_inner_def using gc c assms(6,7) by simp
qed

lemma demo_tidy: assumes "a \<noteq> Terminated" "b \<noteq> Terminated" shows "tidy (demo_sched v w a b n)"
proof -
  have u: "[Suc 0..<3] = [Suc 0, 2]" "[0..<8] = [0, 1, 2, 3, 4, 5, 6, 7]" by (simp_all add: upt_rec_numeral upt_conv_Cons)
  have t: "slot_terminated (demo_sched v w a b n) 2 = (False, 0x200000)"
    "slot_terminated (demo_sched v w a b n) 3 = (False, 0x200000)"
    using assms by (simp_all add: slot_terminated_def demo_vcpu_def new_vcpu_def)
  have k: "vcpu_ids (demo_gang i vid vr n) ! k = (if k = 0 then Some vid else None)" if "k < 8" for i vid vr n k
    using that by (simp add: nth_Cons')
  show ?thesis by (simp add: tidy_def none_ended_def MAX_VCPUS_PER_GANG_def u t k del: demo_gang_ids)
qed

theorem sleeping_gang_starves_witness:
  "vst (demo_sched 0 1 Halted Ready 0) 3 = Some Ready
   \<and> schedule_inner (demo_sched 0 1 Halted Ready 0) 0 zero_frame 0 [] [] =
       Some \<lparr> os = demo_sched 0 1 Halted Ready 0, oframe = zero_frame, ofpu = [], switched = False, next_pml4 = 0 \<rparr>"
proof
  show "vst (demo_sched 0 1 Halted Ready 0) 3 = Some Ready" by (simp add: vst_def demo_vcpu_def)
  show "schedule_inner (demo_sched 0 1 Halted Ready 0) 0 zero_frame 0 [] [] =
       Some \<lparr> os = demo_sched 0 1 Halted Ready 0, oframe = zero_frame, ofpu = [], switched = False, next_pml4 = 0 \<rparr>"
    by (rule sleeping_gang_starves [of _ 1 "demo_gang 1 2 0 0"])
      (simp_all add: demo_choice demo_tidy demo_gang_size,
       simp_all add: current_vcpu_def idle_vcpu_def demo_cpus_def demo_cpu_def)
qed

section \<open>Contexts\<close>

text \<open>C20. A context survives being switched out. Take a vCPU of a gang that is not halted and not an idle one, with a
  page table below the limit, whose frame as \<^verbatim>\<open>save_frame\<close> stores it (for a kernel frame the stack
  pointer is the one above the trap frame) passes the checks of a frame and needs no repair of its
  stack segment. When the step saves it and then loads it again from the state it left, the step
  switches to it with exactly that frame, and with the FPU image that \<^verbatim>\<open>fxsave\<close> stored when it was
  saved. Both callers, the timer handler and \<^verbatim>\<open>block_current\<close>, run \<^verbatim>\<open>fninit\<close> first, so the interrupted
  x87 control state is not part of that image. The vCPU is ready in between.\<close>

theorem context_roundtrip:
  assumes v: "svcpu s cur = Some v" "vstate v \<noteq> Halted" "vcpu_type v \<noteq> IdleType" "vpml4 v < MAX_PML4_PHYS"
    and g: "0 < gang_id v" "gang_id v < MAX_GANGS" "gangs s ! gang_id v = Some g"
    and f: "frame_ok saved" "save_frame frame fa = Some saved" "fix_ss saved = saved"
    and wf: "length (vcpus (sk s)) = MAX_VCPUS" "length (percpu (scpus s)) = MAX_CPUS"
  shows "\<exists>s'. save_current s cur frame fa fx = Some s' \<and> vst s' cur = Some Ready
    \<and> (let r = load_next s' cpu cur old_frame old_fpu
       in switched r \<and> oframe r = saved \<and> ofpu r = fx \<and> current_vcpu (scpus (os r)) cpu = cur \<and> vst (os r) cur = Some Running)"
proof -
  let ?h = "\<lambda>v. v\<lparr> saved_frame := saved, frame_magic := FRAME_MAGIC, vfpu := fx \<rparr>"
  let ?k = "\<lambda>v. v\<lparr> vruntime := saturating_add (vruntime v) VRUNTIME_TICK, vstate := Ready \<rparr>"
  define s' where "s' = set_gang (with_mut (with_mut s cur ?h) cur ?k) (gang_id v) (Some (charge_gang g))"
  have s': "save_current s cur frame fa fx = Some s'"
    by (simp add: save_current_def v g f(2) s'_def Let_def)
  have l: "length (vcpus (sk (with_mut s cur ?h))) = MAX_VCPUS" "length (vcpus (sk s')) = MAX_VCPUS"
    using wf(1) by (simp_all add: s'_def)
  have sv: "svcpu s' cur = Some (?k (?h v))"
    using v(1) by (simp add: s'_def svcpu_with_mut [OF l(1)] svcpu_with_mut [OF wf(1)])
  have run: "runnable (?k (?h v))" using v f(1) by (simp add: runnable_def)
  have c: "cpu mod MAX_CPUS < length (percpu (scpus s'))" using wf(2) mod_cpus [of cpu] by (simp add: s'_def)
  have "vst s' cur = Some Ready" by (simp add: vst_def sv)
  then show ?thesis using s' load_next_runs [OF sv run l(2) c] f(3) by (simp add: Let_def)
qed

theorem context_roundtrip_witness:
  "\<exists>s'. save_current (demo_sched 2 3 Running Running 1) 2 (user_frame 0x400040 7 0x6000) 0 [1] = Some s' \<and> vst s' 2 = Some Ready
    \<and> (let r = load_next s' 1 2 zero_frame []
       in switched r \<and> oframe r = user_frame 0x400040 7 0x6000 \<and> ofpu r = [1] \<and> current_vcpu (scpus (os r)) 1 = 2
         \<and> vst (os r) 2 = Some Running)"
  by (rule context_roundtrip [of _ _ "demo_vcpu 2 1 Running" "demo_gang 1 2 0 1"])
    (simp_all add: demo_wf, simp_all add: demo_vcpu_def new_vcpu_def MAX_PML4_PHYS_def MAX_GANGS_def user_frame_def zero_frame_def
      frame_ok_def save_frame_def fix_ss_def Let_def rip_canonical_def)

section \<open>A dispatch on two CPUs\<close>

text \<open>A timer tick on the idle first CPU while the second runs vCPU 3: the step puts vCPU 2 on the first CPU.\<close>

lemma demo_tick:
  "\<exists>r. schedule (demo_sched 0 3 Ready Running 0) zero_frame 0 [] [] = Some r \<and> switched r
     \<and> sruns (os r) = [(2, 0), (3, 1), (0, U32_MAX), (0, U32_MAX)]"
proof -
  let ?s = "demo_sched 0 3 Ready Running 0"
  obtain s2 where d: "dispatch ?s 0 zero_frame [] = Some (load_next s2 0 2 zero_frame [])" "quiet ?s s2"
    using dispatch_loads [of ?s 1 "demo_gang 1 2 0 0" 2 0] demo_choice [of 0 0 3 Ready Running]
    by (auto simp: demo_wf demo_gang_size rq_def demo_cpus_def demo_cpu_def per_cpu_new_def rq_empty_def MAX_CPUS_def)
  have v: "svcpu s2 2 = Some (demo_vcpu 2 1 Ready)" using d(2) svcpu_same [of s2 ?s] by (simp add: quiet_def)
  have l: "length (vcpus (sk s2)) = MAX_VCPUS" "0 mod MAX_CPUS < length (percpu (scpus s2))"
  proof -
    have "length (runs (scpus s2)) = length (runs (scpus ?s))" using d(2) by (simp add: quiet_def sruns_def)
    then show "0 mod MAX_CPUS < length (percpu (scpus s2))" using demo_wf by (simp add: runs_def MAX_CPUS_def)
    show "length (vcpus (sk s2)) = MAX_VCPUS" using d(2) demo_wf by (simp add: quiet_def)
  qed
  have "clean_gangs ?s [1..<gang_count ?s] = Some ?s" by (rule clean_gangs_tidy [OF demo_tidy]) simp_all
  then have "schedule_inner ?s 0 zero_frame 0 [] [] = Some (load_next s2 0 2 zero_frame [])"
    using d(1) by (simp add: schedule_inner_def current_vcpu_def idle_vcpu_def demo_cpus_def demo_cpu_def Let_def)
  moreover have "registered ?s" "my_slot ?s = 0"
    by (simp_all add: registered_def my_slot_def) (simp_all add: demo_sched_def kvm_def demo_vm_def demo_cpus_def)
  then have "current_cpu_slot ?s = Some (?s, 0)" using registered_slot [of ?s] by simp
  moreover have "sruns s2 = sruns ?s" using d(2) by (simp add: quiet_def)
  then have "sruns (os (load_next s2 0 2 zero_frame [])) = [(2, 0), (3, 1), (0, U32_MAX), (0, U32_MAX)]"
    by (simp add: load_next_sruns [OF v demo_runnable])
  ultimately show ?thesis using load_next_runs [OF v demo_runnable l] by (simp add: schedule_def)
qed

end
