(* ===== verification/System_Theorems.thy ===== *)
theory System_Theorems
  imports Sched_Theorems
begin


section \<open>Mutual exclusion\<close>

definition demo_idt :: "sched \<Rightarrow> idt" where
  "demo_idt s = \<lparr> ig = \<lparr> gs = s, services = service_boot, drivers = [], driver_count = 0, crash_counters = [],
       deferred = [], pkg_meta = [], gbox = 0 \<rparr>,
     itab = \<lparr> io_regs = (\<lambda>_ _. 0), ioapics = [], io_ready = False, next_vector = 0x30, vector_exhausted = False,
       routes = [], routes_ready = False, irq_cpu_next = 0, runtime_irqs = [] \<rparr>,
     tick_count = 0, pit_count = 0, irq_counts = replicate 256 0, ipi_pending = False, eois = 0,
     lapic_ready = False, port_writes = [], breakpoints = [], step_vcpu = - 1, bp_hit = None \<rparr>"

lemma demo_isched: "isched (demo_idt s) = s"
  by (simp add: demo_idt_def isched_def)

text \<open>A kernel that has not created a vCPU yet satisfies the invariant.\<close>

lemma boot_inv:
  assumes "vcpus (sk s) = replicate MAX_VCPUS None" "gangs s = replicate MAX_GANGS None" "gang_count s = 0"
    "scpus s = cpu_boot"
  shows "step_inv s"
proof -
  have r: "sruns s = replicate MAX_CPUS (0, U32_MAX)" using assms(4) by (simp add: sruns_def runs_def cpu_boot_def per_cpu_new_def)
  have l: "listed s = {}" using assms(2) by (simp add: listed_def MAX_GANGS_def)
  have b: "\<not> busy s c" if "c < MAX_CPUS" for c using r that by (simp add: busy_def)
  have "run_inv s" using assms(1) r l b by (simp add: inv_but_def U32_MAX_def)
  then show ?thesis using assms(2,3) b by (simp add: step_inv_def gangs_wf_def MAX_GANGS_def)
qed

text \<open>C1. No vCPU is recorded as the current one of two CPUs. Take any sequence of steps of any CPUs: scheduler and
  framework operations, and system calls, interrupts and exceptions taken on a CPU that is registered
  and has its idle vCPU, where a debug exception, a breakpoint or a driver's fault is taken only on a
  CPU whose current vCPU is not its idle one. In every state reached so from a state that satisfies
  the scheduler's invariant (such as the one at boot), two CPUs whose records in the per-CPU table name
  vCPUs other than their idle ones name different vCPUs, and these are in state \<^verbatim>\<open>Running\<close>. The
  statement is about the records: after a step that does not switch, a CPU returns to the interrupted
  frame although its record names the idle vCPU.\<close>

theorem vcpu_on_one_cpu:
  assumes "sys_step\<^sup>*\<^sup>* s s'" "step_inv (isched s)" "c < MAX_CPUS" "d < MAX_CPUS" "c \<noteq> d"
    "busy (isched s') c" "busy (isched s') d"
  shows "running_on (isched s') c \<noteq> running_on (isched s') d \<and> vst (isched s') (running_on (isched s') c) = Some Running"
  using step_inv_exclusive [OF sys_inv.reach [OF assms(1,2)]] assms(3-7) by blast

text \<open>A timer tick that dispatches vCPU 2 on the first CPU while the second runs vCPU 3.\<close>

theorem vcpu_on_one_cpu_witness:
  "\<exists>r s'. schedule (demo_sched 0 3 Ready Running 0) zero_frame 0 [] [] = Some r \<and> switched r
     \<and> sys_step (demo_idt (demo_sched 0 3 Ready Running 0)) s' \<and> isched s' = os r
     \<and> running_on (isched s') 0 = 2 \<and> running_on (isched s') 1 = 3
     \<and> running_on (isched s') 0 \<noteq> running_on (isched s') 1 \<and> vst (isched s') (running_on (isched s') 0) = Some Running"
proof -
  let ?s = "demo_sched 0 3 Ready Running 0"
  let ?i = "demo_idt ?s"
  obtain r where r: "schedule ?s zero_frame 0 [] [] = Some r" "switched r"
      "sruns (os r) = [(2, 0), (3, 1), (0, U32_MAX), (0, U32_MAX)]"
    using demo_tick by blast
  let ?i' = "?i\<lparr> ig := (ig ?i)\<lparr> gs := os r \<rparr> \<rparr>"
  have "registered ?s" "my_slot ?s = 0"
    by (simp_all add: registered_def my_slot_def) (simp_all add: demo_sched_def kvm_def demo_vm_def demo_cpus_def)
  then have "current_cpu_slot ?s = Some (?s, 0)" using registered_slot [of ?s] by simp
  then have "sched_step ?s (os r)"
    by (rule sched_step.tick [OF _ _ r(1)]) (simp add: started_def U32_MAX_def MAX_CPUS_def)
  then have st: "sys_step ?i ?i'" by (intro sys_step.framework gdf_step.sched) (simp add: demo_isched)
  have b: "busy (isched ?i') 0" "busy (isched ?i') 1" "running_on (isched ?i') 0 = 2" "running_on (isched ?i') 1 = 3"
    using r(3) by (simp_all add: busy_def running_on_def U32_MAX_def)
  have "sys_step\<^sup>*\<^sup>* ?i ?i'" using st by (rule r_into_rtranclp)
  then have "running_on (isched ?i') 0 \<noteq> running_on (isched ?i') 1 \<and> vst (isched ?i') (running_on (isched ?i') 0) = Some Running"
    by (rule vcpu_on_one_cpu [OF _ _ _ _ _ b(1,2)]) (simp_all add: demo_isched demo_idle_inv MAX_CPUS_def)
  then show ?thesis using st r(1,2) b(3,4) by (intro exI [of _ r] exI [of _ ?i']) simp
qed

section \<open>System calls\<close>







definition demo_user_regs :: trap_frame where
  "demo_user_regs = (user_frame 0x400040 7 0x6000)\<lparr> rax := 2 \<rparr>"

lemma demo_good: "good (demo_sched 2 3 Running Running (Suc 0))" "my_slot (demo_sched 2 3 a b n) = 0"
proof -
  show m: "my_slot (demo_sched 2 3 a b n) = 0" for a b n
    by (simp add: my_slot_def) (simp add: demo_sched_def kvm_def demo_vm_def demo_cpus_def)
  show "good (demo_sched 2 3 Running Running (Suc 0))"
    unfolding good_def started_def m
    by (simp add: demo_sched_inv [simplified] registered_def U32_MAX_def) (simp add: demo_sched_def kvm_def demo_vm_def demo_cpus_def)
qed




text \<open>C37. The privilege a system call returns to depends on the caller's stack pointer, not on where it came from.
  With a stack pointer in the higher half, which user code can load, the call number the handler sees is
  the shifted stack pointer, the call is refused, and the frame it returns through has the kernel's
  code segment: execution goes on at the caller's next instruction at the highest privilege, with
  interrupts disabled.\<close>

theorem syscall_escalates:
  assumes g: "good (isched s)" and sp: "HIGHER_HALF \<le> rsp regs"
  shows "\<exists>f. syscall s box_at port_in kernel_stack regs fa hw = Some (s, Returned f) \<and> cs f = 0x08 \<and> ss f = 0x10
    \<and> rip f = rip regs \<and> rsp f = rsp regs \<and> rax f = - 1 \<and> \<not> bit (rflags f) 9"
proof -
  let ?half = "drop_bit 47 (rsp regs)"
  have "unat HIGHER_HALF div 2 ^ 47 \<le> unat (rsp regs) div 2 ^ 47" using sp by (intro div_le_mono) (simp add: word_le_nat_alt)
  then have h: "0x1FFFF \<le> unat ?half" by (simp add: HIGHER_HALF_def drop_bit_eq_div unat_div)
  then have nz: "?half \<noteq> 0" by auto
  have big: "\<not> ?half \<le> 7" "\<not> ?half \<le> 15" "\<not> ?half \<le> 22" "?half \<noteq> 30" "?half \<noteq> 31"
    using h by (auto simp: word_le_nat_alt)
  have no: "\<not> syscall_allowed ty ?half" for ty
    using big by (simp add: syscall_allowed_def)
  show ?thesis
    using sp no nz by (simp add: syscall_def syscall_entry_def Let_def syscall_handler_def caller_good [OF g] sanitize_frame_def give_def bit_simps)
qed

theorem syscall_escalates_witness:
  "\<exists>f. syscall (demo_idt (demo_sched 2 3 Running Running 1)) (\<lambda>_. 0) (\<lambda>_. 0) 0x9000 (demo_user_regs\<lparr> rsp := 0xFFFF800000100000 \<rparr>) 0 [] =
       Some (demo_idt (demo_sched 2 3 Running Running 1), Returned f) \<and> cs f = 0x08 \<and> ss f = 0x10
     \<and> rip f = rip (demo_user_regs\<lparr> rsp := 0xFFFF800000100000 \<rparr>) \<and> rsp f = rsp (demo_user_regs\<lparr> rsp := 0xFFFF800000100000 \<rparr>)
     \<and> rax f = - 1 \<and> \<not> bit (rflags f) 9"
  by (rule syscall_escalates) (simp_all add: demo_isched demo_good HIGHER_HALF_def)

end
