(* ===== verification/Gdf_Theorems.thy ===== *)
theory Gdf_Theorems
  imports Sched_Theorems
begin

text \<open>
  Properties of the driver framework: the loop that restarts crashed drivers terminates and starts each queued
  driver once, and a command sent to a driver's mailbox reaches it and its answer comes back.
\<close>

declare upt_rec_numeral [simp del]

section \<open>Deferred restarts\<close>

definition queued :: "gdf \<Rightarrow> driver_pkg list" where
  "queued g = List.map_filter id (deferred g)"

text \<open>The reference: the first queued entry leaves the queue and is started, then the rest.\<close>

fun start_all :: "driver_pkg list \<Rightarrow> gdf \<Rightarrow> (nat \<Rightarrow> u64) \<Rightarrow> gdf option" where
  "start_all [] g box_at = Some g"
| "start_all (p # ps) g box_at = do {
     (g1, _) \<leftarrow> take_deferred g;
     (g2, _) \<leftarrow> start_service g1 box_at (pk_name p) (pk_elf p) (pk_class p);
     start_all ps g2 box_at
   }"

lemma find_map_list: "find P (map f xs) = map_option f (find (\<lambda>x. P (f x)) xs)"
  by (induction xs) simp_all

lemma find_upt_nth: "find (\<lambda>i. P (xs ! i)) [0..<length xs] = (case find P xs of None \<Rightarrow> None | Some _ \<Rightarrow> Some (length (takeWhile (\<lambda>x. \<not> P x) xs)))"
proof (induction xs)
  case (Cons x xs)
  have "[0..<length (x # xs)] = 0 # map Suc [0..<length xs]" by (simp add: upt_conv_Cons map_Suc_upt del: upt_Suc)
  then show ?case using Cons.IH by (simp add: find_map_list split: option.splits)
qed simp

lemma first_queued:
  "find (\<lambda>e. e \<noteq> None) xs = (case List.map_filter id xs of [] \<Rightarrow> None | p # _ \<Rightarrow> Some (Some p))"
  by (induction xs) (auto simp: List.map_filter_def)

lemma rest_queued:
  assumes "List.map_filter id xs = p # ps"
  shows "xs ! length (takeWhile (\<lambda>e. e = None) xs) = Some p
    \<and> List.map_filter id (xs[length (takeWhile (\<lambda>e. e = None) xs) := None]) = ps"
  using assms by (induction xs) (auto simp: List.map_filter_def split: if_splits)

lemma take_deferred_queued:
  "take_deferred g = (case queued g of [] \<Rightarrow> None
     | p # _ \<Rightarrow> Some (g\<lparr> deferred := (deferred g)[length (takeWhile (\<lambda>e. e = None) (deferred g)) := None] \<rparr>, p))"
  unfolding take_deferred_def queued_def find_upt_nth [of "\<lambda>e. e \<noteq> None" "deferred g"] first_queued
  using rest_queued [of "deferred g"] by (simp split: list.split)

lemma start_keeps_deferred:
  assumes "start_service g box_at name bin cls = Some (g', r)"
  shows "deferred g' = deferred g"
proof -
  have ins: "deferred g2 = deferred g1" if "install_service g1 box_at name pml4 ty pm lr = Some (g2, q)" for g1 g2 pml4 ty pm lr q
    using that unfolding install_service_def
    by (auto simp: set_kvma_def mark_service_def register_driver_def Let_def bind_eq_Some_conv
        split: prod.splits option.splits if_splits)
  have u: "deferred (set_gvm g m) = deferred g" "deferred (set_kvma g a) = deferred g" for g m a
    by (simp_all add: set_gvm_def set_kvma_def)
  show ?thesis using assms unfolding start_service_def
    apply (auto simp: u Let_def bind_eq_Some_conv split: prod.splits option.splits sum.split_asm dest!: ins)
    subgoal for a y aa b by (cases b) (auto simp: u dest!: ins)
    done
qed

text \<open>C23. The loop of \<^verbatim>\<open>process_deferred_restarts\<close>, which runs until the queue is empty, terminates: starting a
  driver never queues another, so as many rounds as there are queued entries are enough, and it is
  the reference that takes each queued driver once, in the order of the slots. The queue is empty
  afterwards. (The result is no value only when starting a driver aborts the kernel.)\<close>

theorem deferred_restarts_terminate:
  assumes "length (queued g) \<le> fuel"
  shows "process_deferred_restarts fuel g box_at = start_all (queued g) g box_at
    \<and> (case process_deferred_restarts fuel g box_at of None \<Rightarrow> True | Some g' \<Rightarrow> queued g' = [])"
proof -
  have "process_deferred_restarts fuel g box_at = start_all ps g box_at
    \<and> (\<forall>g'. start_all ps g box_at = Some g' \<longrightarrow> queued g' = [])" if "queued g = ps" "length ps \<le> fuel" for ps
    using that
  proof (induction ps arbitrary: g fuel)
    case Nil
    then show ?case by (cases fuel) (simp_all add: take_deferred_queued)
  next
    case (Cons p ps)
    then obtain n where n: "fuel = Suc n" "length ps \<le> n" by (cases fuel) auto
    let ?g = "g\<lparr> deferred := (deferred g)[length (takeWhile (\<lambda>e. e = None) (deferred g)) := None] \<rparr>"
    have t: "take_deferred g = Some (?g, p)" using Cons.prems(1) by (simp add: take_deferred_queued)
    have q: "queued g2 = ps" if "start_service ?g box_at (pk_name p) (pk_elf p) (pk_class p) = Some (g2, r)" for g2 r
      using start_keeps_deferred [OF that] rest_queued [of "deferred g" p ps] Cons.prems(1) by (simp add: queued_def)
    show ?case using Cons.IH [OF q n(2)] 
      by (cases "start_service ?g box_at (pk_name p) (pk_elf p) (pk_class p)") (auto simp: n(1) t split: prod.splits)
  qed
  then show ?thesis using assms by (auto split: option.split)
qed

definition demo_pkg :: driver_pkg where
  "demo_pkg = \<lparr> pk_name = [97], pk_elf = [], pk_class = Hardware \<rparr>"

definition demo_driver :: driver_entry where
  "demo_driver = \<lparr> d_name = 97 # replicate 31 0, d_vcpu = 3, d_mailbox = mailbox_empty, d_state = 1,
     d_type = HardwareDriver, d_caller = 0, d_buf = 0, d_pml4 = 0x200000 \<rparr>"

definition demo_gdf :: gdf where
  "demo_gdf = \<lparr> gs = demo_sched 2 1 Running Ready 0, services = service_boot, drivers = [None, Some demo_driver],
     driver_count = 1, crash_counters = [], deferred = [None, Some demo_pkg], pkg_meta = [], gbox = 0 \<rparr>"

theorem deferred_restarts_terminate_witness:
  "process_deferred_restarts 1 demo_gdf (\<lambda>_. 0x9000) = start_all [demo_pkg] demo_gdf (\<lambda>_. 0x9000)
   \<and> (case process_deferred_restarts 1 demo_gdf (\<lambda>_. 0x9000) of None \<Rightarrow> True | Some g' \<Rightarrow> queued g' = [])"
proof -
  have q: "queued demo_gdf = [demo_pkg]" by (simp add: queued_def demo_gdf_def List.map_filter_def)
  then have "length (queued demo_gdf) \<le> 1" by simp
  from deferred_restarts_terminate [OF this, of "\<lambda>_. 0x9000"] show ?thesis unfolding q .
qed

section \<open>Mailboxes\<close>

lemma find_upt_iff: "find Q [0..<n] = Some i \<longleftrightarrow> i < n \<and> Q i \<and> (\<forall>j < i. \<not> Q j)"
  by (auto simp: find_Some_iff)

lemma find_driver_set:
  assumes "find_driver P g = Some i" "\<And>d. P' d \<Longrightarrow> P d" "P' d'" "length (drivers g') = length (drivers g)"
    "drivers g' = (drivers g)[i := Some d']"
  shows "find_driver P' g' = Some i"
proof -
  have "i < length (drivers g) \<and> (\<forall>j < i. \<not> (case drivers g ! j of None \<Rightarrow> False | Some d \<Rightarrow> P d))"
    using assms(1) by (simp add: find_driver_def find_upt_iff)
  then show ?thesis using assms(2,3,5) by (auto simp: find_driver_def find_upt_iff split: option.splits)
qed

lemma gwake_drivers: "gwake g vid = Some g' \<Longrightarrow> drivers g' = drivers g"
  by (auto simp: gwake_def bind_eq_Some_conv)

text \<open>C22. A command makes the round trip. After \<^verbatim>\<open>send_cmd\<close> to an idle driver the mailbox is busy: a second command
  is refused and no result can be polled. The driver's \<^verbatim>\<open>recv\<close> returns exactly the command and its
  arguments, its \<^verbatim>\<open>send_response\<close> succeeds, and \<^verbatim>\<open>poll_result\<close> then returns the response.\<close>

theorem mailbox_roundtrip:
  assumes n: "find_by_name g name = Some i" and v: "find_by_vcpu g vid = Some i" and d: "drivers g ! i = Some d"
    and idle: "d_buf d = 0" "d_caller d = 0"
    and sent: "send_cmd g name cmd a0 a1 a2 = Some (g1, True)"
  shows "poll_result g1 name = None \<and> send_cmd g1 name cmd' b0 b1 b2 = Some (g1, False)
    \<and> (\<exists>g2 g3. recv g1 vid = (g2, Some (cmd, a0, a1, a2)) \<and> poll_result g2 name = None
        \<and> send_response g2 vid res = Some (g3, True) \<and> poll_result g3 name = Some res)"
proof -
  let ?d1 = "d\<lparr> d_mailbox := (post (d_mailbox d) cmd a0 a1 a2)\<lparr> mb_result := - 1 \<rparr> \<rparr>"
  let ?d2 = "?d1\<lparr> d_mailbox := (d_mailbox ?d1)\<lparr> mb_flags := MAILBOX_RESPONSE \<rparr> \<rparr>"
  let ?d3 = "?d2\<lparr> d_mailbox := (d_mailbox ?d2)\<lparr> mb_result := res, mb_flags := MAILBOX_IDLE \<rparr>, d_caller := 0 \<rparr>"
  have i: "i < length (drivers g)" "driver_named name d" "d_vcpu d = vid"
    using n v d by (auto simp: find_by_name_def find_by_vcpu_def find_driver_def find_upt_iff)
  have g1: "drivers g1 = (drivers g)[i := Some ?d1]"
    using sent idle(1) unfolding send_cmd_def n
    by (auto simp: d deliver_def bind_eq_Some_conv set_driver_def dest!: gwake_drivers split: if_splits)
  have name: "find_by_name g' name = Some i" if "drivers g' = (drivers g)[i := Some d']" "d_name d' = d_name d" for g' d'
    using find_driver_set [OF n [unfolded find_by_name_def], of "driver_named name" d' g'] that i(2)
    by (simp add: find_by_name_def driver_named_def)
  have vcpu: "find_driver (\<lambda>d. d_vcpu d = vid \<and> Q d) g' = Some i" if "drivers g' = (drivers g)[i := Some d']" "d_vcpu d' = vid" "Q d'" for g' d' Q
    using find_driver_set [OF v [unfolded find_by_vcpu_def], of "\<lambda>d. d_vcpu d = vid \<and> Q d" d' g'] that by simp
  have f1: "find_driver (\<lambda>d. d_vcpu d = vid \<and> mb_flags (d_mailbox d) = MAILBOX_PENDING) g1 = Some i"
    by (rule vcpu [OF g1]) (simp_all add: i post_def)
  define g2 where "g2 = set_driver g1 i ?d2"
  have g2: "drivers g2 = (drivers g)[i := Some ?d2]" by (simp add: g2_def set_driver_def g1)
  have r1: "recv g1 vid = (g2, Some (cmd, a0, a1, a2))"
    unfolding recv_def f1 g2_def using g1 i by (simp add: post_def Let_def)
  have f2: "find_by_vcpu g2 vid = Some i"
    using vcpu [OF g2, of "\<lambda>_. True"] i(3) by (simp add: find_by_vcpu_def)
  define g3 where "g3 = set_driver g2 i ?d3"
  have g3: "drivers g3 = (drivers g)[i := Some ?d3]" by (simp add: g3_def set_driver_def g2)
  have r2: "send_response g2 vid res = Some (g3, True)"
    unfolding send_response_def f2 g3_def using g2 i(1) idle(2) by (simp add: Let_def)
  have "poll_result g1 name = None" "poll_result g2 name = None" "poll_result g3 name = Some res"
      "send_cmd g1 name cmd' b0 b1 b2 = Some (g1, False)"
    unfolding poll_result_def send_cmd_def name [OF g1, simplified] name [OF g2, simplified] name [OF g3, simplified]
    using g1 g2 g3 i(1) by (simp_all add: post_def)
  then show ?thesis using r1 r2 by blast
qed

lemma demo_find: "find_by_name demo_gdf [97] = Some 1" "find_by_vcpu demo_gdf 3 = Some 1"
  by (simp_all add: find_by_name_def find_by_vcpu_def find_driver_def find_upt_iff)
    (simp_all add: demo_gdf_def demo_driver_def driver_named_def Let_def)

lemma demo_send: "\<exists>g1. send_cmd demo_gdf [97] 5 1 2 3 = Some (g1, True)"
proof -
  let ?s = "demo_sched 2 1 Running Ready 0"
  have "registered ?s" by (simp add: registered_def) (simp add: demo_sched_def kvm_def demo_vm_def demo_cpus_def)
  then have "\<exists>c. current_cpu_slot ?s = Some (?s, c)" using registered_slot by blast
  then have "wake ?s 3 = Some ?s" by (auto simp: wake_def demo_vcpu_def)
  then show ?thesis
    by (simp add: send_cmd_def demo_find)
      (simp add: demo_gdf_def demo_driver_def deliver_def mailbox_empty_def gwake_def set_driver_def)
qed

theorem mailbox_roundtrip_witness:
  "\<exists>g1 g2 g3. send_cmd demo_gdf [97] 5 1 2 3 = Some (g1, True) \<and> poll_result g1 [97] = None
     \<and> send_cmd g1 [97] 6 0 0 0 = Some (g1, False) \<and> recv g1 3 = (g2, Some (5, 1, 2, 3)) \<and> poll_result g2 [97] = None
     \<and> send_response g2 3 42 = Some (g3, True) \<and> poll_result g3 [97] = Some 42"
proof -
  obtain g1 where g1: "send_cmd demo_gdf [97] 5 1 2 3 = Some (g1, True)" using demo_send by blast
  have d: "drivers demo_gdf ! 1 = Some demo_driver" "d_buf demo_driver = 0" "d_caller demo_driver = 0"
    by (simp_all add: demo_gdf_def demo_driver_def)
  show ?thesis using mailbox_roundtrip [OF demo_find d g1, of 6 0 0 0 42] g1 by blast
qed

end
