(* ===== verification/Elf_Theorems.thy ===== *)
theory Elf_Theorems
  imports Elf Virt_Theorems
begin

text \<open>
  Properties of the ELF loader: the segment table of its first pass is well formed, and the second pass
  fills the pages of a segment with the bytes of the file and zeros.
\<close>

declare upt_rec_numeral [simp del]

section \<open>The segment table\<close>

definition seg_ok :: "u8 list \<Rightarrow> segment \<Rightarrow> bool" where
  "seg_ok b g \<longleftrightarrow> unat (seg_off g) + unat (seg_filesz g) \<le> length b
     \<and> unat (seg_load_vaddr g) = 4096 * (unat (seg_vaddr g) div 4096)
     \<and> unat (seg_vaddr g) + unat (seg_memsz g) \<le> unat (seg_load_end g)
     \<and> unat (seg_load_end g) = unat (seg_load_vaddr g) + 4096 * unat (seg_pages g)"

definition apart :: "segment \<Rightarrow> segment \<Rightarrow> bool" where
  "apart g h \<longleftrightarrow> seg_load_end g \<le> seg_load_vaddr h \<or> seg_load_end h \<le> seg_load_vaddr g"

definition segs_ok :: "u8 list \<Rightarrow> segment list \<Rightarrow> bool" where
  "segs_ok b segs \<longleftrightarrow> length segs \<le> MAX_PTLOAD \<and> list_all (seg_ok b) segs \<and> sorted_wrt apart segs"

text \<open>What the program headers say, read without the checks of the code: the segment a loadable header
  describes, the headers of the table, and when the table can be loaded.\<close>

definition segment_of :: "phdr \<Rightarrow> segment" where
  "segment_of ph = (let first = unat (p_vaddr ph) div 4096;
       last = (unat (p_vaddr ph) + unat (p_memsz ph) + 4095) div 4096
     in \<lparr> seg_vaddr = p_vaddr ph, seg_load_vaddr = of_nat (4096 * first), seg_load_end = of_nat (4096 * last),
          seg_pages = of_nat (last - first), seg_flags = segment_flags (p_flags ph),
          seg_off = p_offset ph, seg_filesz = p_filesz ph, seg_memsz = p_memsz ph \<rparr>)"

definition phdr_at :: "u8 list \<Rightarrow> nat \<Rightarrow> nat \<Rightarrow> phdr" where
  "phdr_at b base i = read_phdr b (base + i * PHDR_SIZE)"

definition loads :: "u8 list \<Rightarrow> nat \<Rightarrow> nat list \<Rightarrow> phdr list" where
  "loads b base idx = filter (\<lambda>ph. p_type ph = PT_LOAD) (map (phdr_at b base) idx)"

definition stack_exec :: "phdr list \<Rightarrow> bool \<Rightarrow> bool" where
  "stack_exec phs gnu = fold (\<lambda>ph g. if p_type ph = PT_GNU_STACK then p_flags ph AND PF_X \<noteq> 0 else g) phs gnu"

definition load_fits :: "u8 list \<Rightarrow> phdr \<Rightarrow> bool" where
  "load_fits b ph \<longleftrightarrow> unat (p_offset ph) + unat (p_filesz ph) \<le> length b
     \<and> unat (p_vaddr ph) + unat (p_memsz ph) + 4095 < 2 ^ 64"

definition loadable_after :: "u8 list \<Rightarrow> nat \<Rightarrow> segment list \<Rightarrow> nat list \<Rightarrow> bool" where
  "loadable_after b base segs idx \<longleftrightarrow> list_all (\<lambda>i. base + i * PHDR_SIZE + PHDR_SIZE \<le> length b) idx
     \<and> list_all (load_fits b) (loads b base idx) \<and> length segs + length (loads b base idx) \<le> MAX_PTLOAD
     \<and> sorted_wrt apart (segs @ map segment_of (loads b base idx))"

abbreviation loadable :: "u8 list \<Rightarrow> nat \<Rightarrow> nat list \<Rightarrow> bool" where
  "loadable b base idx \<equiv> loadable_after b base [] idx"

text \<open>A header whose position or whose rounded end overflows.\<close>

definition phdr_overflows :: "u8 list \<Rightarrow> nat \<Rightarrow> nat \<Rightarrow> bool" where
  "phdr_overflows b base i \<longleftrightarrow> 2 ^ 64 \<le> base + i * PHDR_SIZE + PHDR_SIZE
     \<or> (let ph = phdr_at b base i; e = unat (p_vaddr ph) + unat (p_memsz ph)
        in p_type ph = PT_LOAD \<and> e < 2 ^ 64 \<and> 2 ^ 64 \<le> e + 4095)"

lemma loads_simps [simp]:
  "loads b base [] = []"
  "loads b base (i # idx) = (if p_type (phdr_at b base i) = PT_LOAD then phdr_at b base i # loads b base idx
     else loads b base idx)"
  by (simp_all add: loads_def)

lemma page_align_down_nat: "page_align_down x = of_nat (4096 * (unat x div 4096))"
proof -
  have "page_align_down x = of_nat (unat (page_align_down x))" by simp
  then show ?thesis unfolding page_align_down_def and_not_page_mask .
qed

lemma page_align_up_eq:
  "page_align_up x = (if unat x + 4095 < 2 ^ 64 then Some (of_nat (4096 * ((unat x + 4095) div 4096))) else None)"
proof (cases "unat x + 4095 < 2 ^ 64")
  case True
  then have "unat (x + 0xFFF) = unat x + 4095" by (simp add: unat_word_ariths)
  then show ?thesis
    using True page_align_down_nat [of "x + 0xFFF"] by (simp add: page_align_up_def checked_add_def page_align_down_def)
qed (simp add: page_align_up_def checked_add_def)

lemma segment_of_unat:
  assumes "load_fits b ph"
  shows "unat (seg_load_vaddr (segment_of ph)) = 4096 * (unat (p_vaddr ph) div 4096)"
    and "unat (seg_load_end (segment_of ph)) = 4096 * ((unat (p_vaddr ph) + unat (p_memsz ph) + 4095) div 4096)"
    and "unat (seg_pages (segment_of ph)) =
      (unat (p_vaddr ph) + unat (p_memsz ph) + 4095) div 4096 - unat (p_vaddr ph) div 4096"
  using assms unfolding load_fits_def segment_of_def Let_def segment.simps by (intro unat64_of_nat; linarith)+

lemma segment_of_ok:
  assumes "load_fits b ph" shows "seg_ok b (segment_of ph)"
proof -
  have "unat (p_vaddr ph) div 4096 \<le> (unat (p_vaddr ph) + unat (p_memsz ph) + 4095) div 4096"
    by (rule div_le_mono) simp
  moreover have "seg_off (segment_of ph) = p_offset ph" "seg_filesz (segment_of ph) = p_filesz ph"
      "seg_vaddr (segment_of ph) = p_vaddr ph" "seg_memsz (segment_of ph) = p_memsz ph"
    by (simp_all add: segment_of_def Let_def)
  ultimately show ?thesis
    using assms unfolding seg_ok_def segment_of_unat [OF assms] by (simp add: load_fits_def right_diff_distrib')
qed

lemma segment_of_eq:
  fixes ph :: phdr
  defines "le \<equiv> of_nat (4096 * ((unat (p_vaddr ph) + unat (p_memsz ph) + 4095) div 4096)) :: u64"
    and "lv \<equiv> page_align_down (p_vaddr ph)"
  assumes "unat (p_vaddr ph) + unat (p_memsz ph) + 4095 < 2 ^ 64"
  shows "\<lparr> seg_vaddr = p_vaddr ph, seg_load_vaddr = lv, seg_load_end = le,
      seg_pages = (le - lv) div 0x1000, seg_flags = segment_flags (p_flags ph),
      seg_off = p_offset ph, seg_filesz = p_filesz ph, seg_memsz = p_memsz ph \<rparr> = segment_of ph"
proof -
  let ?v = "unat (p_vaddr ph)" and ?e = "unat (p_vaddr ph) + unat (p_memsz ph) + 4095"
  have ue: "unat le = 4096 * (?e div 4096)"
    unfolding le_def using assms(3) by (intro unat64_of_nat) linarith
  have ul: "unat lv = 4096 * (?v div 4096)" unfolding lv_def page_align_down_def by (rule and_not_page_mask)
  have m: "?v div 4096 \<le> ?e div 4096" by (rule div_le_mono) simp
  have "unat ((le - lv) div 0x1000) = ?e div 4096 - ?v div 4096"
    using m ue ul by (simp add: unat_div unat_sub word_le_nat_alt flip: right_diff_distrib')
  then have "(le - lv) div 0x1000 = of_nat (?e div 4096 - ?v div 4096)" by (metis of_nat_unat ucast_id)
  then show ?thesis unfolding segment_of_def Let_def le_def lv_def page_align_down_nat by simp
qed

text \<open>One loadable header, every branch.\<close>

lemma collect_segment_eq:
  "collect_segment b ph segs =
    (let f = unat (p_offset ph) + unat (p_filesz ph); e = unat (p_vaddr ph) + unat (p_memsz ph) in
     if MAX_PTLOAD \<le> length segs \<or> length b < f \<or> 2 ^ 64 \<le> f \<or> 2 ^ 64 \<le> e then Some (Inl BadHeader)
     else if 2 ^ 64 \<le> e + 4095 then None
     else if list_all (\<lambda>h. apart h (segment_of ph)) segs then Some (Inr (segs @ [segment_of ph]))
     else Some (Inl MapFailed))"
proof -
  let ?e = "unat (p_vaddr ph) + unat (p_memsz ph)" and ?f = "unat (p_offset ph) + unat (p_filesz ph)"
    and ?lv = "page_align_down (p_vaddr ph)"
  have copy: "(case checked_add (p_offset ph) (p_filesz ph) of None \<Rightarrow> True | Some ce \<Rightarrow> length b < unat ce)
      \<longleftrightarrow> length b < ?f \<or> 2 ^ 64 \<le> ?f"
    by (auto simp: checked_add_def unat_word_ariths)
  show ?thesis
  proof (cases "MAX_PTLOAD \<le> length segs \<or> length b < ?f \<or> 2 ^ 64 \<le> ?f \<or> 2 ^ 64 \<le> ?e")
    case True
    then show ?thesis using copy by (auto simp: collect_segment_def checked_add_def Let_def split: option.splits)
  next
    case False
    let ?s = "p_vaddr ph + p_memsz ph"
    have s: "checked_add (p_vaddr ph) (p_memsz ph) = Some ?s" "unat ?s = ?e"
      using False by (simp_all add: checked_add_def unat_word_ariths)
    have c: "collect_segment b ph segs = do { le \<leftarrow> page_align_up ?s;
        if list_ex (overlaps ?lv le) segs then Some (Inl MapFailed)
        else Some (Inr (segs @ [\<lparr> seg_vaddr = p_vaddr ph, seg_load_vaddr = ?lv, seg_load_end = le,
                seg_pages = (le - ?lv) div 0x1000, seg_flags = segment_flags (p_flags ph),
                seg_off = p_offset ph, seg_filesz = p_filesz ph, seg_memsz = p_memsz ph \<rparr>])) }"
      using False copy s(1) by (auto simp: collect_segment_def Let_def split: option.splits)
    show ?thesis
    proof (cases "2 ^ 64 \<le> ?e + 4095")
      case True
      then show ?thesis using False unfolding c page_align_up_eq s(2) by simp
    next
      case F: False
      define le :: u64 where "le = of_nat (4096 * ((?e + 4095) div 4096))"
      have "?e + 4095 < 2 ^ 64" using F by simp
      note g = segment_of_eq [OF this, folded le_def]
      have "seg_load_end (segment_of ph) = le" "seg_load_vaddr (segment_of ph) = ?lv"
        unfolding g [symmetric] by simp_all
      then have "\<not> list_ex (overlaps ?lv le) segs \<longleftrightarrow> list_all (\<lambda>h. apart h (segment_of ph)) segs"
        by (auto simp: list_all_iff list_ex_iff overlaps_def apart_def not_less)
      moreover have "page_align_up ?s = Some le" unfolding page_align_up_eq s(2) le_def using F by simp
      ultimately show ?thesis using False F unfolding c by (auto simp: g Let_def)
    qed
  qed
qed

lemma collect_segment_ok:
  "collect_segment b ph segs = Some (Inr segs') \<Longrightarrow> segs' = segs @ [segment_of ph] \<and> seg_ok b (segment_of ph)"
  unfolding collect_segment_eq
  by (rule conjI, simp add: Let_def split: if_splits, rule segment_of_ok)
    (auto simp: Let_def load_fits_def split: if_splits)

lemma loadable_after_simps:
  "loadable_after b base segs [] \<longleftrightarrow> length segs \<le> MAX_PTLOAD \<and> sorted_wrt apart segs"
  "loadable_after b base segs (i # idx) \<longleftrightarrow> base + i * PHDR_SIZE + PHDR_SIZE \<le> length b \<and>
     (if p_type (phdr_at b base i) = PT_LOAD
      then load_fits b (phdr_at b base i) \<and> loadable_after b base (segs @ [segment_of (phdr_at b base i)]) idx
      else loadable_after b base segs idx)"
  by (auto simp: loadable_after_def)

lemma loadable_afterD:
  "loadable_after b base segs idx \<Longrightarrow> length segs \<le> MAX_PTLOAD \<and> sorted_wrt apart segs"
  by (simp add: loadable_after_def sorted_wrt_append)

lemma loadable_segs_ok: "loadable b base idx \<Longrightarrow> segs_ok b (map segment_of (loads b base idx))"
  by (auto simp: loadable_after_def segs_ok_def list_all_iff intro: segment_of_ok)

definition scan_result :: "u8 list \<Rightarrow> nat \<Rightarrow> nat list \<Rightarrow> segment list \<Rightarrow> bool
    \<Rightarrow> (load_error + segment list \<times> bool) option \<Rightarrow> bool" where
  "scan_result b base idx segs gnu r = (case r of
      None \<Rightarrow> \<not> loadable_after b base segs idx \<and> (\<exists>i\<in>set idx. phdr_overflows b base i)
    | Some (Inl e) \<Rightarrow> \<not> loadable_after b base segs idx \<and> (e = BadHeader \<or> e = MapFailed)
    | Some (Inr (segs', gnu')) \<Rightarrow> loadable_after b base segs idx
        \<and> segs' = segs @ map segment_of (loads b base idx) \<and> gnu' = stack_exec (map (phdr_at b base) idx) gnu)"

lemma scan_result_skip:
  assumes "p_type (phdr_at b base i) \<noteq> PT_LOAD" "base + i * PHDR_SIZE + PHDR_SIZE \<le> length b"
    and "scan_result b base idx segs (stack_exec [phdr_at b base i] gnu) r"
  shows "scan_result b base (i # idx) segs gnu r"
  using assms unfolding scan_result_def
  by (auto simp: loadable_after_simps stack_exec_def split: option.splits sum.splits)

lemma scan_result_load:
  assumes "p_type (phdr_at b base i) = PT_LOAD" "base + i * PHDR_SIZE + PHDR_SIZE \<le> length b"
    and "load_fits b (phdr_at b base i)"
    and "scan_result b base idx (segs @ [segment_of (phdr_at b base i)]) gnu r"
  shows "scan_result b base (i # idx) segs gnu r"
  using assms unfolding scan_result_def
  by (auto simp: loadable_after_simps stack_exec_def PT_LOAD_def PT_GNU_STACK_def split: option.splits sum.splits)

text \<open>A loadable header inside the file that is refused.\<close>

lemma scan_result_reject:
  assumes "length b < 2 ^ 64" "length segs \<le> MAX_PTLOAD" "sorted_wrt apart segs"
    and "p_type (phdr_at b base i) = PT_LOAD" "base + i * PHDR_SIZE + PHDR_SIZE \<le> length b"
    and c: "collect_segment b (phdr_at b base i) segs = None \<and> r = None
      \<or> (\<exists>e. collect_segment b (phdr_at b base i) segs = Some (Inl e) \<and> r = Some (Inl e))"
  shows "scan_result b base (i # idx) segs gnu r"
proof -
  let ?ph = "phdr_at b base i" and ?g = "segment_of (phdr_at b base i)"
  have "\<not> loadable_after b base segs (i # idx)"
  proof
    assume "loadable_after b base segs (i # idx)"
    then have "load_fits b ?ph" "length (segs @ [?g]) \<le> MAX_PTLOAD" "sorted_wrt apart (segs @ [?g])"
      using assms(4) loadable_afterD [of b base "segs @ [?g]" idx] by (auto simp: loadable_after_simps)
    then have "collect_segment b ?ph segs = Some (Inr (segs @ [?g]))"
      unfolding collect_segment_eq
      using assms(1) by (auto simp: load_fits_def Let_def sorted_wrt_append list_all_iff)
    then show False using c by auto
  qed
  then show ?thesis
    using c assms(4) unfolding collect_segment_eq
    by (auto simp: scan_result_def phdr_overflows_def Let_def split: if_splits)
qed

lemma scan_phdrs_result:
  assumes "length b < 2 ^ 64" "length segs \<le> MAX_PTLOAD" "sorted_wrt apart segs"
  shows "scan_result b base idx segs gnu (scan_phdrs b base idx segs gnu)"
  using assms(2,3)
proof (induction idx arbitrary: segs gnu)
  case Nil
  then show ?case by (simp add: scan_result_def loadable_after_simps stack_exec_def)
next
  case (Cons i idx)
  let ?off = "base + i * PHDR_SIZE" and ?ph = "phdr_at b base i"
  consider (over) "2 ^ 64 \<le> ?off + PHDR_SIZE" | (short) "?off + PHDR_SIZE < 2 ^ 64" "length b < ?off + PHDR_SIZE"
    | (inside) "?off + PHDR_SIZE \<le> length b" by linarith
  then show ?case
  proof cases
    case over
    then have "scan_phdrs b base (i # idx) segs gnu = None"
      by (auto simp: usize_add_def bind_eq_None_conv)
    then show ?thesis using over assms(1) by (auto simp: scan_result_def loadable_after_simps phdr_overflows_def)
  next
    case short
    then have "scan_phdrs b base (i # idx) segs gnu = Some (Inl BadHeader)" by (simp add: usize_add_def)
    then show ?thesis using short by (simp add: scan_result_def loadable_after_simps)
  next
    case inside
    then have s: "scan_phdrs b base (i # idx) segs gnu = (if p_type ?ph \<noteq> PT_LOAD
        then scan_phdrs b base idx segs (if p_type ?ph = PT_GNU_STACK then p_flags ?ph AND PF_X \<noteq> 0 else gnu)
        else do { r \<leftarrow> collect_segment b ?ph segs;
          (case r of Inl e \<Rightarrow> Some (Inl e) | Inr segs' \<Rightarrow> scan_phdrs b base idx segs' gnu) })"
      using assms(1) by (simp add: usize_add_def Let_def phdr_at_def)
    show ?thesis
    proof (cases "p_type ?ph = PT_LOAD")
      case False
      then show ?thesis
        using scan_result_skip [OF False inside Cons.IH [OF Cons.prems]] unfolding s by (simp add: stack_exec_def)
    next
      case True
      show ?thesis
      proof (cases "\<exists>segs'. collect_segment b ?ph segs = Some (Inr segs')")
        case ok: True
        then have g: "load_fits b ?ph" "collect_segment b ?ph segs = Some (Inr (segs @ [segment_of ?ph]))"
            "length (segs @ [segment_of ?ph]) \<le> MAX_PTLOAD" "sorted_wrt apart (segs @ [segment_of ?ph])"
          using Cons.prems unfolding collect_segment_eq
          by (auto simp: load_fits_def Let_def sorted_wrt_append list_all_iff split: if_splits)
        show ?thesis
          unfolding s using True g(2) scan_result_load [OF True inside g(1) Cons.IH [OF g(3,4)]] by simp
      next
        case False
        then have "collect_segment b ?ph segs = None \<and> scan_phdrs b base (i # idx) segs gnu = None
            \<or> (\<exists>e. collect_segment b ?ph segs = Some (Inl e) \<and> scan_phdrs b base (i # idx) segs gnu = Some (Inl e))"
          unfolding s using True by (cases "collect_segment b ?ph segs") (auto split: sum.splits)
        with assms(1) Cons.prems True inside show ?thesis by (rule scan_result_reject)
      qed
    qed
  qed
qed

text \<open>C24. The first pass of the loader, on every program header table of a file (whose length fits a
  \<^verbatim>\<open>usize\<close>). It returns a segment table exactly when every header lies inside the file, the loadable
  ones have their bytes inside the file and a rounded end below 2^64, are at most 32, and no two share a
  page. The table then holds the segment of each loadable header in order, each with its file bytes
  inside the file and aligned pages that cover its memory range, and the stack flag of the last
  \<^verbatim>\<open>PT_GNU_STACK\<close> header. Otherwise it returns an error, or aborts, and it aborts only if the position
  of some header or the rounded end of a loadable segment overflows.\<close>

theorem elf_segments_ok:
  assumes "length b < 2 ^ 64"
  shows "case scan_phdrs b base idx [] gnu of
      None \<Rightarrow> \<not> loadable b base idx \<and> (\<exists>i\<in>set idx. phdr_overflows b base i)
    | Some (Inl e) \<Rightarrow> \<not> loadable b base idx \<and> (e = BadHeader \<or> e = MapFailed)
    | Some (Inr (segs, gnu')) \<Rightarrow> loadable b base idx \<and> segs = map segment_of (loads b base idx)
        \<and> segs_ok b segs \<and> gnu' = stack_exec (map (phdr_at b base) idx) gnu"
  using scan_phdrs_result [OF assms, of "[]" base idx gnu] loadable_segs_ok [of b base idx]
  by (auto simp: scan_result_def split: option.splits sum.splits)

text \<open>A header table with one loadable segment of 16 bytes in memory, 8 of them from the file.\<close>

definition demo_elf :: "u8 list" where
  "demo_elf = [1,0,0,0, 6,0,0,0, 0,0,0,0,0,0,0,0, 0x10,0,0x40,0,0,0,0,0, 0,0,0,0,0,0,0,0, 8,0,0,0,0,0,0,0, 16,0,0,0,0,0,0,0, 0,0,0,0,0,0,0,0]"

definition demo_seg :: segment where
  "demo_seg = \<lparr> seg_vaddr = 0x400010, seg_load_vaddr = 0x400000, seg_load_end = 0x401000, seg_pages = 1,
     seg_flags = segment_flags 6, seg_off = 0, seg_filesz = 8, seg_memsz = 16 \<rparr>"

lemma demo_scan: "scan_phdrs demo_elf 0 [0] [] False = Some (Inr ([demo_seg], False))"
proof -
  have "read_phdr demo_elf 0 = \<lparr> p_type = 1, p_flags = 6, p_offset = 0, p_vaddr = 0x400010, p_filesz = 8, p_memsz = 16 \<rparr>"
    by (simp add: read_phdr_def rd_def demo_elf_def)
  then show ?thesis
    by (simp add: usize_add_def PHDR_SIZE_def Let_def PT_LOAD_def collect_segment_def MAX_PTLOAD_def checked_add_def
        page_align_down_def page_align_up_def demo_seg_def) (simp add: demo_elf_def)
qed

lemma demo_elf_len: "length demo_elf < 2 ^ 64"
  by (simp add: demo_elf_def)

theorem elf_segments_ok_witness:
  "length demo_elf < 2 ^ 64 \<and> scan_phdrs demo_elf 0 [0] [] False = Some (Inr ([demo_seg], False))
   \<and> loadable demo_elf 0 [0] \<and> [demo_seg] = map segment_of (loads demo_elf 0 [0]) \<and> segs_ok demo_elf [demo_seg]
   \<and> \<not> stack_exec (map (phdr_at demo_elf 0) [0]) False"
  using elf_segments_ok [OF demo_elf_len, of 0 "[0]" False] demo_elf_len 
  unfolding demo_scan option.case sum.case prod.case not_False_eq_True eq_False [symmetric] by blast

section \<open>Filling a segment\<close>

definition byte_at :: "vm \<Rightarrow> u64 \<Rightarrow> u8" where
  "byte_at m x = byte_of (mem m x) 0"

lemma word_of_low: "bs \<noteq> [] \<Longrightarrow> byte_of (word_of bs) 0 = hd bs"
proof (cases bs)
  case (Cons b bs')
  have "ucast (ucast b OR push_bit 8 (word_of bs') :: u64) = b"
    by (rule bit_word_eqI) (auto simp: bit_simps)
  then show ?thesis by (simp add: Cons byte_of_def)
qed simp

lemma byte_at_store:
  "byte_at (store_bytes m a bs) x = (if unat (x - a) < length bs then bs ! unat (x - a) else byte_at m x)"
proof -
  have u: "[0..<8] = 0 # [1..<8]" by (simp add: upt_conv_Cons)
  show ?thesis unfolding byte_at_def store_bytes_def u by (simp add: word_of_low Let_def del: word_of.simps)
qed

lemma unat_sub_add:
  fixes y n :: u64
  assumes "n \<le> m"
  shows "unat (y - n) < unat m - unat n \<longleftrightarrow> unat n \<le> unat y \<and> unat y < unat m"
proof (cases "n \<le> y")
  case True
  then show ?thesis by (auto simp: unat_sub word_le_nat_alt)
next
  case False
  then have "unat (y - n) = 2 ^ 64 + unat y - unat n" by (simp add: unat_sub_if' word_le_nat_alt)
  then show ?thesis using False unat64_bound [of m] by (simp add: word_le_nat_alt)
qed

lemma higher_half_add: "unat p < 2 ^ 47 \<Longrightarrow> checked_add HIGHER_HALF p = Some (HIGHER_HALF + p)"
  by (simp add: checked_add_def HIGHER_HALF_def)

lemma higher_half_add2:
  assumes "unat p + unat d < 2 ^ 47"
  shows "checked_add (HIGHER_HALF + p) d = Some (HIGHER_HALF + p + d)"
proof -
  have "unat (HIGHER_HALF + p) = unat HIGHER_HALF + unat p"
    using assms by (intro unat_add_lem [THEN iffD1]) (simp add: HIGHER_HALF_def)
  then show ?thesis using assms by (simp add: checked_add_def HIGHER_HALF_def)
qed

lemma seg_room:
  assumes "seg_ok b g"
  shows "unat (seg_vaddr g - seg_load_vaddr g) = unat (seg_vaddr g) - unat (seg_load_vaddr g)"
    "seg_load_vaddr g \<le> seg_vaddr g"
    "unat (seg_vaddr g - seg_load_vaddr g) + unat (seg_memsz g) \<le> 4096 * unat (seg_pages g)"
proof -
  show le: "seg_load_vaddr g \<le> seg_vaddr g" using assms by (simp add: seg_ok_def word_le_nat_alt)
  then show u: "unat (seg_vaddr g - seg_load_vaddr g) = unat (seg_vaddr g) - unat (seg_load_vaddr g)" by (rule unat_sub)
  show "unat (seg_vaddr g - seg_load_vaddr g) + unat (seg_memsz g) \<le> 4096 * unat (seg_pages g)"
    unfolding u using assms le unfolding seg_ok_def word_le_nat_alt by linarith
qed

lemma fill_segment_bytes:
  assumes ok: "seg_ok b g" and lim: "unat phys + unat (seg_vaddr g - seg_load_vaddr g) + unat (seg_filesz g) < 2 ^ 47"
    and e: "seg_filesz g < seg_memsz g \<Longrightarrow> unat (seg_vaddr g) + unat (seg_filesz g) < 2 ^ 64"
  defines "a \<equiv> phys + (seg_vaddr g - seg_load_vaddr g)"
  shows "\<exists>m'. fill_segment b m phys g = Some m'
    \<and> (\<forall>x. byte_at m' x = (let k = unat (x - a)
        in if k < unat (seg_filesz g) then b ! (unat (seg_off g) + k) else if k < unat (seg_memsz g) then 0 else byte_at m x))"
proof -
  let ?d = "seg_vaddr g - seg_load_vaddr g" and ?fs = "seg_filesz g" and ?ms = "seg_memsz g"
  let ?bs = "take (unat ?fs) (drop (unat (seg_off g)) b)"
  have c: "checked_add HIGHER_HALF phys = Some (HIGHER_HALF + phys)" by (rule higher_half_add) (use lim in simp)
  have c2: "checked_add (HIGHER_HALF + phys) ?d = Some (HIGHER_HALF + phys + ?d)" by (rule higher_half_add2) (use lim in simp)
  have len: "length ?bs = unat ?fs" using ok by (auto simp: seg_ok_def)
  define m1 where "m1 = (if 0 < ?fs then store_bytes m a ?bs else m)"
  have b1: "byte_at m1 x = (if unat (x - a) < unat ?fs then b ! (unat (seg_off g) + unat (x - a)) else byte_at m x)" for x
    using len by (auto simp: m1_def byte_at_store word_gt_0 add.commute)
  show ?thesis
  proof (cases "?fs < ?ms")
    case True
    have c3: "checked_add (seg_vaddr g) ?fs = Some (seg_vaddr g + ?fs)" using e [OF True] by (simp add: checked_add_def)
    have "unat (?d + ?fs) = unat ?d + unat ?fs" using lim by (intro unat_add_lem [THEN iffD1]) simp
    then have c4: "checked_add (HIGHER_HALF + phys) (seg_vaddr g + ?fs - seg_load_vaddr g) = Some (HIGHER_HALF + phys + (?d + ?fs))"
      using higher_half_add2 [of phys "?d + ?fs"] lim by (simp add: algebra_simps)
    have f: "fill_segment b m phys g = Some (store_bytes m1 (a + ?fs) (replicate (unat (?ms - ?fs)) 0))"
      using True by (simp add: fill_segment_def c c2 c3 c4 m1_def a_def Let_def) (simp add: algebra_simps)
    have ms: "unat (?ms - ?fs) = unat ?ms - unat ?fs" using True by (intro unat_sub) simp
    have "unat (x - (a + ?fs)) < unat ?ms - unat ?fs \<longleftrightarrow> unat ?fs \<le> unat (x - a) \<and> unat (x - a) < unat ?ms" for x
      using unat_sub_add [of ?fs ?ms "x - a"] True by (simp add: algebra_simps)
    then show ?thesis unfolding f using True by (auto simp: byte_at_store ms b1 Let_def word_less_nat_alt)
  next
    case False
    then have "fill_segment b m phys g = Some m1"
      by (simp add: fill_segment_def c c2 m1_def a_def Let_def algebra_simps)
    then show ?thesis using False by (auto simp: b1 Let_def word_less_nat_alt)
  qed
qed

text \<open>C25. For a segment of a well-formed table whose file size does not exceed its memory size, the second pass
  fills exactly the segment: it does not abort, the bytes from the segment's offset in its first page are those
  of the file, the rest of its memory size is zero, every other byte of memory keeps its value, and all of
  it lies inside the pages allocated for the segment.\<close>

theorem fill_segment_spec:
  assumes ok: "seg_ok b g" and sz: "seg_filesz g \<le> seg_memsz g" and lim: "unat phys + 4096 * unat (seg_pages g) < 2 ^ 47"
  shows "unat (seg_vaddr g - seg_load_vaddr g) + unat (seg_memsz g) \<le> 4096 * unat (seg_pages g)
    \<and> (\<exists>m'. fill_segment b m phys g = Some m'
        \<and> (\<forall>x. byte_at m' x = (let k = unat (x - (phys + (seg_vaddr g - seg_load_vaddr g)))
             in if k < unat (seg_filesz g) then b ! (unat (seg_off g) + k)
                else if k < unat (seg_memsz g) then 0 else byte_at m x)))"
proof
  show r: "unat (seg_vaddr g - seg_load_vaddr g) + unat (seg_memsz g) \<le> 4096 * unat (seg_pages g)" by (rule seg_room(3) [OF ok])
  have "unat (seg_vaddr g) + unat (seg_memsz g) < 2 ^ 64"
    using ok unat64_bound [of "seg_load_end g"] unfolding seg_ok_def by linarith
  then show "\<exists>m'. fill_segment b m phys g = Some m'
        \<and> (\<forall>x. byte_at m' x = (let k = unat (x - (phys + (seg_vaddr g - seg_load_vaddr g)))
             in if k < unat (seg_filesz g) then b ! (unat (seg_off g) + k)
                else if k < unat (seg_memsz g) then 0 else byte_at m x))"
    using r sz lim by (intro fill_segment_bytes [OF ok]) (simp_all add: word_le_nat_alt)
qed

theorem fill_segment_spec_witness:
  "unat (seg_vaddr demo_seg - seg_load_vaddr demo_seg) + unat (seg_memsz demo_seg) \<le> 4096 * unat (seg_pages demo_seg)
   \<and> (\<exists>m'. fill_segment demo_elf demo_vm 0x300000 demo_seg = Some m'
        \<and> (\<forall>x. byte_at m' x = (let k = unat (x - (0x300000 + (seg_vaddr demo_seg - seg_load_vaddr demo_seg)))
             in if k < unat (seg_filesz demo_seg) then demo_elf ! (unat (seg_off demo_seg) + k)
                else if k < unat (seg_memsz demo_seg) then 0 else byte_at demo_vm x)))"
  by (rule fill_segment_spec) (simp_all add: seg_ok_def demo_seg_def demo_elf_def)

text \<open>C40. The first pass accepts segments whose file size exceeds their memory size, and the second pass copies the
  whole file size. When it exceeds the pages allocated for the memory size, the copy runs on into the
  physical memory behind them: the byte after the last allocated page gets a byte of the file.\<close>

theorem elf_overrun:
  assumes c: "collect_segment b ph [] = Some (Inr [g])" and big: "4096 * unat (seg_pages g) < unat (p_filesz ph)"
    and small: "p_memsz ph \<le> p_filesz ph" and lim: "unat phys + unat (p_filesz ph) + 4096 < 2 ^ 47"
  shows "\<exists>m'. fill_segment b m phys g = Some m'
    \<and> byte_at m' (phys + 4096 * seg_pages g)
        = b ! (unat (p_offset ph) + 4096 * unat (seg_pages g) - unat (seg_vaddr g - seg_load_vaddr g))"
proof -
  have ok: "seg_ok b g" using collect_segment_ok [OF c] by simp
  have g: "seg_filesz g = p_filesz ph" "seg_memsz g = p_memsz ph" "seg_off g = p_offset ph"
    using c by (auto simp: collect_segment_def Let_def bind_eq_Some_conv split: if_splits option.splits)
  let ?d = "seg_vaddr g - seg_load_vaddr g"
  have d: "unat ?d < 4096" "unat ?d \<le> 4096 * unat (seg_pages g)"
    using ok seg_room(1,3) [OF ok] unfolding seg_ok_def by linarith+
  obtain m' where m': "fill_segment b m phys g = Some m'"
      and b: "\<And>x. byte_at m' x = (let k = unat (x - (phys + ?d))
        in if k < unat (seg_filesz g) then b ! (unat (seg_off g) + k) else if k < unat (seg_memsz g) then 0 else byte_at m x)"
    using fill_segment_bytes [OF ok, of phys m] lim d small by (auto simp: g word_less_nat_alt word_le_nat_alt)
  have "unat (4096 * seg_pages g) = 4096 * unat (seg_pages g)"
    using big lim by (simp add: unat_word_ariths)
  then have "unat (phys + 4096 * seg_pages g - (phys + ?d)) = 4096 * unat (seg_pages g) - unat ?d"
    using d(2) by (simp add: unat_sub word_le_nat_alt)
  moreover have "4096 * unat (seg_pages g) - unat ?d < unat (p_filesz ph)" using big by linarith
  ultimately show ?thesis using m' b [of "phys + 4096 * seg_pages g"] d(2) by (simp add: g Let_def)
qed

theorem elf_overrun_witness:
  "\<exists>g m'. collect_segment (replicate 5000 0xCC) \<lparr> p_type = 1, p_flags = 6, p_offset = 0, p_vaddr = 0x400000, p_filesz = 5000, p_memsz = 16 \<rparr> []
       = Some (Inr [g]) \<and> seg_pages g = 1
     \<and> fill_segment (replicate 5000 0xCC) demo_vm 0x300000 g = Some m' \<and> byte_at m' 0x301000 = 0xCC"
proof -
  let ?b = "replicate 5000 0xCC :: u8 list"
  let ?ph = "\<lparr> p_type = 1, p_flags = 6, p_offset = 0, p_vaddr = 0x400000, p_filesz = 5000, p_memsz = 16 \<rparr>"
  let ?g = "\<lparr> seg_vaddr = 0x400000, seg_load_vaddr = 0x400000, seg_load_end = 0x401000, seg_pages = 1,
     seg_flags = segment_flags 6, seg_off = 0, seg_filesz = 5000, seg_memsz = 16 \<rparr>"
  have c: "collect_segment ?b ?ph [] = Some (Inr [?g])"
    by (simp add: collect_segment_def MAX_PTLOAD_def checked_add_def page_align_down_def page_align_up_def)
  have "\<exists>m'. fill_segment ?b demo_vm 0x300000 ?g = Some m' \<and> byte_at m' (0x300000 + 4096 * seg_pages ?g)
      = ?b ! (unat (p_offset ?ph) + 4096 * unat (seg_pages ?g) - unat (seg_vaddr ?g - seg_load_vaddr ?g))"
    by (rule elf_overrun [OF c]) simp_all
  then show ?thesis using c by (intro exI [of _ ?g]) (auto simp: nth_replicate)
qed

end
