(* ===== verification/Intr_Theorems.thy ===== *)
theory Intr_Theorems
  imports Intr
begin

text \<open>
  Properties of the firmware tables and of interrupt routing: parsing a multiple-APIC table returns the
  entries it was encoded from, and the routing table built from it maps vectors back to sources.
\<close>

declare upt_rec_numeral [simp del]

section \<open>The routing table\<close>

lemma unat_of_nat_u8: "n < 256 \<Longrightarrow> unat (of_nat n :: u8) = n"
  by (simp add: unat_of_nat take_bit_eq_mod)

text \<open>What the firmware's description asks for, in the order of the table: its overrides of ISA
  lines, then the ISA lines that no override mentions, as source or as target. A request is
  wired when some controller is near enough below its interrupt number.\<close>

type_synonym irq_request = "u8 \<times> u32 \<times> u16"

definition requests :: "madt_info \<Rightarrow> irq_request list" where
  "requests info =
     map (\<lambda>i. (iso_source i, iso_gsi i, iso_flags i)) (filter (\<lambda>i. iso_bus i = 0 \<and> iso_gsi i < 256) (mi_isos info))
     @ map (\<lambda>n. (of_nat n, of_nat n, 0)) (filter (\<lambda>n. list_all (\<lambda>i. iso_bus i = 0 \<longrightarrow>
         iso_source i \<noteq> of_nat n \<and> iso_gsi i \<noteq> of_nat n) (mi_isos info)) [0..<16])"

definition wired :: "madt_info \<Rightarrow> irq_request \<Rightarrow> bool" where
  "wired info q = list_ex (\<lambda>io. fst (snd q) - ii_gsi_base io < 256) (mi_ioapics info)"

definition wired_requests :: "madt_info \<Rightarrow> irq_request list" where
  "wired_requests info = filter (wired info) (requests info)"

definition add_request :: "madt_info \<Rightarrow> irq_request \<Rightarrow> intr \<Rightarrow> intr" where
  "add_request info q t = (case q of (src, gsi, flags) \<Rightarrow> add_route t info src gsi flags)"

definition route_for :: "madt_info \<Rightarrow> nat \<Rightarrow> irq_request \<Rightarrow> irq_route" where
  "route_for info v q = (case q of (src, gsi, flags) \<Rightarrow> \<lparr> isa_source = src, route_gsi = gsi,
     ioapic_index = fst (the (lookup_ioapic info gsi)), ioapic_pin = snd (the (lookup_ioapic info gsi)),
     route_vector = of_nat v, route_flags = flags \<rparr>)"

lemma lookup_ioapic_Some:
  assumes "lookup_ioapic info gsi = Some (i, pin)"
  shows "i < length (mi_ioapics info) \<and> gsi = ii_gsi_base (mi_ioapics info ! i) + ucast pin
    \<and> (\<forall>j<i. \<not> gsi - ii_gsi_base (mi_ioapics info ! j) < 256)"
proof -
  let ?d = "\<lambda>i. gsi - ii_gsi_base (mi_ioapics info ! i)"
  have f: "find (\<lambda>i. ?d i < 256) [0..<length (mi_ioapics info)] = Some i" and p: "pin = ucast (?d i)"
    using assms by (auto simp: lookup_ioapic_def)
  then have i: "i < length (mi_ioapics info)" "?d i < 256" "\<forall>j<i. \<not> ?d j < 256"
    by (auto simp: find_Some_iff)
  have "unat (ucast pin :: u32) = unat (?d i)"
    using i(2) unfolding p by (simp add: unsigned_ucast_eq unsigned_take_bit_eq take_bit_nat_eq_self word_less_nat_alt)
  then have "(ucast pin :: u32) = ?d i" by (rule unsigned_word_eqI)
  then have "gsi = ii_gsi_base (mi_ioapics info ! i) + ucast pin" by simp
  then show ?thesis using i by blast
qed

lemma wired_iff: "wired info (src, gsi, flags) \<longleftrightarrow> lookup_ioapic info gsi \<noteq> None"
  by (auto simp: wired_def lookup_ioapic_def find_None_iff list_ex_iff in_set_conv_nth intro: nth_mem)

text \<open>Adding requests one by one: after \<open>n\<close> vectors have been taken, each further wired request
  gets the next one until they run out.\<close>

lemma add_request_skip: "\<not> wired info q \<Longrightarrow> add_request info q t = t"
  by (cases q; cases "lookup_ioapic info (fst (snd q))")
    (auto simp: add_request_def add_route_def build_route_def wired_iff)

lemma add_request_wired:
  assumes "wired info q" "next_vector t = of_nat (33 + n)" "n < 200" "length (routes t) = min n 31"
  shows "next_vector (add_request info q t) = of_nat (33 + Suc n) \<and> routes_ready (add_request info q t) = routes_ready t
    \<and> routes (add_request info q t) = routes t @ (if n < 31 then [route_for info (33 + n) q] else [])"
proof -
  obtain src gsi flags where q: "q = (src, gsi, flags)" by (metis prod.exhaust)
  obtain i pin where l: "lookup_ioapic info gsi = Some (i, pin)" using assms(1) by (auto simp: q wired_iff)
  have "unat (of_nat (33 + n) :: u8) = 33 + n" using assms(3) by (intro unat_of_nat_u8) simp
  then have v: "63 < next_vector t \<longleftrightarrow> 31 \<le> n" unfolding assms(2) word_less_nat_alt by auto
  show ?thesis
    using v assms(2,4)
    by (auto simp: q add_request_def add_route_def build_route_def l alloc_vector_def Let_def add_upto_def route_for_def)
qed

lemma fold_requests:
  assumes "next_vector t = of_nat (33 + n)" "n + length qs \<le> 200" "length (routes t) = min n 31"
  shows "routes (fold (add_request info) qs t)
    = routes t @ map2 (route_for info) [33 + n..<64] (filter (wired info) qs)"
  using assms
proof (induction qs arbitrary: n t)
  case (Cons q qs)
  show ?case
  proof (cases "wired info q")
    case True
    note w = add_request_wired [OF True Cons.prems(1) _ Cons.prems(3)]
    have len: "length (routes (add_request info q t)) = min (Suc n) 31" using w Cons.prems by auto
    have "[33 + n..<64] = (if n < 31 then (33 + n) # [33 + Suc n..<64] else [])" "31 \<le> n \<longrightarrow> [33 + Suc n..<64] = []"
      by (auto simp: upt_conv_Cons)
    then show ?thesis using Cons.IH [OF _ _ len] w Cons.prems True by auto
  qed (use Cons in \<open>simp add: add_request_skip\<close>)
qed simp

lemma iso_routes_fold:
  "iso_routes info is t claimed =
    (fold (add_request info) (map (\<lambda>i. (iso_source i, iso_gsi i, iso_flags i))
       (filter (\<lambda>i. iso_bus i = 0 \<and> iso_gsi i < 256) is)) t,
     rev (map iso_gsi (filter (\<lambda>i. iso_bus i = 0 \<and> iso_gsi i < 256) is)) @ claimed)"
  by (induction "is" arbitrary: t claimed) (auto simp: add_request_def not_less)

lemma identity_routes_fold:
  "identity_routes info claimed ns t = fold (add_request info) (map (\<lambda>n. (of_nat n, of_nat n, 0))
     (filter (\<lambda>n. \<not> has_iso info (of_nat n) \<and> of_nat n \<notin> set claimed) ns)) t"
  by (induction ns arbitrary: t) (auto simp: add_request_def)

lemma intr_init_fold:
  assumes "\<not> routes_ready t"
  shows "intr_init t info = (fold (add_request info) (requests info) t)\<lparr> routes_ready := True \<rparr>"
proof -
  have small: "(of_nat n :: u32) < 256" if "n < 16" for n
    using that by (simp add: word_less_nat_alt unat_of_nat take_bit_eq_mod)
  let ?c = "rev (map iso_gsi (filter (\<lambda>i. iso_bus i = 0 \<and> iso_gsi i < 256) (mi_isos info))) @ []"
  have "of_nat n \<notin> set ?c \<longleftrightarrow> list_all (\<lambda>i. iso_bus i = 0 \<longrightarrow> iso_gsi i \<noteq> of_nat n) (mi_isos info)" if "n < 16" for n
    using small [OF that] by (auto simp: list_all_iff image_iff) metis
  then have "filter (\<lambda>n. \<not> has_iso info (of_nat n) \<and> of_nat n \<notin> set ?c) [0..<16] =
      filter (\<lambda>n. list_all (\<lambda>i. iso_bus i = 0 \<longrightarrow> iso_source i \<noteq> of_nat n \<and> iso_gsi i \<noteq> of_nat n) (mi_isos info)) [0..<16]"
    by (intro filter_cong refl) (auto simp: has_iso_def list_all_iff list_ex_iff simp del: rev_map)
  then show ?thesis
    using assms by (simp add: intr_init_def iso_routes_fold identity_routes_fold requests_def)
qed

lemma requests_length: "length (mi_isos info) \<le> MAX_ISOS \<Longrightarrow> length (requests info) \<le> 48"
  using le_trans [OF length_filter_le [of "\<lambda>i. iso_bus i = 0 \<and> iso_gsi i < 256" "mi_isos info"], of 32]
    length_filter_le [of "\<lambda>n. list_all (\<lambda>i. iso_bus i = 0 \<longrightarrow>
      iso_source i \<noteq> of_nat n \<and> iso_gsi i \<noteq> of_nat n) (mi_isos info)" "[0..<16]"]
  by (simp add: requests_def MAX_ISOS_def)

lemma find_by_key: "distinct (map f xs) \<Longrightarrow> x \<in> set xs \<Longrightarrow> find (\<lambda>y. f y = f x) xs = Some x"
  by (induction xs) (auto simp: image_iff)

lemma intr_init_nth:
  assumes "routes t = []" "\<not> routes_ready t" "next_vector t = 33" "length (mi_isos info) \<le> MAX_ISOS"
  shows "length (routes (intr_init t info)) = min 31 (length (wired_requests info))"
    and "k < min 31 (length (wired_requests info)) \<Longrightarrow>
      routes (intr_init t info) ! k = route_for info (33 + k) (wired_requests info ! k)"
proof -
  have "routes (intr_init t info) = map2 (route_for info) [33..<64] (wired_requests info)"
    using fold_requests [of t 0 "requests info" info] requests_length [OF assms(4)] assms
    by (simp add: intr_init_fold wired_requests_def)
  then show "length (routes (intr_init t info)) = min 31 (length (wired_requests info))"
      "k < min 31 (length (wired_requests info)) \<Longrightarrow>
        routes (intr_init t info) ! k = route_for info (33 + k) (wired_requests info ! k)"
    by simp_all
qed

lemma intr_init_distinct:
  assumes "routes t = []" "\<not> routes_ready t" "next_vector t = 33" "length (mi_isos info) \<le> MAX_ISOS"
  shows "distinct (map route_vector (routes (intr_init t info)))"
proof -
  note n = intr_init_nth [OF assms]
  have "unat (route_vector (routes (intr_init t info) ! k)) = 33 + k" if "k < length (routes (intr_init t info))" for k
    using that n unat_of_nat_u8 [of "33 + k"] by (simp add: route_for_def split: prod.splits)
  then show ?thesis unfolding distinct_conv_nth by (metis add_left_cancel length_map nth_map)
qed

text \<open>C32. The routing table built at boot is exactly what the firmware's description asks for. Its
  \<open>k\<close>-th route serves the \<open>k\<close>-th wired request: each override of an ISA line with an interrupt
  number below 256, then each of the 16 ISA lines no override mentions, provided some
  controller's base is less than 256 below the number (modulo 2^32). The route has the
  request's source, number and flags, the vector \<open>33 + k\<close>, the first such controller, and the
  pin that added to its base gives the number; the vector leads back to the source. Requests
  beyond the 31 vectors get none.\<close>

theorem intr_init_routes:
  assumes "routes t = []" "\<not> routes_ready t" "next_vector t = 33" "length (mi_isos info) \<le> MAX_ISOS"
  shows "length (routes (intr_init t info)) = min 31 (length (wired_requests info))
    \<and> (\<forall>k < min 31 (length (wired_requests info)).
        let r = routes (intr_init t info) ! k; i = ioapic_index r in
        (isa_source r, route_gsi r, route_flags r) = wired_requests info ! k
        \<and> unat (route_vector r) = 33 + k
        \<and> i < length (mi_ioapics info) \<and> route_gsi r = ii_gsi_base (mi_ioapics info ! i) + ucast (ioapic_pin r)
        \<and> (\<forall>j<i. \<not> route_gsi r - ii_gsi_base (mi_ioapics info ! j) < 256)
        \<and> lookup_vector_isa (intr_init t info) (route_vector r) = Some (isa_source r))"
proof -
  note n = intr_init_nth [OF assms]
  have "let r = routes (intr_init t info) ! k; i = ioapic_index r in
        (isa_source r, route_gsi r, route_flags r) = wired_requests info ! k
        \<and> unat (route_vector r) = 33 + k
        \<and> i < length (mi_ioapics info) \<and> route_gsi r = ii_gsi_base (mi_ioapics info ! i) + ucast (ioapic_pin r)
        \<and> (\<forall>j<i. \<not> route_gsi r - ii_gsi_base (mi_ioapics info ! j) < 256)
        \<and> lookup_vector_isa (intr_init t info) (route_vector r) = Some (isa_source r)"
    if k: "k < min 31 (length (wired_requests info))" for k
  proof -
    obtain src gsi flags where q: "wired_requests info ! k = (src, gsi, flags)" by (metis prod.exhaust)
    have "wired info (wired_requests info ! k)"
      using k nth_mem [of k "wired_requests info"] by (simp add: wired_requests_def)
    then obtain i pin where l: "lookup_ioapic info gsi = Some (i, pin)" by (auto simp: q wired_iff)
    define r where "r = routes (intr_init t info) ! k"
    have r: "r = \<lparr> isa_source = src, route_gsi = gsi, ioapic_index = i, ioapic_pin = pin,
        route_vector = of_nat (33 + k), route_flags = flags \<rparr>"
      using n(2) [OF k] by (simp add: r_def route_for_def q l)
    have "unat (of_nat (33 + k) :: u8) = 33 + k" using k by (intro unat_of_nat_u8) simp
    moreover have "r \<in> set (routes (intr_init t info))" using k n(1) by (simp add: r_def)
    then have "lookup_vector_isa (intr_init t info) (route_vector r) = Some (isa_source r)"
      using find_by_key [OF intr_init_distinct [OF assms]] by (simp add: lookup_vector_isa_def)
    ultimately show ?thesis
      using lookup_ioapic_Some [OF l] unfolding r_def [symmetric] Let_def q r irq_route.simps by blast
  qed
  then show ?thesis using n(1) by blast
qed

definition demo_madt :: madt_info where
  "demo_madt = \<lparr> mi_lapic = 0xFEE00000, mi_flags = 1, mi_cpus = [],
     mi_ioapics = [\<lparr> ii_id = 0, ii_addr = 0xFEC00000, ii_gsi_base = 0 \<rparr>],
     mi_isos = [\<lparr> iso_bus = 0, iso_source = 0, iso_gsi = 2, iso_flags = 0 \<rparr>], mi_override = None \<rparr>"

definition demo_intr :: intr where
  "demo_intr = \<lparr> io_regs = (\<lambda>_ _. 0), ioapics = [], io_ready = False, next_vector = 33, vector_exhausted = False,
     routes = [], routes_ready = False, irq_cpu_next = 0, runtime_irqs = [] \<rparr>"

lemma demo_wired: "length (wired_requests demo_madt) = 15" "wired_requests demo_madt ! 0 = (0, 2, 0)"
    "wired_requests demo_madt ! 1 = (1, 1, 0)"
  by (simp_all add: wired_requests_def requests_def wired_def demo_madt_def upt_rec)

theorem intr_init_routes_witness:
  "length (routes (intr_init demo_intr demo_madt)) = 15
   \<and> (let r = routes (intr_init demo_intr demo_madt) ! 0 in isa_source r = 0 \<and> route_gsi r = 2
        \<and> unat (route_vector r) = 33 \<and> ioapic_index r < 1
        \<and> lookup_vector_isa (intr_init demo_intr demo_madt) (route_vector r) = Some 0)
   \<and> (let r = routes (intr_init demo_intr demo_madt) ! 1 in isa_source r = 1 \<and> route_gsi r = 1
        \<and> unat (route_vector r) = 34 \<and> ioapic_index r < 1
        \<and> lookup_vector_isa (intr_init demo_intr demo_madt) (route_vector r) = Some 1)"
proof -
  have "routes demo_intr = []" "\<not> routes_ready demo_intr" "next_vector demo_intr = 33" "length (mi_isos demo_madt) \<le> MAX_ISOS"
    by (simp_all add: demo_intr_def demo_madt_def MAX_ISOS_def)
  note r = intr_init_routes [OF this, unfolded demo_wired]
  have "length (mi_ioapics demo_madt) = 1" by (simp add: demo_madt_def)
  then show ?thesis
    using r [THEN conjunct2, rule_format, of 0] r [THEN conjunct2, rule_format, of 1] r [THEN conjunct1] demo_wired(2,3)
    by (simp add: Let_def)
qed

section \<open>The multiple-APIC table\<close>

text \<open>The entries the parser knows, with their encoding as the specification of the table lays it out; \<open>Other\<close> is an entry of any
  other type.\<close>

datatype madt_entry = LocalApic u8 u8 u32 | IoApic u8 u32 u32 | SourceOverride u8 u8 u32 u16 | AddressOverride u64 | Other u8 "u8 list"

fun entry_ok :: "madt_entry \<Rightarrow> bool" where
  "entry_ok (Other ty bs) \<longleftrightarrow> ty \<notin> {0, 1, 2, 5} \<and> length bs < 254"
| "entry_ok _ \<longleftrightarrow> True"

fun encode_entry :: "madt_entry \<Rightarrow> u8 list" where
  "encode_entry (LocalApic acpi apic fl) = [0, 8, acpi, apic] @ to_le 4 (unat fl)"
| "encode_entry (IoApic i addr base) = [1, 12, i, 0] @ to_le 4 (unat addr) @ to_le 4 (unat base)"
| "encode_entry (SourceOverride bus src gsi fl) = [2, 10, bus, src] @ to_le 4 (unat gsi) @ to_le 2 (unat fl)"
| "encode_entry (AddressOverride a) = [5, 12, 0, 0] @ to_le 8 (unat a)"
| "encode_entry (Other ty bs) = [ty, of_nat (length bs + 2)] @ bs"

fun record_entry :: "madt_info \<Rightarrow> madt_entry \<Rightarrow> madt_info" where
  "record_entry info (LocalApic acpi apic fl) = info\<lparr> mi_cpus := add_upto MAX_CPUS (mi_cpus info)
     \<lparr> ci_acpi_id = acpi, ci_apic_id = apic, ci_enabled = (unat fl mod 2 \<noteq> 0) \<rparr> \<rparr>"
| "record_entry info (IoApic i addr base) = info\<lparr> mi_ioapics := add_upto MAX_IOAPICS (mi_ioapics info)
     \<lparr> ii_id = i, ii_addr = addr, ii_gsi_base = base \<rparr> \<rparr>"
| "record_entry info (SourceOverride bus src gsi fl) = info\<lparr> mi_isos := add_upto MAX_ISOS (mi_isos info)
     \<lparr> iso_bus = bus, iso_source = src, iso_gsi = gsi, iso_flags = fl \<rparr> \<rparr>"
| "record_entry info (AddressOverride a) = info\<lparr> mi_override := Some a \<rparr>"
| "record_entry info (Other ty bs) = info"

lemma mbytes_append: "mbytes m a (i + j) = mbytes m a i @ mbytes m (a + of_nat i) j"
proof -
  have "[0..<i + j] = [0..<i] @ map (\<lambda>k. k + i) [0..<j]"
    using upt_add_eq_append [of 0 i j] map_add_upt [of i j] by (simp add: add.commute)
  then show ?thesis by (simp add: mbytes_def algebra_simps)
qed

lemma mbytes_split:
  "mbytes m a (length (xs @ ys)) = xs @ ys \<longleftrightarrow> mbytes m a (length xs) = xs \<and> mbytes m (a + of_nat (length xs)) (length ys) = ys"
  unfolding length_append mbytes_append by (rule append_eq_append_conv) (simp add: mbytes_def)

lemma mbytes_Cons: "mbytes m a (length (x # xs)) = x # xs \<longleftrightarrow> m a = x \<and> mbytes m (a + 1) (length xs) = xs"
  using mbytes_split [of m a "[x]" xs] by (simp add: mbytes_def)

lemma mget_le: "mbytes m a n = to_le n v \<Longrightarrow> v < 256 ^ n \<Longrightarrow> mget m a n = v"
  by (simp add: mget_def le_bytes_to_le)

lemma mbytes_fields:
  assumes "mbytes m a (length (w # x # y # z # xs)) = w # x # y # z # xs"
  shows "m a = w" "m (a + 1) = x" "m (a + 2) = y" "m (a + 3) = z" "mbytes m (a + 4) (length xs) = xs"
proof -
  have n: "a + 1 + 1 = a + 2" "a + 2 + 1 = a + 3" "a + 3 + 1 = a + 4" by (simp_all add: add.assoc)
  show "m a = w" "m (a + 1) = x" "m (a + 2) = y" "m (a + 3) = z" "mbytes m (a + 4) (length xs) = xs"
    using assms unfolding mbytes_Cons n by blast+
qed

lemma mbytes_two:
  assumes "mbytes m b (length (to_le n v @ to_le k w)) = to_le n v @ to_le k w"
  shows "mbytes m b n = to_le n v" "mbytes m (b + of_nat n) k = to_le k w"
  using assms unfolding mbytes_split by simp_all

lemma parse_encoded:
  assumes m: "mbytes m a (length (encode_entry e)) = encode_entry e" and ok: "entry_ok e"
  shows "unat (m (a + 1)) = length (encode_entry e)" "parse_entry m info (m a) a = record_entry info e"
proof -
  have b: "unat (x :: u32) < 256 ^ 4" "unat (y :: u16) < 256 ^ 2" "unat (z :: u64) < 256 ^ 8" for x y z
    using unsigned_less [of x] unsigned_less [of y] unsigned_less [of z] by simp_all
  have eight: "a + 4 + of_nat 4 = a + 8" by simp
  have "unat (m (a + 1)) = length (encode_entry e) \<and> parse_entry m info (m a) a = record_entry info e"
  proof (cases e)
    case (LocalApic acpi apic fl)
    note f = mbytes_fields [OF m [unfolded LocalApic encode_entry.simps append.simps]]
    show ?thesis using f(1-4) mget_le [OF _ b(1)] f(5) by (simp add: LocalApic parse_entry_def)
  next
    case (IoApic i addr base)
    note f = mbytes_fields [OF m [unfolded IoApic encode_entry.simps append.simps]]
    show ?thesis using f(1-4) mbytes_two [OF f(5), unfolded eight] mget_le [OF _ b(1)] by (simp add: IoApic parse_entry_def)
  next
    case (SourceOverride bus src gsi fl)
    note f = mbytes_fields [OF m [unfolded SourceOverride encode_entry.simps append.simps]]
    show ?thesis using f(1-4) mbytes_two [OF f(5), unfolded eight] mget_le [OF _ b(1)] mget_le [OF _ b(2)] by (simp add: SourceOverride parse_entry_def)
  next
    case (AddressOverride v)
    note f = mbytes_fields [OF m [unfolded AddressOverride encode_entry.simps append.simps]]
    show ?thesis using f(1-4) mget_le [OF _ b(3)] f(5) by (simp add: AddressOverride parse_entry_def)
  next
    case (Other ty bs)
    have "m a = ty" "m (a + 1) = of_nat (length bs + 2)"
      using m unfolding Other encode_entry.simps append.simps mbytes_Cons by blast+
    moreover have "unat (of_nat (length bs + 2) :: u8) = length bs + 2" by (rule unat_of_nat_u8) (use ok in \<open>simp add: Other\<close>)
    ultimately have "m a = ty" "unat (m (a + 1)) = length bs + 2" by (simp_all only:)
    then show ?thesis using ok by (simp add: Other parse_entry_def)
  qed
  then show "unat (m (a + 1)) = length (encode_entry e)" "parse_entry m info (m a) a = record_entry info e" by blast+
qed

lemma walk_encoded:
  assumes "mbytes m (a + of_nat off) (length (concat (map encode_entry es))) = concat (map encode_entry es)" "list_all entry_ok es"
  shows "madt_walk m a off (off + length (concat (map encode_entry es))) info = fold (\<lambda>e info. record_entry info e) es info"
  using assms
proof (induction es arbitrary: off info)
  case Nil
  then show ?case by (simp add: madt_walk.simps [of m a off])
next
  case (Cons e es)
  let ?n = "length (encode_entry e)" and ?rest = "concat (map encode_entry es)"
  have two: "2 \<le> ?n" by (cases e) simp_all
  have s: "mbytes m (a + of_nat off) ?n = encode_entry e" "mbytes m (a + of_nat off + of_nat ?n) (length ?rest) = ?rest"
    using Cons.prems(1) unfolding list.map concat.simps mbytes_split by blast+
  have ok: "entry_ok e" "list_all entry_ok es" using Cons.prems(2) by simp_all
  note p = parse_encoded [OF s(1) ok(1)]
  have "madt_walk m a off (off + (?n + length ?rest)) info
      = madt_walk m a (off + ?n) (off + ?n + length ?rest) (parse_entry m info (m (a + of_nat off)) (a + of_nat off))"
    using two p(1) by (subst madt_walk.simps) (simp add: Let_def add.assoc)
  also have "\<dots> = fold (\<lambda>e info. record_entry info e) es (record_entry info e)"
    unfolding p(2) by (rule Cons.IH [OF _ ok(2)]) (use s(2) in \<open>simp add: add.assoc\<close>)
  finally show ?case by simp
qed

text \<open>C31. Parsing a multiple-APIC table returns what was encoded in it. For a table with the right signature and checksum whose
  body is the encoding of a list of entries, \<^verbatim>\<open>madt::parse\<close> terminates and returns the header fields and
  exactly these entries in order, unknown ones skipped, each kind up to the size of its array.\<close>

theorem madt_parse_encoded:
  assumes sig: "mbytes m a 4 = ascii ''APIC''" and sum: "sdt_checksum_valid m a"
    and len: "mget m (a + 4) 4 = SDT_HEADER + 8 + length (concat (map encode_entry es))"
    and body: "mbytes m (a + of_nat (SDT_HEADER + 8)) (length (concat (map encode_entry es))) = concat (map encode_entry es)"
    and ok: "list_all entry_ok es"
  shows "madt_parse m a = Some (fold (\<lambda>e info. record_entry info e) es
    \<lparr> mi_lapic = of_nat (mget m (a + of_nat SDT_HEADER) 4), mi_flags = of_nat (mget m (a + of_nat SDT_HEADER + 4) 4),
      mi_cpus = [], mi_ioapics = [], mi_isos = [], mi_override = None \<rparr>)"
  unfolding madt_parse_def len walk_encoded [OF body ok] using sig sum by simp

text \<open>A table with one CPU, one I/O APIC and one override.\<close>

definition demo_entries :: "madt_entry list" where
  "demo_entries = [LocalApic 0 0 1, IoApic 0 0xFEC00000 0, SourceOverride 0 0 2 0]"

definition demo_table :: "u8 list" where
  "demo_table = ascii ''APIC'' @ to_le 4 74 @ [1, 215] @ replicate 26 0 @ to_le 4 0xFEE00000 @ to_le 4 1
     @ concat (map encode_entry demo_entries)"

definition table_memory :: "u8 list \<Rightarrow> u64 \<Rightarrow> u8" where
  "table_memory bs x = (if unat x < length bs then bs ! unat x else 0)"

lemma mbytes_table:
  assumes "k + n \<le> length bs" "length bs < 2 ^ 64"
  shows "mbytes (table_memory bs) (of_nat k) n = take n (drop k bs)"
proof (rule nth_equalityI)
  fix i assume "i < length (mbytes (table_memory bs) (of_nat k) n)"
  then have i: "i < n" by (simp add: mbytes_def)
  have "unat (of_nat k + of_nat i :: u64) = k + i"
    using i assms by (simp add: unat_of_nat take_bit_eq_mod flip: of_nat_add)
  then show "mbytes (table_memory bs) (of_nat k) n ! i = take n (drop k bs) ! i"
    using i assms by (simp add: mbytes_def table_memory_def)
qed (use assms in \<open>simp add: mbytes_def\<close>)

lemma to_le_numeral: "to_le (numeral k) v = of_nat (v mod 256) # to_le (pred_numeral k) (v div 256)"
  by (simp only: numeral_eq_Suc [of k] to_le.simps)

lemma demo_body: "concat (map encode_entry demo_entries)
    = [0, 8, 0, 0, 1, 0, 0, 0, 1, 12, 0, 0, 0, 0, 0xC0, 0xFE, 0, 0, 0, 0, 2, 10, 0, 0, 2, 0, 0, 0, 0, 0]"
  by (simp add: demo_entries_def to_le_numeral)

lemma demo_sig: "ascii ''APIC'' = [65, 80, 73, 67]"
  by (simp add: ascii_def)

lemma demo_words: "to_le 4 74 = [74, 0, 0, 0]" "to_le 4 0xFEE00000 = [0, 0, 0xE0, 0xFE]" "to_le 4 1 = [1, 0, 0, 0]"
  by (simp_all add: to_le_numeral)

lemmas demo_table_bytes = demo_table_def [unfolded demo_sig demo_words append.simps] demo_body

lemma fold_replicate_zero: "fold (\<lambda>b a. a + b) (replicate n 0) (x :: u8) = x"
  by (induction n arbitrary: x) simp_all

theorem madt_parse_encoded_witness:
  "madt_parse (table_memory demo_table) 0 = Some (fold (\<lambda>e info. record_entry info e) demo_entries
    \<lparr> mi_lapic = of_nat (mget (table_memory demo_table) (0 + of_nat SDT_HEADER) 4),
      mi_flags = of_nat (mget (table_memory demo_table) (0 + of_nat SDT_HEADER + 4) 4),
      mi_cpus = [], mi_ioapics = [], mi_isos = [], mi_override = None \<rparr>)"
proof (rule madt_parse_encoded)
  let ?m = "table_memory demo_table"
  have l: "length demo_table = 74" by (simp add: demo_table_bytes)
  have b: "mbytes ?m (of_nat k) n = take n (drop k demo_table)" if "k + n \<le> 74" for k n
    using mbytes_table [of k n demo_table] that l by simp
  have n: "length (concat (map encode_entry demo_entries)) = 30" by (simp add: demo_table_bytes(2))
  have d: "drop 44 demo_table = concat (map encode_entry demo_entries)" unfolding demo_table_bytes(1) by simp
  have c: "sum_zero demo_table" by (simp add: sum_zero_def demo_table_bytes fold_replicate_zero del: fold_replicate)
  show "mbytes ?m 0 4 = ascii ''APIC''" using b [of 0 4] by (simp add: demo_table_bytes ascii_def)
  have len: "mget ?m (0 + 4) 4 = 74" using b [of 4 4] by (simp add: demo_table_bytes mget_def)
  then show "mget ?m (0 + 4) 4 = SDT_HEADER + 8 + length (concat (map encode_entry demo_entries))"
    by (simp add: demo_table_bytes SDT_HEADER_def)
  show "mbytes ?m (0 + of_nat (SDT_HEADER + 8)) (length (concat (map encode_entry demo_entries))) = concat (map encode_entry demo_entries)"
    using b [of 44 30] d by (simp add: SDT_HEADER_def n)
  have "mbytes ?m 0 74 = demo_table" using b [of 0 74] l by simp
  then show "sdt_checksum_valid ?m 0" using len c by (simp add: sdt_checksum_valid_def)
  show "list_all entry_ok demo_entries" by (simp add: demo_entries_def)
qed

end
