(* ===== verification/Disasm.thy ===== *)
theory Disasm
  imports Lodax_Prelude
begin

text \<open>
  The disassembler, \<^verbatim>\<open>kernel/src/arch/disasm.rs\<close>, and the loop of the console's \<^verbatim>\<open>disasm\<close> command that lists
  instructions with it, in \<^verbatim>\<open>katerm/termcmds/cmd_symbols.rs\<close>. A result is the text written and the
  length returned; the outer \<open>None\<close> is an abort. The text written before an early return stays
  written, as in the code. Every length returned is positive and within the bytes given, which is
  what makes the listing end.
\<close>

section \<open>Formatting\<close>

definition digit :: "nat \<Rightarrow> char" where
  "digit d = char_of (if d < 10 then 48 + d else 87 + d)"

function radix :: "nat \<Rightarrow> nat \<Rightarrow> string" where
  "radix b n = (if n < b \<or> b < 2 then [digit n] else radix b (n div b) @ [digit (n mod b)])"
  by pat_completeness auto
termination by (relation "measure snd") (auto simp: div_less_dividend)

declare radix.simps [simp del]

definition hex :: "nat \<Rightarrow> string" where "hex n = ''0x'' @ radix 16 n"

definition hex2 :: "nat \<Rightarrow> string" where
  "hex2 n = (if n < 16 then ''0'' @ radix 16 n else radix 16 n)"

definition signed_dec :: "int \<Rightarrow> string" where
  "signed_dec d = (if 0 \<le> d then ''+'' @ radix 10 (nat d) else ''-'' @ radix 10 (nat (- d)))"

text \<open>\<^verbatim>\<open>{:#x}\<close> of a value, with a minus sign for negative ones.\<close>

definition signed_hex :: "int \<Rightarrow> string" where
  "signed_hex d = (if 0 \<le> d then hex (nat d) else ''-'' @ hex (nat (- d)))"

section \<open>Registers and mnemonics\<close>

definition REG64 :: "string list" where
  "REG64 = [''rax'', ''rcx'', ''rdx'', ''rbx'', ''rsp'', ''rbp'', ''rsi'', ''rdi'',
     ''r8'', ''r9'', ''r10'', ''r11'', ''r12'', ''r13'', ''r14'', ''r15'']"

definition REG32 :: "string list" where
  "REG32 = [''eax'', ''ecx'', ''edx'', ''ebx'', ''esp'', ''ebp'', ''esi'', ''edi'',
     ''r8d'', ''r9d'', ''r10d'', ''r11d'', ''r12d'', ''r13d'', ''r14d'', ''r15d'']"

definition REG16 :: "string list" where
  "REG16 = [''ax'', ''cx'', ''dx'', ''bx'', ''sp'', ''bp'', ''si'', ''di'',
     ''r8w'', ''r9w'', ''r10w'', ''r11w'', ''r12w'', ''r13w'', ''r14w'', ''r15w'']"

definition REG8L :: "string list" where
  "REG8L = [''al'', ''cl'', ''dl'', ''bl'', ''spl'', ''bpl'', ''sil'', ''dil'',
     ''r8b'', ''r9b'', ''r10b'', ''r11b'', ''r12b'', ''r13b'', ''r14b'', ''r15b'']"

definition REG8H :: "string list" where
  "REG8H = [''al'', ''cl'', ''dl'', ''bl'', ''ah'', ''ch'', ''dh'', ''bh'']"

definition GRP1 :: "string list" where
  "GRP1 = [''add'', ''or'', ''adc'', ''sbb'', ''and'', ''sub'', ''xor'', ''cmp'']"

definition GRP2 :: "string list" where
  "GRP2 = [''rol'', ''ror'', ''rcl'', ''rcr'', ''shl'', ''shr'', ''?'', ''sar'']"

definition GRP3 :: "string list" where
  "GRP3 = [''test'', ''test'', ''not'', ''neg'', ''mul'', ''imul'', ''div'', ''idiv'']"

definition JCC :: "string list" where
  "JCC = [''jo'', ''jno'', ''jb'', ''jnb'', ''jz'', ''jnz'', ''jbe'', ''ja'',
     ''js'', ''jns'', ''jp'', ''jnp'', ''jl'', ''jnl'', ''jle'', ''jg'']"

definition CMOVCC :: "string list" where
  "CMOVCC = [''cmovo'', ''cmovno'', ''cmovb'', ''cmovae'', ''cmove'', ''cmovne'', ''cmovbe'', ''cmova'',
     ''cmovs'', ''cmovns'', ''cmovp'', ''cmovnp'', ''cmovl'', ''cmovge'', ''cmovle'', ''cmovg'']"

definition SETCC :: "string list" where
  "SETCC = [''seto'', ''setno'', ''setb'', ''setae'', ''sete'', ''setne'', ''setbe'', ''seta'',
     ''sets'', ''setns'', ''setp'', ''setnp'', ''setl'', ''setge'', ''setle'', ''setg'']"

definition SYSOP :: "string list" where
  "SYSOP = [''sgdt'', ''sidt'', ''lgdt'', ''lidt'', ''smsw'', ''?'', ''lmsw'', ''?'']"

text \<open>The fields the prefixes set. Without a REX prefix the three extension bits are 0, so the index into the
  eight legacy byte registers is below 8.\<close>

record ctx =
  c_addr :: u64
  c_bytes :: "u8 list"
  ext_r :: nat
  ext_x :: nat
  ext_b :: nat
  c_wide :: bool
  has_rex :: bool
  opsz16 :: bool
  addrsz32 :: bool

definition reg64 :: "nat \<Rightarrow> nat \<Rightarrow> string" where "reg64 rm ext = REG64 ! (rm + 8 * ext)"
definition reg32 :: "nat \<Rightarrow> nat \<Rightarrow> string" where "reg32 rm ext = REG32 ! (rm + 8 * ext)"
definition reg16 :: "nat \<Rightarrow> nat \<Rightarrow> string" where "reg16 rm ext = REG16 ! (rm + 8 * ext)"

definition reg8 :: "nat \<Rightarrow> bool \<Rightarrow> nat \<Rightarrow> string" where
  "reg8 rm rex ext = (if rex then REG8L ! (rm + 8 * ext) else REG8H ! (rm + 8 * ext))"

definition reg_text :: "ctx \<Rightarrow> nat \<Rightarrow> bool \<Rightarrow> nat \<Rightarrow> bool \<Rightarrow> string" where
  "reg_text c idx byte_sz ext op16 =
     (if byte_sz then reg8 idx (has_rex c) ext
      else if op16 then reg16 idx ext
      else if c_wide c then reg64 idx ext
      else reg32 idx ext)"

section \<open>Operands\<close>

definition modrm_md :: "u8 list \<Rightarrow> nat" where "modrm_md bs = unat (hd bs) div 64"
definition modrm_reg :: "u8 list \<Rightarrow> nat" where "modrm_reg bs = unat (hd bs) div 8 mod 8"
definition modrm_low :: "u8 list \<Rightarrow> nat" where "modrm_low bs = unat (hd bs) mod 8"

text \<open>The \<open>n\<close> bytes from the start of a list as an integer, if there are that many.\<close>

definition imm :: "nat \<Rightarrow> u8 list \<Rightarrow> nat option" where
  "imm n bs = (if n \<le> length bs then Some (le_bytes (take n bs)) else None)"

definition imm_i8 :: "u8 list \<Rightarrow> int option" where
  "imm_i8 bs = map_option (\<lambda>v. sint (of_nat v :: u8)) (imm 1 bs)"

definition imm_i32 :: "u8 list \<Rightarrow> int option" where
  "imm_i32 bs = map_option (\<lambda>v. sint (of_nat v :: u32)) (imm 4 bs)"

definition ptr_reg :: "ctx \<Rightarrow> nat \<Rightarrow> nat \<Rightarrow> string" where
  "ptr_reg c r ext = (if addrsz32 c then reg32 r ext else reg64 r ext)"

definition sib_text :: "ctx \<Rightarrow> nat \<Rightarrow> nat \<Rightarrow> bool \<Rightarrow> int \<Rightarrow> string" where
  "sib_text c sib sbase has_base disp =
     (let sidx = sib div 8 mod 8; have_idx = (sidx \<noteq> 4) in
      ''['' @ (if has_base then ptr_reg c sbase (ext_b c) else '''')
        @ (if have_idx then ''+'' @ ptr_reg c sidx (ext_x c) @ ''*'' @ radix 10 (2 ^ (sib div 64)) else '''')
        @ (if disp \<noteq> 0 \<or> \<not> has_base \<and> \<not> have_idx then signed_dec disp else '''') @ '']'')"

definition sib_ea :: "ctx \<Rightarrow> nat \<Rightarrow> u8 list \<Rightarrow> (string \<times> nat) option" where
  "sib_ea c md extra =
     (case extra of
        [] \<Rightarrow> None
      | s # rest \<Rightarrow>
          let sib = unat s; sbase = sib mod 8; has_base = (\<not> (md = 0 \<and> sbase = 5)) in
          if md = 0 \<and> sbase = 5 then map_option (\<lambda>d. (sib_text c sib sbase has_base d, 6)) (imm_i32 rest)
          else if md = 1 then map_option (\<lambda>d. (sib_text c sib sbase has_base d, 3)) (imm_i8 rest)
          else if md = 2 then map_option (\<lambda>d. (sib_text c sib sbase has_base d, 6)) (imm_i32 rest)
          else Some (sib_text c sib sbase has_base 0, 2))"

text \<open>\<^verbatim>\<open>write_ea\<close>: nothing is written when it returns \<^verbatim>\<open>None\<close>.\<close>

definition write_ea :: "ctx \<Rightarrow> u8 list \<Rightarrow> bool \<Rightarrow> bool \<Rightarrow> (string \<times> nat) option" where
  "write_ea c bs byte_sz op16 =
     (case bs of
        [] \<Rightarrow> None
      | _ # extra \<Rightarrow>
          let md = modrm_md bs; rm = modrm_low bs; base = ptr_reg c rm (ext_b c) in
          if md = 3 then Some (reg_text c rm byte_sz (ext_b c) op16, 1)
          else if \<not> addrsz32 c \<and> md = 0 \<and> rm = 5 then map_option (\<lambda>d. (''[rip'' @ signed_dec d @ '']'', 5)) (imm_i32 extra)
          else if addrsz32 c \<and> md = 0 \<and> rm = 5 then map_option (\<lambda>d. (''['' @ hex d @ '']'', 5)) (imm 4 extra)
          else if rm \<noteq> 4 then
            (if md = 0 then Some (''['' @ base @ '']'', 1)
             else if md = 1 then map_option (\<lambda>d. (''['' @ base @ signed_dec d @ '']'', 2)) (imm_i8 extra)
             else map_option (\<lambda>d. (''['' @ base @ signed_dec d @ '']'', 5)) (imm_i32 extra))
          else sib_ea c md extra)"

section \<open>Results\<close>

type_synonym dis = "(string \<times> nat option) option"

definition fin :: "string \<Rightarrow> nat \<Rightarrow> dis" where "fin s pos = Some (s, Some pos)"

text \<open>An operand whose failure is ignored, and one whose failure ends the function with \<^verbatim>\<open>None\<close>.\<close>

definition soft_ea :: "ctx \<Rightarrow> string \<Rightarrow> nat \<Rightarrow> bool \<Rightarrow> bool \<Rightarrow> string \<Rightarrow> dis" where
  "soft_ea c s pos byte_sz op16 after =
     (case write_ea c (drop pos (c_bytes c)) byte_sz op16 of
        None \<Rightarrow> fin (s @ after) pos
      | Some (t, n) \<Rightarrow> fin (s @ t @ after) (pos + n))"

definition hard_ea :: "ctx \<Rightarrow> string \<Rightarrow> nat \<Rightarrow> bool \<Rightarrow> (string \<Rightarrow> nat \<Rightarrow> dis) \<Rightarrow> dis" where
  "hard_ea c s pos byte_sz k =
     (case write_ea c (drop pos (c_bytes c)) byte_sz (opsz16 c) of
        None \<Rightarrow> Some (s, None)
      | Some (t, n) \<Rightarrow> k (s @ t) (pos + n))"

text \<open>An immediate operand of \<open>n\<close> bytes: nothing happens when the bytes end before it.\<close>

definition with_imm :: "ctx \<Rightarrow> nat \<Rightarrow> string \<Rightarrow> nat \<Rightarrow> (nat \<Rightarrow> string) \<Rightarrow> dis" where
  "with_imm c n s pos f =
     (case imm n (drop pos (c_bytes c)) of None \<Rightarrow> fin s pos | Some v \<Rightarrow> fin (s @ f v) (pos + n))"

definition with_i8 :: "ctx \<Rightarrow> string \<Rightarrow> nat \<Rightarrow> (int \<Rightarrow> string) \<Rightarrow> dis" where
  "with_i8 c s pos f = with_imm c 1 s pos (\<lambda>v. f (sint (of_nat v :: u8)))"

text \<open>A branch target relative to the end of the instruction.\<close>

definition rel8 :: "ctx \<Rightarrow> string \<Rightarrow> nat \<Rightarrow> dis" where
  "rel8 c mn pos = with_imm c 1 '''' pos
     (\<lambda>v. mn @ '' '' @ hex (unat (c_addr c + of_nat (pos + 1) + of_int (sint (of_nat v :: u8)))))"

definition rel32 :: "ctx \<Rightarrow> string \<Rightarrow> nat \<Rightarrow> dis" where
  "rel32 c mn pos = with_imm c 4 '''' pos
     (\<lambda>v. mn @ '' '' @ hex (unat (c_addr c + of_nat (pos + 4) + of_int (sint (of_nat v :: u32)))))"

text \<open>The two-operand helper, called where its failure is ignored.\<close>

definition modrm_rm :: "ctx \<Rightarrow> string \<Rightarrow> nat \<Rightarrow> bool \<Rightarrow> bool \<Rightarrow> dis" where
  "modrm_rm c s pos to_reg byte_sz =
     (let rest = drop pos (c_bytes c) in
      if rest = [] then fin s pos
      else
        let r = reg_text c (modrm_reg rest) byte_sz (ext_r c) (opsz16 c) in
        if to_reg then soft_ea c (s @ r @ '','') pos byte_sz (opsz16 c) ''''
        else case write_ea c rest byte_sz (opsz16 c) of
               None \<Rightarrow> fin s pos
             | Some (t, n) \<Rightarrow> fin (s @ t @ '','' @ r) (pos + n))"

section \<open>One-byte opcodes\<close>

text \<open>The early return for a missing ModRM byte, the register field of that byte, and the accumulator.\<close>

definition need :: "ctx \<Rightarrow> string \<Rightarrow> nat \<Rightarrow> dis \<Rightarrow> dis" where
  "need c s pos k = (if length (c_bytes c) \<le> pos then fin s pos else k)"

definition mreg :: "ctx \<Rightarrow> nat \<Rightarrow> nat" where "mreg c pos = modrm_reg (drop pos (c_bytes c))"

definition acc :: "ctx \<Rightarrow> string" where "acc c = (if c_wide c then ''rax'' else ''eax'')"

text \<open>A signed 32-bit immediate printed with a minus sign; negating the smallest value overflows.\<close>

definition neg_i32 :: "ctx \<Rightarrow> string \<Rightarrow> string \<Rightarrow> nat \<Rightarrow> dis" where
  "neg_i32 c s pre pos =
     (case imm_i32 (drop pos (c_bytes c)) of
        None \<Rightarrow> fin s pos
      | Some d \<Rightarrow> if d = - (2 ^ 31) then None else fin (s @ pre @ signed_hex d) (pos + 4))"

definition invalid_ops :: "nat list" where
  "invalid_ops = [0x06, 0x07, 0x0E, 0x16, 0x17, 0x1E, 0x1F, 0x27, 0x2F, 0x37, 0x3F, 0x60, 0x61,
     0x62, 0x9A, 0xC4, 0xC5, 0xCE, 0xD4, 0xD5, 0xD6, 0xEA]"

definition arm_alu :: "ctx \<Rightarrow> nat \<Rightarrow> nat \<Rightarrow> dis" where
  "arm_alu c op pos =
     (if op < 0x40 \<and> op mod 8 < 4 then modrm_rm c (GRP1 ! (op div 8) @ '' '') pos (odd (op div 2)) (even op)
      else if op < 0x40 \<and> op mod 8 = 4 then with_imm c 1 (GRP1 ! (op div 8) @ '' al,'') pos hex
      else if op < 0x40 \<and> op mod 8 = 5 then with_imm c 4 (GRP1 ! (op div 8) @ '' '' @ acc c @ '','') pos hex
      else if op \<in> set invalid_ops then fin (''db '' @ hex op) pos
      else if 0x50 \<le> op \<and> op \<le> 0x57 then fin (''push '' @ reg64 (op - 0x50) (ext_b c)) pos
      else if 0x58 \<le> op \<and> op \<le> 0x5F then fin (''pop '' @ reg64 (op - 0x58) (ext_b c)) pos
      else if op = 0x63 then need c '''' pos
        (soft_ea c (''movsxd '' @ reg64 (mreg c pos) (ext_r c) @ '','') pos False (opsz16 c) '''')
      else if op = 0x68 then neg_i32 c '''' ''push '' pos
      else if op = 0x6A then with_i8 c '''' pos (\<lambda>v. ''push '' @ signed_hex v)
      else if op = 0x69 \<or> op = 0x6B then need c '''' pos
        (hard_ea c (''imul '' @ reg64 (mreg c pos) (ext_r c) @ '','') pos False (\<lambda>s pos.
          if op = 0x69 then neg_i32 c (s @ '','') '''' pos else with_i8 c (s @ '','') pos signed_hex))
      else fin '''' pos)"

definition sreg_name :: "nat \<Rightarrow> string" where
  "sreg_name r = (if r = 0 then ''es'' else if r = 1 then ''cs'' else if r = 2 then ''ss'' else if r = 3 then ''ds''
     else if r = 4 then ''fs'' else if r = 5 then ''gs'' else ''?'')"

definition arm_mov :: "ctx \<Rightarrow> nat \<Rightarrow> nat \<Rightarrow> dis" where
  "arm_mov c op pos =
     (if 0x70 \<le> op \<and> op \<le> 0x7F then rel8 c (JCC ! (op mod 16)) pos
      else if 0x80 \<le> op \<and> op \<le> 0x83 then need c '''' pos
        (hard_ea c (GRP1 ! mreg c pos @ '' '') pos (op = 0x80 \<or> op = 0x82) (\<lambda>s pos.
          if op = 0x80 \<or> op = 0x82 then with_imm c 1 (s @ '','') pos hex
          else if op = 0x81 then with_imm c 4 (s @ '','') pos hex
          else with_i8 c (s @ '','') pos signed_hex))
      else if 0x84 \<le> op \<and> op \<le> 0x87 then
        (let mn = (if op \<le> 0x85 then ''test '' else ''xchg ''); byte_sz = (op = 0x84 \<or> op = 0x86) in
         need c mn pos (hard_ea c mn pos byte_sz (\<lambda>s pos'.
           fin (s @ '','' @ reg_text c (mreg c pos) byte_sz (ext_r c) (opsz16 c)) pos')))
      else if 0x88 \<le> op \<and> op \<le> 0x8B then modrm_rm c ''mov '' pos (op = 0x8A \<or> op = 0x8B) (op = 0x88 \<or> op = 0x8A)
      else if op = 0x8C then need c ''mov '' pos
        (hard_ea c ''mov '' pos False (\<lambda>s pos'. fin (s @ '','' @ sreg_name (mreg c pos)) pos'))
      else if op = 0x8D then need c ''lea '' pos
        (soft_ea c (''lea '' @ reg64 (mreg c pos) (ext_r c) @ '','') pos False (opsz16 c) '''')
      else if op = 0x8E then need c ''mov '' pos
        (soft_ea c (''mov '' @ sreg_name (mreg c pos) @ '','') pos False (opsz16 c) '''')
      else if op = 0x8F then need c ''pop '' pos (soft_ea c ''pop '' pos False (opsz16 c) '''')
      else fin '''' pos)"

definition size_suffix :: "ctx \<Rightarrow> string \<Rightarrow> string" where
  "size_suffix c mn = mn @ (if c_wide c then ''q'' else ''d'')"

definition arm_string :: "ctx \<Rightarrow> nat \<Rightarrow> nat \<Rightarrow> dis" where
  "arm_string c op pos =
     (if op = 0x90 then fin ''nop'' pos
      else if 0x91 \<le> op \<and> op \<le> 0x97 then
        fin (if c_wide c then ''xchg rax,'' @ reg64 (op - 0x91) (ext_b c) else ''xchg eax,'' @ reg32 (op - 0x91) (ext_b c)) pos
      else if op = 0x98 then fin (if c_wide c then ''cdqe'' else ''cwde'') pos
      else if op = 0x99 then fin (if c_wide c then ''cqo'' else ''cdq'') pos
      else if op = 0x9B then fin ''fwait'' pos
      else if op = 0x9C then fin ''pushfq'' pos
      else if op = 0x9D then fin ''popfq'' pos
      else if op = 0x9E then fin ''sahf'' pos
      else if op = 0x9F then fin ''lahf'' pos
      else if op = 0xA0 then with_imm c 8 '''' pos (\<lambda>v. ''mov al,['' @ hex v @ '']'')
      else if op = 0xA1 then with_imm c 8 '''' pos (\<lambda>v. ''mov '' @ acc c @ '',['' @ hex v @ '']'')
      else if op = 0xA2 then with_imm c 8 '''' pos (\<lambda>v. ''mov ['' @ hex v @ ''],al'')
      else if op = 0xA3 then with_imm c 8 '''' pos (\<lambda>v. ''mov ['' @ hex v @ ''],'' @ acc c)
      else if op = 0xA4 then fin ''movsb'' pos
      else if op = 0xA5 then fin (size_suffix c ''movs'') pos
      else if op = 0xA6 then fin ''cmpsb'' pos
      else if op = 0xA7 then fin (size_suffix c ''cmps'') pos
      else if op = 0xAA then fin ''stosb'' pos
      else if op = 0xAB then fin (size_suffix c ''stos'') pos
      else if op = 0xAC then fin ''lodsb'' pos
      else if op = 0xAD then fin (size_suffix c ''lods'') pos
      else if op = 0xAE then fin ''scasb'' pos
      else if op = 0xAF then fin (size_suffix c ''scas'') pos
      else if op = 0xA8 then with_imm c 1 '''' pos (\<lambda>v. ''test al,'' @ hex v)
      else if op = 0xA9 then with_imm c 4 '''' pos (\<lambda>v. ''test '' @ acc c @ '','' @ hex v)
      else if 0xB0 \<le> op \<and> op \<le> 0xB7 then
        with_imm c 1 '''' pos (\<lambda>v. ''mov '' @ reg8 (op - 0xB0) (has_rex c) (ext_b c) @ '','' @ hex v)
      else if 0xB8 \<le> op \<and> op \<le> 0xBF then
        (if c_wide c then with_imm c 8 '''' pos (\<lambda>v. ''mov '' @ reg64 (op - 0xB8) (ext_b c) @ '','' @ hex v)
         else if opsz16 c then with_imm c 2 '''' pos (\<lambda>v. ''mov '' @ reg16 (op - 0xB8) (ext_b c) @ '','' @ hex v)
         else with_imm c 4 '''' pos (\<lambda>v. ''mov '' @ reg32 (op - 0xB8) (ext_b c) @ '','' @ hex v))
      else fin '''' pos)"

text \<open>\<^verbatim>\<open>enter\<close> asks for four bytes and consumes three.\<close>

definition enter_text :: "ctx \<Rightarrow> nat \<Rightarrow> dis" where
  "enter_text c pos =
     (case imm 4 (drop pos (c_bytes c)) of
        None \<Rightarrow> fin '''' pos
      | Some v \<Rightarrow> fin (''enter '' @ hex (v mod 2 ^ 16) @ '','' @ radix 10 (v div 2 ^ 16 mod 2 ^ 8)) (pos + 3))"

definition arm_shift :: "ctx \<Rightarrow> nat \<Rightarrow> nat \<Rightarrow> dis" where
  "arm_shift c op pos =
     (if op = 0xC0 \<or> op = 0xC1 then need c '''' pos
        (hard_ea c (GRP2 ! mreg c pos @ '' '') pos (op = 0xC0) (\<lambda>s pos. with_imm c 1 (s @ '','') pos hex))
      else if op = 0xC2 then with_imm c 2 '''' pos (\<lambda>v. ''ret '' @ hex v)
      else if op = 0xC3 then fin ''ret'' pos
      else if op = 0xCA then with_imm c 2 '''' pos (\<lambda>v. ''retf '' @ hex v)
      else if op = 0xCB then fin ''retf'' pos
      else if op = 0xC6 then need c ''mov byte '' pos
        (hard_ea c ''mov byte '' pos False (\<lambda>s pos. with_imm c 1 (s @ '','') pos hex))
      else if op = 0xC7 then need c ''mov '' pos
        (hard_ea c ''mov '' pos False (\<lambda>s pos. with_imm c 4 (s @ '','') pos hex))
      else if op = 0xC8 then enter_text c pos
      else if op = 0xC9 then fin ''leave'' pos
      else if op = 0xCC then fin ''int3'' pos
      else if op = 0xCD then with_imm c 1 '''' pos (\<lambda>v. ''int '' @ hex v)
      else if op = 0xCF then fin ''iretq'' pos
      else if op = 0xD0 \<or> op = 0xD1 then need c '''' pos
        (hard_ea c (GRP2 ! mreg c pos @ '' '') pos (op = 0xD0) (\<lambda>s pos. fin (s @ '',1'') pos))
      else if op = 0xD2 \<or> op = 0xD3 then need c '''' pos
        (hard_ea c (GRP2 ! mreg c pos @ '' '') pos (op = 0xD2) (\<lambda>s pos. fin (s @ '',cl'') pos))
      else if op = 0xD7 then fin ''xlat'' pos
      else fin '''' pos)"

definition arm_branch :: "ctx \<Rightarrow> nat \<Rightarrow> nat \<Rightarrow> dis" where
  "arm_branch c op pos =
     (if op = 0xE0 then rel8 c ''loopne'' pos
      else if op = 0xE1 then rel8 c ''loope'' pos
      else if op = 0xE2 then rel8 c ''loop'' pos
      else if op = 0xE3 then rel8 c (if addrsz32 c then ''jecxz'' else ''jrcxz'') pos
      else if op = 0xE4 then with_imm c 1 '''' pos (\<lambda>v. ''in al,'' @ hex v)
      else if op = 0xE5 then with_imm c 1 '''' pos (\<lambda>v. ''in eax,'' @ hex v)
      else if op = 0xE6 then with_imm c 1 '''' pos (\<lambda>v. ''out '' @ hex v @ '',al'')
      else if op = 0xE7 then with_imm c 1 '''' pos (\<lambda>v. ''out '' @ hex v @ '',eax'')
      else if op = 0xEC then fin ''in al,dx'' pos
      else if op = 0xED then fin ''in eax,dx'' pos
      else if op = 0xEE then fin ''out dx,al'' pos
      else if op = 0xEF then fin ''out dx,eax'' pos
      else if op = 0xE8 then rel32 c ''call'' pos
      else if op = 0xE9 then rel32 c ''jmp'' pos
      else if op = 0xEB then rel8 c ''jmp'' pos
      else fin '''' pos)"

definition grp5_name :: "nat \<Rightarrow> string" where
  "grp5_name g = (if g = 0 then ''inc '' else if g = 1 then ''dec '' else if g = 2 then ''call ''
     else if g = 3 then ''call far '' else if g = 4 then ''jmp '' else if g = 5 then ''jmp far ''
     else if g = 6 then ''push '' else ''? '')"

definition arm_unary :: "ctx \<Rightarrow> nat \<Rightarrow> nat \<Rightarrow> dis" where
  "arm_unary c op pos =
     (if op = 0xF4 then fin ''hlt'' pos
      else if op = 0xF5 then fin ''cmc'' pos
      else if op = 0xF6 \<or> op = 0xF7 then need c '''' pos
        (let g = mreg c pos in
         if g = 0 \<or> g = 1 then hard_ea c ''test '' pos (op = 0xF6) (\<lambda>s pos.
           if op = 0xF6 then with_imm c 1 (s @ '','') pos hex else with_imm c 4 (s @ '','') pos hex)
         else soft_ea c (GRP3 ! g @ '' '') pos (op = 0xF6) (opsz16 c) '''')
      else if op = 0xF8 then fin ''clc'' pos
      else if op = 0xF9 then fin ''stc'' pos
      else if op = 0xFA then fin ''cli'' pos
      else if op = 0xFB then fin ''sti'' pos
      else if op = 0xFC then fin ''cld'' pos
      else if op = 0xFD then fin ''std'' pos
      else if op = 0xFE then need c '''' pos
        (let g = mreg c pos in
         soft_ea c (if g = 0 then ''inc '' else if g = 1 then ''dec '' else ''? '') pos True (opsz16 c) '''')
      else if op = 0xFF then need c '''' pos (soft_ea c (grp5_name (mreg c pos)) pos False (opsz16 c) '''')
      else fin '''' pos)"

section \<open>Two-byte opcodes\<close>

definition sysop_text :: "ctx \<Rightarrow> nat \<Rightarrow> dis" where
  "sysop_text c pos =
     (let bs = drop pos (c_bytes c); reg = modrm_reg bs; low = modrm_low bs in
      if modrm_md bs = 3 then
        (if reg = 0 then fin ''vmrun'' (pos + 1)
         else if reg = 1 then fin ''vmmcall'' (pos + 1)
         else if reg = 2 then fin ''vmload'' (pos + 1)
         else if reg = 3 then fin ''vmsave'' (pos + 1)
         else if reg = 4 \<and> low = 1 then soft_ea c ''smsw'' pos False (opsz16 c) ''''
         else if reg = 6 \<and> low = 1 then soft_ea c ''lmsw'' pos False (opsz16 c) ''''
         else if reg = 7 \<and> low = 0 then fin ''swapgs'' (pos + 1)
         else if reg = 7 \<and> low = 1 then fin ''rdtscp'' (pos + 1)
         else fin (''sysop '' @ hex reg @ '','' @ hex low) (pos + 1))
      else soft_ea c (SYSOP ! reg @ '' '') pos False (opsz16 c) '''')"

definition simd_name :: "nat \<Rightarrow> string" where
  "simd_name e = [''movmskpd'', ''sqrt'', ''rsqrt'', ''rcp'', ''andps'', ''andnps'', ''orps'', ''xorps'',
     ''add'', ''mul'', ''cvt'', ''cvt'', ''sub'', ''min'', ''div'', ''max''] ! (e - 0x50)"

text \<open>The control and debug register moves.\<close>

definition mov_cr :: "ctx \<Rightarrow> nat \<Rightarrow> nat \<Rightarrow> dis" where
  "mov_cr c e pos =
     (let g = reg64 (mreg c pos) (ext_b c);
          k = radix 10 (modrm_low (drop pos (c_bytes c)) + 8 * ext_r c) in
      fin (if e = 0x20 then ''mov '' @ g @ '',cr'' @ k
           else if e = 0x21 then ''mov '' @ g @ '',dr'' @ k
           else if e = 0x22 then ''mov cr'' @ k @ '','' @ g
           else ''mov dr'' @ k @ '','' @ g) (pos + 1))"

text \<open>The common shape \<^verbatim>\<open>mnemonic reg64, r/m\<close>.\<close>

definition reg_from_rm :: "ctx \<Rightarrow> string \<Rightarrow> nat \<Rightarrow> bool \<Rightarrow> bool \<Rightarrow> dis" where
  "reg_from_rm c mn pos byte_sz op16 = need c mn pos
     (soft_ea c (mn @ reg64 (mreg c pos) (ext_r c) @ '','') pos byte_sz op16 '''')"

definition ext_low :: "ctx \<Rightarrow> nat \<Rightarrow> nat \<Rightarrow> dis option" where
  "ext_low c e pos =
     (if e = 0x01 then Some (need c '''' pos (sysop_text c pos))
      else if e = 0x05 then Some (fin ''syscall'' pos)
      else if e = 0x06 then Some (fin ''clts'' pos)
      else if e = 0x07 then Some (fin ''sysret'' pos)
      else if e = 0x08 then Some (fin ''invd'' pos)
      else if e = 0x09 then Some (fin ''wbinvd'' pos)
      else if e = 0x0B then Some (fin ''ud2'' pos)
      else if e = 0x0D then Some (soft_ea c ''prefetch'' pos False (opsz16 c) '''')
      else if e = 0x0E then Some (fin ''femms'' pos)
      else if e = 0x1F then Some (soft_ea c ''nop'' pos False (opsz16 c) '''')
      else if 0x20 \<le> e \<and> e \<le> 0x23 then Some (need c '''' pos (mov_cr c e pos))
      else if e = 0x30 then Some (fin ''wrmsr'' pos)
      else if e = 0x31 then Some (fin ''rdtsc'' pos)
      else if e = 0x32 then Some (fin ''rdmsr'' pos)
      else if e = 0x33 then Some (fin ''rdpmc'' pos)
      else if e = 0x34 then Some (fin ''sysenter'' pos)
      else if e = 0x35 then Some (fin ''sysexit'' pos)
      else if 0x40 \<le> e \<and> e \<le> 0x4F then Some (reg_from_rm c (CMOVCC ! (e mod 16) @ '' '') pos False (opsz16 c))
      else None)"

definition ext_mid :: "ctx \<Rightarrow> nat \<Rightarrow> nat \<Rightarrow> dis option" where
  "ext_mid c e pos =
     (if e = 0x28 \<or> e = 0x29 then Some
        (let mn = (if c_wide c then ''movapd '' else ''movaps ''); x = ''xmm'' @ radix 10 (mreg c pos) in
         need c mn pos
           (if e = 0x28 then soft_ea c (mn @ x @ '','') pos False (opsz16 c) ''''
            else soft_ea c mn pos False (opsz16 c) ('','' @ x)))
      else if 0x50 \<le> e \<and> e \<le> 0x5F then Some
        (let mn = simd_name e @ '' '' in
         need c mn pos (soft_ea c (mn @ ''xmm'' @ radix 10 (mreg c pos) @ '','') pos False (opsz16 c) ''''))
      else if 0x80 \<le> e \<and> e \<le> 0x8F then Some (rel32 c (JCC ! (e mod 16)) pos)
      else if 0x90 \<le> e \<and> e \<le> 0x9F then Some
        (need c '''' pos (soft_ea c (SETCC ! (e mod 16) @ '' '') pos True (opsz16 c) ''''))
      else if e = 0xA0 then Some (fin ''push fs'' pos)
      else if e = 0xA1 then Some (fin ''pop fs'' pos)
      else if e = 0xA8 then Some (fin ''push gs'' pos)
      else if e = 0xA9 then Some (fin ''pop gs'' pos)
      else if e = 0xA2 then Some (fin ''cpuid'' pos)
      else if e = 0xAA then Some (fin ''rsm'' pos)
      else if e = 0xA3 then Some (modrm_rm c ''bt '' pos False False)
      else if e = 0xAB then Some (modrm_rm c ''bts '' pos False False)
      else if e = 0xA5 \<or> e = 0xAD then Some
        (let mn = (if e = 0xA5 then ''shld '' else ''shrd '') in
         need c mn pos (hard_ea c mn pos False (\<lambda>s pos'.
           fin (s @ '','' @ reg64 (mreg c pos) (ext_r c) @ '',cl'') pos')))
      else if e = 0xAF then Some (reg_from_rm c ''imul '' pos False (opsz16 c))
      else if e = 0xB0 \<or> e = 0xB1 then Some (modrm_rm c ''cmpxchg '' pos False (e = 0xB0))
      else None)"

definition grp8_name :: "nat \<Rightarrow> string" where
  "grp8_name g = (if g = 4 then ''bt '' else if g = 5 then ''bts '' else if g = 6 then ''btr ''
     else if g = 7 then ''btc '' else ''? '')"

definition ext_high :: "ctx \<Rightarrow> nat \<Rightarrow> nat \<Rightarrow> dis option" where
  "ext_high c e pos =
     (if e = 0xB2 then Some (reg_from_rm c ''lss '' pos False (opsz16 c))
      else if e = 0xB4 then Some (reg_from_rm c ''lfs '' pos False (opsz16 c))
      else if e = 0xB5 then Some (reg_from_rm c ''lgs '' pos False (opsz16 c))
      else if e = 0xB6 then Some (reg_from_rm c ''movzx '' pos True (opsz16 c))
      else if e = 0xB7 then Some (reg_from_rm c ''movzx '' pos False True)
      else if e = 0xBA then Some (need c '''' pos
        (hard_ea c (grp8_name (mreg c pos)) pos False (\<lambda>s pos. with_imm c 1 (s @ '','') pos hex)))
      else if e = 0xBC then Some (modrm_rm c ''bsf '' pos True False)
      else if e = 0xBD then Some (modrm_rm c ''bsr '' pos True False)
      else if e = 0xBE then Some (reg_from_rm c ''movsx '' pos True (opsz16 c))
      else if e = 0xBF then Some (reg_from_rm c ''movsx '' pos False True)
      else if e = 0xC0 \<or> e = 0xC1 then Some (modrm_rm c ''xadd '' pos False (e = 0xC0))
      else if e = 0xC3 then Some (need c ''movnti '' pos
        (hard_ea c ''movnti '' pos False (\<lambda>s pos'. fin (s @ '','' @ reg64 (mreg c pos) (ext_r c)) pos')))
      else if e = 0xC7 then Some (need c '''' pos
        (soft_ea c (if mreg c pos = 1 then if c_wide c then ''cmpxchg16b '' else ''cmpxchg8b '' else ''?'')
           pos False (opsz16 c) ''''))
      else if 0xC8 \<le> e \<and> e \<le> 0xCF then Some (fin (''bswap '' @ reg64 (e - 0xC8) (ext_b c)) pos)
      else None)"

definition two_byte :: "ctx \<Rightarrow> nat \<Rightarrow> dis" where
  "two_byte c pos = need c '''' pos
     (let e = unat (c_bytes c ! pos); pos = pos + 1 in
      case ext_low c e pos of Some r \<Rightarrow> r
      | None \<Rightarrow> (case ext_mid c e pos of Some r \<Rightarrow> r
      | None \<Rightarrow> (case ext_high c e pos of Some r \<Rightarrow> r
      | None \<Rightarrow> fin (''db 0f '' @ hex2 e) (if length (c_bytes c) \<le> pos then pos else pos + 1))))"

section \<open>The entry point\<close>

fun prefixes :: "u8 list \<Rightarrow> nat \<times> bool \<times> bool \<times> nat \<Rightarrow> (nat \<times> bool \<times> bool \<times> nat) option" where
  "prefixes [] st = None"
| "prefixes (b # bs) (rex, o16, a32, pos) =
     (let v = unat b in
      if 0x40 \<le> v \<and> v \<le> 0x4F then prefixes bs (v, o16, a32, pos + 1)
      else if v = 0x66 then prefixes bs (rex, True, a32, pos + 1)
      else if v = 0x67 then prefixes bs (rex, o16, True, pos + 1)
      else if v \<in> set [0x26, 0x2E, 0x36, 0x3E, 0x64, 0x65, 0xF0, 0xF2, 0xF3] then prefixes bs (rex, o16, a32, pos + 1)
      else Some (rex, o16, a32, pos))"

definition one_byte :: "ctx \<Rightarrow> nat \<Rightarrow> nat \<Rightarrow> dis" where
  "one_byte c op pos =
     (if op = 0x0F then two_byte c pos
      else if op < 0x70 \<or> op \<in> set invalid_ops then arm_alu c op pos
      else if op < 0x90 then arm_mov c op pos
      else if op < 0xC0 then arm_string c op pos
      else if op < 0xE0 then arm_shift c op pos
      else if op < 0xF0 then arm_branch c op pos
      else arm_unary c op pos)"

definition disasm_one :: "u64 \<Rightarrow> u8 list \<Rightarrow> dis" where
  "disasm_one addr bytes =
     (case prefixes bytes (0, False, False, 0) of
        None \<Rightarrow> Some ('''', None)
      | Some (rex, o16, a32, pos) \<Rightarrow>
          one_byte \<lparr>c_addr = addr, c_bytes = bytes, ext_r = rex div 4 mod 2, ext_x = rex div 2 mod 2, ext_b = rex mod 2,
            c_wide = odd (rex div 8), has_rex = (rex \<noteq> 0), opsz16 = o16, addrsz32 = a32\<rparr>
            (unat (bytes ! pos)) (pos + 1))"

section \<open>The lengths returned\<close>

named_theorems fits_rules \<open>bounds of the length a decoding step returns\<close>

text \<open>The result of a step that started after byte \<open>lo - 1\<close>: an abort only at an immediate that cannot be negated, and
  a length between \<open>lo\<close> and the number of bytes given.\<close>

definition min_imm :: "u8 list \<Rightarrow> bool" where
  "min_imm bs \<longleftrightarrow> (\<exists>k < length bs. imm_i32 (drop k bs) = Some (- (2 ^ 31)))"

definition fits :: "u8 list \<Rightarrow> nat \<Rightarrow> dis \<Rightarrow> bool" where
  "fits bs lo d =
     (case d of None \<Rightarrow> min_imm bs
      | Some (s, None) \<Rightarrow> True
      | Some (s, Some n) \<Rightarrow> lo \<le> n \<and> n \<le> length bs)"

lemma imm_length: "imm n bs = Some v \<Longrightarrow> n \<le> length bs"
  by (simp add: imm_def split: if_splits)

lemma imm_i32_length: "imm_i32 bs = Some v \<Longrightarrow> 4 \<le> length bs"
  by (auto simp: imm_i32_def dest: imm_length)

lemma imm_i8_length: "imm_i8 bs = Some v \<Longrightarrow> 1 \<le> length bs"
  by (auto simp: imm_i8_def dest: imm_length)

lemma sib_ea_length: "sib_ea c md bs = Some (t, n) \<Longrightarrow> n \<le> length bs + 1"
  by (cases bs) (auto simp: sib_ea_def Let_def split: if_splits dest: imm_i32_length imm_i8_length)

lemma write_ea_length: "write_ea c bs b o16 = Some (t, n) \<Longrightarrow> n \<le> length bs"
  by (cases bs) (auto simp: write_ea_def Let_def split: if_splits
      dest: imm_i32_length imm_i8_length imm_length sib_ea_length)

lemma fits_fin [fits_rules]: "lo \<le> pos \<Longrightarrow> pos \<le> length (c_bytes c) \<Longrightarrow> fits (c_bytes c) lo (fin s pos)"
  by (simp add: fits_def fin_def)

lemma fits_if [fits_rules]: "(P \<Longrightarrow> fits bs lo a) \<Longrightarrow> (\<not> P \<Longrightarrow> fits bs lo b) \<Longrightarrow> fits bs lo (if P then a else b)"
  by simp

lemma fits_soft_ea [fits_rules]:
  "lo \<le> pos \<Longrightarrow> pos \<le> length (c_bytes c) \<Longrightarrow> fits (c_bytes c) lo (soft_ea c s pos b o16 t)"
  by (auto simp: soft_ea_def fits_def fin_def split: option.split dest!: write_ea_length)

lemma fits_hard_ea [fits_rules]:
  assumes "\<And>s p. pos \<le> p \<Longrightarrow> p \<le> length (c_bytes c) \<Longrightarrow> fits (c_bytes c) lo (k s p)"
    and "pos \<le> length (c_bytes c)"
  shows "fits (c_bytes c) lo (hard_ea c s pos b k)"
proof (cases "write_ea c (drop pos (c_bytes c)) b (opsz16 c)")
  case None
  then show ?thesis by (simp add: hard_ea_def fits_def)
next
  case (Some r)
  obtain t n where r: "r = (t, n)" by (cases r)
  have "n \<le> length (drop pos (c_bytes c))" using Some r by (intro write_ea_length) simp
  then have "fits (c_bytes c) lo (k (s @ t) (pos + n))" using assms(2) by (intro assms(1)) simp_all
  then show ?thesis using Some r by (simp add: hard_ea_def)
qed

lemma fits_with_imm [fits_rules]:
  "lo \<le> pos \<Longrightarrow> pos \<le> length (c_bytes c) \<Longrightarrow> fits (c_bytes c) lo (with_imm c n s pos f)"
  by (auto simp: with_imm_def fits_def fin_def split: option.split dest!: imm_length)

lemma fits_with_i8 [fits_rules]: "lo \<le> pos \<Longrightarrow> pos \<le> length (c_bytes c) \<Longrightarrow> fits (c_bytes c) lo (with_i8 c s pos f)"
  unfolding with_i8_def by (rule fits_with_imm)

lemma fits_rel8 [fits_rules]: "lo \<le> pos \<Longrightarrow> pos \<le> length (c_bytes c) \<Longrightarrow> fits (c_bytes c) lo (rel8 c mn pos)"
  unfolding rel8_def by (rule fits_with_imm)

lemma fits_rel32 [fits_rules]: "lo \<le> pos \<Longrightarrow> pos \<le> length (c_bytes c) \<Longrightarrow> fits (c_bytes c) lo (rel32 c mn pos)"
  unfolding rel32_def by (rule fits_with_imm)

lemma fits_modrm_rm [fits_rules]:
  "lo \<le> pos \<Longrightarrow> pos \<le> length (c_bytes c) \<Longrightarrow> fits (c_bytes c) lo (modrm_rm c s pos t b)"
  unfolding modrm_rm_def Let_def
  by (intro fits_rules; (assumption | (auto simp: fits_def fin_def split: option.split dest!: write_ea_length)[1])?)

lemma fits_need [fits_rules]:
  "lo \<le> pos \<Longrightarrow> pos \<le> length (c_bytes c) \<Longrightarrow> (pos < length (c_bytes c) \<Longrightarrow> fits (c_bytes c) lo k) \<Longrightarrow> fits (c_bytes c) lo (need c s pos k)"
  by (auto simp: need_def intro: fits_fin)

lemma fits_neg_i32 [fits_rules]:
  "lo \<le> pos \<Longrightarrow> pos \<le> length (c_bytes c) \<Longrightarrow> fits (c_bytes c) lo (neg_i32 c s pre pos)"
  by (auto simp: neg_i32_def fits_def fin_def min_imm_def split: option.split dest: imm_i32_length intro!: exI [of _ pos])

lemma fits_reg_from_rm [fits_rules]:
  "lo \<le> pos \<Longrightarrow> pos \<le> length (c_bytes c) \<Longrightarrow> fits (c_bytes c) lo (reg_from_rm c mn pos b o16)"
  unfolding reg_from_rm_def by (intro fits_rules)

lemma fits_enter [fits_rules]: "lo \<le> pos \<Longrightarrow> pos \<le> length (c_bytes c) \<Longrightarrow> fits (c_bytes c) lo (enter_text c pos)"
  by (auto simp: enter_text_def fits_def fin_def split: option.split dest!: imm_length)

lemma fits_sysop [fits_rules]:
  "lo \<le> pos \<Longrightarrow> pos < length (c_bytes c) \<Longrightarrow> fits (c_bytes c) lo (sysop_text c pos)"
  unfolding sysop_text_def Let_def by (intro fits_rules) simp_all

lemma fits_mov_cr [fits_rules]:
  "lo \<le> pos \<Longrightarrow> pos < length (c_bytes c) \<Longrightarrow> fits (c_bytes c) lo (mov_cr c e pos)"
  unfolding mov_cr_def Let_def by (intro fits_rules) simp_all

lemma fits_alu:
  assumes "lo \<le> pos" "pos \<le> length (c_bytes c)"
  shows "fits (c_bytes c) lo (arm_alu c op pos)"
  unfolding arm_alu_def Let_def
  by (intro fits_rules; (rule assms | assumption | erule order_trans [OF assms(1)]))

lemma fits_mov:
  assumes "lo \<le> pos" "pos \<le> length (c_bytes c)"
  shows "fits (c_bytes c) lo (arm_mov c op pos)"
  unfolding arm_mov_def Let_def
  by (intro fits_rules; (rule assms | assumption | erule order_trans [OF assms(1)]))

lemma fits_string:
  assumes "lo \<le> pos" "pos \<le> length (c_bytes c)"
  shows "fits (c_bytes c) lo (arm_string c op pos)"
  unfolding arm_string_def Let_def
  by (intro fits_rules; (rule assms | assumption | erule order_trans [OF assms(1)]))

lemma fits_shift:
  assumes "lo \<le> pos" "pos \<le> length (c_bytes c)"
  shows "fits (c_bytes c) lo (arm_shift c op pos)"
  unfolding arm_shift_def Let_def
  by (intro fits_rules; (rule assms | assumption | erule order_trans [OF assms(1)]))

lemma fits_branch:
  assumes "lo \<le> pos" "pos \<le> length (c_bytes c)"
  shows "fits (c_bytes c) lo (arm_branch c op pos)"
  unfolding arm_branch_def Let_def
  by (intro fits_rules; (rule assms | assumption | erule order_trans [OF assms(1)]))

lemma fits_unary:
  assumes "lo \<le> pos" "pos \<le> length (c_bytes c)"
  shows "fits (c_bytes c) lo (arm_unary c op pos)"
  unfolding arm_unary_def Let_def
  by (intro fits_rules; (rule assms | assumption | erule order_trans [OF assms(1)]))

definition fits_opt :: "u8 list \<Rightarrow> nat \<Rightarrow> dis option \<Rightarrow> bool" where
  "fits_opt bs lo r = (case r of None \<Rightarrow> True | Some d \<Rightarrow> fits bs lo d)"

lemma fits_opt_rules [fits_rules]:
  "fits_opt bs lo None"
  "fits bs lo d \<Longrightarrow> fits_opt bs lo (Some d)"
  "(P \<Longrightarrow> fits_opt bs lo a) \<Longrightarrow> (\<not> P \<Longrightarrow> fits_opt bs lo b) \<Longrightarrow> fits_opt bs lo (if P then a else b)"
  by (simp_all add: fits_opt_def)

lemma fits_ext_low:
  assumes "lo \<le> pos" "pos \<le> length (c_bytes c)"
  shows "fits_opt (c_bytes c) lo (ext_low c e pos)"
  unfolding ext_low_def Let_def
  by (intro fits_rules; (rule assms | assumption | erule order_trans [OF assms(1)]))

lemma fits_ext_mid:
  assumes "lo \<le> pos" "pos \<le> length (c_bytes c)"
  shows "fits_opt (c_bytes c) lo (ext_mid c e pos)"
  unfolding ext_mid_def Let_def
  by (intro fits_rules; (rule assms | assumption | erule order_trans [OF assms(1)]))

lemma fits_ext_high:
  assumes "lo \<le> pos" "pos \<le> length (c_bytes c)"
  shows "fits_opt (c_bytes c) lo (ext_high c e pos)"
  unfolding ext_high_def Let_def
  by (intro fits_rules; (rule assms | assumption | erule order_trans [OF assms(1)]))

lemma fits_two_byte:
  assumes "lo \<le> pos" "pos \<le> length (c_bytes c)"
  shows "fits (c_bytes c) lo (two_byte c pos)"
  unfolding two_byte_def Let_def
proof (intro fits_need assms)
  assume "pos < length (c_bytes c)"
  then have p: "lo \<le> pos + 1" "pos + 1 \<le> length (c_bytes c)" using assms by auto
  show "fits (c_bytes c) lo (case ext_low c (unat (c_bytes c ! pos)) (pos + 1) of Some r \<Rightarrow> r
      | None \<Rightarrow> (case ext_mid c (unat (c_bytes c ! pos)) (pos + 1) of Some r \<Rightarrow> r
      | None \<Rightarrow> (case ext_high c (unat (c_bytes c ! pos)) (pos + 1) of Some r \<Rightarrow> r
      | None \<Rightarrow> fin (''db 0f '' @ hex2 (unat (c_bytes c ! pos)))
          (if length (c_bytes c) \<le> pos + 1 then pos + 1 else pos + 1 + 1))))"
    using fits_ext_low [OF p, of "unat (c_bytes c ! pos)"] fits_ext_mid [OF p, of "unat (c_bytes c ! pos)"]
      fits_ext_high [OF p, of "unat (c_bytes c ! pos)"] p
    by (auto simp: fits_opt_def intro!: fits_fin split: option.split)
qed

lemma prefixes_pos:
  "prefixes bs (rex, o16, a32, pos) = Some (rex', o', a', p) \<Longrightarrow> pos \<le> p \<and> p < pos + length bs"
proof (induction bs arbitrary: rex o16 a32 pos)
  case (Cons b bs)
  have "(\<exists>r o1 a1. prefixes (b # bs) (rex, o16, a32, pos) = prefixes bs (r, o1, a1, pos + 1))
      \<or> prefixes (b # bs) (rex, o16, a32, pos) = Some (rex, o16, a32, pos)"
    by (simp only: prefixes.simps Let_def split: if_split) blast
  then consider r o1 a1 where "prefixes bs (r, o1, a1, pos + 1) = Some (rex', o', a', p)" | "p = pos"
    unfolding Cons.prems by (metis option.inject prod.inject)
  then show ?case
  proof cases
    case 1
    then show ?thesis using Cons.IH [OF 1] by simp
  qed simp
qed simp

lemma disasm_one_fits: "fits bs 1 (disasm_one a bs)"
proof (cases "prefixes bs (0, False, False, 0)")
  case None
  then show ?thesis by (simp add: disasm_one_def fits_def)
next
  case (Some r)
  obtain rex o16 a32 p where r: "r = (rex, o16, a32, p)" by (cases r) auto
  have p: "1 \<le> p + 1" "p + 1 \<le> length bs" using prefixes_pos [OF Some [unfolded r]] by auto
  let ?c = "\<lparr>c_addr = a, c_bytes = bs, ext_r = rex div 4 mod 2, ext_x = rex div 2 mod 2, ext_b = rex mod 2,
            c_wide = odd (rex div 8), has_rex = (rex \<noteq> 0), opsz16 = o16, addrsz32 = a32\<rparr>"
  have "fits (c_bytes ?c) 1 (one_byte ?c (unat (bs ! p)) (p + 1))"
    unfolding one_byte_def
    by (intro fits_if fits_two_byte fits_alu fits_mov fits_string fits_shift fits_branch fits_unary;
      simp only: ctx.simps p)
  then show ?thesis using Some by (simp add: disasm_one_def r)
qed

section \<open>Listing instructions\<close>

definition hex_upper :: "nat \<Rightarrow> char" where
  "hex_upper d = char_of (if d < 10 then 48 + d else 55 + d)"

text \<open>The loop of the \<^verbatim>\<open>disasm\<close> command, with the lines printed so far. A byte that cannot be decoded is printed but
  not counted. The text goes through a buffer of 256 bytes.\<close>

partial_function (option) disasm_loop ::
    "u64 \<Rightarrow> u8 list \<Rightarrow> nat \<Rightarrow> nat \<Rightarrow> nat \<Rightarrow> nat \<Rightarrow> (u64 \<times> string) list \<Rightarrow> (u64 \<times> string) list option option" where
  "disasm_loop addr bytes bytes_read cnt pos printed out =
     (if printed < cnt \<and> pos < bytes_read then
        case checked_add addr (of_nat pos) of
          None \<Rightarrow> Some None
        | Some inst_addr \<Rightarrow>
            (case disasm_one inst_addr (drop pos bytes) of
               None \<Rightarrow> Some None
             | Some (s, r) \<Rightarrow>
                 (case r of
                    Some len \<Rightarrow> disasm_loop addr bytes bytes_read cnt (pos + len) (printed + 1) (out @ [(inst_addr, take 256 s)])
                  | None \<Rightarrow>
                      let b = unat (bytes ! pos) in
                      disasm_loop addr bytes bytes_read cnt (pos + 1) printed
                        (out @ [(inst_addr, ''db 0x'' @ [hex_upper (b div 16), hex_upper (b mod 16)])])))
      else Some (Some out))"

lemma disasm_one_length:
  "disasm_one a bs = Some (s, Some n) \<Longrightarrow> 1 \<le> n \<and> n \<le> length bs"
  using disasm_one_fits [of bs a] by (simp add: fits_def)

lemma disasm_loop_stop:
  "\<not> (printed < cnt \<and> pos < bytes_read) \<Longrightarrow> disasm_loop addr bytes bytes_read cnt pos printed out = Some (Some out)"
  by (subst disasm_loop.simps) (rule if_not_P)

lemmas disasm_loop_go = trans [OF disasm_loop.simps if_P]

lemma disasm_loop_returns:
  assumes "bytes_read \<le> length bytes"
  shows "\<exists>r. disasm_loop addr bytes bytes_read cnt pos printed out = Some r
    \<and> (\<forall>ls. r = Some ls \<longrightarrow> length ls \<le> length out + (bytes_read - pos))"
proof (induction "bytes_read - pos" arbitrary: pos printed out rule: less_induct)
  case less
  let ?goal = "\<lambda>pos v out. \<exists>r. v = Some r \<and> (\<forall>ls. r = Some ls \<longrightarrow> length ls \<le> length out + (bytes_read - pos))"
  show ?case
  proof (cases "printed < cnt \<and> pos < bytes_read")
    case False
    show ?thesis using disasm_loop_stop [OF False] by simp
  next
    case True
    have step: "?goal pos (disasm_loop addr bytes bytes_read cnt (pos + n) p (out @ [l])) out" if "1 \<le> n" for n p l
    proof -
      have "bytes_read - (pos + n) < bytes_read - pos" using True that by linarith
      from less [OF this, of p "out @ [l]"] obtain r where
        "disasm_loop addr bytes bytes_read cnt (pos + n) p (out @ [l]) = Some r"
        "\<forall>ls. r = Some ls \<longrightarrow> length ls \<le> length (out @ [l]) + (bytes_read - (pos + n))" by blast
      moreover have "length (out @ [l]) + (bytes_read - (pos + n)) \<le> length out + (bytes_read - pos)"
        using True that by (simp, linarith)
      ultimately show ?thesis by (meson order_trans)
    qed
    show ?thesis
    proof (cases "checked_add addr (of_nat pos)")
      case None
      then show ?thesis unfolding disasm_loop_go [OF True] by simp
    next
      case ia: (Some ia)
      show ?thesis
      proof (cases "disasm_one ia (drop pos bytes)")
        case None
        then show ?thesis unfolding disasm_loop_go [OF True] by (simp add: ia)
      next
        case (Some sr)
        then obtain s r where d: "disasm_one ia (drop pos bytes) = Some (s, r)" by (cases sr) simp
        show ?thesis
        proof (cases r)
          case None
          show ?thesis unfolding disasm_loop_go [OF True] ia d None Let_def option.case prod.case by (rule step) simp
        next
          case (Some n)
          have "1 \<le> n" using disasm_one_length [OF d [unfolded Some]] by simp
          then show ?thesis unfolding disasm_loop_go [OF True] ia d Some option.case prod.case by (rule step)
        qed
      qed
    qed
  qed
qed

section \<open>Examples\<close>

lemmas disasm_eval = disasm_one_def one_byte_def invalid_ops_def Let_def fin_def need_def hex_def radix.simps digit_def
  imm_def imm_i32_def imm_i8_def with_imm_def with_i8_def write_ea_def soft_ea_def hard_ea_def modrm_rm_def rel8_def rel32_def
  modrm_md_def modrm_reg_def modrm_low_def mreg_def reg_text_def reg64_def reg32_def reg16_def reg8_def neg_i32_def
  REG64_def REG32_def REG16_def GRP1_def arm_alu_def arm_mov_def arm_string_def arm_shift_def arm_branch_def

lemma disasm_mov_call:
  "disasm_one 0x1000 [0x48, 0x89, 0xE5] = Some (''mov rbp,rsp'', Some 3)"
  "disasm_one 0x1000 [0xE8, 0xFB, 0xFF, 0xFF, 0xFF] = Some (''call 0x1000'', Some 5)"
  by (simp_all add: disasm_eval char_of_def bit_0)

text \<open>The exchange with the accumulator names the register before the one encoded, and a 16-bit operand size is
  ignored by the immediates of four bytes, so that two bytes of the next instruction are taken.\<close>

lemma disasm_misreads:
  "disasm_one 0 [0x91] = Some (''xchg eax,eax'', Some 1)"
  "disasm_one 0 [0x66, 0x81, 0xC0, 0x34, 0x12, 0x90, 0x90] = Some (''add ax,0x90901234'', Some 7)"
  "disasm_one 0 [0x68, 0, 0, 0, 0x80] = None"
  by (simp_all add: disasm_eval char_of_def bit_0)

section \<open>Properties\<close>

text \<open>C30. Decoding any bytes at any address aborts only if some four bytes of the input are the smallest signed
  number, whose negation overflows; whenever it returns a length, that length is at least 1 and
  at most the number of bytes given, so a caller that advances by it moves on and stays in the
  buffer.\<close>

theorem disasm_one_bounds:
  "case disasm_one a bs of
     None \<Rightarrow> \<exists>k < length bs. imm_i32 (drop k bs) = Some (- (2 ^ 31))
   | Some (s, None) \<Rightarrow> True
   | Some (s, Some n) \<Rightarrow> 1 \<le> n \<and> n \<le> length bs"
  using disasm_one_fits [of bs a] unfolding fits_def min_imm_def .

text \<open>C29. The listing of the console's \<^verbatim>\<open>disasm\<close> command ends for every memory contents, address and number of
  instructions asked for, although bytes that cannot be decoded are not counted: it returns,
  having printed at most one line per byte read, or it aborts.\<close>

theorem disasm_listing_ends:
  assumes "bytes_read \<le> length bytes"
  shows "\<exists>r. disasm_loop addr bytes bytes_read cnt 0 0 [] = Some r \<and> (\<forall>ls. r = Some ls \<longrightarrow> length ls \<le> bytes_read)"
  using disasm_loop_returns [OF assms, of addr cnt 0 0 "[]"] by simp

text \<open>Two bytes, of which the second is a prefix without an instruction.\<close>

theorem disasm_listing_ends_witness:
  "length [0xC3, 0x66 :: u8] = 2 \<and>
   (\<exists>r. disasm_loop 0x1000 [0xC3, 0x66] 2 10 0 0 [] = Some r \<and> (\<forall>ls. r = Some ls \<longrightarrow> length ls \<le> 2))"
  using disasm_listing_ends [of 2 "[0xC3, 0x66]" "0x1000" 10] by simp

end
