(* ===== verification/Ext4.thy ===== *)
theory Ext4
  imports Lodax_Prelude
begin

text \<open>
  The ext4 reader of the boot loader, \<^verbatim>\<open>boot/src/load_kernel.rs\<close>: GPT scan, sector reads, inodes, extents,
  block maps, file contents and the root directory. The firmware's block read is an argument \<open>rb\<close>:
  \<open>rb lba n\<close> is what \<^verbatim>\<open>read_blocks\<close> puts into a buffer of \<open>n\<close> bytes, or \<open>None\<close> for an error. A routine
  aborts (a panic), fails (\<^verbatim>\<open>None\<close> in the code) or is done. Sizes and addresses are numbers whose
  overflow is an abort. Structure fields the code never reads are left out.
\<close>

section \<open>Outcomes and arithmetic\<close>

datatype 'a res = Abort | Fail | Done 'a

fun bindr :: "'a res \<Rightarrow> ('a \<Rightarrow> 'b res) \<Rightarrow> 'b res" where
  "bindr Abort f = Abort"
| "bindr Fail f = Fail"
| "bindr (Done x) f = f x"

lemma bindr_DoneE:
  assumes "bindr r f = Done y"
  obtains x where "r = Done x" "f x = Done y"
  using assms by (cases r) auto

definition lim :: "nat \<Rightarrow> nat \<Rightarrow> nat res" where
  "lim w n = (if n < 2 ^ w then Done n else Abort)"

abbreviation uadd :: "nat \<Rightarrow> nat \<Rightarrow> nat res" where "uadd a b \<equiv> lim 64 (a + b)"
abbreviation umul :: "nat \<Rightarrow> nat \<Rightarrow> nat res" where "umul a b \<equiv> lim 64 (a * b)"

definition req :: "bool \<Rightarrow> unit res" where "req P = (if P then Done () else Abort)"

definition of_opt :: "'a option \<Rightarrow> 'a res" where
  "of_opt r = (case r of None \<Rightarrow> Fail | Some x \<Rightarrow> Done x)"

text \<open>A loop over a list of items that carries an accumulator.\<close>

fun foldr_res :: "('a \<Rightarrow> 'b \<Rightarrow> 'b res) \<Rightarrow> 'a list \<Rightarrow> 'b \<Rightarrow> 'b res" where
  "foldr_res f [] b = Done b"
| "foldr_res f (x # xs) b = bindr (f x b) (foldr_res f xs)"

section \<open>The block device\<close>

type_synonym blocks = "nat \<Rightarrow> nat \<Rightarrow> u8 list option"

definition SECTOR_SIZE :: nat where "SECTOR_SIZE = 512"

text \<open>A block device handle: \<open>None\<close> if its protocol cannot be opened, else its block size and its reads.\<close>

type_synonym handle = "(nat \<times> blocks) option"

definition read_sector_raw :: "handle \<Rightarrow> nat \<Rightarrow> u8 list \<Rightarrow> u8 list res" where
  "read_sector_raw h sector buf =
     bindr (of_opt h) (\<lambda>(block_size, rb).
     bindr (umul sector SECTOR_SIZE) (\<lambda>byte_offset.
     bindr (req (block_size \<noteq> 0)) (\<lambda>_.
       let start_block = byte_offset div block_size; block_offset = byte_offset mod block_size;
           n = (if SECTOR_SIZE \<le> block_size then block_size
                else (SECTOR_SIZE + block_size - 1) div block_size * block_size) in
       bindr (of_opt (rb start_block n)) (\<lambda>block_buf.
         let copy_len = min SECTOR_SIZE (n - block_offset) in
         Done (take copy_len (drop block_offset block_buf) @ drop copy_len buf)))))"

definition EXT4_GUID :: "nat list" where
  "EXT4_GUID = [0x3DAF, 0x0FC6, 0x8483, 0x4772, 0x798E, 0x693D, 0x47D8, 0xE47D]"

text \<open>The entries of one sector of the partition table; the first of the wanted type gives its first block.\<close>

fun scan_entries :: "u8 list \<Rightarrow> nat \<Rightarrow> nat list \<Rightarrow> nat option res" where
  "scan_entries buf entry_size [] = Done None"
| "scan_entries buf entry_size (i # is) =
     (let off = i * entry_size in
      if SECTOR_SIZE < off + entry_size then Done None
      else
        bindr (req (off + 16 \<le> SECTOR_SIZE)) (\<lambda>_.
        if map (\<lambda>j. rd buf (off + 2 * j) 2) [0..<8] = EXT4_GUID then
          bindr (req (off + 48 \<le> SECTOR_SIZE)) (\<lambda>_. Done (Some (rd buf (off + 32) 8)))
        else scan_entries buf entry_size is))"

text \<open>The sector buffer outlives a failed handle, so the scan returns it with its answer.\<close>

definition step_buf :: "u8 list \<Rightarrow> u8 list res \<Rightarrow> (u8 list \<Rightarrow> (u8 list \<times> nat option) res) \<Rightarrow> (u8 list \<times> nat option) res" where
  "step_buf buf r k = (case r of Abort \<Rightarrow> Abort | Fail \<Rightarrow> Done (buf, None) | Done b \<Rightarrow> k b)"

fun scan_sectors :: "handle \<Rightarrow> nat \<Rightarrow> nat \<Rightarrow> nat \<Rightarrow> nat list \<Rightarrow> u8 list \<Rightarrow> (u8 list \<times> nat option) res" where
  "scan_sectors h entries_lba entry_size per_sector [] buf = Done (buf, None)"
| "scan_sectors h entries_lba entry_size per_sector (s # ss) buf =
     bindr (uadd entries_lba s) (\<lambda>lba.
       step_buf buf (read_sector_raw h lba buf) (\<lambda>buf.
         bindr (scan_entries buf entry_size [0..<per_sector]) (\<lambda>r.
           case r of Some lba \<Rightarrow> Done (buf, Some lba)
           | None \<Rightarrow> scan_sectors h entries_lba entry_size per_sector ss buf)))"

definition try_handle_for_ext4 :: "handle \<Rightarrow> u8 list \<Rightarrow> (u8 list \<times> nat option) res" where
  "try_handle_for_ext4 h buf =
     step_buf buf (read_sector_raw h 0 buf) (\<lambda>buf.
     step_buf buf (read_sector_raw h 1 buf) (\<lambda>buf.
       if take 8 buf \<noteq> map (of_nat \<circ> of_char) ''EFI PART'' then Done (buf, None)
       else
         let entries_lba = rd buf 72 8; num_entries = rd buf 80 4; entry_size = rd buf 84 4 in
         bindr (req (entry_size \<noteq> 0 \<and> SECTOR_SIZE div entry_size \<noteq> 0)) (\<lambda>_.
           let per_sector = SECTOR_SIZE div entry_size;
               sectors_needed = (num_entries + per_sector - 1) div per_sector in
           scan_sectors h entries_lba entry_size per_sector [0..<sectors_needed] buf)))"

fun try_handles :: "handle list \<Rightarrow> u8 list \<Rightarrow> (handle \<times> nat) res" where
  "try_handles [] buf = Fail"
| "try_handles (h # hs) buf =
     bindr (try_handle_for_ext4 h buf) (\<lambda>(buf, r).
       case r of Some lba \<Rightarrow> Done (h, lba) | None \<Rightarrow> try_handles hs buf)"

definition find_ext4_partition :: "handle list option \<Rightarrow> (handle \<times> nat) res" where
  "find_ext4_partition handles = bindr (of_opt handles) (\<lambda>hs. try_handles hs (replicate SECTOR_SIZE 0))"

section \<open>Sector reads\<close>

record sector_reader =
  r_read :: blocks
  r_block_size :: nat
  r_partition :: nat

definition reader_new :: "handle \<Rightarrow> nat \<Rightarrow> sector_reader res" where
  "reader_new h lba = bindr (of_opt h) (\<lambda>(block_size, rb).
     Done \<lparr> r_read = rb, r_block_size = block_size, r_partition = lba \<rparr>)"

definition read_one_sector :: "sector_reader \<Rightarrow> nat \<Rightarrow> nat \<Rightarrow> nat \<Rightarrow> u8 list \<Rightarrow> u8 list res" where
  "read_one_sector r byte_offset n i out =
     bindr (uadd byte_offset (i * SECTOR_SIZE)) (\<lambda>bs.
       let start = bs div r_block_size r; boff = bs mod r_block_size r;
           copy_len = min SECTOR_SIZE (n - i * SECTOR_SIZE) in
       bindr (of_opt (r_read r start (r_block_size r))) (\<lambda>block_buf.
       bindr (req (boff + copy_len \<le> r_block_size r)) (\<lambda>_.
         Done (out @ take copy_len (drop boff block_buf)))))"

definition read_ext4_sectors :: "sector_reader \<Rightarrow> nat \<Rightarrow> nat \<Rightarrow> u8 list res" where
  "read_ext4_sectors r sector n =
     (if n = 0 then Done []
      else
        bindr (uadd (r_partition r) sector) (\<lambda>absolute.
        bindr (umul absolute SECTOR_SIZE) (\<lambda>byte_offset.
        bindr (req (r_block_size r \<noteq> 0)) (\<lambda>_.
          if r_block_size r = SECTOR_SIZE then
            bindr (uadd n SECTOR_SIZE) (\<lambda>m.
            bindr (of_opt (r_read r (byte_offset div r_block_size r) ((m - 1) div SECTOR_SIZE * SECTOR_SIZE))) (\<lambda>buf.
              Done (take n buf)))
          else
            let total = n div SECTOR_SIZE + (if 0 < n mod SECTOR_SIZE then 1 else 0) in
            foldr_res (read_one_sector r byte_offset n) [0..<total] []))))"

section \<open>Inodes\<close>

record superblock =
  s_blocks_count_lo :: nat
  s_log_block_size :: nat
  s_blocks_per_group :: nat
  s_inodes_per_group :: nat
  s_magic :: nat
  s_rev_level :: nat
  s_inode_size :: nat
  s_feature_ro_compat :: nat

record inode =
  i_size_lo :: nat
  i_flags :: nat
  i_block :: "u8 list"
  i_size_high :: nat

text \<open>\<^verbatim>\<open>1024 << s_log_block_size\<close>: shifting by 64 or more aborts, bits shifted out are lost.\<close>

definition fs_block_size :: "superblock \<Rightarrow> nat res" where
  "fs_block_size sb = bindr (req (s_log_block_size sb < 64)) (\<lambda>_. Done (1024 * 2 ^ s_log_block_size sb mod 2 ^ 64))"

text \<open>The sectors that hold an inode: the first from the byte \<open>skip\<close> on, the others from their start.\<close>

function inode_rest :: "sector_reader \<Rightarrow> nat \<Rightarrow> nat \<Rightarrow> u8 list res" where
  "inode_rest r cur n =
     (if n = 0 then Done []
      else
        bindr (read_ext4_sectors r cur SECTOR_SIZE) (\<lambda>buf.
        bindr (uadd cur 1) (\<lambda>cur.
        bindr (inode_rest r cur (n - SECTOR_SIZE)) (\<lambda>rest. Done (take n buf @ rest)))))"
  by pat_completeness auto
termination by (relation "measure (\<lambda>(r, cur, n). n)") (auto simp: SECTOR_SIZE_def)

declare inode_rest.simps [simp del]

definition inode_bytes :: "sector_reader \<Rightarrow> nat \<Rightarrow> nat \<Rightarrow> nat \<Rightarrow> u8 list res" where
  "inode_bytes r sector skip n =
     bindr (read_ext4_sectors r sector SECTOR_SIZE) (\<lambda>buf.
     bindr (uadd sector 1) (\<lambda>cur.
       let copy_len = min (SECTOR_SIZE - skip) n in
       bindr (inode_rest r cur (n - copy_len)) (\<lambda>rest. Done (take copy_len (drop skip buf) @ rest))))"

definition read_inode :: "sector_reader \<Rightarrow> superblock \<Rightarrow> nat list \<Rightarrow> nat \<Rightarrow> inode res" where
  "read_inode r sb inode_tables inode_num =
     (if inode_num = 0 \<or> s_inodes_per_group sb = 0 then Fail
      else
        let inode_size = (if 1 \<le> s_rev_level sb \<and> s_inode_size sb \<noteq> 0 then s_inode_size sb else 128);
            group = (inode_num - 1) div s_inodes_per_group sb;
            index = (inode_num - 1) mod s_inodes_per_group sb in
        if length inode_tables \<le> group then Fail
        else
          bindr (fs_block_size sb) (\<lambda>block_size.
          bindr (umul (inode_tables ! group) block_size) (\<lambda>table.
          let inode_offset = index * inode_size in
          bindr (uadd (table div SECTOR_SIZE) (inode_offset div SECTOR_SIZE)) (\<lambda>sector.
          bindr (inode_bytes r sector (inode_offset mod SECTOR_SIZE) inode_size) (\<lambda>raw.
          bindr (req (112 \<le> inode_size)) (\<lambda>_.
            Done \<lparr> i_size_lo = rd raw 4 4, i_flags = rd raw 32 4, i_block = take 60 (drop 40 raw),
              i_size_high = rd raw 108 4 \<rparr>))))))"

section \<open>Extents\<close>

record extent =
  ee_block :: nat
  ee_len :: nat
  ee_start :: nat

definition EXTENT_HEADER_SIZE :: nat where "EXTENT_HEADER_SIZE = 12"
definition EXTENT_ENTRY_SIZE :: nat where "EXTENT_ENTRY_SIZE = 12"
definition EXTENT_MAGIC :: nat where "EXTENT_MAGIC = 0xF30A"

definition entry_off :: "nat \<Rightarrow> nat" where "entry_off i = EXTENT_HEADER_SIZE + i * EXTENT_ENTRY_SIZE"

text \<open>The offsets of the entries of a node: as many as its header says, as far as they fit.\<close>

definition node_entries :: "u8 list \<Rightarrow> nat list" where
  "node_entries raw = takeWhile (\<lambda>i. entry_off i + EXTENT_ENTRY_SIZE \<le> length raw) [0..<rd raw 2 2]"

definition node_depth :: "u8 list \<Rightarrow> nat" where "node_depth raw = rd raw 6 2"

definition leaf_entry :: "u8 list \<Rightarrow> nat \<Rightarrow> extent" where
  "leaf_entry raw i =
     (let off = entry_off i in
      \<lparr> ee_block = rd raw off 4, ee_len = rd raw (off + 4) 2 mod 0x8000,
        ee_start = rd raw (off + 6) 2 * 2 ^ 32 + rd raw (off + 8) 4 \<rparr>)"

definition index_child :: "u8 list \<Rightarrow> nat \<Rightarrow> nat" where
  "index_child raw i = (let off = entry_off i in rd raw (off + 8) 2 * 2 ^ 32 + rd raw (off + 4) 4)"

definition read_extent_block :: "sector_reader \<Rightarrow> superblock \<Rightarrow> nat \<Rightarrow> u8 list res" where
  "read_extent_block r sb block =
     bindr (fs_block_size sb) (\<lambda>block_size.
     bindr (umul block (block_size div SECTOR_SIZE)) (\<lambda>sector.
       let n = min block_size 4096 in
       bindr (read_ext4_sectors r sector n) (\<lambda>buf. Done (buf @ replicate (4096 - n) 0))))"

text \<open>The recursion over the nodes of the tree; \<open>fuel\<close> is the number of nested calls the stack has room for, and
  using it up is an abort.\<close>

primrec collect_leaf_extents :: "nat \<Rightarrow> sector_reader \<Rightarrow> superblock \<Rightarrow> nat \<Rightarrow> extent list \<Rightarrow> extent list res" where
  "collect_leaf_extents 0 r sb block extents = Abort"
| "collect_leaf_extents (Suc fuel) r sb block extents =
     bindr (read_extent_block r sb block) (\<lambda>raw.
       if rd raw 0 2 \<noteq> EXTENT_MAGIC then Fail
       else if node_depth raw = 0 then Done (extents @ map (leaf_entry raw) (node_entries raw))
       else foldr_res (\<lambda>i. collect_leaf_extents fuel r sb (index_child raw i)) (node_entries raw) extents)"

definition parse_extents :: "nat \<Rightarrow> sector_reader \<Rightarrow> superblock \<Rightarrow> inode \<Rightarrow> extent list res" where
  "parse_extents fuel r sb ino =
     (let raw = i_block ino in
      if rd raw 0 2 \<noteq> EXTENT_MAGIC then Fail
      else if node_depth raw = 0 then Done (map (leaf_entry raw) (node_entries raw))
      else foldr_res (\<lambda>i. collect_leaf_extents fuel r sb (index_child raw i)) (node_entries raw) [])"

text \<open>The search for one block: the leaf whose range holds it, or the last index entry at or below it.\<close>

fun find_leaf :: "u8 list \<Rightarrow> nat \<Rightarrow> nat list \<Rightarrow> nat res" where
  "find_leaf raw lb [] = Fail"
| "find_leaf raw lb (i # is) =
     (let e = leaf_entry raw i in
      if ee_block e \<le> lb then
        bindr (lim 32 (ee_block e + ee_len e)) (\<lambda>end.
          if lb < end then Done ((ee_start e + (lb - ee_block e)) mod 2 ^ 32) else find_leaf raw lb is)
      else find_leaf raw lb is)"

definition in_range :: "u8 list \<Rightarrow> nat \<Rightarrow> nat \<Rightarrow> bool" where
  "in_range raw lb i \<longleftrightarrow> rd raw (entry_off i) 4 \<le> lb
     \<and> (i + 1 < rd raw 2 2 \<and> entry_off (i + 1) + 4 \<le> length raw \<longrightarrow> lb < rd raw (entry_off (i + 1)) 4)"

primrec resolve_extent_in_block :: "nat \<Rightarrow> sector_reader \<Rightarrow> superblock \<Rightarrow> u8 list \<Rightarrow> nat \<Rightarrow> nat res" where
  "resolve_extent_in_block 0 r sb raw lb = Abort"
| "resolve_extent_in_block (Suc fuel) r sb raw lb =
     (if node_depth raw = 0 then find_leaf raw lb (node_entries raw)
      else case find (in_range raw lb) (node_entries raw) of
        None \<Rightarrow> Fail
      | Some i \<Rightarrow>
          bindr (fs_block_size sb) (\<lambda>block_size.
          bindr (umul (index_child raw i) (block_size div SECTOR_SIZE)) (\<lambda>sector.
          bindr (read_ext4_sectors r sector block_size) (\<lambda>child.
          bindr (req (8 \<le> block_size)) (\<lambda>_. resolve_extent_in_block fuel r sb child lb)))))"

definition resolve_block_extents :: "nat \<Rightarrow> sector_reader \<Rightarrow> superblock \<Rightarrow> inode \<Rightarrow> nat \<Rightarrow> nat res" where
  "resolve_block_extents fuel r sb ino lb =
     (if rd (i_block ino) 0 2 \<noteq> EXTENT_MAGIC then Fail else resolve_extent_in_block fuel r sb (i_block ino) lb)"

definition EXT4_EXTENTS_FL :: nat where "EXT4_EXTENTS_FL = 0x80000"

definition uses_extents :: "inode \<Rightarrow> bool" where
  "uses_extents ino \<longleftrightarrow> odd (i_flags ino div EXT4_EXTENTS_FL)"

definition resolve_block :: "nat \<Rightarrow> sector_reader \<Rightarrow> superblock \<Rightarrow> inode \<Rightarrow> nat \<Rightarrow> nat res" where
  "resolve_block fuel r sb ino lb =
     (if uses_extents ino then resolve_block_extents fuel r sb ino lb
      else if lb < 12 then Done (rd (i_block ino) (4 * lb) 4)
      else
        bindr (fs_block_size sb) (\<lambda>block_size.
          let idx = lb - 12; indirect = rd (i_block ino) 48 4 in
          if idx < block_size div 4 \<and> indirect \<noteq> 0 then
            bindr (umul indirect (block_size div SECTOR_SIZE)) (\<lambda>sector.
            bindr (read_ext4_sectors r sector block_size) (\<lambda>buf. Done (rd buf (4 * idx) 4)))
          else Fail))"

section \<open>Files\<close>

definition splice :: "u8 list \<Rightarrow> nat \<Rightarrow> u8 list \<Rightarrow> u8 list" where
  "splice data off new = take off data @ new @ drop (off + length new) data"

definition read_data_block :: "sector_reader \<Rightarrow> superblock \<Rightarrow> nat \<Rightarrow> u8 list \<Rightarrow> u8 list res" where
  "read_data_block r sb block buf =
     (if block = 0 then Done buf
      else
        bindr (fs_block_size sb) (\<lambda>block_size.
        bindr (umul block (block_size div SECTOR_SIZE)) (\<lambda>sector. read_ext4_sectors r sector (length buf))))"

text \<open>Copying the extents into the buffer of the file; a start of 0 is a hole.\<close>

fun copy_extents :: "sector_reader \<Rightarrow> nat \<Rightarrow> extent list \<Rightarrow> u8 list \<Rightarrow> u8 list res" where
  "copy_extents r block_size [] data = Done data"
| "copy_extents r block_size (e # es) data =
     bindr (umul (ee_block e) block_size) (\<lambda>file_off.
       if length data \<le> file_off then Done data
       else
         bindr (umul (ee_len e) block_size) (\<lambda>extent_bytes.
           let copy_len = min extent_bytes (length data - file_off) in
           if ee_start e = 0 then copy_extents r block_size es data
           else
             bindr (umul (ee_start e) (block_size div SECTOR_SIZE)) (\<lambda>sector.
             bindr (read_ext4_sectors r sector copy_len) (\<lambda>new.
               copy_extents r block_size es (splice data file_off new)))))"

fun copy_blocks :: "nat \<Rightarrow> sector_reader \<Rightarrow> superblock \<Rightarrow> inode \<Rightarrow> nat \<Rightarrow> nat list \<Rightarrow> nat \<Rightarrow> u8 list \<Rightarrow> u8 list res" where
  "copy_blocks fuel r sb ino block_size [] off data = Done data"
| "copy_blocks fuel r sb ino block_size (lb # lbs) off data =
     bindr (resolve_block fuel r sb ino lb) (\<lambda>block.
     bindr (uadd off block_size) (\<lambda>e.
       let end = min e (length data) in
       if block = 0 then copy_blocks fuel r sb ino block_size lbs end data
       else
         bindr (read_data_block r sb block (take (end - off) (drop off data))) (\<lambda>new.
           copy_blocks fuel r sb ino block_size lbs end (splice data off new))))"

definition read_blockwise :: "nat \<Rightarrow> sector_reader \<Rightarrow> superblock \<Rightarrow> inode \<Rightarrow> nat \<Rightarrow> u8 list \<Rightarrow> u8 list res" where
  "read_blockwise fuel r sb ino block_size data =
     bindr (uadd (length data) block_size) (\<lambda>m.
     bindr (req (block_size \<noteq> 0)) (\<lambda>_.
       copy_blocks fuel r sb ino block_size [0..<(m - 1) div block_size mod 2 ^ 32] 0 data))"

definition read_file_into :: "nat \<Rightarrow> sector_reader \<Rightarrow> superblock \<Rightarrow> inode \<Rightarrow> u8 list \<Rightarrow> u8 list res" where
  "read_file_into fuel r sb ino data =
     bindr (fs_block_size sb) (\<lambda>block_size.
       if uses_extents ino then
         (case parse_extents fuel r sb ino of
            Abort \<Rightarrow> Abort
          | Done extents \<Rightarrow> copy_extents r block_size extents data
          | Fail \<Rightarrow> read_blockwise fuel r sb ino block_size data)
       else read_blockwise fuel r sb ino block_size data)"

definition file_size :: "inode \<Rightarrow> nat" where "file_size ino = i_size_high ino * 2 ^ 32 + i_size_lo ino"

definition read_file :: "nat \<Rightarrow> sector_reader \<Rightarrow> superblock \<Rightarrow> inode \<Rightarrow> u8 list res" where
  "read_file fuel r sb ino = read_file_into fuel r sb ino (replicate (file_size ino) 0)"

section \<open>The root directory\<close>

text \<open>The walk ends at an entry of length 0; entries without an inode and names that run past the end are skipped.\<close>

function find_entry :: "u8 list \<Rightarrow> u8 list \<Rightarrow> nat \<Rightarrow> nat" where
  "find_entry data filename off =
     (if off + 8 \<le> length data then
        let ino = rd data off 4; rec_len = rd data (off + 4) 2; name_len = rd data (off + 6) 1 in
        if rec_len = 0 then 0
        else if ino \<noteq> 0 \<and> off + 8 + name_len \<le> length data \<and> take name_len (drop (off + 8) data) = filename then ino
        else find_entry data filename (off + rec_len)
      else 0)"
  by pat_completeness auto
termination by (relation "measure (\<lambda>(data, filename, off). length data - off)") auto

declare find_entry.simps [simp del]

definition SB_MAGIC :: nat where "SB_MAGIC = 0xEF53"
definition EXT4_FEATURE_RO_COMPAT_64BIT :: nat where "EXT4_FEATURE_RO_COMPAT_64BIT = 0x80"

definition parse_superblock :: "u8 list \<Rightarrow> superblock" where
  "parse_superblock raw =
     (let rev = rd raw 76 4 in
      \<lparr> s_blocks_count_lo = rd raw 4 4, s_log_block_size = rd raw 24 4, s_blocks_per_group = rd raw 32 4,
        s_inodes_per_group = rd raw 40 4, s_magic = rd raw 56 2, s_rev_level = rev,
        s_inode_size = (if 1 \<le> rev then rd raw 88 2 else 128),
        s_feature_ro_compat = (if 1 \<le> rev then rd raw 100 4 else 0) \<rparr>)"

text \<open>The inode-table block of each group, from the group descriptors.\<close>

definition read_inode_tables :: "sector_reader \<Rightarrow> superblock \<Rightarrow> nat list res" where
  "read_inode_tables r sb =
     bindr (fs_block_size sb) (\<lambda>block_size.
     bindr (req (s_blocks_per_group sb \<noteq> 0)) (\<lambda>_.
       let num_groups = (s_blocks_count_lo sb + s_blocks_per_group sb - 1) div s_blocks_per_group sb;
           entry_size = (if odd (s_feature_ro_compat sb div EXT4_FEATURE_RO_COMPAT_64BIT) then 64 else 32);
           bgdt_block = (if s_log_block_size sb = 0 then 2 else 1);
           aligned = (num_groups * entry_size + SECTOR_SIZE - 1) div SECTOR_SIZE * SECTOR_SIZE in
       bindr (umul bgdt_block block_size) (\<lambda>b.
       bindr (read_ext4_sectors r (b div SECTOR_SIZE) aligned) (\<lambda>raw.
         Done (map (\<lambda>i. if i * entry_size + entry_size \<le> aligned then rd raw (i * entry_size + 8) 4 else 0)
           [0..<num_groups])))))"

definition load_file_from_ext4 :: "nat \<Rightarrow> handle list option \<Rightarrow> u8 list \<Rightarrow> u8 list res" where
  "load_file_from_ext4 fuel handles filename =
     bindr (find_ext4_partition handles) (\<lambda>(h, lba).
     bindr (reader_new h lba) (\<lambda>r.
     bindr (read_ext4_sectors r 2 SECTOR_SIZE) (\<lambda>sb_raw.
       let sb = parse_superblock sb_raw in
       if s_magic sb \<noteq> SB_MAGIC then Fail
       else
         bindr (read_inode_tables r sb) (\<lambda>tables.
         bindr (read_inode r sb tables 2) (\<lambda>root.
         bindr (read_file_into fuel r sb root (replicate (file_size root) 0)) (\<lambda>root_data.
           let num = find_entry root_data filename 0 in
           if num = 0 then Fail
           else bindr (read_inode r sb tables num) (\<lambda>ino. read_file fuel r sb ino)))))))"

definition load_kernel_from_ext4 :: "nat \<Rightarrow> handle list option \<Rightarrow> u8 list res" where
  "load_kernel_from_ext4 fuel handles = load_file_from_ext4 fuel handles (map (of_nat \<circ> of_char) ''kernel.elf'')"

end
