(* ===== verification/Ext4_Theorems.thy ===== *)
theory Ext4_Theorems
  imports Ext4
begin

text \<open>
  Properties of the boot loader's ext4 reader. The firmware is assumed to read what is on the disk: \<open>reads_disk\<close>
  says so of whole blocks. Then sector reads are slices of the disk whatever the device's block
  size, an extent tree is collected in the order of its leaves, a file is read as the map of its
  extents, and the directory walk finds the first entry of a name.
\<close>

section \<open>Sector reads\<close>

text \<open>What \<^verbatim>\<open>ReadBlocks\<close> of the firmware promises: a whole number of blocks inside the disk is read as it is there.\<close>

definition reads_disk :: "blocks \<Rightarrow> nat \<Rightarrow> u8 list \<Rightarrow> bool" where
  "reads_disk rb bs disk \<longleftrightarrow>
     (\<forall>lba n. bs dvd n \<longrightarrow> lba * bs + n \<le> length disk \<longrightarrow> rb lba n = Some (take n (drop (lba * bs) disk)))"

definition disk_ok :: "sector_reader \<Rightarrow> u8 list \<Rightarrow> bool" where
  "disk_ok r disk \<longleftrightarrow> reads_disk (r_read r) (r_block_size r) disk \<and> r_block_size r dvd length disk
     \<and> SECTOR_SIZE dvd r_block_size r \<and> 0 < r_block_size r \<and> length disk + r_block_size r < 2 ^ 64"

lemma disk_read:
  "disk_ok r disk \<Longrightarrow> r_block_size r dvd n \<Longrightarrow> lba * r_block_size r + n \<le> length disk
    \<Longrightarrow> r_read r lba n = Some (take n (drop (lba * r_block_size r) disk))"
  by (simp add: disk_ok_def reads_disk_def)

lemma dvd_le_add:
  fixes k a b :: nat
  assumes "k dvd a" "k dvd b" "a < b"
  shows "a + k \<le> b"
  using assms by (metis dvd_diff_nat dvd_imp_le le_add_diff_inverse less_imp_le_nat nat_add_left_cancel_le zero_less_diff)

text \<open>The block around a byte of the disk is on the disk, and a sector does not cross its end.\<close>

lemma block_around:
  assumes "disk_ok r disk" "b < length disk" "SECTOR_SIZE dvd b"
  shows "b div r_block_size r * r_block_size r + r_block_size r \<le> length disk"
    "b mod r_block_size r + SECTOR_SIZE \<le> r_block_size r"
proof -
  let ?k = "r_block_size r"
  have k: "0 < ?k" "?k dvd length disk" "SECTOR_SIZE dvd ?k" using assms(1) by (auto simp: disk_ok_def)
  have "b div ?k * ?k < length disk" using assms(2) by (meson le_less_trans div_times_less_eq_dividend)
  then show "b div ?k * ?k + ?k \<le> length disk" using k by (intro dvd_le_add) auto
  have "SECTOR_SIZE dvd b mod ?k" using assms(3) k by (simp add: dvd_mod)
  then show "b mod ?k + SECTOR_SIZE \<le> ?k" using k by (intro dvd_le_add) auto
qed

lemma read_one_sector_slice:
  assumes ok: "disk_ok r disk" and i: "i * SECTOR_SIZE < n" and n: "start + n \<le> length disk"
    and start: "SECTOR_SIZE dvd start"
  shows "read_one_sector r start n i out
    = Done (out @ take (min SECTOR_SIZE (n - i * SECTOR_SIZE)) (drop (start + i * SECTOR_SIZE) disk))"
proof -
  let ?k = "r_block_size r" and ?b = "start + i * SECTOR_SIZE" and ?c = "min SECTOR_SIZE (n - i * SECTOR_SIZE)"
  have b: "?b < length disk" "SECTOR_SIZE dvd ?b" using i n start by auto
  note ar = block_around [OF ok b]
  have rd: "r_read r (?b div ?k) ?k = Some (take ?k (drop (?b div ?k * ?k) disk))"
    using ar(1) by (intro disk_read ok) simp_all
  have c: "?b mod ?k + ?c \<le> ?k" using ar(2) by simp
  have "take ?c (drop (?b mod ?k) (take ?k (drop (?b div ?k * ?k) disk)))
      = take ?c (take (?k - ?b mod ?k) (drop (?b mod ?k + ?b div ?k * ?k) disk))"
    by (simp only: drop_take drop_drop add.commute)
  also have "\<dots> = take (min ?c (?k - ?b mod ?k)) (drop ?b disk)" by (simp only: take_take mod_div_mult_eq)
  also have "min ?c (?k - ?b mod ?k) = ?c" using c by linarith
  finally have sl: "take ?c (drop (?b mod ?k) (take ?k (drop (?b div ?k * ?k) disk))) = take ?c (drop ?b disk)" .
  have "?b < 2 ^ 64" using b(1) ok by (simp add: disk_ok_def)
  then show ?thesis using c by (simp add: read_one_sector_def lim_def Let_def rd of_opt_def req_def sl)
qed

lemma take_step:
  "take a (take n xs) @ take (min s (n - a)) (drop a xs) = take (s + a) (take n xs)"
  unfolding add.commute [of s a] take_add [of a s "take n xs"] drop_take [of a n xs] take_take [of s "n - a"] ..

lemma sector_count:
  fixes n :: nat
  assumes "n \<noteq> 0" "t = n div SECTOR_SIZE + (if 0 < n mod SECTOR_SIZE then 1 else 0)"
  shows "(t - 1) * SECTOR_SIZE < n" "n \<le> t * SECTOR_SIZE"
proof -
  have n: "n div 512 * 512 + n mod 512 = n" "n mod 512 < 512" by simp_all
  then show "(t - 1) * SECTOR_SIZE < n" "n \<le> t * SECTOR_SIZE"
    unfolding assms(2) SECTOR_SIZE_def using assms(1)
    by (cases "n mod 512 = 0"; linarith?; simp add: diff_mult_distrib; linarith)+
qed

lemma read_sectors_slice:
  assumes ok: "disk_ok r disk" and n: "start + n \<le> length disk" and start: "SECTOR_SIZE dvd start"
    and m: "(m - 1) * SECTOR_SIZE < n" "j \<le> m"
  shows "foldr_res (read_one_sector r start n) [j..<m] (take (j * SECTOR_SIZE) (take n (drop start disk)))
    = Done (take (m * SECTOR_SIZE) (take n (drop start disk)))"
  using m(2)
proof (induction "m - j" arbitrary: j)
  case 0
  then show ?case by simp
next
  case (Suc d)
  have "j * SECTOR_SIZE \<le> (m - 1) * SECTOR_SIZE" using Suc.hyps(2) by (intro mult_le_mono1) simp
  then have "j * SECTOR_SIZE < n" using m(1) by (rule le_less_trans)
  then have j: "j < m" "j * SECTOR_SIZE < n" using Suc.hyps(2) by auto
  have "take (j * SECTOR_SIZE) (take n (drop start disk))
      @ take (min SECTOR_SIZE (n - j * SECTOR_SIZE)) (drop (start + j * SECTOR_SIZE) disk)
      = take (Suc j * SECTOR_SIZE) (take n (drop start disk))"
    using take_step [of "j * SECTOR_SIZE" n "drop start disk" SECTOR_SIZE] by (simp add: add.commute)
  then show ?case using Suc.hyps(1) [of "Suc j"] Suc.hyps(2) j
    by (simp add: upt_conv_Cons read_one_sector_slice [OF ok j(2) n start])
qed

lemma read_ext4_sectors_slice:
  assumes ok: "disk_ok r disk" and n: "(r_partition r + sector) * SECTOR_SIZE + n \<le> length disk"
  shows "read_ext4_sectors r sector n = Done (take n (drop ((r_partition r + sector) * SECTOR_SIZE) disk))"
proof (cases "n = 0")
  case True
  then show ?thesis by (simp add: read_ext4_sectors_def)
next
  case False
  let ?k = "r_block_size r" and ?s = "(r_partition r + sector) * SECTOR_SIZE"
  have k: "0 < ?k" "?k dvd length disk" "length disk + ?k < 2 ^ 64" using ok by (auto simp: disk_ok_def)
  have lim: "lim 64 (r_partition r + sector) = Done (r_partition r + sector)" "lim 64 ?s = Done ?s"
    using n k by (auto simp: lim_def SECTOR_SIZE_def)
  show ?thesis
  proof (cases "?k = SECTOR_SIZE")
    case True
    let ?m = "(n + SECTOR_SIZE - 1) div SECTOR_SIZE * SECTOR_SIZE"
    have dv: "SECTOR_SIZE dvd length disk - ?s" using k True by (metis dvd_diff_nat dvd_triv_right)
    have "n \<le> length disk - ?s" using n by simp
    then have m: "?m \<le> length disk - ?s" "n \<le> ?m" using dv by (auto simp: SECTOR_SIZE_def elim!: dvdE)
    have "r_read r (?s div ?k) ?m = Some (take ?m (drop (?s div ?k * ?k) disk))"
      using m n True by (intro disk_read ok) (auto simp: SECTOR_SIZE_def)
    moreover have "?s div ?k * ?k = ?s" using True by (simp add: SECTOR_SIZE_def)
    moreover have "lim 64 (n + SECTOR_SIZE) = Done (n + SECTOR_SIZE)" using n k True by (simp add: lim_def)
    ultimately show ?thesis using False k m(2)
      by (simp add: read_ext4_sectors_def lim True req_def of_opt_def min_def)
  next
    case F: False
    let ?t = "n div SECTOR_SIZE + (if 0 < n mod SECTOR_SIZE then 1 else 0)"
    note t = sector_count [OF False refl]
    have "foldr_res (read_one_sector r ?s n) [0..<?t] [] = Done (take (?t * SECTOR_SIZE) (take n (drop ?s disk)))"
      using read_sectors_slice [OF ok n _ t(1), of 0] by simp
    then show ?thesis using False F k t(2) by (simp add: read_ext4_sectors_def lim req_def Let_def min_def)
  qed
qed

section \<open>Extent trees\<close>

text \<open>The tree of \<open>d\<close> levels of index nodes below a block, with the extents of its leaves in order.\<close>

inductive extent_tree :: "sector_reader \<Rightarrow> superblock \<Rightarrow> nat \<Rightarrow> nat \<Rightarrow> extent list \<Rightarrow> bool" for r sb where
  leaf: "read_extent_block r sb b = Done raw \<Longrightarrow> rd raw 0 2 = EXTENT_MAGIC \<Longrightarrow> node_depth raw = 0
    \<Longrightarrow> extent_tree r sb 0 b (map (leaf_entry raw) (node_entries raw))"
| node: "read_extent_block r sb b = Done raw \<Longrightarrow> rd raw 0 2 = EXTENT_MAGIC \<Longrightarrow> node_depth raw \<noteq> 0
    \<Longrightarrow> list_all2 (\<lambda>i es. extent_tree r sb d (index_child raw i) es) (node_entries raw) ess
    \<Longrightarrow> extent_tree r sb (Suc d) b (concat ess)"

lemma foldr_res_concat:
  assumes "list_all2 (\<lambda>i es. \<forall>acc. f i acc = Done (acc @ es)) is ess"
  shows "foldr_res f is acc = Done (acc @ concat ess)"
  using assms by (induction arbitrary: acc rule: list_all2_induct) simp_all

lemma collect_tree:
  assumes "extent_tree r sb d b es" "d < fuel"
  shows "collect_leaf_extents fuel r sb b acc = Done (acc @ es)"
  using assms
proof (induction arbitrary: fuel acc rule: extent_tree.induct)
  case (leaf b raw)
  then show ?case by (cases fuel) simp_all
next
  case (node b raw d ess)
  then obtain f where f: "fuel = Suc f" "d < f" by (cases fuel) auto
  have "list_all2 (\<lambda>i es. \<forall>acc. collect_leaf_extents f r sb (index_child raw i) acc = Done (acc @ es)) (node_entries raw) ess"
    using node.IH f(2) by (auto elim!: list_all2_mono)
  then show ?case using node.hyps(1-3) by (simp add: f foldr_res_concat)
qed

text \<open>A node that has itself as its first child is followed until the stack is used up.\<close>

lemma extent_cycle:
  assumes "read_extent_block r sb b = Done raw" "rd raw 0 2 = EXTENT_MAGIC" "node_depth raw \<noteq> 0"
    "node_entries raw = i # is" "index_child raw i = b"
  shows "collect_leaf_extents fuel r sb b acc = Abort"
  using assms by (induction fuel arbitrary: acc) simp_all

section \<open>Files\<close>

text \<open>What a file is: a byte of a block that an extent covers is the byte of the disk there, any other byte is 0.\<close>

definition covers :: "nat \<Rightarrow> nat \<Rightarrow> extent \<Rightarrow> bool" where
  "covers bsz k e \<longleftrightarrow> ee_block e * bsz \<le> k \<and> k < (ee_block e + ee_len e) * bsz"

definition extent_byte :: "u8 list \<Rightarrow> nat \<Rightarrow> nat \<Rightarrow> extent list \<Rightarrow> u8 \<Rightarrow> nat \<Rightarrow> u8" where
  "extent_byte disk part bsz es z k =
     (case find (covers bsz k) es of
        None \<Rightarrow> z
      | Some e \<Rightarrow> if ee_start e = 0 then z else disk ! (part * SECTOR_SIZE + ee_start e * bsz + (k - ee_block e * bsz)))"

definition ordered :: "extent list \<Rightarrow> bool" where
  "ordered es = sorted_wrt (\<lambda>e d. ee_block e + ee_len e \<le> ee_block d) es"

definition on_disk :: "u8 list \<Rightarrow> nat \<Rightarrow> nat \<Rightarrow> extent list \<Rightarrow> bool" where
  "on_disk disk part bsz es =
     list_all (\<lambda>e. part * SECTOR_SIZE + (ee_start e + ee_len e) * bsz \<le> length disk \<and> ee_block e * bsz < 2 ^ 64) es"

lemma splice_nth:
  "off + length new \<le> length data \<Longrightarrow> k < length data \<Longrightarrow>
    splice data off new ! k = (if off \<le> k \<and> k < off + length new then new ! (k - off) else data ! k)"
  by (auto simp: splice_def nth_append min_def)

lemma length_splice [simp]: "off + length new \<le> length data \<Longrightarrow> length (splice data off new) = length data"
  by (simp add: splice_def)

lemma no_later_cover:
  assumes "ordered (e # es)" "k < (ee_block e + ee_len e) * bsz"
  shows "find (covers bsz k) es = None"
proof -
  have "\<not> covers bsz k d" if "d \<in> set es" for d
  proof -
    have "(ee_block e + ee_len e) * bsz \<le> ee_block d * bsz"
      using assms(1) that by (intro mult_le_mono1) (simp add: ordered_def)
    with assms(2) have "k < ee_block d * bsz" by (rule less_le_trans)
    then show ?thesis by (simp add: covers_def)
  qed
  then show ?thesis by (simp add: find_None_iff)
qed

lemma extent_byte_Cons:
  "extent_byte disk part bsz (e # es) z k =
     (if covers bsz k e then
        if ee_start e = 0 then z else disk ! (part * SECTOR_SIZE + ee_start e * bsz + (k - ee_block e * bsz))
      else extent_byte disk part bsz es z k)"
  by (simp add: extent_byte_def)

lemma extent_byte_None: "find (covers bsz k) es = None \<Longrightarrow> extent_byte disk part bsz es z k = z"
  by (simp add: extent_byte_def)

lemma covers_late: "ordered (e # es) \<Longrightarrow> covers bsz k e \<Longrightarrow> extent_byte disk part bsz es z k = z"
  by (intro extent_byte_None no_later_cover) (auto simp: covers_def)

lemma extent_read:
  assumes ok: "disk_ok r disk" and bsz: "SECTOR_SIZE dvd bsz"
    and d: "r_partition r * SECTOR_SIZE + (ee_start e + ee_len e) * bsz \<le> length disk" and c: "c \<le> ee_len e * bsz"
  shows "read_ext4_sectors r (ee_start e * (bsz div SECTOR_SIZE)) c
    = Done (take c (drop (r_partition r * SECTOR_SIZE + ee_start e * bsz) disk))"
proof -
  have "ee_start e * (bsz div SECTOR_SIZE) * SECTOR_SIZE = ee_start e * bsz" using bsz by (simp add: mult.assoc)
  then have p: "(r_partition r + ee_start e * (bsz div SECTOR_SIZE)) * SECTOR_SIZE
      = r_partition r * SECTOR_SIZE + ee_start e * bsz" by (simp only: add_mult_distrib)
  have "(r_partition r + ee_start e * (bsz div SECTOR_SIZE)) * SECTOR_SIZE + c \<le> length disk"
    unfolding p using d c by (simp add: add_mult_distrib)
  then show ?thesis unfolding p [symmetric] by (rule read_ext4_sectors_slice [OF ok])
qed

lemma covers_iff: "covers bsz k e \<longleftrightarrow> ee_block e * bsz \<le> k \<and> k < ee_block e * bsz + ee_len e * bsz"
  by (simp add: covers_def add_mult_distrib)

text \<open>Copying an extent into the buffer makes the bytes it covers what the file has there.\<close>

lemma splice_extent:
  fixes data disk part bsz e
  defines "off \<equiv> ee_block e * bsz" and "src \<equiv> part * SECTOR_SIZE + ee_start e * bsz"
  defines "new \<equiv> take (min (ee_len e * bsz) (length data - off)) (drop src disk)"
  assumes ord: "ordered (e # es)" and d: "part * SECTOR_SIZE + (ee_start e + ee_len e) * bsz \<le> length disk"
    and off: "off < length data" and st: "ee_start e \<noteq> 0"
  shows "off + length new \<le> length data"
    and "k < length data \<Longrightarrow>
      extent_byte disk part bsz es (splice data off new ! k) k = extent_byte disk part bsz (e # es) (data ! k) k"
proof -
  let ?c = "min (ee_len e * bsz) (length data - off)"
  have len: "length new = ?c" using d by (auto simp: new_def src_def add_mult_distrib)
  then show fit: "off + length new \<le> length data" using off by simp
  assume kl: "k < length data"
  show "extent_byte disk part bsz es (splice data off new ! k) k = extent_byte disk part bsz (e # es) (data ! k) k"
  proof (cases "covers bsz k e")
    case True
    then have k: "off \<le> k" "k - off < ?c" using kl by (auto simp: covers_iff off_def)
    have "splice data off new ! k = new ! (k - off)" using k len by (subst splice_nth [OF fit kl]) auto
    also have "\<dots> = disk ! (src + (k - off))"
      unfolding new_def using d by (subst nth_take [OF k(2)], subst nth_drop) (auto simp: src_def add_mult_distrib)
    finally show ?thesis using True st by (simp add: extent_byte_Cons covers_late [OF ord] off_def src_def)
  next
    case False
    then have "splice data off new ! k = data ! k"
      using kl len by (subst splice_nth [OF fit kl]) (auto simp: covers_iff off_def)
    then show ?thesis using False by (simp add: extent_byte_Cons)
  qed
qed

lemma copy_extents_spec:
  assumes ok: "disk_ok r disk" and bsz: "SECTOR_SIZE dvd bsz"
  shows "ordered es \<Longrightarrow> on_disk disk (r_partition r) bsz es \<Longrightarrow>
    copy_extents r bsz es data = Done (map (\<lambda>k. extent_byte disk (r_partition r) bsz es (data ! k) k) [0..<length data])"
proof (induction es arbitrary: data)
  case Nil
  then show ?case by (simp add: extent_byte_def map_nth)
next
  case (Cons e es)
  let ?off = "ee_block e * bsz" and ?src = "r_partition r * SECTOR_SIZE + ee_start e * bsz"
  have d: "r_partition r * SECTOR_SIZE + (ee_start e + ee_len e) * bsz \<le> length disk" and off: "?off < 2 ^ 64"
    and es: "ordered es" "on_disk disk (r_partition r) bsz es"
    using Cons.prems by (auto simp: on_disk_def ordered_def)
  have l: "(ee_start e + ee_len e) * bsz < 2 ^ 64" using d ok by (simp add: disk_ok_def)
  have "ee_start e * (bsz div SECTOR_SIZE) \<le> (ee_start e + ee_len e) * bsz" by (intro mult_le_mono) simp_all
  then have lims: "umul (ee_block e) bsz = Done ?off" "umul (ee_len e) bsz = Done (ee_len e * bsz)"
      "umul (ee_start e) (bsz div SECTOR_SIZE) = Done (ee_start e * (bsz div SECTOR_SIZE))"
    using off l by (simp_all add: lim_def add_mult_distrib)
  let ?new = "take (min (ee_len e * bsz) (length data - ?off)) (drop ?src disk)"
  consider "length data \<le> ?off" | "?off < length data" "ee_start e = 0" | "?off < length data" "ee_start e \<noteq> 0" by linarith
  then show ?case
  proof cases
    case 1
    have "extent_byte disk (r_partition r) bsz (e # es) (data ! k) k = data ! k" if "k < length data" for k
      using that 1 no_later_cover [OF Cons.prems(1), of k bsz]
      by (simp add: extent_byte_Cons covers_iff extent_byte_None add_mult_distrib)
    then have "map (\<lambda>k. extent_byte disk (r_partition r) bsz (e # es) (data ! k) k) [0..<length data] = data"
      by (intro nth_equalityI) simp_all
    then show ?thesis using 1 lims by simp
  next
    case 2
    then show ?thesis using lims Cons.IH [OF es, of data]
      by (auto simp: extent_byte_Cons covers_late [OF Cons.prems(1)])
  next
    case 3
    note sp = splice_extent [OF Cons.prems(1) d 3]
    show ?thesis using 3 lims Cons.IH [OF es, of "splice data ?off ?new"] sp
      by (simp add: Let_def extent_read [OF ok bsz d])
  qed
qed

text \<open>The extents of an inode: those in the inode itself, or those of the trees below it.\<close>

definition inode_tree :: "sector_reader \<Rightarrow> superblock \<Rightarrow> inode \<Rightarrow> nat \<Rightarrow> extent list \<Rightarrow> bool" where
  "inode_tree r sb ino d es \<longleftrightarrow> rd (i_block ino) 0 2 = EXTENT_MAGIC \<and>
     (if node_depth (i_block ino) = 0 then es = map (leaf_entry (i_block ino)) (node_entries (i_block ino))
      else \<exists>ess. es = concat ess \<and>
        list_all2 (\<lambda>i es. extent_tree r sb d (index_child (i_block ino) i) es) (node_entries (i_block ino)) ess)"

lemma parse_tree:
  assumes "inode_tree r sb ino d es" "d < fuel"
  shows "parse_extents fuel r sb ino = Done es"
proof (cases "node_depth (i_block ino) = 0")
  case False
  then obtain ess where e: "es = concat ess"
      "list_all2 (\<lambda>i es. extent_tree r sb d (index_child (i_block ino) i) es) (node_entries (i_block ino)) ess"
    using assms(1) by (auto simp: inode_tree_def)
  have "list_all2 (\<lambda>i es. \<forall>acc. collect_leaf_extents fuel r sb (index_child (i_block ino) i) acc = Done (acc @ es))
      (node_entries (i_block ino)) ess"
    by (rule list_all2_mono [OF e(2)]) (use collect_tree assms(2) in blast)
  then show ?thesis using assms(1) False by (simp add: parse_extents_def inode_tree_def foldr_res_concat e(1))
qed (use assms in \<open>simp add: parse_extents_def inode_tree_def Let_def\<close>)

lemma fs_block_size_sector: "fs_block_size sb = Done bsz \<Longrightarrow> SECTOR_SIZE dvd bsz"
proof -
  assume "fs_block_size sb = Done bsz"
  then have "bsz = 1024 * 2 ^ s_log_block_size sb mod 2 ^ 64" by (auto simp: fs_block_size_def req_def split: if_splits)
  moreover have "(512 :: nat) dvd 1024 * 2 ^ s_log_block_size sb mod 2 ^ 64" by (intro dvd_mod dvd_mult2) simp_all
  ultimately show ?thesis by (simp add: SECTOR_SIZE_def)
qed

section \<open>The directory\<close>

record dirent =
  d_ino :: nat
  d_name :: "u8 list"
  d_type :: u8
  d_pad :: "u8 list"

definition dirent_len :: "dirent \<Rightarrow> nat" where
  "dirent_len e = 8 + length (d_name e) + length (d_pad e)"

definition dirent_bytes :: "dirent \<Rightarrow> u8 list" where
  "dirent_bytes e = to_le 4 (d_ino e) @ to_le 2 (dirent_len e) @ to_le 1 (length (d_name e)) @ d_type e # d_name e @ d_pad e"

definition dirent_ok :: "dirent \<Rightarrow> bool" where
  "dirent_ok e \<longleftrightarrow> d_ino e < 2 ^ 32 \<and> length (d_name e) < 256 \<and> dirent_len e < 2 ^ 16"

lemma rd_to_le: "v < 256 ^ n \<Longrightarrow> off = length p \<Longrightarrow> rd (p @ to_le n v @ q) off n = v"
  by (simp add: rd_def le_bytes_to_le)

lemma length_dirent_bytes: "length (dirent_bytes e) = dirent_len e"
  by (simp add: dirent_bytes_def dirent_len_def)

lemma dirent_fields:
  assumes "dirent_ok e" "data = pre @ dirent_bytes e @ post"
  shows "rd data (length pre) 4 = d_ino e" "rd data (length pre + 4) 2 = dirent_len e"
    "rd data (length pre + 6) 1 = length (d_name e)"
    "take (length (d_name e)) (drop (length pre + 8) data) = d_name e"
proof -
  let ?n = "to_le 1 (length (d_name e)) @ d_type e # d_name e @ d_pad e @ post"
  have "data = pre @ to_le 4 (d_ino e) @ to_le 2 (dirent_len e) @ ?n" by (simp add: assms(2) dirent_bytes_def)
  then show "rd data (length pre) 4 = d_ino e"
    using assms(1) by (simp only:) (rule rd_to_le; simp add: dirent_ok_def)
  have "data = (pre @ to_le 4 (d_ino e)) @ to_le 2 (dirent_len e) @ ?n" by (simp add: assms(2) dirent_bytes_def)
  then show "rd data (length pre + 4) 2 = dirent_len e"
    using assms(1) by (simp only:) (rule rd_to_le; simp add: dirent_ok_def)
  have "data = (pre @ to_le 4 (d_ino e) @ to_le 2 (dirent_len e)) @ ?n" by (simp add: assms(2) dirent_bytes_def)
  then show "rd data (length pre + 6) 1 = length (d_name e)"
    using assms(1) by (simp only:) (rule rd_to_le; simp add: dirent_ok_def)
  have "data = (pre @ to_le 4 (d_ino e) @ to_le 2 (dirent_len e) @ to_le 1 (length (d_name e)) @ [d_type e])
      @ d_name e @ d_pad e @ post" by (simp add: assms(2) dirent_bytes_def)
  then show "take (length (d_name e)) (drop (length pre + 8) data) = d_name e" by (simp only:) simp
qed

lemma find_entry_from:
  "list_all dirent_ok es \<Longrightarrow>
    find_entry (pre @ concat (map dirent_bytes es)) filename (length pre)
      = (case find (\<lambda>e. d_ino e \<noteq> 0 \<and> d_name e = filename) es of None \<Rightarrow> 0 | Some e \<Rightarrow> d_ino e)"
proof (induction es arbitrary: pre)
  case Nil
  then show ?case by (simp add: find_entry.simps)
next
  case (Cons e es)
  let ?data = "pre @ concat (map dirent_bytes (e # es))"
  have d: "?data = pre @ dirent_bytes e @ concat (map dirent_bytes es)" by simp
  have len: "length ?data = length pre + dirent_len e + length (concat (map dirent_bytes es))"
    by (simp add: length_dirent_bytes)
  have e: "dirent_ok e" using Cons.prems by simp
  note f = dirent_fields [OF e d]
  have big: "length pre + 8 \<le> length ?data" "length pre + 8 + length (d_name e) \<le> length ?data" "dirent_len e \<noteq> 0"
    unfolding len by (auto simp: dirent_len_def)
  have rest: "find_entry ?data filename (length pre + dirent_len e)
      = (case find (\<lambda>e. d_ino e \<noteq> 0 \<and> d_name e = filename) es of None \<Rightarrow> 0 | Some e \<Rightarrow> d_ino e)"
    using Cons.IH [of "pre @ dirent_bytes e"] Cons.prems by (simp add: length_dirent_bytes)
  show ?case by (subst find_entry.simps) (simp only: big if_True Let_def f rest find.simps simp_thms split: if_split, simp)
qed

section \<open>Properties\<close>

text \<open>C27. Reading any number of bytes from any sector gives exactly those bytes of the disk, for every device whose
  block size is a multiple of a sector: the direct path for blocks of 512 bytes and the loop that
  cuts sectors out of larger blocks are the same function.\<close>

theorem ext4_read_is_slice:
  assumes "disk_ok r disk" "(r_partition r + sector) * SECTOR_SIZE + n \<le> length disk"
  shows "read_ext4_sectors r sector n = Done (take n (drop ((r_partition r + sector) * SECTOR_SIZE) disk))"
  using assms by (rule read_ext4_sectors_slice)

text \<open>C11. A file is read as its extents say: if the extents of the inode, stored in it or in trees of up to \<open>d + 1\<close>
  levels of nodes below it, are in order and on the disk, the file is read completely, with room
  for \<open>d + 1\<close> nested calls; each byte of a block that an extent covers is the byte of the disk
  there, and each byte of a hole is 0.\<close>

theorem ext4_file_contents:
  assumes "disk_ok r disk" "fs_block_size sb = Done bsz" "uses_extents ino"
    and "inode_tree r sb ino d es" "d < fuel" "ordered es" "on_disk disk (r_partition r) bsz es"
  shows "read_file fuel r sb ino = Done (map (extent_byte disk (r_partition r) bsz es 0) [0..<file_size ino])"
proof -
  have "map (\<lambda>k. extent_byte disk (r_partition r) bsz es (replicate (file_size ino) 0 ! k) k) [0..<file_size ino]
      = map (extent_byte disk (r_partition r) bsz es 0) [0..<file_size ino]" by simp
  then show ?thesis
    using copy_extents_spec [OF assms(1) fs_block_size_sector [OF assms(2)] assms(6,7), of "replicate (file_size ino) 0"]
    by (simp add: read_file_def read_file_into_def assms(2,3) parse_tree [OF assms(4,5)])
qed

text \<open>C28. Looking a name up in a directory that was written as a sequence of entries gives the inode of the first
  entry in use with that name, and 0 if there is none.\<close>

theorem ext4_directory_lookup:
  assumes "list_all dirent_ok es"
  shows "find_entry (concat (map dirent_bytes es)) filename 0
    = (case find (\<lambda>e. d_ino e \<noteq> 0 \<and> d_name e = filename) es of None \<Rightarrow> 0 | Some e \<Rightarrow> d_ino e)"
  using find_entry_from [OF assms, of "[]"] by simp

section \<open>Witnesses\<close>

text \<open>A disk of eight sectors with a partition at sector 2, seen through blocks of 512 and of 1024 bytes.\<close>

definition demo_disk :: "u8 list" where "demo_disk = map of_nat [0..<4096]"

definition demo_reader :: "nat \<Rightarrow> sector_reader" where
  "demo_reader bs = \<lparr> r_read = (\<lambda>lba n. if lba * bs + n \<le> 4096 then Some (take n (drop (lba * bs) demo_disk)) else None),
     r_block_size = bs, r_partition = 2 \<rparr>"

lemma demo_disk_ok: "bs = 512 \<or> bs = 1024 \<Longrightarrow> disk_ok (demo_reader bs) demo_disk"
  by (auto simp: disk_ok_def reads_disk_def demo_reader_def demo_disk_def SECTOR_SIZE_def)

theorem ext4_read_is_slice_witness:
  "disk_ok (demo_reader 1024) demo_disk \<and> read_ext4_sectors (demo_reader 1024) 1 600 = Done (take 600 (drop 1536 demo_disk))"
  using ext4_read_is_slice [OF demo_disk_ok [of 1024], of 1 600]
  by (simp add: demo_disk_ok) (simp add: demo_reader_def demo_disk_def SECTOR_SIZE_def)

definition demo_sb :: superblock where
  "demo_sb = \<lparr> s_blocks_count_lo = 3, s_log_block_size = 0, s_blocks_per_group = 8, s_inodes_per_group = 8,
     s_magic = SB_MAGIC, s_rev_level = 1, s_inode_size = 128, s_feature_ro_compat = 0 \<rparr>"

text \<open>An inode with one extent: file block 1 is block 2 of the file system; block 0 of the file is a hole.\<close>

definition demo_ino :: inode where
  "demo_ino = \<lparr> i_size_lo = 1500, i_flags = EXT4_EXTENTS_FL,
     i_block = [0x0A, 0xF3, 1, 0, 4, 0, 0, 0, 0, 0, 0, 0, 1, 0, 0, 0, 1, 0, 0, 0, 2, 0, 0, 0] @ replicate 36 0,
     i_size_high = 0 \<rparr>"

definition demo_extent :: extent where "demo_extent = \<lparr> ee_block = 1, ee_len = 1, ee_start = 2 \<rparr>"

lemma demo_inode_tree: "inode_tree r sb demo_ino 0 [demo_extent]"
  by (simp add: inode_tree_def demo_ino_def EXTENT_MAGIC_def node_depth_def node_entries_def leaf_entry_def Let_def
      entry_off_def EXTENT_HEADER_SIZE_def EXTENT_ENTRY_SIZE_def rd_def demo_extent_def)

theorem ext4_file_contents_witness:
  "inode_tree (demo_reader 512) demo_sb demo_ino 0 [demo_extent] \<and>
   read_file 1 (demo_reader 512) demo_sb demo_ino
     = Done (map (extent_byte demo_disk 2 1024 [demo_extent] 0) [0..<1500])"
proof -
  have "fs_block_size demo_sb = Done 1024" by (simp add: fs_block_size_def demo_sb_def req_def)
  moreover have "uses_extents demo_ino" by (simp add: uses_extents_def demo_ino_def EXT4_EXTENTS_FL_def)
  moreover have "ordered [demo_extent]" by (simp add: ordered_def)
  moreover have "on_disk demo_disk (r_partition (demo_reader 512)) 1024 [demo_extent]"
    by (simp add: on_disk_def demo_disk_def demo_reader_def demo_extent_def SECTOR_SIZE_def)
  moreover have "file_size demo_ino = 1500" "r_partition (demo_reader 512) = 2"
    by (simp_all add: file_size_def demo_ino_def demo_reader_def)
  ultimately show ?thesis
    using ext4_file_contents [of "demo_reader 512" demo_disk demo_sb 1024 demo_ino 0 "[demo_extent]" 1] demo_disk_ok [of 512]
      demo_inode_tree by simp
qed

definition demo_entry :: dirent where
  "demo_entry = \<lparr> d_ino = 12, d_name = map (of_nat \<circ> of_char) ''kernel.elf'', d_type = 1, d_pad = [0, 0] \<rparr>"

theorem ext4_directory_lookup_witness:
  "list_all dirent_ok [demo_entry\<lparr> d_ino := 0 \<rparr>, demo_entry] \<and>
   find_entry (concat (map dirent_bytes [demo_entry\<lparr> d_ino := 0 \<rparr>, demo_entry])) (d_name demo_entry) 0 = 12"
proof -
  have "list_all dirent_ok [demo_entry\<lparr> d_ino := 0 \<rparr>, demo_entry]"
    by (simp add: dirent_ok_def dirent_len_def demo_entry_def)
  then show ?thesis using ext4_directory_lookup [of "[demo_entry\<lparr> d_ino := 0 \<rparr>, demo_entry]" "d_name demo_entry"]
    by (simp add: demo_entry_def)
qed

end
