(* ===== verification/Boot.thy ===== *)
theory Boot
  imports Ext4
begin

text \<open>
  The boot loader: placing the kernel's segments (\<^verbatim>\<open>load_elf\<close> of \<^verbatim>\<open>boot/src/load_kernel.rs\<close>), the processors
  reported by the firmware (\<^verbatim>\<open>boot/src/mp.rs\<close>), the memory map, the graphics mode and the whole of
  \<^verbatim>\<open>main\<close> (\<^verbatim>\<open>boot/src/main.rs\<close>) up to the jump to the kernel. What the firmware answers is a record of
  arguments. Physical memory is a function from addresses to bytes; a routine that fails leaves in
  it what it has written. It holds what the loader leaves behind for the kernel: the boot
  information, the handoff word, the two files and the kernel's segments. The temporary buffers
  of the file system reader are values, not memory.
\<close>

section \<open>Placing the kernel\<close>

record memory_region =
  phys_start :: nat
  region_size :: nat

definition KERNEL_LOAD_PHYS_LIMIT :: nat where "KERNEL_LOAD_PHYS_LIMIT = 0x40000000"

definition sat :: "nat \<Rightarrow> nat" where "sat n = min n (2 ^ 64 - 1)"

definition addr_in_any_region :: "nat \<Rightarrow> nat \<Rightarrow> memory_region list \<Rightarrow> nat \<Rightarrow> bool" where
  "addr_in_any_region paddr n regions cnt =
     list_ex (\<lambda>r. phys_start r \<le> paddr \<and> sat (paddr + n) \<le> sat (phys_start r + region_size r))
       (take (min cnt (length regions)) regions)"

type_synonym pmem = "nat \<Rightarrow> u8"

definition write_bytes :: "pmem \<Rightarrow> nat \<Rightarrow> u8 list \<Rightarrow> pmem" where
  "write_bytes m a bs = (\<lambda>x. if a \<le> x \<and> x < a + length bs then bs ! (x - a) else m x)"

record load_seg =
  g_offset :: nat
  g_paddr :: nat
  g_filesz :: nat
  g_memsz :: nat

definition read_seg :: "u8 list \<Rightarrow> nat \<Rightarrow> load_seg" where
  "read_seg data off = \<lparr> g_offset = rd data (off + 8) 8, g_paddr = rd data (off + 24) 8,
     g_filesz = rd data (off + 32) 8, g_memsz = rd data (off + 40) 8 \<rparr>"

definition place_seg :: "u8 list \<Rightarrow> memory_region list \<Rightarrow> nat \<Rightarrow> load_seg \<Rightarrow> pmem \<Rightarrow> pmem \<times> unit res" where
  "place_seg data regions cnt g m =
     (if KERNEL_LOAD_PHYS_LIMIT < sat (g_paddr g + g_memsz g) then (m, Fail)
      else if \<not> addr_in_any_region (g_paddr g) (g_memsz g) regions cnt then (m, Fail)
      else if 2 ^ 64 \<le> g_offset g + g_filesz g then (m, Abort)
      else if length data < g_offset g + g_filesz g then (m, Fail)
      else
        let m1 = write_bytes m (g_paddr g) (take (g_filesz g) (drop (g_offset g) data)) in
        (if g_filesz g < g_memsz g then write_bytes m1 (g_paddr g + g_filesz g) (replicate (g_memsz g - g_filesz g) 0)
         else m1, Done ()))"

text \<open>The program headers in order; reading a header that runs past the file is a panic.\<close>

fun place_segs :: "u8 list \<Rightarrow> memory_region list \<Rightarrow> nat \<Rightarrow> nat list \<Rightarrow> pmem \<Rightarrow> pmem \<times> unit res" where
  "place_segs data regions cnt [] m = (m, Done ())"
| "place_segs data regions cnt (off # offs) m =
     (if length data < off + 4 then (m, Abort)
      else if rd data off 4 \<noteq> 1 then place_segs data regions cnt offs m
      else if length data < off + 48 then (m, Abort)
      else case place_seg data regions cnt (read_seg data off) m of
             (m', Done _) \<Rightarrow> place_segs data regions cnt offs m'
           | (m', r) \<Rightarrow> (m', r))"

definition header_offsets :: "u8 list \<Rightarrow> nat list" where
  "header_offsets data = map (\<lambda>i. rd data 32 8 + i * rd data 54 2) [0..<rd data 56 2]"

definition boot_load_elf :: "u8 list \<Rightarrow> memory_region list \<Rightarrow> nat \<Rightarrow> pmem \<Rightarrow> pmem \<times> nat res" where
  "boot_load_elf data regions cnt m =
     (if length data < 64 then (m, Fail)
      else if take 4 data \<noteq> [0x7f, 0x45, 0x4c, 0x46] then (m, Fail)
      else if data ! 4 \<noteq> 2 then (m, Fail)
      else if data ! 5 \<noteq> 1 then (m, Fail)
      else if rd data 16 2 \<noteq> 2 then (m, Fail)
      else
        let phoff = rd data 32 8; phentsize = rd data 54 2; phnum = rd data 56 2 in
        if 2 ^ 64 \<le> phoff + phnum * phentsize then (m, Abort)
        else if length data < phoff + phnum * phentsize then (m, Fail)
        else case place_segs data regions cnt (header_offsets data) m of
               (m', Done _) \<Rightarrow> (m', Done (rd data 24 8))
             | (m', Fail) \<Rightarrow> (m', Fail)
             | (m', Abort) \<Rightarrow> (m', Abort))"

section \<open>What the firmware reports\<close>

definition MAX_MEMORY_REGIONS :: nat where "MAX_MEMORY_REGIONS = 128"
definition BOOT_MAX_CPUS :: nat where "BOOT_MAX_CPUS = 4"

record framebuffer_info =
  fb_addr :: nat
  fb_width :: nat
  fb_height :: nat
  fb_stride :: nat
  fb_bytes_per_pixel :: nat
  fb_is_bgr :: bool

record boot_info =
  memory_regions :: "memory_region list"
  memory_region_count :: nat
  framebuffer :: framebuffer_info
  partition_zero :: "nat \<times> nat"
  kernel_image :: "nat \<times> nat"
  drivers_elf :: "nat \<times> nat"
  rsdp_addr :: nat
  madt_addr :: nat
  max_cpus :: nat
  bsp_apic_id :: nat
  ap_count :: nat
  ap_apic_ids :: "nat list"

record map_entry =
  conventional :: bool
  page_count :: nat
  entry_start :: nat

text \<open>Entries after the table is full are skipped before their size is computed.\<close>

fun collect_regions :: "map_entry list \<Rightarrow> memory_region list \<Rightarrow> nat \<Rightarrow> (memory_region list \<times> nat) res" where
  "collect_regions [] regions n = Done (regions, n)"
| "collect_regions (e # es) regions n =
     (if conventional e \<and> 0 < page_count e \<and> n < MAX_MEMORY_REGIONS then
        bindr (umul (page_count e) 4096) (\<lambda>sz.
          collect_regions es (regions[n := \<lparr> phys_start = entry_start e, region_size = sz \<rparr>]) (n + 1))
      else collect_regions es regions n)"

definition no_regions :: "memory_region list" where
  "no_regions = replicate MAX_MEMORY_REGIONS \<lparr> phys_start = 0, region_size = 0 \<rparr>"

definition collect_usable_memory_regions :: "map_entry list option \<Rightarrow> boot_info \<Rightarrow> boot_info res" where
  "collect_usable_memory_regions mm bi =
     (case mm of
        None \<Rightarrow> Done (bi\<lparr> memory_regions := no_regions, memory_region_count := 0 \<rparr>)
      | Some es \<Rightarrow> bindr (collect_regions es no_regions 0) (\<lambda>(regions, n).
          Done (bi\<lparr> memory_regions := regions, memory_region_count := n \<rparr>)))"

record proc_info =
  is_enabled :: bool
  is_healthy :: bool
  is_bsp :: bool
  processor_id :: nat

text \<open>The processors in order. An error of the firmware ends the enumeration with the count still unset. The second
  test for a free slot in the loop never fires after the first.\<close>

fun enumerate_loop :: "proc_info option list \<Rightarrow> nat \<Rightarrow> boot_info \<Rightarrow> nat \<Rightarrow> boot_info \<times> nat option" where
  "enumerate_loop [] limit bi ap = (bi, Some ap)"
| "enumerate_loop (p # ps) limit bi ap =
     (if limit \<le> ap then (bi, Some ap)
      else case p of
        None \<Rightarrow> (bi, None)
      | Some info \<Rightarrow>
          if \<not> is_enabled info \<or> \<not> is_healthy info then enumerate_loop ps limit bi ap
          else if is_bsp info then enumerate_loop ps limit (bi\<lparr> bsp_apic_id := processor_id info mod 2 ^ 32 \<rparr>) ap
          else enumerate_loop ps limit (bi\<lparr> ap_apic_ids := (ap_apic_ids bi)[ap := processor_id info mod 2 ^ 32] \<rparr>) (ap + 1))"

text \<open>The argument is \<open>None\<close> if the MP services cannot be opened or counted, else the number of enabled processors and
  what is known of each.\<close>

definition enumerate_aps :: "(nat \<times> proc_info option list) option \<Rightarrow> boot_info \<Rightarrow> boot_info" where
  "enumerate_aps mp bi =
     (case mp of
        None \<Rightarrow> bi
      | Some (enabled, procs) \<Rightarrow>
          let limit = min (min enabled BOOT_MAX_CPUS) (BOOT_MAX_CPUS - 1) in
          case enumerate_loop procs limit bi 0 of
            (bi', None) \<Rightarrow> bi'
          | (bi', Some n) \<Rightarrow> bi'\<lparr> ap_count := n \<rparr>)"

text \<open>The graphics mode: the first of 1024 by 768, else the first of those with the most pixels.\<close>

fun best_mode :: "(nat \<times> nat) list \<Rightarrow> nat \<Rightarrow> (nat \<times> nat) option \<Rightarrow> (nat \<times> nat) option" where
  "best_mode [] best_pixels best = best"
| "best_mode ((w, h) # ms) best_pixels best =
     (if best_pixels < w * h then best_mode ms (w * h) (Some (w, h)) else best_mode ms best_pixels best)"

definition pick_mode :: "(nat \<times> nat) list \<Rightarrow> (nat \<times> nat) option" where
  "pick_mode ms = (case find (\<lambda>(w, h). w = 1024 \<and> h = 768) ms of Some m \<Rightarrow> Some m | None \<Rightarrow> best_mode ms 0 None)"

section \<open>The whole boot\<close>

text \<open>The answers of the firmware: block devices, graphics modes with the framebuffer that results from setting one,
  the ACPI table, processors, the memory map, the addresses of the buffers the two files are put in and of
  the boot information, and what the compiler leaves in the padding of the boot information each
  time it is written.\<close>

record firmware =
  fw_handles :: "handle list option"
  fw_gop :: "((nat \<times> nat) list \<times> ((nat \<times> nat) option \<Rightarrow> framebuffer_info)) option"
  fw_rsdp :: nat
  fw_mp :: "(nat \<times> proc_info option list) option"
  fw_map :: "map_entry list option"
  fw_kernel_buf :: nat
  fw_drivers_buf :: nat
  fw_boot_info :: nat
  fw_padding :: "nat \<Rightarrow> nat \<Rightarrow> u8"
  fw_stack :: nat

text \<open>A jump has the entry point, the first argument (the register RDI), the memory and the loader's own copy of the boot
  information.\<close>

datatype boot_outcome = Panicked | Load_Error | Halted | Jump nat nat pmem boot_info

definition initial_info :: boot_info where
  "initial_info = \<lparr> memory_regions = no_regions, memory_region_count = 0,
     framebuffer = \<lparr> fb_addr = 0, fb_width = 0, fb_height = 0, fb_stride = 0, fb_bytes_per_pixel = 4, fb_is_bgr = False \<rparr>,
     partition_zero = (0, 0), kernel_image = (0, 0), drivers_elf = (0, 0), rsdp_addr = 0, madt_addr = 0,
     max_cpus = BOOT_MAX_CPUS, bsp_apic_id = 0, ap_count = 0, ap_apic_ids = replicate BOOT_MAX_CPUS 0 \<rparr>"

definition BOOT_INFO_HANDOFF_ADDR :: nat where "BOOT_INFO_HANDOFF_ADDR = 0x5000"

text \<open>The structure \<^verbatim>\<open>BootInfo\<close> in memory, in C layout: seven bytes of padding after the framebuffer's last
  field and four at the end.\<close>

definition framebuffer_bytes :: "framebuffer_info \<Rightarrow> u8 list" where
  "framebuffer_bytes fb = to_le 8 (fb_addr fb) @ to_le 8 (fb_width fb) @ to_le 8 (fb_height fb) @ to_le 8 (fb_stride fb)
     @ to_le 8 (fb_bytes_per_pixel fb) @ [if fb_is_bgr fb then 1 else 0]"

definition boot_info_bytes :: "(nat \<Rightarrow> u8) \<Rightarrow> boot_info \<Rightarrow> u8 list" where
  "boot_info_bytes padding bi =
     concat (map (\<lambda>r. to_le 8 (phys_start r) @ to_le 8 (region_size r)) (memory_regions bi))
     @ to_le 8 (memory_region_count bi) @ framebuffer_bytes (framebuffer bi) @ map padding [0..<7]
     @ to_le 8 (fst (partition_zero bi)) @ to_le 8 (snd (partition_zero bi))
     @ to_le 8 (fst (kernel_image bi)) @ to_le 8 (snd (kernel_image bi))
     @ to_le 8 (fst (drivers_elf bi)) @ to_le 8 (snd (drivers_elf bi))
     @ to_le 8 (rsdp_addr bi) @ to_le 8 (madt_addr bi)
     @ to_le 4 (max_cpus bi) @ to_le 4 (bsp_apic_id bi) @ to_le 4 (ap_count bi)
     @ concat (map (to_le 4) (ap_apic_ids bi)) @ map padding [7..<11]"

text \<open>The \<open>k\<close>-th write of the whole structure through its pointer.\<close>

definition write_info :: "firmware \<Rightarrow> nat \<Rightarrow> boot_info \<Rightarrow> pmem \<Rightarrow> pmem" where
  "write_info fw k bi m = write_bytes m (fw_boot_info fw) (boot_info_bytes (fw_padding fw k) bi)"

definition load_drivers :: "firmware \<Rightarrow> boot_info \<Rightarrow> pmem \<Rightarrow> (boot_info \<times> pmem) res" where
  "load_drivers fw bi m =
     (case load_file_from_ext4 (fw_stack fw) (fw_handles fw) (map (of_nat \<circ> of_char) ''drivers.elf'') of
        Abort \<Rightarrow> Abort
      | Fail \<Rightarrow> Done (bi\<lparr> drivers_elf := (0, 0) \<rparr>, m)
      | Done data \<Rightarrow> Done (bi\<lparr> drivers_elf := (fw_drivers_buf fw, length data) \<rparr>,
                           write_bytes m (fw_drivers_buf fw) data))"

definition boot_main :: "firmware \<Rightarrow> pmem \<Rightarrow> boot_outcome" where
  "boot_main fw m =
     (let m = write_info fw 0 initial_info m;
          m = write_bytes m BOOT_INFO_HANDOFF_ADDR (to_le 8 (fw_boot_info fw));
          bi = (case fw_gop fw of None \<Rightarrow> initial_info
            | Some (modes, set_mode) \<Rightarrow>
                initial_info\<lparr> framebuffer := (set_mode (pick_mode modes))\<lparr> fb_bytes_per_pixel := 4 \<rparr> \<rparr>) in
      case load_kernel_from_ext4 (fw_stack fw) (fw_handles fw) of
        Abort \<Rightarrow> Panicked
      | Fail \<Rightarrow> Load_Error
      | Done elf \<Rightarrow>
          (case load_drivers fw (bi\<lparr> kernel_image := (fw_kernel_buf fw, length elf) \<rparr>)
                  (write_bytes m (fw_kernel_buf fw) elf) of
             Done (bi, m) \<Rightarrow>
               let bi = bi\<lparr> rsdp_addr := fw_rsdp fw \<rparr>;
                   m = write_info fw 1 bi m;
                   bi = enumerate_aps (fw_mp fw) bi;
                   m = write_info fw 2 bi m in
               (case collect_usable_memory_regions (fw_map fw) bi of
                  Done bi \<Rightarrow>
                    (case boot_load_elf elf (memory_regions bi) (memory_region_count bi) (write_info fw 3 bi m) of
                       (m', Done entry) \<Rightarrow> Jump entry (fw_boot_info fw) m' bi
                     | (m', Fail) \<Rightarrow> Halted
                     | (m', Abort) \<Rightarrow> Panicked)
                | _ \<Rightarrow> Panicked)
           | _ \<Rightarrow> Panicked))"

end
