(* ===== verification/Boot_Theorems.thy ===== *)
theory Boot_Theorems
  imports Boot
begin

text \<open>
  Properties of the boot loader: the kernel's segments are in memory with the bytes of the image, they lie in
  free memory below the limit as long as no segment has more bytes in the file than in memory, and
  the boot information, the handoff word and the two files are in memory at the jump. What it hands
  to the kernel is within the tables' bounds.
\<close>

section \<open>Segments\<close>

definition load_segs :: "u8 list \<Rightarrow> nat list \<Rightarrow> load_seg list" where
  "load_segs data offs = map (read_seg data) (filter (\<lambda>off. rd data off 4 = 1) offs)"

definition span :: "load_seg \<Rightarrow> nat" where "span g = max (g_filesz g) (g_memsz g)"

definition in_seg :: "load_seg \<Rightarrow> nat \<Rightarrow> bool" where
  "in_seg g x \<longleftrightarrow> g_paddr g \<le> x \<and> x < g_paddr g + span g"

definition seg_byte :: "u8 list \<Rightarrow> load_seg \<Rightarrow> nat \<Rightarrow> u8" where
  "seg_byte data g k = (if k < g_filesz g then data ! (g_offset g + k) else 0)"

text \<open>The test the loader makes of a segment.\<close>

definition seg_free :: "memory_region list \<Rightarrow> nat \<Rightarrow> load_seg \<Rightarrow> bool" where
  "seg_free regions cnt g \<longleftrightarrow> sat (g_paddr g + g_memsz g) \<le> KERNEL_LOAD_PHYS_LIMIT
     \<and> addr_in_any_region (g_paddr g) (g_memsz g) regions cnt"

lemma place_seg_Done:
  assumes "place_seg data regions cnt g m = (m', Done u)"
  shows "seg_free regions cnt g" "m' x = (if in_seg g x then seg_byte data g (x - g_paddr g) else m x)"
proof -
  have "g_offset g + g_filesz g \<le> length data"
    using assms by (auto simp: place_seg_def split: if_splits)
  then show "seg_free regions cnt g" "m' x = (if in_seg g x then seg_byte data g (x - g_paddr g) else m x)"
    using assms by (auto simp: place_seg_def seg_free_def write_bytes_def Let_def in_seg_def span_def seg_byte_def
        split: if_splits)
qed

lemma place_seg_other: "place_seg data regions cnt g m = (m', r) \<Longrightarrow> (\<forall>u. r \<noteq> Done u) \<Longrightarrow> m' = m"
  by (auto simp: place_seg_def Let_def split: if_splits)

lemma place_segs_outside:
  assumes "place_segs data regions cnt offs m = (m', r)" "m' x \<noteq> m x"
  shows "\<exists>g \<in> set (load_segs data offs). in_seg g x \<and> seg_free regions cnt g"
  using assms
proof (induction offs arbitrary: m)
  case (Cons off offs)
  obtain m1 r1 where p: "place_seg data regions cnt (read_seg data off) m = (m1, r1)" by fastforce
  consider "m' = m" | "place_segs data regions cnt offs m = (m', r)"
    | u where "rd data off 4 = 1" "r1 = Done u" "place_segs data regions cnt offs m1 = (m', r)"
    using Cons.prems(1) p place_seg_other [OF p] by (auto split: if_splits res.splits)
  then show ?case
  proof cases
    case 2
    from Cons.IH [OF 2 Cons.prems(2)] show ?thesis by (auto simp: load_segs_def)
  next
    case 3
    show ?thesis
    proof (cases "m' x = m1 x")
      case True
      then have "in_seg (read_seg data off) x"
        using Cons.prems(2) place_seg_Done(2) [OF p [unfolded 3(2)], of x] by (auto split: if_splits)
      then show ?thesis using 3(1) place_seg_Done(1) [OF p [unfolded 3(2)]] by (auto simp: load_segs_def)
    next
      case False
      from Cons.IH [OF 3(3) False] show ?thesis by (auto simp: load_segs_def)
    qed
  qed (use Cons.prems in simp)
qed simp

lemma place_segs_free:
  "place_segs data regions cnt offs m = (m', Done u) \<Longrightarrow> g \<in> set (load_segs data offs) \<Longrightarrow> seg_free regions cnt g"
proof (induction offs arbitrary: m)
  case (Cons off offs)
  obtain m1 r1 where p: "place_seg data regions cnt (read_seg data off) m = (m1, r1)" by fastforce
  show ?case
  proof (cases "rd data off 4 = 1")
    case True
    then obtain v where "r1 = Done v" "place_segs data regions cnt offs m1 = (m', Done u)"
      using Cons.prems(1) p by (auto split: if_splits res.splits)
    then show ?thesis
      using Cons.IH Cons.prems(2) True place_seg_Done(1) p by (auto simp: load_segs_def)
  qed (use Cons in \<open>auto simp: load_segs_def split: if_splits\<close>)
qed (simp add: load_segs_def)

definition seg_apart :: "load_seg \<Rightarrow> load_seg \<Rightarrow> bool" where
  "seg_apart g h \<longleftrightarrow> g_paddr g + span g \<le> g_paddr h \<or> g_paddr h + span h \<le> g_paddr g"

lemma place_segs_contents:
  assumes "place_segs data regions cnt offs m = (m', Done u)" "sorted_wrt seg_apart (load_segs data offs)"
    and "g \<in> set (load_segs data offs)" "in_seg g x"
  shows "m' x = seg_byte data g (x - g_paddr g)"
  using assms
proof (induction offs arbitrary: m)
  case (Cons off offs)
  show ?case
  proof (cases "rd data off 4 = 1")
    case True
    let ?g = "read_seg data off"
    obtain m1 v where p: "place_seg data regions cnt ?g m = (m1, Done v)" "place_segs data regions cnt offs m1 = (m', Done u)"
      using Cons.prems(1) True by (auto split: if_splits prod.splits res.splits)
    have segs: "load_segs data (off # offs) = ?g # load_segs data offs" using True by (simp add: load_segs_def)
    show ?thesis
    proof (cases "g \<in> set (load_segs data offs)")
      case True
      then show ?thesis using Cons.IH [OF p(2)] Cons.prems(2,4) segs by simp
    next
      case False
      then have g: "g = ?g" using Cons.prems(3) segs by simp
      have "\<not> in_seg h x" if "h \<in> set (load_segs data offs)" for h
        using Cons.prems(2,4) that by (auto simp: segs g seg_apart_def in_seg_def)
      then have "m' x = m1 x" using place_segs_outside [OF p(2), of x] by blast
      then show ?thesis using place_seg_Done(2) [OF p(1), of x] Cons.prems(4) g by simp
    qed
  next
    case False
    then show ?thesis using Cons by (auto simp: load_segs_def split: if_splits)
  qed
qed (simp add: load_segs_def)

lemma boot_load_Done:
  assumes "boot_load_elf data regions cnt m = (m', Done e)"
  shows "e = rd data 24 8" "\<exists>u. place_segs data regions cnt (header_offsets data) m = (m', Done u)"
  using assms by (auto simp: boot_load_elf_def Let_def split: if_splits prod.splits res.splits)

text \<open>A segment that passes the test and has no more bytes in the file than in memory lies in free memory.\<close>

lemma seg_free_byte:
  assumes "seg_free regions cnt g" "in_seg g x" "g_filesz g \<le> g_memsz g"
  shows "x < KERNEL_LOAD_PHYS_LIMIT"
    "\<exists>r \<in> set (take cnt regions). phys_start r \<le> x \<and> x < phys_start r + region_size r"
proof -
  have x: "g_paddr g \<le> x" "x < g_paddr g + g_memsz g" using assms(2,3) by (auto simp: in_seg_def span_def)
  have lim: "g_paddr g + g_memsz g \<le> KERNEL_LOAD_PHYS_LIMIT" "sat (g_paddr g + g_memsz g) = g_paddr g + g_memsz g"
    using assms(1) by (auto simp: seg_free_def sat_def KERNEL_LOAD_PHYS_LIMIT_def min_def split: if_splits)
  show "x < KERNEL_LOAD_PHYS_LIMIT" using x lim by simp
  obtain r where r: "r \<in> set (take cnt regions)" "phys_start r \<le> g_paddr g"
      "sat (g_paddr g + g_memsz g) \<le> sat (phys_start r + region_size r)"
    using assms(1) by (auto simp: seg_free_def addr_in_any_region_def list_ex_iff min_def split: if_splits)
  then have "g_paddr g + g_memsz g \<le> phys_start r + region_size r" using lim(2) by (simp add: sat_def)
  then show "\<exists>r \<in> set (take cnt regions). phys_start r \<le> x \<and> x < phys_start r + region_size r"
    using r(1,2) x by (intro bexI [of _ r]) auto
qed

section \<open>The tables handed over\<close>

lemma collect_regions_count:
  "collect_regions es regions n = Done (regions', n') \<Longrightarrow> n \<le> MAX_MEMORY_REGIONS \<Longrightarrow> n' \<le> MAX_MEMORY_REGIONS"
  by (induction es arbitrary: regions n) (auto split: if_splits elim!: bindr_DoneE)

lemma collect_usable_count:
  assumes "collect_usable_memory_regions mm bi = Done bi'"
  shows "memory_region_count bi' \<le> MAX_MEMORY_REGIONS" "ap_count bi' = ap_count bi"
  using assms collect_regions_count [of _ no_regions 0]
  by (auto simp: collect_usable_memory_regions_def split: option.splits elim!: bindr_DoneE)

definition is_ap :: "proc_info \<Rightarrow> bool" where
  "is_ap i \<longleftrightarrow> is_enabled i \<and> is_healthy i \<and> \<not> is_bsp i"

lemma enumerate_loop_keeps:
  assumes "enumerate_loop ps limit bi n = (bi', r)" "n \<le> limit" "length (ap_apic_ids bi) = BOOT_MAX_CPUS" "limit < BOOT_MAX_CPUS"
  shows "ap_count bi' = ap_count bi \<and> length (ap_apic_ids bi') = BOOT_MAX_CPUS \<and> (\<forall>k. r = Some k \<longrightarrow>
    k = min limit (n + length (filter is_ap (map the ps))) \<and> take k (ap_apic_ids bi') = take n (ap_apic_ids bi)
      @ take (k - n) (map (\<lambda>i. processor_id i mod 2 ^ 32) (filter is_ap (map the ps))))"
  using assms
proof (induction ps arbitrary: bi n)
  case (Cons p ps)
  show ?case
  proof (cases "limit \<le> n \<or> p = None")
    case True
    then have "bi' = bi \<and> (r = None \<or> r = Some n \<and> limit \<le> n)"
      using Cons.prems(1) by (cases p) (auto split: if_splits)
    then show ?thesis using Cons.prems(2,3) by auto
  next
    case False
    then obtain i where p: "p = Some i" "n < limit" by auto
    consider "\<not> is_enabled i \<or> \<not> is_healthy i" | "is_enabled i" "is_healthy i" "is_bsp i"
      | "is_enabled i" "is_healthy i" "\<not> is_bsp i" by blast
    then show ?thesis
    proof cases
      case 3
      let ?bi = "bi\<lparr> ap_apic_ids := (ap_apic_ids bi)[n := processor_id i mod 2 ^ 32] \<rparr>"
      have "enumerate_loop ps limit ?bi (Suc n) = (bi', r)" using Cons.prems(1) p 3 by simp
      note ih = Cons.IH [OF this]
      have n: "n < length (ap_apic_ids bi)" using Cons.prems(3,4) p by simp
      then have t: "take (Suc n) (ap_apic_ids ?bi) = take n (ap_apic_ids bi) @ [processor_id i mod 2 ^ 32]"
        by (simp add: take_Suc_conv_app_nth)
      have c: "take (k - n) (x # xs) = x # take (k - Suc n) xs" if "n < k" for k x and xs :: "nat list"
        using that by (simp flip: Suc_diff_Suc)
      have f: "filter is_ap (map the (p # ps)) = i # filter is_ap (map the ps)" using 3 p by (simp add: is_ap_def)
      have k: "n < min limit (n + length (i # xs))" for xs using p(2) by simp
      show ?thesis unfolding f using ih Cons.prems(3,4) p(2) t c by (auto simp: min_def)
    qed (use Cons.IH Cons.prems p in \<open>auto simp: is_ap_def\<close>)
  qed
qed auto

lemma enumerate_aps_count:
  assumes "length (ap_apic_ids bi) = BOOT_MAX_CPUS" "ap_count bi = 0"
  shows "ap_count (enumerate_aps mp bi) \<le> BOOT_MAX_CPUS - 1"
proof (cases mp)
  case (Some ep)
  obtain enabled procs where ep: "ep = (enabled, procs)" by (cases ep)
  let ?limit = "min (min enabled BOOT_MAX_CPUS) (BOOT_MAX_CPUS - 1)"
  obtain bi' r where e: "enumerate_loop procs ?limit bi 0 = (bi', r)" by fastforce
  have "ap_count bi' = 0" "\<forall>k. r = Some k \<longrightarrow> k \<le> ?limit"
    using enumerate_loop_keeps [OF e] assms by (auto simp: BOOT_MAX_CPUS_def)
  then show ?thesis using Some ep e by (auto simp: enumerate_aps_def Let_def split: option.split)
qed (use assms in \<open>simp add: enumerate_aps_def\<close>)

text \<open>The fields the later steps keep, and the size of the structure in memory.\<close>

definition info_ok :: "boot_info \<Rightarrow> bool" where
  "info_ok bi \<longleftrightarrow> length (memory_regions bi) = MAX_MEMORY_REGIONS \<and> length (ap_apic_ids bi) = BOOT_MAX_CPUS"

lemma boot_info_size: "info_ok bi \<Longrightarrow> length (boot_info_bytes padding bi) = 2200"
  by (simp add: info_ok_def boot_info_bytes_def framebuffer_bytes_def length_concat o_def sum_list_triv
      MAX_MEMORY_REGIONS_def BOOT_MAX_CPUS_def)

lemma enumerate_loop_fields:
  "enumerate_loop ps limit bi n = (bi', r) \<Longrightarrow> memory_regions bi' = memory_regions bi
    \<and> length (ap_apic_ids bi') = length (ap_apic_ids bi) \<and> kernel_image bi' = kernel_image bi \<and> drivers_elf bi' = drivers_elf bi"
proof (induction ps arbitrary: bi n)
  case (Cons p ps)
  show ?case
  proof (cases p)
    case (Some i)
    let ?b = "bi\<lparr> bsp_apic_id := processor_id i mod 2 ^ 32 \<rparr>"
      and ?a = "bi\<lparr> ap_apic_ids := (ap_apic_ids bi)[n := processor_id i mod 2 ^ 32] \<rparr>"
    show ?thesis
      using Cons.prems Cons.IH [of bi n] Cons.IH [of ?b n] Cons.IH [of ?a "n + 1"] by (auto simp: Some split: if_splits)
  qed (use Cons.prems in \<open>auto split: if_splits\<close>)
qed simp

lemma enumerate_aps_fields:
  "memory_regions (enumerate_aps mp bi) = memory_regions bi" "length (ap_apic_ids (enumerate_aps mp bi)) = length (ap_apic_ids bi)"
  "kernel_image (enumerate_aps mp bi) = kernel_image bi" "drivers_elf (enumerate_aps mp bi) = drivers_elf bi"
  using enumerate_loop_fields by (auto simp: enumerate_aps_def Let_def split: option.splits prod.splits)

lemma collect_regions_length:
  "collect_regions es regions n = Done (regions', n') \<Longrightarrow> length regions' = length regions"
  by (induction es arbitrary: regions n) (auto split: if_splits elim!: bindr_DoneE)

lemma collect_usable_fields:
  assumes "collect_usable_memory_regions mm bi = Done bi'"
  shows "length (memory_regions bi') = MAX_MEMORY_REGIONS" "ap_apic_ids bi' = ap_apic_ids bi"
    "kernel_image bi' = kernel_image bi" "drivers_elf bi' = drivers_elf bi"
  using assms collect_regions_length [of _ no_regions 0]
  by (auto simp: collect_usable_memory_regions_def no_regions_def split: option.splits elim!: bindr_DoneE)

text \<open>The drivers file, if there is one.\<close>

definition drivers_file :: "firmware \<Rightarrow> u8 list option" where
  "drivers_file fw = (case load_file_from_ext4 (fw_stack fw) (fw_handles fw) (map (of_nat \<circ> of_char) ''drivers.elf'') of
     Done data \<Rightarrow> Some data | _ \<Rightarrow> None)"

lemma load_drivers_Done:
  assumes "load_drivers fw bi m = Done (bi', m')"
  shows "ap_apic_ids bi' = ap_apic_ids bi" "ap_count bi' = ap_count bi" "kernel_image bi' = kernel_image bi"
    "drivers_elf bi' = (case drivers_file fw of None \<Rightarrow> (0, 0) | Some data \<Rightarrow> (fw_drivers_buf fw, length data))"
    "m' = (case drivers_file fw of None \<Rightarrow> m | Some data \<Rightarrow> write_bytes m (fw_drivers_buf fw) data)"
    "memory_regions bi' = memory_regions bi"
  using assms by (auto simp: load_drivers_def drivers_file_def split: res.splits)

text \<open>What a boot that reaches the jump has done, step by step.\<close>

lemma boot_main_JumpE:
  assumes "boot_main fw m = Jump entry rdi m' bi"
  obtains elf bi0 bi1 m1 where "load_kernel_from_ext4 (fw_stack fw) (fw_handles fw) = Done elf" "rdi = fw_boot_info fw"
    "info_ok bi0" "ap_count bi0 = 0"
    "load_drivers fw (bi0\<lparr> kernel_image := (fw_kernel_buf fw, length elf) \<rparr>)
       (write_bytes (write_bytes (write_info fw 0 initial_info m) BOOT_INFO_HANDOFF_ADDR (to_le 8 (fw_boot_info fw)))
         (fw_kernel_buf fw) elf) = Done (bi1, m1)"
    "collect_usable_memory_regions (fw_map fw) (enumerate_aps (fw_mp fw) (bi1\<lparr> rsdp_addr := fw_rsdp fw \<rparr>)) = Done bi"
    "boot_load_elf elf (memory_regions bi) (memory_region_count bi) (write_info fw 3 bi
       (write_info fw 2 (enumerate_aps (fw_mp fw) (bi1\<lparr> rsdp_addr := fw_rsdp fw \<rparr>))
         (write_info fw 1 (bi1\<lparr> rsdp_addr := fw_rsdp fw \<rparr>) m1))) = (m', Done entry)"
proof -
  define bi0 where "bi0 = (case fw_gop fw of None \<Rightarrow> initial_info
    | Some (modes, set_mode) \<Rightarrow> initial_info\<lparr> framebuffer := (set_mode (pick_mode modes))\<lparr> fb_bytes_per_pixel := 4 \<rparr> \<rparr>)"
  have init: "info_ok bi0" "ap_count bi0 = 0"
    by (auto simp: bi0_def initial_info_def info_ok_def no_regions_def split: option.split)
  note def = boot_main_def [of fw m, unfolded Let_def, folded bi0_def]
  obtain elf where elf: "load_kernel_from_ext4 (fw_stack fw) (fw_handles fw) = Done elf"
    using assms by (cases "load_kernel_from_ext4 (fw_stack fw) (fw_handles fw)") (simp_all add: def)
  define d where "d = load_drivers fw (bi0\<lparr> kernel_image := (fw_kernel_buf fw, length elf) \<rparr>)
     (write_bytes (write_bytes (write_info fw 0 initial_info m) BOOT_INFO_HANDOFF_ADDR (to_le 8 (fw_boot_info fw)))
       (fw_kernel_buf fw) elf)"
  obtain bi1 m1 where d1: "d = Done (bi1, m1)"
    using assms elf by (cases d) (auto simp: def d_def [symmetric])
  define c where "c = collect_usable_memory_regions (fw_map fw) (enumerate_aps (fw_mp fw) (bi1\<lparr> rsdp_addr := fw_rsdp fw \<rparr>))"
  obtain bi2 where c1: "c = Done bi2"
    using assms elf d1 by (cases c) (auto simp: def d_def [symmetric] c_def [symmetric])
  let ?m = "write_info fw 3 bi2 (write_info fw 2 (enumerate_aps (fw_mp fw) (bi1\<lparr> rsdp_addr := fw_rsdp fw \<rparr>))
     (write_info fw 1 (bi1\<lparr> rsdp_addr := fw_rsdp fw \<rparr>) m1))"
  obtain m2 r where l: "boot_load_elf elf (memory_regions bi2) (memory_region_count bi2) ?m = (m2, r)" by fastforce
  have "(case r of Done e \<Rightarrow> Jump e (fw_boot_info fw) m2 bi2 | Fail \<Rightarrow> Halted | Abort \<Rightarrow> Panicked) = Jump entry rdi m' bi"
    using assms elf d1 c1 l by (simp add: def d_def [symmetric] c_def [symmetric])
  then have "r = Done entry" "rdi = fw_boot_info fw" "m2 = m'" "bi2 = bi" by (cases r; simp)+
  then show thesis using that [OF elf _ init d1 [unfolded d_def]] l c1 by (simp add: c_def)
qed

section \<open>Data left in memory\<close>

text \<open>\<open>held m a bs over\<close>: the bytes \<open>bs\<close> are at \<open>a\<close>, except where something was written over them.\<close>

definition within :: "nat \<Rightarrow> nat \<Rightarrow> nat \<Rightarrow> bool" where
  "within a n x \<longleftrightarrow> a \<le> x \<and> x < a + n"

definition held :: "pmem \<Rightarrow> nat \<Rightarrow> u8 list \<Rightarrow> (nat \<Rightarrow> bool) \<Rightarrow> bool" where
  "held m a bs over \<longleftrightarrow> (\<forall>i<length bs. \<not> over (a + i) \<longrightarrow> m (a + i) = bs ! i)"

lemma held_write: "held (write_bytes m a bs) a bs over"
  by (simp add: held_def write_bytes_def)

lemma held_later:
  assumes "held m a bs over" "\<And>x. m' x \<noteq> m x \<Longrightarrow> over' x" "\<And>x. over x \<Longrightarrow> over' x"
  shows "held m' a bs over'"
  using assms unfolding held_def by metis

lemma write_bytes_other: "write_bytes m a bs x \<noteq> m x \<Longrightarrow> within a (length bs) x"
  by (auto simp: write_bytes_def within_def split: if_splits)

lemma held_written:
  "held m a bs over \<Longrightarrow> held (write_bytes m a' bs') a bs (\<lambda>x. over x \<or> within a' (length bs') x)"
  by (erule held_later) (auto dest: write_bytes_other)

section \<open>Properties\<close>

text \<open>C26. When the loader reports success and the kernel's segments do not overlap, every byte of every segment is in
  memory at the physical address the program header names: the bytes of the file first, then zeros.\<close>

theorem boot_kernel_placed:
  assumes "boot_load_elf data regions cnt m = (m', Done e)"
    and "sorted_wrt seg_apart (load_segs data (header_offsets data))"
    and "g \<in> set (load_segs data (header_offsets data))" "k < g_memsz g"
  shows "m' (g_paddr g + k) = (if k < g_filesz g then data ! (g_offset g + k) else 0)"
proof -
  obtain u where "place_segs data regions cnt (header_offsets data) m = (m', Done u)"
    using boot_load_Done(2) [OF assms(1)] by blast
  from place_segs_contents [OF this assms(2,3), of "g_paddr g + k"] assms(4) show ?thesis
    by (simp add: in_seg_def span_def seg_byte_def)
qed

text \<open>The memory just before the kernel's segments are placed.\<close>

lemma boot_memory:
  fixes fw elf bi bi' bi'' m1
  defines "drv \<equiv> (case drivers_file fw of None \<Rightarrow> [] | Some data \<Rightarrow> data)"
    and "mem \<equiv> write_info fw 3 bi (write_info fw 2 bi' (write_info fw 1 bi'' m1))"
  assumes d: "load_drivers fw b0 (write_bytes (write_bytes m0 0x5000 word) (fw_kernel_buf fw) elf) = Done (bi1, m1)"
    and ok: "info_ok bi" "info_ok bi'" "info_ok bi''"
  shows "held mem (fw_boot_info fw) (boot_info_bytes (fw_padding fw 3) bi) (\<lambda>_. False)"
    "held mem (fw_drivers_buf fw) drv (within (fw_boot_info fw) 2200)"
    "held mem (fw_kernel_buf fw) elf (\<lambda>x. within (fw_drivers_buf fw) (length drv) x \<or> within (fw_boot_info fw) 2200 x)"
    "held mem 0x5000 word (\<lambda>x. within (fw_kernel_buf fw) (length elf) x
       \<or> within (fw_drivers_buf fw) (length drv) x \<or> within (fw_boot_info fw) 2200 x)"
proof -
  have nil: "write_bytes m a [] = m" for m a by (rule ext) (auto simp: write_bytes_def)
  have m1: "m1 = write_bytes (write_bytes (write_bytes m0 0x5000 word) (fw_kernel_buf fw) elf) (fw_drivers_buf fw) drv"
    using load_drivers_Done(5) [OF d] by (simp add: drv_def nil split: option.splits)
  show "held mem (fw_boot_info fw) (boot_info_bytes (fw_padding fw 3) bi) (\<lambda>_. False)"
    unfolding mem_def write_info_def by (rule held_write)
  have info: "held mem a bs (\<lambda>x. over x \<or> within (fw_boot_info fw) 2200 x)" if "held m1 a bs over" for a bs over
    using held_written [OF held_written [OF held_written [OF that]],
        of _ "boot_info_bytes (fw_padding fw 1) bi''" _ "boot_info_bytes (fw_padding fw 2) bi'"
        "fw_boot_info fw" "boot_info_bytes (fw_padding fw 3) bi"]
    unfolding mem_def write_info_def boot_info_size [OF ok(1)] boot_info_size [OF ok(2)] boot_info_size [OF ok(3)]
    by (metis (no_types, lifting) held_later)
  have w: "held m1 (fw_drivers_buf fw) drv (\<lambda>_. False)"
      "held m1 (fw_kernel_buf fw) elf (\<lambda>x. False \<or> within (fw_drivers_buf fw) (length drv) x)"
      "held m1 0x5000 word (\<lambda>x. (False \<or> within (fw_kernel_buf fw) (length elf) x) \<or> within (fw_drivers_buf fw) (length drv) x)"
    unfolding m1 by (intro held_write held_written)+
  show "held mem (fw_drivers_buf fw) drv (within (fw_boot_info fw) 2200)"
      "held mem (fw_kernel_buf fw) elf (\<lambda>x. within (fw_drivers_buf fw) (length drv) x \<or> within (fw_boot_info fw) 2200 x)"
      "held mem 0x5000 word (\<lambda>x. within (fw_kernel_buf fw) (length elf) x
       \<or> within (fw_drivers_buf fw) (length drv) x \<or> within (fw_boot_info fw) 2200 x)"
    using info [OF w(1)] info [OF w(2)] info [OF w(3)] by (simp_all add: disj_assoc)
qed

lemma boot_jump:
  fixes fw
  defines "drv \<equiv> (case drivers_file fw of None \<Rightarrow> [] | Some data \<Rightarrow> data)"
  assumes "boot_main fw m = Jump entry rdi m' bi"
  obtains elf mem where "load_kernel_from_ext4 (fw_stack fw) (fw_handles fw) = Done elf" "rdi = fw_boot_info fw"
    "info_ok bi" "memory_region_count bi \<le> 128" "ap_count bi \<le> 3" "kernel_image bi = (fw_kernel_buf fw, length elf)"
    "drivers_elf bi = (case drivers_file fw of None \<Rightarrow> (0, 0) | Some data \<Rightarrow> (fw_drivers_buf fw, length data))"
    "boot_load_elf elf (memory_regions bi) (memory_region_count bi) mem = (m', Done entry)"
    "held mem rdi (boot_info_bytes (fw_padding fw 3) bi) (\<lambda>_. False)"
    "held mem (fw_drivers_buf fw) drv (within rdi 2200)"
    "held mem (fw_kernel_buf fw) elf (\<lambda>x. within (fw_drivers_buf fw) (length drv) x \<or> within rdi 2200 x)"
    "held mem 0x5000 (to_le 8 rdi) (\<lambda>x. within (fw_kernel_buf fw) (length elf) x
       \<or> within (fw_drivers_buf fw) (length drv) x \<or> within rdi 2200 x)"
proof -
  obtain elf bi0 bi1 m1 where b: "load_kernel_from_ext4 (fw_stack fw) (fw_handles fw) = Done elf" "rdi = fw_boot_info fw"
      "info_ok bi0" "ap_count bi0 = 0"
      and d: "load_drivers fw (bi0\<lparr> kernel_image := (fw_kernel_buf fw, length elf) \<rparr>)
       (write_bytes (write_bytes (write_info fw 0 initial_info m) BOOT_INFO_HANDOFF_ADDR (to_le 8 (fw_boot_info fw)))
         (fw_kernel_buf fw) elf) = Done (bi1, m1)"
      and c: "collect_usable_memory_regions (fw_map fw) (enumerate_aps (fw_mp fw) (bi1\<lparr> rsdp_addr := fw_rsdp fw \<rparr>)) = Done bi"
      and l: "boot_load_elf elf (memory_regions bi) (memory_region_count bi) (write_info fw 3 bi
       (write_info fw 2 (enumerate_aps (fw_mp fw) (bi1\<lparr> rsdp_addr := fw_rsdp fw \<rparr>))
         (write_info fw 1 (bi1\<lparr> rsdp_addr := fw_rsdp fw \<rparr>) m1))) = (m', Done entry)"
    by (rule boot_main_JumpE [OF assms(2)])
  note dd = load_drivers_Done [OF d] and cc = collect_usable_fields [OF c]
  have ok1: "info_ok (bi1\<lparr> rsdp_addr := fw_rsdp fw \<rparr>)" using b(3) dd by (simp add: info_ok_def)
  then have ok2: "info_ok (enumerate_aps (fw_mp fw) (bi1\<lparr> rsdp_addr := fw_rsdp fw \<rparr>))"
    by (simp add: info_ok_def enumerate_aps_fields)
  then have ok: "info_ok bi" using cc by (simp add: info_ok_def)
  have counts: "memory_region_count bi \<le> 128" "ap_count bi \<le> 3"
    using collect_usable_count [OF c] enumerate_aps_count [of "bi1\<lparr> rsdp_addr := fw_rsdp fw \<rparr>" "fw_mp fw"] b(4) dd ok1
    by (simp_all add: MAX_MEMORY_REGIONS_def BOOT_MAX_CPUS_def info_ok_def)
  have images: "kernel_image bi = (fw_kernel_buf fw, length elf)"
      "drivers_elf bi = (case drivers_file fw of None \<Rightarrow> (0, 0) | Some data \<Rightarrow> (fw_drivers_buf fw, length data))"
    using cc dd by (simp_all add: enumerate_aps_fields)
  show thesis
    by (rule that [OF b(1,2) ok counts images l])
      (use boot_memory [OF d [unfolded BOOT_INFO_HANDOFF_ADDR_def] ok ok2 ok1] in \<open>simp_all add: b(2) drv_def\<close>)
qed

text \<open>C12. A boot that jumps to the kernel jumps to the entry point of the kernel file with the address of the boot
  information as argument, at most 128 memory regions and three application processors reported, and the
  buffers of the kernel file and of the drivers file, if there is one, recorded. Memory then holds the
  final boot information, 2200 bytes in C layout, at that address; the address itself at the handoff
  word 0x5000; and the bytes of the two files in their buffers: each except where a later of these
  areas or a segment of the kernel covers it. Every byte of a segment whose size in the file does not
  exceed its size in memory lies below the load limit in a memory region reported as usable.\<close>

theorem boot_handoff:
  assumes "boot_main fw m = Jump entry rdi m' bi"
  shows "\<exists>elf. load_kernel_from_ext4 (fw_stack fw) (fw_handles fw) = Done elf \<and> entry = rd elf 24 8
    \<and> rdi = fw_boot_info fw \<and> memory_region_count bi \<le> 128 \<and> ap_count bi \<le> 3
    \<and> kernel_image bi = (fw_kernel_buf fw, length elf)
    \<and> drivers_elf bi = (case drivers_file fw of None \<Rightarrow> (0, 0) | Some data \<Rightarrow> (fw_drivers_buf fw, length data))
    \<and> (let drv = (case drivers_file fw of None \<Rightarrow> [] | Some data \<Rightarrow> data);
           info = boot_info_bytes (fw_padding fw 3) bi;
           seg = (\<lambda>x. \<exists>g \<in> set (load_segs elf (header_offsets elf)). in_seg g x);
           at_info = within rdi 2200; at_drv = within (fw_drivers_buf fw) (length drv);
           at_elf = within (fw_kernel_buf fw) (length elf)
       in length info = 2200 \<and> held m' rdi info seg
        \<and> held m' (fw_drivers_buf fw) drv (\<lambda>x. at_info x \<or> seg x)
        \<and> held m' (fw_kernel_buf fw) elf (\<lambda>x. at_drv x \<or> at_info x \<or> seg x)
        \<and> held m' 0x5000 (to_le 8 rdi) (\<lambda>x. at_elf x \<or> at_drv x \<or> at_info x \<or> seg x))
    \<and> (\<forall>g \<in> set (load_segs elf (header_offsets elf)). \<forall>x. in_seg g x \<and> g_filesz g \<le> g_memsz g \<longrightarrow>
         x < KERNEL_LOAD_PHYS_LIMIT \<and> (\<exists>r \<in> set (take (memory_region_count bi) (memory_regions bi)).
           phys_start r \<le> x \<and> x < phys_start r + region_size r))"
proof -
  define drv where "drv = (case drivers_file fw of None \<Rightarrow> [] | Some data \<Rightarrow> data)"
  obtain elf mem where b: "load_kernel_from_ext4 (fw_stack fw) (fw_handles fw) = Done elf" "rdi = fw_boot_info fw"
      "info_ok bi" "memory_region_count bi \<le> 128" "ap_count bi \<le> 3" "kernel_image bi = (fw_kernel_buf fw, length elf)"
      "drivers_elf bi = (case drivers_file fw of None \<Rightarrow> (0, 0) | Some data \<Rightarrow> (fw_drivers_buf fw, length data))"
    and l: "boot_load_elf elf (memory_regions bi) (memory_region_count bi) mem = (m', Done entry)"
    and h: "held mem rdi (boot_info_bytes (fw_padding fw 3) bi) (\<lambda>_. False)"
      "held mem (fw_drivers_buf fw) drv (within rdi 2200)"
      "held mem (fw_kernel_buf fw) elf (\<lambda>x. within (fw_drivers_buf fw) (length drv) x \<or> within rdi 2200 x)"
      "held mem 0x5000 (to_le 8 rdi) (\<lambda>x. within (fw_kernel_buf fw) (length elf) x
         \<or> within (fw_drivers_buf fw) (length drv) x \<or> within rdi 2200 x)"
    by (rule boot_jump [OF assms, folded drv_def])
  obtain u where p: "place_segs elf (memory_regions bi) (memory_region_count bi) (header_offsets elf) mem = (m', Done u)"
    using boot_load_Done(2) [OF l] by blast
  define seg where "seg = (\<lambda>x. \<exists>g \<in> set (load_segs elf (header_offsets elf)). in_seg g x)"
  have keep: "held m' a bs (\<lambda>x. over x \<or> seg x)" if "held mem a bs over" for a bs over
    using place_segs_outside [OF p] by (intro held_later [OF that]) (auto simp: seg_def)
  note k = keep [OF h(1)] keep [OF h(2)] keep [OF h(3)] keep [OF h(4)]
  note free = seg_free_byte [OF place_segs_free [OF p]]
  show ?thesis
    unfolding drv_def [symmetric] Let_def
    by (rule exI [of _ elf])
      (use b k free boot_load_Done(1) [OF l] boot_info_size [OF b(3)] in \<open>simp add: disj_assoc seg_def\<close>)
qed

section \<open>Witnesses\<close>

text \<open>A kernel file with one segment of four bytes at 1 MiB, and a free region of one page there.\<close>

definition boot_demo_elf :: "u8 \<Rightarrow> u8 list" where
  "boot_demo_elf memsz = [127, 69, 76, 70, 2, 1, 1, 0, 0, 0, 0, 0, 0, 0, 0, 0, 2, 0, 62, 0, 1, 0, 0, 0, 0, 0, 16, 0, 0, 0, 0, 0,
     64, 0, 0, 0, 0, 0, 0, 0, 0, 0, 0, 0, 0, 0, 0, 0, 0, 0, 0, 0, 64, 0, 56, 0, 1, 0, 0, 0, 0, 0, 0, 0,
     1, 0, 0, 0, 5, 0, 0, 0, 120, 0, 0, 0, 0, 0, 0, 0, 0, 0, 16, 0, 0, 0, 0, 0, 0, 0, 16, 0, 0, 0, 0, 0, 4, 0, 0, 0, 0, 0, 0, 0,
     memsz, 0, 0, 0, 0, 0, 0, 0, 0, 0, 0, 0, 0, 0, 0, 0, 0xAA, 0xBB, 0xCC, 0xDD]"

definition demo_region :: memory_region where "demo_region = \<lparr> phys_start = 0x100000, region_size = 0x1000 \<rparr>"

lemma demo_header:
  "length (boot_demo_elf z) = 124" "take 4 (boot_demo_elf z) = [0x7f, 0x45, 0x4c, 0x46]" "boot_demo_elf z ! 4 = 2" "boot_demo_elf z ! 5 = 1"
  "rd (boot_demo_elf z) 16 2 = 2" "rd (boot_demo_elf z) 24 8 = 0x100000" "rd (boot_demo_elf z) 32 8 = 64" "rd (boot_demo_elf z) 54 2 = 56"
  "rd (boot_demo_elf z) 56 2 = 1" "rd (boot_demo_elf z) 64 4 = 1"
  by (simp_all add: boot_demo_elf_def rd_def)

lemma demo_tail: "take 4 (drop 120 (boot_demo_elf z)) = [0xAA, 0xBB, 0xCC, 0xDD]"
  by (simp add: boot_demo_elf_def)

lemma demo_seg:
  "read_seg (boot_demo_elf z) 64 = \<lparr> g_offset = 120, g_paddr = 0x100000, g_filesz = 4, g_memsz = unat z \<rparr>"
  by (simp add: boot_demo_elf_def rd_def read_seg_def)

lemma demo_offsets: "header_offsets (boot_demo_elf z) = [64]" by (simp add: header_offsets_def demo_header)

lemma demo_segs:
  "load_segs (boot_demo_elf z) (header_offsets (boot_demo_elf z)) = [\<lparr> g_offset = 120, g_paddr = 0x100000, g_filesz = 4, g_memsz = unat z \<rparr>]"
  unfolding demo_offsets by (simp add: load_segs_def demo_header demo_seg)

lemma boot_demo_free: "addr_in_any_region 0x100000 6 [demo_region] 1" "addr_in_any_region 0x100000 1 [\<lparr> phys_start = 0x100000, region_size = 1 \<rparr>] 1"
  by (simp_all add: addr_in_any_region_def demo_region_def sat_def)

lemma demo_load: "\<exists>m'. boot_load_elf (boot_demo_elf 6) [demo_region] 1 m = (m', Done 0x100000)"
  using boot_demo_free
  by (simp add: boot_load_elf_def demo_header demo_offsets demo_seg place_seg_def sat_def KERNEL_LOAD_PHYS_LIMIT_def Let_def)

text \<open>With four bytes in the file and one in memory, three bytes beyond the only free region are overwritten.\<close>

lemma boot_load_overrun:
  "\<exists>m'. boot_load_elf (boot_demo_elf 1) [\<lparr> phys_start = 0x100000, region_size = 1 \<rparr>] 1 (\<lambda>_. 0) = (m', Done 0x100000) \<and> m' 0x100003 = 0xDD"
  using boot_demo_free
  by (simp add: boot_load_elf_def demo_header demo_offsets demo_seg place_seg_def sat_def KERNEL_LOAD_PHYS_LIMIT_def Let_def
      write_bytes_def demo_tail)

theorem boot_kernel_placed_witness:
  "\<exists>m'. boot_load_elf (boot_demo_elf 6) [demo_region] 1 (\<lambda>_. 7) = (m', Done 0x100000) \<and> m' 0x100001 = 0xBB \<and> m' 0x100005 = 0"
proof -
  let ?g = "\<lparr> g_offset = 120, g_paddr = 0x100000, g_filesz = 4, g_memsz = 6 \<rparr> :: load_seg"
  obtain m' where m: "boot_load_elf (boot_demo_elf 6) [demo_region] 1 (\<lambda>_. 7) = (m', Done 0x100000)"
    using demo_load [of "\<lambda>_. 7"] by blast
  have "sorted_wrt seg_apart (load_segs (boot_demo_elf 6) (header_offsets (boot_demo_elf 6)))"
      "?g \<in> set (load_segs (boot_demo_elf 6) (header_offsets (boot_demo_elf 6)))" by (simp_all add: demo_segs)
  note b = boot_kernel_placed [OF m this]
  show ?thesis using m b [of 1] b [of 5] by (simp add: boot_demo_elf_def)
qed

text \<open>A whole boot: a disk with a partition table, an ext4 partition at sector 10 with blocks of 1 KiB, a root directory
  with one entry and the kernel file.\<close>

definition pad :: "u8 list \<Rightarrow> u8 list" where "pad bs = bs @ replicate (512 - length bs) 0"

definition gpt_header :: "u8 list" where
  "gpt_header = map (of_nat \<circ> of_char) ''EFI PART'' @ replicate 64 0 @ [2, 0, 0, 0, 0, 0, 0, 0, 1, 0, 0, 0, 128, 0, 0, 0]"

definition gpt_entry :: "u8 list" where
  "gpt_entry = [0xAF, 0x3D, 0xC6, 0x0F, 0x83, 0x84, 0x72, 0x47, 0x8E, 0x79, 0x3D, 0x69, 0xD8, 0x47, 0x7D, 0xE4]
     @ replicate 16 0 @ [10, 0, 0, 0, 0, 0, 0, 0]"

definition demo_super :: "u8 list" where
  "demo_super = [0, 0, 0, 0, 16, 0, 0, 0] @ replicate 24 0 @ [16, 0, 0, 0, 0, 0, 0, 0, 16, 0, 0, 0] @ replicate 12 0
     @ [0x53, 0xEF] @ replicate 18 0 @ [1, 0, 0, 0] @ replicate 8 0 @ [128, 0] @ replicate 14 0"

definition demo_inode :: "u8 \<Rightarrow> u8 \<Rightarrow> u8 list" where
  "demo_inode sz blk = [0, 0, 0, 0, sz, 0, 0, 0] @ replicate 32 0 @ [blk, 0, 0, 0] @ replicate 84 0"

definition demo_dir :: "u8 list" where
  "demo_dir = [3, 0, 0, 0, 20, 0, 10, 1] @ map (of_nat \<circ> of_char) ''kernel.elf'' @ [0, 0]"

definition demo_sector :: "nat \<Rightarrow> u8 list" where
  "demo_sector lba = pad (if lba = 1 then gpt_header else if lba = 2 then gpt_entry else if lba = 12 then demo_super
     else if lba = 14 then [0, 0, 0, 0, 0, 0, 0, 0, 5, 0, 0, 0]
     else if lba = 20 then replicate 128 0 @ demo_inode 20 8 @ demo_inode 124 9
     else if lba = 26 then demo_dir else if lba = 28 then boot_demo_elf 6 else [])"

definition demo_handle :: handle where
  "demo_handle = Some (512, \<lambda>lba n. if n = 512 then Some (demo_sector lba) else None)"

definition boot_reader :: sector_reader where
  "boot_reader = \<lparr> r_read = (\<lambda>lba n. if n = 512 then Some (demo_sector lba) else None), r_block_size = 512, r_partition = 10 \<rparr>"

definition boot_sb :: superblock where
  "boot_sb = \<lparr> s_blocks_count_lo = 16, s_log_block_size = 0, s_blocks_per_group = 16, s_inodes_per_group = 16,
     s_magic = SB_MAGIC, s_rev_level = 1, s_inode_size = 128, s_feature_ro_compat = 0 \<rparr>"

lemma le_bytes_zeros [simp]: "le_bytes (replicate n 0) = 0"
  by (induction n) simp_all

lemma length_demo_sector: "length (demo_sector lba) = 512"
  by (simp add: demo_sector_def pad_def gpt_header_def gpt_entry_def demo_super_def demo_inode_def demo_dir_def demo_header)

lemma demo_raw: "sector < 100 \<Longrightarrow> length buf = 512 \<Longrightarrow> read_sector_raw demo_handle sector buf = Done (demo_sector sector)"
  by (simp add: read_sector_raw_def demo_handle_def of_opt_def lim_def req_def SECTOR_SIZE_def Let_def length_demo_sector)

lemma boot_demo_find: "find_ext4_partition (Some [demo_handle]) = Done (demo_handle, 10)"
proof -
  have h: "take 8 (demo_sector 1) = map (of_nat \<circ> of_char) ''EFI PART''" "rd (demo_sector 1) 72 8 = 2"
      "rd (demo_sector 1) 80 4 = 1" "rd (demo_sector 1) 84 4 = 128"
    by (simp_all add: demo_sector_def pad_def gpt_header_def rd_def)
  have e: "map (\<lambda>j. rd (demo_sector 2) (2 * j) 2) [0..<8] = EXT4_GUID" "rd (demo_sector 2) 32 8 = 10"
    by (simp_all add: demo_sector_def pad_def gpt_entry_def rd_def EXT4_GUID_def upt_rec)
  then have "scan_entries (demo_sector 2) 128 [0..<4] = Done (Some 10)"
    by (simp add: upt_rec [of 0 4] SECTOR_SIZE_def req_def)
  then show ?thesis
    by (simp add: find_ext4_partition_def of_opt_def try_handle_for_ext4_def demo_raw length_demo_sector step_buf_def
        h [simplified] SECTOR_SIZE_def req_def lim_def Let_def)
qed

lemma boot_read: "sector < 100 \<Longrightarrow> n \<le> 512 \<Longrightarrow> 0 < n \<Longrightarrow>
    read_ext4_sectors boot_reader sector n = Done (take n (demo_sector (10 + sector)))"
proof -
  assume a: "sector < 100" "n \<le> 512" "0 < n"
  then have "(n + 511) div 512 = 1" by simp
  then show ?thesis using a by (simp add: read_ext4_sectors_def boot_reader_def lim_def req_def SECTOR_SIZE_def of_opt_def)
qed

lemma boot_super: "parse_superblock (take 512 (demo_sector 12)) = boot_sb"
  by (simp add: demo_sector_def pad_def demo_super_def rd_def parse_superblock_def boot_sb_def SB_MAGIC_def Let_def)

lemma boot_block_size: "fs_block_size boot_sb = Done 1024"
  by (simp add: fs_block_size_def boot_sb_def req_def)

lemma boot_tables: "read_inode_tables boot_reader boot_sb = Done [5]"
proof -
  have "rd (take 512 (demo_sector 14)) 8 4 = 5" by (simp add: demo_sector_def pad_def rd_def)
  then show ?thesis unfolding read_inode_tables_def boot_block_size
    by (simp add: boot_sb_def req_def lim_def SECTOR_SIZE_def boot_read Let_def)
qed

lemma boot_inodes:
  "read_inode boot_reader boot_sb [5] 2 = Done \<lparr> i_size_lo = 20, i_flags = 0, i_block = 8 # 0 # 0 # 0 # replicate 56 0, i_size_high = 0 \<rparr>"
  "read_inode boot_reader boot_sb [5] 3 = Done \<lparr> i_size_lo = 124, i_flags = 0, i_block = 9 # 0 # 0 # 0 # replicate 56 0, i_size_high = 0 \<rparr>"
proof -
  have sect: "demo_sector 20 = replicate 128 0 @ demo_inode 20 8 @ demo_inode 124 9 @ replicate 128 0"
    by (simp add: demo_sector_def pad_def demo_inode_def)
  have len: "length (demo_inode a b) = 128" for a b by (simp add: demo_inode_def)
  have raw: "inode_bytes boot_reader 10 128 128 = Done (demo_inode 20 8)" "inode_bytes boot_reader 10 256 128 = Done (demo_inode 124 9)"
    by (simp_all add: inode_bytes_def boot_read SECTOR_SIZE_def lim_def Let_def inode_rest.simps sect len)
  have fields: "rd (demo_inode a b) 4 4 = unat a" "rd (demo_inode a b) 32 4 = 0" "rd (demo_inode a b) 108 4 = 0"
      "take 60 (drop 40 (demo_inode a b)) = [b, 0, 0, 0] @ replicate 56 0" for a b
    by (simp_all add: demo_inode_def rd_def)
  show "read_inode boot_reader boot_sb [5] 2 = Done \<lparr> i_size_lo = 20, i_flags = 0, i_block = 8 # 0 # 0 # 0 # replicate 56 0, i_size_high = 0 \<rparr>"
    "read_inode boot_reader boot_sb [5] 3 = Done \<lparr> i_size_lo = 124, i_flags = 0, i_block = 9 # 0 # 0 # 0 # replicate 56 0, i_size_high = 0 \<rparr>"
    unfolding read_inode_def boot_block_size
    by (simp_all add: boot_sb_def lim_def req_def SECTOR_SIZE_def Let_def raw fields)
qed

lemma boot_small_file:
  assumes "b < 16" "0 < b" "0 < n" "n \<le> 512"
  shows "read_file_into 1 boot_reader boot_sb \<lparr> i_size_lo = n, i_flags = 0, i_block = of_nat b # 0 # 0 # 0 # replicate 56 0, i_size_high = 0 \<rparr>
    (replicate n 0) = Done (take n (demo_sector (10 + 2 * b)))"
proof -
  have "rd (of_nat b # 0 # 0 # 0 # replicate 56 (0 :: u8)) 0 4 = b" using assms by (simp add: rd_def unat_of_nat)
  moreover have "(1023 + n) div 1024 = 1" using assms by simp
  ultimately show ?thesis using assms unfolding read_file_into_def boot_block_size
    by (simp add: uses_extents_def read_blockwise_def lim_def req_def resolve_block_def read_data_block_def boot_block_size
        boot_read SECTOR_SIZE_def splice_def Let_def length_demo_sector mult.commute)
qed

text \<open>A lookup on this disk is a search of its directory.\<close>

lemma boot_lookup:
  "load_file_from_ext4 1 (Some [demo_handle]) name =
     (let num = find_entry demo_dir name 0 in
      if num = 0 then Fail else bindr (read_inode boot_reader boot_sb [5] num) (read_file 1 boot_reader boot_sb))"
proof -
  have root: "take 20 (demo_sector 26) = demo_dir" by (simp add: demo_sector_def pad_def demo_dir_def)
  have r: "reader_new demo_handle 10 = Done boot_reader" by (simp add: reader_new_def demo_handle_def of_opt_def boot_reader_def)
  have sb: "read_ext4_sectors boot_reader 2 SECTOR_SIZE = Done (take 512 (demo_sector 12))"
    by (simp add: boot_read SECTOR_SIZE_def)
  have magic: "s_magic boot_sb = SB_MAGIC" by (simp add: boot_sb_def)
  have "read_file_into 1 boot_reader boot_sb
      \<lparr> i_size_lo = 20, i_flags = 0, i_block = 8 # 0 # 0 # 0 # replicate 56 0, i_size_high = 0 \<rparr> (replicate 20 0) = Done demo_dir"
    using boot_small_file [of 8 20] root by simp
  then show ?thesis unfolding load_file_from_ext4_def boot_demo_find
    by (simp only: bindr.simps prod.case r sb boot_super Let_def magic simp_thms if_False boot_tables boot_inodes)
       (simp add: file_size_def)
qed

lemma boot_kernel_file: "load_kernel_from_ext4 1 (Some [demo_handle]) = Done (boot_demo_elf 6)"
proof -
  have num: "find_entry demo_dir (map (of_nat \<circ> of_char) ''kernel.elf'') 0 = 3"
    by (simp add: find_entry.simps demo_dir_def rd_def Let_def)
  have "take 124 (demo_sector 28) = boot_demo_elf 6" by (simp add: demo_sector_def pad_def demo_header)
  then show ?thesis unfolding load_kernel_from_ext4_def boot_lookup num using boot_small_file [of 9 124]
    by (simp add: boot_inodes read_file_def file_size_def)
qed

lemma boot_no_drivers: "load_file_from_ext4 1 (Some [demo_handle]) (map (of_nat \<circ> of_char) ''drivers.elf'') = Fail"
proof -
  have "find_entry demo_dir (map (of_nat \<circ> of_char) ''drivers.elf'') 0 = 0"
    by (simp add: find_entry.simps demo_dir_def rd_def Let_def)
  then show ?thesis unfolding boot_lookup by simp
qed

lemma nth_to_le: "i < n \<Longrightarrow> to_le n v ! i = of_nat (v div 256 ^ i mod 256)"
proof (induction n arbitrary: v i)
  case (Suc n)
  then show ?case by (cases i) (simp_all add: div_mult2_eq)
qed simp

definition demo_fw :: firmware where
  "demo_fw = \<lparr> fw_handles = Some [demo_handle], fw_gop = None, fw_rsdp = 0, fw_mp = None,
     fw_map = Some [\<lparr> conventional = True, page_count = 1, entry_start = 0x100000 \<rparr>],
     fw_kernel_buf = 0x200000, fw_drivers_buf = 0, fw_boot_info = 0x300000, fw_padding = (\<lambda>_ _. 0), fw_stack = 1 \<rparr>"

lemma boot_demo: "\<exists>m' bi. boot_main demo_fw m = Jump 0x100000 0x300000 m' bi"
proof -
  let ?r = "no_regions[0 := demo_region]"
  have reg: "collect_usable_memory_regions (fw_map demo_fw) bi = Done (bi\<lparr> memory_regions := ?r, memory_region_count := 1 \<rparr>)" for bi
    by (simp add: demo_fw_def collect_usable_memory_regions_def MAX_MEMORY_REGIONS_def lim_def demo_region_def)
  have "replicate 128 x = x # replicate 127 x" for x :: memory_region by (simp flip: replicate_Suc)
  then have "addr_in_any_region 0x100000 6 ?r 1"
    by (simp add: addr_in_any_region_def no_regions_def MAX_MEMORY_REGIONS_def demo_region_def sat_def)
  then have "\<exists>m'. boot_load_elf (boot_demo_elf 6) ?r 1 m = (m', Done 0x100000)" for m
    by (simp add: boot_load_elf_def demo_header demo_offsets demo_seg place_seg_def sat_def KERNEL_LOAD_PHYS_LIMIT_def Let_def)
  then obtain f where f: "\<And>m. boot_load_elf (boot_demo_elf 6) ?r 1 m = (f m, Done 0x100000)" by metis
  have fw: "fw_handles demo_fw = Some [demo_handle]" "fw_stack demo_fw = 1" "fw_boot_info demo_fw = 0x300000" by (simp_all add: demo_fw_def)
  show ?thesis unfolding boot_main_def load_drivers_def fw boot_kernel_file boot_no_drivers
    by (simp add: reg f [simplified] Let_def)
qed

theorem boot_handoff_witness:
  "\<exists>m' bi. boot_main demo_fw (\<lambda>_. 0) = Jump 0x100000 0x300000 m' bi \<and> ap_count bi \<le> 3
     \<and> kernel_image bi = (0x200000, 124) \<and> drivers_elf bi = (0, 0)
     \<and> held m' 0x300000 (boot_info_bytes (\<lambda>_. 0) bi) (within 0x100000 6) \<and> m' 0x200000 = 0x7f \<and> m' 0x5002 = 0x30"
proof -
  obtain m' bi where j: "boot_main demo_fw (\<lambda>_. 0) = Jump 0x100000 0x300000 m' bi" using boot_demo by blast
  have fw: "fw_handles demo_fw = Some [demo_handle]" "fw_stack demo_fw = 1" "fw_boot_info demo_fw = 0x300000"
      "fw_kernel_buf demo_fw = 0x200000" "fw_drivers_buf demo_fw = 0" "fw_padding demo_fw = (\<lambda>_ _. 0)"
    by (simp_all add: demo_fw_def)
  have drv: "drivers_file demo_fw = None" by (simp add: drivers_file_def fw boot_no_drivers [simplified])
  have seg: "in_seg \<lparr> g_offset = 120, g_paddr = 0x100000, g_filesz = 4, g_memsz = 6 \<rparr> = within 0x100000 6"
    by (simp add: fun_eq_iff in_seg_def within_def span_def)
  obtain elf where elf: "load_kernel_from_ext4 1 (Some [demo_handle]) = Done elf"
      "kernel_image bi = (0x200000, length elf)" "ap_count bi \<le> 3" "drivers_elf bi = (0, 0)"
      "held m' 0x300000 (boot_info_bytes (\<lambda>_. 0) bi) (\<lambda>x. \<exists>g \<in> set (load_segs elf (header_offsets elf)). in_seg g x)"
      "held m' 0x200000 elf (\<lambda>x. within 0 0 x \<or> within 0x300000 2200 x \<or> (\<exists>g \<in> set (load_segs elf (header_offsets elf)). in_seg g x))"
      "held m' 0x5000 (to_le 8 0x300000) (\<lambda>x. within 0x200000 (length elf) x \<or> within 0 0 x \<or> within 0x300000 2200 x
         \<or> (\<exists>g \<in> set (load_segs elf (header_offsets elf)). in_seg g x))"
    using boot_handoff [OF j] unfolding fw drv option.case list.size Let_def by blast
  have e: "elf = boot_demo_elf 6" using elf(1) boot_kernel_file by simp
  have first: "boot_demo_elf 6 ! 0 = 0x7f" "to_le 8 0x300000 ! 2 = 0x30"
    by (simp_all add: boot_demo_elf_def nth_to_le)
  have "m' 0x200000 = 0x7f"
    using elf(6) by (auto simp: held_def e demo_segs seg within_def demo_header first dest!: spec [of _ 0])
  moreover have "m' 0x5002 = 0x30"
    using elf(7) by (auto simp: held_def e demo_segs seg within_def demo_header first dest!: spec [of _ 2])
  ultimately show ?thesis using j elf(2-5) by (intro exI [of _ m'] exI [of _ bi]) (simp add: e demo_segs seg demo_header)
qed

end
