(* ===== verification/Spec2Isabelle.thy ===== *)
theory Spec2Isabelle
  imports Phys_Theorems Free_List Percpu Sync Service Vma_Theorems Heap_Theorems Sched_Correct Sched_Theorems
    System_Theorems Gdf_Theorems Elf_Theorems Intr_Theorems Disasm Ext4_Theorems Boot_Theorems
begin

text \<open>
  A verification development for LodaxOS, a microkernel for x86-64 written in Rust, and its boot loader. Paths are
  relative to \<^verbatim>\<open>src/\<close>.

  \<^bold>\<open>The program.\<close> The boot loader (\<^verbatim>\<open>boot/\<close>) reads the kernel from an ext4 partition, places its segments and
  jumps to it with a description of the machine. The kernel (\<^verbatim>\<open>kernel/\<close>) manages physical pages
  (\<^verbatim>\<open>mm/phys.rs\<close>), page tables (\<^verbatim>\<open>mm/virt.rs\<close>), memory areas (\<^verbatim>\<open>mm/vma.rs\<close>) and a heap (\<^verbatim>\<open>mm/heap.rs\<close>); it
  schedules gangs of virtual CPUs (\<^verbatim>\<open>vcpu.rs\<close>, \<^verbatim>\<open>scheduler.rs\<close>, \<^verbatim>\<open>percpu.rs\<close>); it loads ELF images
  (\<^verbatim>\<open>exec.rs\<close>) as drivers that it supervises and restarts (\<^verbatim>\<open>gdf.rs\<close>, \<^verbatim>\<open>service.rs\<close>); it reads the firmware's
  tables (\<^verbatim>\<open>acpi/\<close>), routes interrupts (\<^verbatim>\<open>intr/\<close>, \<^verbatim>\<open>arch/ioapic.rs\<close>) and handles interrupts, exceptions and
  system calls (\<^verbatim>\<open>arch/idt.rs\<close>). Pages flow upwards: the page tables, the memory areas, the heap, the
  vCPU stacks and the images all take their pages from the physical allocator and give them back to
  it, and the states of the theories are nested in that way.

  \<^bold>\<open>Conventions.\<close> A struct is a record and an enum a datatype. Machine integers are words of their width, or
  numbers with the width written out; identifiers and indices are numbers. The repository is built
  with overflow checks and \<^verbatim>\<open>panic = "abort"\<close>, so a function that can panic returns an option whose
  \<open>None\<close> is the abort; errors the code returns are values inside it (\<open>load_error\<close>, an inner option,
  the type \<open>res\<close> of the boot loader). An operation is one state transformer and one step of the
  step relations: its effect when no other CPU enters the same component meanwhile. For most
  operations a lock held throughout ensures this. The page allocator takes one lock per order and
  releases it between two orders, so an interleaving of two CPUs in the middle of \<^verbatim>\<open>alloc_order\<close> or
  \<^verbatim>\<open>coalesce\<close> is outside the model. An operation that waits half-way (\<^verbatim>\<open>driver_call\<close>) is two steps, and
  each round of the deferred restarts is also a step of its own. What a step reads from the
  hardware, the addresses the global allocator picks and the answers of the UEFI firmware are
  arguments.

  \<^bold>\<open>Theories.\<close>
  \<^item> \<open>Lodax_Prelude\<close>: machine arithmetic, little-endian numbers, and the locale \<open>step_invariant\<close> that carries an
    invariant along a step relation.
  \<^item> \<open>Phys\<close>, \<open>Phys_Correct\<close>, \<open>Phys_Reserve\<close>, \<open>Phys_Theorems\<close>: the buddy allocator of \<^verbatim>\<open>mm/phys.rs\<close>. The free lists are
    abstracted to the multiset of free pages; each entry point is one equation on it and keeps the
    invariant, and where it can abort on arithmetic the condition is exact. Freed blocks are merged
    as far as their buddies are free (\<open>merged_at\<close>). \<open>Free_List\<close> has the intrusive lists at pointer level and
    shows, through one contract with two interpretations, that they implement the lists of \<open>Phys\<close>.
    \<open>Page_Alloc\<close> is the contract \<open>page_source\<close> under which other parts take single pages.
  \<^item> \<open>Table_Tree\<close>, \<open>Virt\<close>, \<open>Virt_Correct\<close>, \<open>Virt_Theorems\<close>: the page tables of \<^verbatim>\<open>mm/virt.rs\<close> over a word-addressed
    memory. The locale \<open>table_tree\<close> is the shape they share with the radix tree; \<^verbatim>\<open>map_page\<close> installs
    exactly one translation.
  \<^item> \<open>Vma\<close>, \<open>Vma_Correct\<close>, \<open>Vma_Theorems\<close>: the radix tree of \<^verbatim>\<open>mm/vma.rs\<close> as a finite map, and the page-fault handler.
  \<^item> \<open>Heap\<close>, \<open>Heap_Lists\<close>, \<open>Heap_Correct\<close>, \<open>Heap_Grow\<close>, \<open>Heap_Theorems\<close>: the slab allocator of \<^verbatim>\<open>mm/heap.rs\<close> with its linked
    slab lists; allocation returns a free slot and nothing else changes, release undoes it.
  \<^item> \<open>Sync\<close>: the spinlock of \<^verbatim>\<open>sync.rs\<close>, one atomic access per step, for any number of CPUs.
  \<^item> \<open>Percpu\<close>, \<open>Slot_Table\<close>, \<open>Service\<close>, \<open>Vcpu\<close>: ready queues as bounded queues, the tables of CPUs, services and vCPUs
    under the contract \<open>slot_table\<close>.
  \<^item> \<open>Sched\<close>, \<open>Sched_Correct\<close>, \<open>Sched_Keeps\<close>, \<open>Sched_Excl\<close>, \<open>Sched_Steps\<close>, \<open>Sched_Create\<close>, \<open>Sched_Theorems\<close>: the gang scheduler
    of \<^verbatim>\<open>scheduler.rs\<close>: its choices against a reference definition of a least key, progress, saving
    and restoring a context, and the invariant that no vCPU is recorded as current on two CPUs.
    \<open>running_on\<close> is what the per-CPU table records; after a step that does not switch, the CPU
    returns to the interrupted frame although the idle vCPU is recorded.
  \<^item> \<open>Elf\<close>, \<open>Elf_Theorems\<close>: the loader of \<^verbatim>\<open>exec.rs\<close>: which header tables its first pass accepts, refuses or aborts
    on, and the contents of a filled segment. \<open>Gdf\<close>, \<open>Gdf_Keeps\<close>, \<open>Gdf_Excl\<close>, \<open>Gdf_Theorems\<close>: the driver
    framework of \<^verbatim>\<open>gdf.rs\<close>, its mailboxes and restarts, and that it keeps the scheduler's invariant.
  \<^item> \<open>Acpi\<close>, \<open>Intr\<close>, \<open>Intr_Theorems\<close>: the firmware tables and interrupt routing; parsing returns what was
    encoded, and the routing table has one route for each request of the firmware's description
    that has a controller and a vector.
  \<^item> \<open>Syscall\<close>, \<open>Interrupt\<close>, \<open>System\<close>, \<open>Kernel\<close>, \<open>System_Theorems\<close>: every system call, interrupt and exception of
    \<^verbatim>\<open>arch/idt.rs\<close>. The relation \<open>sys_step\<close> joins them with the operations of the scheduler and the
    driver framework; mutual exclusion of the recorded vCPUs holds in all its reachable states. System
    calls and interrupts are steps of a CPU that is registered and has its idle vCPU (\<open>good\<close>), and an
    exception that could halt or end the recorded vCPU needs that one not to be the idle one
    (\<open>may_trap\<close>).
  \<^item> \<open>Disasm\<close>: the disassembler of \<^verbatim>\<open>arch/disasm.rs\<close> and the listing loop of the console's \<^verbatim>\<open>disasm\<close> command
    (\<^verbatim>\<open>katerm/termcmds/cmd_symbols.rs\<close>); lengths are positive and in bounds, so the listing ends.
  \<^item> \<open>Ext4\<close>, \<open>Ext4_Theorems\<close>: the ext4 reader of \<^verbatim>\<open>boot/src/load_kernel.rs\<close>. If the firmware reads what is on the disk
    (\<open>reads_disk\<close>), sector reads are slices of it, files are what their extents say, and the
    directory walk finds the first entry of a name.
  \<^item> \<open>Boot\<close>, \<open>Boot_Theorems\<close>: \<^verbatim>\<open>load_elf\<close> of the boot loader, \<^verbatim>\<open>boot/src/mp.rs\<close> and \<^verbatim>\<open>boot/src/main.rs\<close> up to the jump: where
    the segments go, what they contain, and what is in memory for the kernel at the jump: the boot
    information in C layout, the handoff word and the two files.

  \<^bold>\<open>Loops, bounds and fuel.\<close> Loops over tables and counters are recursive functions with a termination proof: merging
  goes up in order, ranges shrink, the walk over firmware entries and the directory walk advance by
  a length they have tested not to be 0. Walks along pointers (\<open>remove_loop\<close>, \<open>find_slab_in\<close> and
  their like) and the listing of instructions are partial functions in which not returning is \<open>None\<close>;
  the walks return on well-formed lists, and the listing always returns. Two families have
  fuel. \<open>process_deferred_restarts\<close> has one unit per round, and as many as there are queued restarts
  are enough. The recursion over extent nodes has one unit per nested call, using them up is the
  overflow of the stack, and a tree with \<open>d\<close> levels of index nodes needs \<open>d + 1\<close>; a cyclic tree uses up any
  amount (\<open>extent_cycle\<close>).

  \<^bold>\<open>Defects.\<close> Where the code does not do what it means to, the model follows the code, and the theories of properties
  have theorems that exhibit it: for example \<open>syscall_escalates\<close>, \<open>sleeping_gang_starves\<close>, \<open>elf_overrun\<close>,
  \<open>translate_misreads_2mb\<close>, \<open>kmalloc_misaligned\<close>, \<open>disasm_misreads\<close> and \<open>boot_load_overrun\<close>.

  \<^bold>\<open>Not modelled.\<close> Descriptor tables, the local APIC, the start of the other CPUs and the assembly stubs
  (\<^verbatim>\<open>arch/gdt.rs\<close>, \<^verbatim>\<open>arch/apic.rs\<close>, \<^verbatim>\<open>arch/smp.rs\<close>, \<^verbatim>\<open>ap_start.rs\<close>): they program the processor, and what other parts
  see of them are arguments and fields. Crash dumps, logging and the serial ports: output only. The
  symbol table: generated. The kernel's entry: a sequence of calls. The debug console and its text
  interface (\<^verbatim>\<open>katerm/\<close>) apart from the listing loop: interactive input and printing. The drivers
  (\<^verbatim>\<open>drivers/\<close>): programs outside the kernel. The sector cache of the boot loader: never
  called. Weak memory and interference inside an operation are not modelled; the
  compare-exchange loops of \<^verbatim>\<open>ensure_table\<close> run without competitors. The entry of system calls is
  taken to have a kernel stack that its pushes do not fault on, and firmware tables not to reach
  the end of the address space. The temporary buffers of the boot loader's file reader are values,
  not memory.
\<close>

end
